(* ===== verification/Prelude.thy ===== *)
theory Prelude
  imports Complex_Main "HOL-Library.List_Lexorder" "HOL-Library.Char_ord"
begin

text \<open>
  Shared vocabulary of the development: the collections of simplification facts that the
  component theories extend, and the generic facts on lists, folds and ASCII strings that
  several components use.
\<close>

named_theorems py_simps \<open>evaluation of the operations on Python values\<close>
named_theorems verdict_simps \<open>evaluation of the verdict and envelope operations\<close>
named_theorems guard_simps \<open>unfolding of guards and early returns\<close>

section \<open>Folds that only extend a list\<close>

text \<open>
  Many loops of the program append to several lists. A projection \<open>g\<close> of the loop state that
  every iteration extends by \<open>h x\<close> ends as the concatenation of the extensions.
\<close>

lemma fold_extends:
  assumes "\<And>x s. x \<in> set xs \<Longrightarrow> g (f x s) = g s @ h x"
  shows "g (fold f xs s) = g s @ concat (map h xs)"
  using assms by (induction xs arbitrary: s) auto

lemma fold_adds:
  fixes g :: "'s \<Rightarrow> nat"
  assumes "\<And>x s. x \<in> set xs \<Longrightarrow> g (f x s) = g s + h x"
  shows "g (fold f xs s) = g s + sum_list (map h xs)"
  using assms by (induction xs arbitrary: s) auto

lemma fold_keeps:
  assumes "\<And>x s. x \<in> set xs \<Longrightarrow> g (f x s) = g s"
  shows "g (fold f xs s) = g s"
  using assms by (induction xs arbitrary: s) auto

text \<open>An invariant that every iteration preserves.\<close>

lemma fold_invariant:
  assumes "P s" and "\<And>x s. x \<in> set xs \<Longrightarrow> P s \<Longrightarrow> P (f x s)"
  shows "P (fold f xs s)"
  using assms by (induction xs arbitrary: s) auto

text \<open>A test of the loop state that every iteration narrows by a test of its element.\<close>

lemma fold_conj:
  assumes "\<And>x s. x \<in> set xs \<Longrightarrow> P (f x s) \<longleftrightarrow> P s \<and> Q x"
  shows "P (fold f xs s) \<longleftrightarrow> P s \<and> (\<forall>x \<in> set xs. Q x)"
  using assms by (induction xs arbitrary: s) auto

text \<open>A fact that one iteration establishes and every later one keeps.\<close>

lemma fold_establishes:
  assumes "x \<in> set xs"
    and "\<And>s. Q (f x s)"
    and "\<And>y s. y \<in> set xs \<Longrightarrow> Q s \<Longrightarrow> Q (f y s)"
  shows "Q (fold f xs s)"
  using assms
proof (induction xs arbitrary: s)
  case Nil
  then show ?case by simp
next
  case (Cons z zs)
  show ?case
  proof (cases "x \<in> set zs")
    case True
    with Cons show ?thesis by simp
  next
    case False
    with Cons.prems have "Q (f z s)" by auto
    then have "Q (fold f zs (f z s))"
      by (rule fold_invariant) (use Cons.prems in auto)
    then show ?thesis by simp
  qed
qed

lemma sum_list_zero_iff: "sum_list (xs :: nat list) = 0 \<longleftrightarrow> (\<forall>x \<in> set xs. x = 0)"
  by (induction xs) auto

section \<open>Loops that may fail\<close>

text \<open>A loop whose body may raise: the first error ends it.\<close>

fun fold_err :: "('a \<Rightarrow> 's \<Rightarrow> 'e + 's) \<Rightarrow> 'a list \<Rightarrow> 's \<Rightarrow> 'e + 's" where
  "fold_err f [] s = Inr s"
| "fold_err f (x # xs) s = (case f x s of Inl e \<Rightarrow> Inl e | Inr s' \<Rightarrow> fold_err f xs s')"

lemma fold_err_append:
  "fold_err f (xs @ ys) s = (case fold_err f xs s of Inl e \<Rightarrow> Inl e | Inr s' \<Rightarrow> fold_err f ys s')"
  by (induction xs arbitrary: s) (auto split: sum.split)

lemma fold_err_invariant:
  assumes "fold_err f xs s = Inr s'" and "P s"
    and "\<And>x s s'. x \<in> set xs \<Longrightarrow> P s \<Longrightarrow> f x s = Inr s' \<Longrightarrow> P s'"
  shows "P s'"
  using assms
proof (induction xs arbitrary: s)
  case (Cons a xs)
  then obtain t where t: "f a s = Inr t" "fold_err f xs t = Inr s'"
    by (auto split: sum.splits)
  with Cons.prems have "P t" by (metis list.set_intros(1))
  with t Cons show ?case by (metis list.set_intros(2))
qed simp

lemma fold_err_all:
  assumes "fold_err f xs s = Inr s'" and "x \<in> set xs"
  shows "\<exists>t t'. f x t = Inr t'"
  using assms by (induction xs arbitrary: s) (auto split: sum.splits)

section \<open>ASCII text\<close>

text \<open>
  Text is a \<open>char list\<close>. \<open>str.lower()\<close> and \<open>str.strip()\<close> are modelled on ASCII: the
  letters A to Z, and the whitespace that \<open>str.isspace\<close> accepts below 128.
\<close>

definition lower_char :: "char \<Rightarrow> char" where
  "lower_char c =
     (let n = (of_char c :: nat) in if 65 \<le> n \<and> n \<le> 90 then char_of (n + 32) else c)"

definition py_lower :: "string \<Rightarrow> string" where
  "py_lower s = map lower_char s"

definition is_space :: "char \<Rightarrow> bool" where
  "is_space c = (let n = (of_char c :: nat) in (9 \<le> n \<and> n \<le> 13) \<or> (28 \<le> n \<and> n \<le> 32))"

definition py_lstrip :: "string \<Rightarrow> string" where
  "py_lstrip s = dropWhile is_space s"

definition py_strip :: "string \<Rightarrow> string" where
  "py_strip s = rev (dropWhile is_space (rev (py_lstrip s)))"

lemma lower_char_idem [simp]: "lower_char (lower_char c) = lower_char c"
proof -
  have "of_char (char_of (n + 32) :: char) = n + 32" if "n \<le> 90" for n :: nat
    using that by simp
  then show ?thesis by (auto simp: lower_char_def Let_def)
qed

lemma py_lower_idem [simp]: "py_lower (py_lower s) = py_lower s"
  by (simp add: py_lower_def)

lemma py_lower_Nil [simp]: "py_lower [] = []"
  by (simp add: py_lower_def)

lemma py_lower_empty_iff [simp]: "py_lower s = [] \<longleftrightarrow> s = []"
  by (simp add: py_lower_def)

text \<open>\<open>s.split(sep)\<close> for a one-character separator: never empty.\<close>

fun py_split :: "char \<Rightarrow> string \<Rightarrow> string list" where
  "py_split sep [] = [[]]"
| "py_split sep (c # cs) =
     (if c = sep then [] # py_split sep cs
      else (case py_split sep cs of [] \<Rightarrow> [[c]] | w # ws \<Rightarrow> (c # w) # ws))"

lemma py_split_not_Nil [simp]: "py_split sep s \<noteq> []"
  by (induction s) (auto split: list.splits)

lemma py_split_single: "sep \<notin> set s \<Longrightarrow> py_split sep s = [s]"
  by (induction s) auto

section \<open>Association lists as insertion-ordered dictionaries\<close>

text \<open>
  A Python \<open>dict\<close> whose iteration order matters is an association list with distinct keys.
  \<open>d[k] = v\<close> replaces the value in place or appends; \<open>d.setdefault(k, v)\<close> keeps the value that is
  there.
\<close>

fun alist_set :: "'k \<Rightarrow> 'v \<Rightarrow> ('k \<times> 'v) list \<Rightarrow> ('k \<times> 'v) list" where
  "alist_set k v [] = [(k, v)]"
| "alist_set k v ((k', v') # d) = (if k' = k then (k, v) # d else (k', v') # alist_set k v d)"

definition alist_setdefault :: "'k \<Rightarrow> 'v \<Rightarrow> ('k \<times> 'v) list \<Rightarrow> ('k \<times> 'v) list" where
  "alist_setdefault k v d = (if k \<in> fst ` set d then d else d @ [(k, v)])"

lemma map_of_alist_set [simp]: "map_of (alist_set k v d) = (map_of d)(k \<mapsto> v)"
  by (induction k v d rule: alist_set.induct) (auto simp: fun_upd_twist)

lemma keys_alist_set: "fst ` set (alist_set k v d) = insert k (fst ` set d)"
  by (induction k v d rule: alist_set.induct) auto

lemma distinct_alist_set:
  "distinct (map fst d) \<Longrightarrow> distinct (map fst (alist_set k v d))"
proof (induction k v d rule: alist_set.induct)
  case (2 k v k' v' d)
  then show ?case
    using keys_alist_set [of k v d] by (auto simp: image_iff)
qed simp

lemma set_alist_setdefault:
  "set (alist_setdefault k v d) = (if k \<in> fst ` set d then set d else insert (k, v) (set d))"
  by (auto simp: alist_setdefault_def)

lemma alist_setdefault_not_Nil [simp]: "alist_setdefault k v d \<noteq> []"
  by (auto simp: alist_setdefault_def)

end
