(* ===== verification/Py_Value.thy ===== *)
theory Py_Value
  imports Prelude
begin

text \<open>
  The Python values that JSON text, the Knowledge Graph and a measurement are made of, and the
  built-in operations the framework applies to them: \<open>dict.get\<close>, \<open>in\<close>, \<open>==\<close>, \<open><=\<close>, truth value,
  \<open>isinstance\<close>.

  An \<open>int\<close> is unbounded. A \<open>float\<close> is a finite double, represented by the rational number it
  stands for (\<open>-0.0\<close> and \<open>0.0\<close>, which compare equal, are one value), NaN or an infinity: Python
  compares an \<open>int\<close> with a \<open>float\<close> exactly, which is comparison of rationals. \<open>bool\<close> is a subclass of
  \<open>int\<close>, so \<open>True == 1\<close>. Dictionaries keep insertion order. The identity shortcut that makes a NaN
  object equal to itself inside a container is not modelled: two NaN are unequal everywhere.
\<close>

datatype pyfloat = Fin rat | NaN | PosInf | NegInf

datatype py =
    PyNone
  | PyBool bool
  | PyInt int
  | PyFloat pyfloat
  | PyStr string
  | PyList "py list"
  | PyTuple "py list"
  | PyDict "(string \<times> py) list"

type_synonym obj = "(string \<times> py) list"

section \<open>Type tests\<close>

fun is_bool :: "py \<Rightarrow> bool" where
  "is_bool (PyBool _) = True" | "is_bool _ = False"

fun is_int :: "py \<Rightarrow> bool" where
  "is_int (PyInt _) = True" | "is_int (PyBool _) = True" | "is_int _ = False"

fun is_float :: "py \<Rightarrow> bool" where
  "is_float (PyFloat _) = True" | "is_float _ = False"

fun is_str :: "py \<Rightarrow> bool" where
  "is_str (PyStr _) = True" | "is_str _ = False"

fun is_dict :: "py \<Rightarrow> bool" where
  "is_dict (PyDict _) = True" | "is_dict _ = False"

fun seq_items :: "py \<Rightarrow> py list option" where
  "seq_items (PyList xs) = Some xs" | "seq_items (PyTuple xs) = Some xs" | "seq_items _ = None"

fun list_items :: "py \<Rightarrow> py list option" where
  "list_items (PyList xs) = Some xs" | "list_items _ = None"

fun str_of :: "py \<Rightarrow> string option" where
  "str_of (PyStr s) = Some s" | "str_of _ = None"

fun dict_of :: "py \<Rightarrow> obj option" where
  "dict_of (PyDict d) = Some d" | "dict_of _ = None"

definition is_number :: "py \<Rightarrow> bool" where
  "is_number v = (is_int v \<or> is_float v)"

fun is_finite :: "pyfloat \<Rightarrow> bool" where
  "is_finite (Fin _) = True" | "is_finite _ = False"

text \<open>The truth value of a value, as in \<open>if v:\<close>.\<close>

fun truthy :: "py \<Rightarrow> bool" where
  "truthy PyNone = False"
| "truthy (PyBool b) = b"
| "truthy (PyInt i) = (i \<noteq> 0)"
| "truthy (PyFloat x) = (x \<noteq> Fin 0)"
| "truthy (PyStr s) = (s \<noteq> [])"
| "truthy (PyList xs) = (xs \<noteq> [])"
| "truthy (PyTuple xs) = (xs \<noteq> [])"
| "truthy (PyDict d) = (d \<noteq> [])"

section \<open>Dictionary access\<close>

text \<open>\<open>d.get(k)\<close> and \<open>d.get(k, default)\<close>.\<close>

definition dget :: "obj \<Rightarrow> string \<Rightarrow> py" where
  "dget d k = (case map_of d k of None \<Rightarrow> PyNone | Some v \<Rightarrow> v)"

definition dget_default :: "obj \<Rightarrow> string \<Rightarrow> py \<Rightarrow> py" where
  "dget_default d k dflt = (case map_of d k of None \<Rightarrow> dflt | Some v \<Rightarrow> v)"

definition has_key :: "obj \<Rightarrow> string \<Rightarrow> bool" where
  "has_key d k = (map_of d k \<noteq> None)"

section \<open>Numbers\<close>

text \<open>The number a value stands for in arithmetic and comparison; booleans are 0 and 1.\<close>

fun num_of :: "py \<Rightarrow> pyfloat option" where
  "num_of (PyBool b) = Some (Fin (if b then 1 else 0))"
| "num_of (PyInt i) = Some (Fin (of_int i))"
| "num_of (PyFloat x) = Some x"
| "num_of _ = None"

fun float_eq :: "pyfloat \<Rightarrow> pyfloat \<Rightarrow> bool" where
  "float_eq (Fin a) (Fin b) = (a = b)"
| "float_eq PosInf PosInf = True"
| "float_eq NegInf NegInf = True"
| "float_eq _ _ = False"

fun float_le :: "pyfloat \<Rightarrow> pyfloat \<Rightarrow> bool" where
  "float_le NaN _ = False"
| "float_le _ NaN = False"
| "float_le NegInf _ = True"
| "float_le _ PosInf = True"
| "float_le (Fin a) (Fin b) = (a \<le> b)"
| "float_le _ _ = False"

definition float_less :: "pyfloat \<Rightarrow> pyfloat \<Rightarrow> bool" where
  "float_less a b = (float_le a b \<and> \<not> float_eq a b)"

text \<open>The exact value of a number that is neither a boolean nor non-finite.\<close>

fun real_of :: "py \<Rightarrow> rat option" where
  "real_of (PyInt i) = Some (of_int i)"
| "real_of (PyFloat (Fin q)) = Some q"
| "real_of _ = None"

text \<open>\<open>a <= b\<close> and \<open>a < b\<close> on two numbers (Python raises \<open>TypeError\<close> on other operands; the code compares
  numbers only).\<close>

definition py_le :: "py \<Rightarrow> py \<Rightarrow> bool" where
  "py_le a b = (case (num_of a, num_of b) of (Some x, Some y) \<Rightarrow> float_le x y | _ \<Rightarrow> False)"

definition py_less :: "py \<Rightarrow> py \<Rightarrow> bool" where
  "py_less a b = (case (num_of a, num_of b) of (Some x, Some y) \<Rightarrow> float_less x y | _ \<Rightarrow> False)"

text \<open>What \<open>for x in v\<close> yields: \<open>None\<close> where Python raises \<open>TypeError\<close>.\<close>

fun iter_items :: "py \<Rightarrow> py list option" where
  "iter_items (PyList xs) = Some xs"
| "iter_items (PyTuple xs) = Some xs"
| "iter_items (PyDict d) = Some (map (PyStr \<circ> fst) d)"
| "iter_items (PyStr s) = Some (map (\<lambda>c. PyStr [c]) s)"
| "iter_items _ = None"

section \<open>Equality\<close>

text \<open>
  \<open>a == b\<close>: numbers by value, text, lists and tuples elementwise (a list is never equal to a tuple),
  dictionaries by key, in any order.
\<close>

fun py_eq :: "py \<Rightarrow> py \<Rightarrow> bool"
  and py_eq_list :: "py list \<Rightarrow> py list \<Rightarrow> bool"
  and py_sub_dict :: "obj \<Rightarrow> obj \<Rightarrow> bool"
where
  "py_eq PyNone b = (b = PyNone)"
| "py_eq (PyStr s) b = (b = PyStr s)"
| "py_eq (PyList xs) b = (case b of PyList ys \<Rightarrow> py_eq_list xs ys | _ \<Rightarrow> False)"
| "py_eq (PyTuple xs) b = (case b of PyTuple ys \<Rightarrow> py_eq_list xs ys | _ \<Rightarrow> False)"
| "py_eq (PyDict d) b =
     (case b of PyDict e \<Rightarrow> length d = length e \<and> py_sub_dict d e | _ \<Rightarrow> False)"
| "py_eq (PyBool x) b = (case num_of b of None \<Rightarrow> False | Some y \<Rightarrow> float_eq (Fin (if x then 1 else 0)) y)"
| "py_eq (PyInt i) b = (case num_of b of None \<Rightarrow> False | Some y \<Rightarrow> float_eq (Fin (of_int i)) y)"
| "py_eq (PyFloat x) b = (case num_of b of None \<Rightarrow> False | Some y \<Rightarrow> float_eq x y)"
| "py_eq_list [] ys = (ys = [])"
| "py_eq_list (x # xs) ys = (case ys of [] \<Rightarrow> False | z # zs \<Rightarrow> py_eq x z \<and> py_eq_list xs zs)"
| "py_sub_dict [] e = True"
| "py_sub_dict ((k, v) # d) e =
     ((case map_of e k of None \<Rightarrow> False | Some w \<Rightarrow> py_eq v w) \<and> py_sub_dict d e)"

text \<open>\<open>v in xs\<close> on a list.\<close>

definition py_in :: "py \<Rightarrow> py list \<Rightarrow> bool" where
  "py_in v xs = list_ex (\<lambda>x. py_eq v x) xs"

section \<open>Facts\<close>

lemma dget_Some [simp]: "map_of d k = Some v \<Longrightarrow> dget d k = v"
  by (simp add: dget_def)

lemma dget_None [simp]: "map_of d k = None \<Longrightarrow> dget d k = PyNone"
  by (simp add: dget_def)

lemma has_key_dget: "dget d k \<noteq> PyNone \<Longrightarrow> has_key d k"
  by (auto simp: dget_def has_key_def split: option.splits)

lemma num_of_real_of: "real_of v = Some q \<Longrightarrow> num_of v = Some (Fin q)"
  by (cases v rule: real_of.cases) auto

lemma real_of_not_bool: "real_of v = Some q \<Longrightarrow> \<not> is_bool v"
  by (cases v rule: real_of.cases) auto

lemma py_eq_num:
  "num_of a = Some x \<Longrightarrow> num_of b = Some y \<Longrightarrow> py_eq a b = float_eq x y"
  by (cases a) auto

lemma py_eq_real:
  assumes "real_of a = Some p" and "real_of b = Some q"
  shows "py_eq a b \<longleftrightarrow> p = q"
  using assms [THEN num_of_real_of] by (simp add: py_eq_num)

lemma py_le_real:
  "real_of a = Some p \<Longrightarrow> real_of b = Some q \<Longrightarrow> py_le a b \<longleftrightarrow> p \<le> q"
  by (auto simp: py_le_def dest!: num_of_real_of)

lemma py_less_real:
  "real_of a = Some p \<Longrightarrow> real_of b = Some q \<Longrightarrow> py_less a b \<longleftrightarrow> p < q"
  by (auto simp: py_less_def float_less_def dest!: num_of_real_of)

lemma float_eq_sym: "float_eq x y = float_eq y x"
  by (cases x; cases y) auto

lemma float_le_antisym: "float_le x y \<Longrightarrow> float_le y x \<Longrightarrow> float_eq x y"
  by (cases x; cases y) auto

lemma float_le_trans: "float_le x y \<Longrightarrow> float_le y z \<Longrightarrow> float_le x z"
  by (cases x; cases y; cases z) auto

lemma seq_items_cases:
  "seq_items v = Some xs \<Longrightarrow> v = PyList xs \<or> v = PyTuple xs"
  by (cases v) auto

lemma str_of_Some [simp]: "str_of v = Some s \<longleftrightarrow> v = PyStr s"
  by (cases v) auto

lemma dict_of_Some [simp]: "dict_of v = Some d \<longleftrightarrow> v = PyDict d"
  by (cases v) auto

lemma is_str_iff: "is_str v \<longleftrightarrow> (\<exists>s. v = PyStr s)"
  by (cases v) auto

end
