(* ===== verification/Envelope.thy ===== *)
theory Envelope
  imports Py_Value
begin

text \<open>
  The verdict envelope (\<open>tools/ski-schemas/src/ski_schemas/envelope.py\<close>): the five verdicts, the
  four verifier statuses, citations, formalizable assertions, the verifier result, the model
  provenance and the envelope itself.

  The diagnostic strings that the verifier, the evaluator and the risk policy write into an envelope
  are values of the datatypes \<open>reason\<close>, \<open>divergence\<close> and \<open>envelope_note\<close>: one constructor per f-string of
  the source, holding the values that string interpolates. \<open>divergence_kind\<close> is the text before the
  first colon, the only part of a divergence that the code reads back.
\<close>

section \<open>Verdicts and statuses\<close>

datatype verdict = CLEAR | FLAG | NULL_UNMAPPED | NULL_STALE | DISCRETIONARY

datatype verifier_status =
  AGREED | LLM_CONTRADICTION | NEURO_SYMBOLIC_DIVERGENCE | UNVERIFIABLE

fun verdict_name :: "verdict \<Rightarrow> string" where
  "verdict_name CLEAR = ''CLEAR''"
| "verdict_name FLAG = ''FLAG''"
| "verdict_name NULL_UNMAPPED = ''NULL_UNMAPPED''"
| "verdict_name NULL_STALE = ''NULL_STALE''"
| "verdict_name DISCRETIONARY = ''DISCRETIONARY''"

text \<open>\<open>V3Verdict(s)\<close>: the member with that value, \<open>None\<close> where Python raises \<open>ValueError\<close>.\<close>

definition verdict_of_name :: "string \<Rightarrow> verdict option" where
  "verdict_of_name s =
     (if s = ''CLEAR'' then Some CLEAR
      else if s = ''FLAG'' then Some FLAG
      else if s = ''NULL_UNMAPPED'' then Some NULL_UNMAPPED
      else if s = ''NULL_STALE'' then Some NULL_STALE
      else if s = ''DISCRETIONARY'' then Some DISCRETIONARY
      else None)"

fun status_name :: "verifier_status \<Rightarrow> string" where
  "status_name AGREED = ''AGREED''"
| "status_name LLM_CONTRADICTION = ''LLM_CONTRADICTION''"
| "status_name NEURO_SYMBOLIC_DIVERGENCE = ''NEURO_SYMBOLIC_DIVERGENCE''"
| "status_name UNVERIFIABLE = ''UNVERIFIABLE''"

definition status_of_name :: "string \<Rightarrow> verifier_status option" where
  "status_of_name s =
     (if s = ''AGREED'' then Some AGREED
      else if s = ''LLM_CONTRADICTION'' then Some LLM_CONTRADICTION
      else if s = ''NEURO_SYMBOLIC_DIVERGENCE'' then Some NEURO_SYMBOLIC_DIVERGENCE
      else if s = ''UNVERIFIABLE'' then Some UNVERIFIABLE
      else None)"

lemma verdict_of_name_name [simp]: "verdict_of_name (verdict_name v) = Some v"
  by (cases v) (simp_all add: verdict_of_name_def)

lemma verdict_of_name_Some: "verdict_of_name s = Some v \<Longrightarrow> s = verdict_name v"
  by (auto simp: verdict_of_name_def split: if_splits)

lemma status_of_name_name [simp]: "status_of_name (status_name v) = Some v"
  by (cases v) (simp_all add: status_of_name_def)

lemma status_of_name_Some: "status_of_name s = Some v \<Longrightarrow> s = status_name v"
  by (auto simp: status_of_name_def split: if_splits)

section \<open>Diagnostics\<close>

datatype reason =
    NonNumericOperands string py py
  | Comparison string py py bool
  | WithinNeedsNumber py
  | WithinNeedsBounds py
  | WithinBounds py py py bool
  | CannotCompare string py py
  | Equality string py py bool
  | NeedsNonEmptyList string py
  | Membership string py "py list" bool
  | NeedsBufferContext string
  | NeedsPositiveWindow string "int option"
  | AverageNeedsRange py
  | PeakNeedsNumber py
  | WindowQueryFailed string string
  | UnrecognisedWindow string
  | NoSamples string string int
  | PeakNotReported
  | WindowAverage string int rat py py bool "nat option"
  | WindowPeak string int rat py bool "nat option"
  | StatefulNeedsAverify string
  | NoHandler string

datatype unflagged_detail =
    OwnAssertionUnsatisfied
  | AssertionBreached reason
  | OwnEvaluationBreached reason

datatype divergence =
    SchemaViolation string string
  | SliceWithoutId nat py py
  | SliceRepeatedId string nat py py
  | UnitMismatch string py py py
  | FabricatedMetric string string "string list"
  | FabricatedBoolean string py string py
  | FabricatedObserved string py string py
  | FabricatedReference string
  | MetricMismatch string string py
  | PredicateMismatch string string py
  | FabricatedValue string py py
  | NotVerifiable string reason
  | Disagreement string bool bool reason
  | UnflaggedBreach string verdict unflagged_detail
  | OmittedUnverifiable string reason
  | OmittedObligation string reason
  | NoAssertions
  | InconsistentVerdict verdict bool
  | InvalidCitation py
  | OutputContract string
  | ClockSkew rat int

text \<open>The prefix of a divergence up to the first colon, for the kinds that route to DISCRETIONARY.\<close>

fun divergence_kind :: "divergence \<Rightarrow> string option" where
  "divergence_kind (SchemaViolation _ _) = Some ''SCHEMA_VIOLATION''"
| "divergence_kind (SliceWithoutId _ _ _) = Some ''SCHEMA_VIOLATION''"
| "divergence_kind (SliceRepeatedId _ _ _ _) = Some ''SCHEMA_VIOLATION''"
| "divergence_kind (UnitMismatch _ _ _ _) = Some ''UNIT_MISMATCH''"
| "divergence_kind (UnflaggedBreach _ _ _) = Some ''UNFLAGGED_BREACH''"
| "divergence_kind (OmittedUnverifiable _ _) = Some ''OMITTED_OBLIGATION_UNVERIFIABLE''"
| "divergence_kind (OmittedObligation _ _) = Some ''OMITTED_OBLIGATION''"
| "divergence_kind _ = None"

datatype freshness_item =
    StaleFor py int
  | InvalidFreshnessWindow py py
  | MissingFreshnessInputs py "string list"
  | FreshnessCheckFailed py string

datatype freshness_note =
    StaleNote "string option" "int option" "freshness_item list"
  | UndecidableNote "freshness_item list"

datatype missing_reading =
    MissingMeasurement py py py py
  | MissingObserved string string py string

datatype envelope_note =
    IndependentCheck string reason
  | SatisfiedNormalised string bool bool reason
  | ClearOnMissingTelemetry "missing_reading list"
  | ClearWithoutAssertions bool verdict
  | FreshnessKept freshness_note
  | FreshnessOverride freshness_note verdict verdict
  | FailClosedNote nat "string list" verdict
  | BreachFloorNote "string list" verdict
  | TierNotDeclared
  | TierNotRecognised string
  | ForcedOnUnverifiable
  | Tier1RequiresAgreed verifier_status
  | Tier2Contradiction
  | Tier2Divergence
  | Tier2UnverifiableAccepted
  | Tier3Contradiction
  | Tier3Accepted verifier_status
  | ClockSkewNote rat int

datatype reasoning_text =
    LLMReasoning string
  | CitationEnforcement "py list"
  | OutputContractReasoning string
  | ClockSkewReasoning

section \<open>Records of the envelope\<close>

datatype citation_role =
  Obligation_Role | Definition_Resolved | Exemption_Considered | Precedent_Referenced | Jurisdiction_Matched

record kg_citation =
  node_id :: string
  version :: string
  role :: citation_role

record assertion =
  predicate :: string
  metric :: string
  "value" :: py
  observed :: py
  satisfied :: bool
  obligation_id :: string
  window_seconds :: "int option"

record verifier_result =
  status :: verifier_status
  checked_assertions :: nat
  divergences :: "divergence list"

record model_provenance =
  model_weight_hash :: string
  kg_version_hash :: string
  prompt_template_id :: string
  prompt_template_hash :: string
  decoder_seed :: int
  structured_grammar_hash :: string
  model_hash_verified :: "bool option"
  inference_backend :: "string option"
  kg_signer_key_id :: "string option"
  kg_trust :: "string option"

record envelope =
  verdict :: verdict
  reasoning :: reasoning_text
  kg_citations :: "kg_citation list"
  formalizable_assertions :: "assertion list"
  verifier_result :: verifier_result
  model_provenance :: model_provenance
  transcript_ref :: string
  human_attestation :: "obj option"
  envelope_notes :: "envelope_note list"
  verdict_path :: "string option"

text \<open>\<open>{"required": True, "fulfilled": False}\<close>\<close>

definition attestation_required :: obj where
  "attestation_required = [(''required'', PyBool True), (''fulfilled'', PyBool False)]"

end
