(* ===== verification/Predicates.thy ===== *)
theory Predicates
  imports Envelope
begin

text \<open>
  The predicate handlers of the Symbolic Verifier (\<open>ski_model/v3/verifier.py\<close>, lines 110 to 602):
  how one predicate is evaluated on an observed reading and an operand, without the language model.
  The stateless handlers are functions of two values; the stateful ones query a telemetry buffer,
  which is a record of functions here (the \<open>BufferLike\<close> protocol).

  The lemmas relate every numeric handler to an abstract bound on the exact rational reading, and
  show that a boolean or a non-finite number never decides compliance.
\<close>

section \<open>Predicate names\<close>

definition spec_obligation_types :: "string list" where
  "spec_obligation_types =
     [''must'', ''must_not'', ''must_not_exceed'', ''must_be_at_least'', ''must_be_below'',
      ''must_be_above'', ''must_be_within'', ''must_be_one_of'', ''must_not_be_one_of'',
      ''must_be_recorded_within'', ''should'', ''discretionary'']"

section \<open>Outcome of one mechanical check\<close>

record check_outcome =
  mechanically_satisfied :: "bool option"
  outcome_reason :: reason

abbreviation undecided :: "reason \<Rightarrow> check_outcome" where
  "undecided r \<equiv> \<lparr>mechanically_satisfied = None, outcome_reason = r\<rparr>"

abbreviation decided :: "bool \<Rightarrow> reason \<Rightarrow> check_outcome" where
  "decided ok r \<equiv> \<lparr>mechanically_satisfied = Some ok, outcome_reason = r\<rparr>"

definition is_real :: "py \<Rightarrow> bool" where
  "is_real v =
     (if is_bool v then False
      else if is_int v then True
      else (case v of PyFloat x \<Rightarrow> is_finite x | _ \<Rightarrow> False))"

definition non_numeric :: "string \<Rightarrow> py \<Rightarrow> py \<Rightarrow> check_outcome option" where
  "non_numeric p obs v =
     (if \<not> (is_real obs \<and> is_real v) then Some (undecided (NonNumericOperands p obs v)) else None)"

definition non_finite_float :: "py \<Rightarrow> bool" where
  "non_finite_float v = (case v of PyFloat x \<Rightarrow> \<not> is_finite x | _ \<Rightarrow> False)"

definition ambiguous_equality :: "py \<Rightarrow> py \<Rightarrow> bool" where
  "ambiguous_equality a b =
     (if non_finite_float a \<or> non_finite_float b then True
      else is_number a \<and> is_number b \<and> is_bool a \<noteq> is_bool b)"

section \<open>Stateless handlers\<close>

definition check_must_not_exceed :: "py \<Rightarrow> py \<Rightarrow> check_outcome" where
  "check_must_not_exceed obs v =
     (case non_numeric ''must_not_exceed'' obs v of
        Some bad \<Rightarrow> bad
      | None \<Rightarrow> (let ok = py_le obs v in decided ok (Comparison ''<='' obs v ok)))"

definition check_must_be_at_least :: "py \<Rightarrow> py \<Rightarrow> check_outcome" where
  "check_must_be_at_least obs v =
     (case non_numeric ''must_be_at_least'' obs v of
        Some bad \<Rightarrow> bad
      | None \<Rightarrow> (let ok = py_le v obs in decided ok (Comparison ''>='' obs v ok)))"

definition real_pair :: "py list \<Rightarrow> (py \<times> py) option" where
  "real_pair xs = (case xs of [lo, hi] \<Rightarrow> if is_real lo \<and> is_real hi then Some (lo, hi) else None | _ \<Rightarrow> None)"

definition check_must_be_within :: "py \<Rightarrow> py \<Rightarrow> check_outcome" where
  "check_must_be_within obs v =
     (if \<not> is_real obs then undecided (WithinNeedsNumber obs)
      else (case Option.bind (seq_items v) real_pair of
              None \<Rightarrow> undecided (WithinNeedsBounds v)
            | Some (lo, hi) \<Rightarrow>
                (let ok = py_le lo obs \<and> py_le obs hi in decided ok (WithinBounds lo obs hi ok))))"

definition check_must_equal :: "py \<Rightarrow> py \<Rightarrow> check_outcome" where
  "check_must_equal obs v =
     (if ambiguous_equality obs v then undecided (CannotCompare ''must_equal'' obs v)
      else (let ok = py_eq obs v in decided ok (Equality ''=='' obs v ok)))"

definition check_must_not_equal :: "py \<Rightarrow> py \<Rightarrow> check_outcome" where
  "check_must_not_equal obs v =
     (if ambiguous_equality obs v then undecided (CannotCompare ''must_not_equal'' obs v)
      else (let ok = \<not> py_eq obs v in decided ok (Equality ''!='' obs v ok)))"

definition check_must_be_below :: "py \<Rightarrow> py \<Rightarrow> check_outcome" where
  "check_must_be_below obs v =
     (case non_numeric ''must_be_below'' obs v of
        Some bad \<Rightarrow> bad
      | None \<Rightarrow> (let ok = py_less obs v in decided ok (Comparison ''<'' obs v ok)))"

definition check_must_be_above :: "py \<Rightarrow> py \<Rightarrow> check_outcome" where
  "check_must_be_above obs v =
     (case non_numeric ''must_be_above'' obs v of
        Some bad \<Rightarrow> bad
      | None \<Rightarrow> (let ok = py_less v obs in decided ok (Comparison ''>'' obs v ok)))"

definition check_must_be_one_of :: "py \<Rightarrow> py \<Rightarrow> check_outcome" where
  "check_must_be_one_of obs v =
     (case seq_items v of
        None \<Rightarrow> undecided (NeedsNonEmptyList ''must_be_one_of'' v)
      | Some members \<Rightarrow>
          if members = [] then undecided (NeedsNonEmptyList ''must_be_one_of'' v)
          else if list_ex (ambiguous_equality obs) members
            then undecided (CannotCompare ''must_be_one_of'' obs v)
          else (let ok = py_in obs members in decided ok (Membership ''in'' obs members ok)))"

definition check_must_not_be_one_of :: "py \<Rightarrow> py \<Rightarrow> check_outcome" where
  "check_must_not_be_one_of obs v =
     (case seq_items v of
        None \<Rightarrow> undecided (NeedsNonEmptyList ''must_not_be_one_of'' v)
      | Some members \<Rightarrow>
          if members = [] then undecided (NeedsNonEmptyList ''must_not_be_one_of'' v)
          else if list_ex (ambiguous_equality obs) members
            then undecided (CannotCompare ''must_not_be_one_of'' obs v)
          else (let ok = \<not> py_in obs members in decided ok (Membership ''not in'' obs members ok)))"

text \<open>\<open>_PREDICATE_HANDLERS\<close>, in the order of the dictionary.\<close>

definition predicate_handlers :: "(string \<times> (py \<Rightarrow> py \<Rightarrow> check_outcome)) list" where
  "predicate_handlers =
     [(''must_not_exceed'', check_must_not_exceed),
      (''must_be_at_least'', check_must_be_at_least),
      (''must_be_below'', check_must_be_below),
      (''must_be_above'', check_must_be_above),
      (''must_be_within'', check_must_be_within),
      (''must_be_one_of'', check_must_be_one_of),
      (''must_not_be_one_of'', check_must_not_be_one_of),
      (''must_equal'', check_must_equal),
      (''must_not_equal'', check_must_not_equal)]"

definition stateful_predicates :: "string list" where
  "stateful_predicates = [''must_average_within'', ''must_not_exceed_in_window'']"

definition formalizable_predicates :: "string list" where
  "formalizable_predicates = map fst predicate_handlers @ stateful_predicates"

definition known_predicates :: "string list" where
  "known_predicates = spec_obligation_types @ formalizable_predicates"

section \<open>The telemetry buffer as the verifier sees it\<close>

text \<open>
  What \<open>window_query\<close> returns: a plain value (a list of samples, or anything else), an object with an
  \<open>avg_value\<close> attribute (whose \<open>max_value\<close> and \<open>count\<close> attributes may be absent), or another object.
  A query that raises is \<open>Inl\<close> of the exception. Times are microseconds since the epoch.
\<close>

datatype window_data =
    Plain py
  | Aggregate py "py option" "py option"
  | Opaque

record telemetry_source =
  window_query :: "string \<Rightarrow> int \<Rightarrow> int \<Rightarrow> string option \<Rightarrow> string + window_data"
  fresh_sample_query :: "(string \<Rightarrow> int \<Rightarrow> int \<Rightarrow> string + bool) option"

definition exact_number :: "py \<Rightarrow> rat option" where
  "exact_number v = (if is_real v then real_of v else None)"

definition entry_value :: "py \<Rightarrow> py" where
  "entry_value entry =
     (case entry of
        PyTuple [ts, v] \<Rightarrow> v
      | PyDict d \<Rightarrow> (if has_key d ''value'' then dget d ''value'' else entry)
      | _ \<Rightarrow> entry)"

definition extract_values :: "py list \<Rightarrow> rat list" where
  "extract_values entries = List.map_filter (\<lambda>e. exact_number (entry_value e)) entries"

record window_summary =
  average :: "rat option"
  peak :: "rat option"
  samples :: "nat option"
  peak_reported :: bool

definition list_max :: "rat list \<Rightarrow> rat option" where
  "list_max xs = (case xs of [] \<Rightarrow> None | y # ys \<Rightarrow> Some (fold max ys y))"

definition list_mean :: "rat list \<Rightarrow> rat option" where
  "list_mean xs = (if xs = [] then None else Some (sum_list xs / of_nat (length xs)))"

definition summarize_window :: "window_data \<Rightarrow> window_summary option" where
  "summarize_window data =
     (case data of
        Aggregate avg mx cnt \<Rightarrow>
          Some \<lparr>average = exact_number avg,
                peak = (case mx of None \<Rightarrow> None | Some m \<Rightarrow> exact_number m),
                samples = None, peak_reported = (mx \<noteq> None)\<rparr>
      | Plain v \<Rightarrow>
          (case iter_items v of
             None \<Rightarrow> None
           | Some entries \<Rightarrow>
               (let values = extract_values entries in
                Some \<lparr>average = list_mean values, peak = list_max values,
                      samples = Some (length values), peak_reported = True\<rparr>))
      | Opaque \<Rightarrow> None)"

definition query_window ::
  "string \<Rightarrow> assertion \<Rightarrow> string \<Rightarrow> int \<Rightarrow> int \<Rightarrow> telemetry_source \<Rightarrow> check_outcome + window_summary" where
  "query_window p a subject as_of window buffer =
     (case window_query buffer subject as_of window (Some (metric a)) of
        Inl exc \<Rightarrow> Inl (undecided (WindowQueryFailed p exc))
      | Inr data \<Rightarrow>
          (case summarize_window data of
             None \<Rightarrow> Inl (undecided (UnrecognisedWindow p))
           | Some summary \<Rightarrow> Inr summary))"

section \<open>Stateful handlers\<close>

definition check_must_average_within ::
  "assertion \<Rightarrow> string option \<Rightarrow> int option \<Rightarrow> telemetry_source option \<Rightarrow> check_outcome" where
  "check_must_average_within a subject as_of buffer =
     (case (buffer, subject, as_of) of
        (Some buf, Some subj, Some now) \<Rightarrow>
          (case window_seconds a of
             None \<Rightarrow> undecided (NeedsPositiveWindow ''must_average_within'' None)
           | Some w \<Rightarrow>
               if w \<le> 0 then undecided (NeedsPositiveWindow ''must_average_within'' (Some w))
               else (case Option.bind (list_items (value a)) real_pair of
                   None \<Rightarrow> undecided (AverageNeedsRange (value a))
                 | Some (lo, hi) \<Rightarrow>
                     (case query_window ''must_average_within'' a subj now w buf of
                        Inl bad \<Rightarrow> bad
                      | Inr summary \<Rightarrow>
                          (case average summary of
                             None \<Rightarrow> undecided (NoSamples ''average'' (metric a) w)
                           | Some avg \<Rightarrow>
                               (let ok = (case (real_of lo, real_of hi) of
                                            (Some l, Some h) \<Rightarrow> l \<le> avg \<and> avg \<le> h | _ \<Rightarrow> False)
                                in decided ok (WindowAverage (metric a) w avg lo hi ok (samples summary)))))))
      | _ \<Rightarrow> undecided (NeedsBufferContext ''must_average_within''))"

definition check_must_not_exceed_in_window ::
  "assertion \<Rightarrow> string option \<Rightarrow> int option \<Rightarrow> telemetry_source option \<Rightarrow> check_outcome" where
  "check_must_not_exceed_in_window a subject as_of buffer =
     (case (buffer, subject, as_of) of
        (Some buf, Some subj, Some now) \<Rightarrow>
          (case window_seconds a of
             None \<Rightarrow> undecided (NeedsPositiveWindow ''must_not_exceed_in_window'' None)
           | Some w \<Rightarrow>
               if w \<le> 0 then undecided (NeedsPositiveWindow ''must_not_exceed_in_window'' (Some w))
               else (case exact_number (value a) of
                   None \<Rightarrow> undecided (PeakNeedsNumber (value a))
                 | Some threshold \<Rightarrow>
                     (case query_window ''must_not_exceed_in_window'' a subj now w buf of
                        Inl bad \<Rightarrow> bad
                      | Inr summary \<Rightarrow>
                          if \<not> peak_reported summary then undecided PeakNotReported
                          else (case peak summary of
                              None \<Rightarrow> undecided (NoSamples ''peak'' (metric a) w)
                            | Some p \<Rightarrow>
                                (let ok = p \<le> threshold
                                 in decided ok (WindowPeak (metric a) w p (value a) ok (samples summary)))))))
      | _ \<Rightarrow> undecided (NeedsBufferContext ''must_not_exceed_in_window''))"

text \<open>\<open>_STATEFUL_HANDLERS\<close>.\<close>

definition stateful_handlers ::
  "(string \<times> (assertion \<Rightarrow> string option \<Rightarrow> int option \<Rightarrow> telemetry_source option \<Rightarrow> check_outcome)) list" where
  "stateful_handlers =
     [(''must_average_within'', check_must_average_within),
      (''must_not_exceed_in_window'', check_must_not_exceed_in_window)]"

section \<open>Checking one assertion\<close>

definition check_assertion :: "assertion \<Rightarrow> check_outcome" where
  "check_assertion a =
     (case map_of predicate_handlers (predicate a) of
        Some handler \<Rightarrow> handler (observed a) (value a)
      | None \<Rightarrow>
          if predicate a \<in> set stateful_predicates
          then undecided (StatefulNeedsAverify (predicate a))
          else undecided (NoHandler (predicate a)))"

definition acheck_assertion ::
  "string option \<Rightarrow> int option \<Rightarrow> telemetry_source option \<Rightarrow> assertion \<Rightarrow> check_outcome" where
  "acheck_assertion subject as_of buffer a =
     (case map_of predicate_handlers (predicate a) of
        Some handler \<Rightarrow> handler (observed a) (value a)
      | None \<Rightarrow>
          (case map_of stateful_handlers (predicate a) of
             None \<Rightarrow> undecided (NoHandler (predicate a))
           | Some stateful \<Rightarrow> stateful a subject as_of buffer))"

section \<open>An abstract meaning of the numeric predicates (spec 3.3)\<close>

text \<open>
  A numeric obligation is a bound on an exact rational reading. \<open>bound_of\<close> is the bound an operand
  states under a predicate, if it states one.
\<close>

datatype bound = AtMost rat | AtLeast rat | Below rat | Above rat | Between rat rat

fun within_bound :: "bound \<Rightarrow> rat \<Rightarrow> bool" where
  "within_bound (AtMost c) x = (x \<le> c)"
| "within_bound (AtLeast c) x = (c \<le> x)"
| "within_bound (Below c) x = (x < c)"
| "within_bound (Above c) x = (c < x)"
| "within_bound (Between lo hi) x = (lo \<le> x \<and> x \<le> hi)"

definition numeric_predicates :: "string list" where
  "numeric_predicates =
     [''must_not_exceed'', ''must_be_at_least'', ''must_be_below'', ''must_be_above'', ''must_be_within'']"

definition bound_of :: "string \<Rightarrow> py \<Rightarrow> bound option" where
  "bound_of p v =
     (if p = ''must_not_exceed'' then map_option AtMost (real_of v)
      else if p = ''must_be_at_least'' then map_option AtLeast (real_of v)
      else if p = ''must_be_below'' then map_option Below (real_of v)
      else if p = ''must_be_above'' then map_option Above (real_of v)
      else if p = ''must_be_within'' then
        (case seq_items v of
           Some [lo, hi] \<Rightarrow> (case (real_of lo, real_of hi) of (Some l, Some h) \<Rightarrow> Some (Between l h) | _ \<Rightarrow> None)
         | _ \<Rightarrow> None)
      else None)"

definition bound_meaning :: "string \<Rightarrow> py \<Rightarrow> py \<Rightarrow> bool option" where
  "bound_meaning p obs v =
     (case (real_of obs, bound_of p v) of (Some x, Some b) \<Rightarrow> Some (within_bound b x) | _ \<Rightarrow> None)"

section \<open>Facts\<close>

lemma is_real_iff: "is_real v \<longleftrightarrow> real_of v \<noteq> None"
  by (cases v rule: real_of.cases) (auto simp: is_real_def)

lemma exact_number_real_of [simp]: "exact_number v = real_of v"
  by (auto simp: exact_number_def is_real_iff)

lemma non_numeric_None: "non_numeric p obs v = None \<longleftrightarrow> real_of obs \<noteq> None \<and> real_of v \<noteq> None"
  by (auto simp: non_numeric_def is_real_iff)

lemma non_numeric_Some:
  "non_numeric p obs v = Some r \<Longrightarrow> mechanically_satisfied r = None \<and> (real_of obs = None \<or> real_of v = None)"
  by (auto simp: non_numeric_def is_real_iff split: if_splits)

lemmas bound_checks =
  check_must_not_exceed_def check_must_be_at_least_def check_must_be_below_def check_must_be_above_def

lemma check_must_not_exceed_meaning:
  "mechanically_satisfied (check_must_not_exceed obs v) = bound_meaning ''must_not_exceed'' obs v"
  by (auto simp: Let_def bound_checks bound_meaning_def bound_of_def py_le_real non_numeric_def is_real_iff
      split: option.splits)

lemma check_must_be_at_least_meaning:
  "mechanically_satisfied (check_must_be_at_least obs v) = bound_meaning ''must_be_at_least'' obs v"
  by (auto simp: Let_def bound_checks bound_meaning_def bound_of_def py_le_real non_numeric_def is_real_iff
      split: option.splits)

lemma check_must_be_below_meaning:
  "mechanically_satisfied (check_must_be_below obs v) = bound_meaning ''must_be_below'' obs v"
  by (auto simp: Let_def bound_checks bound_meaning_def bound_of_def py_less_real non_numeric_def is_real_iff
      split: option.splits)

lemma check_must_be_above_meaning:
  "mechanically_satisfied (check_must_be_above obs v) = bound_meaning ''must_be_above'' obs v"
  by (auto simp: Let_def bound_checks bound_meaning_def bound_of_def py_less_real non_numeric_def is_real_iff
      split: option.splits)

lemma real_pair_Some:
  "real_pair xs = Some (lo, hi) \<longleftrightarrow> xs = [lo, hi] \<and> real_of lo \<noteq> None \<and> real_of hi \<noteq> None"
  by (auto simp: real_pair_def is_real_iff split: list.splits if_splits)

lemma real_pair_None:
  "real_pair xs = None \<longleftrightarrow> (\<forall>lo hi. xs = [lo, hi] \<longrightarrow> real_of lo = None \<or> real_of hi = None)"
  by (auto simp: real_pair_def is_real_iff split: list.splits if_splits)

lemma check_must_be_within_meaning:
  "mechanically_satisfied (check_must_be_within obs v) = bound_meaning ''must_be_within'' obs v"
proof (cases "Option.bind (seq_items v) real_pair")
  case None
  then have "bound_of ''must_be_within'' v = None"
    by (auto simp: bound_of_def real_pair_None bind_eq_None_conv split: option.splits list.splits)
  with None show ?thesis
    by (auto simp: Let_def check_must_be_within_def bound_meaning_def is_real_iff split: option.splits)
next
  case (Some p)
  obtain lo hi where p: "p = (lo, hi)" by (cases p)
  with Some obtain l h where "seq_items v = Some [lo, hi]" "real_of lo = Some l" "real_of hi = Some h"
    by (auto simp: bind_eq_Some_conv real_pair_Some)
  with Some p show ?thesis
    by (auto simp: Let_def check_must_be_within_def bound_meaning_def bound_of_def is_real_iff py_le_real
        split: option.splits)
qed

lemmas bound_check_meanings =
  check_must_not_exceed_meaning check_must_be_at_least_meaning check_must_be_below_meaning
  check_must_be_above_meaning check_must_be_within_meaning

lemma map_of_predicate_handlers:
  "p \<in> set numeric_predicates \<Longrightarrow> map_of predicate_handlers p = Some h \<Longrightarrow>
   mechanically_satisfied (h obs v) = bound_meaning p obs v"
  by (auto simp: numeric_predicates_def predicate_handlers_def bound_check_meanings split: if_splits)

lemma numeric_predicate_handled:
  "p \<in> set numeric_predicates \<Longrightarrow> \<exists>h. map_of predicate_handlers p = Some h"
  by (auto simp: numeric_predicates_def predicate_handlers_def)

lemma stateless_not_stateful:
  "map_of predicate_handlers p \<noteq> None \<Longrightarrow> p \<notin> set stateful_predicates"
  by (auto simp: predicate_handlers_def stateful_predicates_def split: if_splits)

lemma stateful_handlers_dom: "map_of stateful_handlers p \<noteq> None \<longleftrightarrow> p \<in> set stateful_predicates"
  by (auto simp: stateful_handlers_def stateful_predicates_def)

lemma formalizable_iff:
  "p \<in> set formalizable_predicates \<longleftrightarrow>
     map_of predicate_handlers p \<noteq> None \<or> p \<in> set stateful_predicates"
  by (auto simp: formalizable_predicates_def map_of_eq_None_iff)

lemma ambiguous_equality_bool:
  assumes "is_bool a" and "is_number b" and "\<not> is_bool b"
  shows "ambiguous_equality a b" and "ambiguous_equality b a"
  using assms by (cases a; cases b; simp add: ambiguous_equality_def is_number_def)+

lemma ambiguous_equality_non_finite:
  "non_finite_float a \<Longrightarrow> ambiguous_equality a b" "non_finite_float b \<Longrightarrow> ambiguous_equality a b"
  by (simp_all add: ambiguous_equality_def)

text \<open>The handlers read only predicate, metric, operand, reading and window of an assertion.\<close>

lemma check_assertion_frame [simp]:
  "check_assertion (a\<lparr>satisfied := b\<rparr>) = check_assertion a"
  by (simp add: check_assertion_def cong: option.case_cong if_cong)

lemma stateful_frame [simp]:
  "check_must_average_within (a\<lparr>satisfied := b\<rparr>) s t buf = check_must_average_within a s t buf"
  "check_must_not_exceed_in_window (a\<lparr>satisfied := b\<rparr>) s t buf = check_must_not_exceed_in_window a s t buf"
  by (simp_all add: check_must_average_within_def check_must_not_exceed_in_window_def query_window_def
      Let_def cong: option.case_cong sum.case_cong prod.case_cong if_cong)

lemma acheck_assertion_frame [simp]:
  "acheck_assertion s t buf (a\<lparr>satisfied := b\<rparr>) = acheck_assertion s t buf a"
  by (auto simp: acheck_assertion_def stateful_handlers_def split: option.splits if_splits)

lemma acheck_stateless:
  "map_of predicate_handlers (predicate a) \<noteq> None \<Longrightarrow> acheck_assertion s t buf a = check_assertion a"
  by (auto simp: acheck_assertion_def check_assertion_def)

subsection \<open>Window statistics\<close>

lemma fold_max_le_iff: "fold max xs (y :: 'a :: linorder) \<le> c \<longleftrightarrow> y \<le> c \<and> (\<forall>x \<in> set xs. x \<le> c)"
  by (induction xs arbitrary: y) auto

lemma list_max_le_iff: "list_max xs = Some m \<Longrightarrow> m \<le> c \<longleftrightarrow> (\<forall>x \<in> set xs. x \<le> c)"
  by (auto simp: list_max_def fold_max_le_iff split: list.splits)

lemma list_max_None [simp]: "list_max xs = None \<longleftrightarrow> xs = []"
  by (auto simp: list_max_def split: list.splits)

lemma fold_max_in: "fold max ys (y :: 'a :: linorder) \<in> insert y (set ys)"
proof (induction ys arbitrary: y)
  case (Cons a ys)
  show ?case using Cons [of "max a y"] by (auto simp: max_def split: if_splits)
qed simp

lemma list_max_in: "list_max xs = Some m \<Longrightarrow> m \<in> set xs"
  using fold_max_in by (fastforce simp: list_max_def split: list.splits)

section \<open>Properties\<close>

text \<open>
  Property C26. Each numeric predicate is checked exactly: the mechanical outcome of an assertion is the
  abstract bound its operand states, evaluated on the rational value of the reading, and undecided when
  the reading or the operand states no finite number (a boolean, NaN, an infinity, text).
\<close>

theorem numeric_check_is_exact:
  assumes "predicate a \<in> set numeric_predicates"
  shows "mechanically_satisfied (check_assertion a) = bound_meaning (predicate a) (observed a) (value a)"
proof -
  obtain h where h: "map_of predicate_handlers (predicate a) = Some h"
    using numeric_predicate_handled [OF assms] by blast
  then show ?thesis
    using map_of_predicate_handlers [OF assms h] by (simp add: check_assertion_def)
qed

definition sample_assertion :: "string \<Rightarrow> py \<Rightarrow> py \<Rightarrow> int option \<Rightarrow> assertion" where
  "sample_assertion p obs v w =
     \<lparr>predicate = p, metric = ''nox'', value = v, observed = obs, satisfied = True,
      obligation_id = ''ob1'', window_seconds = w\<rparr>"

theorem numeric_check_is_exact_witness:
  "mechanically_satisfied (check_assertion
     (sample_assertion ''must_be_within'' (PyInt 7) (PyList [PyInt 6, PyFloat (Fin 8)]) None)) = Some True"
proof -
  let ?a = "sample_assertion ''must_be_within'' (PyInt 7) (PyList [PyInt 6, PyFloat (Fin 8)]) None"
  have "bound_meaning (predicate ?a) (observed ?a) (value ?a) = Some True"
    by (simp add: sample_assertion_def bound_meaning_def bound_of_def)
  then show ?thesis
    using numeric_check_is_exact [of ?a] by (simp add: sample_assertion_def numeric_predicates_def)
qed

text \<open>
  The peak check over a window of samples: when the buffer returns a list, the outcome is
  undecided if no entry carries a finite number, and otherwise says whether every finite number in the
  window is at most the cap.
\<close>

theorem window_peak_check_correct:
  assumes "value a = cap" and "real_of cap = Some c" and "window_seconds a = Some w" and "w > 0"
    and "window_query buf subj now w (Some (metric a)) = Inr (Plain (PyList entries))"
  shows "mechanically_satisfied (check_must_not_exceed_in_window a (Some subj) (Some now) (Some buf)) =
    (if extract_values entries = [] then None else Some (\<forall>x \<in> set (extract_values entries). x \<le> c))"
proof -
  have q: "query_window p a subj now w buf =
      Inr \<lparr>average = list_mean (extract_values entries), peak = list_max (extract_values entries),
           samples = Some (length (extract_values entries)), peak_reported = True\<rparr>" for p
    using assms(5) by (simp add: query_window_def summarize_window_def Let_def)
  show ?thesis
  proof (cases "list_max (extract_values entries)")
    case None
    with assms q show ?thesis by (simp add: check_must_not_exceed_in_window_def)
  next
    case (Some p)
    then have "extract_values entries \<noteq> []" by (auto simp: list_max_def)
    with Some assms q list_max_le_iff [OF Some, of c] show ?thesis
      by (simp add: check_must_not_exceed_in_window_def Let_def)
  qed
qed

definition sample_source :: "py list \<Rightarrow> telemetry_source" where
  "sample_source entries =
     \<lparr>window_query = (\<lambda>subj now w mp. Inr (Plain (PyList entries))), fresh_sample_query = None\<rparr>"

theorem window_peak_check_correct_witness:
  "mechanically_satisfied (check_must_not_exceed_in_window
     (sample_assertion ''must_not_exceed_in_window'' PyNone (PyInt 10) (Some 60)) (Some ''s1'') (Some 0)
     (Some (sample_source [PyInt 4, PyTuple [PyStr ''t'', PyInt 9], PyBool True]))) = Some True"
  using window_peak_check_correct
    [of "sample_assertion ''must_not_exceed_in_window'' PyNone (PyInt 10) (Some 60)" "PyInt 10" 10 60
        "sample_source [PyInt 4, PyTuple [PyStr ''t'', PyInt 9], PyBool True]" "''s1''" 0
        "[PyInt 4, PyTuple [PyStr ''t'', PyInt 9], PyBool True]"]
  by (simp add: sample_assertion_def sample_source_def extract_values_def entry_value_def map_filter_def)

end
