(* ===== verification/Verifier.thy ===== *)
theory Verifier
  imports Predicates
begin

text \<open>
  The Symbolic Verifier proper (\<open>ski_model/v3/verifier.py\<close>, lines 609 to 1342): grounding of the
  model's assertions in the measurement and the Knowledge Graph slice, the verifier's own enumeration
  of the obligations, the tally of one verification and its report, and the normalisation of the
  \<open>satisfied\<close> flags. \<open>measurement_input_errors\<close> is the check the API makes before evaluating.

  A KG obligation is a dictionary \<open>obj\<close>; the scoped slice is an association list from ids to
  obligations with distinct keys, in order of insertion. A predicate that is no string is treated as
  outside every set of predicates (Python raises \<open>TypeError\<close> for an unhashable one; the compiled KG
  holds text there).
\<close>

type_synonym obligations = "(string \<times> obj) list"

section \<open>Readings\<close>

text \<open>\<open>_split_unit\<close>: the value and the unit of a reading.\<close>

definition split_unit :: "py \<Rightarrow> py \<times> py" where
  "split_unit raw =
     (case raw of
        PyDict d \<Rightarrow> if has_key d ''value'' then (dget d ''value'', dget d ''unit'') else (raw, PyNone)
      | _ \<Rightarrow> (raw, PyNone))"

text \<open>\<open>_resolve_reading\<close>: the walk along a dotted path, and the lookup that falls back to it.\<close>

fun walk_path :: "py \<Rightarrow> string list \<Rightarrow> py option" where
  "walk_path current [] = Some current"
| "walk_path current (part # parts) =
     (case current of
        PyDict d \<Rightarrow> (case map_of d part of None \<Rightarrow> None | Some v \<Rightarrow> walk_path v parts)
      | _ \<Rightarrow> None)"

definition resolve_reading :: "obj \<Rightarrow> string \<Rightarrow> py option" where
  "resolve_reading m name =
     (case map_of m name of
        Some v \<Rightarrow> Some v
      | None \<Rightarrow>
          if CHR ''.'' \<notin> set name then None
          else walk_path (PyDict m) (py_split (CHR ''.'') name))"

section \<open>Grounding\<close>

definition is_nan :: "py \<Rightarrow> bool" where
  "is_nan v = (v = PyFloat NaN)"

definition grounding_violation :: "assertion \<Rightarrow> obj \<Rightarrow> divergence option" where
  "grounding_violation a m =
     (if window_seconds a \<noteq> None \<or> observed a = PyNone then None
      else case map_of m (metric a) of
        None \<Rightarrow> Some (FabricatedMetric (obligation_id a) (metric a) (sort (map fst m)))
      | Some raw \<Rightarrow>
          (let actual = fst (split_unit raw); obs = observed a in
           if is_bool actual \<or> is_bool obs then
             (if \<not> (is_bool actual \<and> is_bool obs \<and> py_eq actual obs)
              then Some (FabricatedBoolean (obligation_id a) obs (metric a) actual) else None)
           else
             (let mismatch =
                (if is_number actual \<and> is_number obs
                 then \<not> (is_nan actual \<and> is_nan obs) \<and> \<not> py_eq actual obs
                 else \<not> py_eq actual obs)
              in if mismatch then Some (FabricatedObserved (obligation_id a) obs (metric a) actual)
                 else None)))"

definition value_mismatch :: "py \<Rightarrow> py \<Rightarrow> bool" where
  "value_mismatch ob_value a_val =
     (case (seq_items ob_value, seq_items a_val) of
        (Some xs, Some ys) \<Rightarrow> \<not> py_eq_list xs ys
      | _ \<Rightarrow> \<not> py_eq ob_value a_val)"

definition obligation_grounding_violation :: "assertion \<Rightarrow> obligations \<Rightarrow> divergence option" where
  "obligation_grounding_violation a obs =
     (case map_of obs (obligation_id a) of
        None \<Rightarrow> Some (FabricatedReference (obligation_id a))
      | Some ob \<Rightarrow>
          (if dget ob ''metric'' \<noteq> PyNone \<and> \<not> py_eq (PyStr (metric a)) (dget ob ''metric'')
           then Some (MetricMismatch (obligation_id a) (metric a) (dget ob ''metric''))
           else if dget ob ''predicate'' \<noteq> PyNone \<and> \<not> py_eq (PyStr (predicate a)) (dget ob ''predicate'')
           then Some (PredicateMismatch (obligation_id a) (predicate a) (dget ob ''predicate''))
           else if dget ob ''value'' \<noteq> PyNone \<and> value a \<noteq> PyNone \<and> value_mismatch (dget ob ''value'') (value a)
           then Some (FabricatedValue (obligation_id a) (value a) (dget ob ''value''))
           else None))"

section \<open>Independent enumeration\<close>

text \<open>\<open>_enumerable_obligations\<close>: id, obligation and raw reading of each obligation the verifier evaluates
  itself.\<close>

definition enumerable_reading :: "obj \<Rightarrow> obj \<Rightarrow> py option" where
  "enumerable_reading m ob =
     (case (dget ob ''predicate'', dget ob ''metric'') of
        (PyStr p, PyStr name) \<Rightarrow> if p \<in> set formalizable_predicates then resolve_reading m name else None
      | _ \<Rightarrow> None)"

definition enumerable_obligations ::
  "obligations option \<Rightarrow> obj option \<Rightarrow> (string \<times> obj \<times> py) list" where
  "enumerable_obligations obs m =
     (case (obs, m) of
        (Some slice, Some reading) \<Rightarrow>
          List.map_filter
            (\<lambda>(i, ob). map_option (\<lambda>raw. (i, ob, raw)) (enumerable_reading reading ob)) slice
      | _ \<Rightarrow> [])"

text \<open>\<open>index_obligations\<close>: the index by id (the last occurrence wins) and the obligations it would hide.\<close>

definition last_positions :: "obj list \<Rightarrow> (string \<times> nat) list" where
  "last_positions entries =
     fold (\<lambda>(pos, ob) d. case dget ob ''id'' of PyStr i \<Rightarrow> alist_set i pos d | _ \<Rightarrow> d)
       (enumerate 0 entries) []"

definition index_step ::
  "(string \<times> nat) list \<Rightarrow> obj option \<Rightarrow> nat \<times> obj \<Rightarrow> obligations \<times> divergence list
     \<Rightarrow> obligations \<times> divergence list" where
  "index_step last_pos m = (\<lambda>(pos, ob) (index, violations).
     (case dget ob ''id'' of
        PyStr i \<Rightarrow>
          if map_of last_pos i = Some pos then (alist_set i ob index, violations)
          else if m = None then (index, violations)
          else if enumerable_obligations (Some [(''_'', ob)]) m = [] then (index, violations)
          else (index, violations @ [SliceRepeatedId i pos (dget ob ''metric'') (dget ob ''predicate'')])
      | _ \<Rightarrow>
          if m = None then (index, violations)
          else if enumerable_obligations (Some [(''_'', ob)]) m = [] then (index, violations)
          else (index, violations @ [SliceWithoutId pos (dget ob ''metric'') (dget ob ''predicate'')])))"

definition index_obligations :: "py list \<Rightarrow> obj option \<Rightarrow> obligations \<times> divergence list" where
  "index_obligations obs m =
     (let entries = List.map_filter dict_of obs in
      fold (index_step (last_positions entries) m) (enumerate 0 entries) ([], []))"

section \<open>Input validation\<close>

text \<open>\<open>sys.float_info.max\<close>.\<close>

definition max_double :: int where
  "max_double = 2 ^ 1024 - 2 ^ 971"

definition numeric_operand_predicates :: "string list" where
  "numeric_operand_predicates =
     [''must_not_exceed'', ''must_be_at_least'', ''must_be_below'', ''must_be_above'',
      ''must_be_within'', ''must_average_within'', ''must_not_exceed_in_window'']"

text \<open>A path into a measurement, outermost step first; the source renders it as text.\<close>

datatype path_step = Key string | Index nat

fun non_finite_paths :: "py \<Rightarrow> path_step list \<Rightarrow> path_step list list"
  and non_finite_items :: "py list \<Rightarrow> nat \<Rightarrow> path_step list \<Rightarrow> path_step list list"
  and non_finite_entries :: "obj \<Rightarrow> path_step list \<Rightarrow> path_step list list"
where
  "non_finite_paths (PyFloat x) path = (if is_finite x then [] else [path])"
| "non_finite_paths (PyInt i) path = (if \<bar>i\<bar> > max_double then [path] else [])"
| "non_finite_paths (PyDict d) path = non_finite_entries d path"
| "non_finite_paths (PyList xs) path = non_finite_items xs 0 path"
| "non_finite_paths (PyTuple xs) path = non_finite_items xs 0 path"
| "non_finite_paths _ path = []"
| "non_finite_items [] n path = []"
| "non_finite_items (x # xs) n path = non_finite_paths x (path @ [Index n]) @ non_finite_items xs (Suc n) path"
| "non_finite_entries [] path = []"
| "non_finite_entries ((k, v) # d) path = non_finite_paths v (path @ [Key k]) @ non_finite_entries d path"

definition expects_number :: "obj \<Rightarrow> bool" where
  "expects_number ob =
     (if (case dget ob ''predicate'' of PyStr p \<Rightarrow> p \<in> set numeric_operand_predicates | _ \<Rightarrow> False) then True
      else (let operand = dget ob ''value'';
                members = (case seq_items operand of Some xs \<Rightarrow> xs | None \<Rightarrow> [operand])
            in list_ex (\<lambda>v. is_number v \<and> \<not> is_bool v) members))"

datatype input_error =
    NotAReading "path_step list"
  | BooleanReading string py py py

definition boolean_reading :: "obj \<Rightarrow> string \<Rightarrow> py option" where
  "boolean_reading m name =
     (case resolve_reading m name of
        None \<Rightarrow> None
      | Some raw \<Rightarrow> let reading = fst (split_unit raw) in if is_bool reading then Some reading else None)"

definition input_step ::
  "obj \<Rightarrow> obj \<Rightarrow> string list \<times> input_error list \<Rightarrow> string list \<times> input_error list" where
  "input_step m ob = (\<lambda>(seen, errors).
     (case dget ob ''metric'' of
        PyStr name \<Rightarrow>
          if name \<in> set seen \<or> \<not> expects_number ob then (seen, errors)
          else (case boolean_reading m name of
              None \<Rightarrow> (seen, errors)
            | Some reading \<Rightarrow>
                (name # seen,
                 errors @ [BooleanReading name reading (dget ob ''id'') (dget ob ''predicate'')]))
      | _ \<Rightarrow> (seen, errors)))"

definition measurement_input_errors :: "obj \<Rightarrow> obj list \<Rightarrow> input_error list" where
  "measurement_input_errors m obs =
     snd (fold (input_step m) obs
       ([], map NotAReading (concat (map (\<lambda>(k, v). non_finite_paths v [Key k]) m))))"

section \<open>The verifier's own evaluation of an obligation\<close>

definition unit_mismatch :: "string \<Rightarrow> obj \<Rightarrow> py \<Rightarrow> divergence option" where
  "unit_mismatch ob_id ob raw =
     (let u = snd (split_unit raw); declared = dget ob ''unit'' in
      if u = PyNone \<or> declared = PyNone \<or> py_eq u declared then None
      else Some (UnitMismatch ob_id (dget ob ''metric'') u declared))"

definition text_of :: "py \<Rightarrow> string" where
  "text_of v = (case v of PyStr s \<Rightarrow> s | _ \<Rightarrow> [])"

definition obligation_probe :: "string \<Rightarrow> obj \<Rightarrow> py \<Rightarrow> assertion" where
  "obligation_probe ob_id ob raw =
     \<lparr>predicate = text_of (dget ob ''predicate''),
      metric = text_of (dget ob ''metric''),
      value = dget ob ''value'',
      observed = fst (split_unit raw),
      satisfied = True,
      obligation_id = ob_id,
      window_seconds = (case dget ob ''window_seconds'' of PyInt w \<Rightarrow> Some w | _ \<Rightarrow> None)\<rparr>"

section \<open>Reports\<close>

record verification_report =
  report_result :: verifier_result
  breached_obligations :: "string list"
  report_fail_closed :: "divergence list"
  report_notes :: "envelope_note list"

definition with_fail_closed :: "verification_report \<Rightarrow> divergence list \<Rightarrow> verification_report" where
  "with_fail_closed r violations =
     (if violations = [] then r
      else
        (let old = report_result r;
             st = (if status old \<noteq> LLM_CONTRADICTION then UNVERIFIABLE else status old)
         in r\<lparr>report_result :=
                \<lparr>status = st, checked_assertions = checked_assertions old,
                 divergences = divergences old @ violations\<rparr>,
              report_fail_closed := report_fail_closed r @ violations\<rparr>))"

definition unflagged_verdicts :: "verdict list" where
  "unflagged_verdicts = [CLEAR, NULL_UNMAPPED]"

section \<open>The tally of one verification\<close>

record tally =
  t_verdict :: verdict
  t_divergences :: "divergence list"
  t_checked :: nat
  t_unverifiable :: nat
  t_contradictions :: nat
  t_breached :: "string list"
  t_fail_closed :: "divergence list"
  t_notes :: "envelope_note list"
  t_reported :: "string list"

definition new_tally :: "verdict \<Rightarrow> tally" where
  "new_tally v = \<lparr>t_verdict = v, t_divergences = [], t_checked = 0, t_unverifiable = 0,
     t_contradictions = 0, t_breached = [], t_fail_closed = [], t_notes = [], t_reported = []\<rparr>"

definition tally_contradiction :: "divergence \<Rightarrow> tally \<Rightarrow> tally" where
  "tally_contradiction d t =
     t\<lparr>t_contradictions := t_contradictions t + 1, t_divergences := t_divergences t @ [d]\<rparr>"

definition tally_unflagged :: "string \<Rightarrow> unflagged_detail \<Rightarrow> tally \<Rightarrow> tally" where
  "tally_unflagged ob_id detail t =
     tally_contradiction (UnflaggedBreach ob_id (t_verdict t) detail)
       (t\<lparr>t_reported := ob_id # t_reported t\<rparr>)"

definition tally_fail_closed :: "divergence \<Rightarrow> tally \<Rightarrow> tally" where
  "tally_fail_closed d t =
     t\<lparr>t_unverifiable := t_unverifiable t + 1, t_divergences := t_divergences t @ [d],
       t_fail_closed := t_fail_closed t @ [d]\<rparr>"

text \<open>\<open>precheck\<close>: the settled flag and the tally after it.\<close>

definition grounding_failure :: "assertion \<Rightarrow> obj option \<Rightarrow> obligations option \<Rightarrow> divergence option" where
  "grounding_failure a m obs =
     (let violation = (case m of None \<Rightarrow> None | Some reading \<Rightarrow> grounding_violation a reading) in
      case violation of
        Some v \<Rightarrow> Some v
      | None \<Rightarrow> (case obs of None \<Rightarrow> None | Some slice \<Rightarrow> obligation_grounding_violation a slice))"

definition precheck ::
  "assertion \<Rightarrow> obj option \<Rightarrow> obligations option \<Rightarrow> tally \<Rightarrow> bool \<times> tally" where
  "precheck a m obs t =
     (if predicate a \<notin> set known_predicates
      then (True, tally_fail_closed (SchemaViolation (obligation_id a) (predicate a)) t)
      else case grounding_failure a m obs of
          None \<Rightarrow> (False, t)
        | Some v \<Rightarrow> (True, tally_contradiction v (t\<lparr>t_checked := t_checked t + 1\<rparr>)))"

definition tally_assertion :: "assertion \<Rightarrow> check_outcome \<Rightarrow> tally \<Rightarrow> tally" where
  "tally_assertion a out t =
     (let i = obligation_id a; unflagged = t_verdict t \<in> set unflagged_verdicts; why = outcome_reason out in
      case mechanically_satisfied out of
        None \<Rightarrow>
          (let t = t\<lparr>t_unverifiable := t_unverifiable t + 1,
                     t_divergences := t_divergences t @ [NotVerifiable i why]\<rparr>
           in if unflagged \<and> \<not> satisfied a then tally_unflagged i OwnAssertionUnsatisfied t else t)
      | Some ok \<Rightarrow>
          (let t = t\<lparr>t_checked := t_checked t + 1\<rparr> in
           if ok \<noteq> satisfied a then
             tally_contradiction (Disagreement i (satisfied a) ok why)
               (if \<not> ok then t\<lparr>t_reported := i # t_reported t\<rparr> else t)
           else if \<not> ok \<and> unflagged then tally_unflagged i (AssertionBreached why) t
           else t))"

definition tally_obligation :: "string \<Rightarrow> check_outcome \<Rightarrow> bool \<Rightarrow> tally \<Rightarrow> tally" where
  "tally_obligation i out asserted t =
     (let why = outcome_reason out;
          breached = (mechanically_satisfied out = Some False);
          t = (if breached then t\<lparr>t_breached := t_breached t @ [i]\<rparr> else t)
      in
      if asserted then
        (if breached \<and> t_verdict t \<in> set unflagged_verdicts \<and> i \<notin> set (t_reported t)
         then tally_unflagged i (OwnEvaluationBreached why) t else t)
      else if mechanically_satisfied out = None then
        t\<lparr>t_unverifiable := t_unverifiable t + 1,
          t_divergences := t_divergences t @ [OmittedUnverifiable i why]\<rparr>
      else
        (let t = t\<lparr>t_checked := t_checked t + 1\<rparr> in
         if breached then tally_contradiction (OmittedObligation i why) t
         else t\<lparr>t_notes := t_notes t @ [IndependentCheck i why]\<rparr>))"

definition tally_status :: "assertion list \<Rightarrow> tally \<Rightarrow> verifier_status \<times> divergence list" where
  "tally_status as t =
     (if t_contradictions t \<noteq> 0 then (LLM_CONTRADICTION, t_divergences t)
      else if t_unverifiable t \<noteq> 0 \<or> as = [] then
        (UNVERIFIABLE, (if as = [] then [NoAssertions] else []) @ t_divergences t)
      else
        (let all_satisfied = list_all satisfied as in
         if t_verdict t = FLAG \<and> all_satisfied
         then (NEURO_SYMBOLIC_DIVERGENCE, [InconsistentVerdict (t_verdict t) all_satisfied])
         else (AGREED, [])))"

definition tally_report :: "assertion list \<Rightarrow> tally \<Rightarrow> verification_report" where
  "tally_report as t =
     (let (st, ds) = tally_status as t in
      \<lparr>report_result = \<lparr>status = st, checked_assertions = t_checked t, divergences = ds\<rparr>,
       breached_obligations = t_breached t, report_fail_closed = t_fail_closed t,
       report_notes = t_notes t\<rparr>)"

section \<open>Verification\<close>

text \<open>The two loops of \<open>verify_report\<close> and \<open>averify_report\<close>, over the check of one assertion.\<close>

definition assertion_step ::
  "(assertion \<Rightarrow> check_outcome) \<Rightarrow> obj option \<Rightarrow> obligations option \<Rightarrow> assertion \<Rightarrow> tally \<Rightarrow> tally" where
  "assertion_step check m obs a t =
     (case precheck a m obs t of
        (True, t) \<Rightarrow> t
      | (False, t) \<Rightarrow> tally_assertion a (check a) t)"

definition obligation_step ::
  "(assertion \<Rightarrow> check_outcome) \<Rightarrow> string list \<Rightarrow> string \<times> obj \<times> py \<Rightarrow> tally \<Rightarrow> tally" where
  "obligation_step check asserted = (\<lambda>(i, ob, raw) t.
     (case unit_mismatch i ob raw of
        Some d \<Rightarrow> tally_fail_closed d t
      | None \<Rightarrow> tally_obligation i (check (obligation_probe i ob raw)) (i \<in> set asserted) t))"

definition run_tally ::
  "(assertion \<Rightarrow> check_outcome) \<Rightarrow> assertion list \<Rightarrow> verdict \<Rightarrow> obj option \<Rightarrow> obligations option \<Rightarrow> tally" where
  "run_tally check as v m obs =
     fold (obligation_step check (map obligation_id as)) (enumerable_obligations obs m)
       (fold (assertion_step check m obs) as (new_tally v))"

definition verify_report ::
  "assertion list \<Rightarrow> verdict \<Rightarrow> obj option \<Rightarrow> obligations option \<Rightarrow> verification_report" where
  "verify_report as v m obs = tally_report as (run_tally check_assertion as v m obs)"

definition averify_report ::
  "string option \<Rightarrow> int option \<Rightarrow> telemetry_source option \<Rightarrow> assertion list \<Rightarrow> verdict \<Rightarrow> obj option
     \<Rightarrow> obligations option \<Rightarrow> verification_report" where
  "averify_report subject as_of buffer as v m obs =
     tally_report as (run_tally (acheck_assertion subject as_of buffer) as v m obs)"

definition verify :: "assertion list \<Rightarrow> verdict \<Rightarrow> obj option \<Rightarrow> obligations option \<Rightarrow> verifier_result" where
  "verify as v m obs = report_result (verify_report as v m obs)"

definition averify ::
  "string option \<Rightarrow> int option \<Rightarrow> telemetry_source option \<Rightarrow> assertion list \<Rightarrow> verdict \<Rightarrow> obj option
     \<Rightarrow> obligations option \<Rightarrow> verifier_result" where
  "averify subject as_of buffer as v m obs = report_result (averify_report subject as_of buffer as v m obs)"

text \<open>\<open>normalize_satisfied\<close>.\<close>

definition normalize_step ::
  "obj option \<Rightarrow> obligations option \<Rightarrow> assertion \<Rightarrow> assertion list \<times> envelope_note list
     \<Rightarrow> assertion list \<times> envelope_note list" where
  "normalize_step m obs a = (\<lambda>(corrected, ns).
     (if grounding_failure a m obs \<noteq> None then (corrected @ [a], ns)
      else (case mechanically_satisfied (check_assertion a) of
          Some ok \<Rightarrow>
            if ok \<noteq> satisfied a
            then (corrected @ [a\<lparr>satisfied := ok\<rparr>],
                  ns @ [SatisfiedNormalised (obligation_id a) (satisfied a) ok
                          (outcome_reason (check_assertion a))])
            else (corrected @ [a], ns)
        | None \<Rightarrow> (corrected @ [a], ns))))"

definition normalize_satisfied ::
  "assertion list \<Rightarrow> obj option \<Rightarrow> obligations option \<Rightarrow> assertion list \<times> envelope_note list" where
  "normalize_satisfied as m obs = fold (normalize_step m obs) as ([], [])"

section \<open>What one verification establishes\<close>

text \<open>The obligations that the verifier itself evaluates as breached, in the order of the slice.\<close>

definition own_outcome :: "(assertion \<Rightarrow> check_outcome) \<Rightarrow> string \<times> obj \<times> py \<Rightarrow> bool option" where
  "own_outcome check = (\<lambda>(i, ob, raw). mechanically_satisfied (check (obligation_probe i ob raw)))"

definition same_unit :: "string \<times> obj \<times> py \<Rightarrow> bool" where
  "same_unit = (\<lambda>(i, ob, raw). unit_mismatch i ob raw = None)"

definition own_breaches :: "(assertion \<Rightarrow> check_outcome) \<Rightarrow> (string \<times> obj \<times> py) list \<Rightarrow> string list" where
  "own_breaches check es = map fst (filter (\<lambda>e. same_unit e \<and> own_outcome check e = Some False) es)"

text \<open>An assertion that contributes no contradiction, and one that contributes nothing unverifiable.\<close>

definition unflagged :: "verdict \<Rightarrow> bool" where
  "unflagged v = (v \<in> set unflagged_verdicts)"

definition assertion_consistent ::
  "(assertion \<Rightarrow> check_outcome) \<Rightarrow> verdict \<Rightarrow> obj option \<Rightarrow> obligations option \<Rightarrow> assertion \<Rightarrow> bool" where
  "assertion_consistent check v m obs a =
     (predicate a \<notin> set known_predicates \<or>
      (grounding_failure a m obs = None \<and> (unflagged v \<longrightarrow> satisfied a) \<and>
       (case mechanically_satisfied (check a) of None \<Rightarrow> True | Some ok \<Rightarrow> ok = satisfied a)))"

definition assertion_checkable ::
  "(assertion \<Rightarrow> check_outcome) \<Rightarrow> obj option \<Rightarrow> obligations option \<Rightarrow> assertion \<Rightarrow> bool" where
  "assertion_checkable check m obs a =
     (predicate a \<in> set known_predicates \<and>
      (grounding_failure a m obs = None \<longrightarrow> mechanically_satisfied (check a) \<noteq> None))"

definition obligation_consistent ::
  "(assertion \<Rightarrow> check_outcome) \<Rightarrow> verdict \<Rightarrow> string list \<Rightarrow> string \<times> obj \<times> py \<Rightarrow> bool" where
  "obligation_consistent check v asserted e =
     (same_unit e \<and> own_outcome check e = Some False \<longrightarrow> fst e \<in> set asserted \<and> \<not> unflagged v)"

definition obligation_checkable ::
  "(assertion \<Rightarrow> check_outcome) \<Rightarrow> string list \<Rightarrow> string \<times> obj \<times> py \<Rightarrow> bool" where
  "obligation_checkable check asserted e =
     (same_unit e \<and> (fst e \<in> set asserted \<or> own_outcome check e \<noteq> None))"

lemmas tally_defs =
  assertion_step_def precheck_def tally_assertion_def tally_obligation_def obligation_step_def
  tally_fail_closed_def tally_contradiction_def tally_unflagged_def Let_def

lemma unflagged_simps [simp, verdict_simps]:
  "unflagged CLEAR" "unflagged NULL_UNMAPPED" "\<not> unflagged FLAG" "\<not> unflagged NULL_STALE"
  "\<not> unflagged DISCRETIONARY"
  by (simp_all add: unflagged_def unflagged_verdicts_def)

subsection \<open>The fields of the tally, one iteration at a time\<close>

lemma assertion_step_keeps:
  "t_breached (assertion_step check m obs a t) = t_breached t"
  "t_verdict (assertion_step check m obs a t) = t_verdict t"
  "t_notes (assertion_step check m obs a t) = t_notes t"
  by (auto simp: tally_defs split: option.split)

lemma obligation_step_verdict: "t_verdict (obligation_step check asserted e t) = t_verdict t"
  by (auto simp: tally_defs split: option.split prod.split)

lemma obligation_step_breached:
  "t_breached (obligation_step check asserted e t) =
   t_breached t @ (if same_unit e \<and> own_outcome check e = Some False then [fst e] else [])"
  by (auto simp: tally_defs same_unit_def own_outcome_def split: option.split prod.split)

lemma reported_implies_contradiction:
  "t_reported (run_tally check as v m obs) \<noteq> [] \<longrightarrow> t_contradictions (run_tally check as v m obs) \<noteq> 0"
  unfolding run_tally_def
proof (rule fold_invariant)
  show "t_reported (fold (assertion_step check m obs) as (new_tally v)) \<noteq> [] \<longrightarrow>
        t_contradictions (fold (assertion_step check m obs) as (new_tally v)) \<noteq> 0"
    by (rule fold_invariant) (auto simp: new_tally_def tally_defs split: option.split)
qed (auto simp: tally_defs split: option.split prod.split)

lemma fail_closed_implies_unverifiable:
  "t_fail_closed (run_tally check as v m obs) \<noteq> [] \<longrightarrow> t_unverifiable (run_tally check as v m obs) \<noteq> 0"
  unfolding run_tally_def
proof (rule fold_invariant)
  show "t_fail_closed (fold (assertion_step check m obs) as (new_tally v)) \<noteq> [] \<longrightarrow>
        t_unverifiable (fold (assertion_step check m obs) as (new_tally v)) \<noteq> 0"
    by (rule fold_invariant) (auto simp: new_tally_def tally_defs split: option.split)
qed (auto simp: tally_defs split: option.split prod.split)

lemma run_tally_verdict [simp]: "t_verdict (run_tally check as v m obs) = v"
proof -
  have "t_verdict (fold (assertion_step check m obs) as (new_tally v)) = t_verdict (new_tally v)"
    by (rule fold_keeps) (rule assertion_step_keeps)
  moreover have "t_verdict (fold (obligation_step check xs) es t) = t_verdict t" for xs es t
    by (rule fold_keeps) (rule obligation_step_verdict)
  ultimately show ?thesis by (simp add: run_tally_def new_tally_def)
qed

lemma run_tally_breached:
  "t_breached (run_tally check as v m obs) = own_breaches check (enumerable_obligations obs m)"
proof -
  have "t_breached (fold (obligation_step check (map obligation_id as)) es t) =
        t_breached t @ own_breaches check es" for es t
    by (induction es arbitrary: t) (simp_all add: own_breaches_def obligation_step_breached)
  moreover have "t_breached (fold (assertion_step check m obs) as (new_tally v)) = t_breached (new_tally v)"
    by (rule fold_keeps) (rule assertion_step_keeps)
  ultimately show ?thesis by (simp add: run_tally_def new_tally_def)
qed

definition spotless :: "verdict \<Rightarrow> tally \<Rightarrow> bool" where
  "spotless v t = (t_verdict t = v \<and> t_contradictions t = 0 \<and> t_reported t = [])"

lemma assertion_step_spotless:
  "spotless v (assertion_step check m obs a t) \<longleftrightarrow>
   spotless v t \<and> assertion_consistent check v m obs a"
  by (auto simp: spotless_def assertion_consistent_def tally_defs unflagged_def split: option.split)

lemma obligation_step_spotless:
  "spotless v (obligation_step check asserted e t) \<longleftrightarrow>
   spotless v t \<and> obligation_consistent check v asserted e"
  by (auto simp: spotless_def obligation_consistent_def tally_defs unflagged_def own_outcome_def same_unit_def
      split: option.split prod.split)

lemma contradictions_zero_iff:
  "t_contradictions (run_tally check as v m obs) = 0 \<longleftrightarrow>
   (\<forall>a \<in> set as. assertion_consistent check v m obs a) \<and>
   (\<forall>e \<in> set (enumerable_obligations obs m). obligation_consistent check v (map obligation_id as) e)"
proof -
  have "t_contradictions (run_tally check as v m obs) = 0 \<longleftrightarrow> spotless v (run_tally check as v m obs)"
    using reported_implies_contradiction [of check as v m obs] by (auto simp: spotless_def)
  also have "\<dots> \<longleftrightarrow>
      spotless v (fold (assertion_step check m obs) as (new_tally v)) \<and>
      (\<forall>e \<in> set (enumerable_obligations obs m). obligation_consistent check v (map obligation_id as) e)"
    unfolding run_tally_def by (rule fold_conj) (rule obligation_step_spotless)
  also have "spotless v (fold (assertion_step check m obs) as (new_tally v)) \<longleftrightarrow>
      spotless v (new_tally v) \<and> (\<forall>a \<in> set as. assertion_consistent check v m obs a)"
    by (rule fold_conj) (rule assertion_step_spotless)
  finally show ?thesis by (simp add: spotless_def new_tally_def)
qed

lemma unverifiable_zero_iff:
  "t_unverifiable (run_tally check as v m obs) = 0 \<longleftrightarrow>
   (\<forall>a \<in> set as. assertion_checkable check m obs a) \<and>
   (\<forall>e \<in> set (enumerable_obligations obs m). obligation_checkable check (map obligation_id as) e)"
proof -
  have step: "t_unverifiable (assertion_step check m obs a t) = 0 \<longleftrightarrow>
      t_unverifiable t = 0 \<and> assertion_checkable check m obs a" for a t
    by (auto simp: assertion_checkable_def tally_defs split: option.split)
  have own: "t_unverifiable (obligation_step check xs e t) = 0 \<longleftrightarrow>
      t_unverifiable t = 0 \<and> obligation_checkable check xs e" for xs e t
    by (auto simp: obligation_checkable_def tally_defs own_outcome_def same_unit_def
        split: option.split prod.split)
  show ?thesis
    unfolding run_tally_def
    by (simp add: fold_conj [where P = "\<lambda>t. t_unverifiable t = 0", OF own]
        fold_conj [where P = "\<lambda>t. t_unverifiable t = 0", OF step] new_tally_def conj_commute)
qed

subsection \<open>The report\<close>

lemma tally_report_fields [simp]:
  "status (report_result (tally_report as t)) = fst (tally_status as t)"
  "checked_assertions (report_result (tally_report as t)) = t_checked t"
  "breached_obligations (tally_report as t) = t_breached t"
  "report_fail_closed (tally_report as t) = t_fail_closed t"
  "report_notes (tally_report as t) = t_notes t"
  by (simp_all add: tally_report_def split: prod.split)

lemma status_contradiction_iff:
  "fst (tally_status as t) = LLM_CONTRADICTION \<longleftrightarrow> t_contradictions t \<noteq> 0"
  by (auto simp: tally_status_def Let_def)

lemma status_agreed_iff:
  "fst (tally_status as t) = AGREED \<longleftrightarrow>
     t_contradictions t = 0 \<and> t_unverifiable t = 0 \<and> as \<noteq> [] \<and>
     \<not> (t_verdict t = FLAG \<and> list_all satisfied as)"
  by (auto simp: tally_status_def Let_def)

lemma status_unverifiable_iff:
  "fst (tally_status as t) = UNVERIFIABLE \<longleftrightarrow> t_contradictions t = 0 \<and> (t_unverifiable t \<noteq> 0 \<or> as = [])"
  by (auto simp: tally_status_def Let_def)

section \<open>Grounded claims\<close>

lemma numeric_formalizable: "p \<in> set numeric_predicates \<Longrightarrow> p \<in> set formalizable_predicates"
  using numeric_predicate_handled by (fastforce simp: formalizable_iff)

lemma enumerable_iff:
  "(i, ob, raw) \<in> set (enumerable_obligations (Some slice) (Some m)) \<longleftrightarrow>
   (i, ob) \<in> set slice \<and> enumerable_reading m ob = Some raw"
  by (force simp: enumerable_obligations_def map_filter_def image_iff)

lemma numeric_enumerable:
  assumes "map_of slice i = Some ob" "dget ob ''predicate'' = PyStr p" "dget ob ''metric'' = PyStr name"
    and "p \<in> set numeric_predicates" and "resolve_reading m name = Some raw"
  shows "(i, ob, raw) \<in> set (enumerable_obligations (Some slice) (Some m))"
  using assms map_of_SomeD [OF assms(1)] numeric_formalizable
  by (simp add: enumerable_iff enumerable_reading_def)

lemma grounded_claim:
  assumes "grounding_failure a (Some m) (Some slice) = None"
    and "map_of slice (obligation_id a) = Some ob"
    and "dget ob ''predicate'' = PyStr p" "dget ob ''metric'' = PyStr name" "dget ob ''value'' \<noteq> PyNone"
  shows "predicate a = p" "metric a = name" "value a = PyNone \<or> \<not> value_mismatch (dget ob ''value'') (value a)"
  using assms
  by (auto simp: grounding_failure_def obligation_grounding_violation_def Let_def split: option.splits if_splits)

lemma py_eq_real_left:
  "py_eq v w \<Longrightarrow> real_of w = Some x \<Longrightarrow> \<not> is_bool v \<Longrightarrow> real_of v = Some x"
proof (cases v)
  case (PyFloat f)
  then show "py_eq v w \<Longrightarrow> real_of w = Some x \<Longrightarrow> \<not> is_bool v \<Longrightarrow> real_of v = Some x"
    by (cases f) (auto dest!: num_of_real_of)
qed (auto dest!: num_of_real_of split: py.splits)

lemma grounded_reading:
  assumes "grounding_failure a (Some m) obs = None" and "window_seconds a = None"
    and "real_of (observed a) = Some x" and "resolve_reading m (metric a) = Some raw"
  shows "real_of (fst (split_unit raw)) = Some x"
proof -
  have g: "grounding_violation a m = None"
    using assms by (auto simp: grounding_failure_def Let_def split: option.splits)
  from assms have obs: "observed a \<noteq> PyNone" "\<not> is_bool (observed a)" "\<not> is_nan (observed a)"
    by (auto simp: is_nan_def dest: real_of_not_bool)
  with g assms(2) obtain r where r: "map_of m (metric a) = Some r"
    by (auto simp: grounding_violation_def split: option.splits)
  with assms(4) have "r = raw" by (simp add: resolve_reading_def)
  with g r obs assms(2) have "py_eq (fst (split_unit raw)) (observed a) \<and> \<not> is_bool (fst (split_unit raw))"
    by (auto simp: grounding_violation_def Let_def split: if_splits)
  with assms(3) show ?thesis by (blast intro: py_eq_real_left)
qed

lemma bound_of_not_None: "bound_of p v = Some b \<Longrightarrow> v \<noteq> PyNone"
  by (auto simp: bound_of_def split: if_splits)

lemma real_of_not_seq: "real_of v = Some x \<Longrightarrow> seq_items v = None"
  by (cases v rule: real_of.cases) auto

lemma value_match_real:
  "\<not> value_mismatch v w \<Longrightarrow> real_of v = Some x \<Longrightarrow> real_of w = Some y \<Longrightarrow> y = x"
  by (auto simp: value_mismatch_def real_of_not_seq py_eq_real)

lemma value_match_pair:
  assumes "\<not> value_mismatch v w" "seq_items v = Some [a, b]" "seq_items w = Some [c, d]"
    and "real_of a = Some x" "real_of b = Some y" "real_of c = Some x'" "real_of d = Some y'"
  shows "x' = x \<and> y' = y"
  using assms by (auto simp: value_mismatch_def py_eq_real)

lemma value_match_bound:
  assumes "\<not> value_mismatch v w" and "bound_of p v = Some b" and "bound_of p w = Some b'"
  shows "b' = b"
proof (cases "p = ''must_be_within''")
  case True
  with assms(2,3) obtain a a' c c' x y x' y' where
    v: "seq_items v = Some [a, a']" "real_of a = Some x" "real_of a' = Some y" "b = Between x y" and
    w: "seq_items w = Some [c, c']" "real_of c = Some x'" "real_of c' = Some y'" "b' = Between x' y'"
    by (auto simp: bound_of_def split: option.splits list.splits)
  show ?thesis
    using value_match_pair [OF assms(1) v(1) w(1) v(2) v(3) w(2) w(3)] v(4) w(4) by simp
next
  case False
  with assms show ?thesis
    using value_match_real [OF assms(1)]
    by (auto simp: bound_of_def split: if_splits)
qed

section \<open>The contract of a check, and its consequences\<close>

text \<open>
  Both paths verify with a check of one assertion that ignores the claimed flag, evaluates a stateless
  predicate on the reading and the operand alone, and decides nothing outside the mechanically
  evaluable predicates.
\<close>

locale checker =
  fixes check :: "assertion \<Rightarrow> check_outcome"
  assumes frame: "check (a\<lparr>satisfied := b\<rparr>) = check a"
    and stateless: "map_of predicate_handlers (predicate a) = Some h \<Longrightarrow> check a = h (observed a) (value a)"
    and evaluable: "mechanically_satisfied (check a) \<noteq> None \<Longrightarrow> predicate a \<in> set formalizable_predicates"
begin

lemma agreed_iff:
  "fst (tally_status as (run_tally check as v m obs)) = AGREED \<longleftrightarrow>
     as \<noteq> [] \<and> \<not> (v = FLAG \<and> list_all satisfied as) \<and>
     (\<forall>a \<in> set as. grounding_failure a m obs = None \<and>
        mechanically_satisfied (check a) = Some (satisfied a) \<and> (unflagged v \<longrightarrow> satisfied a)) \<and>
     (\<forall>e \<in> set (enumerable_obligations obs m). same_unit e \<and>
        (if fst e \<in> set (map obligation_id as) then \<not> (unflagged v \<and> own_outcome check e = Some False)
         else own_outcome check e = Some True))"
proof -
  have one: "assertion_consistent check v m obs a \<and> assertion_checkable check m obs a \<longleftrightarrow>
      grounding_failure a m obs = None \<and>
      mechanically_satisfied (check a) = Some (satisfied a) \<and> (unflagged v \<longrightarrow> satisfied a)" for a
    using evaluable [of a]
    by (auto simp: assertion_consistent_def assertion_checkable_def known_predicates_def split: option.splits)
  have own: "obligation_consistent check v xs e \<and> obligation_checkable check xs e \<longleftrightarrow>
      same_unit e \<and> (if fst e \<in> set xs then \<not> (unflagged v \<and> own_outcome check e = Some False)
        else own_outcome check e = Some True)" for xs e
    by (cases "own_outcome check e") (auto simp: obligation_consistent_def obligation_checkable_def)
  show ?thesis
    unfolding status_agreed_iff contradictions_zero_iff unverifiable_zero_iff run_tally_verdict
    using one own by blast
qed

lemma breach_contradicts:
  assumes "unflagged v" and "own_breaches check (enumerable_obligations obs m) \<noteq> []"
  shows "fst (tally_status as (run_tally check as v m obs)) = LLM_CONTRADICTION"
proof -
  from assms obtain e where "e \<in> set (enumerable_obligations obs m)" "same_unit e" "own_outcome check e = Some False"
    by (auto simp: own_breaches_def filter_empty_conv)
  then have "\<not> obligation_consistent check v (map obligation_id as) e"
    using assms by (simp add: obligation_consistent_def)
  with \<open>e \<in> _\<close> show ?thesis
    unfolding status_contradiction_iff contradictions_zero_iff by blast
qed

lemma omitted_breach_contradicts:
  assumes "i \<in> set (own_breaches check (enumerable_obligations obs m))" and "i \<notin> obligation_id ` set as"
  shows "fst (tally_status as (run_tally check as v m obs)) = LLM_CONTRADICTION"
proof -
  from assms obtain e where "e \<in> set (enumerable_obligations obs m)" "same_unit e"
      "own_outcome check e = Some False" "fst e = i"
    by (auto simp: own_breaches_def)
  then have "\<not> obligation_consistent check v (map obligation_id as) e"
    using assms by (auto simp: obligation_consistent_def)
  with \<open>e \<in> _\<close> show ?thesis
    unfolding status_contradiction_iff contradictions_zero_iff by blast
qed

lemma fail_closed_never_agreed:
  assumes "t_fail_closed (run_tally check as v m obs) \<noteq> []"
  shows "fst (tally_status as (run_tally check as v m obs)) \<in> {UNVERIFIABLE, LLM_CONTRADICTION}"
  using assms fail_closed_implies_unverifiable [of check as v m obs]
  by (auto simp: tally_status_def Let_def)

lemma numeric_outcome:
  assumes "p \<in> set numeric_predicates" and "predicate a = p"
  shows "mechanically_satisfied (check a) = bound_meaning p (observed a) (value a)"
  using numeric_predicate_handled [OF assms(1)] map_of_predicate_handlers [OF assms(1)] stateless [of a] assms(2)
  by fastforce

lemma agreed_numeric_sound:
  assumes agreed: "fst (tally_status as (run_tally check as CLEAR (Some m) (Some slice))) = AGREED"
    and ob: "map_of slice i = Some ob" "dget ob ''predicate'' = PyStr p" "dget ob ''metric'' = PyStr name"
    and p: "p \<in> set numeric_predicates"
    and b: "bound_of p (dget ob ''value'') = Some b"
    and raw: "resolve_reading m name = Some raw"
    and stateless_claims: "\<forall>a \<in> set as. obligation_id a = i \<longrightarrow> window_seconds a = None"
  shows "\<exists>x. real_of (fst (split_unit raw)) = Some x \<and> within_bound b x"
proof -
  have "(i, ob, raw) \<in> set (enumerable_obligations (Some slice) (Some m))"
    using ob p raw by (rule numeric_enumerable)
  with agreed have own: "same_unit (i, ob, raw)"
      "if i \<in> set (map obligation_id as) then own_outcome check (i, ob, raw) \<noteq> Some False
       else own_outcome check (i, ob, raw) = Some True"
    unfolding agreed_iff by (auto split: if_splits)
  show ?thesis
  proof (cases "i \<in> set (map obligation_id as)")
    case False
    with own(2) have "bound_meaning p (fst (split_unit raw)) (dget ob ''value'') = Some True"
      using numeric_outcome [OF p, of "obligation_probe i ob raw"] ob
      by (simp add: own_outcome_def obligation_probe_def text_of_def)
    with b show ?thesis by (auto simp: bound_meaning_def split: option.splits)
  next
    case True
    then obtain a where a: "a \<in> set as" "obligation_id a = i" by auto
    with agreed have g: "grounding_failure a (Some m) (Some slice) = None"
      and c: "mechanically_satisfied (check a) = Some True"
      unfolding agreed_iff by auto
    have win: "window_seconds a = None" using a stateless_claims by blast
    have claim: "predicate a = p" "metric a = name"
      "value a = PyNone \<or> \<not> value_mismatch (dget ob ''value'') (value a)"
      using grounded_claim [OF g] a ob b bound_of_not_None [OF b] by auto
    from c numeric_outcome [OF p claim(1)] obtain x b' where
      x: "real_of (observed a) = Some x" and b': "bound_of p (value a) = Some b'" and ok: "within_bound b' x"
      by (auto simp: bound_meaning_def split: option.splits)
    have "b' = b"
      using value_match_bound [OF _ b b'] claim(3) bound_of_not_None [OF b'] by blast
    moreover have "real_of (fst (split_unit raw)) = Some x"
      using grounded_reading [OF g win x] claim(2) raw by simp
    ultimately show ?thesis using ok by blast
  qed
qed

end

lemma acheck_evaluable:
  "mechanically_satisfied (acheck_assertion s t buf a) \<noteq> None \<Longrightarrow> predicate a \<in> set formalizable_predicates"
  by (auto simp: acheck_assertion_def formalizable_iff stateful_handlers_dom [symmetric] split: option.splits)

interpretation sync: checker check_assertion
  by unfold_locales (auto simp: check_assertion_def formalizable_iff split: option.splits if_splits)

interpretation async: checker "acheck_assertion s t buf" for s t buf
  by unfold_locales (rule acheck_assertion_frame, simp add: acheck_assertion_def, rule acheck_evaluable)

section \<open>Normalised assertions\<close>

lemma grounding_failure_frame [simp]:
  "grounding_failure (a\<lparr>satisfied := b\<rparr>) m obs = grounding_failure a m obs"
  by (simp add: grounding_failure_def grounding_violation_def obligation_grounding_violation_def Let_def
      cong: option.case_cong if_cong)

definition normalised :: "obj option \<Rightarrow> obligations option \<Rightarrow> assertion \<Rightarrow> assertion" where
  "normalised m obs a =
     (case mechanically_satisfied (check_assertion a) of
        Some ok \<Rightarrow> if grounding_failure a m obs = None then a\<lparr>satisfied := ok\<rparr> else a
      | None \<Rightarrow> a)"

lemma normalize_step_fst:
  "fst (normalize_step m obs a r) = fst r @ [normalised m obs a]"
  by (cases r) (auto simp: normalize_step_def normalised_def split: option.splits)

lemma normalize_step_snd:
  "snd (normalize_step m obs a r) =
   snd r @ (if normalised m obs a = a then []
            else [SatisfiedNormalised (obligation_id a) (satisfied a) (satisfied (normalised m obs a))
                    (outcome_reason (check_assertion a))])"
proof -
  have "a\<lparr>satisfied := b\<rparr> = a \<longleftrightarrow> satisfied a = b" for b
    by (cases a) auto
  then show ?thesis
    by (cases r) (auto simp: normalize_step_def normalised_def split: option.splits)
qed

lemma fold_normalize:
  "fst (fold (normalize_step m obs) as r) = fst r @ map (normalised m obs) as"
  "snd (fold (normalize_step m obs) as r) = snd r @
     [SatisfiedNormalised (obligation_id a) (satisfied a) (satisfied (normalised m obs a))
        (outcome_reason (check_assertion a)). a \<leftarrow> as, normalised m obs a \<noteq> a]"
  by (induction as arbitrary: r) (simp_all add: normalize_step_fst normalize_step_snd)

lemma normalize_satisfied_eq:
  "normalize_satisfied as m obs =
   (map (normalised m obs) as,
    [SatisfiedNormalised (obligation_id a) (satisfied a) (satisfied (normalised m obs a))
       (outcome_reason (check_assertion a)). a \<leftarrow> as, normalised m obs a \<noteq> a])"
  using fold_normalize [of m obs as "([], [])"] by (simp add: normalize_satisfied_def prod_eq_iff)

lemma normalised_idem [simp]: "normalised m obs (normalised m obs a) = normalised m obs a"
  by (auto simp: normalised_def split: option.splits)

lemma normalised_unchanged: "(normalised m obs a)\<lparr>satisfied := b\<rparr> = a\<lparr>satisfied := b\<rparr>"
  by (auto simp: normalised_def split: option.splits)

lemma normalised_decided:
  "grounding_failure a m obs = None \<Longrightarrow> mechanically_satisfied (check_assertion a) = Some ok \<Longrightarrow>
   satisfied (normalised m obs a) = ok"
  by (simp add: normalised_def)

section \<open>The index of the slice\<close>

lemma last_positions_append:
  "last_positions (es @ [ob]) =
   (case dget ob ''id'' of PyStr i \<Rightarrow> alist_set i (length es) (last_positions es) | _ \<Rightarrow> last_positions es)"
  by (simp add: last_positions_def enumerate_append_eq split: py.split)

lemma last_positions_iff:
  "map_of (last_positions es) i = Some k \<longleftrightarrow>
   k < length es \<and> dget (es ! k) ''id'' = PyStr i \<and>
   (\<forall>j. k < j \<and> j < length es \<longrightarrow> dget (es ! j) ''id'' \<noteq> PyStr i)"
proof (induction es arbitrary: k rule: rev_induct)
  case Nil
  then show ?case by (simp add: last_positions_def)
next
  case (snoc ob es)
  show ?case
  proof (cases "dget ob ''id'' = PyStr i")
    case True
    then have "map_of (last_positions (es @ [ob])) i = Some (length es)"
      by (simp add: last_positions_append)
    moreover have "k = length es" if "k < length (es @ [ob])"
      "\<forall>j. k < j \<and> j < length (es @ [ob]) \<longrightarrow> dget ((es @ [ob]) ! j) ''id'' \<noteq> PyStr i"
      using that(1) that(2) [rule_format, of "length es"] True by (auto simp: less_Suc_eq)
    ultimately show ?thesis using True by auto
  next
    case False
    then have "map_of (last_positions (es @ [ob])) i = map_of (last_positions es) i"
      by (auto simp: last_positions_append split: py.split)
    then have step: "map_of (last_positions (es @ [ob])) i = Some k \<longleftrightarrow>
        k < length es \<and> dget (es ! k) ''id'' = PyStr i \<and>
        (\<forall>j. k < j \<and> j < length es \<longrightarrow> dget (es ! j) ''id'' \<noteq> PyStr i)"
      using snoc by simp
    have later: "(\<forall>j. k < j \<and> j < Suc (length es) \<longrightarrow> dget ((es @ [ob]) ! j) ''id'' \<noteq> PyStr i) \<longleftrightarrow>
        (\<forall>j. k < j \<and> j < length es \<longrightarrow> dget (es ! j) ''id'' \<noteq> PyStr i)"
      using False by (metis less_Suc_eq nth_append nth_append_length)
    show ?thesis
      unfolding step using later False by (auto simp: nth_append less_Suc_eq)
  qed
qed

definition hidden_violation :: "(string \<times> nat) list \<Rightarrow> obj option \<Rightarrow> nat \<times> obj \<Rightarrow> divergence list" where
  "hidden_violation ps m = (\<lambda>(pos, ob).
     (if (\<exists>i. dget ob ''id'' = PyStr i \<and> map_of ps i = Some pos) \<or>
         (case m of None \<Rightarrow> True | Some reading \<Rightarrow> enumerable_reading reading ob = None)
      then []
      else case dget ob ''id'' of
          PyStr i \<Rightarrow> [SliceRepeatedId i pos (dget ob ''metric'') (dget ob ''predicate'')]
        | _ \<Rightarrow> [SliceWithoutId pos (dget ob ''metric'') (dget ob ''predicate'')]))"

lemma single_enumerable:
  "enumerable_obligations (Some [(k, ob)]) (Some reading) = [] \<longleftrightarrow> enumerable_reading reading ob = None"
  by (simp add: enumerable_obligations_def map_filter_def)

lemma index_step_violations:
  "snd (index_step ps m e r) = snd r @ hidden_violation ps m e"
  by (cases r; cases e; cases m)
     (auto simp: index_step_def hidden_violation_def single_enumerable split: py.split)

lemma index_violations:
  "snd (index_obligations obs m) =
   (let entries = List.map_filter dict_of obs in
    concat (map (hidden_violation (last_positions entries) m) (enumerate 0 entries)))"
  unfolding index_obligations_def Let_def
  by (subst fold_extends [where g = snd and h = "hidden_violation (last_positions (List.map_filter dict_of obs)) m"])
     (simp_all add: index_step_violations)

lemma index_step_index:
  "fst (index_step ps m (k, ob) r) =
   (case dget ob ''id'' of PyStr i \<Rightarrow> if map_of ps i = Some k then alist_set i ob (fst r) else fst r
    | _ \<Rightarrow> fst r)"
  by (cases r) (auto simp: index_step_def split: py.split)

lemma index_fold:
  "map_of (fst (fold (index_step ps m) (enumerate 0 es) ([], []))) i = Some ob \<longleftrightarrow>
   (\<exists>k < length es. es ! k = ob \<and> dget ob ''id'' = PyStr i \<and> map_of ps i = Some k)"
proof (induction es arbitrary: ob rule: rev_induct)
  case (snoc e es)
  have "fst (fold (index_step ps m) (enumerate 0 (es @ [e])) ([], [])) =
        fst (index_step ps m (length es, e) (fold (index_step ps m) (enumerate 0 es) ([], [])))"
    by (simp add: enumerate_append_eq)
  with snoc show ?case
    by (auto simp: index_step_index nth_append less_Suc_eq split: py.split if_splits)
qed simp

lemma index_obligations_iff:
  "map_of (fst (index_obligations obs m)) i = Some ob \<longleftrightarrow>
   (let entries = List.map_filter dict_of obs in
    \<exists>k < length entries. entries ! k = ob \<and> dget ob ''id'' = PyStr i \<and>
      (\<forall>j. k < j \<and> j < length entries \<longrightarrow> dget (entries ! j) ''id'' \<noteq> PyStr i))"
  by (auto simp: index_obligations_def Let_def index_fold last_positions_iff)

lemma index_distinct: "distinct (map fst (fst (index_obligations obs m)))"
  unfolding index_obligations_def Let_def
  by (rule fold_invariant [where P = "\<lambda>r. distinct (map fst (fst r))"])
     (auto simp: index_step_index distinct_alist_set split: py.split)

lemma later_iff:
  "list_all P (drop (Suc k) xs) \<longleftrightarrow> (\<forall>j. k < j \<and> j < length xs \<longrightarrow> P (xs ! j))"
proof -
  have "list_all P (drop (Suc k) xs) \<longleftrightarrow> (\<forall>j < length xs - Suc k. P (xs ! (Suc k + j)))"
    by (simp add: list_all_length)
  also have "\<dots> \<longleftrightarrow> (\<forall>j. k < j \<and> j < length xs \<longrightarrow> P (xs ! j))"
  proof
    assume *: "\<forall>j < length xs - Suc k. P (xs ! (Suc k + j))"
    show "\<forall>j. k < j \<and> j < length xs \<longrightarrow> P (xs ! j)"
    proof (intro allI impI)
      fix j assume "k < j \<and> j < length xs"
      then show "P (xs ! j)"
        using * [rule_format, of "j - Suc k"] diff_less_mono [of j "length xs" "Suc k"] by simp
    qed
  qed auto
  finally show ?thesis .
qed

lemma index_last:
  "map_of (fst (index_obligations obs m)) i = Some ob \<longleftrightarrow>
   (\<exists>k < length (List.map_filter dict_of obs). List.map_filter dict_of obs ! k = ob \<and>
      dget ob ''id'' = PyStr i \<and>
      list_all (\<lambda>later. dget later ''id'' \<noteq> PyStr i) (drop (Suc k) (List.map_filter dict_of obs)))"
  unfolding later_iff index_obligations_iff Let_def ..

lemma index_complete:
  assumes "k < length (List.map_filter dict_of obs)" and "List.map_filter dict_of obs ! k = ob"
    and "enumerable_reading m ob \<noteq> None"
  shows "(\<exists>i. dget ob ''id'' = PyStr i \<and> map_of (fst (index_obligations obs (Some m))) i = Some ob) \<or>
      (\<exists>i. SliceRepeatedId i k (dget ob ''metric'') (dget ob ''predicate'') \<in> set (snd (index_obligations obs (Some m)))) \<or>
      SliceWithoutId k (dget ob ''metric'') (dget ob ''predicate'') \<in> set (snd (index_obligations obs (Some m)))"
proof (cases "\<exists>i. dget ob ''id'' = PyStr i \<and> map_of (last_positions (List.map_filter dict_of obs)) i = Some k")
  case True
  then obtain i where "dget ob ''id'' = PyStr i" "map_of (last_positions (List.map_filter dict_of obs)) i = Some k"
    by blast
  then have "map_of (fst (index_obligations obs (Some m))) i = Some ob"
    using assms(1,2) unfolding index_obligations_iff last_positions_iff Let_def by blast
  with \<open>dget ob ''id'' = PyStr i\<close> show ?thesis by blast
next
  case False
  let ?ps = "last_positions (List.map_filter dict_of obs)"
  have "(k, ob) \<in> set (enumerate 0 (List.map_filter dict_of obs))"
    using assms by (auto simp: in_set_enumerate_eq)
  then have sub: "set (hidden_violation ?ps (Some m) (k, ob)) \<subseteq> set (snd (index_obligations obs (Some m)))"
    unfolding index_violations Let_def set_concat set_map by blast
  have "(\<exists>i. hidden_violation ?ps (Some m) (k, ob) = [SliceRepeatedId i k (dget ob ''metric'') (dget ob ''predicate'')]) \<or>
      hidden_violation ?ps (Some m) (k, ob) = [SliceWithoutId k (dget ob ''metric'') (dget ob ''predicate'')]"
    using False assms(3) by (auto simp: hidden_violation_def split: py.split)
  with sub show ?thesis by auto
qed

section \<open>Accepted measurements\<close>

text \<open>Every number anywhere in a value is a finite double or an integer in the double range.\<close>

fun readable :: "py \<Rightarrow> bool" where
  "readable (PyFloat x) = is_finite x"
| "readable (PyInt i) = (\<bar>i\<bar> \<le> max_double)"
| "readable (PyDict d) = list_all (\<lambda>e. readable (snd e)) d"
| "readable (PyList xs) = list_all readable xs"
| "readable (PyTuple xs) = list_all readable xs"
| "readable _ = True"

lemma non_finite_paths_Nil:
  "non_finite_paths v p = [] \<longleftrightarrow> readable v"
  "non_finite_items xs n p = [] \<longleftrightarrow> list_all readable xs"
  "non_finite_entries d p = [] \<longleftrightarrow> list_all (\<lambda>e. readable (snd e)) d"
  by (induction v p and xs n p and d p rule: non_finite_paths_non_finite_items_non_finite_entries.induct) auto

definition boolean_conflict :: "obj \<Rightarrow> obj \<Rightarrow> bool" where
  "boolean_conflict m ob =
     (case dget ob ''metric'' of
        PyStr name \<Rightarrow> expects_number ob \<and> boolean_reading m name \<noteq> None
      | _ \<Rightarrow> False)"

lemma input_step_clean:
  "input_step m ob r = ([], []) \<longleftrightarrow> r = ([], []) \<and> \<not> boolean_conflict m ob"
  by (cases r) (auto simp: input_step_def boolean_conflict_def split: py.split option.split)

lemma input_step_marks:
  "(fst r \<noteq> [] \<longrightarrow> snd r \<noteq> []) \<Longrightarrow> fst (input_step m ob r) \<noteq> [] \<longrightarrow> snd (input_step m ob r) \<noteq> []"
  by (cases r) (auto simp: input_step_def split: py.split option.split)

lemma input_errors_Nil:
  "measurement_input_errors m obs = [] \<longleftrightarrow>
   list_all (\<lambda>e. readable (snd e)) m \<and> (\<forall>ob \<in> set obs. \<not> boolean_conflict m ob)"
proof -
  let ?start = "([] :: string list, map NotAReading (concat (map (\<lambda>(k, v). non_finite_paths v [Key k]) m)))"
  have "fst (fold (input_step m) obs ?start) \<noteq> [] \<longrightarrow> snd (fold (input_step m) obs ?start) \<noteq> []"
    by (rule fold_invariant [where P = "\<lambda>r. fst r \<noteq> [] \<longrightarrow> snd r \<noteq> []"]) (use input_step_marks in auto)
  then have "measurement_input_errors m obs = [] \<longleftrightarrow> fold (input_step m) obs ?start = ([], [])"
    by (auto simp: measurement_input_errors_def prod_eq_iff)
  also have "\<dots> \<longleftrightarrow> ?start = ([], []) \<and> (\<forall>ob \<in> set obs. \<not> boolean_conflict m ob)"
    by (rule fold_conj [where f = "input_step m" and P = "\<lambda>r. r = ([], [])"]) (rule input_step_clean)
  also have "?start = ([], []) \<longleftrightarrow> list_all (\<lambda>e. readable (snd e)) m"
    by (induction m) (auto simp: non_finite_paths_Nil)
  finally show ?thesis .
qed

section \<open>The two paths\<close>

text \<open>No stateful predicate is checked: neither by an assertion nor by an enumerated obligation.\<close>

definition stateless_only :: "assertion list \<Rightarrow> (string \<times> obj \<times> py) list \<Rightarrow> bool" where
  "stateless_only as es =
     (list_all (\<lambda>a. predicate a \<notin> set stateful_predicates) as \<and>
      list_all (\<lambda>e. text_of (dget (fst (snd e)) ''predicate'') \<notin> set stateful_predicates) es)"

lemma acheck_not_stateful:
  "predicate a \<notin> set stateful_predicates \<Longrightarrow> acheck_assertion s t buf a = check_assertion a"
  by (auto simp: acheck_assertion_def check_assertion_def stateful_handlers_dom [symmetric] split: option.splits)

lemma run_tally_stateless:
  assumes "stateless_only as (enumerable_obligations obs m)"
  shows "run_tally (acheck_assertion s t buf) as v m obs = run_tally check_assertion as v m obs"
proof -
  have "fold (assertion_step (acheck_assertion s t buf) m obs) as t0 = fold (assertion_step check_assertion m obs) as t0" for t0
    by (rule fold_cong) (use assms in \<open>auto simp: stateless_only_def list_all_iff assertion_step_def acheck_not_stateful fun_eq_iff
          split: prod.split bool.split\<close>)
  moreover have "fold (obligation_step (acheck_assertion s t buf) xs) (enumerable_obligations obs m) t0 =
      fold (obligation_step check_assertion xs) (enumerable_obligations obs m) t0" for xs t0
    by (rule fold_cong)
       (use assms in \<open>auto simp: stateless_only_def list_all_iff obligation_step_def acheck_not_stateful
          obligation_probe_def fun_eq_iff split: option.split\<close>)
  ultimately show ?thesis by (simp add: run_tally_def)
qed

section \<open>Properties\<close>

text \<open>
  Property C23. When a verification agrees (\<open>averify\<close>): exactly when there is an assertion, every assertion
  is grounded and claims what the verifier computes (and is satisfied under CLEAR or NULL_UNMAPPED),
  every enumerated obligation is read in its own unit, those the model asserts are not breached under
  CLEAR or NULL_UNMAPPED, those it omits are satisfied, and a FLAG has an unsatisfied assertion.
\<close>

theorem averify_agrees_iff:
  "status (averify s t buf as v m obs) = AGREED \<longleftrightarrow>
     as \<noteq> [] \<and> (v = FLAG \<and> list_all satisfied as) = False \<and>
     list_all (\<lambda>a. grounding_failure a m obs = None \<and>
        mechanically_satisfied (acheck_assertion s t buf a) = Some (satisfied a) \<and>
        (if unflagged v then satisfied a else True)) as \<and>
     list_all (\<lambda>e. same_unit e \<and>
        (if fst e \<in> set (map obligation_id as)
         then (unflagged v \<and> own_outcome (acheck_assertion s t buf) e = Some False) = False
         else own_outcome (acheck_assertion s t buf) e = Some True)) (enumerable_obligations obs m)"
  unfolding averify_def averify_report_def tally_report_fields async.agreed_iff list_all_iff
  by (auto split: if_splits)

text \<open>
  A breach that the model leaves out is a contradiction whatever its verdict, and a breach
  under CLEAR or NULL_UNMAPPED is one whatever its assertions: the precedence of LLM_CONTRADICTION over
  every other status cannot be masked by unverifiable assertions.
\<close>

theorem breach_is_a_contradiction:
  assumes "i \<in> set (breached_obligations (averify_report s t buf as v m obs))"
    and "v \<in> {CLEAR, NULL_UNMAPPED} \<or> i \<notin> obligation_id ` set as"
  shows "status (averify s t buf as v m obs) = LLM_CONTRADICTION"
proof -
  have i: "i \<in> set (own_breaches (acheck_assertion s t buf) (enumerable_obligations obs m))"
    using assms(1) by (simp add: averify_report_def run_tally_breached)
  show ?thesis
  proof (cases "i \<in> obligation_id ` set as")
    case True
    with assms(2) have "unflagged v" by auto
    with i show ?thesis
      by (auto simp: averify_def averify_report_def intro!: async.breach_contradicts)
  next
    case False
    with i show ?thesis
      by (simp add: averify_def averify_report_def async.omitted_breach_contradicts)
  qed
qed

definition sample_obligation :: "string \<Rightarrow> py \<Rightarrow> obj" where
  "sample_obligation i cap =
     [(''id'', PyStr i), (''predicate'', PyStr ''must_not_exceed''), (''metric'', PyStr ''nox''), (''value'', cap)]"

theorem breach_is_a_contradiction_witness:
  "status (averify None None None [] FLAG (Some [(''nox'', PyInt 140)])
     (Some [(''ob1'', sample_obligation ''ob1'' (PyInt 100))])) = LLM_CONTRADICTION"
proof -
  have "''ob1'' \<in> set (breached_obligations (averify_report None None None [] FLAG (Some [(''nox'', PyInt 140)])
     (Some [(''ob1'', sample_obligation ''ob1'' (PyInt 100))])))" by code_simp
  then show ?thesis by (rule breach_is_a_contradiction) simp
qed

text \<open>
  The synchronous and the asynchronous path produce the same report when no stateful
  predicate takes part, whatever subject, time and buffer the latter is given.
\<close>

theorem verify_matches_averify:
  assumes "stateless_only as (enumerable_obligations obs m)"
  shows "averify_report s t buf as v m obs = verify_report as v m obs"
  using run_tally_stateless [OF assms] by (simp add: averify_report_def verify_report_def)

theorem verify_matches_averify_witness:
  "averify_report (Some ''s'') (Some 0) None [] CLEAR (Some [(''nox'', PyInt 40)])
     (Some [(''ob1'', sample_obligation ''ob1'' (PyInt 100))]) =
   verify_report [] CLEAR (Some [(''nox'', PyInt 40)]) (Some [(''ob1'', sample_obligation ''ob1'' (PyInt 100))])"
proof -
  have "stateless_only [] (enumerable_obligations (Some [(''ob1'', sample_obligation ''ob1'' (PyInt 100))])
     (Some [(''nox'', PyInt 40)]))" by code_simp
  then show ?thesis by (rule verify_matches_averify)
qed

text \<open>
  Normalisation changes nothing but \<open>satisfied\<close> flags, makes every grounded assertion whose
  predicate can be evaluated claim what the verifier computes, records one note per change, and is
  idempotent.
\<close>

theorem normalize_satisfied_correct:
  "let (as', ns) = normalize_satisfied as m obs in
     map (\<lambda>a. a\<lparr>satisfied := True\<rparr>) as' = map (\<lambda>a. a\<lparr>satisfied := True\<rparr>) as \<and>
     list_all (\<lambda>a. if grounding_failure a m obs = None
        then mechanically_satisfied (check_assertion a) \<in> {None, Some (satisfied a)} else True) as' \<and>
     length ns = length (filter (\<lambda>(a, a'). a' \<noteq> a) (zip as as')) \<and>
     normalize_satisfied as' m obs = (as', [])"
proof -
  have frame: "grounding_failure (normalised m obs a) m obs = grounding_failure a m obs"
    "check_assertion (normalised m obs a) = check_assertion a" for a
    by (simp_all add: normalised_def split: option.split)
  have count: "length [f a. a \<leftarrow> as, normalised m obs a \<noteq> a] =
      length (filter (\<lambda>(a, a'). a' \<noteq> a) (zip as (map (normalised m obs) as)))" for f :: "assertion \<Rightarrow> envelope_note"
    by (induction as) auto
  have decided: "mechanically_satisfied (check_assertion a) \<in> {None, Some (satisfied (normalised m obs a))}"
    if "grounding_failure a m obs = None" for a
    using normalised_decided [OF that]
    by (cases "mechanically_satisfied (check_assertion a)") auto
  have "list_all (\<lambda>a. if grounding_failure a m obs = None
      then mechanically_satisfied (check_assertion a) \<in> {None, Some (satisfied a)} else True)
      (map (normalised m obs) as)"
    unfolding list_all_iff using decided by (auto simp: frame)
  then show ?thesis
    unfolding normalize_satisfied_eq Let_def prod.case
    by (simp add: count normalised_unchanged o_def)
qed

text \<open>
  The index of a slice holds, for each string id, the last obligation with that id, and
  nothing else; an obligation that the verifier would evaluate on the measurement is either in the
  index under its id or reported with its position as hidden, so none drops out silently.
\<close>

theorem index_obligations_complete:
  "let entries = List.map_filter dict_of obs; (index, violations) = index_obligations obs (Some m) in
     distinct (map fst index) \<and>
     (\<forall>i ob. map_of index i = Some ob \<longleftrightarrow>
        (\<exists>k < length entries. entries ! k = ob \<and> dget ob ''id'' = PyStr i \<and>
           list_all (\<lambda>later. dget later ''id'' \<noteq> PyStr i) (drop (Suc k) entries))) \<and>
     list_all (\<lambda>(k, ob).
        if enumerable_reading m ob = None then True
        else (\<exists>i. dget ob ''id'' = PyStr i \<and> map_of index i = Some ob) \<or>
             (\<exists>i. SliceRepeatedId i k (dget ob ''metric'') (dget ob ''predicate'') \<in> set violations) \<or>
             SliceWithoutId k (dget ob ''metric'') (dget ob ''predicate'') \<in> set violations)
       (enumerate 0 entries)"
  using index_complete [where obs = obs and m = m] index_last [where obs = obs and m = "Some m"]
    index_distinct [where obs = obs and m = "Some m"]
  by (simp add: Let_def case_prod_beta list_all_iff in_set_enumerate_eq)

text \<open>
  The API accepts a measurement (no input error) exactly when every number anywhere in it is
  a finite double or an integer in the double range, and no obligation that expects a number finds a
  boolean reading for its metric.
\<close>

theorem measurement_accepted_iff:
  "measurement_input_errors m obs = [] \<longleftrightarrow>
   list_all (\<lambda>e. readable (snd e)) m \<and> list_all (\<lambda>ob. boolean_conflict m ob = False) obs"
  by (simp add: input_errors_Nil list_all_iff)

end
