(* ===== verification/Risk_Policy.thy ===== *)
theory Risk_Policy
  imports Envelope
begin

text \<open>
  The risk-tier policy (\<open>ski_model/v3/policies/risk_tier.py\<close>), the risk-tier governor and the tag
  registry (\<open>tag_registry/registry.py\<close>). The governor reads the tier of each obligation of a scoped
  slice; the policy reads the tier the governor chose and the verifier status, and keeps the verdict
  or downgrades it. The environment variable \<open>SKI_FORCE_DISCRETIONARY_ON_UNVERIFIABLE\<close> is a parameter.
\<close>

section \<open>Tiers\<close>

datatype risk_tier = TIER_1 | TIER_2 | TIER_3

fun tier_name :: "risk_tier \<Rightarrow> string" where
  "tier_name TIER_1 = ''tier-1''"
| "tier_name TIER_2 = ''tier-2''"
| "tier_name TIER_3 = ''tier-3''"

definition alias_map :: "(string \<times> risk_tier) list" where
  "alias_map =
     [(''tier-1'', TIER_1), (''tier1'', TIER_1), (''high'', TIER_1), (''high-risk'', TIER_1),
      (''tier-2'', TIER_2), (''tier2'', TIER_2), (''standard'', TIER_2), (''default'', TIER_2),
      (''medium'', TIER_2), (''tier-3'', TIER_3), (''tier3'', TIER_3), (''low'', TIER_3),
      (''low-risk'', TIER_3)]"

definition normalise_tier :: "py \<Rightarrow> risk_tier \<times> envelope_note option" where
  "normalise_tier tier =
     (case tier of
        PyStr s \<Rightarrow>
          if py_strip s = [] then (TIER_1, Some TierNotDeclared)
          else (case map_of alias_map (py_lower (py_strip s)) of
              None \<Rightarrow> (TIER_1, Some (TierNotRecognised s))
            | Some resolved \<Rightarrow> (resolved, None))
      | _ \<Rightarrow> (TIER_1, Some TierNotDeclared))"

section \<open>The policy\<close>

definition downgrade_to_discretionary :: "envelope \<Rightarrow> envelope_note list \<Rightarrow> bool \<Rightarrow> envelope" where
  "downgrade_to_discretionary e ns attestation_needed =
     (let attestation = human_attestation e;
          attestation =
            (if attestation_needed \<and> attestation = None then Some attestation_required else attestation)
      in e\<lparr>verdict := DISCRETIONARY, envelope_notes := ns, human_attestation := attestation\<rparr>)"

definition forces_on_unverifiable :: "string option \<Rightarrow> bool" where
  "forces_on_unverifiable env =
     (py_lower (py_strip (case env of None \<Rightarrow> ''false'' | Some s \<Rightarrow> s)) = ''true'')"

definition apply_risk_policy :: "string option \<Rightarrow> envelope \<Rightarrow> py \<Rightarrow> envelope" where
  "apply_risk_policy env e tier_arg =
     (let (tier, coercion) = normalise_tier tier_arg;
          st = status (verifier_result e);
          ns = envelope_notes e @ (case coercion of None \<Rightarrow> [] | Some n \<Rightarrow> [n])
      in
      if st = AGREED then
        (if coercion \<noteq> None then e\<lparr>envelope_notes := ns\<rparr> else e)
      else if st = UNVERIFIABLE \<and> forces_on_unverifiable env then
        downgrade_to_discretionary e (ns @ [ForcedOnUnverifiable]) True
      else
        (let has_attestation = (human_attestation e \<noteq> None) in
         case tier of
           TIER_1 \<Rightarrow> downgrade_to_discretionary e (ns @ [Tier1RequiresAgreed st]) True
         | TIER_2 \<Rightarrow>
             if st = LLM_CONTRADICTION \<and> \<not> has_attestation then
               downgrade_to_discretionary e (ns @ [Tier2Contradiction]) True
             else if st = NEURO_SYMBOLIC_DIVERGENCE \<and> \<not> has_attestation then
               downgrade_to_discretionary e (ns @ [Tier2Divergence]) True
             else if st = UNVERIFIABLE then e\<lparr>envelope_notes := ns @ [Tier2UnverifiableAccepted]\<rparr>
             else e
         | TIER_3 \<Rightarrow>
             if st = LLM_CONTRADICTION then
               downgrade_to_discretionary e (ns @ [Tier3Contradiction]) False
             else e\<lparr>envelope_notes := ns @ [Tier3Accepted st]\<rparr>))"

section \<open>The governor\<close>

definition default_tier :: string where
  "default_tier = ''tier-1''"

definition tier_rank :: "(string \<times> nat) list" where
  "tier_rank = [(''tier-1'', 1), (''tier-2'', 2), (''tier-3'', 3)]"

definition governor_aliases :: "(string \<times> string) list" where
  "governor_aliases =
     [(''tier-1'', ''tier-1''), (''tier1'', ''tier-1''), (''high'', ''tier-1''), (''high-risk'', ''tier-1''),
      (''tier-2'', ''tier-2''), (''tier2'', ''tier-2''), (''standard'', ''tier-2''), (''default'', ''tier-2''),
      (''medium'', ''tier-2''), (''tier-3'', ''tier-3''), (''tier3'', ''tier-3''), (''low'', ''tier-3''),
      (''low-risk'', ''tier-3'')]"

definition canonicalise :: "py \<Rightarrow> string" where
  "canonicalise raw =
     (case raw of
        PyStr s \<Rightarrow>
          (case map_of governor_aliases (py_lower (py_strip s)) of None \<Rightarrow> default_tier | Some t \<Rightarrow> t)
      | _ \<Rightarrow> default_tier)"

definition rank_of :: "obj \<Rightarrow> nat" where
  "rank_of r = (case map_of tier_rank (canonicalise (dget r ''risk_tier'')) of None \<Rightarrow> 0 | Some n \<Rightarrow> n)"

definition strictest_tier :: "obj list \<Rightarrow> string" where
  "strictest_tier rules =
     (let ranks = map rank_of rules in
      case ranks of
        [] \<Rightarrow> default_tier
      | n # ns \<Rightarrow>
          (let best = fold min ns n in
           case find (\<lambda>(t, r). r = best) tier_rank of
             Some (t, _) \<Rightarrow> t
           | None \<Rightarrow> default_tier))"

text \<open>\<open>kg_snapshot.get("obligations", [])\<close>: the obligations of a scoped snapshot, all dictionaries.\<close>

definition snapshot_obligations :: "obj \<Rightarrow> py list" where
  "snapshot_obligations snap = (case dget_default snap ''obligations'' (PyList []) of PyList xs \<Rightarrow> xs | _ \<Rightarrow> [])"

definition tier_for_snapshot :: "obj \<Rightarrow> string" where
  "tier_for_snapshot snap = strictest_tier (List.map_filter dict_of (snapshot_obligations snap))"

section \<open>The tag registry\<close>

function collapse_space :: "string \<Rightarrow> string" where
  "collapse_space [] = []"
| "collapse_space (c # cs) =
     (if is_space c then CHR '' '' # collapse_space (dropWhile is_space cs) else c # collapse_space cs)"
  by pat_completeness auto

termination collapse_space
  by (relation "measure length") (auto simp: length_dropWhile_le le_imp_less_Suc)

definition normalise_subject :: "string \<Rightarrow> string" where
  "normalise_subject s = collapse_space (py_lower (py_strip s))"

definition rule_index :: "obj list \<Rightarrow> (py \<times> obj) list" where
  "rule_index rules =
     fold (\<lambda>r d. if truthy (dget r ''id'') then alist_set (dget r ''id'') r d else d) rules []"

definition registry_step ::
  "(py \<times> obj) list \<Rightarrow> string \<times> py \<Rightarrow> py + (string \<times> obj) list \<Rightarrow> py + (string \<times> obj) list" where
  "registry_step rules = (\<lambda>(subject, rule_id) acc.
     (case acc of
        Inl e \<Rightarrow> Inl e
      | Inr d \<Rightarrow>
          (case map_of rules rule_id of
             None \<Rightarrow> Inl rule_id
           | Some r \<Rightarrow> Inr (alist_set (normalise_subject subject) r d))))"

definition registry_from_dict :: "(string \<times> py) list \<Rightarrow> obj list \<Rightarrow> py + (string \<times> obj) list" where
  "registry_from_dict tag_registry rules = fold (registry_step (rule_index rules)) tag_registry (Inr [])"

definition registry_resolve :: "(string \<times> obj) list \<Rightarrow> string \<Rightarrow> obj option" where
  "registry_resolve d subject = map_of d (normalise_subject subject)"

definition registry_contains :: "(string \<times> obj) list \<Rightarrow> string \<Rightarrow> bool" where
  "registry_contains d subject = (normalise_subject subject \<in> fst ` set d)"

section \<open>Facts on tiers\<close>

lemma aliases_agree: "map_of governor_aliases k = map_option tier_name (map_of alias_map k)"
  by (simp add: governor_aliases_def alias_map_def)

lemma alias_map_blank: "map_of alias_map [] = None"
  by (simp add: alias_map_def)

lemma canonicalise_normalise: "canonicalise v = tier_name (fst (normalise_tier v))"
  by (cases v)
     (auto simp: canonicalise_def normalise_tier_def aliases_agree default_tier_def alias_map_blank
       split: option.split)

fun tier_number :: "risk_tier \<Rightarrow> nat" where
  "tier_number TIER_1 = 1" | "tier_number TIER_2 = 2" | "tier_number TIER_3 = 3"

lemma rank_of_tier: "rank_of r = tier_number (fst (normalise_tier (dget r ''risk_tier'')))"
  by (cases "fst (normalise_tier (dget r ''risk_tier''))")
     (simp_all add: rank_of_def canonicalise_normalise tier_rank_def)

lemma rank_of_range: "rank_of r \<in> {1, 2, 3}"
  by (cases "fst (normalise_tier (dget r ''risk_tier''))") (simp_all add: rank_of_tier)

lemma fold_min_eq: "fold min ns (n :: nat) = Min (insert n (set ns))"
  by (simp add: Min.set_eq_fold [symmetric])

lemma strictest_tier_rank:
  assumes "rules \<noteq> []"
  shows "map_of tier_rank (strictest_tier rules) = Some (Min (rank_of ` set rules))"
proof -
  obtain r rs where rules: "rules = r # rs" using assms by (cases rules) auto
  have best: "fold min (map rank_of rs) (rank_of r) = Min (rank_of ` set rules)"
    by (simp add: rules fold_min_eq)
  have "Min (rank_of ` set rules) \<in> rank_of ` set rules"
    using rules by (intro Min_in) auto
  then obtain q where "Min (rank_of ` set rules) = rank_of q" by auto
  then have "Min (rank_of ` set rules) \<in> {1, 2, 3}"
    using rank_of_range [of q] by simp
  then show ?thesis
    using best by (auto simp: strictest_tier_def rules tier_rank_def Let_def)
qed

lemma strictest_tier_le:
  "r \<in> set rules \<Longrightarrow> the (map_of tier_rank (strictest_tier rules)) \<le> rank_of r"
  by (cases "rules = []") (simp_all add: strictest_tier_rank)

lemma strictest_tier_1_iff:
  assumes "rules \<noteq> []"
  shows "strictest_tier rules = ''tier-1'' \<longleftrightarrow> (\<exists>r \<in> set rules. canonicalise (dget r ''risk_tier'') = ''tier-1'')"
proof -
  have one: "rank_of r = 1 \<longleftrightarrow> canonicalise (dget r ''risk_tier'') = ''tier-1''" for r
    by (cases "fst (normalise_tier (dget r ''risk_tier''))")
       (simp_all add: rank_of_tier canonicalise_normalise)
  have "strictest_tier rules = ''tier-1'' \<longleftrightarrow> Min (rank_of ` set rules) = 1"
    using strictest_tier_rank [OF assms] by (auto simp: tier_rank_def split: if_splits)
  also have "\<dots> \<longleftrightarrow> (\<exists>r \<in> set rules. rank_of r = 1)"
  proof
    assume "Min (rank_of ` set rules) = 1"
    moreover have "Min (rank_of ` set rules) \<in> rank_of ` set rules"
      using assms by (intro Min_in) auto
    ultimately show "\<exists>r \<in> set rules. rank_of r = 1" by auto
  next
    assume "\<exists>r \<in> set rules. rank_of r = 1"
    then obtain r where "r \<in> set rules" "rank_of r = 1" by blast
    moreover have "1 \<le> rank_of q" for q
      using rank_of_range [of q] by auto
    ultimately show "Min (rank_of ` set rules) = 1"
      by (intro Min_eqI) (auto intro: rev_image_eqI)
  qed
  finally show ?thesis using one by auto
qed

section \<open>Facts on the policy\<close>

lemma downgrade_fields [simp, verdict_simps]:
  "verdict (downgrade_to_discretionary e ns b) = DISCRETIONARY"
  "envelope_notes (downgrade_to_discretionary e ns b) = ns"
  "verifier_result (downgrade_to_discretionary e ns b) = verifier_result e"
  "reasoning (downgrade_to_discretionary e ns b) = reasoning e"
  "kg_citations (downgrade_to_discretionary e ns b) = kg_citations e"
  "formalizable_assertions (downgrade_to_discretionary e ns b) = formalizable_assertions e"
  "model_provenance (downgrade_to_discretionary e ns b) = model_provenance e"
  "transcript_ref (downgrade_to_discretionary e ns b) = transcript_ref e"
  "human_attestation (downgrade_to_discretionary e ns b) =
     (if b \<and> human_attestation e = None then Some attestation_required else human_attestation e)"
  by (simp_all add: downgrade_to_discretionary_def Let_def)

lemmas policy_split = prod.split option.split risk_tier.split

lemma policy_verdict:
  "verdict (apply_risk_policy env e t) = verdict e \<or> verdict (apply_risk_policy env e t) = DISCRETIONARY"
  by (auto simp: apply_risk_policy_def Let_def split: policy_split)

lemma policy_frame [simp]:
  "verifier_result (apply_risk_policy env e t) = verifier_result e"
  "reasoning (apply_risk_policy env e t) = reasoning e"
  "kg_citations (apply_risk_policy env e t) = kg_citations e"
  "formalizable_assertions (apply_risk_policy env e t) = formalizable_assertions e"
  "model_provenance (apply_risk_policy env e t) = model_provenance e"
  "transcript_ref (apply_risk_policy env e t) = transcript_ref e"
  by (auto simp: apply_risk_policy_def Let_def split: policy_split)

lemma policy_notes_extend: "\<exists>ns. envelope_notes (apply_risk_policy env e t) = envelope_notes e @ ns"
  by (auto simp: apply_risk_policy_def Let_def split: policy_split)

lemma policy_agreed:
  "status (verifier_result e) = AGREED \<Longrightarrow> verdict (apply_risk_policy env e t) = verdict e"
  by (auto simp: apply_risk_policy_def Let_def split: policy_split)

lemma policy_contradiction:
  "status (verifier_result e) = LLM_CONTRADICTION \<Longrightarrow> human_attestation e = None \<Longrightarrow>
   verdict (apply_risk_policy env e t) = DISCRETIONARY"
  by (auto simp: apply_risk_policy_def Let_def split: policy_split)

lemma policy_tier_1:
  "fst (normalise_tier t) = TIER_1 \<Longrightarrow> status (verifier_result e) \<noteq> AGREED \<Longrightarrow>
   verdict (apply_risk_policy env e t) = DISCRETIONARY \<and> human_attestation (apply_risk_policy env e t) \<noteq> None"
  by (auto simp: apply_risk_policy_def Let_def split: policy_split)

text \<open>Without an attestation, the verdict the policy leaves unchanged at a tier it leaves unchanged at every
  more permissive one.\<close>

definition policy_accepts :: "string option \<Rightarrow> verifier_status \<Rightarrow> risk_tier \<Rightarrow> bool" where
  "policy_accepts env st tier =
     (st = AGREED \<or>
      \<not> (st = UNVERIFIABLE \<and> forces_on_unverifiable env) \<and>
      (tier = TIER_2 \<and> st = UNVERIFIABLE \<or> tier = TIER_3 \<and> st \<noteq> LLM_CONTRADICTION))"

lemma policy_verdict_eq:
  "human_attestation e = None \<Longrightarrow>
   verdict (apply_risk_policy env e t) =
     (if policy_accepts env (status (verifier_result e)) (fst (normalise_tier t)) then verdict e else DISCRETIONARY)"
  by (cases "status (verifier_result e)")
     (auto simp: apply_risk_policy_def policy_accepts_def Let_def split: policy_split)

lemma policy_accepts_mono:
  "policy_accepts env st tier \<Longrightarrow> tier_number tier \<le> tier_number tier' \<Longrightarrow> policy_accepts env st tier'"
  by (cases tier; cases tier') (auto simp: policy_accepts_def)

section \<open>Facts on the registry\<close>

lemma registry_step_simps [simp]:
  "registry_step ix e (Inl err) = Inl err"
  "registry_step ix (s, r) (Inr d) =
   (case map_of ix r of None \<Rightarrow> Inl r | Some rule \<Rightarrow> Inr (alist_set (normalise_subject s) rule d))"
  by (simp_all add: registry_step_def split: prod.split)

lemma fold_registry_Inl [simp]: "fold (registry_step ix) es (Inl e) = Inl e"
  by (induction es) simp_all

lemma fold_registry_keys:
  "fold (registry_step ix) es (Inr d) = Inr d' \<Longrightarrow> fst ` set d \<subseteq> fst ` set d' \<and>
   (\<forall>(s, r) \<in> set es. normalise_subject s \<in> fst ` set d')"
proof (induction es arbitrary: d)
  case (Cons e es)
  obtain s r where e: "e = (s, r)" by (cases e)
  with Cons.prems obtain rule where
    rest: "fold (registry_step ix) es (Inr (alist_set (normalise_subject s) rule d)) = Inr d'"
    by (auto split: option.splits)
  have "normalise_subject s \<in> fst ` set (alist_set (normalise_subject s) rule d)"
    "fst ` set d \<subseteq> fst ` set (alist_set (normalise_subject s) rule d)"
    by (simp_all add: keys_alist_set subset_insertI)
  with Cons.IH [OF rest] e show ?case by auto
qed simp

lemma fold_registry_values:
  "fold (registry_step ix) es (Inr d) = Inr d' \<Longrightarrow> map_of d' k = Some rule \<Longrightarrow>
   map_of d k = Some rule \<or> (\<exists>s r. (s, r) \<in> set es \<and> normalise_subject s = k \<and> map_of ix r = Some rule)"
proof (induction es arbitrary: d)
  case (Cons e es)
  obtain s r where e: "e = (s, r)" by (cases e)
  with Cons.prems obtain x where x: "map_of ix r = Some x" and
    rest: "fold (registry_step ix) es (Inr (alist_set (normalise_subject s) x d)) = Inr d'"
    by (auto split: option.splits)
  from Cons.IH [OF rest Cons.prems(2)] show ?case
    using e x by (auto split: if_splits)
qed simp

lemma fold_registry_fails_iff:
  "(\<exists>e. fold (registry_step ix) es (Inr d) = Inl e) \<longleftrightarrow> (\<exists>(s, r) \<in> set es. map_of ix r = None)"
proof (induction es arbitrary: d)
  case (Cons e es)
  show ?case
    by (cases e; cases "map_of ix (snd e)") (auto simp: Cons)
qed simp

section \<open>Properties\<close>

lemma strictest_tier_cases: "strictest_tier rules \<in> {''tier-1'', ''tier-2'', ''tier-3''}"
proof (cases "rules = []")
  case False
  from strictest_tier_rank [OF this] show ?thesis
    by (auto simp: tier_rank_def split: if_splits)
qed (simp add: strictest_tier_def default_tier_def)

lemma tier_of_strictest:
  "Some (tier_number (fst (normalise_tier (PyStr (strictest_tier rules))))) = map_of tier_rank (strictest_tier rules)"
  using strictest_tier_cases [of rules]
  by (auto simp: normalise_tier_def alias_map_def tier_rank_def py_strip_def py_lstrip_def is_space_def
      py_lower_def lower_char_def Let_def)

text \<open>
  Governor and policy agree on the strictest tier: the tier that \<open>apply_risk_policy\<close> reads from
  what \<open>strictest_tier\<close> returns is the least, in the order tier-1, tier-2, tier-3, of the tiers that it would
  read from the obligations themselves, and tier-1 for a slice with no obligation. The two modules keep
  separate alias tables and separate defaults for a missing or unknown tier.
\<close>

theorem governor_is_strictest:
  "tier_number (fst (normalise_tier (PyStr (strictest_tier rules)))) =
     (if rules = [] then 1
      else Min ((\<lambda>r. tier_number (fst (normalise_tier (dget r ''risk_tier'')))) ` set rules))"
proof (cases "rules = []")
  case True
  have "strictest_tier [] = ''tier-1''" by (simp add: strictest_tier_def default_tier_def)
  with tier_of_strictest [of "[]"] True show ?thesis by (simp add: tier_rank_def)
next
  case False
  with strictest_tier_rank [OF False] tier_of_strictest [of rules] show ?thesis
    by (simp add: rank_of_tier)
qed

text \<open>
  What the risk policy does to a verdict that no human has attested yet: it keeps it when the tier
  accepts the verifier status and makes it DISCRETIONARY otherwise; the accepted statuses are AGREED at every
  tier, UNVERIFIABLE from tier-2 on unless the deployment forces those to review, and a divergence only at
  tier-3. A verdict kept at a tier is kept at every more permissive one.
\<close>

theorem risk_policy_verdict:
  assumes "human_attestation e = None"
  shows "verdict (apply_risk_policy env e t) =
      (if policy_accepts env (status (verifier_result e)) (fst (normalise_tier t)) then verdict e else DISCRETIONARY) \<and>
    (policy_accepts env (status (verifier_result e)) (fst (normalise_tier t)) \<longrightarrow>
      tier_number (fst (normalise_tier t)) \<le> tier_number (fst (normalise_tier t')) \<longrightarrow>
      verdict (apply_risk_policy env e t') = verdict e)"
  using assms by (auto simp: policy_verdict_eq dest: policy_accepts_mono)

text \<open>
  The tag registry either names the first rule id that the Knowledge Graph lacks, which happens
  exactly when there is one, or resolves every declared subject, in any spelling that normalises alike, to a
  rule that some declaration of that subject names.
\<close>

theorem registry_resolves_every_subject:
  "case registry_from_dict tags rules of
     Inl r \<Rightarrow> list_ex (\<lambda>(s, i). map_of (rule_index rules) i = None) tags
   | Inr d \<Rightarrow> list_all (\<lambda>(s, i). registry_contains d s \<and>
       (case registry_resolve d s of
          None \<Rightarrow> False
        | Some rule \<Rightarrow> list_ex (\<lambda>(s', i'). normalise_subject s' = normalise_subject s \<and>
            map_of (rule_index rules) i' = Some rule) tags)) tags"
proof (cases "registry_from_dict tags rules")
  case (Inl r)
  then show ?thesis
    using fold_registry_fails_iff [of "rule_index rules" tags "[]"]
    by (auto simp: registry_from_dict_def list_ex_iff)
next
  case (Inr d)
  have keys: "normalise_subject s \<in> fst ` set d" if "(s, i) \<in> set tags" for s i
    using fold_registry_keys [OF Inr [unfolded registry_from_dict_def]] that by auto
  have "\<exists>rule. registry_resolve d s = Some rule \<and>
      (\<exists>(s', i') \<in> set tags. normalise_subject s' = normalise_subject s \<and> map_of (rule_index rules) i' = Some rule)"
    if mem: "(s, i) \<in> set tags" for s i
  proof -
    obtain rule where rule: "map_of d (normalise_subject s) = Some rule"
      using keys [OF mem] by (cases "map_of d (normalise_subject s)") (auto simp: map_of_eq_None_iff)
    with fold_registry_values [OF Inr [unfolded registry_from_dict_def] rule] show ?thesis
      by (auto simp: registry_resolve_def)
  qed
  with keys Inr show ?thesis
    by (fastforce simp: registry_contains_def list_all_iff list_ex_iff split: option.split)
qed

definition sample_envelope :: "verifier_status \<Rightarrow> envelope" where
  "sample_envelope st =
     \<lparr>verdict = CLEAR, reasoning = LLMReasoning [], kg_citations = [], formalizable_assertions = [],
      verifier_result = \<lparr>status = st, checked_assertions = 0, divergences = []\<rparr>,
      model_provenance = \<lparr>model_weight_hash = [], kg_version_hash = [], prompt_template_id = [],
        prompt_template_hash = [], decoder_seed = 0, structured_grammar_hash = [], model_hash_verified = None,
        inference_backend = None, kg_signer_key_id = None, kg_trust = None\<rparr>,
      transcript_ref = [], human_attestation = None, envelope_notes = [], verdict_path = None\<rparr>"

theorem risk_policy_verdict_witness:
  "verdict (apply_risk_policy None (sample_envelope UNVERIFIABLE) (PyStr ''high'')) = DISCRETIONARY \<and>
   verdict (apply_risk_policy None (sample_envelope UNVERIFIABLE) (PyStr ''low'')) = CLEAR"
proof -
  have none: "human_attestation (sample_envelope UNVERIFIABLE) = None" "verdict (sample_envelope st) = CLEAR"
      "status (verifier_result (sample_envelope st)) = st" for st
    by (simp_all add: sample_envelope_def)
  have tiers: "fst (normalise_tier (PyStr ''high'')) = TIER_1" "fst (normalise_tier (PyStr ''standard'')) = TIER_2"
      "fst (normalise_tier (PyStr ''low'')) = TIER_3" and env: "forces_on_unverifiable None = False"
    by code_simp+
  show ?thesis
    using risk_policy_verdict [OF none(1), of None "PyStr ''high''" "PyStr ''high''"]
      risk_policy_verdict [OF none(1), of None "PyStr ''standard''" "PyStr ''low''"]
    by (simp add: none tiers env policy_accepts_def)
qed

end
