(* ===== verification/Evaluator.thy ===== *)
theory Evaluator
  imports Verifier Risk_Policy
begin

text \<open>
  The v3 evaluator (\<open>ski_model/v3/evaluator.py\<close>): missing telemetry, the freshness gate, the
  fail-closed floor, and the evaluation of one measurement from the output of the language model to
  the envelope.

  The language model is outside: its answer is the parameter \<open>raw\<close>, an arbitrary JSON object. The
  pydantic constructors \<open>FormalizableAssertion(**a)\<close> and \<open>KGCitation(**c)\<close> are the parameters of
  \<open>contract\<close>, which return a value or an error text. An exception that leaves the evaluation is \<open>Inl\<close>.
\<close>

section \<open>Missing telemetry\<close>

definition evaluator_numeric_predicates :: "string list" where
  "evaluator_numeric_predicates =
     [''must_not_exceed'', ''must_be_at_least'', ''must_be_below'', ''must_be_above'', ''must_be_within'']"

text \<open>\<open>v in S\<close> for a set of strings.\<close>

definition in_names :: "py \<Rightarrow> string list \<Rightarrow> bool" where
  "in_names v names = (case v of PyStr s \<Rightarrow> s \<in> set names | _ \<Rightarrow> False)"

definition is_missing_reading :: "py \<Rightarrow> py \<Rightarrow> bool" where
  "is_missing_reading reading pred =
     (let reading = (case reading of
            PyDict d \<Rightarrow> (if has_key d ''value'' then dget d ''value'' else reading)
          | _ \<Rightarrow> reading)
      in
      if reading = PyNone then True
      else if in_names pred evaluator_numeric_predicates then
        (if is_bool reading \<or> \<not> is_number reading then True
         else (case reading of PyFloat x \<Rightarrow> \<not> is_finite x | _ \<Rightarrow> False))
      else False)"

text \<open>
  The dictionary \<open>found\<close> is keyed by the id itself; the source keys it by \<open>str(id)\<close>, which differs
  only when the text of an id that is no string is the id of another obligation.
\<close>

definition missing_obligation_step ::
  "obj \<Rightarrow> py \<Rightarrow> (py \<times> missing_reading) list \<Rightarrow> (py \<times> missing_reading) list" where
  "missing_obligation_step m ob_v found =
     (case ob_v of
        PyDict ob \<Rightarrow>
          (let pred = dget ob ''predicate'' in
           if in_names pred stateful_predicates \<or> dget ob ''window_seconds'' \<noteq> PyNone then found
           else (case dget ob ''metric'' of
               PyStr name \<Rightarrow>
                 (case map_of m name of
                    Some reading \<Rightarrow>
                      if is_missing_reading reading pred
                      then alist_setdefault (dget ob ''id'')
                             (MissingMeasurement (dget ob ''id'') (PyStr name) reading pred) found
                      else found
                  | None \<Rightarrow> found)
             | _ \<Rightarrow> found))
      | _ \<Rightarrow> found)"

definition missing_assertion_step ::
  "assertion \<Rightarrow> (py \<times> missing_reading) list \<Rightarrow> (py \<times> missing_reading) list" where
  "missing_assertion_step a found =
     (if window_seconds a \<noteq> None \<or> predicate a \<in> set stateful_predicates then found
      else if is_missing_reading (observed a) (PyStr (predicate a))
      then alist_setdefault (PyStr (obligation_id a))
             (MissingObserved (obligation_id a) (metric a) (observed a) (predicate a)) found
      else found)"

definition missing_telemetry :: "obj \<Rightarrow> obj \<Rightarrow> assertion list \<Rightarrow> missing_reading list" where
  "missing_telemetry m snap as =
     map snd (fold missing_assertion_step as (fold (missing_obligation_step m) (snapshot_obligations snap) []))"

section \<open>The freshness gate\<close>

record freshness_outcome =
  gate_verdict :: verdict
  gate_note :: freshness_note

definition window_has_sample :: "window_data \<Rightarrow> string + bool" where
  "window_has_sample data =
     (case data of
        Plain PyNone \<Rightarrow> Inr False
      | Plain (PyList xs) \<Rightarrow> Inr (xs \<noteq> [])
      | Plain (PyTuple xs) \<Rightarrow> Inr (xs \<noteq> [])
      | Aggregate avg mx (Some (PyInt n)) \<Rightarrow> Inr (n > 0)
      | _ \<Rightarrow> Inl ''TypeError'')"

definition gated_obligations :: "obj \<Rightarrow> obj \<Rightarrow> obj list" where
  "gated_obligations m snap =
     filter (\<lambda>ob. dget ob ''requires_recent_within_seconds'' \<noteq> PyNone \<and>
                  (case dget ob ''metric'' of PyStr name \<Rightarrow> has_key m name | _ \<Rightarrow> False))
       (List.map_filter dict_of (snapshot_obligations snap))"

text \<open>What the gate finds for one obligation: \<open>Inl\<close> undecidable, \<open>Inr None\<close> fresh, \<open>Inr (Some _)\<close> stale.\<close>

definition fresh_answer :: "telemetry_source \<Rightarrow> string \<Rightarrow> int \<Rightarrow> int \<Rightarrow> string + bool" where
  "fresh_answer buf subject as_of w =
     (case fresh_sample_query buf of
        Some q \<Rightarrow> q subject as_of w
      | None \<Rightarrow>
          (case window_query buf subject as_of w None of
             Inl e \<Rightarrow> Inl e
           | Inr data \<Rightarrow> window_has_sample data))"

definition freshness_of ::
  "string option \<Rightarrow> int option \<Rightarrow> telemetry_source option \<Rightarrow> obj \<Rightarrow> freshness_item + freshness_item option" where
  "freshness_of subject as_of buffer ob =
     (let i = dget_default ob ''id'' (PyStr ''<unknown>''); w = dget ob ''requires_recent_within_seconds'' in
      case w of
        PyInt n \<Rightarrow>
          if n \<le> 0 then Inl (InvalidFreshnessWindow i w)
          else (case (buffer, subject, as_of) of
              (Some buf, Some s, Some t) \<Rightarrow>
                (case fresh_answer buf s t n of
                   Inl exc \<Rightarrow> Inl (FreshnessCheckFailed i exc)
                 | Inr fresh \<Rightarrow> Inr (if fresh then None else Some (StaleFor i n)))
            | _ \<Rightarrow> Inl (MissingFreshnessInputs i
                     ((if buffer = None then [''buffer''] else []) @
                      (if subject = None then [''subject''] else []) @
                      (if as_of = None then [''as_of''] else []))))
      | _ \<Rightarrow> Inl (InvalidFreshnessWindow i w))"

definition freshness_step ::
  "string option \<Rightarrow> int option \<Rightarrow> telemetry_source option \<Rightarrow> obj
     \<Rightarrow> freshness_item list \<times> freshness_item list \<Rightarrow> freshness_item list \<times> freshness_item list" where
  "freshness_step subject as_of buffer ob = (\<lambda>(stale, undecidable).
     (case freshness_of subject as_of buffer ob of
        Inl item \<Rightarrow> (stale, undecidable @ [item])
      | Inr None \<Rightarrow> (stale, undecidable)
      | Inr (Some item) \<Rightarrow> (stale @ [item], undecidable)))"

definition freshness_gate ::
  "obj \<Rightarrow> obj \<Rightarrow> string option \<Rightarrow> int option \<Rightarrow> telemetry_source option \<Rightarrow> freshness_outcome option" where
  "freshness_gate m snap subject as_of buffer =
     (let gated = gated_obligations m snap in
      if gated = [] then None
      else
        (let (stale, undecidable) = fold (freshness_step subject as_of buffer) gated ([], []) in
         if stale \<noteq> [] then
           Some \<lparr>gate_verdict = NULL_STALE, gate_note = StaleNote subject as_of stale\<rparr>
         else if undecidable \<noteq> [] then
           Some \<lparr>gate_verdict = DISCRETIONARY, gate_note = UndecidableNote undecidable\<rparr>
         else None))"

definition apply_freshness :: "envelope \<Rightarrow> freshness_outcome option \<Rightarrow> envelope" where
  "apply_freshness e freshness =
     (case freshness of
        None \<Rightarrow> e
      | Some f \<Rightarrow>
          (let prior = verdict e in
           if gate_verdict f = DISCRETIONARY \<and> prior = NULL_STALE then
             e\<lparr>envelope_notes := envelope_notes e @ [FreshnessKept (gate_note f)]\<rparr>
           else
             (let e' = e\<lparr>verdict := gate_verdict f,
                         envelope_notes := envelope_notes e @
                           [FreshnessOverride (gate_note f) prior (gate_verdict f)]\<rparr>
              in if gate_verdict f = DISCRETIONARY \<and> human_attestation e = None
                 then e'\<lparr>human_attestation := Some attestation_required\<rparr> else e')))"

section \<open>The fail-closed floor\<close>

definition breach_floor_verdicts :: "verdict list" where
  "breach_floor_verdicts = [CLEAR, NULL_UNMAPPED]"

definition fail_closed_keeps :: "verdict list" where
  "fail_closed_keeps = [DISCRETIONARY, NULL_STALE]"

definition enforce_fail_closed :: "envelope \<Rightarrow> verification_report \<Rightarrow> envelope" where
  "enforce_fail_closed e r =
     (let v = verdict e;
          closed = (if report_fail_closed r \<noteq> [] \<and> v \<notin> set fail_closed_keeps
                    then [FailClosedNote (length (report_fail_closed r))
                            (sort (remdups (List.map_filter divergence_kind (report_fail_closed r)))) v]
                    else []);
          breach = (if breached_obligations r \<noteq> [] \<and> v \<in> set breach_floor_verdicts
                    then [BreachFloorNote (sort (remdups (breached_obligations r))) v] else []);
          ns = closed @ breach
      in
      if ns = [] then e
      else e\<lparr>verdict := DISCRETIONARY, envelope_notes := envelope_notes e @ ns,
             human_attestation :=
               (case human_attestation e of
                  None \<Rightarrow> Some attestation_required
                | Some d \<Rightarrow> if d = [] then Some attestation_required else Some d)\<rparr>)"

section \<open>The language model and the evaluator\<close>

record llm_backend =
  backend_class :: string
  backend_name :: "string option"
  backend_weight_hash :: string
  backend_template_id :: string
  backend_template_hash :: string
  backend_grammar_hash :: string
  backend_hash_verified :: "py option"

record evaluator =
  ev_llm :: llm_backend
  ev_kg_version_hash :: string
  ev_decoder_seed :: int
  ev_kg_signer_key_id :: "string option"
  ev_kg_trust :: "string option"

text \<open>What pydantic validates: an assertion, a citation.\<close>

record contract =
  parse_assertion :: "obj \<Rightarrow> string + assertion"
  parse_citation :: "obj \<Rightarrow> string + kg_citation"

datatype crash = AttributeError | TypeError | ValidationError

definition build_provenance :: "evaluator \<Rightarrow> model_provenance" where
  "build_provenance ev =
     (let llm = ev_llm ev in
      \<lparr>model_weight_hash = backend_weight_hash llm,
       kg_version_hash = ev_kg_version_hash ev,
       prompt_template_id = backend_template_id llm,
       prompt_template_hash = backend_template_hash llm,
       decoder_seed = ev_decoder_seed ev,
       structured_grammar_hash = backend_grammar_hash llm,
       model_hash_verified =
         Some (case backend_hash_verified llm of Some (PyBool b) \<Rightarrow> b | _ \<Rightarrow> False),
       inference_backend =
         Some (case backend_name llm of Some n \<Rightarrow> n | None \<Rightarrow> backend_class llm),
       kg_signer_key_id = ev_kg_signer_key_id ev,
       kg_trust = ev_kg_trust ev\<rparr>)"

definition transcript_reference :: "string option \<Rightarrow> string option \<Rightarrow> string" where
  "transcript_reference given transcript_id =
     (case given of
        Some r \<Rightarrow> r
      | None \<Rightarrow> (case transcript_id of Some i \<Rightarrow> ''transcript:'' @ i | None \<Rightarrow> ''transcript:unsigned''))"

section \<open>Citations\<close>

text \<open>A list or a dictionary cannot be a member of a Python set.\<close>

fun hashable :: "py \<Rightarrow> bool" where
  "hashable (PyList _) = False"
| "hashable (PyDict _) = False"
| "hashable (PyTuple xs) = list_all hashable xs"
| "hashable _ = True"

definition snapshot_definitions :: "obj \<Rightarrow> py list" where
  "snapshot_definitions snap = (case dget_default snap ''definitions'' (PyList []) of PyList xs \<Rightarrow> xs | _ \<Rightarrow> [])"

definition valid_node_ids :: "obj \<Rightarrow> py list" where
  "valid_node_ids snap =
     (let ids = \<lambda>nodes. List.map_filter (\<lambda>d. map_of d ''id'') (List.map_filter dict_of nodes)
      in ids (snapshot_obligations snap) @ ids (snapshot_definitions snap))"

definition cited_node_ids :: "obj \<Rightarrow> crash + py list" where
  "cited_node_ids raw =
     (case iter_items (dget_default raw ''kg_citations'' (PyList [])) of
        None \<Rightarrow> Inl TypeError
      | Some cs \<Rightarrow>
          if list_all is_dict cs then Inr (map (\<lambda>c. dget (the (dict_of c)) ''node_id'') cs)
          else Inl AttributeError)"

definition invalid_citations :: "obj \<Rightarrow> obj \<Rightarrow> crash + py list" where
  "invalid_citations snap raw =
     (let valid = valid_node_ids snap in
      if \<not> list_all hashable valid then Inl TypeError
      else (case cited_node_ids raw of
          Inl c \<Rightarrow> Inl c
        | Inr cited \<Rightarrow>
            if list_all hashable cited then Inr (filter (\<lambda>n. \<not> py_in n valid) cited) else Inl TypeError))"

definition citation_result :: "py list \<Rightarrow> verification_report \<Rightarrow> verifier_result" where
  "citation_result invalid omitted =
     (let ds = map InvalidCitation invalid in
      if breached_obligations omitted \<noteq> [] \<or> report_fail_closed omitted \<noteq> [] then
        \<lparr>status = (if status (report_result omitted) = LLM_CONTRADICTION
                   then LLM_CONTRADICTION else UNVERIFIABLE),
         checked_assertions = checked_assertions (report_result omitted),
         divergences = ds @ filter (\<lambda>d. d \<noteq> NoAssertions) (divergences (report_result omitted))\<rparr>
      else \<lparr>status = UNVERIFIABLE, checked_assertions = 0, divergences = ds\<rparr>)"

definition citation_envelope ::
  "evaluator \<Rightarrow> string \<Rightarrow> py list \<Rightarrow> verification_report \<Rightarrow> envelope" where
  "citation_envelope ev tref invalid omitted =
     \<lparr>verdict = NULL_UNMAPPED, reasoning = CitationEnforcement invalid, kg_citations = [],
      formalizable_assertions = [], verifier_result = citation_result invalid omitted,
      model_provenance = build_provenance ev, transcript_ref = tref, human_attestation = None,
      envelope_notes = [], verdict_path = None\<rparr>"

section \<open>The output contract\<close>

text \<open>\<open>[Cls(**x) for x in v]\<close>: every element must be a mapping that the constructor accepts.\<close>

fun parse_all :: "(obj \<Rightarrow> string + 'a) \<Rightarrow> py list \<Rightarrow> string + 'a list" where
  "parse_all p [] = Inr []"
| "parse_all p (x # xs) =
     (case x of
        PyDict d \<Rightarrow>
          (case p d of
             Inl e \<Rightarrow> Inl e
           | Inr a \<Rightarrow> (case parse_all p xs of Inl e \<Rightarrow> Inl e | Inr r \<Rightarrow> Inr (a # r)))
      | _ \<Rightarrow> Inl ''TypeError'')"

definition parse_items :: "(obj \<Rightarrow> string + 'a) \<Rightarrow> obj \<Rightarrow> string \<Rightarrow> string + 'a list" where
  "parse_items p raw key =
     (case iter_items (dget_default raw key (PyList [])) of
        None \<Rightarrow> Inl ''TypeError''
      | Some xs \<Rightarrow> parse_all p xs)"

definition parse_output ::
  "contract \<Rightarrow> obj \<Rightarrow> string + verdict \<times> py \<times> assertion list \<times> kg_citation list" where
  "parse_output k raw =
     (case map_of raw ''verdict'' of
        None \<Rightarrow> Inl ''KeyError''
      | Some v \<Rightarrow>
          (case Option.bind (str_of v) verdict_of_name of
             None \<Rightarrow> Inl ''ValueError''
           | Some llm_verdict \<Rightarrow>
               (case map_of raw ''reasoning'' of
                  None \<Rightarrow> Inl ''KeyError''
                | Some text \<Rightarrow>
                    (case parse_items (parse_assertion k) raw ''formalizable_assertions'' of
                       Inl e \<Rightarrow> Inl e
                     | Inr as \<Rightarrow>
                         (case parse_items (parse_citation k) raw ''kg_citations'' of
                            Inl e \<Rightarrow> Inl e
                          | Inr cs \<Rightarrow> Inr (llm_verdict, text, as, cs))))))"

definition contract_envelope :: "evaluator \<Rightarrow> string \<Rightarrow> string \<Rightarrow> envelope" where
  "contract_envelope ev tref detail =
     \<lparr>verdict = DISCRETIONARY, reasoning = OutputContractReasoning detail, kg_citations = [],
      formalizable_assertions = [],
      verifier_result =
        \<lparr>status = UNVERIFIABLE, checked_assertions = 0, divergences = [OutputContract detail]\<rparr>,
      model_provenance = build_provenance ev, transcript_ref = tref, human_attestation = None,
      envelope_notes = [], verdict_path = None\<rparr>"

section \<open>The taxonomy guard\<close>

definition taxonomy_guard ::
  "obj \<Rightarrow> obj \<Rightarrow> verdict \<Rightarrow> assertion list \<Rightarrow> kg_citation list \<Rightarrow> verdict \<times> envelope_note list" where
  "taxonomy_guard m snap v as cs =
     (let (v, ns) =
        (if v = CLEAR then
           (let stale = missing_telemetry m snap as in
            if stale \<noteq> [] then (NULL_STALE, [ClearOnMissingTelemetry stale]) else (v, []))
         else (v, []))
      in
      if v = CLEAR \<and> as = [] then
        (let remapped = (if cs = [] then NULL_UNMAPPED else DISCRETIONARY)
         in (remapped, ns @ [ClearWithoutAssertions (cs = []) remapped]))
      else (v, ns))"

section \<open>The evaluation\<close>

definition verified_envelope ::
  "evaluator \<Rightarrow> string \<Rightarrow> verdict \<Rightarrow> string \<Rightarrow> kg_citation list \<Rightarrow> assertion list \<Rightarrow> envelope_note list
     \<Rightarrow> verification_report \<Rightarrow> envelope" where
  "verified_envelope ev tref v text cs as ns report =
     \<lparr>verdict = v, reasoning = LLMReasoning text, kg_citations = cs, formalizable_assertions = as,
      verifier_result = report_result report, model_provenance = build_provenance ev,
      transcript_ref = tref, human_attestation = None,
      envelope_notes = ns @ report_notes report, verdict_path = None\<rparr>"

definition aevaluate ::
  "contract \<Rightarrow> string option \<Rightarrow> evaluator \<Rightarrow> string \<Rightarrow> obj \<Rightarrow> obj \<Rightarrow> py \<Rightarrow> string option \<Rightarrow> int option
     \<Rightarrow> telemetry_source option \<Rightarrow> obj \<Rightarrow> crash + envelope" where
  "aevaluate k env ev tref m snap tier subject as_of buffer raw =
     (let freshness = freshness_gate m snap subject as_of buffer in
      case invalid_citations snap raw of
        Inl c \<Rightarrow> Inl c
      | Inr invalid \<Rightarrow>
          (let (index, violations) = index_obligations (snapshot_obligations snap) (Some m) in
           if invalid \<noteq> [] then
             (let omitted =
                with_fail_closed
                  (averify_report subject as_of buffer [] NULL_UNMAPPED (Some m) (Some index)) violations
              in Inr (apply_freshness
                        (enforce_fail_closed (citation_envelope ev tref invalid omitted) omitted) freshness))
           else
             (case parse_output k raw of
                Inl detail \<Rightarrow> Inr (apply_freshness (contract_envelope ev tref detail) freshness)
              | Inr (llm_verdict, text, as, cs) \<Rightarrow>
                  (let (v, taxonomy_notes) = taxonomy_guard m snap llm_verdict as cs;
                       (as, normalization_notes) = normalize_satisfied as (Some m) (Some index);
                       report =
                         with_fail_closed
                           (averify_report subject as_of buffer as v (Some m) (Some index)) violations
                   in
                   case text of
                     PyStr s \<Rightarrow>
                       (let e = verified_envelope ev tref v s cs as
                                  (taxonomy_notes @ normalization_notes) report
                        in Inr (if freshness \<noteq> None then apply_freshness e freshness
                                else enforce_fail_closed (apply_risk_policy env e tier) report))
                   | _ \<Rightarrow> Inl ValidationError))))"

end
