(* ===== verification/Evaluation.thy ===== *)
theory Evaluation
  imports Evaluator
begin

text \<open>
  What one evaluation guarantees (\<open>V3Evaluator.aevaluate_with_transcript\<close>), whatever the language model
  answers: the lemmas on the gate, the floor and the three paths of an evaluation, and the properties
  of the verdict that is returned.
\<close>

section \<open>The gate and the floor\<close>

lemma gate_verdict_cases:
  "freshness_gate m snap s t buf = Some f \<Longrightarrow> gate_verdict f = NULL_STALE \<or> gate_verdict f = DISCRETIONARY"
  by (auto simp: freshness_gate_def Let_def split: if_splits prod.splits)

lemma apply_freshness_None [simp]: "apply_freshness e None = e"
  by (simp add: apply_freshness_def)

lemma apply_freshness_verdict:
  "verdict (apply_freshness e (Some f)) =
   (if gate_verdict f = DISCRETIONARY \<and> verdict e = NULL_STALE then NULL_STALE else gate_verdict f)"
  by (simp add: apply_freshness_def Let_def)

lemma apply_freshness_frame [simp]:
  "verifier_result (apply_freshness e f) = verifier_result e"
  "formalizable_assertions (apply_freshness e f) = formalizable_assertions e"
  "kg_citations (apply_freshness e f) = kg_citations e"
  "model_provenance (apply_freshness e f) = model_provenance e"
  by (auto simp: apply_freshness_def Let_def split: option.split)

lemma enforce_verdict:
  "verdict (enforce_fail_closed e r) =
   (if report_fail_closed r \<noteq> [] \<and> verdict e \<notin> {DISCRETIONARY, NULL_STALE} \<or>
       breached_obligations r \<noteq> [] \<and> verdict e \<in> {CLEAR, NULL_UNMAPPED}
    then DISCRETIONARY else verdict e)"
  by (auto simp: enforce_fail_closed_def Let_def fail_closed_keeps_def breach_floor_verdicts_def)

lemma enforce_frame [simp]:
  "verifier_result (enforce_fail_closed e r) = verifier_result e"
  "formalizable_assertions (enforce_fail_closed e r) = formalizable_assertions e"
  "kg_citations (enforce_fail_closed e r) = kg_citations e"
  "model_provenance (enforce_fail_closed e r) = model_provenance e"
  by (simp_all add: enforce_fail_closed_def Let_def)

lemma with_fail_closed_fields [simp]:
  "breached_obligations (with_fail_closed r vs) = breached_obligations r"
  "report_fail_closed (with_fail_closed r vs) = report_fail_closed r @ vs"
  "report_notes (with_fail_closed r vs) = report_notes r"
  "status (report_result (with_fail_closed r vs)) =
     (if vs = [] then status (report_result r)
      else if status (report_result r) = LLM_CONTRADICTION then LLM_CONTRADICTION else UNVERIFIABLE)"
  by (simp_all add: with_fail_closed_def Let_def)

lemma averify_breached [simp]:
  "breached_obligations (averify_report s t buf as v m obs) =
   own_breaches (acheck_assertion s t buf) (enumerable_obligations obs m)"
  by (simp add: averify_report_def run_tally_breached)

section \<open>The three paths\<close>

definition scoped_index :: "obj \<Rightarrow> obj \<Rightarrow> obligations" where
  "scoped_index snap m = fst (index_obligations (snapshot_obligations snap) (Some m))"

definition hidden_obligations :: "obj \<Rightarrow> obj \<Rightarrow> divergence list" where
  "hidden_obligations snap m = snd (index_obligations (snapshot_obligations snap) (Some m))"

definition breaches_of ::
  "string option \<Rightarrow> int option \<Rightarrow> telemetry_source option \<Rightarrow> obj \<Rightarrow> obj \<Rightarrow> string list" where
  "breaches_of s t buf m snap =
     own_breaches (acheck_assertion s t buf) (enumerable_obligations (Some (scoped_index snap m)) (Some m))"

definition final_report ::
  "string option \<Rightarrow> int option \<Rightarrow> telemetry_source option \<Rightarrow> obj \<Rightarrow> obj \<Rightarrow> assertion list \<Rightarrow> verdict
     \<Rightarrow> verification_report" where
  "final_report s t buf m snap as v =
     with_fail_closed (averify_report s t buf as v (Some m) (Some (scoped_index snap m)))
       (hidden_obligations snap m)"

lemma final_report_fields [simp]:
  "breached_obligations (final_report s t buf m snap as v) = breaches_of s t buf m snap"
  "hidden_obligations snap m \<noteq> [] \<Longrightarrow> report_fail_closed (final_report s t buf m snap as v) \<noteq> []"
  by (simp_all add: final_report_def breaches_of_def)

lemma aevaluate_paths:
  assumes "aevaluate k env ev tref m snap tier s t buf raw = Inr e"
  obtains
    (cited) invalid r where "r = final_report s t buf m snap [] NULL_UNMAPPED"
      "e = apply_freshness (enforce_fail_closed (citation_envelope ev tref invalid r) r)
             (freshness_gate m snap s t buf)"
  | (contract) detail where
      "e = apply_freshness (contract_envelope ev tref detail) (freshness_gate m snap s t buf)"
  | (verified) llm expl as cs v tnotes as' nnotes r e0 where
      "invalid_citations snap raw = Inr []"
      "parse_output k raw = Inr (llm, PyStr expl, as, cs)"
      "taxonomy_guard m snap llm as cs = (v, tnotes)"
      "normalize_satisfied as (Some m) (Some (scoped_index snap m)) = (as', nnotes)"
      "r = final_report s t buf m snap as' v"
      "e0 = verified_envelope ev tref v expl cs as' (tnotes @ nnotes) r"
      "e = (if freshness_gate m snap s t buf \<noteq> None then apply_freshness e0 (freshness_gate m snap s t buf)
            else enforce_fail_closed (apply_risk_policy env e0 tier) r)"
proof -
  obtain index violations where ix: "index_obligations (snapshot_obligations snap) (Some m) = (index, violations)"
    by (cases "index_obligations (snapshot_obligations snap) (Some m)")
  then have [simp]: "index = scoped_index snap m" "violations = hidden_obligations snap m"
    by (simp_all add: scoped_index_def hidden_obligations_def)
  from assms obtain invalid where inv: "invalid_citations snap raw = Inr invalid"
    by (auto simp: aevaluate_def Let_def split: sum.splits)
  show thesis
  proof (cases "invalid = []")
    case False
    with assms ix inv show thesis
      by (intro cited [of "final_report s t buf m snap [] NULL_UNMAPPED" invalid])
         (simp_all add: aevaluate_def Let_def final_report_def)
  next
    case True
    show thesis
    proof (cases "parse_output k raw")
      case (Inl detail)
      with assms ix inv True show thesis
        by (intro contract [of detail]) (simp add: aevaluate_def Let_def)
    next
      case (Inr out)
      obtain llm expl as cs where out: "out = (llm, expl, as, cs)" by (cases out)
      obtain v tnotes where tg: "taxonomy_guard m snap llm as cs = (v, tnotes)"
        by (cases "taxonomy_guard m snap llm as cs")
      obtain as' nnotes where ns: "normalize_satisfied as (Some m) (Some (scoped_index snap m)) = (as', nnotes)"
        by (cases "normalize_satisfied as (Some m) (Some (scoped_index snap m))")
      from assms ix inv True Inr out tg ns obtain str where str: "expl = PyStr str"
        by (auto simp: aevaluate_def Let_def split: py.splits)
      define r where "r = final_report s t buf m snap as' v"
      define e0 where "e0 = verified_envelope ev tref v str cs as' (tnotes @ nnotes) r"
      have "e = (if freshness_gate m snap s t buf \<noteq> None then apply_freshness e0 (freshness_gate m snap s t buf)
            else enforce_fail_closed (apply_risk_policy env e0 tier) r)"
        using assms ix inv True Inr out tg ns str
        by (cases "freshness_gate m snap s t buf")
           (simp_all add: aevaluate_def Let_def e0_def r_def final_report_def)
      moreover have "invalid_citations snap raw = Inr []" "parse_output k raw = Inr (llm, PyStr str, as, cs)"
        using inv True Inr out str by simp_all
      ultimately show thesis
        using verified [OF _ _ tg ns r_def e0_def] by blast
    qed
  qed
qed

lemma verified_fields [simp]:
  "verdict (verified_envelope ev tref v expl cs as ns r) = v"
  "verifier_result (verified_envelope ev tref v expl cs as ns r) = report_result r"
  "formalizable_assertions (verified_envelope ev tref v expl cs as ns r) = as"
  "human_attestation (verified_envelope ev tref v expl cs as ns r) = None"
  "kg_citations (verified_envelope ev tref v expl cs as ns r) = cs"
  by (simp_all add: verified_envelope_def)

lemma taxonomy_guard_verdict:
  assumes "taxonomy_guard m snap llm as cs = (v, ns)"
  shows "llm \<noteq> CLEAR \<Longrightarrow> v = llm"
    and "v = CLEAR \<Longrightarrow> llm = CLEAR \<and> as \<noteq> [] \<and> missing_telemetry m snap as = []"
    and "v = FLAG \<Longrightarrow> llm = FLAG"
  using assms by (auto simp: taxonomy_guard_def Let_def split: if_splits)

text \<open>An entry that the verifier would evaluate and that another entry or its missing id keeps out of the index is reported.\<close>

lemma hidden_reported:
  assumes "n < length (List.map_filter dict_of obs)" "enumerable_reading m (List.map_filter dict_of obs ! n) \<noteq> None"
    and "is_str (dget (List.map_filter dict_of obs ! n) ''id'') \<Longrightarrow> \<exists>later. n < later \<and> later < length (List.map_filter dict_of obs) \<and>
           dget (List.map_filter dict_of obs ! later) ''id'' = dget (List.map_filter dict_of obs ! n) ''id''"
  shows "snd (index_obligations obs (Some m)) \<noteq> []"
proof -
  let ?es = "List.map_filter dict_of obs"
  have "\<not> (\<exists>i. dget (?es ! n) ''id'' = PyStr i \<and> map_of (last_positions ?es) i = Some n)"
    unfolding last_positions_iff using assms(3) by (metis is_str_iff)
  then have "hidden_violation (last_positions ?es) (Some m) (n, ?es ! n) \<noteq> []"
    using assms(2) by (auto simp: hidden_violation_def split: py.split)
  moreover have "(n, ?es ! n) \<in> set (enumerate 0 ?es)" using assms(1) by (simp add: in_set_enumerate_eq)
  ultimately show ?thesis by (auto simp: index_violations Let_def concat_eq_Nil_conv)
qed

section \<open>The verdict under a failed gate\<close>

lemma gate_overrides:
  assumes "aevaluate k env ev tref m snap tier s t buf raw = Inr e"
    and "freshness_gate m snap s t buf = Some f"
  shows "verdict e \<in> {NULL_STALE, DISCRETIONARY}" and "gate_verdict f = NULL_STALE \<Longrightarrow> verdict e = NULL_STALE"
proof -
  from assms(1) obtain e0 where "e = apply_freshness e0 (Some f)"
    by (cases rule: aevaluate_paths) (use assms(2) in auto)
  with gate_verdict_cases [OF assms(2)]
  show "verdict e \<in> {NULL_STALE, DISCRETIONARY}" "gate_verdict f = NULL_STALE \<Longrightarrow> verdict e = NULL_STALE"
    by (auto simp: apply_freshness_verdict)
qed

lemma breach_floor:
  assumes "aevaluate k env ev tref m snap tier s t buf raw = Inr e"
    and "breaches_of s t buf m snap \<noteq> []"
  shows "verdict e \<notin> {CLEAR, NULL_UNMAPPED}"
proof (cases "freshness_gate m snap s t buf")
  case None
  from assms(1) show ?thesis
    by (cases rule: aevaluate_paths)
       (use None assms(2) in \<open>auto simp: enforce_verdict citation_envelope_def contract_envelope_def\<close>)
next
  case (Some f)
  with gate_overrides [OF assms(1)] show ?thesis by auto
qed

lemma fail_closed_floor:
  assumes "aevaluate k env ev tref m snap tier s t buf raw = Inr e"
    and "hidden_obligations snap m \<noteq> []"
  shows "verdict e \<in> {DISCRETIONARY, NULL_STALE}"
proof (cases "freshness_gate m snap s t buf")
  case None
  from assms(1) show ?thesis
    by (cases rule: aevaluate_paths)
       (use None assms(2) in \<open>auto simp: enforce_verdict citation_envelope_def contract_envelope_def\<close>)
next
  case (Some f)
  with gate_overrides [OF assms(1)] show ?thesis by auto
qed

section \<open>What CLEAR rests on\<close>

lemma clear_path:
  assumes "aevaluate k env ev tref m snap tier s t buf raw = Inr e" and "verdict e = CLEAR"
  obtains expl as cs as' nnotes r where
    "freshness_gate m snap s t buf = None"
    "invalid_citations snap raw = Inr []"
    "parse_output k raw = Inr (CLEAR, PyStr expl, as, cs)"
    "as \<noteq> []" "missing_telemetry m snap as = []"
    "normalize_satisfied as (Some m) (Some (scoped_index snap m)) = (as', nnotes)"
    "r = final_report s t buf m snap as' CLEAR"
    "report_fail_closed r = []" "breaches_of s t buf m snap = []"
    "formalizable_assertions e = as'" "verifier_result e = report_result r"
    "policy_accepts env (status (report_result r)) (fst (normalise_tier tier))"
proof -
  have gate: "freshness_gate m snap s t buf = None"
    using gate_overrides(1) [OF assms(1)] assms(2) by (cases "freshness_gate m snap s t buf") auto
  from assms(1) show thesis
  proof (cases rule: aevaluate_paths)
    case (cited invalid r)
    with assms(2) gate show thesis by (auto simp: enforce_verdict citation_envelope_def split: if_splits)
  next
    case (contract detail)
    with assms(2) gate show thesis by (auto simp: contract_envelope_def)
  next
    case (verified llm expl as cs v tnotes as' nnotes r e0)
    have e: "e = enforce_fail_closed (apply_risk_policy env e0 tier) r"
      using verified gate by simp
    with assms(2) have pol: "verdict (apply_risk_policy env e0 tier) = CLEAR"
      and floor: "report_fail_closed r = []" "breached_obligations r = []"
      by (auto simp: enforce_verdict split: if_splits)
    have "verdict (apply_risk_policy env e0 tier) =
        (if policy_accepts env (status (report_result r)) (fst (normalise_tier tier)) then v else DISCRETIONARY)"
      using verified by (simp add: policy_verdict_eq)
    with pol have v: "v = CLEAR" and acc: "policy_accepts env (status (report_result r)) (fst (normalise_tier tier))"
      by (auto split: if_splits)
    with taxonomy_guard_verdict(2) [OF verified(3)]
    have "llm = CLEAR" "as \<noteq> []" "missing_telemetry m snap as = []" by auto
    moreover have "formalizable_assertions e = as'" "verifier_result e = report_result r"
      using verified(6) by (simp_all add: e)
    moreover have "breaches_of s t buf m snap = []"
      using floor(2) verified(5) by simp
    ultimately show thesis
      using that [OF gate verified(1) _ _ _ verified(4) _ floor(1) _ _ _ acc] verified(2,5) v by blast
  qed
qed

text \<open>At tier 1 a CLEAR rests on agreement of the verifier.\<close>

lemma policy_accepts_tier_1: "policy_accepts env st TIER_1 \<longleftrightarrow> st = AGREED"
  by (auto simp: policy_accepts_def)

lemma final_report_status:
  "hidden_obligations snap m = [] \<Longrightarrow>
   status (report_result (final_report s t buf m snap as v)) =
   fst (tally_status as (run_tally (acheck_assertion s t buf) as v (Some m) (Some (scoped_index snap m))))"
  by (simp add: final_report_def averify_report_def)

lemma report_fail_closed_hidden:
  "report_fail_closed (final_report s t buf m snap as v) = [] \<Longrightarrow> hidden_obligations snap m = []"
  by (simp add: final_report_def)

lemma clear_tier_1:
  assumes "aevaluate k env ev tref m snap tier s t buf raw = Inr e" and "verdict e = CLEAR"
    and "fst (normalise_tier tier) = TIER_1"
  shows "hidden_obligations snap m = []"
    and "fst (tally_status (formalizable_assertions e)
           (run_tally (acheck_assertion s t buf) (formalizable_assertions e) CLEAR (Some m)
             (Some (scoped_index snap m)))) = AGREED"
proof -
  from assms(1,2) have "hidden_obligations snap m = [] \<and>
      fst (tally_status (formalizable_assertions e)
        (run_tally (acheck_assertion s t buf) (formalizable_assertions e) CLEAR (Some m)
          (Some (scoped_index snap m)))) = AGREED"
  proof (cases rule: clear_path)
    case (1 expl as cs as' nnotes r)
    then have "hidden_obligations snap m = []" by (auto dest: report_fail_closed_hidden)
    with 1 assms(3) show ?thesis
      by (simp add: policy_accepts_tier_1 final_report_status)
  qed
  then show "hidden_obligations snap m = []"
    "fst (tally_status (formalizable_assertions e)
      (run_tally (acheck_assertion s t buf) (formalizable_assertions e) CLEAR (Some m)
        (Some (scoped_index snap m)))) = AGREED"
    by auto
qed

section \<open>When an evaluation fails\<close>

lemma aevaluate_crashes_iff:
  "(\<exists>c. aevaluate k env ev tref m snap tier s t buf raw = Inl c) \<longleftrightarrow>
   (\<exists>c. invalid_citations snap raw = Inl c) \<or>
   invalid_citations snap raw = Inr [] \<and>
   (\<exists>v val as cs. parse_output k raw = Inr (v, val, as, cs) \<and> \<not> is_str val)"
proof (cases "invalid_citations snap raw")
  case (Inl c)
  then show ?thesis by (simp add: aevaluate_def Let_def)
next
  case (Inr invalid)
  show ?thesis
  proof (cases "invalid = []")
    case False
    with Inr show ?thesis by (simp add: aevaluate_def Let_def split: prod.split)
  next
    case True
    show ?thesis
    proof (cases "parse_output k raw")
      case (Inl d)
      with Inr True show ?thesis by (simp add: aevaluate_def Let_def split: prod.split)
    next
      case (Inr out)
      obtain v val as cs where "out = (v, val, as, cs)" by (cases out)
      with Inr True \<open>invalid_citations snap raw = Inr invalid\<close> show ?thesis
        by (cases val) (simp_all add: aevaluate_def Let_def split: prod.split)
    qed
  qed
qed

section \<open>Concrete inputs\<close>

text \<open>One obligation, one reading, one backend: the inputs of the witnesses below.\<close>

definition sample_backend :: llm_backend where
  "sample_backend = \<lparr>backend_class = ''FakeLLM'', backend_name = Some ''fake-llm'',
     backend_weight_hash = ''sha256:ff'', backend_template_id = ''ski.v3.evaluate.1'',
     backend_template_hash = ''sha256:11'', backend_grammar_hash = ''sha256:22'',
     backend_hash_verified = None\<rparr>"

definition sample_evaluator :: evaluator where
  "sample_evaluator = \<lparr>ev_llm = sample_backend, ev_kg_version_hash = ''sha256:33'', ev_decoder_seed = 0,
     ev_kg_signer_key_id = None, ev_kg_trust = None\<rparr>"

definition sample_snapshot :: "string \<Rightarrow> obj" where
  "sample_snapshot name =
     [(''obligations'', PyList [PyDict
         [(''id'', PyStr ''ob1''), (''predicate'', PyStr ''must_not_exceed''), (''metric'', PyStr name),
          (''value'', PyInt 100), (''risk_tier'', PyStr ''high'')]])]"

definition sample_claim :: "string \<Rightarrow> int \<Rightarrow> int option \<Rightarrow> assertion" where
  "sample_claim name reading w =
     \<lparr>predicate = ''must_not_exceed'', metric = name, value = PyInt 100, observed = PyInt reading,
      satisfied = True, obligation_id = ''ob1'', window_seconds = w\<rparr>"

text \<open>A contract that accepts every object as the given claim.\<close>

definition sample_contract :: "assertion \<Rightarrow> contract" where
  "sample_contract a =
     \<lparr>parse_assertion = (\<lambda>d. Inr a),
      parse_citation = (\<lambda>d. Inr \<lparr>node_id = text_of (dget d ''node_id''), version = [], role = Obligation_Role\<rparr>)\<rparr>"

definition sample_answer :: "string \<Rightarrow> string \<Rightarrow> obj" where
  "sample_answer v cited =
     [(''verdict'', PyStr v), (''reasoning'', PyStr ''ok''),
      (''kg_citations'', PyList [PyDict [(''node_id'', PyStr cited)]]),
      (''formalizable_assertions'', PyList [PyDict []])]"

definition sample_run :: "obj \<Rightarrow> assertion \<Rightarrow> string \<Rightarrow> obj \<Rightarrow> crash + envelope" where
  "sample_run m a v snap =
     aevaluate (sample_contract a) None sample_evaluator ''transcript:1'' m snap (PyStr ''high'') None None None
       (sample_answer v ''ob1'')"

section \<open>Properties\<close>

text \<open>
  Property C1. Whatever the language model answers, an evaluation whose scoped slice has an obligation
  that the verifier itself evaluates as breached by the measurement never returns CLEAR or
  NULL_UNMAPPED: not on a bogus citation, an invalid response, any risk tier or any attestation.
\<close>

theorem breach_never_ships_green:
  assumes "aevaluate k env ev tref m snap tier s t buf raw = Inr e"
    and "breaches_of s t buf m snap \<noteq> []"
  shows "verdict e \<notin> {CLEAR, NULL_UNMAPPED}"
  using assms by (rule breach_floor)

theorem breach_never_ships_green_witness:
  "\<exists>e. sample_run [(''nox'', PyInt 140)] (sample_claim ''nox'' 40 None) ''CLEAR'' (sample_snapshot ''nox'') = Inr e \<and>
       verdict e \<notin> {CLEAR, NULL_UNMAPPED}"
proof -
  let ?run = "sample_run [(''nox'', PyInt 140)] (sample_claim ''nox'' 40 None) ''CLEAR'' (sample_snapshot ''nox'')"
  have "case ?run of Inl c \<Rightarrow> False | Inr e \<Rightarrow> True" by code_simp
  then obtain e where e: "?run = Inr e" by (cases ?run) auto
  have "breaches_of None None None [(''nox'', PyInt 140)] (sample_snapshot ''nox'') \<noteq> []" by code_simp
  with e show ?thesis
    using breach_never_ships_green unfolding sample_run_def by blast
qed

text \<open>
  Property C4. A CLEAR that leaves the evaluator was CLEAR in the model's answer, rests on at least one
  assertion and on valid citations, and nothing stands against it: no failed freshness gate, no
  missing reading, no obligation evaluated as breached, no fail-closed divergence, and a verifier
  status that the risk policy accepts at the tier.
\<close>

theorem clear_requires_verified_satisfaction:
  assumes "aevaluate k env ev tref m snap tier s t buf raw = Inr e" and "verdict e = CLEAR"
  shows "freshness_gate m snap s t buf = None \<and> invalid_citations snap raw = Inr [] \<and>
    (\<exists>expl as cs. parse_output k raw = Inr (CLEAR, PyStr expl, as, cs) \<and> as \<noteq> [] \<and>
       missing_telemetry m snap as = [] \<and>
       formalizable_assertions e = fst (normalize_satisfied as (Some m) (Some (scoped_index snap m)))) \<and>
    breaches_of s t buf m snap = [] \<and> hidden_obligations snap m = [] \<and>
    policy_accepts env (status (verifier_result e)) (fst (normalise_tier tier))"
  using assms
proof (cases rule: clear_path)
  case (1 expl as cs as' nnotes r)
  then show ?thesis by (auto dest: report_fail_closed_hidden)
qed

theorem clear_requires_verified_satisfaction_witness:
  "\<exists>e. sample_run [(''nox'', PyInt 40)] (sample_claim ''nox'' 40 None) ''CLEAR'' (sample_snapshot ''nox'') = Inr e \<and>
       verdict e = CLEAR \<and> breaches_of None None None [(''nox'', PyInt 40)] (sample_snapshot ''nox'') = []"
proof -
  let ?run = "sample_run [(''nox'', PyInt 40)] (sample_claim ''nox'' 40 None) ''CLEAR'' (sample_snapshot ''nox'')"
  have "case ?run of Inl c \<Rightarrow> False | Inr e \<Rightarrow> verdict e = CLEAR" by code_simp
  then obtain e where e: "?run = Inr e" "verdict e = CLEAR" by (cases ?run) auto
  then show ?thesis
    using clear_requires_verified_satisfaction [OF e(1) [unfolded sample_run_def] e(2)] by blast
qed

text \<open>
  Property C16. At tier 1 a CLEAR means that the verifier's own evaluation of every scoped obligation that
  maps to the measurement agrees in unit and is not breached, and that it is satisfied for every
  obligation that no assertion of the model covers.
\<close>

theorem tier_1_clear_covers_every_obligation:
  assumes "aevaluate k env ev tref m snap tier s t buf raw = Inr e" and "verdict e = CLEAR"
    and "fst (normalise_tier tier) = TIER_1"
    and "o_entry \<in> set (enumerable_obligations (Some (scoped_index snap m)) (Some m))"
  shows "same_unit o_entry \<and> own_outcome (acheck_assertion s t buf) o_entry \<noteq> Some False \<and>
    (fst o_entry \<notin> obligation_id ` set (formalizable_assertions e) \<longrightarrow>
     own_outcome (acheck_assertion s t buf) o_entry = Some True)"
  using clear_tier_1(2) [OF assms(1-3)] assms(4)
  unfolding async.agreed_iff by (auto split: if_splits)

theorem tier_1_clear_covers_every_obligation_witness:
  "own_outcome (acheck_assertion None None None)
     (''ob1'', the (map_of (scoped_index (sample_snapshot ''nox'') [(''nox'', PyInt 40)]) ''ob1''), PyInt 40)
   \<noteq> Some False"
proof -
  let ?run = "sample_run [(''nox'', PyInt 40)] (sample_claim ''nox'' 40 None) ''CLEAR'' (sample_snapshot ''nox'')"
  have "case ?run of Inl c \<Rightarrow> False | Inr e \<Rightarrow> verdict e = CLEAR" by code_simp
  then obtain e where e: "?run = Inr e" "verdict e = CLEAR" by (cases ?run) auto
  have tier: "fst (normalise_tier (PyStr ''high'')) = TIER_1" by code_simp
  have "(''ob1'', the (map_of (scoped_index (sample_snapshot ''nox'') [(''nox'', PyInt 40)]) ''ob1''), PyInt 40)
    \<in> set (enumerable_obligations (Some (scoped_index (sample_snapshot ''nox'') [(''nox'', PyInt 40)]))
             (Some [(''nox'', PyInt 40)]))" by code_simp
  then show ?thesis
    using tier_1_clear_covers_every_obligation [OF e(1) [unfolded sample_run_def] e(2) tier] by blast
qed

text \<open>
  Property C5. At tier 1 a CLEAR is sound for the numeric obligations of spec 3.3: if the Knowledge Graph
  states a bound for a metric of the measurement, and no assertion on that obligation carries a time
  window, the reading is a finite number within the bound. The model's claims play no part in it.
\<close>

theorem tier_1_clear_within_bounds:
  assumes "aevaluate k env ev tref m snap tier s t buf raw = Inr e" and "verdict e = CLEAR"
    and "fst (normalise_tier tier) = TIER_1"
    and "map_of (scoped_index snap m) i = Some ob"
    and "dget ob ''predicate'' = PyStr p" and "dget ob ''metric'' = PyStr name"
    and "p \<in> set numeric_predicates" and "bound_of p (dget ob ''value'') = Some b"
    and "resolve_reading m name = Some reading"
    and "\<forall>a \<in> set (formalizable_assertions e). obligation_id a = i \<longrightarrow> window_seconds a = None"
  shows "\<exists>x. real_of (fst (split_unit reading)) = Some x \<and> within_bound b x"
  using clear_tier_1(2) [OF assms(1-3)] assms(4-10) by (rule async.agreed_numeric_sound)

theorem tier_1_clear_within_bounds_witness:
  "\<exists>x. real_of (fst (split_unit (PyInt 40))) = Some x \<and> within_bound (AtMost 100) x"
proof -
  let ?m = "[(''nox'', PyInt 40)]"
  let ?run = "sample_run ?m (sample_claim ''nox'' 40 None) ''CLEAR'' (sample_snapshot ''nox'')"
  have "case ?run of Inl c \<Rightarrow> False | Inr e \<Rightarrow> verdict e = CLEAR \<and>
      list_all (\<lambda>a. window_seconds a = None) (formalizable_assertions e)" by code_simp
  then obtain e where e: "?run = Inr e" "verdict e = CLEAR"
    and w: "\<forall>a \<in> set (formalizable_assertions e). obligation_id a = ''ob1'' \<longrightarrow> window_seconds a = None"
    by (cases ?run) (auto simp: list_all_iff)
  have tier: "fst (normalise_tier (PyStr ''high'')) = TIER_1" by code_simp
  let ?ob = "[(''id'', PyStr ''ob1''), (''predicate'', PyStr ''must_not_exceed''), (''metric'', PyStr ''nox''),
      (''value'', PyInt 100), (''risk_tier'', PyStr ''high'')]"
  have ob: "map_of (scoped_index (sample_snapshot ''nox'') ?m) ''ob1'' = Some ?ob" by code_simp
  have facts: "dget ?ob ''predicate'' = PyStr ''must_not_exceed''" "dget ?ob ''metric'' = PyStr ''nox''"
    "''must_not_exceed'' \<in> set numeric_predicates" "resolve_reading ?m ''nox'' = Some (PyInt 40)"
    by code_simp+
  have "bound_of ''must_not_exceed'' (dget ?ob ''value'') = Some (AtMost 100)"
    by (simp add: bound_of_def dget_def)
  with facts show ?thesis
    using tier_1_clear_within_bounds [OF e(1) [unfolded sample_run_def] e(2) tier ob] w by blast
qed

text \<open>
  The restriction on time windows is needed. An assertion under a stateless predicate that
  carries \<open>window_seconds\<close> is exempt from grounding in the measurement and from the missing-telemetry
  guard: with the sensor of a tier-1 obligation reporting text, an invented reading of 40 ships as
  CLEAR with status AGREED, although the verifier's own evaluation of the obligation decides nothing.
\<close>

theorem windowed_claim_evades_grounding:
  "let m = [(''tank'', PyDict [(''temp'', PyStr ''offline'')])];
       snap = sample_snapshot ''tank.temp'';
       run = sample_run m (sample_claim ''tank.temp'' 40 (Some 60)) ''CLEAR'' snap
   in (case run of Inl c \<Rightarrow> False
       | Inr e \<Rightarrow> verdict e = CLEAR \<and> status (verifier_result e) = AGREED) \<and>
      map (own_outcome (acheck_assertion None None None))
        (enumerable_obligations (Some (scoped_index snap m)) (Some m)) = [None]"
  by code_simp

text \<open>
  A failed freshness gate is final: with a stale obligation every answer of the model, valid
  or not, becomes NULL_STALE; with an undecidable one the verdict is DISCRETIONARY, or stays
  NULL_STALE.
\<close>

theorem freshness_gate_is_final:
  assumes "aevaluate k env ev tref m snap tier s t buf raw = Inr e"
    and "freshness_gate m snap s t buf = Some f"
  shows "verdict e = gate_verdict f \<or> gate_verdict f = DISCRETIONARY \<and> verdict e = NULL_STALE"
  using gate_overrides [OF assms] gate_verdict_cases [OF assms(2)] by auto

definition sample_gated :: obj where
  "sample_gated = [(''obligations'', PyList [PyDict
     [(''id'', PyStr ''ob1''), (''predicate'', PyStr ''must_not_exceed''), (''metric'', PyStr ''nox''),
      (''value'', PyInt 100), (''requires_recent_within_seconds'', PyInt 60)]])]"

theorem freshness_gate_is_final_witness:
  "\<exists>e. sample_run [(''nox'', PyInt 40)] (sample_claim ''nox'' 40 None) ''CLEAR'' sample_gated = Inr e \<and>
       verdict e \<in> {DISCRETIONARY, NULL_STALE}"
proof -
  let ?m = "[(''nox'', PyInt 40)]"
  let ?run = "sample_run ?m (sample_claim ''nox'' 40 None) ''CLEAR'' sample_gated"
  have "case ?run of Inl c \<Rightarrow> False | Inr e \<Rightarrow> True" by code_simp
  then obtain e where e: "?run = Inr e" by (cases ?run) auto
  have "map_option gate_verdict (freshness_gate ?m sample_gated None None None) = Some DISCRETIONARY" by code_simp
  then obtain f where f: "freshness_gate ?m sample_gated None None None = Some f" "gate_verdict f = DISCRETIONARY"
    by auto
  show ?thesis
    using freshness_gate_is_final [OF e [unfolded sample_run_def] f(1)] e f(2) by auto
qed

text \<open>
  Property C21. An obligation that the slice hides fails closed. When an entry of the slice has a predicate that the
  verifier checks and a metric that the measurement answers, and either has no text id or has an id that a later
  entry repeats, the verdict is DISCRETIONARY or NULL_STALE, at every tier and whatever the model says.
\<close>

theorem hidden_obligation_fails_closed:
  assumes "aevaluate k env ev tref m snap tier s t buf raw = Inr e"
    and "entries = List.map_filter dict_of (snapshot_obligations snap)" "n < length entries"
    and "dget (entries ! n) ''predicate'' = PyStr p" "p \<in> set formalizable_predicates"
    and "dget (entries ! n) ''metric'' = PyStr name" "resolve_reading m name \<noteq> None"
    and "is_str (dget (entries ! n) ''id'') \<Longrightarrow>
           \<exists>later. n < later \<and> later < length entries \<and> dget (entries ! later) ''id'' = dget (entries ! n) ''id''"
  shows "verdict e \<in> {DISCRETIONARY, NULL_STALE}"
proof (rule fail_closed_floor [OF assms(1)])
  have "enumerable_reading m (entries ! n) \<noteq> None" using assms(4-7) by (simp add: enumerable_reading_def)
  from assms(3) this assms(8) show "hidden_obligations snap m \<noteq> []"
    unfolding hidden_obligations_def assms(2) by (rule hidden_reported)
qed

definition sample_repeated :: obj where
  "sample_repeated = [(''obligations'', PyList
     [PyDict [(''id'', PyStr ''ob1''), (''predicate'', PyStr ''must_not_exceed''), (''metric'', PyStr ''nox''),
              (''value'', PyInt 10)],
      PyDict [(''id'', PyStr ''ob1''), (''predicate'', PyStr ''must_not_exceed''), (''metric'', PyStr ''nox''),
              (''value'', PyInt 100)]])]"

definition sample_hidden :: obj where
  "sample_hidden = [(''obligations'', PyList
     [PyDict [(''id'', PyStr ''ob1''), (''predicate'', PyStr ''must_not_exceed''), (''metric'', PyStr ''nox''),
              (''value'', PyInt 100)],
      PyDict [(''predicate'', PyStr ''must_not_exceed''), (''metric'', PyStr ''nox''), (''value'', PyInt 10)]])]"

theorem hidden_obligation_fails_closed_witness:
  "\<exists>e e'. sample_run [(''nox'', PyInt 40)] (sample_claim ''nox'' 40 None) ''CLEAR'' sample_hidden = Inr e \<and>
     verdict e \<in> {DISCRETIONARY, NULL_STALE} \<and>
     sample_run [(''nox'', PyInt 40)] (sample_claim ''nox'' 40 None) ''CLEAR'' sample_repeated = Inr e' \<and>
     verdict e' \<in> {DISCRETIONARY, NULL_STALE}"
proof -
  let ?m = "[(''nox'', PyInt 40)]" and ?items = "\<lambda>snap. List.map_filter dict_of (snapshot_obligations snap)"
  let ?run = "sample_run ?m (sample_claim ''nox'' 40 None) ''CLEAR''"
  have "case ?run sample_hidden of Inl c \<Rightarrow> False | Inr e \<Rightarrow> True" by code_simp
  then obtain e where e: "?run sample_hidden = Inr e" by (cases "?run sample_hidden") auto
  have "case ?run sample_repeated of Inl c \<Rightarrow> False | Inr e \<Rightarrow> True" by code_simp
  then obtain e' where e': "?run sample_repeated = Inr e'" by (cases "?run sample_repeated") auto
  have known: "''must_not_exceed'' \<in> set formalizable_predicates" "resolve_reading ?m ''nox'' \<noteq> None" by code_simp+
  have missing: "1 < length (?items sample_hidden)" "dget (?items sample_hidden ! 1) ''predicate'' = PyStr ''must_not_exceed''"
    "dget (?items sample_hidden ! 1) ''metric'' = PyStr ''nox''" "\<not> is_str (dget (?items sample_hidden ! 1) ''id'')"
    by code_simp+
  have repeated: "0 < length (?items sample_repeated)" "dget (?items sample_repeated ! 0) ''predicate'' = PyStr ''must_not_exceed''"
    "dget (?items sample_repeated ! 0) ''metric'' = PyStr ''nox''" "1 < length (?items sample_repeated)"
    "dget (?items sample_repeated ! 1) ''id'' = dget (?items sample_repeated ! 0) ''id''"
    by code_simp+
  have "verdict e \<in> {DISCRETIONARY, NULL_STALE}"
    using missing(4) by (intro hidden_obligation_fails_closed [OF e [unfolded sample_run_def] refl missing(1,2) known(1) missing(3) known(2)])
      simp
  moreover have "verdict e' \<in> {DISCRETIONARY, NULL_STALE}"
    by (rule hidden_obligation_fails_closed [OF e' [unfolded sample_run_def] refl repeated(1,2) known(1) repeated(3) known(2)])
      (use repeated(4,5) in auto)
  ultimately show ?thesis using e e' by blast
qed

text \<open>
  Which answers of the model make an evaluation raise: exactly a citation list whose entries
  cannot be looked up (an entry that is no object, an id that cannot be hashed), or a response with
  valid citations that satisfies the contract except that \<open>reasoning\<close> is no text. Every other answer,
  however malformed, yields an envelope.
\<close>

theorem aevaluate_raises_iff:
  "(\<exists>c. aevaluate k env ev tref m snap tier s t buf raw = Inl c) \<longleftrightarrow>
   list_all hashable (valid_node_ids snap) = False \<or>
   (case cited_node_ids raw of Inl c \<Rightarrow> True | Inr cited \<Rightarrow> list_all hashable cited = False) \<or>
   invalid_citations snap raw = Inr [] \<and>
   (\<exists>v val as cs. parse_output k raw = Inr (v, val, as, cs) \<and> is_str val = False)"
  unfolding aevaluate_crashes_iff by (auto simp: invalid_citations_def Let_def split: sum.split)

end
