(* ===== verification/Telemetry_Buffer.thy ===== *)
theory Telemetry_Buffer
  imports Evaluator
begin

text \<open>
  The telemetry buffer (\<open>telemetry_buffer/buffer.py\<close>): the table of telemetry records of all tenants,
  the append, the window aggregate, the freshness test and the lookup for replay.

  The table is the list of its rows in order of insertion; each SQL statement is the list computation
  its clauses state. Postgres' arithmetic is the parameter \<open>db_arith\<close>: the rounding of a \<open>numeric\<close> to a
  double and the \<open>AVG\<close> aggregate. The path operator \<open>#>\<close> is modelled on JSON objects (a step into an
  array, which needs a decimal path component, yields null). Times are microseconds;
  \<open>total_seconds()\<close> is compared exactly.
\<close>

record telemetry_row =
  r_tenant :: string
  r_subject :: string
  r_telemetry_id :: string
  r_ts :: int
  r_measurement :: obj
  r_hash :: string

record db_arith =
  to_double :: "rat \<Rightarrow> rat"
  avg_numeric :: "rat list \<Rightarrow> rat"

record window_query_result =
  w_count :: nat
  w_sum :: "rat option"
  w_avg :: "rat option"
  w_oldest :: "int option"
  w_newest :: "int option"
  w_last :: "int option"
  w_max :: "rat option"

definition microseconds :: "int \<Rightarrow> int" where
  "microseconds s = s * 1000000"

section \<open>Operations\<close>

definition buffer_append ::
  "(obj \<Rightarrow> string) \<Rightarrow> string \<Rightarrow> string \<Rightarrow> string \<Rightarrow> int \<Rightarrow> obj \<Rightarrow> string option \<Rightarrow> telemetry_row list
     \<Rightarrow> telemetry_row list" where
  "buffer_append canonical_hash tenant subject tid ts m given_hash rows =
     rows @ [\<lparr>r_tenant = tenant, r_subject = subject, r_telemetry_id = tid, r_ts = ts, r_measurement = m,
              r_hash = (case given_hash of None \<Rightarrow> canonical_hash m | Some h \<Rightarrow> h)\<rparr>]"

definition window_rows :: "string \<Rightarrow> string \<Rightarrow> int \<Rightarrow> int \<Rightarrow> telemetry_row list \<Rightarrow> telemetry_row list" where
  "window_rows tenant subject as_of window rows =
     filter (\<lambda>r. r_tenant r = tenant \<and> r_subject r = subject \<and>
                 r_ts r > as_of - microseconds window \<and> r_ts r \<le> as_of) rows"

fun json_path :: "py \<Rightarrow> string list \<Rightarrow> py option" where
  "json_path v [] = Some v"
| "json_path v (p # ps) =
     (case v of PyDict d \<Rightarrow> (case map_of d p of None \<Rightarrow> None | Some w \<Rightarrow> json_path w ps) | _ \<Rightarrow> None)"

text \<open>The values the aggregate reads: those at the path whose JSON type is a number.\<close>

definition sample_at :: "string \<Rightarrow> telemetry_row \<Rightarrow> rat option" where
  "sample_at path r =
     (case json_path (PyDict (r_measurement r)) (py_split (CHR ''.'') path) of
        None \<Rightarrow> None
      | Some v \<Rightarrow> real_of v)"

definition nonempty :: "('a list \<Rightarrow> 'b) \<Rightarrow> 'a list \<Rightarrow> 'b option" where
  "nonempty f xs = (if xs = [] then None else Some (f xs))"

definition ts_min :: "telemetry_row list \<Rightarrow> int option" where
  "ts_min rows = nonempty (\<lambda>ts. fold min (tl ts) (hd ts)) (map r_ts rows)"

definition ts_max :: "telemetry_row list \<Rightarrow> int option" where
  "ts_max rows = nonempty (\<lambda>ts. fold max (tl ts) (hd ts)) (map r_ts rows)"

definition buffer_window_query ::
  "db_arith \<Rightarrow> string \<Rightarrow> telemetry_row list \<Rightarrow> string \<Rightarrow> int \<Rightarrow> int \<Rightarrow> string option
     \<Rightarrow> string + window_query_result" where
  "buffer_window_query arith tenant rows subject as_of window metric_path =
     (if window \<le> 0 then Inl ''BufferError''
      else
        (let found = window_rows tenant subject as_of window rows;
             vals = (case metric_path of
                       None \<Rightarrow> []
                     | Some p \<Rightarrow> if p \<noteq> [] \<and> found \<noteq> [] then List.map_filter (sample_at p) found else [])
         in Inr \<lparr>w_count = length found,
                 w_sum = nonempty (to_double arith \<circ> sum_list) vals,
                 w_avg = nonempty (to_double arith \<circ> avg_numeric arith) vals,
                 w_oldest = ts_min found, w_newest = ts_max found, w_last = ts_max found,
                 w_max = map_option (to_double arith) (list_max vals)\<rparr>))"

definition last_record_ts :: "string \<Rightarrow> telemetry_row list \<Rightarrow> string \<Rightarrow> int \<Rightarrow> int option" where
  "last_record_ts tenant rows subject as_of =
     ts_max (filter (\<lambda>r. r_tenant r = tenant \<and> r_subject r = subject \<and> r_ts r \<le> as_of) rows)"

definition has_fresh_sample ::
  "string \<Rightarrow> telemetry_row list \<Rightarrow> string \<Rightarrow> int \<Rightarrow> int \<Rightarrow> string + bool" where
  "has_fresh_sample tenant rows subject as_of limit =
     (if limit \<le> 0 then Inl ''BufferError''
      else (case last_record_ts tenant rows subject as_of of
          None \<Rightarrow> Inr False
        | Some ts \<Rightarrow> Inr (as_of - ts \<le> microseconds limit)))"

text \<open>\<open>ORDER BY telemetry_ts DESC LIMIT 1\<close>: some row with the greatest time; here the first of them.\<close>

definition fetch_at :: "string \<Rightarrow> telemetry_row list \<Rightarrow> string \<Rightarrow> telemetry_row option" where
  "fetch_at tenant rows h =
     (let found = filter (\<lambda>r. r_tenant r = tenant \<and> r_hash r = h) rows in
      case ts_max found of
        None \<Rightarrow> None
      | Some ts \<Rightarrow> find (\<lambda>r. r_ts r = ts) found)"

text \<open>The buffer as the verifier and the freshness gate use it.\<close>

definition py_float :: "rat option \<Rightarrow> py" where
  "py_float q = (case q of None \<Rightarrow> PyNone | Some x \<Rightarrow> PyFloat (Fin x))"

definition buffer_source :: "db_arith \<Rightarrow> string \<Rightarrow> telemetry_row list \<Rightarrow> telemetry_source" where
  "buffer_source arith tenant rows =
     \<lparr>window_query = (\<lambda>subject as_of window path.
        (case buffer_window_query arith tenant rows subject as_of window path of
           Inl e \<Rightarrow> Inl e
         | Inr r \<Rightarrow> Inr (Aggregate (py_float (w_avg r)) (Some (py_float (w_max r))) (Some (PyInt (int (w_count r))))))),
      fresh_sample_query = Some (has_fresh_sample tenant rows)\<rparr>"

section \<open>Facts\<close>

lemma ts_max_None [simp]: "ts_max rows = None \<longleftrightarrow> rows = []"
  by (simp add: ts_max_def nonempty_def)

lemma ts_max_Nil [simp]: "ts_max [] = None"
  by simp

lemma ts_max_Some:
  assumes "ts_max rows = Some t"
  shows "t \<in> r_ts ` set rows" and "\<forall>r \<in> set rows. r_ts r \<le> t"
proof -
  from assms obtain x xs where rows: "map r_ts rows = x # xs" and t: "t = fold max xs x"
    by (auto simp: ts_max_def nonempty_def neq_Nil_conv split: if_splits)
  have "set (map r_ts rows) = insert x (set xs)" by (simp add: rows)
  then have img: "r_ts ` set rows = insert x (set xs)" by simp
  show "t \<in> r_ts ` set rows" unfolding img t by (rule fold_max_in)
  have "\<forall>y \<in> insert x (set xs). y \<le> t"
    using fold_max_le_iff [of xs x t] by (simp add: t)
  then show "\<forall>r \<in> set rows. r_ts r \<le> t"
    unfolding img [symmetric] by simp
qed

lemma has_fresh_sample_iff:
  assumes "limit > 0"
  shows "has_fresh_sample tenant rows subject as_of limit =
    Inr (\<exists>r \<in> set rows. r_tenant r = tenant \<and> r_subject r = subject \<and>
           as_of - microseconds limit \<le> r_ts r \<and> r_ts r \<le> as_of)"
proof -
  let ?found = "filter (\<lambda>r. r_tenant r = tenant \<and> r_subject r = subject \<and> r_ts r \<le> as_of) rows"
  show ?thesis
  proof (cases "ts_max ?found")
    case None
    then show ?thesis
      using assms by (auto simp: has_fresh_sample_def last_record_ts_def filter_empty_conv)
  next
    case (Some t)
    with ts_max_Some [OF Some] assms show ?thesis
      by (force simp: has_fresh_sample_def last_record_ts_def)
  qed
qed

lemma fetch_at_Some:
  assumes "fetch_at tenant rows h = Some r"
  shows "r \<in> set rows" "r_tenant r = tenant" "r_hash r = h"
    "\<forall>q \<in> set rows. r_tenant q = tenant \<and> r_hash q = h \<longrightarrow> r_ts q \<le> r_ts r"
proof -
  let ?found = "filter (\<lambda>r. r_tenant r = tenant \<and> r_hash r = h) rows"
  obtain t where t: "ts_max ?found = Some t" and f: "find (\<lambda>r. r_ts r = t) ?found = Some r"
    using assms by (auto simp: fetch_at_def Let_def split: option.splits)
  from f have mem: "r \<in> set ?found" and "r_ts r = t"
    unfolding find_Some_iff by (metis nth_mem)+
  with ts_max_Some(2) [OF t] mem show "r \<in> set rows" "r_tenant r = tenant" "r_hash r = h"
    "\<forall>q \<in> set rows. r_tenant q = tenant \<and> r_hash q = h \<longrightarrow> r_ts q \<le> r_ts r"
    by auto
qed

lemma fetch_at_None: "fetch_at tenant rows h = None \<longleftrightarrow> (\<forall>r \<in> set rows. r_tenant r = tenant \<longrightarrow> r_hash r \<noteq> h)"
proof -
  let ?found = "filter (\<lambda>r. r_tenant r = tenant \<and> r_hash r = h) rows"
  show ?thesis
  proof (cases "ts_max ?found")
    case None
    then show ?thesis by (auto simp: fetch_at_def filter_empty_conv)
  next
    case (Some t)
    with ts_max_Some(1) [OF Some] have "find (\<lambda>r. r_ts r = t) ?found \<noteq> None" "?found \<noteq> []"
      by (auto simp: find_None_iff)
    with Some show ?thesis by (auto simp: fetch_at_def Let_def filter_empty_conv)
  qed
qed

text \<open>Rows of another tenant or subject do not matter.\<close>

lemma window_rows_append:
  "window_rows tenant subject as_of w (rows @ [r]) =
   window_rows tenant subject as_of w rows @
   (if r_tenant r = tenant \<and> r_subject r = subject \<and> r_ts r > as_of - microseconds w \<and> r_ts r \<le> as_of
    then [r] else [])"
  by (simp add: window_rows_def)

lemma buffer_queries_congruent:
  assumes "filter (\<lambda>r. r_tenant r = tenant \<and> r_subject r = subject) rows =
           filter (\<lambda>r. r_tenant r = tenant \<and> r_subject r = subject) rows'"
  shows "buffer_window_query arith tenant rows subject as_of w p = buffer_window_query arith tenant rows' subject as_of w p"
    and "has_fresh_sample tenant rows subject as_of w = has_fresh_sample tenant rows' subject as_of w"
proof -
  have win: "window_rows tenant subject as_of w xs =
      filter (\<lambda>r. r_ts r > as_of - microseconds w \<and> r_ts r \<le> as_of)
        (filter (\<lambda>r. r_tenant r = tenant \<and> r_subject r = subject) xs)" for xs
    by (simp add: window_rows_def conj_ac)
  have fresh: "last_record_ts tenant xs subject as_of =
      ts_max (filter (\<lambda>r. r_ts r \<le> as_of) (filter (\<lambda>r. r_tenant r = tenant \<and> r_subject r = subject) xs))" for xs
    by (simp add: last_record_ts_def conj_ac)
  show "buffer_window_query arith tenant rows subject as_of w p = buffer_window_query arith tenant rows' subject as_of w p"
    by (simp add: buffer_window_query_def win assms)
  show "has_fresh_sample tenant rows subject as_of w = has_fresh_sample tenant rows' subject as_of w"
    by (simp add: has_fresh_sample_def fresh assms)
qed

section \<open>The contract of a store of samples\<close>

text \<open>
  What the freshness gate needs of a store: a record that has just been written for a subject at a time
  is a fresh sample of that subject at that time.
\<close>

locale sample_store =
  fixes put :: "string \<Rightarrow> int \<Rightarrow> obj \<Rightarrow> 'db \<Rightarrow> 'db"
    and source :: "'db \<Rightarrow> telemetry_source"
  assumes written_is_fresh: "w > 0 \<Longrightarrow> fresh_answer (source (put subject ts m db)) subject ts w = Inr True"
begin

lemma written_never_stale:
  "freshness_of (Some subject) (Some ts) (Some (source (put subject ts m db))) ob \<noteq> Inr (Some item)"
proof
  assume *: "freshness_of (Some subject) (Some ts) (Some (source (put subject ts m db))) ob = Inr (Some item)"
  then obtain n where "dget ob ''requires_recent_within_seconds'' = PyInt n" "n > 0"
    by (auto simp: freshness_of_def Let_def split: py.splits if_splits)
  with * written_is_fresh [of n subject ts m db] show False
    by (auto simp: freshness_of_def Let_def split: if_splits)
qed

lemma written_no_stale_verdict:
  assumes "freshness_gate reading snap (Some subject) (Some ts) (Some (source (put subject ts m db))) = Some f"
  shows "gate_verdict f = DISCRETIONARY"
proof -
  let ?step = "freshness_step (Some subject) (Some ts) (Some (source (put subject ts m db)))"
  have "fst (fold ?step obs ([], undecidable)) = []" for obs undecidable
  proof (induction obs arbitrary: undecidable)
    case (Cons ob obs)
    then show ?case
      using written_never_stale [of subject ts m db ob]
      by (cases "freshness_of (Some subject) (Some ts) (Some (source (put subject ts m db))) ob")
         (auto simp: freshness_step_def split: option.splits)
  qed simp
  with assms show ?thesis
    by (auto simp: freshness_gate_def Let_def split: prod.splits if_splits) (metis fst_conv)
qed

end

lemma appended_is_fresh:
  "w > 0 \<Longrightarrow> fresh_answer (buffer_source arith tenant (buffer_append ch tenant subject tid ts m h rows)) subject ts w
     = Inr True"
  by (simp add: fresh_answer_def buffer_source_def has_fresh_sample_iff buffer_append_def microseconds_def)

interpretation buffer: sample_store
  "\<lambda>subject ts m. buffer_append ch tenant subject tid ts m h" "buffer_source arith tenant"
  for ch tenant tid h arith
  by unfold_locales (rule appended_is_fresh)

section \<open>Properties\<close>

definition sample_arith :: db_arith where
  "sample_arith = \<lparr>to_double = id, avg_numeric = (\<lambda>xs. sum_list xs / of_nat (length xs))\<rparr>"

definition sample_row :: "int \<Rightarrow> py \<Rightarrow> telemetry_row" where
  "sample_row ts reading = \<lparr>r_tenant = ''t'', r_subject = ''s'', r_telemetry_id = ''id'', r_ts = ts,
     r_measurement = [(''nox'', reading)], r_hash = ''h''\<rparr>"

text \<open>
  A record that the runtime has just written is its own fresh sample: after a successful
  append of the record being evaluated, the freshness gate never decides NULL_STALE, whatever the
  window of an obligation; only a malformed window still fails it.
\<close>

theorem buffered_record_never_stale:
  assumes "freshness_gate reading snap (Some subject) (Some ts)
    (Some (buffer_source arith tenant (buffer_append ch tenant subject tid ts m h rows))) = Some f"
  shows "gate_verdict f = DISCRETIONARY"
  using assms by (rule buffer.written_no_stale_verdict)

theorem buffered_record_never_stale_witness:
  "map_option gate_verdict (freshness_gate [(''nox'', PyInt 1)]
     [(''obligations'', PyList [PyDict [(''metric'', PyStr ''nox''), (''requires_recent_within_seconds'', PyInt (- 1))]])]
     (Some ''s'') (Some 7) (Some (buffer_source sample_arith ''t''
       (buffer_append (\<lambda>m. []) ''t'' ''s'' ''id'' 7 [(''nox'', PyInt 1)] None [])))) = Some DISCRETIONARY"
proof -
  let ?gate = "freshness_gate [(''nox'', PyInt 1)]
     [(''obligations'', PyList [PyDict [(''metric'', PyStr ''nox''), (''requires_recent_within_seconds'', PyInt (- 1))]])]
     (Some ''s'') (Some 7) (Some (buffer_source sample_arith ''t''
       (buffer_append (\<lambda>m. []) ''t'' ''s'' ''id'' 7 [(''nox'', PyInt 1)] None [])))"
  have "?gate \<noteq> None" by code_simp
  then obtain f where "?gate = Some f" by blast
  then show ?thesis using buffered_record_never_stale by simp
qed

text \<open>
  The edges of the two windows differ: a sample exactly as old as the window is fresh for the
  gate (closed interval) but is not in the window of an aggregate (open on the left, closed at the time
  of evaluation).
\<close>

theorem window_edges:
  assumes "w > 0" and "r_tenant r = tenant" and "r_subject r = subject" and "r_ts r = as_of - microseconds w"
  shows "has_fresh_sample tenant [r] subject as_of w = Inr True \<and>
    map_sum id w_count (buffer_window_query arith tenant [r] subject as_of w path) = Inr 0"
  using assms
  by (simp add: has_fresh_sample_iff buffer_window_query_def window_rows_def microseconds_def Let_def)

theorem window_edges_witness:
  "has_fresh_sample ''t'' [sample_row 0 (PyInt 1)] ''s'' 60000000 60 = Inr True \<and>
   map_sum id w_count (buffer_window_query sample_arith ''t'' [sample_row 0 (PyInt 1)] ''s'' 60000000 60 None) = Inr 0"
  by (rule window_edges) (simp_all add: sample_row_def microseconds_def)

text \<open>
  The window peak over the database, end to end: for a metric present in the window the
  stateful check is satisfied exactly when every numeric sample of the subject in the half-open window
  rounds to a double that is at most the cap.
\<close>

theorem buffer_peak_check_correct:
  assumes "mono (to_double arith)" and "window_seconds a = Some w" and "w > 0" and "real_of (value a) = Some c"
    and "metric a \<noteq> []"
    and "List.map_filter (sample_at (metric a)) (window_rows tenant subject as_of w rows) \<noteq> []"
  shows "mechanically_satisfied
     (check_must_not_exceed_in_window a (Some subject) (Some as_of) (Some (buffer_source arith tenant rows))) =
   Some (\<forall>x \<in> set (List.map_filter (sample_at (metric a)) (window_rows tenant subject as_of w rows)).
           to_double arith x \<le> c)"
proof -
  let ?vals = "List.map_filter (sample_at (metric a)) (window_rows tenant subject as_of w rows)"
  obtain p where p: "list_max ?vals = Some p" using assms(6) list_max_None by fastforce
  have found: "window_rows tenant subject as_of w rows \<noteq> []"
    using assms(6) by auto
  have "to_double arith p \<le> c \<longleftrightarrow> (\<forall>x \<in> set ?vals. to_double arith x \<le> c)"
    using list_max_in [OF p] list_max_le_iff [OF p, of p] monoD [OF assms(1)] by force
  then show ?thesis
    using assms p found
    by (simp add: check_must_not_exceed_in_window_def query_window_def buffer_source_def buffer_window_query_def
        summarize_window_def py_float_def Let_def)
qed

theorem buffer_peak_check_correct_witness:
  "mechanically_satisfied (check_must_not_exceed_in_window
     (sample_assertion ''must_not_exceed_in_window'' PyNone (PyInt 10) (Some 60)) (Some ''s'') (Some 9)
     (Some (buffer_source sample_arith ''t'' [sample_row 9 (PyInt 4)]))) = Some True"
proof -
  let ?a = "sample_assertion ''must_not_exceed_in_window'' PyNone (PyInt 10) (Some 60)"
  have vals: "List.map_filter (sample_at (metric ?a)) (window_rows ''t'' ''s'' 9 60 [sample_row 9 (PyInt 4)]) = [4]"
    by code_simp
  have "mono (to_double sample_arith)" by (simp add: sample_arith_def mono_def)
  then show ?thesis
    using buffer_peak_check_correct [of sample_arith ?a 60 10 "''t''" "''s''" 9 "[sample_row 9 (PyInt 4)]"]
    unfolding vals by (simp add: sample_assertion_def sample_arith_def)
qed

text \<open>
  A reading that carries its unit is invisible to the window aggregates, although every
  other check of the verifier reads its value: with a unit-bearing sample of 500 and a bare one of 40 in
  the window, a peak cap of 100 is reported as satisfied.
\<close>

theorem unit_bearing_sample_is_invisible:
  "let rows = [sample_row 5 (PyDict [(''value'', PyInt 500), (''unit'', PyStr ''ppm'')]), sample_row 9 (PyInt 40)];
       a = sample_assertion ''must_not_exceed_in_window'' PyNone (PyInt 100) (Some 60)
   in mechanically_satisfied (check_must_not_exceed_in_window a (Some ''s'') (Some 9)
        (Some (buffer_source sample_arith ''t'' rows))) = Some True \<and>
      map (fst \<circ> split_unit) (List.map_filter (\<lambda>r. resolve_reading (r_measurement r) ''nox'') rows) =
        [PyInt 500, PyInt 40]"
  by code_simp

text \<open>
  Replay finds what was written: the lookup by hash returns a row exactly when the tenant
  has one with that hash, and then one with the latest time; a row of another tenant never comes back.
\<close>

theorem fetch_at_returns_latest:
  "case fetch_at tenant rows h of
     None \<Rightarrow> list_all (\<lambda>r. (r_tenant r = tenant \<and> r_hash r = h) = False) rows
   | Some r \<Rightarrow> r \<in> set rows \<and> r_tenant r = tenant \<and> r_hash r = h \<and>
       list_all (\<lambda>q. if r_tenant q = tenant \<and> r_hash q = h then r_ts q \<le> r_ts r else True) rows"
proof (cases "fetch_at tenant rows h")
  case None
  then show ?thesis using fetch_at_None [of tenant rows h] by (simp add: list_all_iff)
next
  case (Some r)
  with fetch_at_Some [OF Some] show ?thesis by (auto simp: list_all_iff)
qed

end
