(* ===== verification/KG_Graph.thy ===== *)
theory KG_Graph
  imports Py_Value
begin

text \<open>
  The compiler of the spec 3 Knowledge Graph (\<open>ski_model/kg_graph.py\<close>): from typed nodes and edges to the
  flat list of obligations that the evaluator and the verifier work on.

  Python sets of ids are lists without duplicates; every set reaches the result sorted. The closure of
  jurisdictions is the source's loop over a stack, with its termination proved.
\<close>

definition node_kinds :: "string list" where
  "node_kinds = [''subjects'', ''rules'', ''obligations'', ''definitions'', ''exemptions'', ''precedents'',
     ''jurisdictions'', ''citations'']"

definition compile_tier_rank :: "(string \<times> nat) list" where
  "compile_tier_rank = [(''high'', 0), (''medium'', 1), (''low'', 2)]"

definition copied_fields :: "string list" where
  "copied_fields = [''metric'', ''value'', ''unit'', ''summary'', ''window_seconds'', ''requires_recent_within_seconds'']"

definition is_graph_kg :: "obj \<Rightarrow> bool" where
  "is_graph_kg data = has_key data ''nodes''"

datatype kg_error =
    NodesNotObject
  | EdgesNotArray
  | UnknownLists "string list"
  | ListNotArray string
  | NodeWithoutId string
  | DuplicateNodeId string
  | EdgeNotObject
  | EdgeFields py
  | EdgeUnknownNode string string string
  | EmptyRules "string list"
  | ObligationFields string
  | NoObligations

section \<open>Nodes\<close>

type_synonym node_index = "(string \<times> (string \<times> obj)) list"

definition add_node :: "string \<Rightarrow> py \<Rightarrow> node_index \<Rightarrow> kg_error + node_index" where
  "add_node kind v by_id =
     (case v of
        PyDict node \<Rightarrow>
          (case dget node ''id'' of
             PyStr i \<Rightarrow>
               if i = [] then Inl (NodeWithoutId kind)
               else if i \<in> fst ` set by_id then Inl (DuplicateNodeId i)
               else Inr (by_id @ [(i, (kind, node))])
           | _ \<Rightarrow> Inl (NodeWithoutId kind))
      | _ \<Rightarrow> Inl (NodeWithoutId kind))"

definition add_kind :: "obj \<Rightarrow> string \<Rightarrow> node_index \<Rightarrow> kg_error + node_index" where
  "add_kind nodes kind by_id =
     (case dget_default nodes kind (PyList []) of
        PyList items \<Rightarrow> fold_err (add_node kind) items by_id
      | _ \<Rightarrow> Inl (ListNotArray kind))"

definition index_nodes :: "obj \<Rightarrow> kg_error + node_index" where
  "index_nodes nodes = fold_err (add_kind nodes) node_kinds []"

definition ids_of :: "node_index \<Rightarrow> string \<Rightarrow> string list" where
  "ids_of by_id kind = map fst (filter (\<lambda>(i, k, node). k = kind) by_id)"

section \<open>Edges\<close>

type_synonym multimap = "(string \<times> string list) list"

definition values_of :: "multimap \<Rightarrow> string \<Rightarrow> string list" where
  "values_of d k = (case map_of d k of None \<Rightarrow> [] | Some vs \<Rightarrow> vs)"

text \<open>\<open>d.setdefault(k, []).append(v)\<close> and \<open>d.setdefault(k, set()).add(v)\<close>.\<close>

definition append_value :: "string \<Rightarrow> string \<Rightarrow> multimap \<Rightarrow> multimap" where
  "append_value k v d = alist_set k (values_of d k @ [v]) d"

definition add_value :: "string \<Rightarrow> string \<Rightarrow> multimap \<Rightarrow> multimap" where
  "add_value k v d = alist_set k (if v \<in> set (values_of d k) then values_of d k else values_of d k @ [v]) d"

record edge_maps =
  owners :: multimap
  scoped :: multimap
  applies :: multimap

definition add_edge :: "node_index \<Rightarrow> py \<Rightarrow> edge_maps \<Rightarrow> kg_error + edge_maps" where
  "add_edge by_id v maps =
     (case v of
        PyDict edge \<Rightarrow>
          (case (dget edge ''type'', dget edge ''from'', dget edge ''to'') of
             (PyStr ty, PyStr source, PyStr target) \<Rightarrow>
               if source \<notin> fst ` set by_id \<or> target \<notin> fst ` set by_id
               then Inl (EdgeUnknownNode ty source target)
               else if ty = ''consists_of'' \<and> source \<in> set (ids_of by_id ''rules'')
               then Inr (maps\<lparr>owners := append_value target source (owners maps)\<rparr>)
               else if ty = ''scoped_to'' \<and> target \<in> set (ids_of by_id ''jurisdictions'')
               then Inr (maps\<lparr>scoped := add_value source target (scoped maps)\<rparr>)
               else if ty = ''applies_to'' \<and> source \<in> set (ids_of by_id ''rules'') \<and>
                       target \<in> set (ids_of by_id ''subjects'')
               then Inr (maps\<lparr>applies := add_value source target (applies maps)\<rparr>)
               else Inr maps
           | _ \<Rightarrow> Inl (EdgeFields v))
      | _ \<Rightarrow> Inl EdgeNotObject)"

definition read_edges :: "node_index \<Rightarrow> py list \<Rightarrow> kg_error + edge_maps" where
  "read_edges by_id edges = fold_err (add_edge by_id) edges \<lparr>owners = [], scoped = [], applies = []\<rparr>"

definition ruled :: "node_index \<Rightarrow> edge_maps \<Rightarrow> string list" where
  "ruled by_id maps =
     concat (map snd (filter (\<lambda>(target, rules). target \<in> set (ids_of by_id ''obligations'')) (owners maps)))"

definition empty_rules :: "node_index \<Rightarrow> edge_maps \<Rightarrow> string list" where
  "empty_rules by_id maps = sort (filter (\<lambda>r. r \<notin> set (ruled by_id maps)) (ids_of by_id ''rules''))"

section \<open>Jurisdictions\<close>

definition jurisdiction_children :: "node_index \<Rightarrow> multimap" where
  "jurisdiction_children by_id =
     fold (\<lambda>(i, k, node) d.
             if k = ''jurisdictions''
             then (case dget node ''parent'' of PyStr parent \<Rightarrow> add_value parent i d | _ \<Rightarrow> d)
             else d)
       by_id []"

text \<open>The loop of \<open>with_descendants\<close>; the head of the list is the top of the stack.\<close>

function descend :: "multimap \<Rightarrow> string list \<Rightarrow> string list \<Rightarrow> string list" where
  "descend children [] seen = seen"
| "descend children (current # stack) seen =
     (if current \<in> set seen then descend children stack seen
      else descend children (rev (values_of children current) @ stack) (current # seen))"
  by pat_completeness auto

lemma values_of_outside: "k \<notin> fst ` set d \<Longrightarrow> values_of d k = []"
  by (metis map_of_eq_None_iff option.simps(4) values_of_def)

lemma unseen_decreases:
  "k \<in> fst ` set (d :: multimap) \<Longrightarrow> k \<notin> set seen \<Longrightarrow>
   card (fst ` set d - insert k (set seen)) < card (fst ` set d - set seen)"
  by (intro psubset_card_mono) auto

termination descend
proof (relation "measures [\<lambda>(d, stack, seen). card (fst ` set d - set seen), \<lambda>(d, stack, seen). length stack]",
    goal_cases)
  case (3 d current stack seen)
  then show ?case
  proof (cases "current \<in> fst ` set d")
    case True
    with 3 unseen_decreases [OF True] show ?thesis by simp
  next
    case False
    then have "fst ` set d - insert current (set seen) = fst ` set d - set seen" by auto
    with False show ?thesis by (simp add: values_of_outside)
  qed
qed auto

definition with_descendants :: "multimap \<Rightarrow> string list \<Rightarrow> string list" where
  "with_descendants children roots = sort (descend children (rev roots) [])"

section \<open>Obligations\<close>

definition field_if :: "obj \<Rightarrow> string \<Rightarrow> string \<Rightarrow> obj" where
  "field_if node from_key to_key = (if dget node from_key \<noteq> PyNone then [(to_key, dget node from_key)] else [])"

definition declared_tiers :: "node_index \<Rightarrow> string list \<Rightarrow> string list" where
  "declared_tiers by_id rules =
     List.map_filter
       (\<lambda>r. case map_of by_id r of
              None \<Rightarrow> None
            | Some (k, node) \<Rightarrow>
                (case dget node ''risk_tier'' of
                   PyStr t \<Rightarrow> if map_of compile_tier_rank t \<noteq> None then Some t else None
                 | _ \<Rightarrow> None))
       rules"

text \<open>\<open>min(ranked, key=...)\<close>: the first of the least rank.\<close>

definition tier_key :: "string \<Rightarrow> nat" where
  "tier_key t = the (map_of compile_tier_rank t)"

definition stricter :: "string \<Rightarrow> string \<Rightarrow> string" where
  "stricter u best = (if tier_key u < tier_key best then u else best)"

definition strictest_declared :: "string list \<Rightarrow> string option" where
  "strictest_declared ranked =
     (case ranked of [] \<Rightarrow> None
      | t # ts \<Rightarrow> Some (fold stricter ts t))"

definition py_strings :: "string list \<Rightarrow> py" where
  "py_strings xs = PyList (map PyStr xs)"

definition compile_obligation ::
  "node_index \<Rightarrow> edge_maps \<Rightarrow> multimap \<Rightarrow> obj \<Rightarrow> kg_error + obj" where
  "compile_obligation by_id maps children node =
     (case (dget node ''id'', dget node ''metric'', dget node ''obligation_type'') of
        (PyStr ob_id, PyStr metric_name, PyStr ob_type) \<Rightarrow>
          (let rules_of = values_of (owners maps) ob_id;
               roots = remdups (values_of (scoped maps) ob_id @
                                concat (map (values_of (scoped maps)) rules_of));
               tier = strictest_declared (declared_tiers by_id rules_of)
           in Inr ([(''id'', PyStr ob_id), (''predicate'', PyStr ob_type)] @
                   concat (map (\<lambda>f. field_if node f f) copied_fields) @
                   field_if node ''effective_date_start'' ''effective_date'' @
                   field_if node ''effective_date_end'' ''sunset_date'' @
                   (if roots \<noteq> [] then [(''jurisdiction'', py_strings (with_descendants children roots))] else []) @
                   (case tier of None \<Rightarrow> [] | Some t \<Rightarrow> [(''risk_tier'', PyStr t)]) @
                   (if rules_of \<noteq> [] then
                      [(''rule_ids'', py_strings (sort rules_of))] @
                      (if list_all (\<lambda>r. r \<in> fst ` set (applies maps)) rules_of
                       then [(''subjects'', py_strings (sort (remdups (concat (map (values_of (applies maps)) rules_of)))))]
                       else [])
                    else [])))
      | (PyStr ob_id, _, _) \<Rightarrow> Inl (ObligationFields ob_id)
      | _ \<Rightarrow> Inl (NodeWithoutId ''obligations''))"

definition compile_step ::
  "node_index \<Rightarrow> edge_maps \<Rightarrow> multimap \<Rightarrow> obj \<Rightarrow> obj list \<Rightarrow> kg_error + obj list" where
  "compile_step by_id maps children node obs =
     (case compile_obligation by_id maps children node of Inl e \<Rightarrow> Inl e | Inr ob \<Rightarrow> Inr (obs @ [ob]))"

definition node_list :: "obj \<Rightarrow> string \<Rightarrow> obj list" where
  "node_list nodes kind =
     (case dget_default nodes kind (PyList []) of PyList xs \<Rightarrow> List.map_filter dict_of xs | _ \<Rightarrow> [])"

definition compile_graph :: "py \<Rightarrow> py \<Rightarrow> kg_error + obj list \<times> obj list" where
  "compile_graph nodes_v edges_v =
     (case nodes_v of
        PyDict nodes \<Rightarrow>
          (case edges_v of
             PyList edges \<Rightarrow>
               (let unknown = sort (filter (\<lambda>k. k \<notin> set node_kinds) (map fst nodes)) in
                if unknown \<noteq> [] then Inl (UnknownLists unknown)
                else (case index_nodes nodes of
                    Inl e \<Rightarrow> Inl e
                  | Inr by_id \<Rightarrow>
                      (case read_edges by_id edges of
                         Inl e \<Rightarrow> Inl e
                       | Inr maps \<Rightarrow>
                           if empty_rules by_id maps \<noteq> [] then Inl (EmptyRules (empty_rules by_id maps))
                           else (case fold_err (compile_step by_id maps (jurisdiction_children by_id))
                                        (node_list nodes ''obligations'') [] of
                               Inl e \<Rightarrow> Inl e
                             | Inr obs \<Rightarrow>
                                 if obs = [] then Inl NoObligations
                                 else Inr (obs, node_list nodes ''definitions'')))))
           | _ \<Rightarrow> Inl EdgesNotArray)
      | _ \<Rightarrow> Inl NodesNotObject)"

section \<open>The closure of jurisdictions\<close>

definition child_relation :: "multimap \<Rightarrow> (string \<times> string) set" where
  "child_relation d = {(x, y). y \<in> set (values_of d x)}"

lemma descend_contains: "set seen \<subseteq> set (descend d stack seen)" "set stack \<subseteq> set (descend d stack seen)"
  by (induction d stack seen rule: descend.induct) auto

lemma descend_closed:
  assumes "\<forall>x \<in> set seen. set (values_of d x) \<subseteq> set seen \<union> set stack"
  shows "\<forall>x \<in> set (descend d stack seen). set (values_of d x) \<subseteq> set (descend d stack seen)"
  using assms
proof (induction d stack seen rule: descend.induct)
  case (2 d current stack seen)
  show ?case
  proof (cases "current \<in> set seen")
    case True
    with 2 show ?thesis by (simp add: insert_absorb)
  next
    case False
    moreover have "\<forall>x \<in> set (current # seen). set (values_of d x) \<subseteq>
        set (current # seen) \<union> set (rev (values_of d current) @ stack)"
      using "2.prems" by auto
    ultimately show ?thesis using "2.IH"(2) by simp
  qed
qed simp

lemma descend_reachable:
  "set (descend d stack seen) \<subseteq> set seen \<union> (child_relation d)\<^sup>* `` set stack"
proof (induction d stack seen rule: descend.induct)
  case (2 d current stack seen)
  have "(child_relation d)\<^sup>* `` set (values_of d current) \<subseteq> (child_relation d)\<^sup>* `` {current}"
    by (auto simp: child_relation_def intro: converse_rtrancl_into_rtrancl)
  moreover have "(child_relation d)\<^sup>* `` set (rev (values_of d current) @ stack) =
      (child_relation d)\<^sup>* `` set (values_of d current) \<union> (child_relation d)\<^sup>* `` set stack"
    by auto
  moreover have "current \<in> (child_relation d)\<^sup>* `` {current}" by auto
  moreover have "(child_relation d)\<^sup>* `` set (current # stack) =
      (child_relation d)\<^sup>* `` {current} \<union> (child_relation d)\<^sup>* `` set stack"
    by auto
  ultimately show ?case
    using 2 by (cases "current \<in> set seen") (simp_all only: descend.simps if_True if_False list.set, blast+)
qed simp

lemma descend_set: "set (descend d stack []) = (child_relation d)\<^sup>* `` set stack"
proof
  show "set (descend d stack []) \<subseteq> (child_relation d)\<^sup>* `` set stack"
    using descend_reachable [of d stack "[]"] by simp
  have closed: "\<forall>x \<in> set (descend d stack []). set (values_of d x) \<subseteq> set (descend d stack [])"
    by (rule descend_closed) simp
  have "y \<in> set (descend d stack [])" if "x \<in> set (descend d stack [])" "(x, y) \<in> (child_relation d)\<^sup>*" for x y
    using that(2,1) by induction (use closed in \<open>auto simp: child_relation_def\<close>)
  then show "(child_relation d)\<^sup>* `` set stack \<subseteq> set (descend d stack [])"
    using descend_contains(2) [of stack d "[]"] by blast
qed

lemma descend_distinct: "distinct seen \<Longrightarrow> distinct (descend d stack seen)"
  by (induction d stack seen rule: descend.induct) auto

section \<open>The index of nodes\<close>

definition node_id_of :: "obj \<Rightarrow> string" where
  "node_id_of node = (case dget node ''id'' of PyStr i \<Rightarrow> i | _ \<Rightarrow> [])"

definition node_entry :: "string \<Rightarrow> obj \<Rightarrow> string \<times> (string \<times> obj)" where
  "node_entry kind node = (node_id_of node, (kind, node))"

lemma add_node_Inr:
  "add_node kind v by_id = Inr b \<longleftrightarrow>
   (\<exists>node i. v = PyDict node \<and> dget node ''id'' = PyStr i \<and> i \<noteq> [] \<and> i \<notin> fst ` set by_id \<and>
      b = by_id @ [node_entry kind node])"
  by (auto simp: add_node_def node_entry_def node_id_of_def split: py.splits if_splits)

lemma add_nodes_Inr:
  "fold_err (add_node kind) items by_id = Inr b \<Longrightarrow>
   b = by_id @ map (node_entry kind) (List.map_filter dict_of items) \<and>
   (distinct (map fst by_id) \<longrightarrow> distinct (map fst b)) \<and>
   (\<forall>node \<in> set (List.map_filter dict_of items). dget node ''id'' = PyStr (node_id_of node))"
proof (induction items arbitrary: by_id)
  case (Cons v items)
  then obtain t where t: "add_node kind v by_id = Inr t" "fold_err (add_node kind) items t = Inr b"
    by (auto split: sum.splits)
  then obtain node i where v: "v = PyDict node" "dget node ''id'' = PyStr i" "i \<notin> fst ` set by_id"
      "t = by_id @ [node_entry kind node]"
    by (auto simp: add_node_Inr)
  have step: "List.map_filter dict_of (v # items) = node # List.map_filter dict_of items"
    "node_id_of node = i" "fst (node_entry kind node) = i"
    using v by (simp_all add: map_filter_simps node_id_of_def node_entry_def)
  from Cons.IH [OF t(2)] have ih: "b = t @ map (node_entry kind) (List.map_filter dict_of items)"
    "distinct (map fst t) \<longrightarrow> distinct (map fst b)"
    "\<forall>node \<in> set (List.map_filter dict_of items). dget node ''id'' = PyStr (node_id_of node)"
    by blast+
  have "distinct (map fst by_id) \<longrightarrow> distinct (map fst t)"
    using v step by simp
  with ih v step show ?case by (intro conjI) (simp, blast, simp)
qed (simp add: map_filter_simps)

lemma add_kinds_Inr:
  "fold_err (add_kind nodes) kinds by_id = Inr b \<Longrightarrow>
   b = by_id @ concat (map (\<lambda>kind. map (node_entry kind) (node_list nodes kind)) kinds) \<and>
   (distinct (map fst by_id) \<longrightarrow> distinct (map fst b)) \<and>
   (\<forall>kind \<in> set kinds. \<forall>node \<in> set (node_list nodes kind). dget node ''id'' = PyStr (node_id_of node))"
proof (induction kinds arbitrary: by_id)
  case (Cons kind kinds)
  then obtain t where t: "add_kind nodes kind by_id = Inr t" "fold_err (add_kind nodes) kinds t = Inr b"
    by (auto split: sum.splits)
  then obtain items where items: "dget_default nodes kind (PyList []) = PyList items"
      "fold_err (add_node kind) items by_id = Inr t"
    by (auto simp: add_kind_def split: py.splits)
  have nl: "node_list nodes kind = List.map_filter dict_of items"
    using items(1) by (simp add: node_list_def)
  show ?case
  proof (intro conjI)
    show "b = by_id @ concat (map (\<lambda>kind. map (node_entry kind) (node_list nodes kind)) (kind # kinds))"
      using add_nodes_Inr [OF items(2)] Cons.IH [OF t(2)] by (simp add: nl)
    show "distinct (map fst by_id) \<longrightarrow> distinct (map fst b)"
      using add_nodes_Inr [OF items(2)] Cons.IH [OF t(2)] by blast
    show "\<forall>k \<in> set (kind # kinds). \<forall>node \<in> set (node_list nodes k). dget node ''id'' = PyStr (node_id_of node)"
      using add_nodes_Inr [OF items(2)] Cons.IH [OF t(2)] nl by (metis set_ConsD)
  qed
qed simp

lemma index_nodes_Inr:
  assumes "index_nodes nodes = Inr by_id"
  shows "by_id = concat (map (\<lambda>kind. map (node_entry kind) (node_list nodes kind)) node_kinds)"
    and "distinct (map fst by_id)"
    and "kind \<in> set node_kinds \<Longrightarrow> node \<in> set (node_list nodes kind) \<Longrightarrow> dget node ''id'' = PyStr (node_id_of node)"
  using add_kinds_Inr [OF assms [unfolded index_nodes_def]] by auto

lemma ids_of_index:
  assumes "index_nodes nodes = Inr by_id"
  shows "kind \<in> set node_kinds \<Longrightarrow> ids_of by_id kind = map node_id_of (node_list nodes kind)"
  unfolding index_nodes_Inr(1) [OF assms] ids_of_def node_kinds_def
  by (auto simp: node_entry_def filter_map comp_def)

lemma distinct_obligation_ids:
  assumes "index_nodes nodes = Inr by_id"
  shows "distinct (map node_id_of (node_list nodes ''obligations''))"
proof -
  have "distinct (ids_of by_id ''obligations'')"
    unfolding ids_of_def using index_nodes_Inr(2) [OF assms] by (rule distinct_map_filter)
  then show ?thesis using ids_of_index [OF assms] by (simp add: node_kinds_def)
qed

section \<open>The compiled obligations\<close>

lemma compile_steps_Inr:
  "fold_err (compile_step by_id maps children) nodes obs0 = Inr obs \<Longrightarrow>
   \<exists>new. obs = obs0 @ new \<and> list_all2 (\<lambda>node ob. compile_obligation by_id maps children node = Inr ob) nodes new"
proof (induction nodes arbitrary: obs0)
  case (Cons node nodes)
  then obtain ob where ob: "compile_obligation by_id maps children node = Inr ob"
      "fold_err (compile_step by_id maps children) nodes (obs0 @ [ob]) = Inr obs"
    using compile_step_def [of by_id maps children node obs0] by (auto split: sum.splits)
  from Cons.IH [OF ob(2)] obtain new where
    "obs = (obs0 @ [ob]) @ new" "list_all2 (\<lambda>node ob. compile_obligation by_id maps children node = Inr ob) nodes new"
    by blast
  with ob(1) show ?case by (intro exI [of _ "ob # new"]) simp
qed simp

lemma compile_obligation_shape:
  assumes "compile_obligation by_id maps children node = Inr ob"
  obtains i p name rest where
    "dget node ''id'' = PyStr i" "dget node ''obligation_type'' = PyStr p" "dget node ''metric'' = PyStr name"
    "ob = (''id'', PyStr i) # (''predicate'', PyStr p) # (''metric'', PyStr name) # rest"
proof -
  obtain i where i: "dget node ''id'' = PyStr i"
    using assms by (cases "dget node ''id''") (simp_all add: compile_obligation_def)
  moreover obtain name where name: "dget node ''metric'' = PyStr name"
    using assms i by (cases "dget node ''metric''") (simp_all add: compile_obligation_def)
  moreover obtain p where p: "dget node ''obligation_type'' = PyStr p"
    using assms i name by (cases "dget node ''obligation_type''") (simp_all add: compile_obligation_def)
  moreover have "\<exists>rest. ob = (''id'', PyStr i) # (''predicate'', PyStr p) # (''metric'', PyStr name) # rest"
    using assms i name p by (clarsimp simp: compile_obligation_def Let_def copied_fields_def field_if_def)
  ultimately show thesis using that by blast
qed

lemma compile_obligation_fields:
  assumes "compile_obligation by_id maps children node = Inr ob"
  shows "dget ob ''id'' = PyStr (node_id_of node)"
    and "dget ob ''predicate'' = dget node ''obligation_type''" and "is_str (dget node ''obligation_type'')"
    and "dget ob ''metric'' = dget node ''metric''" and "is_str (dget node ''metric'')"
  using assms by (rule compile_obligation_shape; simp add: node_id_of_def dget_def)+

lemma compile_graph_Inr:
  assumes "compile_graph nodes_v edges_v = Inr (obs, defs)"
  obtains nodes edges by_id maps where
    "nodes_v = PyDict nodes" "edges_v = PyList edges" "index_nodes nodes = Inr by_id"
    "read_edges by_id edges = Inr maps" "empty_rules by_id maps = []" "obs \<noteq> []"
    "list_all2 (\<lambda>node ob. compile_obligation by_id maps (jurisdiction_children by_id) node = Inr ob)
       (node_list nodes ''obligations'') obs"
    "defs = node_list nodes ''definitions''"
proof -
  from assms obtain nodes edges by_id maps where *:
    "nodes_v = PyDict nodes" "edges_v = PyList edges" "index_nodes nodes = Inr by_id"
    "read_edges by_id edges = Inr maps" "empty_rules by_id maps = []" "obs \<noteq> []"
    "fold_err (compile_step by_id maps (jurisdiction_children by_id)) (node_list nodes ''obligations'') [] = Inr obs"
    "defs = node_list nodes ''definitions''"
    by (auto simp: compile_graph_def Let_def split: py.splits sum.splits if_splits)
  with compile_steps_Inr [OF *(7)] that show thesis by simp
qed

lemma compiled_ids:
  assumes "compile_graph nodes_v edges_v = Inr (obs, defs)"
  shows "distinct (map (\<lambda>ob. dget ob ''id'') obs)"
    and "ob \<in> set obs \<Longrightarrow> \<exists>i p name. dget ob ''id'' = PyStr i \<and> dget ob ''predicate'' = PyStr p \<and> dget ob ''metric'' = PyStr name"
proof -
  from assms obtain nodes edges by_id maps where *:
    "index_nodes nodes = Inr by_id"
    "list_all2 (\<lambda>node ob. compile_obligation by_id maps (jurisdiction_children by_id) node = Inr ob)
       (node_list nodes ''obligations'') obs"
    by (rule compile_graph_Inr)
  have "map (\<lambda>ob. dget ob ''id'') obs = map (PyStr \<circ> node_id_of) (node_list nodes ''obligations'')"
    using *(2) by (induction rule: list_all2_induct) (auto simp: compile_obligation_fields)
  also have "\<dots> = map PyStr (map node_id_of (node_list nodes ''obligations''))" by simp
  finally show "distinct (map (\<lambda>ob. dget ob ''id'') obs)"
    using distinct_obligation_ids [OF *(1)] by (simp add: distinct_map inj_on_def)
  assume "ob \<in> set obs"
  with *(2) obtain node where "compile_obligation by_id maps (jurisdiction_children by_id) node = Inr ob"
    by (auto simp: list_all2_conv_all_nth in_set_conv_nth)
  from compile_obligation_fields [OF this]
  show "\<exists>i p name. dget ob ''id'' = PyStr i \<and> dget ob ''predicate'' = PyStr p \<and> dget ob ''metric'' = PyStr name"
    by (auto simp: is_str_iff)
qed

section \<open>Facts on the pieces of an obligation\<close>

lemma ruled_iff:
  "r \<in> set (ruled by_id maps) \<longleftrightarrow>
   (\<exists>target rules. (target, rules) \<in> set (owners maps) \<and> target \<in> set (ids_of by_id ''obligations'') \<and> r \<in> set rules)"
  by (auto simp: ruled_def)

lemma empty_rules_Nil:
  "empty_rules by_id maps = [] \<longleftrightarrow> set (ids_of by_id ''rules'') \<subseteq> set (ruled by_id maps)"
proof -
  have "empty_rules by_id maps = [] \<longleftrightarrow> filter (\<lambda>r. r \<notin> set (ruled by_id maps)) (ids_of by_id ''rules'') = []"
    unfolding empty_rules_def by (metis set_empty set_sort)
  then show ?thesis by (auto simp: filter_empty_conv)
qed

lemma fold_stricter:
  "fold stricter ts t \<in> insert t (set ts) \<and> (\<forall>u \<in> insert t (set ts). tier_key (fold stricter ts t) \<le> tier_key u)"
proof (induction ts arbitrary: t)
  case (Cons v ts)
  have "tier_key (stricter v t) \<le> tier_key t" "tier_key (stricter v t) \<le> tier_key v" "stricter v t \<in> {v, t}"
    by (auto simp: stricter_def)
  with Cons [of "stricter v t"] show ?case by (auto intro: order_trans)
qed simp

lemma strictest_declared_Some:
  assumes "strictest_declared ranked = Some best"
  shows "best \<in> set ranked" and "\<forall>t \<in> set ranked. tier_key best \<le> tier_key t"
  using assms fold_stricter by (auto simp: strictest_declared_def split: list.splits)

section \<open>Properties\<close>

text \<open>
  A graph that compiles yields, in the order of its Obligation nodes, one obligation per node
  with the node's id, metric and obligation type, all of them text, the ids pairwise different and at
  least one obligation; and every Rule owns an Obligation.
\<close>

theorem compile_graph_obligations:
  assumes "compile_graph (PyDict nodes) edges = Inr (obs, defs)"
  shows "obs \<noteq> [] \<and> distinct (map (\<lambda>ob. dget ob ''id'') obs) \<and>
    list_all2 (\<lambda>node ob. dget ob ''id'' = dget node ''id'' \<and> dget ob ''metric'' = dget node ''metric'' \<and>
        dget ob ''predicate'' = dget node ''obligation_type'' \<and>
        is_str (dget ob ''id'') \<and> is_str (dget ob ''metric'') \<and> is_str (dget ob ''predicate''))
      (node_list nodes ''obligations'') obs \<and>
    (\<exists>by_id maps. index_nodes nodes = Inr by_id \<and> set (ids_of by_id ''rules'') \<subseteq> set (ruled by_id maps))"
proof -
  from assms obtain by_id maps where *: "index_nodes nodes = Inr by_id" "empty_rules by_id maps = []" "obs \<noteq> []"
    "list_all2 (\<lambda>node ob. compile_obligation by_id maps (jurisdiction_children by_id) node = Inr ob)
       (node_list nodes ''obligations'') obs"
    by (rule compile_graph_Inr) auto
  have "list_all2 (\<lambda>node ob. dget ob ''id'' = dget node ''id'' \<and> dget ob ''metric'' = dget node ''metric'' \<and>
        dget ob ''predicate'' = dget node ''obligation_type'' \<and>
        is_str (dget ob ''id'') \<and> is_str (dget ob ''metric'') \<and> is_str (dget ob ''predicate''))
      (node_list nodes ''obligations'') obs"
    using *(4) by (rule list_all2_mono) (erule compile_obligation_shape, simp add: dget_def)
  with * compiled_ids(1) [OF assms] empty_rules_Nil show ?thesis by blast
qed

definition sample_nodes :: "obj list \<Rightarrow> obj" where
  "sample_nodes rules =
     [(''rules'', PyList (map PyDict rules)),
      (''obligations'', PyList [PyDict [(''id'', PyStr ''ob1''), (''metric'', PyStr ''nox''),
          (''obligation_type'', PyStr ''must_not_exceed''), (''value'', PyInt 100)]])]"

definition sample_rule :: "string \<Rightarrow> string option \<Rightarrow> obj" where
  "sample_rule i tier = (''id'', PyStr i) # (case tier of None \<Rightarrow> [] | Some t \<Rightarrow> [(''risk_tier'', PyStr t)])"

definition owns :: "string \<Rightarrow> py" where
  "owns i = PyDict [(''type'', PyStr ''consists_of''), (''from'', PyStr i), (''to'', PyStr ''ob1'')]"

theorem compile_graph_obligations_witness:
  "\<exists>obs. map_sum id fst (compile_graph (PyDict (sample_nodes [sample_rule ''r1'' None])) (PyList [owns ''r1''])) = Inr obs
     \<and> obs \<noteq> []"
proof -
  let ?run = "compile_graph (PyDict (sample_nodes [sample_rule ''r1'' None])) (PyList [owns ''r1''])"
  have "case ?run of Inl e \<Rightarrow> False | Inr r \<Rightarrow> True" by code_simp
  then obtain obs defs where "?run = Inr (obs, defs)" by (cases ?run) auto
  then show ?thesis using compile_graph_obligations by fastforce
qed

text \<open>
  The jurisdictions of a compiled obligation are exactly those its edges name together with
  everything below them in the \<open>parent\<close> hierarchy, in sorted order and without repetition; the loop ends
  on a hierarchy with cycles too.
\<close>

theorem with_descendants_is_closure:
  "set (with_descendants children roots) = (child_relation children)\<^sup>* `` set roots \<and>
   sorted (with_descendants children roots) \<and> distinct (with_descendants children roots)"
  by (simp add: with_descendants_def descend_set descend_distinct)

text \<open>
  The tier of a compiled obligation is the strictest that its Rules declare, and only the
  declared ones count: with one Rule \<open>low\<close> and a second Rule that declares nothing, or a misspelt tier,
  the obligation is compiled as \<open>low\<close>.
\<close>

theorem undeclared_tier_is_ignored:
  "let tier_of = \<lambda>second. map_sum id (\<lambda>(obs, defs). map (\<lambda>ob. dget ob ''risk_tier'') obs)
         (compile_graph (PyDict (sample_nodes [sample_rule ''r1'' (Some ''low''), sample_rule ''r2'' second]))
            (PyList [owns ''r1'', owns ''r2'']))
   in tier_of None = Inr [PyStr ''low''] \<and> tier_of (Some ''critical'') = Inr [PyStr ''low''] \<and>
      tier_of (Some ''high'') = Inr [PyStr ''high'']"
  by code_simp

end
