(* ===== verification/KG_Loader.thy ===== *)
theory KG_Loader
  imports KG_Graph Verifier Risk_Policy "HOL-Library.Word"
begin

text \<open>
  The Knowledge Graph loader (\<open>ski_model/kg_loader.py\<close>): trust anchors, the signature policy, loading a
  signed document, and scoping a loaded graph to a jurisdiction, a time and a subject.

  Cryptography and serialisation are parameters: \<open>crypto\<close> holds PEM parsing, the key id and Ed25519
  verification, \<open>codec\<close> the canonical bytes and digests of JSON values and the conversion of a flat
  document, \<open>calendar\<close> the parser of ISO dates.
\<close>

type_synonym bytes = "8 word list"

section \<open>Text search\<close>

text \<open>\<open>text.find(sub, pos)\<close> for a non-empty \<open>sub\<close>.\<close>

definition find_from :: "string \<Rightarrow> string \<Rightarrow> nat \<Rightarrow> nat option" where
  "find_from sub s pos = find (\<lambda>i. take (length sub) (drop i s) = sub) [pos..<length s]"

lemma find_from_Some:
  assumes "find_from sub s pos = Some i" and "sub \<noteq> []"
  shows "pos \<le> i \<and> i + length sub \<le> length s"
proof
  from assms(1) have i: "i \<in> set [pos..<length s]" "take (length sub) (drop i s) = sub"
    by (auto simp: find_from_def find_Some_iff)
  then show "pos \<le> i" by simp
  from i(2) have "length (take (length sub) (drop i s)) = length sub" by simp
  then have "length sub \<le> length s - i" by simp
  moreover have "i < length s" using i(1) by simp
  ultimately show "i + length sub \<le> length s" by simp
qed

section \<open>Trust anchors\<close>

datatype public_key = Ed25519 nat | OtherKey

record crypto =
  load_pem :: "string \<Rightarrow> public_key option"
  key_id :: "nat \<Rightarrow> string"
  verifies :: "nat \<Rightarrow> bytes \<Rightarrow> bytes \<Rightarrow> bool"

record trust_anchor =
  anchor_key_id :: string
  anchor_key :: nat

datatype load_error =
    MalformedBegin
  | MissingEnd string
  | ForbiddenBlock string
  | MalformedKey
  | NotEd25519Anchor
  | EmptyBundle
  | UnreadableBundle
  | MetadataNotObject
  | SignatureNotObject
  | GraphError kg_error
  | FlatRulesMissing
  | TagRegistryNotObject
  | FlatError string
  | NoSignature
  | UnsignedWithAnchors
  | UnsupportedAlgorithm py
  | NoTrustAnchors
  | SignatureIncomplete
  | SignatureNotText
  | BadPem
  | NotEd25519
  | BadHex
  | NotAnAnchor string
  | AnchorVerificationFailed string
  | VerificationFailed

function pem_blocks :: "string \<Rightarrow> nat \<Rightarrow> load_error + (string \<times> string) list" where
  "pem_blocks s pos =
     (case find_from ''-----BEGIN '' s pos of
        None \<Rightarrow> Inr []
      | Some b \<Rightarrow>
          (case find_from ''-----'' s (b + 11) of
             None \<Rightarrow> Inl MalformedBegin
           | Some label_end \<Rightarrow>
               (let label = take (label_end - (b + 11)) (drop (b + 11) s);
                    marker = ''-----END '' @ label @ ''-----''
                in case find_from marker s label_end of
                     None \<Rightarrow> Inl (MissingEnd label)
                   | Some e \<Rightarrow>
                       (let next_pos = e + length marker in
                        case pem_blocks s next_pos of
                          Inl err \<Rightarrow> Inl err
                        | Inr rest \<Rightarrow> Inr ((label, take (next_pos - b) (drop b s)) # rest)))))"
  by pat_completeness auto

termination pem_blocks
  by (relation "measure (\<lambda>(s, pos). Suc (length s) - pos)") (auto dest!: find_from_Some)

declare pem_blocks.simps [simp del]

definition add_anchor ::
  "crypto \<Rightarrow> string \<times> string \<Rightarrow> (string \<times> trust_anchor) list \<Rightarrow> load_error + (string \<times> trust_anchor) list" where
  "add_anchor cr = (\<lambda>(label, block) anchors.
     (if label \<noteq> ''PUBLIC KEY'' then Inl (ForbiddenBlock label)
      else (case load_pem cr block of
          None \<Rightarrow> Inl MalformedKey
        | Some OtherKey \<Rightarrow> Inl NotEd25519Anchor
        | Some (Ed25519 k) \<Rightarrow>
            Inr (alist_setdefault (key_id cr k) \<lparr>anchor_key_id = key_id cr k, anchor_key = k\<rparr> anchors))))"

definition parse_trust_anchor_bundle :: "crypto \<Rightarrow> string \<Rightarrow> load_error + trust_anchor list" where
  "parse_trust_anchor_bundle cr pem =
     (case pem_blocks pem 0 of
        Inl e \<Rightarrow> Inl e
      | Inr blocks \<Rightarrow>
          (case fold_err (add_anchor cr) blocks [] of
             Inl e \<Rightarrow> Inl e
           | Inr anchors \<Rightarrow> if anchors = [] then Inl EmptyBundle else Inr (map snd anchors)))"

record trust_policy =
  anchors :: "trust_anchor list"
  allow_unanchored :: bool

definition anchor_for :: "trust_policy \<Rightarrow> string \<Rightarrow> trust_anchor option" where
  "anchor_for p kid = find (\<lambda>a. anchor_key_id a = kid) (anchors p)"

definition env_get :: "(string \<times> string) list \<Rightarrow> string \<Rightarrow> string" where
  "env_get env k = (case map_of env k of None \<Rightarrow> [] | Some v \<Rightarrow> v)"

definition env_true :: "(string \<times> string) list \<Rightarrow> string \<Rightarrow> bool" where
  "env_true env k = (py_lower (py_strip (env_get env k)) = ''true'')"

definition policy_from_env ::
  "crypto \<Rightarrow> (string \<Rightarrow> string option) \<Rightarrow> (string \<times> string) list \<Rightarrow> load_error + trust_policy" where
  "policy_from_env cr read_file env =
     (let allow = env_true env ''SKI_KG_ALLOW_UNANCHORED'';
          path = py_strip (env_get env ''SKI_KG_TRUST_ANCHORS'')
      in
      if path = [] then Inr \<lparr>anchors = [], allow_unanchored = allow\<rparr>
      else (case read_file path of
          None \<Rightarrow> Inl UnreadableBundle
        | Some pem \<Rightarrow>
            (case parse_trust_anchor_bundle cr pem of
               Inl e \<Rightarrow> Inl e
             | Inr as \<Rightarrow> Inr \<lparr>anchors = as, allow_unanchored = False\<rparr>)))"

section \<open>The signature\<close>

text \<open>\<open>bytes.fromhex\<close>: pairs of hex digits, ASCII whitespace allowed between the pairs.\<close>

definition hex_space :: "char \<Rightarrow> bool" where
  "hex_space c = (let n = (of_char c :: nat) in (9 \<le> n \<and> n \<le> 13) \<or> n = 32)"

definition hex_digit :: "char \<Rightarrow> nat option" where
  "hex_digit c =
     (let n = (of_char c :: nat) in
      if 48 \<le> n \<and> n \<le> 57 then Some (n - 48)
      else if 97 \<le> n \<and> n \<le> 102 then Some (n - 87)
      else if 65 \<le> n \<and> n \<le> 70 then Some (n - 55)
      else None)"

fun from_hex :: "string \<Rightarrow> bytes option" where
  "from_hex [] = Some []"
| "from_hex [c] = (if hex_space c then Some [] else None)"
| "from_hex (c # d # cs) =
     (if hex_space c then from_hex (d # cs)
      else (case (hex_digit c, hex_digit d) of
          (Some h, Some l) \<Rightarrow> map_option (\<lambda>bs. of_nat (16 * h + l) # bs) (from_hex cs)
        | _ \<Rightarrow> None))"

datatype kg_trust_level = Anchored | Unanchored | Unsigned

definition verify_signature ::
  "crypto \<Rightarrow> bytes \<Rightarrow> obj \<Rightarrow> trust_policy \<Rightarrow> load_error + string \<times> kg_trust_level" where
  "verify_signature cr canonical signature policy =
     (let algorithm = dget signature ''algorithm'' in
      if \<not> py_eq algorithm (PyStr ''ed25519'') then Inl (UnsupportedAlgorithm algorithm)
      else if anchors policy = [] \<and> \<not> allow_unanchored policy then Inl NoTrustAnchors
      else if \<not> truthy (dget signature ''public_key_pem'') \<or> \<not> truthy (dget signature ''value_hex'')
      then Inl SignatureIncomplete
      else (case (dget signature ''public_key_pem'', dget signature ''value_hex'') of
          (PyStr pem, PyStr hex) \<Rightarrow>
            (case load_pem cr pem of
               None \<Rightarrow> Inl BadPem
             | Some OtherKey \<Rightarrow> Inl NotEd25519
             | Some (Ed25519 embedded) \<Rightarrow>
                 (case from_hex hex of
                    None \<Rightarrow> Inl BadHex
                  | Some sig \<Rightarrow>
                      if anchors policy \<noteq> [] then
                        (case anchor_for policy (key_id cr embedded) of
                           None \<Rightarrow> Inl (NotAnAnchor (key_id cr embedded))
                         | Some anchor \<Rightarrow>
                             if verifies cr (anchor_key anchor) sig canonical
                             then Inr (anchor_key_id anchor, Anchored)
                             else Inl (AnchorVerificationFailed (anchor_key_id anchor)))
                      else if verifies cr embedded sig canonical
                      then Inr (key_id cr embedded, Unanchored)
                      else Inl VerificationFailed))
        | _ \<Rightarrow> Inl SignatureNotText))"

section \<open>Loading\<close>

record codec =
  canonical_bytes :: "obj \<Rightarrow> bytes"
  flat_json_bytes :: "obj \<Rightarrow> bytes"
  canonical_digest :: "obj \<Rightarrow> string"
  flat_graph :: "obj \<Rightarrow> string + py \<times> py"
  value_text :: "py \<Rightarrow> string"

definition or_else :: "py \<Rightarrow> py \<Rightarrow> py" where
  "or_else v w = (if truthy v then v else w)"

definition signing_bytes :: "codec \<Rightarrow> obj \<Rightarrow> bytes" where
  "signing_bytes co data =
     (let md = or_else (dget data ''metadata'') (PyDict []) in
      if is_graph_kg data
      then canonical_bytes co [(''metadata'', md), (''nodes'', dget data ''nodes''), (''edges'', dget data ''edges'')]
      else flat_json_bytes co [(''metadata'', md), (''rules'', or_else (dget data ''rules'') (PyList [])),
             (''tag_registry'', or_else (dget data ''tag_registry'') (PyDict []))])"

record knowledge_graph =
  kg_version :: string
  kg_rules :: "obj list"
  kg_tag_registry :: obj
  kg_metadata :: obj
  signature_verified :: bool
  signer_key_id :: "string option"
  kg_trust_of :: kg_trust_level
  kg_definitions :: "obj list option"
  legacy_version_hash :: "string option"

text \<open>What the two shapes of a document yield: version, obligations, definitions, registry, legacy hash.\<close>

definition read_graph ::
  "codec \<Rightarrow> obj \<Rightarrow> obj \<Rightarrow> load_error + string \<times> obj list \<times> obj list \<times> obj \<times> string option" where
  "read_graph co data md =
     (case compile_graph (dget data ''nodes'') (dget data ''edges'') of
        Inl e \<Rightarrow> Inl (GraphError e)
      | Inr (rules, defs) \<Rightarrow>
          Inr (value_text co (or_else (or_else (dget md ''version'') (dget md ''name'')) (PyStr ''unknown'')),
               rules, defs, [], None))"

definition read_flat ::
  "codec \<Rightarrow> obj \<Rightarrow> obj \<Rightarrow> load_error + string \<times> obj list \<times> obj list \<times> obj \<times> string option" where
  "read_flat co data md =
     (case or_else (dget data ''rules'') (PyList []) of
        PyList flat_rules \<Rightarrow>
          if flat_rules = [] then Inl FlatRulesMissing
          else (case or_else (dget data ''tag_registry'') (PyDict []) of
              PyDict registry \<Rightarrow>
                (let version_text = value_text co (dget_default md ''version'' (PyStr ''unknown'')) in
                 case flat_graph co data of
                   Inl e \<Rightarrow> Inl (FlatError e)
                 | Inr (nodes, edges) \<Rightarrow>
                     (case compile_graph nodes edges of
                        Inl e \<Rightarrow> Inl (GraphError e)
                      | Inr (rules, defs) \<Rightarrow>
                          Inr (version_text, rules, defs, registry,
                               Some (canonical_digest co
                                 [(''version'', PyStr version_text), (''rules'', PyList flat_rules),
                                  (''tag_registry'', PyDict registry)]))))
            | _ \<Rightarrow> Inl TagRegistryNotObject)
      | _ \<Rightarrow> Inl FlatRulesMissing)"

definition trust_of ::
  "crypto \<Rightarrow> codec \<Rightarrow> obj \<Rightarrow> py \<Rightarrow> bool \<Rightarrow> trust_policy \<Rightarrow> load_error + string option \<times> kg_trust_level" where
  "trust_of cr co data signature require_signature policy =
     (case signature of
        PyDict d \<Rightarrow>
          if d \<noteq> [] then
            (case verify_signature cr (signing_bytes co data) d policy of
               Inl e \<Rightarrow> Inl e
             | Inr (kid, level) \<Rightarrow> Inr (Some kid, level))
          else if require_signature then Inl NoSignature
          else if anchors policy \<noteq> [] then Inl UnsignedWithAnchors
          else Inr (None, Unsigned)
      | _ \<Rightarrow>
          if require_signature then Inl NoSignature
          else if anchors policy \<noteq> [] then Inl UnsignedWithAnchors
          else Inr (None, Unsigned))"

definition from_dict ::
  "crypto \<Rightarrow> codec \<Rightarrow> obj \<Rightarrow> bool \<Rightarrow> trust_policy \<Rightarrow> load_error + knowledge_graph" where
  "from_dict cr co data require_signature policy =
     (case or_else (dget data ''metadata'') (PyDict []) of
        PyDict md \<Rightarrow>
          (let signature = dget data ''signature'' in
           if signature \<noteq> PyNone \<and> \<not> is_dict signature then Inl SignatureNotObject
           else (case (if is_graph_kg data then read_graph co data md else read_flat co data md) of
               Inl e \<Rightarrow> Inl e
             | Inr (version_text, rules, defs, registry, legacy) \<Rightarrow>
                 (case trust_of cr co data signature require_signature policy of
                    Inl e \<Rightarrow> Inl e
                  | Inr (kid, level) \<Rightarrow>
                      Inr \<lparr>kg_version = version_text, kg_rules = rules, kg_tag_registry = registry,
                           kg_metadata = md, signature_verified = (level = Anchored),
                           signer_key_id = kid, kg_trust_of = level, kg_definitions = Some defs,
                           legacy_version_hash = legacy\<rparr>)))
      | _ \<Rightarrow> Inl MetadataNotObject)"

section \<open>Scoping\<close>

text \<open>
  \<open>datetime.fromisoformat\<close> yields an aware time (microseconds) or a naive one, which cannot be compared
  with an aware one (\<open>TypeError\<close>).
\<close>

datatype iso_time = Aware int | Naive

record calendar =
  from_iso :: "string \<Rightarrow> iso_time option"
  iso_format :: "int \<Rightarrow> string"

definition replace_Z :: "string \<Rightarrow> string" where
  "replace_Z s = concat (map (\<lambda>c. if c = CHR ''Z'' then ''+00:00'' else [c]) s)"

definition parse_iso_date :: "calendar \<Rightarrow> py \<Rightarrow> iso_time option" where
  "parse_iso_date cal v =
     (case v of
        PyStr s \<Rightarrow>
          if s = [] then None
          else if CHR ''T'' \<in> set s then from_iso cal (replace_Z s)
          else from_iso cal (s @ ''T00:00:00+00:00'')
      | _ \<Rightarrow> None)"

text \<open>Is the parsed date after (before) the time? \<open>Inl\<close> where Python raises.\<close>

definition compare_iso :: "(int \<Rightarrow> bool) \<Rightarrow> iso_time option \<Rightarrow> unit + bool" where
  "compare_iso test d = (case d of None \<Rightarrow> Inr False | Some (Aware t) \<Rightarrow> Inr (test t) | Some Naive \<Rightarrow> Inl ())"

definition universal_jurisdictions :: "string list" where
  "universal_jurisdictions = [''global'', ''*'', '''']"

definition normalised_jurisdiction :: "string \<Rightarrow> string" where
  "normalised_jurisdiction s = py_lower (py_strip s)"

definition jurisdiction_matches :: "py \<Rightarrow> string option \<Rightarrow> bool" where
  "jurisdiction_matches rule_jurisdiction wanted =
     (case wanted of
        None \<Rightarrow> True
      | Some w \<Rightarrow>
          (let ok = (\<lambda>s. let n = normalised_jurisdiction s in
                         n \<in> set universal_jurisdictions \<or> n = normalised_jurisdiction w)
           in case rule_jurisdiction of
                PyNone \<Rightarrow> True
              | PyStr s \<Rightarrow> ok s
              | PyList items \<Rightarrow> list_ex (\<lambda>v. case v of PyStr s \<Rightarrow> ok s | _ \<Rightarrow> False) items
              | _ \<Rightarrow> False))"

definition rule_is_in_scope :: "calendar \<Rightarrow> obj \<Rightarrow> string option \<Rightarrow> int \<Rightarrow> unit + bool" where
  "rule_is_in_scope cal r jurisdiction as_of =
     (case compare_iso (\<lambda>t. t > as_of) (parse_iso_date cal (dget r ''effective_date'')) of
        Inl e \<Rightarrow> Inl e
      | Inr True \<Rightarrow> Inr False
      | Inr False \<Rightarrow>
          (case compare_iso (\<lambda>t. t < as_of) (parse_iso_date cal (dget r ''sunset_date'')) of
             Inl e \<Rightarrow> Inl e
           | Inr True \<Rightarrow> Inr False
           | Inr False \<Rightarrow> Inr (jurisdiction_matches (dget r ''jurisdiction'') jurisdiction)))"

definition subject_matches :: "obj \<Rightarrow> string option \<Rightarrow> bool" where
  "subject_matches r subject =
     (case subject of
        None \<Rightarrow> True
      | Some s \<Rightarrow>
          \<not> has_key r ''subjects'' \<or>
          (case seq_items (dget r ''subjects'') of None \<Rightarrow> False | Some xs \<Rightarrow> py_in (PyStr s) xs))"

definition scope_step ::
  "calendar \<Rightarrow> string option \<Rightarrow> int \<Rightarrow> string option \<Rightarrow> obj \<Rightarrow> obj list \<Rightarrow> unit + obj list" where
  "scope_step cal jurisdiction as_of subject r kept =
     (case rule_is_in_scope cal r jurisdiction as_of of
        Inl e \<Rightarrow> Inl e
      | Inr inside \<Rightarrow> Inr (if inside \<and> subject_matches r subject then kept @ [r] else kept))"

definition opt_str :: "string option \<Rightarrow> py" where
  "opt_str s = (case s of None \<Rightarrow> PyNone | Some x \<Rightarrow> PyStr x)"

definition scope_to ::
  "calendar \<Rightarrow> knowledge_graph \<Rightarrow> string option \<Rightarrow> int \<Rightarrow> string option \<Rightarrow> unit + obj" where
  "scope_to cal kg jurisdiction as_of subject =
     (case fold_err (scope_step cal jurisdiction as_of subject) (kg_rules kg) [] of
        Inl e \<Rightarrow> Inl e
      | Inr kept \<Rightarrow>
          Inr [(''version'', PyStr (kg_version kg)),
               (''obligations'', PyList (map PyDict kept)),
               (''definitions'', (case kg_definitions kg of
                  Some ds \<Rightarrow> PyList (map PyDict ds)
                | None \<Rightarrow> dget_default (kg_metadata kg) ''definitions'' (PyList []))),
               (''scope'', PyDict
                  [(''subject'', opt_str subject), (''jurisdiction'', opt_str jurisdiction),
                   (''as_of'', PyStr (iso_format cal as_of)),
                   (''n_in'', PyInt (int (length (kg_rules kg)))), (''n_out'', PyInt (int (length kept)))])])"

section \<open>Facts on trust\<close>

lemma anchor_for_Some: "anchor_for p kid = Some a \<Longrightarrow> a \<in> set (anchors p) \<and> anchor_key_id a = kid"
  by (auto simp: anchor_for_def find_Some_iff)

lemma verify_signature_anchored:
  assumes "verify_signature cr canonical signature policy = Inr (kid, level)" and "anchors policy \<noteq> []"
  shows "level = Anchored \<and> (\<exists>a \<in> set (anchors policy). \<exists>sig.
     anchor_key_id a = kid \<and> verifies cr (anchor_key a) sig canonical)"
  using assms anchor_for_Some [of policy]
  by (fastforce simp: verify_signature_def Let_def split: if_splits py.splits option.splits public_key.splits)

text \<open>What a signature object states, and the key that verifies it.\<close>

lemma verify_signature_signed:
  assumes "verify_signature cr canonical d policy = Inr (kid, level)" and "anchors policy \<noteq> []"
  obtains a pem k hex sig where "a \<in> set (anchors policy)" "kid = anchor_key_id a"
    "dget d ''algorithm'' = PyStr ''ed25519''" "dget d ''public_key_pem'' = PyStr pem" "load_pem cr pem = Some (Ed25519 k)"
    "key_id cr k = anchor_key_id a" "dget d ''value_hex'' = PyStr hex" "from_hex hex = Some sig"
    "verifies cr (anchor_key a) sig canonical"
proof -
  have same: "v = PyStr t" if "py_eq v (PyStr t)" for v t using that by (cases v) simp_all
  from assms that show thesis
    by (fastforce simp: verify_signature_def Let_def dest: anchor_for_Some same
        split: if_splits py.splits option.splits public_key.splits)
qed

lemma verify_signature_unanchored:
  assumes "verify_signature cr canonical signature policy = Inr (kid, level)" and "anchors policy = []"
  shows "level = Unanchored \<and> allow_unanchored policy \<and> (\<exists>k sig. kid = key_id cr k \<and> verifies cr k sig canonical)"
  using assms
  by (fastforce simp: verify_signature_def Let_def split: if_splits py.splits option.splits public_key.splits)

lemma from_dict_trust:
  assumes "from_dict cr co data req policy = Inr kg"
  shows "trust_of cr co data (dget data ''signature'') req policy = Inr (signer_key_id kg, kg_trust_of kg)"
    and "signature_verified kg = (kg_trust_of kg = Anchored)"
  using assms by (auto simp: from_dict_def Let_def split: py.splits sum.splits if_splits)

lemma trust_of_anchored:
  assumes "trust_of cr co data sg req policy = Inr (kid, level)" and "anchors policy \<noteq> []"
  shows "level = Anchored \<and> (\<exists>a \<in> set (anchors policy). \<exists>sig.
     kid = Some (anchor_key_id a) \<and> verifies cr (anchor_key a) sig (signing_bytes co data))"
  using assms verify_signature_anchored [OF _ assms(2)]
  by (fastforce simp: trust_of_def split: py.splits sum.splits if_splits)

lemma trust_of_signed:
  assumes "trust_of cr co data v req policy = Inr (kid, level)" and "anchors policy \<noteq> []"
  obtains d i where "v = PyDict d" "verify_signature cr (signing_bytes co data) d policy = Inr (i, level)" "kid = Some i"
  using assms by (auto simp: trust_of_def split: py.splits sum.splits if_splits)

lemma from_dict_rules:
  assumes "from_dict cr co data req policy = Inr kg"
  shows "\<exists>nodes edges defs. compile_graph nodes edges = Inr (kg_rules kg, defs) \<and> kg_definitions kg = Some defs"
  using assms
  by (auto simp: from_dict_def read_graph_def read_flat_def Let_def split: py.splits sum.splits if_splits; blast)

section \<open>Facts on scoping\<close>

text \<open>What scoping is to decide: the dates can be compared, the time lies between them, and the place and the subject fit.\<close>

definition dated :: "calendar \<Rightarrow> obj \<Rightarrow> string \<Rightarrow> iso_time \<Rightarrow> bool" where
  "dated cal r field d \<longleftrightarrow> parse_iso_date cal (dget r field) = Some d"

definition undecidable_dates :: "calendar \<Rightarrow> int \<Rightarrow> obj \<Rightarrow> bool" where
  "undecidable_dates cal t r \<longleftrightarrow> dated cal r ''effective_date'' Naive \<or>
     (\<nexists>d. dated cal r ''effective_date'' (Aware d) \<and> t < d) \<and> dated cal r ''sunset_date'' Naive"

definition in_force_at :: "calendar \<Rightarrow> int \<Rightarrow> obj \<Rightarrow> bool" where
  "in_force_at cal t r \<longleftrightarrow>
     (\<forall>d. dated cal r ''effective_date'' (Aware d) \<longrightarrow> d \<le> t) \<and> (\<forall>d. dated cal r ''sunset_date'' (Aware d) \<longrightarrow> t \<le> d)"

definition applies_in :: "string option \<Rightarrow> obj \<Rightarrow> bool" where
  "applies_in j r \<longleftrightarrow> j = None \<or> dget r ''jurisdiction'' = PyNone \<or>
     (\<exists>s. (dget r ''jurisdiction'' = PyStr s \<or> (\<exists>xs. dget r ''jurisdiction'' = PyList xs \<and> PyStr s \<in> set xs)) \<and>
        (py_lower (py_strip s) \<in> {''global'', ''*'', ''''} \<or> py_lower (py_strip s) = py_lower (py_strip (the j))))"

definition applies_to :: "string option \<Rightarrow> obj \<Rightarrow> bool" where
  "applies_to s r \<longleftrightarrow> s = None \<or> ''subjects'' \<notin> fst ` set r \<or>
     (\<exists>xs. (dget r ''subjects'' = PyList xs \<or> dget r ''subjects'' = PyTuple xs) \<and> PyStr (the s) \<in> set xs)"

lemma text_and_iff: "(case v of PyStr s \<Rightarrow> P s | _ \<Rightarrow> False) \<longleftrightarrow> (\<exists>s. v = PyStr s \<and> P s)"
  by (cases v) simp_all

lemma jurisdiction_matches_iff: "jurisdiction_matches (dget r ''jurisdiction'') j \<longleftrightarrow> applies_in j r"
  by (cases "dget r ''jurisdiction''"; cases j)
     (auto simp: jurisdiction_matches_def applies_in_def universal_jurisdictions_def normalised_jurisdiction_def
       list_ex_iff Let_def text_and_iff)

lemma py_eq_text: "py_eq (PyStr s) v \<longleftrightarrow> v = PyStr s"
  by (cases v) auto

lemma has_key_iff: "has_key r k \<longleftrightarrow> k \<in> fst ` set r"
  by (simp add: has_key_def map_of_eq_None_iff)

lemma subject_matches_iff: "subject_matches r s \<longleftrightarrow> applies_to s r"
  by (cases "dget r ''subjects''"; cases s)
     (auto simp: subject_matches_def applies_to_def has_key_iff py_in_def list_ex_iff py_eq_text)

lemma rule_is_in_scope_iff:
  "rule_is_in_scope cal r j t =
   (if undecidable_dates cal t r then Inl () else Inr (in_force_at cal t r \<and> applies_in j r))"
  by (auto simp: rule_is_in_scope_def compare_iso_def undecidable_dates_def in_force_at_def dated_def
      jurisdiction_matches_iff split: option.splits iso_time.splits bool.splits)

lemma scope_steps_Inr:
  "fold_err (scope_step cal j t s) rules kept = Inr out \<longleftrightarrow>
   (\<forall>r \<in> set rules. \<exists>b. rule_is_in_scope cal r j t = Inr b) \<and>
   out = kept @ filter (\<lambda>r. rule_is_in_scope cal r j t = Inr True \<and> subject_matches r s) rules"
proof (induction rules arbitrary: kept)
  case (Cons r rules)
  show ?case
    using scope_step_def [of cal j t s r kept]
    by (cases "rule_is_in_scope cal r j t") (auto simp: Cons)
qed auto

lemma scope_to_Inr:
  assumes "scope_to cal kg j t s = Inr snap"
  shows "snapshot_obligations snap = map PyDict
    (filter (\<lambda>r. rule_is_in_scope cal r j t = Inr True \<and> subject_matches r s) (kg_rules kg))"
  using assms
  by (auto simp: scope_to_def scope_steps_Inr snapshot_obligations_def dget_default_def split: sum.splits)

lemma scope_to_raises_iff:
  "(\<exists>e. scope_to cal kg j t s = Inl e) \<longleftrightarrow> (\<exists>r \<in> set (kg_rules kg). \<exists>e. rule_is_in_scope cal r j t = Inl e)"
proof (cases "fold_err (scope_step cal j t s) (kg_rules kg) []")
  case (Inl e)
  then have "\<not> (\<forall>r \<in> set (kg_rules kg). \<exists>b. rule_is_in_scope cal r j t = Inr b)"
    using scope_steps_Inr [of cal j t s "kg_rules kg" "[]"] by auto
  then obtain r where r: "r \<in> set (kg_rules kg)" "\<forall>b. rule_is_in_scope cal r j t \<noteq> Inr b" by blast
  then have "\<exists>e. rule_is_in_scope cal r j t = Inl e"
    by (cases "rule_is_in_scope cal r j t") auto
  with r Inl show ?thesis by (auto simp: scope_to_def)
next
  case (Inr out)
  then show ?thesis
    using scope_steps_Inr [of cal j t s "kg_rules kg" "[]" out] by (auto simp: scope_to_def)
qed

lemma map_filter_PyDict [simp]: "List.map_filter dict_of (map PyDict xs) = xs"
  by (induction xs) (simp_all add: map_filter_simps)

lemma distinct_ids_index:
  assumes "distinct (map (\<lambda>ob. dget ob ''id'') entries)" and "\<forall>ob \<in> set entries. is_str (dget ob ''id'')"
  shows "snd (index_obligations (map PyDict entries) m) = []"
    and "k < length entries \<Longrightarrow> dget (entries ! k) ''id'' = PyStr i \<Longrightarrow>
         map_of (fst (index_obligations (map PyDict entries) m)) i = Some (entries ! k)"
proof -
  have unique: "j = k" if "j < length entries" "k < length entries"
      "dget (entries ! j) ''id'' = dget (entries ! k) ''id''" for j k
    using nth_eq_iff_index_eq [OF assms(1), of j k] that by simp
  have later: "dget (entries ! j) ''id'' \<noteq> PyStr i"
    if "k < length entries" "dget (entries ! k) ''id'' = PyStr i" "k < j" "j < length entries" for k j i
    using unique [of j k] that by auto
  have last: "map_of (last_positions entries) i = Some k"
    if "k < length entries" "dget (entries ! k) ''id'' = PyStr i" for k i
    unfolding last_positions_iff using that later [OF that] by blast
  have "hidden_violation (last_positions entries) m (k, entries ! k) = []" if "k < length entries" for k
    using last [OF that] assms(2) that by (auto simp: hidden_violation_def is_str_iff)
  then show "snd (index_obligations (map PyDict entries) m) = []"
    by (auto simp: index_violations Let_def concat_eq_Nil_conv in_set_enumerate_eq)
  show "map_of (fst (index_obligations (map PyDict entries) m)) i = Some (entries ! k)"
    if "k < length entries" "dget (entries ! k) ''id'' = PyStr i"
    unfolding index_obligations_iff Let_def map_filter_PyDict using that later [OF that] by blast
qed

section \<open>Concrete inputs\<close>

text \<open>A key store with one key, whose signature of a message is the message itself.\<close>

definition sample_crypto :: crypto where
  "sample_crypto = \<lparr>load_pem = (\<lambda>s. if s = [] then None else Some (Ed25519 (length s))),
     key_id = (\<lambda>k. ''sha256:'' @ replicate k (CHR ''a'')), verifies = (\<lambda>k sig msg. sig = msg)\<rparr>"

definition sample_codec :: codec where
  "sample_codec = \<lparr>canonical_bytes = (\<lambda>d. [1]), flat_json_bytes = (\<lambda>d. [2]), canonical_digest = (\<lambda>d. ''d''),
     flat_graph = (\<lambda>d. Inl ''unused''), value_text = text_of\<rparr>"

definition sample_document :: obj where
  "sample_document =
     [(''metadata'', PyDict [(''version'', PyStr ''1'')]),
      (''nodes'', PyDict (sample_nodes [sample_rule ''r1'' None])), (''edges'', PyList [owns ''r1'']),
      (''signature'', PyDict [(''algorithm'', PyStr ''ed25519''), (''public_key_pem'', PyStr ''k''),
                              (''value_hex'', PyStr ''01'')])]"

definition sample_policy :: "nat list \<Rightarrow> trust_policy" where
  "sample_policy ks = \<lparr>anchors = map (\<lambda>k. \<lparr>anchor_key_id = key_id sample_crypto k, anchor_key = k\<rparr>) ks,
     allow_unanchored = False\<rparr>"

text \<open>A calendar that knows one aware and one naive time.\<close>

definition sample_calendar :: calendar where
  "sample_calendar =
     \<lparr>from_iso = (\<lambda>s. if s = ''2025-01-01T00:00:00+00:00'' then Some (Aware 5)
                      else if s = ''2025-01-01T00:00:00'' then Some Naive else None),
      iso_format = (\<lambda>t. ''now'')\<rparr>"

definition sample_kg :: "py \<Rightarrow> knowledge_graph" where
  "sample_kg start = \<lparr>kg_version = ''1'', kg_rules = [(''effective_date'', start) # sample_obligation ''ob1'' (PyInt 100)],
     kg_tag_registry = [], kg_metadata = [], signature_verified = True, signer_key_id = None,
     kg_trust_of = Anchored, kg_definitions = None, legacy_version_hash = None\<rparr>"

section \<open>Properties\<close>

text \<open>
  Property C9. With trust anchors configured, a Knowledge Graph loads only as anchored. The document then has a
  signature object for Ed25519, whose embedded key has the key id of an anchor of the policy; that key id is the
  recorded signer; and the anchor's own key verifies the bytes that the object's \<open>value_hex\<close> spells, over the
  document's signing bytes. The embedded key only names the anchor: it is never the key that verifies.
\<close>

theorem anchored_load_is_verified:
  assumes "from_dict cr co data req policy = Inr kg" and "anchors policy \<noteq> []"
  shows "kg_trust_of kg = Anchored \<and> signature_verified kg \<and>
    (\<exists>a d pem k hex sig. a \<in> set (anchors policy) \<and> signer_key_id kg = Some (anchor_key_id a) \<and>
       dget data ''signature'' = PyDict d \<and> dget d ''algorithm'' = PyStr ''ed25519'' \<and>
       dget d ''public_key_pem'' = PyStr pem \<and> load_pem cr pem = Some (Ed25519 k) \<and> key_id cr k = anchor_key_id a \<and>
       dget d ''value_hex'' = PyStr hex \<and> from_hex hex = Some sig \<and>
       verifies cr (anchor_key a) sig (signing_bytes co data))"
proof -
  note trust = from_dict_trust [OF assms(1)]
  obtain d i where d: "dget data ''signature'' = PyDict d" "signer_key_id kg = Some i"
      "verify_signature cr (signing_bytes co data) d policy = Inr (i, kg_trust_of kg)"
    using trust_of_signed [OF trust(1) assms(2)] by metis
  have "kg_trust_of kg = Anchored \<and> signature_verified kg" using verify_signature_anchored [OF d(3) assms(2)] trust(2) by simp
  moreover from d(3) assms(2) have "\<exists>a pem k hex sig. a \<in> set (anchors policy) \<and> i = anchor_key_id a \<and>
       dget d ''algorithm'' = PyStr ''ed25519'' \<and> dget d ''public_key_pem'' = PyStr pem \<and>
       load_pem cr pem = Some (Ed25519 k) \<and> key_id cr k = anchor_key_id a \<and> dget d ''value_hex'' = PyStr hex \<and>
       from_hex hex = Some sig \<and> verifies cr (anchor_key a) sig (signing_bytes co data)"
    by (rule verify_signature_signed) blast
  ultimately show ?thesis using d(1,2) by blast
qed

theorem anchored_load_is_verified_witness:
  "\<exists>kg sig. from_dict sample_crypto sample_codec sample_document True (sample_policy [1]) = Inr kg \<and>
        kg_trust_of kg = Anchored \<and> from_hex ''01'' = Some sig \<and>
        verifies sample_crypto 1 sig (signing_bytes sample_codec sample_document)"
proof -
  let ?run = "from_dict sample_crypto sample_codec sample_document True (sample_policy [1])"
  have "case ?run of Inl e \<Rightarrow> False | Inr kg \<Rightarrow> True" by code_simp
  then obtain kg where "?run = Inr kg" by (cases ?run) auto
  moreover have one: "anchors (sample_policy [1]) = [\<lparr>anchor_key_id = key_id sample_crypto 1, anchor_key = 1\<rparr>]"
    by (simp add: sample_policy_def)
  moreover have "dget sample_document ''signature'' = PyDict [(''algorithm'', PyStr ''ed25519''), (''public_key_pem'', PyStr ''k''),
      (''value_hex'', PyStr ''01'')]"
    by code_simp
  ultimately show ?thesis
    using anchored_load_is_verified [of sample_crypto sample_codec sample_document True "sample_policy [1]" kg]
    by (auto simp: dget_def)
qed

text \<open>
  Without anchors nothing counts as verified: a graph that loads is unanchored, which needs
  the operator's explicit permission, or unsigned, which needs a caller that does not require a
  signature.
\<close>

theorem unanchored_load_is_never_verified:
  assumes "from_dict cr co data req policy = Inr kg" and "anchors policy = []"
  shows "signature_verified kg = False \<and>
    (kg_trust_of kg = Unanchored \<and> allow_unanchored policy \<or> kg_trust_of kg = Unsigned \<and> req = False)"
  using from_dict_trust [OF assms(1)] assms(2) verify_signature_unanchored [OF _ assms(2)]
  by (fastforce simp: trust_of_def split: py.splits sum.splits if_splits)

theorem unanchored_load_is_never_verified_witness:
  "\<exists>kg. from_dict sample_crypto sample_codec sample_document True (sample_policy []\<lparr>allow_unanchored := True\<rparr>) = Inr kg \<and>
        signature_verified kg = False"
proof -
  let ?run = "from_dict sample_crypto sample_codec sample_document True (sample_policy []\<lparr>allow_unanchored := True\<rparr>)"
  have "case ?run of Inl e \<Rightarrow> False | Inr kg \<Rightarrow> True" by code_simp
  then obtain kg where "?run = Inr kg" by (cases ?run) auto
  moreover have "anchors (sample_policy []\<lparr>allow_unanchored := True\<rparr>) = []" by (simp add: sample_policy_def)
  ultimately show ?thesis using unanchored_load_is_never_verified by blast
qed

text \<open>
  A configured bundle never degrades: when the environment names a bundle, the policy has at
  least one anchor and ignores the unanchored escape hatch, or building it is an error.
\<close>

theorem configured_bundle_never_degrades:
  assumes "py_strip (env_get env ''SKI_KG_TRUST_ANCHORS'') \<noteq> []"
    and "policy_from_env cr read_file env = Inr policy"
  shows "anchors policy \<noteq> [] \<and> allow_unanchored policy = False"
  using assms
  by (auto simp: policy_from_env_def parse_trust_anchor_bundle_def Let_def split: option.splits sum.splits if_splits)

theorem configured_bundle_never_degrades_witness:
  "\<exists>policy. policy_from_env sample_crypto
       (\<lambda>path. Some ''-----BEGIN PUBLIC KEY-----k-----END PUBLIC KEY-----'')
       [(''SKI_KG_TRUST_ANCHORS'', ''a.pem''), (''SKI_KG_ALLOW_UNANCHORED'', ''true'')] = Inr policy \<and>
     anchors policy \<noteq> [] \<and> allow_unanchored policy = False"
proof -
  let ?env = "[(''SKI_KG_TRUST_ANCHORS'', ''a.pem''), (''SKI_KG_ALLOW_UNANCHORED'', ''true'')]"
  let ?run = "policy_from_env sample_crypto (\<lambda>path. Some ''-----BEGIN PUBLIC KEY-----k-----END PUBLIC KEY-----'') ?env"
  have "case ?run of Inl e \<Rightarrow> False | Inr p \<Rightarrow> True" by code_simp
  then obtain p where "?run = Inr p" by (cases ?run) auto
  moreover have "py_strip (env_get ?env ''SKI_KG_TRUST_ANCHORS'') \<noteq> []" by code_simp
  ultimately show ?thesis using configured_bundle_never_degrades by blast
qed

text \<open>
  Property C25. What a scoped snapshot holds: the obligations, in order, that started by the time and have not lapsed
  before it, that name no jurisdiction, a universal one or the wanted one (compared without case and outer blanks),
  and that name no subjects or the wanted one. Scoping raises exactly when a date that decides about some obligation
  has no time zone: its effective date, or its sunset date where it has started.
\<close>

theorem scope_to_is_exact:
  "case scope_to cal kg j t s of
     Inl e \<Rightarrow> (\<exists>r \<in> set (kg_rules kg). undecidable_dates cal t r)
   | Inr snap \<Rightarrow>
       list_all (\<lambda>r. undecidable_dates cal t r = False) (kg_rules kg) \<and>
       snapshot_obligations snap =
         map PyDict (filter (\<lambda>r. in_force_at cal t r \<and> applies_in j r \<and> applies_to s r) (kg_rules kg))"
proof (cases "scope_to cal kg j t s")
  case (Inl e)
  then have "\<exists>r \<in> set (kg_rules kg). \<exists>e. rule_is_in_scope cal r j t = Inl e" using scope_to_raises_iff by metis
  with Inl show ?thesis by (auto simp: rule_is_in_scope_iff split: if_splits)
next
  case (Inr snap)
  then have "\<not> (\<exists>r \<in> set (kg_rules kg). \<exists>e. rule_is_in_scope cal r j t = Inl e)"
    using scope_to_raises_iff [of cal kg j t s] by simp
  then have decided: "\<forall>r \<in> set (kg_rules kg). \<not> undecidable_dates cal t r" by (auto simp: rule_is_in_scope_iff)
  then have "filter (\<lambda>r. rule_is_in_scope cal r j t = Inr True \<and> subject_matches r s) (kg_rules kg) =
      filter (\<lambda>r. in_force_at cal t r \<and> applies_in j r \<and> applies_to s r) (kg_rules kg)"
    by (intro filter_cong) (auto simp: rule_is_in_scope_iff subject_matches_iff)
  with scope_to_Inr [OF Inr] decided Inr show ?thesis by (simp add: list_all_iff)
qed

text \<open>
  A date without a time zone stops the runtime: an obligation whose effective date is the
  valid ISO text \<open>2025-01-01T00:00:00\<close> loads, and then every scoping raises, whatever the jurisdiction,
  while the bare date \<open>2025-01-01\<close> is read as midnight UTC.
\<close>

theorem naive_date_stops_scoping:
  "scope_to sample_calendar (sample_kg (PyStr ''2025-01-01T00:00:00'')) None 9 None = Inl () \<and>
   map_sum id (length \<circ> snapshot_obligations)
     (scope_to sample_calendar (sample_kg (PyStr ''2025-01-01'')) None 9 None) = Inr 1"
  by code_simp

text \<open>
  The slice of a loaded Knowledge Graph hides nothing from the verifier: whatever the scope,
  the index of its obligations reports no violation and finds each of them under its id.
\<close>

theorem loaded_slice_hides_nothing:
  assumes "from_dict cr co data req policy = Inr kg" and "scope_to cal kg j t s = Inr snap"
  shows "snd (index_obligations (snapshot_obligations snap) m) = [] \<and>
    list_all (\<lambda>v. \<exists>i ob. v = PyDict ob \<and> dget ob ''id'' = PyStr i \<and>
        map_of (fst (index_obligations (snapshot_obligations snap) m)) i = Some ob) (snapshot_obligations snap)"
proof -
  obtain nodes edges defs where c: "compile_graph nodes edges = Inr (kg_rules kg, defs)"
    using from_dict_rules [OF assms(1)] by blast
  define kept where "kept = filter (\<lambda>r. rule_is_in_scope cal r j t = Inr True \<and> subject_matches r s) (kg_rules kg)"
  have slice: "snapshot_obligations snap = map PyDict kept"
    using scope_to_Inr [OF assms(2)] by (simp add: kept_def)
  have ids: "distinct (map (\<lambda>ob. dget ob ''id'') kept)" "\<forall>ob \<in> set kept. is_str (dget ob ''id'')"
    using compiled_ids [OF c] by (auto simp: kept_def is_str_iff distinct_map_filter)
  show ?thesis
    using distinct_ids_index [OF ids] ids(2)
    by (fastforce simp: slice list_all_length is_str_iff)
qed

theorem loaded_slice_hides_nothing_witness:
  "\<exists>kg snap. from_dict sample_crypto sample_codec sample_document True (sample_policy [1]) = Inr kg \<and>
     scope_to sample_calendar kg None 9 None = Inr snap \<and> snapshot_obligations snap \<noteq> [] \<and>
     snd (index_obligations (snapshot_obligations snap) None) = []"
proof -
  let ?run = "from_dict sample_crypto sample_codec sample_document True (sample_policy [1])"
  have "case ?run of Inl e \<Rightarrow> False | Inr kg \<Rightarrow>
      (case scope_to sample_calendar kg None 9 None of Inl e \<Rightarrow> False | Inr snap \<Rightarrow> snapshot_obligations snap \<noteq> [])"
    by code_simp
  then obtain kg snap where "?run = Inr kg" "scope_to sample_calendar kg None 9 None = Inr snap"
      "snapshot_obligations snap \<noteq> []"
    by (auto split: sum.splits)
  with loaded_slice_hides_nothing show ?thesis by blast
qed

end
