(* ===== verification/Merkle.thy ===== *)
theory Merkle
  imports KG_Loader
begin

text \<open>
  Ledger checkpoints (\<open>ski_schemas/merkle.py\<close>): the RFC 6962 tree over the entry hashes, the audit path
  of an entry and its verification by the loop of RFC 9162. SHA-256 is a parameter, from bytes to bytes.

  The lemmas show that the loop computes what a recursion over the tree computes; completeness and
  soundness of inclusion proofs, and the binding of the root, follow by induction on the tree.
\<close>

section \<open>Hexadecimal text\<close>

definition hex_char :: "nat \<Rightarrow> char" where
  "hex_char n = (if n < 10 then char_of (48 + n) else char_of (87 + n))"

definition byte_hex :: "8 word \<Rightarrow> string" where
  "byte_hex b = [hex_char (unat b div 16), hex_char (unat b mod 16)]"

definition to_hex :: "bytes \<Rightarrow> string" where
  "to_hex bs = concat (map byte_hex bs)"

lemma hex_digit_char: "n < 16 \<Longrightarrow> hex_digit (hex_char n) = Some n \<and> hex_space (hex_char n) = False \<and> is_space (hex_char n) = False"
  by (auto simp: hex_digit_def hex_char_def hex_space_def is_space_def Let_def)

lemma from_hex_to_hex [simp]: "from_hex (to_hex bs) = Some bs"
proof (induction bs)
  case (Cons b bs)
  have "unat b < 256" using unsigned_less [of b] by simp
  then have "unat b div 16 < 16" "unat b mod 16 < 16" by auto
  from this [THEN hex_digit_char] Cons show ?case
    by (simp add: to_hex_def byte_hex_def)
qed (simp add: to_hex_def)

lemma to_hex_inject [simp]: "to_hex a = to_hex b \<longleftrightarrow> a = b"
  by (metis from_hex_to_hex option.inject)

section \<open>The tree\<close>

definition leaf_hash :: "(bytes \<Rightarrow> bytes) \<Rightarrow> bytes \<Rightarrow> bytes" where
  "leaf_hash sha e = sha (0 # e)"

definition node_hash :: "(bytes \<Rightarrow> bytes) \<Rightarrow> bytes \<Rightarrow> bytes \<Rightarrow> bytes" where
  "node_hash sha l r = sha (1 # l @ r)"

text \<open>\<open>_split\<close>: the loop that doubles \<open>k\<close> while \<open>2 * k < n\<close>.\<close>

function split_from :: "nat \<Rightarrow> nat \<Rightarrow> nat" where
  "split_from n k = (if k > 0 \<and> k * 2 < n then split_from n (k * 2) else k)"
  by pat_completeness auto

termination split_from
  by (relation "measure (\<lambda>(n, k). n - k)") auto

declare split_from.simps [simp del]

definition tree_split :: "nat \<Rightarrow> nat" where
  "tree_split n = split_from n 1"

lemma split_from_power:
  "k = 2 ^ i \<Longrightarrow> k < n \<Longrightarrow> \<exists>j. split_from n k = 2 ^ j \<and> 2 ^ j < n \<and> n \<le> 2 ^ Suc j"
proof (induction n k arbitrary: i rule: split_from.induct)
  case (1 n k)
  show ?case
  proof (cases "k * 2 < n")
    case True
    have pos: "0 < k" using 1(2) by simp
    have "split_from n k = split_from n (k * 2)"
      using True pos by (simp add: split_from.simps [of n k])
    then show ?thesis
      using "1.IH" [of "Suc i"] True pos 1(2) by simp
  next
    case False
    then have "split_from n k = k" by (simp add: split_from.simps [of n k])
    with 1(2,3) False show ?thesis by (intro exI [of _ i]) simp
  qed
qed

lemma tree_split_power: "1 < n \<Longrightarrow> \<exists>j. tree_split n = 2 ^ j \<and> 2 ^ j < n \<and> n \<le> 2 ^ Suc j"
  unfolding tree_split_def by (rule split_from_power [of 1 0]) auto

lemma tree_split_bounds: "1 < n \<Longrightarrow> 0 < tree_split n \<and> tree_split n < n"
  using tree_split_power [of n] by auto

lemma tree_split_less:
  "Suc 0 < n \<Longrightarrow> min n (tree_split n) < n" "Suc 0 < n \<Longrightarrow> n - tree_split n < n"
  "Suc 0 < n \<Longrightarrow> tree_split n < n"
  using tree_split_bounds [of n] by auto

text \<open>\<open>_raw\<close>: the 32 bytes of every entry hash; \<open>None\<close> where the source raises \<open>ValueError\<close>.\<close>

fun raw_hashes :: "string list \<Rightarrow> bytes list option" where
  "raw_hashes [] = Some []"
| "raw_hashes (h # hs) =
     (case (from_hex h, raw_hashes hs) of
        (Some b, Some bs) \<Rightarrow> if length b = 32 then Some (b # bs) else None
      | _ \<Rightarrow> None)"

text \<open>\<open>_root\<close>. The source is never called on an empty list.\<close>

function tree_root :: "(bytes \<Rightarrow> bytes) \<Rightarrow> bytes list \<Rightarrow> bytes" where
  "tree_root sha leaves =
     (if length leaves \<le> 1 then leaf_hash sha (hd leaves)
      else (let k = tree_split (length leaves) in
        node_hash sha (tree_root sha (take k leaves)) (tree_root sha (drop k leaves))))"
  by pat_completeness auto

termination tree_root
  by (relation "measure (\<lambda>(sha, leaves). length leaves)")
     (auto simp: not_le tree_split_less)

declare tree_root.simps [simp del]

definition merkle_root :: "(bytes \<Rightarrow> bytes) \<Rightarrow> string list \<Rightarrow> string option" where
  "merkle_root sha hs =
     (if hs = [] then Some (to_hex (sha []))
      else map_option (\<lambda>leaves. to_hex (tree_root sha leaves)) (raw_hashes hs))"

function tree_path :: "(bytes \<Rightarrow> bytes) \<Rightarrow> bytes list \<Rightarrow> nat \<Rightarrow> bytes list" where
  "tree_path sha nodes m =
     (if length nodes \<le> 1 then []
      else (let k = tree_split (length nodes) in
        if m < k then tree_path sha (take k nodes) m @ [tree_root sha (drop k nodes)]
        else tree_path sha (drop k nodes) (m - k) @ [tree_root sha (take k nodes)]))"
  by pat_completeness auto

termination tree_path
  by (relation "measure (\<lambda>(sha, nodes, m). length nodes)")
     (auto simp: not_le tree_split_less)

declare tree_path.simps [simp del]

datatype proof_error = BadEntryHash | IndexOutside

definition inclusion_proof :: "(bytes \<Rightarrow> bytes) \<Rightarrow> string list \<Rightarrow> int \<Rightarrow> proof_error + string list" where
  "inclusion_proof sha hs index =
     (case raw_hashes hs of
        None \<Rightarrow> Inl BadEntryHash
      | Some leaves \<Rightarrow>
          if \<not> (0 \<le> index \<and> index < int (length leaves)) then Inl IndexOutside
          else Inr (map to_hex (tree_path sha leaves (nat index))))"

section \<open>Verification\<close>

text \<open>The inner loop: shift both numbers while the first is even and not zero.\<close>

fun strip_zeros :: "nat \<Rightarrow> nat \<Rightarrow> nat \<times> nat" where
  "strip_zeros fn sn = (if even fn \<and> fn \<noteq> 0 then strip_zeros (fn div 2) (sn div 2) else (fn, sn))"

declare strip_zeros.simps [simp del]

text \<open>One round of the outer loop; \<open>None\<close> where the source returns \<open>False\<close>.\<close>

definition verify_step ::
  "(bytes \<Rightarrow> bytes) \<Rightarrow> bytes \<Rightarrow> nat \<times> nat \<times> bytes \<Rightarrow> (nat \<times> nat \<times> bytes) option" where
  "verify_step sha p = (\<lambda>(fn, sn, r).
     (if sn = 0 then None
      else if odd fn \<or> fn = sn then
        (let (fn, sn) = (if even fn then strip_zeros fn sn else (fn, sn))
         in Some (fn div 2, sn div 2, node_hash sha p r))
      else Some (fn div 2, sn div 2, node_hash sha r p)))"

text \<open>
  The loop over the proof: \<open>None\<close> where an item is no hexadecimal number (\<open>ValueError\<close>), \<open>Some None\<close> where
  the source returns \<open>False\<close> inside the loop.
\<close>

fun verify_loop ::
  "(bytes \<Rightarrow> bytes) \<Rightarrow> string list \<Rightarrow> nat \<times> nat \<times> bytes \<Rightarrow> (nat \<times> nat \<times> bytes) option option" where
  "verify_loop sha [] s = Some (Some s)"
| "verify_loop sha (h # hs) s =
     (case from_hex h of
        None \<Rightarrow> None
      | Some p \<Rightarrow> (case verify_step sha p s of None \<Rightarrow> Some None | Some s' \<Rightarrow> verify_loop sha hs s'))"

definition verify_inclusion ::
  "(bytes \<Rightarrow> bytes) \<Rightarrow> string \<Rightarrow> int \<Rightarrow> int \<Rightarrow> string list \<Rightarrow> string \<Rightarrow> bool option" where
  "verify_inclusion sha entry_hash index tree_size prf root_hash =
     (if \<not> (0 \<le> index \<and> index < tree_size) then Some False
      else (case from_hex entry_hash of
          None \<Rightarrow> None
        | Some e \<Rightarrow>
            map_option (\<lambda>res. case res of
               None \<Rightarrow> False
             | Some (fn, sn, r) \<Rightarrow> sn = 0 \<and> to_hex r = root_hash)
            (verify_loop sha prf (nat index, nat (tree_size - 1), leaf_hash sha e))))"

text \<open>On a decoded proof the loop is a plain iteration of the step.\<close>

fun verify_run ::
  "(bytes \<Rightarrow> bytes) \<Rightarrow> bytes list \<Rightarrow> nat \<times> nat \<times> bytes \<Rightarrow> (nat \<times> nat \<times> bytes) option" where
  "verify_run sha [] s = Some s"
| "verify_run sha (p # ps) s = (case verify_step sha p s of None \<Rightarrow> None | Some s' \<Rightarrow> verify_run sha ps s')"

lemma verify_loop_to_hex: "verify_loop sha (map to_hex ps) s = Some (verify_run sha ps s)"
  by (induction ps arbitrary: s) (auto split: option.splits)

lemma verify_loop_Some:
  "verify_loop sha hs s = Some (Some s') \<Longrightarrow> \<exists>ps. those (map from_hex hs) = Some ps \<and> verify_run sha ps s = Some s'"
proof (induction hs arbitrary: s)
  case (Cons h hs)
  then obtain p t where *: "from_hex h = Some p" "verify_step sha p s = Some t"
      "verify_loop sha hs t = Some (Some s')"
    by (auto split: option.splits)
  from Cons.IH [OF *(3)] *(1,2) show ?case by auto
qed simp

section \<open>The recursion the loop computes\<close>

text \<open>The root that a proof gives for a leaf at index \<open>m\<close> of a tree of \<open>n\<close> leaves, by recursion on the tree.\<close>

function rebuild :: "(bytes \<Rightarrow> bytes) \<Rightarrow> nat \<Rightarrow> nat \<Rightarrow> bytes \<Rightarrow> bytes list \<Rightarrow> bytes option" where
  "rebuild sha n m r ps =
     (if n \<le> 1 then (if ps = [] then Some r else None)
      else if ps = [] then None
      else (let k = tree_split n in
        if m < k then map_option (\<lambda>q. node_hash sha q (last ps)) (rebuild sha k m r (butlast ps))
        else map_option (\<lambda>q. node_hash sha (last ps) q) (rebuild sha (n - k) (m - k) r (butlast ps))))"
  by pat_completeness auto

termination rebuild
  by (relation "measure (\<lambda>(sha, n, m, r, ps). n)") (auto simp: not_le tree_split_less)

declare rebuild.simps [simp del]

definition accepts :: "(bytes \<Rightarrow> bytes) \<Rightarrow> bytes list \<Rightarrow> nat \<times> nat \<times> bytes \<Rightarrow> bytes \<Rightarrow> bool" where
  "accepts sha ps s r' = (\<exists>fn. verify_run sha ps s = Some (fn, 0, r'))"

lemma accepts_Nil: "accepts sha [] (fn, sn, r) r' \<longleftrightarrow> sn = 0 \<and> r' = r"
  by (auto simp: accepts_def)

lemma accepts_Cons:
  "accepts sha (p # ps) s r' \<longleftrightarrow> (\<exists>s'. verify_step sha p s = Some s' \<and> accepts sha ps s' r')"
  by (auto simp: accepts_def split: option.splits)

lemma verify_step_zero [simp]: "verify_step sha p (fn, 0, r) = None"
  by (simp add: verify_step_def)

lemma accepts_zero: "accepts sha ps (fn, 0, r) r' \<longleftrightarrow> ps = [] \<and> r' = r"
  by (cases ps) (simp_all add: accepts_Nil accepts_Cons)

text \<open>
  A run in the whole tree follows the run in the half that holds the leaf, and then takes the last item
  of the proof: the contract that both halves satisfy.
\<close>

locale path_simulation =
  fixes sha :: "bytes \<Rightarrow> bytes"
    and related :: "nat \<times> nat \<times> bytes \<Rightarrow> nat \<times> nat \<times> bytes \<Rightarrow> bool"
    and combine :: "bytes \<Rightarrow> bytes \<Rightarrow> bytes"
  assumes step: "related s (fn, sn, r) \<Longrightarrow> sn \<noteq> 0 \<Longrightarrow>
      \<exists>s' i'. verify_step sha p s = Some s' \<and> verify_step sha p (fn, sn, r) = Some i' \<and> related s' i'"
    and final: "related s (fn, 0, r) \<Longrightarrow> \<exists>fn'. verify_step sha p s = Some (fn', 0, combine r p)"
    and running: "related (fn, sn, r) i \<Longrightarrow> sn \<noteq> 0"
begin

lemma accepts_related:
  "related s i \<Longrightarrow>
   accepts sha ps s r' \<longleftrightarrow> (\<exists>qs p q. ps = qs @ [p] \<and> accepts sha qs i q \<and> r' = combine q p)"
proof (induction ps arbitrary: s i)
  case Nil
  obtain fn sn r where "s = (fn, sn, r)" by (cases s)
  with running [of fn sn r i] Nil show ?case by (auto simp: accepts_Nil)
next
  case (Cons p ps)
  obtain fn sn r where i: "i = (fn, sn, r)" by (cases i)
  show ?case
  proof (cases "sn = 0")
    case True
    with Cons.prems i obtain fn' where "verify_step sha p s = Some (fn', 0, combine r p)"
      using final [of s fn r p] by auto
    then show ?thesis
      by (auto simp: accepts_Cons accepts_zero i True Cons_eq_append_conv)
  next
    case False
    with Cons.prems i obtain s' i' where *: "verify_step sha p s = Some s'"
        "verify_step sha p i = Some i'" "related s' i'"
      using step [of s fn sn r p] by auto
    have "accepts sha [] i q \<longleftrightarrow> False" for q
      using False by (simp add: i accepts_Nil)
    with * Cons.IH [OF *(3)] show ?thesis
      by (auto simp: accepts_Cons Cons_eq_append_conv)
  qed
qed

end

subsection \<open>The left half\<close>

definition left_related :: "nat \<times> nat \<times> bytes \<Rightarrow> nat \<times> nat \<times> bytes \<Rightarrow> bool" where
  "left_related s i =
     (\<exists>e fn sn r. s = (fn, sn, r) \<and> i = (fn, 2 ^ e - 1, r) \<and> fn < 2 ^ e \<and> 2 ^ e \<le> sn \<and> sn < 2 ^ Suc e)"

lemma left_step:
  assumes "fn < 2 ^ e" "2 ^ e \<le> sn" "sn < 2 ^ Suc e" "e \<noteq> 0"
  shows "\<exists>s' i'. verify_step sha p (fn, sn, r) = Some s' \<and> verify_step sha p (fn, 2 ^ e - 1, r) = Some i' \<and>
    left_related s' i'"
proof -
  obtain d where e: "e = Suc d" using assms(4) by (cases e) auto
  have "(1 :: nat) \<le> 2 ^ d" by simp
  then have inner: "(2 ^ e - 1) div 2 = (2 ^ d - 1 :: nat)" "2 ^ e - 1 \<noteq> (0 :: nat)" "odd (2 ^ e - 1 :: nat)"
    unfolding e power_Suc by presburger+
  have halves: "fn div 2 < 2 ^ d" "2 ^ d \<le> sn div 2" "sn div 2 < 2 ^ Suc d"
    using assms by (auto simp: e)
  have rel: "left_related (fn div 2, sn div 2, h) (fn div 2, 2 ^ d - 1, h)" for h
    using halves by (auto simp: left_related_def)
  show ?thesis
  proof (cases "odd fn")
    case True
    then have "verify_step sha p (fn, sn, r) = Some (fn div 2, sn div 2, node_hash sha p r)"
      "verify_step sha p (fn, 2 ^ e - 1, r) = Some (fn div 2, 2 ^ d - 1, node_hash sha p r)"
      using inner assms by (simp_all add: verify_step_def)
    with rel show ?thesis by blast
  next
    case False
    with inner(3) have "fn \<noteq> 2 ^ e - 1" by blast
    moreover have "fn \<noteq> sn" using assms by auto
    ultimately have "verify_step sha p (fn, sn, r) = Some (fn div 2, sn div 2, node_hash sha r p)"
      "verify_step sha p (fn, 2 ^ e - 1, r) = Some (fn div 2, 2 ^ d - 1, node_hash sha r p)"
      using inner assms False by (simp_all add: verify_step_def)
    with rel show ?thesis by blast
  qed
qed

interpretation left: path_simulation sha left_related "node_hash sha" for sha
proof
  fix s fn sn r p
  assume rel: "left_related s (fn, sn, r)" and nz: "sn \<noteq> 0"
  then obtain e t where s: "s = (fn, t, r)" "sn = 2 ^ e - 1" and b: "fn < 2 ^ e" "2 ^ e \<le> t" "t < 2 ^ Suc e"
    by (auto simp: left_related_def)
  have "e \<noteq> 0" using nz s(2) by (cases e) auto
  from left_step [OF b this] show "\<exists>s' i'. verify_step sha p s = Some s' \<and> verify_step sha p (fn, sn, r) = Some i' \<and> left_related s' i'"
    using s by simp
next
  fix s fn r p
  assume "left_related s (fn, 0, r)"
  then obtain e t where s: "s = (fn, t, r)" "2 ^ e - 1 = (0 :: nat)" "fn < 2 ^ e" "2 ^ e \<le> t" "t < 2 ^ Suc e"
    by (auto simp: left_related_def)
  then have "e = 0" using power_gt1 [of "2 :: nat" "e - 1"] by (cases e) auto
  with s have "fn = 0" "t = 1" by auto
  with s(1) show "\<exists>fn'. verify_step sha p s = Some (fn', 0, node_hash sha r p)"
    by (simp add: verify_step_def)
next
  fix fn sn r i
  assume "left_related (fn, sn, r) i"
  then show "sn \<noteq> 0" by (auto simp: left_related_def)
qed

subsection \<open>The right half\<close>

definition right_related :: "nat \<times> nat \<times> bytes \<Rightarrow> nat \<times> nat \<times> bytes \<Rightarrow> bool" where
  "right_related s i =
     (\<exists>e fn sn r. s = (fn + 2 ^ e, sn + 2 ^ e, r) \<and> i = (fn, sn, r) \<and> fn \<le> sn \<and> sn < 2 ^ e)"

lemma strip_zeros_odd: "odd fn \<Longrightarrow> strip_zeros fn sn = (fn, sn)"
  by (simp add: strip_zeros.simps)

lemma strip_zeros_shifted:
  "fn \<noteq> 0 \<Longrightarrow> fn \<le> sn \<Longrightarrow> sn < 2 ^ e \<Longrightarrow>
   \<exists>d a b. strip_zeros fn sn = (a, b) \<and> strip_zeros (fn + 2 ^ e) (sn + 2 ^ e) = (a + 2 ^ d, b + 2 ^ d) \<and>
     odd a \<and> a \<le> b \<and> b < 2 ^ d \<and> d \<noteq> 0"
proof (induction fn sn arbitrary: e rule: strip_zeros.induct)
  case (1 fn sn)
  then obtain d where e: "e = Suc d" by (cases e) auto
  show ?case
  proof (cases "even fn")
    case True
    have "\<exists>c a b. strip_zeros (fn div 2) (sn div 2) = (a, b) \<and>
        strip_zeros (fn div 2 + 2 ^ d) (sn div 2 + 2 ^ d) = (a + 2 ^ c, b + 2 ^ c) \<and>
        odd a \<and> a \<le> b \<and> b < 2 ^ c \<and> c \<noteq> 0"
      using 1(2-4) True e by (intro "1.IH" [of d]) (auto simp: div_le_mono)
    moreover have "strip_zeros fn sn = strip_zeros (fn div 2) (sn div 2)"
      using True 1 by (subst strip_zeros.simps) simp
    moreover have "strip_zeros (fn + 2 ^ e) (sn + 2 ^ e) = strip_zeros (fn div 2 + 2 ^ d) (sn div 2 + 2 ^ d)"
      using True 1 by (subst strip_zeros.simps) (simp add: e add.commute)
    ultimately show ?thesis by simp
  next
    case False
    then have "odd (fn + 2 ^ e)" by (simp add: e)
    with False 1 e show ?thesis
      by (intro exI [of _ e] exI [of _ fn] exI [of _ sn]) (simp add: strip_zeros_odd)
  qed
qed

lemma strip_zeros_power: "strip_zeros (2 ^ e) (2 ^ e) = (1, 1)"
proof (induction e)
  case (Suc e)
  then show ?case by (subst strip_zeros.simps) simp
qed (simp add: strip_zeros_odd)

lemma shifted_div2: "(a + 2 ^ Suc d) div 2 = a div 2 + 2 ^ d" for a :: nat
  by simp

lemma right_related_shift:
  assumes "a \<le> b" "b < 2 ^ d" "d \<noteq> 0"
  shows "right_related ((a + 2 ^ d) div 2, (b + 2 ^ d) div 2, h) (a div 2, b div 2, h)"
proof -
  obtain c where d: "d = Suc c" using assms(3) by (cases d) auto
  with assms have "a div 2 \<le> b div 2" "b div 2 < 2 ^ c" by auto
  then show ?thesis
    unfolding right_related_def d shifted_div2 by blast
qed

lemma right_step:
  assumes "fn \<le> sn" "sn < 2 ^ e" "sn \<noteq> 0"
  shows "\<exists>s' i'. verify_step sha p (fn + 2 ^ e, sn + 2 ^ e, r) = Some s' \<and>
    verify_step sha p (fn, sn, r) = Some i' \<and> right_related s' i'"
proof -
  have e: "e \<noteq> 0" using assms by (cases e) auto
  then have parity: "odd (fn + 2 ^ e) \<longleftrightarrow> odd fn" by simp
  show ?thesis
  proof (cases "odd fn")
    case True
    then show ?thesis
      using assms parity right_related_shift [OF assms(1,2) e] by (simp add: verify_step_def)
  next
    case even: False
    show ?thesis
    proof (cases "fn = sn")
      case False
      with even show ?thesis
        using assms parity right_related_shift [OF assms(1,2) e] by (simp add: verify_step_def)
    next
      case True
      with assms obtain d a b where *: "strip_zeros fn sn = (a, b)"
        "strip_zeros (fn + 2 ^ e) (sn + 2 ^ e) = (a + 2 ^ d, b + 2 ^ d)" "a \<le> b" "b < 2 ^ d" "d \<noteq> 0"
        using strip_zeros_shifted [of fn sn e] by auto
      with even True show ?thesis
        using assms parity right_related_shift [OF *(3-5)] by (simp add: verify_step_def)
    qed
  qed
qed

interpretation right: path_simulation sha right_related "\<lambda>q p. node_hash sha p q" for sha
proof
  fix s fn sn r p
  assume rel: "right_related s (fn, sn, r)" and nz: "sn \<noteq> 0"
  then obtain e where s: "s = (fn + 2 ^ e, sn + 2 ^ e, r)" and b: "fn \<le> sn" "sn < 2 ^ e"
    by (auto simp: right_related_def)
  from right_step [OF b nz] show "\<exists>s' i'. verify_step sha p s = Some s' \<and> verify_step sha p (fn, sn, r) = Some i' \<and> right_related s' i'"
    using s by simp
next
  fix s fn r p
  assume "right_related s (fn, 0, r)"
  then obtain e where s: "s = (2 ^ e, 2 ^ e, r)" by (auto simp: right_related_def)
  then show "\<exists>fn'. verify_step sha p s = Some (fn', 0, node_hash sha p r)"
    using strip_zeros_power [of e] by (cases "e = 0") (simp_all add: verify_step_def)
next
  fix fn sn r i
  assume "right_related (fn, sn, r) i"
  then show "sn \<noteq> 0" by (auto simp: right_related_def)
qed

section \<open>The loop is the recursion\<close>

lemma rebuild_one [simp]: "rebuild sha (Suc 0) m r ps = (if ps = [] then Some r else None)"
  by (simp add: rebuild.simps)

lemma rebuild_left:
  assumes "1 < n" "m < tree_split n"
  shows "rebuild sha n m r ps = Some r' \<longleftrightarrow>
    (\<exists>qs p q. ps = qs @ [p] \<and> rebuild sha (tree_split n) m r qs = Some q \<and> r' = node_hash sha q p)"
  using assms by (cases ps rule: rev_cases) (auto simp: rebuild.simps [of sha n] Let_def)

lemma rebuild_right:
  assumes "1 < n" "\<not> m < tree_split n"
  shows "rebuild sha n m r ps = Some r' \<longleftrightarrow>
    (\<exists>qs p q. ps = qs @ [p] \<and> rebuild sha (n - tree_split n) (m - tree_split n) r qs = Some q \<and>
      r' = node_hash sha p q)"
  using assms by (cases ps rule: rev_cases) (auto simp: rebuild.simps [of sha n] Let_def)

lemma accepts_rebuild: "m < n \<Longrightarrow> accepts sha ps (m, n - 1, r) r' \<longleftrightarrow> rebuild sha n m r ps = Some r'"
proof (induction n arbitrary: m r r' ps rule: less_induct)
  case (less n)
  show ?case
  proof (cases "n = 1")
    case True
    with less.prems show ?thesis by (auto simp: accepts_zero)
  next
    case False
    then have n: "1 < n" using less.prems by simp
    then obtain j where j: "tree_split n = 2 ^ j" "2 ^ j < n" "n \<le> 2 ^ Suc j"
      using tree_split_power by blast
    show ?thesis
    proof (cases "m < tree_split n")
      case True
      have "left_related (m, n - 1, r) (m, tree_split n - 1, r)"
        unfolding left_related_def using j True by (intro exI [of _ j] exI [of _ m] exI [of _ "n - 1"] exI [of _ r]) auto
      from left.accepts_related [OF this] show ?thesis
        using less.IH [of "tree_split n" m] n True j(1,2) by (simp add: rebuild_left)
    next
      case False
      let ?n = "n - tree_split n" and ?m = "m - tree_split n"
      have "m = ?m + 2 ^ j" "n - 1 = (?n - 1) + 2 ^ j" "?m \<le> ?n - 1" "?n - 1 < 2 ^ j"
        using j False less.prems by auto
      then have "right_related (m, n - 1, r) (?m, ?n - 1, r)"
        unfolding right_related_def by metis
      from right.accepts_related [OF this] show ?thesis
        using less.IH [of ?n ?m] n False j(1,2) less.prems by (simp add: rebuild_right)
    qed
  qed
qed

lemma verify_inclusion_iff:
  assumes "m < n"
  shows "verify_inclusion sha (to_hex e) (int m) (int n) (map to_hex ps) (to_hex want) = Some True
    \<longleftrightarrow> rebuild sha n m (leaf_hash sha e) ps = Some want"
proof -
  have "nat (int n - 1) = n - 1" by simp
  then show ?thesis
    using accepts_rebuild [OF assms, of sha ps "leaf_hash sha e" want] assms
    by (auto simp: verify_inclusion_def verify_loop_to_hex accepts_def split: option.splits)
qed

lemma verify_inclusion_True:
  assumes "verify_inclusion sha h i n prf digest = Some True"
  shows "0 \<le> i \<and> i < n \<and> (\<exists>e ps r. from_hex h = Some e \<and> those (map from_hex prf) = Some ps \<and> digest = to_hex r \<and>
    rebuild sha (nat n) (nat i) (leaf_hash sha e) ps = Some r)"
proof -
  from assms have i: "0 \<le> i" "i < n" by (auto simp: verify_inclusion_def split: if_splits)
  from assms obtain e fn r where e: "from_hex h = Some e"
    and loop: "verify_loop sha prf (nat i, nat (n - 1), leaf_hash sha e) = Some (Some (fn, 0, r))"
    and r: "digest = to_hex r"
    by (auto simp: verify_inclusion_def split: if_splits option.splits)
  from verify_loop_Some [OF loop] obtain ps where ps: "those (map from_hex prf) = Some ps"
    "verify_run sha ps (nat i, nat (n - 1), leaf_hash sha e) = Some (fn, 0, r)" by blast
  moreover have "nat (n - 1) = nat n - 1" using i by simp
  ultimately have "rebuild sha (nat n) (nat i) (leaf_hash sha e) ps = Some r"
    using accepts_rebuild [of "nat i" "nat n" sha ps "leaf_hash sha e" r] i by (auto simp: accepts_def)
  with i e ps r show ?thesis by blast
qed

section \<open>Completeness, soundness and binding\<close>

lemma tree_root_one [simp]: "tree_root sha [x] = leaf_hash sha x"
  by (simp add: tree_root.simps)

lemma tree_root_split:
  "1 < length xs \<Longrightarrow> tree_root sha xs =
   node_hash sha (tree_root sha (take (tree_split (length xs)) xs)) (tree_root sha (drop (tree_split (length xs)) xs))"
  by (simp add: tree_root.simps [of sha xs] Let_def)

lemma raw_hashes_length: "raw_hashes hs = Some bs \<Longrightarrow> length bs = length hs \<and> list_all (\<lambda>b. length b = 32) bs"
  by (induction hs arbitrary: bs) (auto split: option.splits if_splits)

lemma raw_hashes_nth: "raw_hashes hs = Some bs \<Longrightarrow> m < length hs \<Longrightarrow> from_hex (hs ! m) = Some (bs ! m)"
  by (induction hs arbitrary: bs m) (auto simp: nth_Cons split: option.splits if_splits nat.splits)

lemma rebuild_tree_path:
  "m < length xs \<Longrightarrow>
   rebuild sha (length xs) m (leaf_hash sha (xs ! m)) (tree_path sha xs m) = Some (tree_root sha xs)"
proof (induction xs arbitrary: m rule: length_induct)
  case (1 xs)
  show ?case
  proof (cases "length xs = 1")
    case True
    then obtain x where "xs = [x]" by (cases xs) auto
    with 1(2) show ?thesis by (simp add: tree_path.simps)
  next
    case False
    let ?k = "tree_split (length xs)"
    from False 1(2) have n: "1 < length xs" by simp
    then have k: "0 < ?k" "?k < length xs" using tree_split_bounds by auto
    show ?thesis
    proof (cases "m < ?k")
      case True
      with k 1(1) have "rebuild sha ?k m (leaf_hash sha (xs ! m)) (tree_path sha (take ?k xs) m)
          = Some (tree_root sha (take ?k xs))"
        by (auto dest!: spec [of _ "take ?k xs"] spec [of _ m] simp: min_def)
      then show ?thesis
        using n True by (simp add: rebuild_left tree_root_split [OF n] tree_path.simps [of sha xs] Let_def)
    next
      case False
      with k 1 have "rebuild sha (length xs - ?k) (m - ?k) (leaf_hash sha (xs ! m)) (tree_path sha (drop ?k xs) (m - ?k))
          = Some (tree_root sha (drop ?k xs))"
        by (auto dest!: spec [of _ "drop ?k xs"] spec [of _ "m - ?k"])
      then show ?thesis
        using n False by (simp add: rebuild_right tree_root_split [OF n] tree_path.simps [of sha xs] Let_def)
    qed
  qed
qed

text \<open>Two inputs of the hash: the pair that \<open>sha\<close> sends to one digest, when the proof is for another entry.\<close>

function audit_collision :: "(bytes \<Rightarrow> bytes) \<Rightarrow> bytes list \<Rightarrow> nat \<Rightarrow> bytes \<Rightarrow> bytes list \<Rightarrow> bytes \<times> bytes" where
  "audit_collision sha xs m e ps =
     (if length xs \<le> 1 then (0 # hd xs, 0 # e)
      else (let k = tree_split (length xs);
                l = tree_root sha (take k xs);
                r = tree_root sha (drop k xs) in
        if m < k
        then (let q = the (rebuild sha k m (leaf_hash sha e) (butlast ps)) in
          if l @ r = q @ last ps then audit_collision sha (take k xs) m e (butlast ps)
          else (1 # l @ r, 1 # q @ last ps))
        else (let q = the (rebuild sha (length xs - k) (m - k) (leaf_hash sha e) (butlast ps)) in
          if l @ r = last ps @ q then audit_collision sha (drop k xs) (m - k) e (butlast ps)
          else (1 # l @ r, 1 # last ps @ q))))"
  by pat_completeness auto

termination audit_collision
  by (relation "measure (\<lambda>(sha, xs, m, e, ps). length xs)") (auto simp: not_le tree_split_less)

declare audit_collision.simps [simp del]

definition collides :: "(bytes \<Rightarrow> bytes) \<Rightarrow> bytes \<times> bytes \<Rightarrow> bool" where
  "collides sha ab = (fst ab \<noteq> snd ab \<and> sha (fst ab) = sha (snd ab))"

lemma tree_root_is_hash: "\<exists>x. tree_root sha xs = sha x"
  by (cases "length xs \<le> 1") (auto simp: tree_root.simps [of sha xs] Let_def leaf_hash_def node_hash_def)

lemma rebuild_is_hash:
  "rebuild sha n m (sha x) ps = Some r \<Longrightarrow> \<exists>x. r = sha x"
  by (cases "n \<le> 1")
     (auto simp: rebuild.simps [of sha n] Let_def node_hash_def split: if_splits)

lemma audit_collision_sound:
  assumes len: "\<And>x. length (sha x) = 32"
  shows "m < length xs \<Longrightarrow> rebuild sha (length xs) m (leaf_hash sha e) ps = Some (tree_root sha xs) \<Longrightarrow>
    e \<noteq> xs ! m \<Longrightarrow> collides sha (audit_collision sha xs m e ps)"
proof (induction xs arbitrary: m ps rule: length_induct)
  case (1 xs)
  show ?case
  proof (cases "length xs = 1")
    case True
    then obtain x where "xs = [x]" by (cases xs) auto
    with 1(2-4) show ?thesis
      by (auto simp: audit_collision.simps collides_def leaf_hash_def split: if_splits)
  next
    case False
    let ?k = "tree_split (length xs)"
    let ?l = "tree_root sha (take ?k xs)" and ?r = "tree_root sha (drop ?k xs)"
    from False 1(2) have n: "1 < length xs" by simp
    then have k: "0 < ?k" "?k < length xs" using tree_split_bounds by auto
    have lens: "length ?l = 32" "length ?r = 32" using tree_root_is_hash [of sha] len by metis+
    show ?thesis
    proof (cases "m < ?k")
      case True
      from 1(3) obtain qs p q where q: "ps = qs @ [p]" "rebuild sha ?k m (leaf_hash sha e) qs = Some q"
          "node_hash sha ?l ?r = node_hash sha q p"
        by (auto simp: rebuild_left [OF n True] tree_root_split [OF n])
      then have "length q = 32" using rebuild_is_hash len by (metis leaf_hash_def)
      with lens have same: "?l @ ?r = q @ p \<Longrightarrow> ?l = q" by simp
      have "?l @ ?r = q @ p \<Longrightarrow> collides sha (audit_collision sha (take ?k xs) m e qs)"
        using 1(1,4) True k q(2) same
        by (auto dest!: spec [of _ "take ?k xs"] spec [of _ m] spec [of _ qs] simp: min_def)
      then show ?thesis
        using n True q by (simp add: audit_collision.simps [of sha xs] Let_def) (auto simp: collides_def node_hash_def)
    next
      case False
      from 1(3) obtain qs p q where q: "ps = qs @ [p]"
          "rebuild sha (length xs - ?k) (m - ?k) (leaf_hash sha e) qs = Some q"
          "node_hash sha ?l ?r = node_hash sha p q"
        by (auto simp: rebuild_right [OF n False] tree_root_split [OF n])
      then have "length q = 32" using rebuild_is_hash len by (metis leaf_hash_def)
      with lens have same: "?l @ ?r = p @ q \<Longrightarrow> ?r = q"
        by (metis append_eq_append_conv)
      have "?l @ ?r = p @ q \<Longrightarrow> collides sha (audit_collision sha (drop ?k xs) (m - ?k) e qs)"
        using 1(1,2,4) False k q(2) same
        by (auto dest!: spec [of _ "drop ?k xs"] spec [of _ "m - ?k"] spec [of _ qs])
      then show ?thesis
        using n False q by (simp add: audit_collision.simps [of sha xs] Let_def) (auto simp: collides_def node_hash_def)
    qed
  qed
qed

text \<open>The pair for two lists of leaves with one root.\<close>

function root_collision :: "(bytes \<Rightarrow> bytes) \<Rightarrow> bytes list \<Rightarrow> bytes list \<Rightarrow> bytes \<times> bytes" where
  "root_collision sha xs ys =
     (let k = tree_split (length xs); j = tree_split (length ys);
          a = (if length xs \<le> 1 then 0 # hd xs
               else 1 # tree_root sha (take k xs) @ tree_root sha (drop k xs));
          b = (if length ys \<le> 1 then 0 # hd ys
               else 1 # tree_root sha (take j ys) @ tree_root sha (drop j ys)) in
      if a \<noteq> b \<or> length xs \<le> 1 then (a, b)
      else if take k xs \<noteq> take j ys then root_collision sha (take k xs) (take j ys)
      else root_collision sha (drop k xs) (drop j ys))"
  by pat_completeness auto

termination root_collision
  by (relation "measure (\<lambda>(sha, xs, ys). length xs)") (auto simp: not_le tree_split_less)

declare root_collision.simps [simp del]

lemma root_collision_sound:
  assumes len: "\<And>x. length (sha x) = 32"
  shows "tree_root sha xs = tree_root sha ys \<Longrightarrow> xs \<noteq> ys \<Longrightarrow> xs \<noteq> [] \<Longrightarrow> ys \<noteq> [] \<Longrightarrow>
    collides sha (root_collision sha xs ys)"
proof (induction xs arbitrary: ys rule: length_induct)
  case (1 xs)
  define k j where "k = tree_split (length xs)" and "j = tree_split (length ys)"
  define a where "a = (if length xs \<le> 1 then 0 # hd xs
               else 1 # tree_root sha (take k xs) @ tree_root sha (drop k xs))"
  define b where "b = (if length ys \<le> 1 then 0 # hd ys
               else 1 # tree_root sha (take j ys) @ tree_root sha (drop j ys))"
  have hashed: "tree_root sha zs = sha (if length zs \<le> 1 then 0 # hd zs
      else 1 # tree_root sha (take (tree_split (length zs)) zs) @ tree_root sha (drop (tree_split (length zs)) zs))" for zs
    by (subst tree_root.simps) (simp add: Let_def leaf_hash_def node_hash_def)
  have ab: "sha a = sha b" using 1(2) unfolding hashed [of xs] hashed [of ys] a_def b_def k_def j_def .
  have unf: "root_collision sha xs ys =
      (if a \<noteq> b \<or> length xs \<le> 1 then (a, b)
       else if take k xs \<noteq> take j ys then root_collision sha (take k xs) (take j ys)
       else root_collision sha (drop k xs) (drop j ys))"
    by (subst root_collision.simps) (simp only: Let_def a_def b_def k_def j_def)
  show ?case
  proof (cases "a \<noteq> b")
    case True
    then show ?thesis using ab by (simp add: unf collides_def)
  next
    case False
    then have "length xs > 1 \<and> length ys > 1"
      using 1(3-5) by (cases xs; cases ys) (auto simp: a_def b_def split: if_splits)
    then have n: "1 < length xs" "1 < length ys" by auto
    then have kj: "0 < k" "k < length xs" "0 < j" "j < length ys"
      using tree_split_bounds [of "length xs"] tree_split_bounds [of "length ys"] by (auto simp: k_def j_def)
    have "length (tree_root sha (take k xs)) = length (tree_root sha (take j ys))"
      using tree_root_is_hash [of sha] len by metis
    with False n have roots: "tree_root sha (take k xs) = tree_root sha (take j ys)"
        "tree_root sha (drop k xs) = tree_root sha (drop j ys)"
      by (auto simp: a_def b_def)
    show ?thesis
    proof (cases "take k xs = take j ys")
      case same: True
      then have "drop k xs \<noteq> drop j ys" using 1(3) by (metis append_take_drop_id)
      with 1(1) kj roots(2) have "collides sha (root_collision sha (drop k xs) (drop j ys))"
        by (auto dest!: spec [of _ "drop k xs"] spec [of _ "drop j ys"])
      then show ?thesis using False n same by (simp add: unf)
    next
      case differ: False
      have "collides sha (root_collision sha (take k xs) (take j ys))"
        by (rule 1(1) [rule_format, of "take k xs" "take j ys"]) (use kj roots(1) differ in auto)
      then show ?thesis using False n differ by (simp add: unf)
    qed
  qed
qed

lemma merkle_root_Some:
  "hs \<noteq> [] \<Longrightarrow> raw_hashes hs = Some xs \<Longrightarrow> merkle_root sha hs = Some (to_hex (tree_root sha xs))"
  by (simp add: merkle_root_def)

lemma merkle_root_Some_iff:
  "hs \<noteq> [] \<Longrightarrow> merkle_root sha hs = Some t \<longleftrightarrow> (\<exists>xs. raw_hashes hs = Some xs \<and> t = to_hex (tree_root sha xs))"
  by (auto simp: merkle_root_def)

lemma raw_hashes_Nil [simp]: "raw_hashes hs = Some [] \<longleftrightarrow> hs = []"
  using raw_hashes_length by fastforce

lemma verify_inclusion_decoded:
  "from_hex h = Some e \<Longrightarrow> verify_inclusion sha h i n prf r = verify_inclusion sha (to_hex e) i n prf r"
  by (simp add: verify_inclusion_def)

lemma proof_exists:
  assumes "raw_hashes hs = Some leaves" "i < length hs"
  shows "\<exists>prf digest. inclusion_proof sha hs (int i) = Inr prf \<and> merkle_root sha hs = Some digest \<and>
    verify_inclusion sha (hs ! i) (int i) (int (length hs)) prf digest = Some True"
proof (intro exI conjI)
  have n: "length leaves = length hs" using raw_hashes_length [OF assms(1)] by simp
  have e: "from_hex (hs ! i) = Some (leaves ! i)" by (rule raw_hashes_nth [OF assms])
  show "inclusion_proof sha hs (int i) = Inr (map to_hex (tree_path sha leaves i))"
    using assms n by (simp add: inclusion_proof_def)
  show "merkle_root sha hs = Some (to_hex (tree_root sha leaves))"
    using assms by (auto simp: merkle_root_def)
  show "verify_inclusion sha (hs ! i) (int i) (int (length hs)) (map to_hex (tree_path sha leaves i))
      (to_hex (tree_root sha leaves)) = Some True"
    using rebuild_tree_path [of i leaves sha] assms(2) n
    by (simp add: verify_inclusion_decoded [OF e] verify_inclusion_iff)
qed

section \<open>Properties\<close>

text \<open>
  Completeness of inclusion proofs: for every entry of a list of well formed entry hashes,
  of any length, \<open>inclusion_proof\<close> returns a proof that \<open>verify_inclusion\<close> accepts against the Merkle root of
  the list. The loop of RFC 9162 walks two integers and knows nothing of the tree; the theorem is the
  equivalence of that loop with the recursion on the tree.
\<close>

theorem inclusion_proof_verifies:
  assumes "raw_hashes hs = Some leaves" "i < length hs"
  shows "\<exists>prf digest. inclusion_proof sha hs (int i) = Inr prf \<and> merkle_root sha hs = Some digest \<and>
    verify_inclusion sha (hs ! i) (int i) (int (length hs)) prf digest = Some True"
  by (rule proof_exists [OF assms])

text \<open>
  Property C17. Soundness of inclusion proofs, as a reduction: when \<open>verify_inclusion\<close> accepts an entry
  hash against the Merkle root of a list at an index, with whatever proof, the entry hash is the one at
  that index, or the computable \<open>audit_collision\<close> gives two inputs that SHA-256 sends to one digest. The
  digest length is the only fact of SHA-256 used.
\<close>

theorem inclusion_proof_sound:
  assumes "\<And>x. length (sha x) = 32"
    and "raw_hashes hs = Some leaves" and "merkle_root sha hs = Some digest"
    and "verify_inclusion sha h i (int (length hs)) prf digest = Some True"
  shows "from_hex h = Some (leaves ! nat i) \<or>
    collides sha (audit_collision sha leaves (nat i) (the (from_hex h)) (the (those (map from_hex prf))))"
proof -
  from verify_inclusion_True [OF assms(4)] obtain e ps r where i: "0 \<le> i" "i < int (length hs)"
    and e: "from_hex h = Some e" "those (map from_hex prf) = Some ps" "digest = to_hex r"
      "rebuild sha (length hs) (nat i) (leaf_hash sha e) ps = Some r" by auto
  have n: "length leaves = length hs" using raw_hashes_length [OF assms(2)] by simp
  have "r = tree_root sha leaves"
    using assms(2,3) e(3) i by (auto simp: merkle_root_def split: if_splits)
  moreover have "nat i < length hs" using i by linarith
  ultimately have "?thesis \<longleftrightarrow> True"
    using audit_collision_sound [where sha = sha, OF assms(1), where m = "nat i" and xs = leaves and e = e and ps = ps] n e by auto
  then show ?thesis by simp
qed

text \<open>
  A Merkle root binds the list, its length included: two non-empty lists of entry hashes with
  one root have the same hashes in the same order, or \<open>root_collision\<close> gives a collision of SHA-256.
\<close>

theorem merkle_root_binds:
  assumes "\<And>x. length (sha x) = 32"
    and "hs \<noteq> []" "gs \<noteq> []" and "merkle_root sha hs = Some digest" "merkle_root sha gs = Some digest"
  shows "raw_hashes hs = raw_hashes gs \<or>
    collides sha (root_collision sha (the (raw_hashes hs)) (the (raw_hashes gs)))"
proof -
  from assms(2-5) obtain xs ys where *: "raw_hashes hs = Some xs" "raw_hashes gs = Some ys"
      "tree_root sha xs = tree_root sha ys"
    by (auto simp: merkle_root_Some_iff)
  moreover have "xs \<noteq> []" "ys \<noteq> []" using *(1,2) assms(2,3) by auto
  ultimately show ?thesis
    using root_collision_sound [where sha = sha, OF assms(1), where xs = xs and ys = ys] by auto
qed

subsection \<open>Witnesses\<close>

text \<open>A hash of 32 bytes to evaluate with: the first 32 bytes of the input, padded.\<close>

definition sample_sha :: "bytes \<Rightarrow> bytes" where
  "sample_sha x = take 32 (x @ replicate 32 0)"

lemma sample_sha_length: "length (sample_sha x) = 32"
  by (simp add: sample_sha_def)

definition sample_hashes :: "string list" where
  "sample_hashes = map (\<lambda>b. to_hex (b # replicate 31 7)) [1, 2, 3]"

definition sample_leaves :: "bytes list" where
  "sample_leaves = map (\<lambda>b. b # replicate 31 7) [1, 2, 3]"

lemma sample_hashes_raw: "raw_hashes sample_hashes = Some sample_leaves"
  by code_simp

lemma sample_root: "merkle_root sample_sha sample_hashes =
    Some (to_hex (tree_root sample_sha sample_leaves))"
  by (simp add: merkle_root_def sample_hashes_raw) (simp add: sample_hashes_def)

theorem inclusion_proof_verifies_witness:
  "\<exists>prf digest. inclusion_proof sample_sha sample_hashes 2 = Inr prf \<and>
    merkle_root sample_sha sample_hashes = Some digest \<and>
    verify_inclusion sample_sha (sample_hashes ! 2) 2 3 prf digest = Some True"
  using inclusion_proof_verifies [OF sample_hashes_raw, where i = 2 and sha = sample_sha] by (simp add: sample_hashes_def)

theorem inclusion_proof_sound_witness:
  "from_hex (to_hex (3 # replicate 31 7)) = Some (sample_leaves ! nat 2) \<or>
    collides sample_sha (audit_collision sample_sha sample_leaves (nat 2)
      (the (from_hex (to_hex (3 # replicate 31 7))))
      (the (those (map from_hex [to_hex (tree_root sample_sha (map (\<lambda>b. b # replicate 31 7) [1, 2]))]))))"
  by (rule inclusion_proof_sound [where digest = "to_hex (tree_root sample_sha sample_leaves)", OF sample_sha_length sample_hashes_raw sample_root]) code_simp

theorem merkle_root_binds_witness:
  "raw_hashes [to_hex (replicate 32 0)] = raw_hashes [to_hex (replicate 31 0 @ [1])] \<or>
    collides sample_sha (root_collision sample_sha (the (raw_hashes [to_hex (replicate 32 0)]))
      (the (raw_hashes [to_hex (replicate 31 0 @ [1])])))"
  by (rule merkle_root_binds [OF sample_sha_length, where digest = "to_hex (replicate 32 0)"]) code_simp+

end
