(* ===== verification/Canonical.thy ===== *)
theory Canonical
  imports Merkle
begin

text \<open>
  Canonical JSON (\<open>ski_schemas/canonical.py\<close>): RFC 8785 serialization with the NFC rule, and the strict
  parser in front of it.

  Text is a list of Unicode code points. The interpreter is the parameter \<open>runtime\<close>: the rounding of a
  number to the nearest double (\<open>float\<close>), the shortest decimal of a double (\<open>repr\<close>), Unicode NFC, and the
  longest literal \<open>int\<close> accepts. A double is the rational it stands for, so \<open>-0.0\<close> is \<open>0\<close>.

  The lemmas of this theory are on the pieces: the value of a decimal, escapes and UTF-8.
\<close>

type_synonym ustr = "nat list"

definition ascii :: "string \<Rightarrow> ustr" where
  "ascii s = map of_char s"

record runtime =
  nearest :: "rat \<Rightarrow> rat option"
  repr_text :: "rat \<Rightarrow> ustr"
  nfc :: "ustr \<Rightarrow> ustr"
  max_int_digits :: nat

datatype json =
    JNull
  | JBool bool
  | JInt int
  | JFloat pyfloat
  | JStr ustr
  | JArr "json list"
  | JObj "(ustr option \<times> json) list"
  | JOther

text \<open>A member name that is no text is \<open>None\<close>; \<open>JOther\<close> is a value of any other type.\<close>

datatype canon_error =
    OutsideDoubleRange int
  | NotExact int
  | NotFinite
  | LoneSurrogate nat
  | NameNotText
  | NoRepresentation
  | BadConstant
  | LiteralOverflow
  | DuplicateName ustr
  | MalformedJson

section \<open>Numbers\<close>

definition exact_int_limit :: int where
  "exact_int_limit = 9007199254740992"

definition int_to_double :: "runtime \<Rightarrow> int \<Rightarrow> canon_error + rat" where
  "int_to_double rt i =
     (if - exact_int_limit \<le> i \<and> i \<le> exact_int_limit then Inr (of_int i)
      else (case nearest rt (of_int i) of
          None \<Rightarrow> Inl (OutsideDoubleRange i)
        | Some q \<Rightarrow> if q \<noteq> of_int i then Inl (NotExact i) else Inr q))"

definition digits_nat :: "ustr \<Rightarrow> nat" where
  "digits_nat t = foldl (\<lambda>a c. 10 * a + (c - 48)) 0 t"

text \<open>\<open>int(s)\<close> on an optional sign and digits.\<close>

definition text_int :: "ustr \<Rightarrow> int" where
  "text_int t =
     (case t of
        [] \<Rightarrow> 0
      | c # cs \<Rightarrow>
          if c = 45 then - int (digits_nat cs)
          else if c = 43 then int (digits_nat cs)
          else int (digits_nat t))"

text \<open>\<open>t.partition(sep)\<close> without the separator.\<close>

definition cut_at :: "nat \<Rightarrow> ustr \<Rightarrow> ustr \<times> ustr" where
  "cut_at sep t = (let h = takeWhile (\<lambda>c. c \<noteq> sep) t in (h, drop (Suc (length h)) t))"

definition shortest_digits :: "runtime \<Rightarrow> rat \<Rightarrow> ustr \<times> int" where
  "shortest_digits rt q =
     (let (mantissa, exponent_text) = cut_at 101 (repr_text rt q);
          exponent = (if exponent_text \<noteq> [] then text_int exponent_text else 0);
          (int_part, frac_part) = cut_at 46 mantissa;
          raw = int_part @ frac_part;
          stripped = dropWhile (\<lambda>c. c = 48) raw;
          leading_zeros = length raw - length stripped;
          digits = rev (dropWhile (\<lambda>c. c = 48) (rev stripped))
      in (digits, int (length int_part) + exponent - int leading_zeros))"

fun nat_text :: "nat \<Rightarrow> ustr" where
  "nat_text n = (if n < 10 then [48 + n] else nat_text (n div 10) @ [48 + n mod 10])"

declare nat_text.simps [simp del]

text \<open>The four notations of \<open>Number::toString\<close>.\<close>

definition number_body :: "ustr \<Rightarrow> int \<Rightarrow> ustr" where
  "number_body digits n =
     (let k = int (length digits) in
      if k \<le> n \<and> n \<le> 21 then digits @ replicate (nat (n - k)) 48
      else if 0 < n \<and> n \<le> 21 then take (nat n) digits @ [46] @ drop (nat n) digits
      else if - 6 < n \<and> n \<le> 0 then [48, 46] @ replicate (nat (- n)) 48 @ digits
      else
        (let e = n - 1;
             exp_text = (if e \<ge> 0 then [43] else [45]) @ nat_text (nat \<bar>e\<bar>)
         in if k = 1 then digits @ [101] @ exp_text
            else take 1 digits @ [46] @ drop 1 digits @ [101] @ exp_text))"

definition serialize_double :: "runtime \<Rightarrow> rat \<Rightarrow> ustr" where
  "serialize_double rt q =
     (if q = 0 then [48]
      else (let (digits, n) = shortest_digits rt \<bar>q\<bar> in
        (if q < 0 then [45] else []) @ number_body digits n))"

text \<open>\<open>serialize_number\<close> on a number that is no \<open>bool\<close>.\<close>

definition serialize_number :: "runtime \<Rightarrow> json \<Rightarrow> canon_error + ustr" where
  "serialize_number rt v =
     (case v of
        JInt i \<Rightarrow> map_sum id (serialize_double rt) (int_to_double rt i)
      | JFloat (Fin q) \<Rightarrow> Inr (serialize_double rt q)
      | _ \<Rightarrow> Inl NotFinite)"

section \<open>Strings\<close>

definition surrogate :: "nat \<Rightarrow> bool" where
  "surrogate c = (55296 \<le> c \<and> c \<le> 57343)"

text \<open>\<open>_check_unicode\<close>: UTF-8 encoding fails at the first surrogate.\<close>

definition check_unicode :: "ustr \<Rightarrow> canon_error + unit" where
  "check_unicode t =
     (case find (\<lambda>i. surrogate (t ! i)) [0..<length t] of None \<Rightarrow> Inr () | Some i \<Rightarrow> Inl (LoneSurrogate i))"

definition short_escapes :: "(nat \<times> nat) list" where
  "short_escapes = [(8, 98), (9, 116), (10, 110), (12, 102), (13, 114), (34, 34), (92, 92)]"

definition hex_code :: "nat \<Rightarrow> nat" where
  "hex_code d = (if d < 10 then 48 + d else 87 + d)"

definition escape_char :: "nat \<Rightarrow> ustr" where
  "escape_char c =
     (case map_of short_escapes c of
        Some s \<Rightarrow> [92, s]
      | None \<Rightarrow> if c < 32 then [92, 117, 48, 48, hex_code (c div 16), hex_code (c mod 16)] else [c])"

definition quote_text :: "ustr \<Rightarrow> ustr" where
  "quote_text t = [34] @ concat (map escape_char t) @ [34]"

definition serialize_string :: "ustr \<Rightarrow> canon_error + ustr" where
  "serialize_string t = map_sum id (\<lambda>_. quote_text t) (check_unicode t)"

text \<open>\<open>name.encode("utf-16-be")\<close>, the sort key of a member name.\<close>

definition utf16_units :: "nat \<Rightarrow> nat list" where
  "utf16_units c =
     (if c < 65536 then [c] else [55296 + (c - 65536) div 1024, 56320 + (c - 65536) mod 1024])"

definition utf16_sort_key :: "ustr \<Rightarrow> nat list" where
  "utf16_sort_key t = concat (map (\<lambda>u. [u div 256, u mod 256]) (concat (map utf16_units t)))"

section \<open>Serialization\<close>

fun collect :: "('e + 'a) list \<Rightarrow> 'e + 'a list" where
  "collect [] = Inr []"
| "collect (x # xs) = (case x of Inl e \<Rightarrow> Inl e | Inr a \<Rightarrow> map_sum id (\<lambda>as. a # as) (collect xs))"

fun commas :: "ustr list \<Rightarrow> ustr" where
  "commas [] = []"
| "commas [t] = t"
| "commas (t # ts) = t @ [44] @ commas ts"

fun check_names :: "ustr option list \<Rightarrow> canon_error + unit" where
  "check_names [] = Inr ()"
| "check_names (n # ns) =
     (case n of
        None \<Rightarrow> Inl NameNotText
      | Some t \<Rightarrow> (case check_unicode t of Inl e \<Rightarrow> Inl e | Inr _ \<Rightarrow> check_names ns))"

definition member_key :: "ustr option \<times> 'a \<Rightarrow> nat list" where
  "member_key p = utf16_sort_key (the (fst p))"

definition member_text :: "ustr option \<times> (canon_error + ustr) \<Rightarrow> canon_error + ustr" where
  "member_text p = map_sum id (\<lambda>t. quote_text (the (fst p)) @ [58] @ t) (snd p)"

fun serialize :: "runtime \<Rightarrow> json \<Rightarrow> canon_error + ustr"
  and serialize_items :: "runtime \<Rightarrow> json list \<Rightarrow> (canon_error + ustr) list"
  and serialize_values :: "runtime \<Rightarrow> (ustr option \<times> json) list \<Rightarrow> (ustr option \<times> (canon_error + ustr)) list"
where
  "serialize rt JNull = Inr (ascii ''null'')"
| "serialize rt (JBool b) = Inr (if b then ascii ''true'' else ascii ''false'')"
| "serialize rt (JInt i) = serialize_number rt (JInt i)"
| "serialize rt (JFloat x) = serialize_number rt (JFloat x)"
| "serialize rt (JStr t) = serialize_string t"
| "serialize rt (JArr xs) = map_sum id (\<lambda>ts. [91] @ commas ts @ [93]) (collect (serialize_items rt xs))"
| "serialize rt (JObj ms) =
     (case check_names (map fst ms) of
        Inl e \<Rightarrow> Inl e
      | Inr _ \<Rightarrow> map_sum id (\<lambda>ts. [123] @ commas ts @ [125])
          (collect (map member_text (sort_key member_key (serialize_values rt ms)))))"
| "serialize rt JOther = Inl NoRepresentation"
| "serialize_items rt [] = []"
| "serialize_items rt (x # xs) = serialize rt x # serialize_items rt xs"
| "serialize_values rt [] = []"
| "serialize_values rt ((n, x) # ms) = (n, serialize rt x) # serialize_values rt ms"

definition utf8_char :: "nat \<Rightarrow> nat list" where
  "utf8_char c =
     (if c < 128 then [c]
      else if c < 2048 then [192 + c div 64, 128 + c mod 64]
      else if c < 65536 then [224 + c div 4096, 128 + (c div 64) mod 64, 128 + c mod 64]
      else [240 + c div 262144, 128 + (c div 4096) mod 64, 128 + (c div 64) mod 64, 128 + c mod 64])"

definition utf8 :: "ustr \<Rightarrow> bytes" where
  "utf8 t = map of_nat (concat (map utf8_char t))"

definition jcs_canonicalize :: "runtime \<Rightarrow> json \<Rightarrow> canon_error + bytes" where
  "jcs_canonicalize rt v = map_sum id utf8 (serialize rt v)"

fun nfc_normalize_values :: "runtime \<Rightarrow> json \<Rightarrow> canon_error + json"
  and nfc_items :: "runtime \<Rightarrow> json list \<Rightarrow> (canon_error + json) list"
  and nfc_members :: "runtime \<Rightarrow> (ustr option \<times> json) list \<Rightarrow> (canon_error + ustr option \<times> json) list"
where
  "nfc_normalize_values rt (JStr t) = map_sum id (\<lambda>_. JStr (nfc rt t)) (check_unicode t)"
| "nfc_normalize_values rt (JArr xs) = map_sum id JArr (collect (nfc_items rt xs))"
| "nfc_normalize_values rt (JObj ms) = map_sum id JObj (collect (nfc_members rt ms))"
| "nfc_normalize_values rt JNull = Inr JNull"
| "nfc_normalize_values rt (JBool b) = Inr (JBool b)"
| "nfc_normalize_values rt (JInt i) = Inr (JInt i)"
| "nfc_normalize_values rt (JFloat x) = Inr (JFloat x)"
| "nfc_normalize_values rt JOther = Inr JOther"
| "nfc_items rt [] = []"
| "nfc_items rt (x # xs) = nfc_normalize_values rt x # nfc_items rt xs"
| "nfc_members rt [] = []"
| "nfc_members rt ((n, x) # ms) = map_sum id (Pair n) (nfc_normalize_values rt x) # nfc_members rt ms"

definition canonicalize :: "runtime \<Rightarrow> json \<Rightarrow> canon_error + bytes" where
  "canonicalize rt v =
     (case nfc_normalize_values rt v of Inl e \<Rightarrow> Inl e | Inr w \<Rightarrow> jcs_canonicalize rt w)"

section \<open>Strict parsing\<close>

text \<open>
  The standard library's scanner is the parameter \<open>scan\<close>; it yields the syntax tree with the literals as
  written, and \<open>None\<close> for malformed text. \<open>json.loads\<close> calls the hooks of the source bottom up, in the
  order of the text.
\<close>

datatype raw_json =
    RNull
  | RBool bool
  | RInt ustr
  | RFloat ustr
  | RConst ustr
  | RStr ustr
  | RArr "raw_json list"
  | RObj "(ustr \<times> raw_json) list"

text \<open>The number that a literal denotes in decimal notation.\<close>

definition read_unsigned :: "ustr \<Rightarrow> rat" where
  "read_unsigned t =
     (let (mantissa, exponent_text) = cut_at 101 t;
          (int_part, frac_part) = cut_at 46 mantissa
      in of_nat (digits_nat (int_part @ frac_part)) *
         10 powi ((if exponent_text \<noteq> [] then text_int exponent_text else 0) - int (length frac_part)))"

definition read_decimal :: "ustr \<Rightarrow> rat" where
  "read_decimal t = (case t of [] \<Rightarrow> 0 | c # cs \<Rightarrow> if c = 45 then - read_unsigned cs else read_unsigned t)"

text \<open>An upper-case exponent mark reads as a lower-case one.\<close>

definition lower_mark :: "ustr \<Rightarrow> ustr" where
  "lower_mark t = map (\<lambda>c. if c = 69 then 101 else c) t"

definition parse_float :: "runtime \<Rightarrow> ustr \<Rightarrow> canon_error + json" where
  "parse_float rt t =
     (case nearest rt (read_decimal (lower_mark t)) of
        None \<Rightarrow> Inl LiteralOverflow
      | Some q \<Rightarrow> Inr (JFloat (Fin q)))"

definition parse_int :: "runtime \<Rightarrow> ustr \<Rightarrow> canon_error + json" where
  "parse_int rt t =
     (if length (filter (\<lambda>c. 48 \<le> c) t) > max_int_digits rt then Inl LiteralOverflow
      else (let i = text_int t in
        if - exact_int_limit \<le> i \<and> i \<le> exact_int_limit then Inr (JInt i)
        else (case nearest rt (of_int i) of
            None \<Rightarrow> Inl LiteralOverflow
          | Some q \<Rightarrow> if q = of_int i then Inr (JInt i) else Inr (JFloat (Fin q)))))"

fun no_duplicates :: "ustr list \<Rightarrow> (ustr \<times> json) list \<Rightarrow> canon_error + (ustr option \<times> json) list" where
  "no_duplicates seen [] = Inr []"
| "no_duplicates seen ((n, v) # ms) =
     (if n \<in> set seen then Inl (DuplicateName n)
      else map_sum id (\<lambda>rest. (Some n, v) # rest) (no_duplicates (n # seen) ms))"

fun apply_hooks :: "runtime \<Rightarrow> raw_json \<Rightarrow> canon_error + json"
  and apply_hooks_items :: "runtime \<Rightarrow> raw_json list \<Rightarrow> (canon_error + json) list"
  and apply_hooks_members :: "runtime \<Rightarrow> (ustr \<times> raw_json) list \<Rightarrow> (canon_error + ustr \<times> json) list"
where
  "apply_hooks rt RNull = Inr JNull"
| "apply_hooks rt (RBool b) = Inr (JBool b)"
| "apply_hooks rt (RInt t) = parse_int rt t"
| "apply_hooks rt (RFloat t) = parse_float rt t"
| "apply_hooks rt (RConst t) = Inl BadConstant"
| "apply_hooks rt (RStr t) = Inr (JStr t)"
| "apply_hooks rt (RArr xs) = map_sum id JArr (collect (apply_hooks_items rt xs))"
| "apply_hooks rt (RObj ms) =
     (case collect (apply_hooks_members rt ms) of Inl e \<Rightarrow> Inl e | Inr vs \<Rightarrow> map_sum id JObj (no_duplicates [] vs))"
| "apply_hooks_items rt [] = []"
| "apply_hooks_items rt (x # xs) = apply_hooks rt x # apply_hooks_items rt xs"
| "apply_hooks_members rt [] = []"
| "apply_hooks_members rt ((n, x) # ms) = map_sum id (Pair n) (apply_hooks rt x) # apply_hooks_members rt ms"

fun check_tree :: "json \<Rightarrow> canon_error + unit"
  and check_items :: "json list \<Rightarrow> (canon_error + unit) list"
  and check_members :: "(ustr option \<times> json) list \<Rightarrow> (canon_error + unit) list"
where
  "check_tree (JStr t) = check_unicode t"
| "check_tree (JObj ms) = map_sum id (\<lambda>_. ()) (collect (check_members ms))"
| "check_tree (JArr xs) = map_sum id (\<lambda>_. ()) (collect (check_items xs))"
| "check_tree JNull = Inr ()"
| "check_tree (JBool b) = Inr ()"
| "check_tree (JInt i) = Inr ()"
| "check_tree (JFloat x) = Inr ()"
| "check_tree JOther = Inr ()"
| "check_items [] = []"
| "check_items (x # xs) = check_tree x # check_items xs"
| "check_members [] = []"
| "check_members ((n, x) # ms) = check_unicode (the n) # check_tree x # check_members ms"

definition parse_json :: "runtime \<Rightarrow> (ustr \<Rightarrow> raw_json option) \<Rightarrow> ustr \<Rightarrow> canon_error + json" where
  "parse_json rt scan t =
     (case scan t of
        None \<Rightarrow> Inl MalformedJson
      | Some r \<Rightarrow>
          (case apply_hooks rt r of
             Inl e \<Rightarrow> Inl e
           | Inr v \<Rightarrow> map_sum id (\<lambda>_. v) (check_tree v)))"

definition canonicalize_json_text ::
  "runtime \<Rightarrow> (ustr \<Rightarrow> raw_json option) \<Rightarrow> ustr \<Rightarrow> canon_error + bytes" where
  "canonicalize_json_text rt scan t =
     (case parse_json rt scan t of Inl e \<Rightarrow> Inl e | Inr v \<Rightarrow> canonicalize rt v)"

text \<open>\<open>sha256_canonical\<close>.\<close>

definition sha256_canonical :: "runtime \<Rightarrow> (bytes \<Rightarrow> bytes) \<Rightarrow> json \<Rightarrow> canon_error + string" where
  "sha256_canonical rt sha v = map_sum id (\<lambda>b. ''sha256:'' @ to_hex (sha b)) (canonicalize rt v)"

section \<open>Numbers\<close>

lemma foldl_digits: "foldl (\<lambda>a c. 10 * a + (c - 48)) k t = k * 10 ^ length t + digits_nat t" for k :: nat
  unfolding digits_nat_def
proof (induction t arbitrary: k)
  case (Cons c t)
  show ?case
    using Cons [of "10 * k + (c - 48)"] Cons [of "c - 48"] by (simp add: algebra_simps)
qed simp

lemma digits_nat_append: "digits_nat (a @ b) = digits_nat a * 10 ^ length b + digits_nat b"
  using foldl_digits [of "digits_nat a" b] by (simp add: digits_nat_def)

lemma digits_nat_Nil [simp]: "digits_nat [] = 0"
  by (simp add: digits_nat_def)

lemma digits_nat_Cons: "digits_nat (c # t) = (c - 48) * 10 ^ length t + digits_nat t"
  using foldl_digits [of "c - 48" t] by (simp add: digits_nat_def)

lemma digits_nat_zeros [simp]: "digits_nat (replicate k 48) = 0"
  by (induction k) (simp_all add: digits_nat_Cons)

lemma digits_nat_lstrip: "digits_nat (dropWhile (\<lambda>c. c = 48) t) = digits_nat t"
  by (induction t) (simp_all add: digits_nat_Cons)

lemma digits_nat_rstrip:
  "digits_nat t = digits_nat (rev (dropWhile (\<lambda>c. c = 48) (rev t))) *
     10 ^ (length t - length (dropWhile (\<lambda>c. c = 48) (rev t)))"
proof -
  let ?d = "dropWhile (\<lambda>c. c = 48) (rev t)" and ?z = "takeWhile (\<lambda>c. c = 48) (rev t)"
  have z: "?z = replicate (length ?z) 48"
    by (metis (mono_tags, lifting) replicate_eqI set_takeWhileD)
  have "rev t = ?z @ ?d" by simp
  then have "t = rev ?d @ rev ?z" by (metis rev_append rev_rev_ident)
  also have "rev ?z = replicate (length ?z) 48" by (metis z rev_replicate)
  finally have t: "t = rev ?d @ replicate (length ?z) 48" .
  have "length t - length ?d = length ?z" by (subst t) simp
  then show ?thesis
    by (subst t) (simp add: digits_nat_append)
qed

definition decimal :: "ustr \<Rightarrow> int \<Rightarrow> rat" where
  "decimal digits n = of_nat (digits_nat digits) * 10 powi (n - int (length digits))"

lemma ten_powi_add: "(10 :: rat) powi (a + b) = 10 powi a * 10 powi b"
  by (simp add: power_int_add)

lemma shortest_digits_value:
  assumes "shortest_digits rt q = (digits, n)"
  shows "read_unsigned (repr_text rt q) = decimal digits n"
proof -
  obtain mantissa et where c1: "cut_at 101 (repr_text rt q) = (mantissa, et)" by fastforce
  obtain ip fp where c2: "cut_at 46 mantissa = (ip, fp)" by fastforce
  define e where "e = (if et \<noteq> [] then text_int et else 0)"
  define st where "st = dropWhile (\<lambda>c. c = 48) (ip @ fp)"
  define z where "z = length st - length (dropWhile (\<lambda>c. c = 48) (rev st))"
  have le: "length (dropWhile (\<lambda>c. c = 48) (rev st)) \<le> length st"
    by (metis length_dropWhile_le length_rev)
  have le2: "length st \<le> length (ip @ fp)" unfolding st_def by (rule length_dropWhile_le)
  from assms have d: "digits = rev (dropWhile (\<lambda>c. c = 48) (rev st))"
      "n = int (length ip) + e - int (length (ip @ fp) - length st)"
    by (simp_all add: shortest_digits_def c1 c2 e_def st_def Let_def)
  have val: "digits_nat (ip @ fp) = digits_nat digits * 10 ^ z"
    using digits_nat_rstrip [of st] digits_nat_lstrip [of "ip @ fp"] by (simp add: d(1) z_def st_def)
  have len: "int (length digits) = int (length st) - int z" using le by (simp add: d(1) z_def)
  have ex: "n - int (length digits) = int z + (e - int (length fp))"
    using le2 by (simp add: len d(2) of_nat_diff)
  have "read_unsigned (repr_text rt q) = of_nat (digits_nat (ip @ fp)) * 10 powi (e - int (length fp))"
    by (simp add: read_unsigned_def c1 c2 e_def)
  also have "\<dots> = of_nat (digits_nat digits) * (10 powi int z * 10 powi (e - int (length fp)))"
    by (simp add: val)
  also have "\<dots> = decimal digits n"
    by (simp add: decimal_def ex ten_powi_add)
  finally show ?thesis .
qed

definition is_digit :: "nat \<Rightarrow> bool" where
  "is_digit c = (48 \<le> c \<and> c \<le> 57)"

lemma nat_text_digits: "list_all is_digit (nat_text n) \<and> nat_text n \<noteq> []"
proof (induction n rule: nat_text.induct)
  case (1 n)
  have "n mod 10 < 10" by simp
  with 1 show ?case by (subst (1 2) nat_text.simps) (auto simp: list_all_iff is_digit_def)
qed

lemma digits_nat_text [simp]: "digits_nat (nat_text n) = n"
proof (induction n rule: nat_text.induct)
  case (1 n)
  then show ?case
    by (subst nat_text.simps) (auto simp: digits_nat_append digits_nat_Cons)
qed

lemma cut_at_found: "sep \<notin> set a \<Longrightarrow> cut_at sep (a @ [sep] @ b) = (a, b)"
  by (induction a) (auto simp: cut_at_def Let_def)

lemma cut_at_missing: "sep \<notin> set a \<Longrightarrow> cut_at sep a = (a, [])"
  by (induction a) (auto simp: cut_at_def Let_def)

lemma digits_no_mark: "list_all is_digit t \<Longrightarrow> c < 48 \<or> 57 < c \<Longrightarrow> c \<notin> set t"
  by (auto simp: list_all_iff is_digit_def)

lemma text_int_signed:
  "text_int ([43] @ nat_text k) = int k" "text_int ([45] @ nat_text k) = - int k"
  by (simp_all add: text_int_def)

lemma number_body_value:
  assumes digits: "list_all is_digit digits" "digits \<noteq> []"
  shows "read_unsigned (number_body digits n) = decimal digits n"
proof -
  let ?k = "int (length digits)"
  have no: "46 \<notin> set digits" "101 \<notin> set digits" using digits_no_mark [OF digits(1)] by auto
  consider (integer) "?k \<le> n" "n \<le> 21"
    | (point) "0 < n" "n < ?k" "n \<le> 21"
    | (small) "- 6 < n" "n \<le> 0"
    | (exponent) "n > 21 \<or> n \<le> - 6" by linarith
  then show ?thesis
  proof cases
    case integer
    then have "number_body digits n = digits @ replicate (nat (n - ?k)) 48"
      by (simp add: number_body_def)
    moreover have "46 \<notin> set (digits @ replicate (nat (n - ?k)) 48)" "101 \<notin> set (digits @ replicate (nat (n - ?k)) 48)"
      using no by auto
    ultimately show ?thesis
      using integer by (simp add: read_unsigned_def cut_at_missing digits_nat_append decimal_def power_int_def)
  next
    case point
    let ?a = "take (nat n) digits" and ?b = "drop (nat n) digits"
    have m: "46 \<notin> set ?a" "101 \<notin> set (?a @ [46] @ ?b)"
      using no by (auto dest: in_set_takeD in_set_dropD)
    have "number_body digits n = ?a @ [46] @ ?b"
      using point by (simp add: number_body_def)
    moreover have "int (length ?b) = ?k - n" using point by simp
    ultimately show ?thesis
      using cut_at_missing [OF m(2)] cut_at_found [OF m(1), of ?b] by (simp add: read_unsigned_def decimal_def)
  next
    case small
    let ?b = "replicate (nat (- n)) 48 @ digits"
    have m: "101 \<notin> set ([48] @ [46] @ ?b)" "46 \<notin> set [48 :: nat]" using no by auto
    have "\<not> ?k \<le> n" using small digits(2) by (cases digits) auto
    then have "number_body digits n = [48] @ [46] @ ?b"
      using small by (simp add: number_body_def Let_def)
    moreover have "int (length ?b) = ?k - n" using small by simp
    moreover have "digits_nat ([48] @ ?b) = digits_nat digits"
      by (simp add: digits_nat_Cons digits_nat_append)
    ultimately show ?thesis
      using cut_at_missing [OF m(1)] cut_at_found [OF m(2), of ?b]
      by (simp add: read_unsigned_def decimal_def digits_nat_Cons digits_nat_append)
  next
    case exponent
    let ?e = "(if n - 1 \<ge> 0 then [43] else [45]) @ nat_text (nat \<bar>n - 1\<bar>)"
    have e: "text_int ?e = n - 1" "?e \<noteq> []"
      by (simp_all add: text_int_signed [simplified])
    have plain: "\<not> (?k \<le> n \<and> n \<le> 21)" "\<not> (0 < n \<and> n \<le> 21)" "\<not> (- 6 < n \<and> n \<le> 0)"
      using exponent digits(2) by (auto simp: Suc_le_eq)
    show ?thesis
    proof (cases "?k = 1")
      case True
      have "number_body digits n = digits @ [101] @ ?e"
        unfolding number_body_def Let_def using plain True by (simp only: if_False if_True refl)
      then show ?thesis
        using cut_at_found [OF no(2), of ?e] cut_at_missing [OF no(1)] e True
        by (simp add: read_unsigned_def decimal_def del: append.simps)
    next
      case False
      let ?a = "take 1 digits" and ?b = "drop 1 digits"
      have m: "46 \<notin> set ?a" "101 \<notin> set (?a @ [46] @ ?b)"
        using no by (auto dest: in_set_takeD in_set_dropD)
      have "number_body digits n = (?a @ [46] @ ?b) @ [101] @ ?e"
        unfolding number_body_def Let_def using plain False by (simp only: if_False append_assoc)
      moreover have "int (length ?b) = ?k - 1" using digits(2) by (cases digits) auto
      moreover have "?a @ ?b = digits" by (rule append_take_drop_id)
      ultimately show ?thesis
        using cut_at_found [OF m(2), of ?e] cut_at_found [OF m(1), of ?b] e
        by (simp add: read_unsigned_def decimal_def del: append.simps append_assoc)
    qed
  qed
qed

section \<open>Strings and UTF-8\<close>

lemma hex_code_inject: "a < 16 \<Longrightarrow> b < 16 \<Longrightarrow> hex_code a = hex_code b \<longleftrightarrow> a = b"
  by (auto simp: hex_code_def split: if_splits)

definition short_name :: "nat \<Rightarrow> nat option" where
  "short_name c = map_of short_escapes c"

lemma short_name_inject: "short_name c = Some s \<Longrightarrow> short_name d = Some s \<Longrightarrow> c = d"
  by (auto simp: short_name_def short_escapes_def split: if_splits)

lemma short_name_u: "short_name c = Some s \<Longrightarrow> s \<noteq> 117"
  by (auto simp: short_name_def short_escapes_def split: if_splits)

lemma short_name_92: "short_name 92 = Some 92" "short_name 34 = Some 34"
  by (simp_all add: short_name_def short_escapes_def)

lemma escape_char_cases:
  obtains (short) s where "short_name c = Some s" "escape_char c = [92, s]"
  | (control) "c < 32" "short_name c = None" "escape_char c = [92, 117, 48, 48, hex_code (c div 16), hex_code (c mod 16)]"
  | (plain) "c \<noteq> 92" "c \<noteq> 34" "escape_char c = [c]"
proof (cases "short_name c")
  case None
  moreover from None have "c \<noteq> 92" "c \<noteq> 34" using short_name_92 by auto
  ultimately show thesis using that(2,3) by (cases "c < 32") (auto simp: escape_char_def short_name_def)
next
  case (Some s)
  then show thesis using that(1) by (auto simp: escape_char_def short_name_def)
qed

lemma escape_char_prefix: "escape_char c @ x = escape_char d @ y \<Longrightarrow> c = d \<and> x = y"
proof -
  assume eq: "escape_char c @ x = escape_char d @ y"
  have ctrl: "c = d" if "c < 32" "d < 32" "hex_code (c div 16) = hex_code (d div 16)"
      "hex_code (c mod 16) = hex_code (d mod 16)"
  proof -
    have "c div 16 = d div 16" "c mod 16 = d mod 16"
      using that hex_code_inject [of "c div 16" "d div 16"] hex_code_inject [of "c mod 16" "d mod 16"] by auto
    then show ?thesis by (metis div_mult_mod_eq)
  qed
  show ?thesis
    using eq by (cases c rule: escape_char_cases; cases d rule: escape_char_cases)
      (auto dest: short_name_inject short_name_u intro: ctrl)
qed

lemma escape_char_not_quote: "escape_char c \<noteq> [] \<and> hd (escape_char c) \<noteq> 34"
  by (cases c rule: escape_char_cases) auto

lemma escaped_prefix:
  "concat (map escape_char a) @ [34] @ r = concat (map escape_char b) @ [34] @ s \<Longrightarrow> a = b \<and> r = s"
proof (induction a arbitrary: b)
  case Nil
  show ?case
  proof (cases b)
    case (Cons d b')
    have "hd (escape_char d @ concat (map escape_char b') @ [34] @ s) = 34"
      using Nil Cons by (metis append.assoc append_Nil concat.simps(1,2) hd_append2 list.sel(1) list.simps(8,9) append_Cons)
    then show ?thesis using escape_char_not_quote [of d] by simp
  qed (use Nil in simp)
next
  case (Cons c a)
  show ?case
  proof (cases b)
    case Nil
    have "hd (escape_char c @ concat (map escape_char a) @ [34] @ r) = 34"
      using Cons.prems Nil by simp
    then show ?thesis using escape_char_not_quote [of c] by simp
  next
    case (Cons d b')
    have "escape_char c @ (concat (map escape_char a) @ [34] @ r) = escape_char d @ (concat (map escape_char b') @ [34] @ s)"
      using Cons.prems Cons by simp
    from escape_char_prefix [OF this] Cons.IH [of b'] Cons show ?thesis by simp
  qed
qed

lemma quote_text_prefix: "quote_text a @ r = quote_text b @ s \<Longrightarrow> a = b \<and> r = s"
  using escaped_prefix [of a r b s] by (simp add: quote_text_def)

lemma div_mod_64: "c = 64 * (c div 64) + c mod 64" for c :: nat
  by simp

lemma utf8_char_prefix:
  assumes "c < 1114112" "d < 1114112" "utf8_char c @ x = utf8_char d @ y"
  shows "c = d \<and> x = y"
proof -
  have two: "c = d" if "c div 64 = d div 64" "c mod 64 = d mod 64" for c d :: nat
    using that by (metis div_mult_mod_eq)
  have three: "c = d" if "c div 4096 = d div 4096" "c div 64 mod 64 = d div 64 mod 64" "c mod 64 = d mod 64" for c d :: nat
  proof -
    have "c div 64 div 64 = d div 64 div 64" using that(1) by (simp add: div_mult2_eq [symmetric])
    then show ?thesis using that two by blast
  qed
  have four: "c = d" if "c div 262144 = d div 262144" "c div 4096 mod 64 = d div 4096 mod 64"
    "c div 64 mod 64 = d div 64 mod 64" "c mod 64 = d mod 64" for c d :: nat
  proof -
    have "c div 4096 div 64 = d div 4096 div 64" using that(1) by (simp add: div_mult2_eq [symmetric])
    then have "c div 4096 = d div 4096" using that(2) two by blast
    then show ?thesis using that three by blast
  qed
  have lead: "c div 64 < 32" if "c < 2048" for c :: nat using that by auto
  have lead3: "c div 4096 < 16" if "c < 65536" for c :: nat using that by auto
  have u: "utf8_char c = [c]" if "c < 128" for c using that by (simp add: utf8_char_def)
  show ?thesis
    using assms
    by (auto simp: utf8_char_def intro: two three four split: if_splits dest: lead lead3)
qed

lemma utf8_char_bytes: "c < 1114112 \<Longrightarrow> list_all (\<lambda>b. b < 256) (utf8_char c)"
  by (auto simp: utf8_char_def)

lemma utf8_char_not_Nil [simp]: "utf8_char c \<noteq> []"
  by (simp add: utf8_char_def)

definition code_points :: "ustr \<Rightarrow> bool" where
  "code_points t = list_all (\<lambda>c. c < 1114112) t"

lemma utf8_nats_inject:
  "code_points a \<Longrightarrow> code_points b \<Longrightarrow> concat (map utf8_char a) = concat (map utf8_char b) \<Longrightarrow> a = b"
proof (induction a arbitrary: b)
  case Nil
  then show ?case by (cases b) auto
next
  case (Cons c a)
  then obtain d b' where b: "b = d # b'" by (cases b) auto
  with Cons.prems utf8_char_prefix [of c d "concat (map utf8_char a)" "concat (map utf8_char b')"] Cons.IH [of b']
  show ?case by (auto simp: code_points_def)
qed

lemma word_map_inject:
  "list_all (\<lambda>b. b < 256) xs \<Longrightarrow> list_all (\<lambda>b. b < 256) ys \<Longrightarrow>
   map (of_nat :: nat \<Rightarrow> 8 word) xs = map of_nat ys \<Longrightarrow> xs = ys"
proof (induction xs arbitrary: ys)
  case (Cons x xs)
  then obtain y ys' where ys: "ys = y # ys'" by (cases ys) auto
  have "unat (of_nat x :: 8 word) = x" "unat (of_nat y :: 8 word) = y"
    using Cons.prems(1,2) ys by (simp_all add: unsigned_of_nat take_bit_eq_mod)
  then have "x = y" using Cons.prems(3) ys by (metis list.simps(9) list.inject)
  with Cons ys show ?case by simp
qed simp

lemma utf8_bytes: "code_points t \<Longrightarrow> list_all (\<lambda>b. b < 256) (concat (map utf8_char t))"
  using utf8_char_bytes by (induction t) (auto simp: code_points_def list_all_iff)

lemma utf8_inject: "code_points a \<Longrightarrow> code_points b \<Longrightarrow> utf8 a = utf8 b \<Longrightarrow> a = b"
  unfolding utf8_def by (metis word_map_inject utf8_bytes utf8_nats_inject)

end
