(* ===== verification/Canonical_Reading.thy ===== *)
theory Canonical_Reading
  imports Canonical "HOL-Library.Multiset"
begin

text \<open>
  What canonical JSON promises: the text of a number reads back as the number, equal bytes mean equal
  values up to the order of members and the spelling of numbers, the order of members does not matter, and
  every text that the strict parser accepts has a canonical form.
\<close>

section \<open>The laws of the interpreter and well typed values\<close>

text \<open>
  What the code relies on: \<open>float\<close> is odd, keeps zero and the integers up to \<open>2 ^ 53\<close>; \<open>repr\<close> of a positive
  double is a decimal literal that \<open>float\<close> reads back as the double; NFC yields Unicode text again.
\<close>

definition plain_literal :: "ustr \<Rightarrow> bool" where
  "plain_literal t =
     (let (mantissa, e) = cut_at 101 t; (ip, fp) = cut_at 46 mantissa in list_all is_digit (ip @ fp))"

definition runtime_laws :: "runtime \<Rightarrow> bool" where
  "runtime_laws rt \<longleftrightarrow>
     (\<forall>i. \<bar>i\<bar> \<le> exact_int_limit \<longrightarrow> nearest rt (of_int i) = Some (of_int i)) \<and>
     (\<forall>q. nearest rt (- q) = map_option uminus (nearest rt q)) \<and>
     (\<forall>q p. nearest rt q = Some p \<longrightarrow> nearest rt p = Some p) \<and>
     (\<forall>q > 0. nearest rt q = Some q \<longrightarrow>
        plain_literal (repr_text rt q) \<and> nearest rt (read_unsigned (repr_text rt q)) = Some q) \<and>
     (\<forall>t. check_unicode t = Inr () \<longrightarrow> check_unicode (nfc rt t) = Inr ()) \<and>
     (\<forall>t. code_points t \<longrightarrow> code_points (nfc rt t))"

text \<open>Every string holds code points, every float is a double.\<close>

fun well_typed :: "runtime \<Rightarrow> json \<Rightarrow> bool" where
  "well_typed rt (JStr t) = code_points t"
| "well_typed rt (JFloat (Fin q)) = (nearest rt q = Some q)"
| "well_typed rt (JArr xs) = list_all (well_typed rt) xs"
| "well_typed rt (JObj ms) =
     list_all (\<lambda>m. (case fst m of None \<Rightarrow> True | Some n \<Rightarrow> code_points n) \<and> well_typed rt (snd m)) ms"
| "well_typed rt _ = True"

lemma runtime_facts:
  assumes "runtime_laws rt"
  shows nearest_int: "\<bar>i\<bar> \<le> exact_int_limit \<Longrightarrow> nearest rt (of_int i) = Some (of_int i)"
    and nearest_minus: "nearest rt (- q) = map_option uminus (nearest rt q)"
    and nearest_idem: "nearest rt q = Some p \<Longrightarrow> nearest rt p = Some p"
    and repr_plain: "q > 0 \<Longrightarrow> nearest rt q = Some q \<Longrightarrow> plain_literal (repr_text rt q)"
    and repr_back: "q > 0 \<Longrightarrow> nearest rt q = Some q \<Longrightarrow> nearest rt (read_unsigned (repr_text rt q)) = Some q"
    and nfc_unicode: "check_unicode t = Inr () \<Longrightarrow> check_unicode (nfc rt t) = Inr ()"
    and nfc_code_points: "code_points t \<Longrightarrow> code_points (nfc rt t)"
  using assms unfolding runtime_laws_def by blast+

lemma nearest_zero: "runtime_laws rt \<Longrightarrow> nearest rt 0 = Some 0"
  using nearest_int [of rt 0] by (simp add: exact_int_limit_def)

lemma shortest_digits_ok:
  assumes "runtime_laws rt" "q > 0" "nearest rt q = Some q" "shortest_digits rt q = (digits, n)"
  shows "list_all is_digit digits \<and> digits \<noteq> [] \<and> nearest rt (decimal digits n) = Some q"
proof -
  have reads: "nearest rt (decimal digits n) = Some q"
    using shortest_digits_value [OF assms(4)] repr_back [OF assms(1-3)] by simp
  have "digits \<noteq> []"
  proof
    assume "digits = []"
    then have "decimal digits n = 0" by (simp add: decimal_def)
    with reads nearest_zero [OF assms(1)] assms(2) show False by simp
  qed
  moreover have "list_all is_digit digits"
  proof -
    obtain mantissa et where c1: "cut_at 101 (repr_text rt q) = (mantissa, et)" by fastforce
    obtain ip fp where c2: "cut_at 46 mantissa = (ip, fp)" by fastforce
    have "list_all is_digit (ip @ fp)"
      using repr_plain [OF assms(1-3)] by (simp add: plain_literal_def c1 c2)
    moreover have "set digits \<subseteq> set (ip @ fp)"
      using assms(4) by (auto simp: shortest_digits_def c1 c2 Let_def dest!: set_dropWhileD)
    ultimately show ?thesis by (auto simp: list_all_iff)
  qed
  ultimately show ?thesis using reads by blast
qed

definition number_char :: "nat \<Rightarrow> bool" where
  "number_char c = (is_digit c \<or> c \<in> {43, 45, 46, 101})"

lemma number_body_chars:
  assumes "list_all is_digit digits" "digits \<noteq> []"
  shows "list_all number_char (number_body digits n) \<and> number_body digits n \<noteq> [] \<and> is_digit (hd (number_body digits n))"
proof -
  have e: "list_all number_char (nat_text k)" for k
    using nat_text_digits [of k] by (auto simp: list_all_iff number_char_def)
  have d: "list_all number_char digits" "is_digit (hd digits)"
    using assms by (auto simp: list_all_iff number_char_def)
  have sub: "list_all number_char (take k digits)" "list_all number_char (drop k digits)" for k
    using d(1) by (auto simp: list_all_iff dest: in_set_takeD in_set_dropD)
  have z: "list_all number_char (replicate k 48)" for k
    by (simp add: list_all_iff number_char_def is_digit_def)
  have one: "number_char 43" "number_char 45" "number_char 46" "number_char 101" "number_char 48" "is_digit 48"
    by (simp_all add: number_char_def is_digit_def)
  have pos: "hd (take k digits @ x) = hd digits" "take k digits \<noteq> []" if "0 < k" for k x
    using that assms(2) by (auto simp: hd_append)
  show ?thesis
    unfolding number_body_def Let_def
    using assms(2) d sub z e one pos by (auto simp: hd_append)
qed

lemma serialize_double_ok:
  assumes "runtime_laws rt" "nearest rt q = Some q"
  shows "list_all number_char (serialize_double rt q) \<and> serialize_double rt q \<noteq> [] \<and>
    (is_digit (hd (serialize_double rt q)) \<or> hd (serialize_double rt q) = 45) \<and>
    nearest rt (read_decimal (serialize_double rt q)) = Some q"
proof (cases "q = 0")
  case True
  then show ?thesis
    using nearest_zero [OF assms(1)]
    by (simp add: serialize_double_def number_char_def is_digit_def read_decimal_def read_unsigned_def
        cut_at_def digits_nat_Cons)
next
  case False
  obtain digits n where s: "shortest_digits rt \<bar>q\<bar> = (digits, n)" by fastforce
  have "nearest rt \<bar>q\<bar> = Some \<bar>q\<bar>"
    using assms nearest_minus [OF assms(1), of q] by (cases "q < 0") auto
  from shortest_digits_ok [OF assms(1) _ this s] False
  have d: "list_all is_digit digits" "digits \<noteq> []" "nearest rt (decimal digits n) = Some \<bar>q\<bar>" by auto
  note b = number_body_chars [OF d(1,2), of n]
  have reads: "read_unsigned (number_body digits n) = decimal digits n"
    by (rule number_body_value [OF d(1,2)])
  show ?thesis
  proof (cases "q < 0")
    case True
    then have "serialize_double rt q = 45 # number_body digits n"
      using s by (simp add: serialize_double_def)
    then show ?thesis
      using b reads True d(3) nearest_minus [OF assms(1), of "decimal digits n"]
      by (simp add: read_decimal_def number_char_def)
  next
    case pos: False
    then have t: "serialize_double rt q = number_body digits n"
      using False s by (simp add: serialize_double_def)
    then have "read_decimal (serialize_double rt q) = read_unsigned (number_body digits n)"
      using b by (cases "number_body digits n") (auto simp: read_decimal_def is_digit_def)
    with t b reads d(3) pos show ?thesis by auto
  qed
qed

definition number_value :: "json \<Rightarrow> rat option" where
  "number_value v = (case v of JInt i \<Rightarrow> Some (of_int i) | JFloat (Fin q) \<Rightarrow> Some q | _ \<Rightarrow> None)"

lemma serialize_number_ok:
  assumes "runtime_laws rt" "well_typed rt v" "serialize_number rt v = Inr t"
  shows "\<exists>q. number_value v = Some q \<and> nearest rt q = Some q \<and> t = serialize_double rt q"
proof (cases v)
  case (JInt i)
  with assms(3) have "int_to_double rt i = Inr (of_int i) \<and> t = serialize_double rt (of_int i)"
    by (auto simp: serialize_number_def int_to_double_def split: if_splits option.splits)
  moreover from this have "nearest rt (of_int i) = Some (of_int i)"
    using nearest_int [OF assms(1), of i] by (auto simp: int_to_double_def abs_le_iff split: if_splits option.splits)
  ultimately show ?thesis using JInt by (simp add: number_value_def)
next
  case (JFloat x)
  with assms(2,3) show ?thesis
    by (cases x) (auto simp: serialize_number_def number_value_def)
qed (use assms(3) in \<open>simp_all add: serialize_number_def\<close>)

section \<open>Unique reading\<close>

definition delimited :: "ustr \<Rightarrow> bool" where
  "delimited r = (r = [] \<or> hd r \<in> {44, 93, 125})"

lemma number_prefix:
  assumes "list_all number_char a" "list_all number_char b" "a @ r = b @ s" "delimited r" "delimited s"
  shows "a = b \<and> r = s"
proof -
  have stop: "takeWhile number_char (x @ y) = x" if "list_all number_char x" "delimited y" for x y
    using that by (cases y) (auto simp: delimited_def takeWhile_append list_all_iff number_char_def is_digit_def)
  have "a = b" using stop [of a r] stop [of b s] assms by simp
  with assms(3) show ?thesis by simp
qed

text \<open>The normal form: an integer is its number, members are in the order of their names.\<close>

fun normal :: "json \<Rightarrow> json" where
  "normal (JInt i) = JFloat (Fin (of_int i))"
| "normal (JArr xs) = JArr (map normal xs)"
| "normal (JObj ms) = JObj (sort_key member_key (map (\<lambda>m. (fst m, normal (snd m))) ms))"
| "normal v = v"

lemma normal_number: "number_value v = Some q \<Longrightarrow> normal v = JFloat (Fin q)"
  by (cases v) (auto simp: number_value_def split: pyfloat.splits)

lemma serialize_items_map: "serialize_items rt xs = map (serialize rt) xs"
  by (induction xs) simp_all

lemma serialize_values_map: "serialize_values rt ms = map (\<lambda>m. (fst m, serialize rt (snd m))) ms"
  by (induction ms) auto

lemma sort_key_map:
  assumes "\<And>x. x \<in> set xs \<Longrightarrow> f (g x) = h x"
  shows "sort_key f (map g xs) = map g (sort_key h xs)"
proof -
  have ins: "insort_key f (g x) (map g ys) = map g (insort_key h x ys)"
    if "f (g x) = h x" "\<And>y. y \<in> set ys \<Longrightarrow> f (g y) = h y" for x ys
    using that by (induction ys) auto
  show ?thesis
    using assms
  proof (induction xs)
    case (Cons a xs)
    then have "insort_key f (g a) (map g (sort_key h xs)) = map g (insort_key h a (sort_key h xs))"
      by (intro ins) auto
    with Cons show ?case by simp
  qed simp
qed

lemma collect_map_Inr [simp]: "collect (map Inr ys) = Inr ys"
  by (induction ys) simp_all

lemma collect_Inr: "collect xs = Inr ys \<longleftrightarrow> xs = map Inr ys"
proof
  show "collect xs = Inr ys \<Longrightarrow> xs = map Inr ys"
  proof (induction xs arbitrary: ys)
    case (Cons x xs)
    then obtain a where x: "x = Inr a" by (cases x) auto
    with Cons.prems obtain zs where "collect xs = Inr zs" "ys = a # zs"
      by (cases "collect xs") auto
    with Cons.IH x show ?case by simp
  qed simp
qed simp

lemma serialize_number_chars:
  assumes "runtime_laws rt" "well_typed rt v" "serialize_number rt v = Inr t"
  shows "list_all number_char t \<and> t \<noteq> [] \<and> (is_digit (hd t) \<or> hd t = 45)"
proof -
  obtain q where "nearest rt q = Some q" "t = serialize_double rt q"
    using serialize_number_ok [OF assms] by auto
  with serialize_double_ok [OF assms(1), of q] show ?thesis by simp
qed

lemma serialize_number_inject:
  assumes "runtime_laws rt" "well_typed rt v" "well_typed rt w"
    and "serialize_number rt v = Inr t" "serialize_number rt w = Inr t"
  shows "normal v = normal w"
proof -
  obtain q where q: "number_value v = Some q" "nearest rt q = Some q" "t = serialize_double rt q"
    using serialize_number_ok [OF assms(1,2,4)] by blast
  obtain p where p: "number_value w = Some p" "nearest rt p = Some p" "t = serialize_double rt p"
    using serialize_number_ok [OF assms(1,3,5)] by blast
  have "nearest rt (read_decimal t) = Some q" "nearest rt (read_decimal t) = Some p"
    using serialize_double_ok [OF assms(1) q(2)] serialize_double_ok [OF assms(1) p(2)] q(3) p(3) by simp_all
  then have "p = q" by simp
  with q(1) p(1) show ?thesis by (simp add: normal_number)
qed

text \<open>The first character of a value tells its kind.\<close>

fun head_chars :: "json \<Rightarrow> nat set" where
  "head_chars JNull = {110}"
| "head_chars (JBool b) = (if b then {116} else {102})"
| "head_chars (JInt i) = insert 45 (Collect is_digit)"
| "head_chars (JFloat x) = insert 45 (Collect is_digit)"
| "head_chars (JStr t) = {34}"
| "head_chars (JArr xs) = {91}"
| "head_chars (JObj ms) = {123}"
| "head_chars JOther = {}"

lemma serialize_head:
  assumes "runtime_laws rt" "well_typed rt v" "serialize rt v = Inr t"
  shows "t \<noteq> [] \<and> hd t \<in> head_chars v"
proof (cases v)
  case (JBool b)
  with assms(3) show ?thesis by (cases b) (auto simp: ascii_def)
next
  case (JInt i)
  with assms serialize_number_chars [OF assms(1), of v t] show ?thesis by auto
next
  case (JFloat x)
  with assms serialize_number_chars [OF assms(1), of v t] show ?thesis by auto
next
  case (JStr s)
  with assms(3) show ?thesis
    by (cases "check_unicode s") (auto simp: serialize_string_def quote_text_def)
next
  case (JArr xs)
  with assms(3) show ?thesis by (cases "collect (serialize_items rt xs)") auto
next
  case (JObj ms)
  with assms(3) show ?thesis
    by (cases "collect (map member_text (sort_key member_key (serialize_values rt ms)))") (auto split: sum.splits)
qed (use assms(3) in \<open>auto simp: ascii_def\<close>)

definition starts_value :: "ustr \<Rightarrow> bool" where
  "starts_value t = (t \<noteq> [] \<and> hd t \<notin> {44, 93, 125})"

lemma serialize_starts:
  assumes "runtime_laws rt" "well_typed rt v" "serialize rt v = Inr t"
  shows "starts_value t"
  using serialize_head [OF assms] by (cases v) (auto simp: starts_value_def is_digit_def split: if_splits)

text \<open>A function to text is self-delimiting up to \<open>N\<close> on a set of arguments.\<close>

definition self_delimiting :: "('a \<Rightarrow> 'e + ustr) \<Rightarrow> ('a \<Rightarrow> 'b) \<Rightarrow> 'a \<Rightarrow> 'a \<Rightarrow> bool" where
  "self_delimiting f N x y =
     (\<forall>a b r s. f x = Inr a \<longrightarrow> f y = Inr b \<longrightarrow> a @ r = b @ s \<longrightarrow> delimited r \<longrightarrow> delimited s \<longrightarrow>
        N x = N y \<and> r = s)"

lemma self_delimitingD:
  "self_delimiting f N x y \<Longrightarrow> f x = Inr a \<Longrightarrow> f y = Inr b \<Longrightarrow> a @ r = b @ s \<Longrightarrow> delimited r \<Longrightarrow> delimited s \<Longrightarrow>
   N x = N y \<and> r = s"
  by (auto simp: self_delimiting_def)

lemma commas_Cons: "commas (t # ts) = t @ (if ts = [] then [] else 44 # commas ts)"
  by (cases ts) simp_all

lemma commas_readable:
  assumes "\<And>x y. x \<in> set xs \<Longrightarrow> y \<in> set ys \<Longrightarrow> self_delimiting f N x y"
    and "\<And>x a. x \<in> set xs \<union> set ys \<Longrightarrow> f x = Inr a \<Longrightarrow> starts_value a"
    and "map f xs = map Inr ts" "map f ys = map Inr us"
    and "commas ts @ c # r = commas us @ c # s" "c \<in> {93, 125}"
  shows "map N xs = map N ys \<and> r = s"
  using assms
proof (induction xs arbitrary: ys ts us)
  case Nil
  then have ts: "ts = []" by simp
  show ?case
  proof (cases ys)
    case (Cons y ys')
    then obtain b us' where us: "us = b # us'" "f y = Inr b" using Nil.prems(4) by auto
    then have "starts_value b" using Nil.prems(2) [of y b] Cons by simp
    moreover have "hd (b @ x) = c \<Longrightarrow> b \<noteq> [] \<Longrightarrow> hd b = c" for x by (simp add: hd_append)
    ultimately show ?thesis using Nil.prems(5,6) ts us
      by (cases b) (auto simp: commas_Cons starts_value_def)
  qed (use Nil ts in simp)
next
  case (Cons x xs)
  then obtain a ts' where ts: "ts = a # ts'" "f x = Inr a" "map f xs = map Inr ts'" by auto
  then have a: "starts_value a" using Cons.prems(2) [of x a] by simp
  show ?case
  proof (cases ys)
    case Nil
    with Cons.prems(4) have "us = []" by simp
    with Cons.prems(5,6) ts a show ?thesis by (cases a) (auto simp: commas_Cons starts_value_def)
  next
    case ys: (Cons y ys')
    then obtain b us' where us: "us = b # us'" "f y = Inr b" "map f ys' = map Inr us'"
      using Cons.prems(4) by auto
    let ?r = "(if ts' = [] then [] else 44 # commas ts') @ c # r"
    let ?s = "(if us' = [] then [] else 44 # commas us') @ c # s"
    have eq: "a @ ?r = b @ ?s"
      using Cons.prems(5) by (simp add: ts us commas_Cons)
    have d: "delimited ?r" "delimited ?s" using Cons.prems(6) by (auto simp: delimited_def)
    have first: "N x = N y \<and> ?r = ?s"
      using self_delimitingD [OF Cons.prems(1) [of x y] ts(2) us(2) eq d] ys by simp
    have lengths: "ts' = [] \<longleftrightarrow> us' = []" using first Cons.prems(6) by (auto split: if_splits)
    have "map N xs = map N ys' \<and> r = s"
    proof (cases "ts' = []")
      case True
      with lengths first ts us show ?thesis by simp
    next
      case False
      with lengths first have rest: "commas ts' @ c # r = commas us' @ c # s" by simp
      show ?thesis
        by (rule Cons.IH [OF _ _ ts(3) us(3) rest Cons.prems(6)]) (use Cons.prems(1,2) ys in auto)
    qed
    with first ys show ?thesis by simp
  qed
qed

definition serialize_member :: "runtime \<Rightarrow> ustr option \<times> json \<Rightarrow> canon_error + ustr" where
  "serialize_member rt m = member_text (fst m, serialize rt (snd m))"

lemma serialize_values_sorted:
  "map member_text (sort_key member_key (serialize_values rt ms)) =
   map (serialize_member rt) (sort_key member_key ms)"
proof -
  have "sort_key member_key (serialize_values rt ms) =
      map (\<lambda>m. (fst m, serialize rt (snd m))) (sort_key member_key ms)"
    unfolding serialize_values_map by (rule sort_key_map) (simp add: member_key_def)
  then show ?thesis by (simp add: serialize_member_def)
qed

lemma map_sum_Inr: "map_sum id f x = Inr t \<longleftrightarrow> (\<exists>a. x = Inr a \<and> t = f a)"
  by (cases x) auto

lemma serialize_JArr:
  "serialize rt (JArr xs) = Inr t \<longleftrightarrow> (\<exists>ts. map (serialize rt) xs = map Inr ts \<and> t = 91 # commas ts @ [93])"
  by (simp add: serialize_items_map map_sum_Inr collect_Inr)

lemma serialize_JObj:
  "serialize rt (JObj ms) = Inr t \<longleftrightarrow> check_names (map fst ms) = Inr () \<and>
     (\<exists>ts. map (serialize_member rt) (sort_key member_key ms) = map Inr ts \<and> t = 123 # commas ts @ [125])"
proof (cases "check_names (map fst ms)")
  case (Inr u)
  then show ?thesis
    by (simp add: serialize_values_sorted map_sum_Inr collect_Inr)
qed simp

lemma check_names_Inr:
  "check_names ns = Inr u \<Longrightarrow> n \<in> set ns \<Longrightarrow> \<exists>t. n = Some t \<and> check_unicode t = Inr ()"
  by (induction ns) (auto split: option.splits sum.splits)

lemma serialize_member_Inr:
  "serialize_member rt m = Inr t \<longleftrightarrow>
   (\<exists>a. serialize rt (snd m) = Inr a \<and> t = quote_text (the (fst m)) @ 58 # a)"
  by (cases "serialize rt (snd m)") (auto simp: serialize_member_def member_text_def)

lemma member_starts: "serialize_member rt m = Inr t \<Longrightarrow> starts_value t"
  by (auto simp: serialize_member_Inr starts_value_def quote_text_def)

lemma member_readable:
  assumes "self_delimiting (serialize rt) N (snd m) (snd n)"
  shows "self_delimiting (serialize_member rt) (\<lambda>m. (the (fst m), N (snd m))) m n"
  unfolding self_delimiting_def
proof (intro allI impI)
  fix a b r s
  assume m: "serialize_member rt m = Inr a" and n: "serialize_member rt n = Inr b"
    and eq: "a @ r = b @ s" and d: "delimited r" "delimited s"
  obtain x y where x: "serialize rt (snd m) = Inr x" "a = quote_text (the (fst m)) @ 58 # x"
    and y: "serialize rt (snd n) = Inr y" "b = quote_text (the (fst n)) @ 58 # y"
    using m n by (auto simp: serialize_member_Inr)
  have "quote_text (the (fst m)) @ (58 # x @ r) = quote_text (the (fst n)) @ (58 # y @ s)"
    using eq x(2) y(2) by simp
  from quote_text_prefix [OF this] have "the (fst m) = the (fst n)" "x @ r = y @ s" by auto
  with self_delimitingD [OF assms x(1) y(1) _ d] show "(the (fst m), N (snd m)) = (the (fst n), N (snd n)) \<and> r = s"
    by simp
qed

lemma array_readable:
  assumes "runtime_laws rt" "well_typed rt (JArr xs)" "well_typed rt (JArr ys)"
    and "\<And>x y. x \<in> set xs \<Longrightarrow> y \<in> set ys \<Longrightarrow> self_delimiting (serialize rt) normal x y"
  shows "self_delimiting (serialize rt) normal (JArr xs) (JArr ys)"
  unfolding self_delimiting_def
proof (intro allI impI)
  fix a b r s
  assume a: "serialize rt (JArr xs) = Inr a" and b: "serialize rt (JArr ys) = Inr b" and eq: "a @ r = b @ s"
  obtain ts where ts: "map (serialize rt) xs = map Inr ts" "a = 91 # commas ts @ [93]"
    using a unfolding serialize_JArr by blast
  obtain us where us: "map (serialize rt) ys = map Inr us" "b = 91 # commas us @ [93]"
    using b unfolding serialize_JArr by blast
  have eq': "commas ts @ 93 # r = commas us @ 93 # s" using eq ts(2) us(2) by simp
  have starts: "starts_value a" if "x \<in> set xs \<union> set ys" "serialize rt x = Inr a" for x a
    using serialize_starts [OF assms(1) _ that(2)] that(1) assms(2,3) by (auto simp: list_all_iff)
  have "map normal xs = map normal ys \<and> r = s"
    by (rule commas_readable [OF assms(4) starts ts(1) us(1) eq']) auto
  then show "normal (JArr xs) = normal (JArr ys) \<and> r = s" by simp
qed

lemma object_readable:
  assumes "\<And>m n. m \<in> set ms \<Longrightarrow> n \<in> set ns \<Longrightarrow> self_delimiting (serialize rt) normal (snd m) (snd n)"
  shows "self_delimiting (serialize rt) normal (JObj ms) (JObj ns)"
  unfolding self_delimiting_def
proof (intro allI impI)
  fix a b r s
  assume a: "serialize rt (JObj ms) = Inr a" and b: "serialize rt (JObj ns) = Inr b" and eq: "a @ r = b @ s"
  let ?ms = "sort_key member_key ms" and ?ns = "sort_key member_key ns"
  let ?N = "\<lambda>m :: ustr option \<times> json. (the (fst m), normal (snd m))"
  let ?S = "\<lambda>m :: ustr option \<times> json. (fst m, normal (snd m))"
  obtain ts where ts: "map (serialize_member rt) ?ms = map Inr ts" "a = 123 # commas ts @ [125]"
    and names: "check_names (map fst ms) = Inr ()"
    using a unfolding serialize_JObj by blast
  obtain us where us: "map (serialize_member rt) ?ns = map Inr us" "b = 123 # commas us @ [125]"
    and names': "check_names (map fst ns) = Inr ()"
    using b unfolding serialize_JObj by blast
  have eq': "commas ts @ 125 # r = commas us @ 125 # s" using eq ts(2) us(2) by simp
  have read: "map ?N ?ms = map ?N ?ns \<and> r = s"
    by (rule commas_readable [OF member_readable member_starts ts(1) us(1) eq']) (use assms in auto)
  have named: "map ?S xs = map (\<lambda>p. (Some (fst p), snd p)) (map ?N xs)"
    if "\<forall>m \<in> set xs. fst m \<noteq> None" for xs
    using that by auto
  have some: "\<forall>m \<in> set (sort_key member_key xs). fst m \<noteq> None"
    if "check_names (map fst xs) = Inr ()" for xs :: "(ustr option \<times> json) list"
  proof
    fix m
    assume "m \<in> set (sort_key member_key xs)"
    then have "fst m \<in> set (map fst xs)" by simp
    from check_names_Inr [OF that this] show "fst m \<noteq> None" by auto
  qed
  have "map ?S ?ms = map ?S ?ns"
    unfolding named [OF some [OF names]] named [OF some [OF names']] read [THEN conjunct1] ..
  moreover have "sort_key member_key (map ?S xs) = map ?S (sort_key member_key xs)" for xs
    by (rule sort_key_map) (simp add: member_key_def)
  ultimately show "normal (JObj ms) = normal (JObj ns) \<and> r = s" using read by simp
qed

lemma heads_differ:
  assumes "runtime_laws rt" "well_typed rt v" "well_typed rt w" "head_chars v \<inter> head_chars w = {}"
  shows "self_delimiting (serialize rt) N v w"
  unfolding self_delimiting_def
proof (intro allI impI)
  fix a b r s
  assume "serialize rt v = Inr a" "serialize rt w = Inr b" "a @ r = b @ s"
  with serialize_head [OF assms(1,2)] serialize_head [OF assms(1,3)] have "hd a \<in> head_chars v" "hd a \<in> head_chars w"
    by (metis hd_append2)+
  with assms(4) show "N v = N w \<and> r = s" by blast
qed

lemma numbers_readable:
  assumes "runtime_laws rt" "well_typed rt v" "well_typed rt w"
    and "serialize rt v = serialize_number rt v" "serialize rt w = serialize_number rt w"
  shows "self_delimiting (serialize rt) normal v w"
  unfolding self_delimiting_def
proof (intro allI impI)
  fix a b r s
  assume a: "serialize rt v = Inr a" and b: "serialize rt w = Inr b" and eq: "a @ r = b @ s"
    and d: "delimited r" "delimited s"
  have "list_all number_char a" "list_all number_char b"
    using serialize_number_chars [OF assms(1,2)] serialize_number_chars [OF assms(1,3)] a b assms(4,5) by auto
  from number_prefix [OF this eq d] have "a = b \<and> r = s" .
  with serialize_number_inject [OF assms(1-3)] a b assms(4,5) show "normal v = normal w \<and> r = s" by auto
qed

lemma serialize_JStr: "serialize rt (JStr t) = Inr a \<longleftrightarrow> check_unicode t = Inr () \<and> a = quote_text t"
  by (cases "check_unicode t") (auto simp: serialize_string_def)

lemma serialize_readable:
  assumes "runtime_laws rt"
  shows "well_typed rt v \<Longrightarrow> well_typed rt w \<Longrightarrow> self_delimiting (serialize rt) normal v w"
proof (induction v arbitrary: w)
  case (JObj ms)
  show ?case
  proof (cases w)
    case w: (JObj ns)
    show ?thesis
      unfolding w
    proof (rule object_readable)
      fix m n
      assume m: "m \<in> set ms" "n \<in> set ns"
      then show "self_delimiting (serialize rt) normal (snd m) (snd n)"
        using JObj.IH [of m "snd m" "snd n"] JObj.prems w
        by (auto simp: list_all_iff snds.simps)
    qed
  qed (rule heads_differ [OF assms JObj.prems]; auto simp: is_digit_def split: if_splits)+
next
  case (JArr xs)
  show ?case
  proof (cases w)
    case w: (JArr ys)
    show ?thesis
      unfolding w
      by (rule array_readable [OF assms]) (use JArr w in \<open>auto simp: list_all_iff\<close>)
  qed (rule heads_differ [OF assms JArr.prems]; auto simp: is_digit_def split: if_splits)+
next
  case (JStr t)
  show ?case
  proof (cases w)
    case w: (JStr u)
    show ?thesis
      unfolding w self_delimiting_def
    proof (intro allI impI)
      fix a b r s
      assume "serialize rt (JStr t) = Inr a" "serialize rt (JStr u) = Inr b" "a @ r = b @ s"
      then have "quote_text t @ r = quote_text u @ s" unfolding serialize_JStr by simp
      from quote_text_prefix [OF this] show "normal (JStr t) = normal (JStr u) \<and> r = s" by simp
    qed
  qed (rule heads_differ [OF assms JStr.prems]; auto simp: is_digit_def split: if_splits)+
next
  case (JInt i)
  show ?case
  proof (cases "\<exists>j x. w = JInt j \<or> w = JFloat x")
    case True
    then show ?thesis by (intro numbers_readable [OF assms JInt.prems]) auto
  next
    case False
    then show ?thesis
      by (intro heads_differ [OF assms JInt.prems]) (cases w; auto simp: is_digit_def split: if_splits)
  qed
next
  case (JFloat x)
  show ?case
  proof (cases "\<exists>j x. w = JInt j \<or> w = JFloat x")
    case True
    then show ?thesis by (intro numbers_readable [OF assms JFloat.prems]) auto
  next
    case False
    then show ?thesis
      by (intro heads_differ [OF assms JFloat.prems]) (cases w; auto simp: is_digit_def split: if_splits)
  qed
next
  case (JBool b)
  show ?case
  proof (cases w)
    case w: (JBool c)
    show ?thesis
      by (cases "b = c") (auto simp: w self_delimiting_def ascii_def)
  qed (rule heads_differ [OF assms JBool.prems]; auto simp: is_digit_def split: if_splits)+
next
  case JNull
  show ?case
  proof (cases w)
    case JNull
    then show ?thesis by (auto simp: self_delimiting_def)
  qed (rule heads_differ [OF assms JNull.prems]; auto simp: is_digit_def split: if_splits)+
next
  case JOther
  show ?case by (auto simp: self_delimiting_def)
qed

section \<open>Equal bytes and equal values\<close>

lemma collect_all: "(\<exists>ys. collect xs = Inr ys) \<longleftrightarrow> (\<forall>x \<in> set xs. \<exists>y. x = Inr y)"
proof (induction xs)
  case (Cons x xs)
  then show ?case by (cases x) (auto simp: map_sum_Inr)
qed simp

lemma nfc_items_map: "nfc_items rt xs = map (nfc_normalize_values rt) xs"
  by (induction xs) simp_all

lemma nfc_members_map:
  "nfc_members rt ms = map (\<lambda>m. map_sum id (Pair (fst m)) (nfc_normalize_values rt (snd m))) ms"
  by (induction ms) (auto simp: id_def)

lemma snds_snd [simp]: "snd m \<in> Basic_BNFs.snds m"
  by (simp add: snds.simps)

lemma nfc_well_typed:
  assumes "runtime_laws rt"
  shows "well_typed rt v \<Longrightarrow> nfc_normalize_values rt v = Inr w \<Longrightarrow> well_typed rt w"
proof (induction v arbitrary: w)
  case (JStr t)
  then show ?case using nfc_code_points [OF assms] by (auto simp: map_sum_Inr)
next
  case (JArr xs)
  then obtain ys where ys: "map (nfc_normalize_values rt) xs = map Inr ys" "w = JArr ys"
    by (auto simp: nfc_items_map map_sum_Inr collect_Inr)
  have "well_typed rt y" if "y \<in> set ys" for y
  proof -
    from that have "Inr y \<in> set (map (nfc_normalize_values rt) xs)" unfolding ys(1) by simp
    then obtain x where x: "x \<in> set xs" "nfc_normalize_values rt x = Inr y" by auto
    have "well_typed rt x" using JArr.prems(1) x(1) by (auto simp: list_all_iff)
    from JArr.IH [OF x(1) this x(2)] show ?thesis .
  qed
  with ys(2) show ?case by (simp add: list_all_iff)
next
  case (JObj ms)
  then obtain ns where ns: "nfc_members rt ms = map Inr ns" "w = JObj ns"
    by (auto simp: map_sum_Inr collect_Inr)
  have "(case fst n of None \<Rightarrow> True | Some t \<Rightarrow> code_points t) \<and> well_typed rt (snd n)" if "n \<in> set ns" for n
  proof -
    from that have "Inr n \<in> set (nfc_members rt ms)" unfolding ns(1) by simp
    then obtain m where m: "m \<in> set ms" "map_sum id (Pair (fst m)) (nfc_normalize_values rt (snd m)) = Inr n"
      unfolding nfc_members_map by (metis (no_types, lifting) imageE list.set_map)
    then obtain y where y: "nfc_normalize_values rt (snd m) = Inr y" "n = (fst m, y)"
      by (auto simp: map_sum_Inr)
    have "well_typed rt (snd m) \<and> (case fst m of None \<Rightarrow> True | Some t \<Rightarrow> code_points t)"
      using JObj.prems(1) m(1) by (auto simp: list_all_iff)
    with JObj.IH [OF m(1) snds_snd _ y(1)] y(2) show ?thesis by simp
  qed
  with ns(2) show ?case by (simp add: list_all_iff)
qed auto

text \<open>The text of a well typed value consists of code points.\<close>

lemma code_points_append [simp]: "code_points (a @ b) \<longleftrightarrow> code_points a \<and> code_points b"
  by (simp add: code_points_def)

lemma code_points_Cons [simp]: "code_points (c # b) \<longleftrightarrow> c < 1114112 \<and> code_points b"
  by (simp add: code_points_def)

lemma code_points_Nil [simp]: "code_points []"
  by (simp add: code_points_def)

lemma code_points_commas: "(\<And>t. t \<in> set ts \<Longrightarrow> code_points t) \<Longrightarrow> code_points (commas ts)"
  by (induction ts rule: commas.induct) auto

lemma escape_char_code_points: "c < 1114112 \<Longrightarrow> code_points (escape_char c)"
proof (cases c rule: escape_char_cases)
  case (short s)
  then have "s < 200" by (auto simp: short_name_def short_escapes_def split: if_splits)
  with short show ?thesis by simp
qed (auto simp: hex_code_def)

lemma quote_text_code_points: "code_points t \<Longrightarrow> code_points (quote_text t)"
proof -
  assume "code_points t"
  then have "code_points (concat (map escape_char t))"
    by (induction t) (auto simp: escape_char_code_points)
  then show ?thesis by (simp add: quote_text_def)
qed

lemma number_chars_code_points: "list_all number_char t \<Longrightarrow> code_points t"
  by (auto simp: code_points_def list_all_iff number_char_def is_digit_def)

lemma serialize_code_points:
  assumes "runtime_laws rt"
  shows "well_typed rt v \<Longrightarrow> serialize rt v = Inr t \<Longrightarrow> code_points t"
proof (induction v arbitrary: t)
  case (JInt i)
  then have "serialize_number rt (JInt i) = Inr t" by simp
  from serialize_number_chars [OF assms JInt.prems(1) this] show ?case
    by (simp add: number_chars_code_points)
next
  case (JFloat x)
  then have "serialize_number rt (JFloat x) = Inr t" by simp
  from serialize_number_chars [OF assms JFloat.prems(1) this] show ?case
    by (simp add: number_chars_code_points)
next
  case (JStr s)
  then have "t = quote_text s" unfolding serialize_JStr by simp
  with JStr.prems(1) show ?case by (simp add: quote_text_code_points)
next
  case (JArr xs)
  then obtain ts where ts: "map (serialize rt) xs = map Inr ts" "t = 91 # commas ts @ [93]"
    unfolding serialize_JArr by blast
  have "code_points u" if "u \<in> set ts" for u
  proof -
    from that have "Inr u \<in> set (map (serialize rt) xs)" unfolding ts(1) by simp
    then obtain x where x: "x \<in> set xs" "serialize rt x = Inr u" by auto
    have "well_typed rt x" using JArr.prems(1) x(1) by (auto simp: list_all_iff)
    from JArr.IH [OF x(1) this x(2)] show ?thesis .
  qed
  with ts(2) show ?case by (simp add: code_points_commas)
next
  case (JObj ms)
  then obtain ts where ts: "map (serialize_member rt) (sort_key member_key ms) = map Inr ts"
      "t = 123 # commas ts @ [125]" and names: "check_names (map fst ms) = Inr ()"
    unfolding serialize_JObj by blast
  have "code_points u" if "u \<in> set ts" for u
  proof -
    from that have "Inr u \<in> set (map (serialize_member rt) (sort_key member_key ms))" unfolding ts(1) by simp
    then obtain m where m: "m \<in> set ms" "serialize_member rt m = Inr u" by auto
    then obtain a where a: "serialize rt (snd m) = Inr a" "u = quote_text (the (fst m)) @ 58 # a"
      unfolding serialize_member_Inr by blast
    have wt: "(case fst m of None \<Rightarrow> True | Some n \<Rightarrow> code_points n) \<and> well_typed rt (snd m)"
      using JObj.prems(1) m(1) by (auto simp: list_all_iff)
    moreover have "fst m \<noteq> None" using check_names_Inr [OF names, of "fst m"] m(1) by auto
    ultimately have "code_points (the (fst m))" by auto
    with JObj.IH [OF m(1) snds_snd _ a(1)] wt a(2) show ?thesis by (simp add: quote_text_code_points)
  qed
  with ts(2) show ?case by (simp add: code_points_commas)
qed (auto simp: ascii_def split: if_splits)

lemma check_names_iff:
  "check_names ns = Inr () \<longleftrightarrow> (\<forall>n \<in> set ns. \<exists>t. n = Some t \<and> check_unicode t = Inr ())"
  by (induction ns) (auto split: option.splits sum.splits)

lemma sort_key_twice: "sort_key f (sort_key f xs) = sort_key f xs"
proof -
  have "sorted (map f ys) \<Longrightarrow> sort_key f ys = ys" for ys
  proof (induction ys)
    case (Cons y ys)
    then show ?case by (cases ys) auto
  qed simp
  then show ?thesis by simp
qed

lemma serialize_normal: "serialize rt v = Inr t \<Longrightarrow> serialize rt (normal v) = Inr t"
proof (induction v arbitrary: t)
  case (JInt i)
  then show ?case
    by (auto simp: serialize_number_def int_to_double_def map_sum_Inr split: if_splits option.splits)
next
  case (JArr xs)
  then obtain ts where ts: "map (serialize rt) xs = map Inr ts" "t = 91 # commas ts @ [93]"
    unfolding serialize_JArr by blast
  have "serialize rt (normal x) = serialize rt x" if "x \<in> set xs" for x
  proof -
    from that have "serialize rt x \<in> set (map Inr ts)" unfolding ts(1) [symmetric] by simp
    then obtain u where "serialize rt x = Inr u" by auto
    with JArr.IH [OF that this] show ?thesis by simp
  qed
  then have "map (serialize rt) (map normal xs) = map (serialize rt) xs"
    by (induction xs) simp_all
  then have "map (serialize rt) (map normal xs) = map Inr ts" using ts(1) by (simp only:)
  with ts(2) show ?case unfolding normal.simps serialize_JArr by blast
next
  case (JObj ms)
  let ?S = "\<lambda>m :: ustr option \<times> json. (fst m, normal (snd m))"
  obtain ts where ts: "map (serialize_member rt) (sort_key member_key ms) = map Inr ts"
      "t = 123 # commas ts @ [125]" and names: "check_names (map fst ms) = Inr ()"
    using JObj.prems unfolding serialize_JObj by blast
  have sorted: "sort_key member_key (map ?S ms) = map ?S (sort_key member_key ms)"
    by (rule sort_key_map) (simp add: member_key_def)
  have same: "serialize_member rt (?S m) = serialize_member rt m" if "m \<in> set ms" for m
  proof -
    from that have "serialize_member rt m \<in> set (map Inr ts)" unfolding ts(1) [symmetric] by simp
    then obtain u where u: "serialize_member rt m = Inr u" by auto
    then obtain a where a: "serialize rt (snd m) = Inr a" unfolding serialize_member_Inr by blast
    from JObj.IH [OF that snds_snd a] a show ?thesis by (simp add: serialize_member_def)
  qed
  have "map (serialize_member rt) (sort_key member_key (sort_key member_key (map ?S ms))) = map Inr ts"
  proof -
    have "map (serialize_member rt) (map ?S zs) = map (serialize_member rt) zs" if "set zs \<subseteq> set ms" for zs
      using that same by (induction zs) auto
    from this [of "sort_key member_key ms"] show ?thesis
      unfolding sort_key_twice unfolding sorted ts(1) by simp
  qed
  moreover have "check_names (map fst (sort_key member_key (map ?S ms))) = Inr ()"
    using names unfolding check_names_iff by auto
  ultimately show ?case
    using ts(2) unfolding normal.simps serialize_JObj by blast
qed auto

lemma jcs_canonicalize_Inr: "jcs_canonicalize rt v = Inr b \<longleftrightarrow> (\<exists>t. serialize rt v = Inr t \<and> b = utf8 t)"
  by (simp add: jcs_canonicalize_def map_sum_Inr)

lemma canonicalize_Inr:
  "canonicalize rt v = Inr b \<longleftrightarrow> (\<exists>w t. nfc_normalize_values rt v = Inr w \<and> serialize rt w = Inr t \<and> b = utf8 t)"
  by (auto simp: canonicalize_def jcs_canonicalize_Inr split: sum.splits)

lemma jcs_bytes_iff:
  assumes laws: "runtime_laws rt" and "well_typed rt v" "well_typed rt w"
    and v: "serialize rt v = Inr a" and w: "serialize rt w = Inr b"
  shows "utf8 a = utf8 b \<longleftrightarrow> normal v = normal w"
proof
  assume "utf8 a = utf8 b"
  then have "a = b"
    using serialize_code_points [OF laws] assms by (intro utf8_inject) auto
  moreover note self_delimitingD [OF serialize_readable [OF laws assms(2,3)] v w, of "[]" "[]"]
  ultimately show "normal v = normal w" by (simp add: delimited_def)
next
  assume "normal v = normal w"
  with serialize_normal [OF v] serialize_normal [OF w] show "utf8 a = utf8 b" by simp
qed

section \<open>Parsed text\<close>

text \<open>A value with a canonical form, up to lone surrogates.\<close>

fun sound_value :: "runtime \<Rightarrow> json \<Rightarrow> bool" where
  "sound_value rt (JInt i) = (int_to_double rt i = Inr (of_int i))"
| "sound_value rt (JFloat x) = is_finite x"
| "sound_value rt (JArr xs) = list_all (sound_value rt) xs"
| "sound_value rt (JObj ms) = list_all (\<lambda>m. fst m \<noteq> None \<and> sound_value rt (snd m)) ms"
| "sound_value rt JOther = False"
| "sound_value rt _ = True"

lemma check_items_map: "check_items xs = map check_tree xs"
  by (induction xs) simp_all

lemma check_tree_JArr: "check_tree (JArr xs) = Inr () \<longleftrightarrow> (\<forall>x \<in> set xs. check_tree x = Inr ())"
  using collect_all [of "map check_tree xs"] by (auto simp: map_sum_Inr check_items_map)

lemma check_tree_JObj:
  "check_tree (JObj ms) = Inr () \<longleftrightarrow>
   (\<forall>m \<in> set ms. check_unicode (the (fst m)) = Inr () \<and> check_tree (snd m) = Inr ())"
proof -
  have "(\<forall>x \<in> set (check_members ms). \<exists>y. x = Inr y) \<longleftrightarrow>
      (\<forall>m \<in> set ms. check_unicode (the (fst m)) = Inr () \<and> check_tree (snd m) = Inr ())"
    by (induction ms) auto
  with collect_all [of "check_members ms"] show ?thesis by (simp add: map_sum_Inr)
qed

lemma apply_hooks_items_map: "apply_hooks_items rt xs = map (apply_hooks rt) xs"
  by (induction xs) simp_all

lemma apply_hooks_members_map:
  "apply_hooks_members rt ms = map (\<lambda>m. map_sum id (Pair (fst m)) (apply_hooks rt (snd m))) ms"
  by (induction ms) (auto simp: id_def)

lemma no_duplicates_Inr:
  "no_duplicates seen ms = Inr ns \<Longrightarrow> ns = map (\<lambda>m. (Some (fst m), snd m)) ms \<and> distinct (map fst ms) \<and>
   set seen \<inter> fst ` set ms = {}"
proof (induction seen ms arbitrary: ns rule: no_duplicates.induct)
  case (2 seen n v ms)
  then obtain rest where rest: "no_duplicates (n # seen) ms = Inr rest" "n \<notin> set seen" "ns = (Some n, v) # rest"
    by (auto simp: map_sum_Inr split: if_splits)
  from "2.IH" [OF rest(2,1)] rest(2,3) show ?case by (auto simp: image_iff)
qed simp

lemma map_Inr_elem: "map f xs = map Inr ys \<Longrightarrow> y \<in> set ys \<Longrightarrow> \<exists>x \<in> set xs. f x = Inr y"
proof -
  assume *: "map f xs = map Inr ys" "y \<in> set ys"
  then have "Inr y \<in> set (map f xs)" by (simp only: set_map) blast
  then show ?thesis by auto
qed

lemma map_Inr_arg: "map f xs = map Inr ys \<Longrightarrow> x \<in> set xs \<Longrightarrow> \<exists>y. f x = Inr y"
proof -
  assume *: "map f xs = map Inr ys" "x \<in> set xs"
  then have "f x \<in> set (map Inr ys)" by (metis imageI list.set_map)
  then show ?thesis by auto
qed

lemma apply_hooks_sound: "apply_hooks rt r = Inr v \<Longrightarrow> sound_value rt v"
proof (induction r arbitrary: v)
  case (RInt t)
  then show ?case
    by (auto simp: parse_int_def int_to_double_def Let_def split: if_splits option.splits)
next
  case (RFloat t)
  then show ?case by (auto simp: parse_float_def split: option.splits)
next
  case (RArr xs)
  then obtain ys where ys: "map (apply_hooks rt) xs = map Inr ys" "v = JArr ys"
    by (auto simp: apply_hooks_items_map map_sum_Inr collect_Inr)
  have "sound_value rt y" if "y \<in> set ys" for y
    using map_Inr_elem [OF ys(1) that] RArr.IH by blast
  with ys(2) show ?case by (simp add: list_all_iff)
next
  case (RObj ms)
  then obtain vs ns where vs: "apply_hooks_members rt ms = map Inr vs" "no_duplicates [] vs = Inr ns" "v = JObj ns"
    by (auto simp: map_sum_Inr collect_Inr split: sum.splits)
  have "sound_value rt (snd p)" if mem: "p \<in> set vs" for p
  proof -
    obtain m where m: "m \<in> set ms" "map_sum id (Pair (fst m)) (apply_hooks rt (snd m)) = Inr p"
      using map_Inr_elem [OF vs(1) [unfolded apply_hooks_members_map] mem] by blast
    then obtain y where y: "apply_hooks rt (snd m) = Inr y" "p = (fst m, y)" by (auto simp: map_sum_Inr)
    from RObj.IH [OF m(1) snds_snd y(1)] y(2) show ?thesis by simp
  qed
  with no_duplicates_Inr [OF vs(2)] vs(3) show ?case by (auto simp: list_all_iff)
qed auto

lemma nfc_sound:
  assumes "runtime_laws rt"
  shows "sound_value rt v \<Longrightarrow> check_tree v = Inr () \<Longrightarrow>
    \<exists>w. nfc_normalize_values rt v = Inr w \<and> sound_value rt w \<and> check_tree w = Inr ()"
proof (induction v)
  case (JStr t)
  then show ?case using nfc_unicode [OF assms, of t] by simp
next
  case (JArr xs)
  have each: "\<exists>w. nfc_normalize_values rt x = Inr w \<and> sound_value rt w \<and> check_tree w = Inr ()" if "x \<in> set xs" for x
    using JArr that by (auto simp: list_all_iff check_tree_JArr simp del: check_tree.simps)
  then have "\<forall>r \<in> set (map (nfc_normalize_values rt) xs). \<exists>y. r = Inr y" by auto
  then obtain ys where ys: "collect (map (nfc_normalize_values rt) xs) = Inr ys" using collect_all by blast
  have "sound_value rt y \<and> check_tree y = Inr ()" if mem: "y \<in> set ys" for y
  proof -
    obtain x where "x \<in> set xs" "nfc_normalize_values rt x = Inr y"
      using map_Inr_elem [OF ys [unfolded collect_Inr] mem] by blast
    with each [of x] show ?thesis by auto
  qed
  then have "sound_value rt (JArr ys)" "check_tree (JArr ys) = Inr ()"
    unfolding check_tree_JArr by (auto simp: list_all_iff)
  with ys show ?case by (simp add: nfc_items_map del: check_tree.simps sound_value.simps)
next
  case (JObj ms)
  have each: "\<exists>w. nfc_normalize_values rt (snd m) = Inr w \<and> sound_value rt w \<and> check_tree w = Inr ()"
    if "m \<in> set ms" for m
    using JObj.IH [OF that snds_snd] JObj.prems that
    by (auto simp: list_all_iff check_tree_JObj simp del: check_tree.simps)
  then have "\<forall>r \<in> set (nfc_members rt ms). \<exists>y. r = Inr y" by (fastforce simp: nfc_members_map)
  then obtain ns where ns: "collect (nfc_members rt ms) = Inr ns" using collect_all by blast
  have "fst n \<noteq> None \<and> sound_value rt (snd n) \<and> check_unicode (the (fst n)) = Inr () \<and> check_tree (snd n) = Inr ()"
    if mem: "n \<in> set ns" for n
  proof -
    obtain m where m: "m \<in> set ms" "map_sum id (Pair (fst m)) (nfc_normalize_values rt (snd m)) = Inr n"
      using map_Inr_elem [OF ns [unfolded collect_Inr nfc_members_map] mem] by blast
    then obtain y where y: "nfc_normalize_values rt (snd m) = Inr y" "n = (fst m, y)" by (auto simp: map_sum_Inr)
    have "fst m \<noteq> None" "check_unicode (the (fst m)) = Inr ()"
      using JObj.prems m(1) by (auto simp: list_all_iff check_tree_JObj simp del: check_tree.simps)
    with each [OF m(1)] y show ?thesis by auto
  qed
  then have "sound_value rt (JObj ns)" "check_tree (JObj ns) = Inr ()"
    unfolding check_tree_JObj by (auto simp: list_all_iff)
  with ns show ?case by (simp del: check_tree.simps sound_value.simps)
qed auto

lemma serialize_sound:
  "sound_value rt v \<Longrightarrow> check_tree v = Inr () \<Longrightarrow> \<exists>t. serialize rt v = Inr t"
proof (induction v)
  case (JInt i)
  then show ?case by (simp add: serialize_number_def)
next
  case (JFloat x)
  then show ?case by (cases x) (auto simp: serialize_number_def)
next
  case (JStr t)
  then show ?case by (simp add: serialize_string_def)
next
  case (JArr xs)
  have "\<exists>t. serialize rt x = Inr t" if "x \<in> set xs" for x
    using JArr that by (auto simp: list_all_iff check_tree_JArr simp del: check_tree.simps)
  then have "\<forall>r \<in> set (map (serialize rt) xs). \<exists>y. r = Inr y" by auto
  then show ?case using collect_all [of "map (serialize rt) xs"] by (auto simp: serialize_items_map)
next
  case (JObj ms)
  have names: "check_names (map fst ms) = Inr ()"
    unfolding check_names_iff
  proof
    fix n
    assume "n \<in> set (map fst ms)"
    then obtain m where m: "m \<in> set ms" "n = fst m" by auto
    have "fst m \<noteq> None" using JObj.prems(1) m(1) by (auto simp: list_all_iff)
    moreover have "check_unicode (the (fst m)) = Inr ()"
      using JObj.prems(2) m(1) unfolding check_tree_JObj by blast
    ultimately show "\<exists>t. n = Some t \<and> check_unicode t = Inr ()" using m(2) by auto
  qed
  have "\<exists>t. serialize_member rt m = Inr t" if "m \<in> set ms" for m
    using JObj.IH [OF that snds_snd] JObj.prems that
    by (auto simp: list_all_iff check_tree_JObj serialize_member_Inr simp del: check_tree.simps)
  then have "\<forall>r \<in> set (map (serialize_member rt) (sort_key member_key ms)). \<exists>y. r = Inr y" by auto
  then obtain ts where "map (serialize_member rt) (sort_key member_key ms) = map Inr ts"
    using collect_all collect_Inr by metis
  with names show ?case unfolding serialize_JObj by blast
qed (auto simp: ascii_def)

section \<open>The order of members\<close>

lemma utf16_units_prefix:
  assumes "c < 1114112" "d < 1114112" "\<not> surrogate c" "\<not> surrogate d" "utf16_units c @ x = utf16_units d @ y"
  shows "c = d \<and> x = y"
proof -
  have pair: "c = d" if "65536 \<le> c" "65536 \<le> d" "(c - 65536) div 1024 = (d - 65536) div 1024"
    "(c - 65536) mod 1024 = (d - 65536) mod 1024" for c d :: nat
  proof -
    have "c - 65536 = d - 65536" using that(3,4) by (metis div_mult_mod_eq)
    with that(1,2) show ?thesis by simp
  qed
  have high: "surrogate (55296 + (d - 65536) div 1024)" if "d < 1114112" for d
    using that by (auto simp: surrogate_def)
  show ?thesis
    using assms high by (auto simp: utf16_units_def intro: pair split: if_splits)
qed

lemma check_unicode_iff: "check_unicode t = Inr () \<longleftrightarrow> (\<forall>c \<in> set t. \<not> surrogate c)"
proof -
  have "check_unicode t = Inr () \<longleftrightarrow> find (\<lambda>i. surrogate (t ! i)) [0..<length t] = None"
    by (simp add: check_unicode_def split: option.split)
  also have "\<dots> \<longleftrightarrow> (\<forall>i < length t. \<not> surrogate (t ! i))"
    by (auto simp: find_None_iff)
  finally show ?thesis by (metis in_set_conv_nth)
qed

lemma concat_map_inject:
  assumes "\<And>c d x y. c \<in> set a \<Longrightarrow> d \<in> set b \<Longrightarrow> f c @ x = f d @ y \<Longrightarrow> c = d \<and> x = y" and "\<And>c. f c \<noteq> []"
  shows "concat (map f a) = concat (map f b) \<Longrightarrow> a = b"
  using assms(1)
proof (induction a arbitrary: b)
  case Nil
  then show ?case using assms(2) by (cases b) auto
next
  case (Cons c a)
  then obtain d b' where b: "b = d # b'" using assms(2) by (cases b) auto
  have "c = d \<and> concat (map f a) = concat (map f b')"
    using Cons.prems(1) b by (intro Cons.prems(2)) auto
  moreover from this have "a = b'" by (intro Cons.IH) (use Cons.prems(2) b in auto)
  ultimately show ?case using b by simp
qed

lemma utf16_sort_key_inject:
  assumes "code_points a" "code_points b" "check_unicode a = Inr ()" "check_unicode b = Inr ()"
    and "utf16_sort_key a = utf16_sort_key b"
  shows "a = b"
proof -
  have "concat (map utf16_units a) = concat (map utf16_units b)"
  proof (rule concat_map_inject)
    show "concat (map (\<lambda>u. [u div 256, u mod 256]) (concat (map utf16_units a))) =
        concat (map (\<lambda>u. [u div 256, u mod 256]) (concat (map utf16_units b)))"
      using assms(5) by (simp add: utf16_sort_key_def)
    fix c d x y :: "nat" and xs ys :: "nat list"
    assume "[c div 256, c mod 256] @ xs = [d div 256, d mod 256] @ ys"
    then have "c div 256 = d div 256" "c mod 256 = d mod 256" "xs = ys" by auto
    then show "c = d \<and> xs = ys" by (metis div_mult_mod_eq)
  qed simp
  then show ?thesis
  proof (rule concat_map_inject [rotated 2])
    fix c d x y
    assume "c \<in> set a" "d \<in> set b" "utf16_units c @ x = utf16_units d @ y"
    with assms show "c = d \<and> x = y"
      by (intro utf16_units_prefix) (auto simp: code_points_def list_all_iff check_unicode_iff)
  qed (simp add: utf16_units_def)
qed

lemma member_key_inj:
  assumes "check_names (map fst ms) = Inr ()" "distinct (map fst ms)"
    and "\<And>m t. m \<in> set ms \<Longrightarrow> fst m = Some t \<Longrightarrow> code_points t"
  shows "inj_on member_key (set ms)"
proof (rule inj_onI)
  fix m n
  assume m: "m \<in> set ms" and n: "n \<in> set ms" and eq: "member_key m = member_key n"
  obtain t where t: "fst m = Some t" "check_unicode t = Inr ()"
    using assms(1) m unfolding check_names_iff by (metis image_eqI list.set_map)
  obtain u where u: "fst n = Some u" "check_unicode u = Inr ()"
    using assms(1) n unfolding check_names_iff by (metis image_eqI list.set_map)
  have "t = u"
    using eq t u assms(3) [OF m t(1)] assms(3) [OF n u(1)] utf16_sort_key_inject by (simp add: member_key_def)
  with t u have "fst m = fst n" by simp
  with assms(2) m n show "m = n" by (metis distinct_map inj_onD)
qed

lemma sort_members_eq:
  "mset ms = mset ns \<Longrightarrow> inj_on member_key (set ms) \<Longrightarrow> sort_key member_key ms = sort_key member_key ns"
  by (rule sort_key_inj_key_eq) auto

lemma serialize_permuted:
  assumes "runtime_laws rt" "well_typed rt (JObj ms)" "mset ms = mset ns" "distinct (map fst ms)"
    and "serialize rt (JObj ms) = Inr t"
  shows "serialize rt (JObj ns) = Inr t"
proof -
  have names: "check_names (map fst ms) = Inr ()" using assms(5) unfolding serialize_JObj by blast
  have "inj_on member_key (set ms)"
    by (rule member_key_inj [OF names assms(4)]) (use assms(2) in \<open>force simp: list_all_iff\<close>)
  from sort_members_eq [OF assms(3) this] have "sort_key member_key ms = sort_key member_key ns" .
  moreover have "check_names (map fst ns) = Inr ()"
    using names mset_eq_setD [OF assms(3)] unfolding check_names_iff by auto
  ultimately show ?thesis using assms(5) unfolding serialize_JObj by simp
qed

lemma canonicalize_permuted:
  assumes laws: "runtime_laws rt" and typed: "well_typed rt (JObj ms)" and perm: "mset ms = mset ns"
    and dist: "distinct (map fst ms)" and ms: "canonicalize rt (JObj ms) = Inr b"
  shows "canonicalize rt (JObj ns) = Inr b"
proof -
  let ?f = "\<lambda>m. map_sum id (Pair (fst m)) (nfc_normalize_values rt (snd m))"
  obtain w t where w: "nfc_normalize_values rt (JObj ms) = Inr w" "serialize rt w = Inr t" "b = utf8 t"
    using ms unfolding canonicalize_Inr by blast
  obtain ms' where ms': "map ?f ms = map Inr ms'" "w = JObj ms'"
    using w(1) by (auto simp: map_sum_Inr collect_Inr nfc_members_map)
  define g where "g m = (fst m, projr (nfc_normalize_values rt (snd m)))" for m :: "ustr option \<times> json"
  have f: "?f m = Inr (g m)" if "m \<in> set ms" for m
    using map_Inr_arg [OF ms'(1) that] by (auto simp: map_sum_Inr g_def)
  then have "map ?f ms = map Inr (map g ms)" by simp
  with ms'(1) have "map Inr ms' = (map Inr (map g ms) :: (canon_error + ustr option \<times> json) list)" by (simp only:)
  then have g: "ms' = map g ms" by (metis (no_types) collect_map_Inr sum.inject(2))
  have "nfc_members rt ns = map Inr (map g ns)"
    unfolding nfc_members_map using f mset_eq_setD [OF perm] by simp
  then have "collect (nfc_members rt ns) = Inr (map g ns)" by (simp only: collect_map_Inr)
  then have ns: "nfc_normalize_values rt (JObj ns) = Inr (JObj (map g ns))" by simp
  have "mset ms' = mset (map g ns)" using perm by (simp add: g)
  moreover have "distinct (map fst ms')" using dist by (simp add: g g_def comp_def)
  moreover have "well_typed rt (JObj ms')"
    using nfc_well_typed [OF laws typed w(1)] ms'(2) by simp
  ultimately have "serialize rt (JObj (map g ns)) = Inr t"
    using serialize_permuted [OF laws] w(2) ms'(2) by blast
  with ns w(3) show ?thesis unfolding canonicalize_Inr by blast
qed

section \<open>Properties\<close>

text \<open>
  The text \<open>serialize_number\<close> writes for an integer or a double, in any of the four notations,
  reads back as that number: reading it as a decimal and rounding to the nearest double gives the number,
  exactly. An integer that no double holds is refused instead.
\<close>

theorem number_reads_back:
  assumes "runtime_laws rt" and "well_typed rt v" and "serialize_number rt v = Inr t"
  shows "\<exists>q. number_value v = Some q \<and> nearest rt (read_decimal t) = Some q"
proof -
  obtain q where "number_value v = Some q" "nearest rt q = Some q" "t = serialize_double rt q"
    using serialize_number_ok [OF assms] by blast
  with serialize_double_ok [OF assms(1), of q] show ?thesis by auto
qed

text \<open>
  Property C18. Canonical bytes identify values: two values have the same canonical bytes exactly when their
  NFC forms agree up to the order of the members of objects and the spelling of numbers (\<open>1\<close> and \<open>1.0\<close>).
  So no two different payloads share a preimage of the digest.
\<close>

theorem canonical_bytes_identify:
  assumes "runtime_laws rt" and "well_typed rt v" "well_typed rt w"
    and "nfc_normalize_values rt v = Inr v'" "nfc_normalize_values rt w = Inr w'"
    and "canonicalize rt v = Inr b" "canonicalize rt w = Inr c"
  shows "b = c \<longleftrightarrow> normal v' = normal w'"
proof -
  obtain s t where "serialize rt v' = Inr s" "serialize rt w' = Inr t" "b = utf8 s" "c = utf8 t"
    using assms(4-7) unfolding canonicalize_Inr by auto
  then show ?thesis
    using jcs_bytes_iff [OF assms(1) nfc_well_typed [OF assms(1,2,4)] nfc_well_typed [OF assms(1,3,5)]] by simp
qed

text \<open>
  The order in which an object lists its members does not matter: any permutation of members with
  distinct names has the same canonical bytes. The names are sorted by UTF-16 code units, which tell any two
  valid names apart.
\<close>

theorem member_order_is_irrelevant:
  assumes "runtime_laws rt" and "well_typed rt (JObj ms)" and "mset ms = mset ns"
    and "distinct (map fst ms)" and "canonicalize rt (JObj ms) = Inr b"
  shows "canonicalize rt (JObj ns) = Inr b"
  by (rule canonicalize_permuted [OF assms])

text \<open>
  Every JSON text that the strict parser accepts has a canonical form: \<open>canonicalize_json_text\<close>
  raises exactly where \<open>parse_json\<close> does. Literals outside the exact range are rounded, numbers that overflow
  a double, duplicate names and lone surrogates are refused by the parser.
\<close>

theorem parsed_text_has_canonical_form:
  assumes "runtime_laws rt"
  shows "(\<exists>b. canonicalize_json_text rt scan t = Inr b) \<longleftrightarrow> (\<exists>v. parse_json rt scan t = Inr v)"
proof
  assume "\<exists>b. canonicalize_json_text rt scan t = Inr b"
  then show "\<exists>v. parse_json rt scan t = Inr v"
    by (auto simp: canonicalize_json_text_def split: sum.splits)
next
  assume "\<exists>v. parse_json rt scan t = Inr v"
  then obtain v where v: "parse_json rt scan t = Inr v" by blast
  then obtain r where "apply_hooks rt r = Inr v" "check_tree v = Inr ()"
    by (auto simp: parse_json_def map_sum_Inr split: option.splits sum.splits)
  with apply_hooks_sound nfc_sound [OF assms] obtain w where
    w: "nfc_normalize_values rt v = Inr w" "sound_value rt w" "check_tree w = Inr ()" by blast
  with serialize_sound obtain s where "serialize rt w = Inr s" by blast
  with v w(1) show "\<exists>b. canonicalize_json_text rt scan t = Inr b"
    by (auto simp: canonicalize_json_text_def canonicalize_Inr)
qed

subsection \<open>Witnesses\<close>

text \<open>An interpreter to evaluate with, whose only doubles are the integers.\<close>

definition sample_runtime :: runtime where
  "sample_runtime =
     \<lparr>nearest = (\<lambda>q. Some (if q < 0 then - of_int \<lfloor>- q\<rfloor> else of_int \<lfloor>q\<rfloor>)),
      repr_text = (\<lambda>q. nat_text (nat \<lfloor>q\<rfloor>) @ [46, 48]),
      nfc = (\<lambda>t. t), max_int_digits = 4300\<rparr>"

lemma sample_runtime_laws: "runtime_laws sample_runtime"
proof -
  have no: "46 \<notin> set (nat_text n)" "101 \<notin> set (nat_text n @ [46, 48])" "list_all is_digit (nat_text n)" for n
    using nat_text_digits [of n] digits_no_mark [of "nat_text n"] by auto
  have literal: "cut_at 101 (nat_text n @ [46, 48]) = (nat_text n @ [46, 48], [])"
    "cut_at 46 (nat_text n @ [46, 48]) = (nat_text n, [48])" for n
    using cut_at_missing [OF no(2)] cut_at_found [OF no(1), of n "[48]"] by simp_all
  have reads: "read_unsigned (nat_text n @ [46, 48]) = of_nat n" for n
    by (simp add: read_unsigned_def literal digits_nat_append digits_nat_Cons power_int_minus)
  have plain: "plain_literal (nat_text n @ [46, 48])" for n
    using no(3) by (simp add: plain_literal_def literal is_digit_def)
  show ?thesis
    unfolding runtime_laws_def sample_runtime_def
    using plain reads by (auto simp: )
qed

definition sample_object :: "bool \<Rightarrow> json" where
  "sample_object swap =
     JObj (let a = (Some [97], JInt 12); b = (Some [98], JStr [233, 34]) in if swap then [b, a] else [a, b])"

definition sample_bytes :: bytes where
  "sample_bytes = map of_nat [123, 34, 97, 34, 58, 49, 50, 44, 34, 98, 34, 58, 34, 195, 169, 92, 34, 34, 125]"

lemma sample_twelve: "serialize_number sample_runtime (JInt 12) = Inr [49, 50]"
  "serialize_number sample_runtime (JInt (- 12)) = Inr [45, 49, 50]"
proof -
  have "nat_text 12 = [49, 50]" by (simp add: nat_text.simps)
  then have r: "repr_text sample_runtime 12 = [49, 50, 46, 48]" by (simp add: sample_runtime_def)
  have "shortest_digits sample_runtime 12 = ([49, 50], 2)"
    by (simp add: shortest_digits_def r cut_at_def Let_def)
  then show "serialize_number sample_runtime (JInt 12) = Inr [49, 50]"
    "serialize_number sample_runtime (JInt (- 12)) = Inr [45, 49, 50]"
    by (simp_all add: serialize_number_def int_to_double_def exact_int_limit_def serialize_double_def number_body_def)
qed

lemma sample_unicode: "check_unicode [97] = Inr ()" "check_unicode [98] = Inr ()" "check_unicode [233, 34] = Inr ()"
  by (simp_all add: check_unicode_iff surrogate_def)

lemma sample_canonical: "canonicalize sample_runtime (sample_object s) = Inr sample_bytes"
proof -
  have keys: "utf16_sort_key [97] = [0, 97]" "utf16_sort_key [98] = [0, 98]"
    by (simp_all add: utf16_sort_key_def utf16_units_def)
  have quotes: "quote_text [97] = [34, 97, 34]" "quote_text [98] = [34, 98, 34]" "quote_text [233, 34] = [34, 233, 92, 34, 34]"
    by (simp_all add: quote_text_def escape_char_def short_escapes_def)
  have "serialize sample_runtime (sample_object s) =
      Inr [123, 34, 97, 34, 58, 49, 50, 44, 34, 98, 34, 58, 34, 233, 92, 34, 34, 125]"
    by (cases s) (simp_all add: sample_object_def sample_unicode sample_twelve serialize_string_def member_key_def
        member_text_def keys quotes)
  moreover have "nfc_normalize_values sample_runtime (sample_object s) = Inr (sample_object s)"
    by (cases s) (simp_all add: sample_object_def sample_unicode, simp_all add: sample_runtime_def)
  moreover have "utf8 [123, 34, 97, 34, 58, 49, 50, 44, 34, 98, 34, 58, 34, 233, 92, 34, 34, 125] = sample_bytes"
    by (simp add: utf8_def utf8_char_def sample_bytes_def)
  ultimately show ?thesis unfolding canonicalize_Inr by auto
qed

theorem number_reads_back_witness:
  "\<exists>q. number_value (JInt (- 12)) = Some q \<and>
     nearest sample_runtime (read_decimal [45, 49, 50]) = Some q"
  by (rule number_reads_back [OF sample_runtime_laws _ sample_twelve(2)]) simp

theorem canonical_bytes_identify_witness:
  "sample_bytes = sample_bytes \<longleftrightarrow> normal (sample_object True) = normal (sample_object False)"
  by (rule canonical_bytes_identify [OF sample_runtime_laws _ _ _ _ sample_canonical [of True] sample_canonical [of False]])
    (simp_all add: sample_object_def sample_unicode code_points_def, simp_all add: sample_runtime_def)

theorem member_order_is_irrelevant_witness:
  "canonicalize sample_runtime (JObj [(Some [98], JStr [233, 34]), (Some [97], JInt 12)]) = Inr sample_bytes"
proof (rule member_order_is_irrelevant [OF sample_runtime_laws, where ms = "[(Some [97], JInt 12), (Some [98], JStr [233, 34])]"])
  show "canonicalize sample_runtime (JObj [(Some [97], JInt 12), (Some [98], JStr [233, 34])]) = Inr sample_bytes"
    using sample_canonical [of False] by (simp add: sample_object_def)
qed (simp_all add: code_points_def)

theorem parsed_text_has_canonical_form_witness:
  "(\<exists>b. canonicalize_json_text sample_runtime (\<lambda>t. Some (RArr [RInt t, RStr t])) [55, 55] = Inr b) \<longleftrightarrow>
   (\<exists>v. parse_json sample_runtime (\<lambda>t. Some (RArr [RInt t, RStr t])) [55, 55] = Inr v)"
  by (rule parsed_text_has_canonical_form [OF sample_runtime_laws])

end
