(* ===== verification/Ledger.thy ===== *)
theory Ledger
  imports Canonical_Reading
begin

text \<open>
  The audit ledger: the hashed payloads (\<open>ski_schemas/ledger.py\<close>, \<open>audit_ledger/canonical.py\<close>), the
  checkpoint statement (\<open>ski_schemas/merkle.py\<close>) and the writer (\<open>ski_model/ledger_client.py\<close>).

  The database is a record of its three tables, each a list of rows in order of insertion; a statement is
  the list computation that its clauses state, and a transaction the composition of its statements. What the
  code takes from outside is the record \<open>world\<close>: the interpreter, SHA-256, the JSON scanner, Ed25519, the
  round trip of a text through a JSONB column, the field \<open>transcript_id\<close> of a stored transcript, the ISO
  text of a time in UTC (the writer) and in the session's time zone (the reader of the column), and the
  time-stamp authority with its verifier. Hashes and key ids are ASCII texts, all other texts code points.
\<close>

section \<open>Payloads\<close>

record entry_line =
  en_sequence_number :: int
  en_previous_hash :: string
  en_timestamp :: ustr
  en_verdict :: ustr
  en_telemetry_id :: ustr
  en_telemetry_hash :: string
  en_rule_id :: "ustr option"
  en_kg_version :: "ustr option"
  en_model_version :: ustr
  en_reasoning :: "ustr option"
  en_track :: "ustr option"
  en_envelope_hash :: "string option"
  en_transcript_hash :: "string option"
  en_transcript_signature :: "string option"
  en_signing_key_id :: "string option"
  en_verifier_status :: "ustr option"

record v5_columns =
  v5_tenant_id :: ustr
  v5_kg_version_hash :: "string option"
  v5_model_weight_hash :: "string option"
  v5_schema_version :: ustr

definition opt_text :: "ustr option \<Rightarrow> json" where
  "opt_text t = (case t of None \<Rightarrow> JNull | Some s \<Rightarrow> JStr s)"

definition opt_hash :: "string option \<Rightarrow> json" where
  "opt_hash t = (case t of None \<Rightarrow> JNull | Some s \<Rightarrow> JStr (ascii s))"

definition member :: "string \<Rightarrow> json \<Rightarrow> ustr option \<times> json" where
  "member n v = (Some (ascii n), v)"

definition verdict_line :: "int \<Rightarrow> entry_line \<Rightarrow> (ustr option \<times> json) list" where
  "verdict_line fmt e =
     [member ''ledger_format'' (JInt fmt),
      member ''sequence_number'' (JInt (en_sequence_number e)),
      member ''previous_hash'' (JStr (ascii (en_previous_hash e))),
      member ''timestamp'' (JStr (en_timestamp e)),
      member ''verdict'' (JStr (en_verdict e)),
      member ''telemetry_id'' (JStr (en_telemetry_id e)),
      member ''telemetry_hash'' (JStr (ascii (en_telemetry_hash e))),
      member ''rule_id'' (opt_text (en_rule_id e)),
      member ''kg_version'' (opt_text (en_kg_version e)),
      member ''ski_model_version'' (JStr (en_model_version e)),
      member ''reasoning'' (opt_text (en_reasoning e)),
      member ''track'' (opt_text (en_track e)),
      member ''envelope_hash'' (opt_hash (en_envelope_hash e)),
      member ''transcript_hash'' (opt_hash (en_transcript_hash e)),
      member ''transcript_signature'' (opt_hash (en_transcript_signature e)),
      member ''signing_key_id'' (opt_hash (en_signing_key_id e)),
      member ''verifier_status'' (opt_text (en_verifier_status e))]"

definition v5_members :: "v5_columns \<Rightarrow> (ustr option \<times> json) list" where
  "v5_members c =
     [member ''tenant_id'' (JStr (v5_tenant_id c)),
      member ''kg_version_hash'' (opt_hash (v5_kg_version_hash c)),
      member ''model_weight_hash'' (opt_hash (v5_model_weight_hash c)),
      member ''schema_version'' (JStr (v5_schema_version c))]"

definition entry_payload_v4 :: "runtime \<Rightarrow> entry_line \<Rightarrow> canon_error + bytes" where
  "entry_payload_v4 rt e = canonicalize rt (JObj (verdict_line 4 e))"

definition entry_payload_v5 :: "runtime \<Rightarrow> entry_line \<Rightarrow> v5_columns \<Rightarrow> canon_error + bytes" where
  "entry_payload_v5 rt e c = canonicalize rt (JObj (verdict_line 5 e @ v5_members c))"

definition evidence_hash ::
  "runtime \<Rightarrow> (bytes \<Rightarrow> bytes) \<Rightarrow> (ustr \<Rightarrow> raw_json option) \<Rightarrow> ustr option \<Rightarrow> canon_error + string option" where
  "evidence_hash rt sha scan t =
     (case t of
        None \<Rightarrow> Inr None
      | Some s \<Rightarrow> map_sum id (\<lambda>b. Some (''sha256:'' @ to_hex (sha b))) (canonicalize_json_text rt scan s))"

definition verdict_signing_bytes :: "runtime \<Rightarrow> int \<Rightarrow> string \<Rightarrow> ustr \<Rightarrow> ustr option \<Rightarrow> canon_error + bytes" where
  "verdict_signing_bytes rt sequence_number entry_hash telemetry_id transcript_id =
     canonicalize rt (JObj
       [member ''purpose'' (JStr (ascii ''ski.ledger.verdict-signature.v1'')),
        member ''sequence_number'' (JInt sequence_number),
        member ''entry_hash'' (JStr (ascii entry_hash)),
        member ''telemetry_id'' (JStr telemetry_id),
        member ''transcript_id'' (opt_text transcript_id)])"

definition checkpoint_statement ::
  "runtime \<Rightarrow> ustr \<Rightarrow> int \<Rightarrow> string \<Rightarrow> string \<Rightarrow> ustr \<Rightarrow> canon_error + bytes" where
  "checkpoint_statement rt tenant_id tree_size root_hash last_entry_hash created_at =
     canonicalize rt (JObj
       [member ''checkpoint_format'' (JInt 1),
        member ''tenant_id'' (JStr tenant_id),
        member ''tree_size'' (JInt tree_size),
        member ''root_hash'' (JStr (ascii root_hash)),
        member ''last_entry_hash'' (JStr (ascii last_entry_hash)),
        member ''created_at'' (JStr created_at)])"

text \<open>
  The payload before format 4: \<open>json.dumps\<close> with sorted keys on a flat object of integers, texts and
  nulls. Its escapes are those of canonical JSON; the UTF-8 encoding fails on a surrogate.
\<close>

definition int_text :: "int \<Rightarrow> ustr" where
  "int_text i = (if i < 0 then 45 # nat_text (nat (- i)) else nat_text (nat i))"

definition dumps_value :: "json \<Rightarrow> ustr" where
  "dumps_value v = (case v of JInt i \<Rightarrow> int_text i | JStr t \<Rightarrow> quote_text t | _ \<Rightarrow> ascii ''null'')"

definition dumps_sorted :: "(ustr option \<times> json) list \<Rightarrow> ustr" where
  "dumps_sorted ms =
     [123] @ commas (map (\<lambda>m. quote_text (the (fst m)) @ [58] @ dumps_value (snd m))
               (sort_key (\<lambda>m. the (fst m)) ms)) @ [125]"

definition v3_members :: "entry_line \<Rightarrow> (ustr option \<times> json) list" where
  "v3_members e =
     [member ''sequence_number'' (JInt (en_sequence_number e)),
      member ''previous_hash'' (JStr (ascii (en_previous_hash e))),
      member ''timestamp'' (JStr (en_timestamp e)),
      member ''verdict'' (JStr (en_verdict e)),
      member ''telemetry_id'' (JStr (en_telemetry_id e)),
      member ''telemetry_hash'' (JStr (ascii (en_telemetry_hash e))),
      member ''rule_id'' (opt_text (en_rule_id e)),
      member ''kg_version'' (opt_text (en_kg_version e)),
      member ''ski_model_version'' (JStr (en_model_version e)),
      member ''reasoning'' (opt_text (en_reasoning e)),
      member ''track'' (opt_text (en_track e))]"

definition canonical_entry_payload :: "entry_line \<Rightarrow> canon_error + bytes" where
  "canonical_entry_payload e =
     (let t = dumps_sorted (v3_members e) in map_sum id (\<lambda>_. utf8 t) (check_unicode t))"

section \<open>The database\<close>

record ledger_row =
  l_seq :: int
  l_prev :: string
  l_hash :: string
  l_time :: int
  l_verdict :: ustr
  l_tid :: ustr
  l_thash :: string
  l_rule :: "ustr option"
  l_kg :: "ustr option"
  l_model :: ustr
  l_reasoning :: "ustr option"
  l_track :: "ustr option"
  l_envelope :: "ustr option"
  l_envelope_hash :: "string option"
  l_transcript :: "ustr option"
  l_transcript_signature :: "string option"
  l_signing_key :: "string option"
  l_verifier_status :: "ustr option"
  l_tenant :: "ustr option"
  l_kg_hash :: "string option"
  l_weight_hash :: "string option"
  l_schema :: "ustr option"
  l_verdict_signature :: "string option"
  l_verdict_key :: "string option"

record checkpoint_row =
  c_tenant :: ustr
  c_size :: int
  c_root :: string
  c_last :: string
  c_created :: ustr
  c_key :: string
  c_signature :: string
  c_pem :: "string option"
  c_tsa_response :: "bytes option"

record database =
  entries :: "ledger_row list"
  signing_keys :: "(string \<times> string) list"
  checkpoints :: "checkpoint_row list"

record world =
  w_runtime :: runtime
  w_sha :: "bytes \<Rightarrow> bytes"
  w_scan :: "ustr \<Rightarrow> raw_json option"
  w_crypto :: crypto
  w_jsonb :: "ustr \<Rightarrow> ustr"
  w_transcript_id :: "ustr \<Rightarrow> ustr option"
  w_iso_utc :: "int \<Rightarrow> ustr"
  w_iso_session :: "int \<Rightarrow> ustr"

definition hexdigest :: "world \<Rightarrow> bytes \<Rightarrow> string" where
  "hexdigest w b = to_hex (w_sha w b)"

definition genesis_hash :: string where
  "genesis_hash = replicate 64 (CHR ''0'')"

section \<open>The writer\<close>

record signer =
  s_key_id :: string
  s_pem :: string
  s_sign :: "bytes \<Rightarrow> string"

record client =
  expected_next_seq :: "int option"
  format5 :: bool
  tenant_id :: ustr
  key_signer :: "signer option"

text \<open>\<open>ORDER BY sequence_number DESC LIMIT 1\<close>, and what the next entry follows.\<close>

definition head_row :: "ledger_row list \<Rightarrow> ledger_row option" where
  "head_row rows =
     fold (\<lambda>r best. case best of None \<Rightarrow> Some r | Some b \<Rightarrow> if l_seq r > l_seq b then Some r else Some b) rows None"

definition next_link :: "ledger_row list \<Rightarrow> int \<times> string" where
  "next_link rows = (case head_row rows of None \<Rightarrow> (1, genesis_hash) | Some r \<Rightarrow> (l_seq r + 1, l_hash r))"

text \<open>What the caller of an append gives.\<close>

record append_request =
  q_verdict :: ustr
  q_telemetry_id :: ustr
  q_telemetry_hash :: string
  q_rule_id :: "ustr option"
  q_kg_version :: "ustr option"
  q_model_version :: ustr
  q_reasoning :: ustr
  q_track :: "ustr option"

record evidence_request = append_request +
  q_envelope :: ustr
  q_transcript :: "ustr option"
  q_transcript_id :: "ustr option"
  q_transcript_signature :: "string option"
  q_signing_key_id :: "string option"
  q_verifier_status :: ustr
  q_kg_version_hash :: "string option"
  q_model_weight_hash :: "string option"

text \<open>The columns an entry of format 3 leaves null.\<close>

definition request_line :: "world \<Rightarrow> int \<times> string \<Rightarrow> int \<Rightarrow> 'a append_request_scheme \<Rightarrow> entry_line" where
  "request_line w link now q =
     \<lparr>en_sequence_number = fst link, en_previous_hash = snd link, en_timestamp = w_iso_utc w now,
      en_verdict = q_verdict q, en_telemetry_id = q_telemetry_id q, en_telemetry_hash = q_telemetry_hash q,
      en_rule_id = q_rule_id q, en_kg_version = q_kg_version q, en_model_version = q_model_version q,
      en_reasoning = Some (q_reasoning q), en_track = q_track q, en_envelope_hash = None,
      en_transcript_hash = None, en_transcript_signature = None, en_signing_key_id = None,
      en_verifier_status = None\<rparr>"

definition base_row :: "int \<Rightarrow> string \<Rightarrow> entry_line \<Rightarrow> ledger_row" where
  "base_row now h e =
     \<lparr>l_seq = en_sequence_number e, l_prev = en_previous_hash e, l_hash = h, l_time = now,
      l_verdict = en_verdict e, l_tid = en_telemetry_id e, l_thash = en_telemetry_hash e,
      l_rule = en_rule_id e, l_kg = en_kg_version e, l_model = en_model_version e,
      l_reasoning = en_reasoning e, l_track = en_track e, l_envelope = None,
      l_envelope_hash = en_envelope_hash e, l_transcript = None,
      l_transcript_signature = en_transcript_signature e, l_signing_key = en_signing_key_id e,
      l_verifier_status = en_verifier_status e, l_tenant = None, l_kg_hash = None, l_weight_hash = None,
      l_schema = None, l_verdict_signature = None, l_verdict_key = None\<rparr>"

text \<open>
  \<open>append\<close>: the new client and table, and whether the sequence gap was reported. The expected sequence
  number is stored before the payload is built.
\<close>

definition append_entry ::
  "world \<Rightarrow> client \<Rightarrow> database \<Rightarrow> int \<Rightarrow> append_request \<Rightarrow> client \<times> bool \<times> (canon_error + database)" where
  "append_entry w cl db now q =
     (let link = next_link (entries db);
          gap = (expected_next_seq cl \<noteq> None \<and> expected_next_seq cl \<noteq> Some (fst link));
          cl' = cl\<lparr>expected_next_seq := Some (fst link + 1)\<rparr>;
          line = request_line w link now q
      in (cl', gap,
          map_sum id (\<lambda>p. db\<lparr>entries := entries db @ [base_row now (hexdigest w p) line]\<rparr>)
            (canonical_entry_payload line)))"

definition ledger_schema_version :: ustr where
  "ledger_schema_version = ascii ''3.0.0''"

definition evidence_line ::
  "world \<Rightarrow> int \<times> string \<Rightarrow> int \<Rightarrow> evidence_request \<Rightarrow> string option \<Rightarrow> string option \<Rightarrow> entry_line" where
  "evidence_line w link now q envelope_hash transcript_hash =
     (request_line w link now q)
       \<lparr>en_envelope_hash := envelope_hash, en_transcript_hash := transcript_hash,
        en_transcript_signature := (if q_transcript q = None then None else q_transcript_signature q),
        en_signing_key_id := (if q_transcript q = None then None else q_signing_key_id q),
        en_verifier_status := Some (q_verifier_status q)\<rparr>"

definition request_v5 :: "client \<Rightarrow> evidence_request \<Rightarrow> v5_columns" where
  "request_v5 cl q =
     \<lparr>v5_tenant_id = tenant_id cl, v5_kg_version_hash = q_kg_version_hash q,
      v5_model_weight_hash = q_model_weight_hash q, v5_schema_version = ledger_schema_version\<rparr>"

text \<open>The row: the JSON columns hold what JSONB gives back.\<close>

definition evidence_row :: "world \<Rightarrow> int \<Rightarrow> string \<Rightarrow> entry_line \<Rightarrow> evidence_request \<Rightarrow> ledger_row" where
  "evidence_row w now h line q =
     (base_row now h line)
       \<lparr>l_envelope := Some (w_jsonb w (q_envelope q)), l_transcript := map_option (w_jsonb w) (q_transcript q)\<rparr>"

definition add_v5 :: "v5_columns \<Rightarrow> (string \<times> string) option \<Rightarrow> ledger_row \<Rightarrow> ledger_row" where
  "add_v5 c sig r =
     r\<lparr>l_tenant := Some (v5_tenant_id c), l_kg_hash := v5_kg_version_hash c,
       l_weight_hash := v5_model_weight_hash c, l_schema := Some (v5_schema_version c),
       l_verdict_signature := map_option fst sig, l_verdict_key := map_option snd sig\<rparr>"

text \<open>The signature of the row's position, with its key id.\<close>

definition sign_position ::
  "world \<Rightarrow> client \<Rightarrow> evidence_request \<Rightarrow> int \<Rightarrow> string \<Rightarrow> canon_error + (string \<times> string) option" where
  "sign_position w cl q seq h =
     (case key_signer cl of
        None \<Rightarrow> Inr None
      | Some s \<Rightarrow>
          map_sum id (\<lambda>m. Some (s_sign s m, s_key_id s))
            (verdict_signing_bytes (w_runtime w) seq h (q_telemetry_id q)
               (if q_transcript q = None then None else q_transcript_id q)))"

definition append_v3 ::
  "world \<Rightarrow> client \<Rightarrow> database \<Rightarrow> int \<Rightarrow> evidence_request \<Rightarrow> canon_error + database" where
  "append_v3 w cl db now q =
     (case evidence_hash (w_runtime w) (w_sha w) (w_scan w) (Some (q_envelope q)) of
        Inl e \<Rightarrow> Inl e
      | Inr envelope_hash \<Rightarrow>
     (case evidence_hash (w_runtime w) (w_sha w) (w_scan w) (q_transcript q) of
        Inl e \<Rightarrow> Inl e
      | Inr transcript_hash \<Rightarrow>
          (let link = next_link (entries db);
               line = evidence_line w link now q envelope_hash transcript_hash
           in if format5 cl then
                (case entry_payload_v5 (w_runtime w) line (request_v5 cl q) of
                   Inl e \<Rightarrow> Inl e
                 | Inr p \<Rightarrow>
                     (case sign_position w cl q (fst link) (hexdigest w p) of
                        Inl e \<Rightarrow> Inl e
                      | Inr sig \<Rightarrow>
                          Inr (db\<lparr>entries := entries db @
                            [add_v5 (request_v5 cl q) sig (evidence_row w now (hexdigest w p) line q)]\<rparr>)))
              else
                (case entry_payload_v4 (w_runtime w) line of
                   Inl e \<Rightarrow> Inl e
                 | Inr p \<Rightarrow> Inr (db\<lparr>entries := entries db @ [evidence_row w now (hexdigest w p) line q]\<rparr>)))))"

text \<open>\<open>register_signing_key\<close>: \<open>ON CONFLICT (key_id) DO NOTHING\<close>.\<close>

definition register_signing_key :: "signer \<Rightarrow> database \<Rightarrow> database" where
  "register_signing_key s db =
     (if s_key_id s \<in> fst ` set (signing_keys db) then db
      else db\<lparr>signing_keys := signing_keys db @ [(s_key_id s, s_pem s)]\<rparr>)"

text \<open>\<open>COALESCE(MAX(x), 0)\<close>.\<close>

definition max_or_zero :: "int list \<Rightarrow> int" where
  "max_or_zero xs = (case xs of [] \<Rightarrow> 0 | n # ns \<Rightarrow> fold max ns n)"

definition covered_size :: "ustr \<Rightarrow> database \<Rightarrow> int" where
  "covered_size tenant db =
     max_or_zero (map c_size (filter (\<lambda>c. c_tenant c = tenant) (checkpoints db)))"

definition entries_since_checkpoint :: "client \<Rightarrow> database \<Rightarrow> int" where
  "entries_since_checkpoint cl db = max_or_zero (map l_seq (entries db)) - covered_size (tenant_id cl) db"

definition by_sequence :: "ledger_row list \<Rightarrow> ledger_row list" where
  "by_sequence rows = sort_key l_seq rows"

datatype checkpoint_error = BadStatement canon_error | BadHash

text \<open>\<open>checkpoint\<close>: \<open>Inr None\<close> when nothing is new. \<open>tsa\<close> is the time-stamp authority's answer, if one is used.\<close>

definition make_checkpoint ::
  "world \<Rightarrow> client \<Rightarrow> signer \<Rightarrow> database \<Rightarrow> ustr \<Rightarrow> (bytes \<Rightarrow> bytes) option
     \<Rightarrow> checkpoint_error + (database \<times> checkpoint_row) option" where
  "make_checkpoint w cl s db created_at tsa =
     (let hashes = map l_hash (by_sequence (entries db)) in
      if hashes = [] \<or> int (length hashes) \<le> covered_size (tenant_id cl) db then Inr None
      else (case merkle_root (w_sha w) hashes of
          None \<Rightarrow> Inl BadHash
        | Some root_hash \<Rightarrow>
            (case checkpoint_statement (w_runtime w) (tenant_id cl) (int (length hashes)) root_hash (last hashes) created_at of
               Inl e \<Rightarrow> Inl (BadStatement e)
             | Inr statement \<Rightarrow>
                 (let row = \<lparr>c_tenant = tenant_id cl, c_size = int (length hashes), c_root = root_hash,
                        c_last = last hashes, c_created = created_at, c_key = s_key_id s,
                        c_signature = s_sign s statement, c_pem = None,
                        c_tsa_response = map_option (\<lambda>f. f statement) tsa\<rparr>;
                      known = list_ex (\<lambda>c. c_tenant c = c_tenant row \<and> c_size c = c_size row) (checkpoints db)
                  in Inr (Some (if known then db else db\<lparr>checkpoints := checkpoints db @ [row]\<rparr>, row))))))"

text \<open>\<open>evidence\<close>: the row, and the hashes of the smallest checkpoint that covers it.\<close>

definition covering_size :: "ustr \<Rightarrow> int \<Rightarrow> database \<Rightarrow> int option" where
  "covering_size tenant seq db =
     (case map c_size (filter (\<lambda>c. c_size c \<ge> seq \<and> c_tenant c = tenant) (checkpoints db)) of
        [] \<Rightarrow> None
      | n # ns \<Rightarrow> Some (fold min ns n))"

definition evidence :: "client \<Rightarrow> database \<Rightarrow> int \<Rightarrow> (ledger_row \<times> string list option) option" where
  "evidence cl db seq =
     (case find (\<lambda>r. l_seq r = seq) (entries db) of
        None \<Rightarrow> None
      | Some r \<Rightarrow>
          Some (r, map_option (\<lambda>n. map l_hash (by_sequence (filter (\<lambda>r. l_seq r \<le> n) (entries db))))
                     (covering_size (tenant_id cl) seq db)))"

text \<open>\<open>list(limit, offset)\<close>.\<close>

definition list_entries :: "database \<Rightarrow> nat \<Rightarrow> nat \<Rightarrow> ledger_row list" where
  "list_entries db limit offset = take limit (drop offset (by_sequence (entries db)))"

end
