(* ===== verification/Ledger_Audit.thy ===== *)
theory Ledger_Audit
  imports Ledger
begin

text \<open>
  The audit of a ledger: \<open>Ledger.verify_integrity\<close> (\<open>audit_ledger/ledger.py\<close>) with the key ring, the verdict
  signatures and the checkpoints of \<open>audit_ledger/evidence.py\<close>.

  Every issue the audit reports has severity CRITICAL, so an issue is a value of the datatype \<open>issue\<close> without
  its text. The loop over the rows is a fold over the record \<open>audit\<close> of its variables. An exception that
  leaves the audit (a payload with a surrogate, a checkpoint over hashes that are no hashes) is \<open>Inl\<close>.
\<close>

datatype issue =
    SequenceGap int int
  | HashMismatch int
  | EntryHashMismatch int
  | FormatDowngrade int nat nat
  | EvidenceHashMismatch int
  | VerdictSignatureInvalid int
  | UntrustedSigningKey int
  | TimestampOrder int
  | SigningKeyMismatch string
  | CheckpointSignatureInvalid int
  | UntrustedCheckpointKey int
  | CheckpointBeyondLedger int
  | CheckpointMismatch int
  | CheckpointFileInvalid
  | CheckpointTimestampInvalid int

datatype audit_warning =
    UnverifiedTimestamps nat
  | NoOpenssl
  | NoPinnedKey
  | NoCheckpoint
  | UnchainedEvidence nat

datatype crash = CanonicalCrash canon_error | HashCrash | IndexCrash

section \<open>Keys\<close>

record key_ring =
  k_keys :: "(string \<times> nat) list"
  k_bad :: "string list"
  k_trusted :: "string list option"

definition load_key :: "crypto \<Rightarrow> string \<Rightarrow> nat option" where
  "load_key cr pem = (case load_pem cr pem of Some (Ed25519 k) \<Rightarrow> Some k | _ \<Rightarrow> None)"

definition ring_step :: "crypto \<Rightarrow> string \<times> string \<Rightarrow> key_ring \<Rightarrow> key_ring" where
  "ring_step cr = (\<lambda>(kid, pem) ring.
     (case load_key cr pem of
        None \<Rightarrow> ring\<lparr>k_bad := k_bad ring @ [py_strip kid]\<rparr>
      | Some k \<Rightarrow>
          if key_id cr k \<noteq> py_strip kid then ring\<lparr>k_bad := k_bad ring @ [py_strip kid]\<rparr>
          else ring\<lparr>k_keys := alist_set (key_id cr k) k (k_keys ring)\<rparr>))"

text \<open>\<open>KeyRing.load\<close>: an empty collection of pins counts as none. \<open>None\<close> for a missing table.\<close>

definition load_ring :: "crypto \<Rightarrow> (string \<times> string) list option \<Rightarrow> string list \<Rightarrow> key_ring" where
  "load_ring cr table trusted =
     fold (ring_step cr) (case table of None \<Rightarrow> [] | Some rows \<Rightarrow> rows)
       \<lparr>k_keys = [], k_bad = [], k_trusted = (if trusted = [] then None else Some trusted)\<rparr>"

definition stripped_id :: "string option \<Rightarrow> string" where
  "stripped_id kid = py_strip (case kid of None \<Rightarrow> [] | Some s \<Rightarrow> s)"

definition ring_get :: "key_ring \<Rightarrow> string option \<Rightarrow> nat option" where
  "ring_get ring kid = map_of (k_keys ring) (stripped_id kid)"

definition is_trusted :: "key_ring \<Rightarrow> string option \<Rightarrow> bool" where
  "is_trusted ring kid = (case k_trusted ring of None \<Rightarrow> True | Some ids \<Rightarrow> stripped_id kid \<in> set ids)"

definition ring_issues :: "key_ring \<Rightarrow> issue list" where
  "ring_issues ring = map SigningKeyMismatch (k_bad ring)"

definition signature_valid :: "crypto \<Rightarrow> nat \<Rightarrow> bytes \<Rightarrow> string option \<Rightarrow> bool" where
  "signature_valid cr k message signature_hex =
     (case signature_hex of
        None \<Rightarrow> False
      | Some s \<Rightarrow>
          s \<noteq> [] \<and> (case from_hex s of None \<Rightarrow> False | Some sig \<Rightarrow> verifies cr k sig message))"

section \<open>Entries\<close>

record audit =
  a_prev_hash :: string
  a_prev_time :: "int option"
  a_expected :: int
  a_links :: nat
  a_hashes :: nat
  a_times_valid :: bool
  a_sequence_valid :: bool
  a_max_format :: nat
  a_unchained :: nat
  a_signatures :: nat
  a_v5_entries :: nat
  a_issues :: "issue list"

definition new_audit :: audit where
  "new_audit =
     \<lparr>a_prev_hash = genesis_hash, a_prev_time = None, a_expected = 1, a_links = 0, a_hashes = 0,
      a_times_valid = True, a_sequence_valid = True, a_max_format = 3, a_unchained = 0, a_signatures = 0,
      a_v5_entries = 0, a_issues = []\<rparr>"

definition stored_line :: "world \<Rightarrow> ledger_row \<Rightarrow> string option \<Rightarrow> string option \<Rightarrow> entry_line" where
  "stored_line w r envelope_hash transcript_hash =
     \<lparr>en_sequence_number = l_seq r, en_previous_hash = l_prev r, en_timestamp = w_iso_session w (l_time r),
      en_verdict = l_verdict r, en_telemetry_id = l_tid r, en_telemetry_hash = l_thash r,
      en_rule_id = l_rule r, en_kg_version = l_kg r, en_model_version = l_model r,
      en_reasoning = l_reasoning r, en_track = l_track r, en_envelope_hash = envelope_hash,
      en_transcript_hash = transcript_hash, en_transcript_signature = l_transcript_signature r,
      en_signing_key_id = l_signing_key r, en_verifier_status = l_verifier_status r\<rparr>"

definition stored_v5 :: "ledger_row \<Rightarrow> v5_columns option" where
  "stored_v5 r =
     (case (l_tenant r, l_schema r) of
        (Some t, Some s) \<Rightarrow>
          Some \<lparr>v5_tenant_id = t, v5_kg_version_hash = map_option py_strip (l_kg_hash r),
                v5_model_weight_hash = map_option py_strip (l_weight_hash r), v5_schema_version = s\<rparr>
      | _ \<Rightarrow> None)"

definition matches_v4 :: "world \<Rightarrow> ledger_row \<Rightarrow> entry_line \<Rightarrow> nat" where
  "matches_v4 w r line =
     (case entry_payload_v4 (w_runtime w) line of
        Inl _ \<Rightarrow> 3
      | Inr p \<Rightarrow> if hexdigest w p = l_hash r then 4 else 3)"

text \<open>
  Step 3a: the format that the stored evidence proves, with the recomputed envelope digest. A
  \<open>CanonicalizationError\<close> anywhere leaves the format at 3.
\<close>

definition entry_format :: "world \<Rightarrow> ledger_row \<Rightarrow> nat \<times> string option" where
  "entry_format w r =
     (case evidence_hash (w_runtime w) (w_sha w) (w_scan w) (l_envelope r) of
        Inl _ \<Rightarrow> (3, None)
      | Inr envelope_hash \<Rightarrow>
          (case evidence_hash (w_runtime w) (w_sha w) (w_scan w) (l_transcript r) of
             Inl _ \<Rightarrow> (3, envelope_hash)
           | Inr transcript_hash \<Rightarrow>
               (let line = stored_line w r envelope_hash transcript_hash in
                case stored_v5 r of
                  None \<Rightarrow> (matches_v4 w r line, envelope_hash)
                | Some cols \<Rightarrow>
                    (case entry_payload_v5 (w_runtime w) line cols of
                       Inl _ \<Rightarrow> (3, envelope_hash)
                     | Inr p \<Rightarrow>
                         if hexdigest w p = l_hash r then (5, envelope_hash)
                         else (matches_v4 w r line, envelope_hash)))))"

definition plain_payload :: "world \<Rightarrow> ledger_row \<Rightarrow> canon_error + bytes" where
  "plain_payload w r = canonical_entry_payload (stored_line w r None None)"

text \<open>Steps 1 and 2: sequence and link.\<close>

definition check_link :: "ledger_row \<Rightarrow> audit \<Rightarrow> audit" where
  "check_link r a =
     (let gap = (l_seq r \<noteq> a_expected a); linked = (l_prev r = a_prev_hash a) in
      a\<lparr>a_sequence_valid := a_sequence_valid a \<and> \<not> gap, a_expected := l_seq r + 1,
        a_links := (if linked then a_links a + 1 else a_links a),
        a_issues := a_issues a @ (if gap then [SequenceGap (a_expected a) (l_seq r)] else []) @
          (if linked then [] else [HashMismatch (l_seq r)])\<rparr>)"

text \<open>The format that applies (0 when no payload reproduces the stored hash), and the issue that says so.\<close>

definition settle_format :: "world \<Rightarrow> ledger_row \<Rightarrow> nat \<Rightarrow> canon_error + nat \<times> issue list" where
  "settle_format w r fmt =
     (if fmt = 3 then
        map_sum id (\<lambda>p. if hexdigest w p \<noteq> l_hash r then (0, [EntryHashMismatch (l_seq r)]) else (3, []))
          (plain_payload w r)
      else Inr (fmt, []))"

definition check_format :: "ledger_row \<Rightarrow> nat \<Rightarrow> audit \<Rightarrow> audit" where
  "check_format r fmt a =
     (if fmt \<noteq> 0 \<and> fmt < a_max_format a then
        a\<lparr>a_issues := a_issues a @ [FormatDowngrade (l_seq r) fmt (a_max_format a)]\<rparr>
      else if fmt \<noteq> 0 then
        a\<lparr>a_hashes := a_hashes a + 1, a_max_format := max (a_max_format a) fmt,
          a_unchained := (if fmt = 3 \<and> l_envelope r \<noteq> None then a_unchained a + 1 else a_unchained a)\<rparr>
      else a)"

definition check_envelope_column :: "ledger_row \<Rightarrow> nat \<Rightarrow> string option \<Rightarrow> audit \<Rightarrow> audit" where
  "check_envelope_column r fmt envelope_hash a =
     (if fmt \<ge> 4 \<and> l_envelope_hash r \<noteq> envelope_hash
      then a\<lparr>a_issues := a_issues a @ [EvidenceHashMismatch (l_seq r)]\<rparr> else a)"

text \<open>Step 3b.\<close>

definition row_message :: "world \<Rightarrow> ledger_row \<Rightarrow> canon_error + bytes" where
  "row_message w r =
     verdict_signing_bytes (w_runtime w) (l_seq r) (l_hash r) (l_tid r)
       (case l_transcript r of None \<Rightarrow> None | Some t \<Rightarrow> w_transcript_id w t)"

definition check_signature :: "world \<Rightarrow> key_ring \<Rightarrow> ledger_row \<Rightarrow> nat \<Rightarrow> audit \<Rightarrow> canon_error + audit" where
  "check_signature w ring r fmt a =
     (if fmt = 5 then
        map_sum id (\<lambda>message.
          (let a = a\<lparr>a_v5_entries := a_v5_entries a + 1\<rparr>;
               valid = (case ring_get ring (l_verdict_key r) of
                          None \<Rightarrow> False
                        | Some k \<Rightarrow> signature_valid (w_crypto w) k message (l_verdict_signature r))
           in if \<not> valid then a\<lparr>a_issues := a_issues a @ [VerdictSignatureInvalid (l_seq r)]\<rparr>
              else if \<not> is_trusted ring (l_verdict_key r)
              then a\<lparr>a_issues := a_issues a @ [UntrustedSigningKey (l_seq r)]\<rparr>
              else a\<lparr>a_signatures := a_signatures a + 1\<rparr>))
        (row_message w r)
      else Inr a)"

text \<open>Step 4, and the variables the next row reads.\<close>

definition check_time :: "ledger_row \<Rightarrow> audit \<Rightarrow> audit" where
  "check_time r a =
     (let late = (case a_prev_time a of None \<Rightarrow> False | Some t \<Rightarrow> l_time r < t) in
      a\<lparr>a_times_valid := a_times_valid a \<and> \<not> late,
        a_issues := a_issues a @ (if late then [TimestampOrder (l_seq r)] else []),
        a_prev_hash := l_hash r, a_prev_time := Some (l_time r)\<rparr>)"

definition audit_row :: "world \<Rightarrow> key_ring \<Rightarrow> ledger_row \<Rightarrow> audit \<Rightarrow> canon_error + audit" where
  "audit_row w ring r a =
     (let a = check_link r a; (proved, envelope_hash) = entry_format w r in
      case settle_format w r proved of
        Inl e \<Rightarrow> Inl e
      | Inr (fmt, found) \<Rightarrow>
          (let a = a\<lparr>a_issues := a_issues a @ found\<rparr>;
               a = check_format r fmt a;
               a = check_envelope_column r fmt envelope_hash a
           in map_sum id (check_time r) (check_signature w ring r fmt a)))"

section \<open>Checkpoints\<close>

record checkpoint_report =
  p_verified :: nat
  p_timestamped :: nat
  p_timestamps_verified :: nat
  p_issues :: "issue list"
  p_warnings :: "audit_warning list"

text \<open>\<open>xs[:n]\<close>: a negative bound counts from the end.\<close>

definition py_prefix :: "int \<Rightarrow> 'a list \<Rightarrow> 'a list" where
  "py_prefix n xs = (if n \<ge> 0 then take (nat n) xs else take (length xs - nat (- n)) xs)"

definition statement_of :: "world \<Rightarrow> checkpoint_row \<Rightarrow> canon_error + bytes" where
  "statement_of w cp =
     checkpoint_statement (w_runtime w) (c_tenant cp) (c_size cp) (c_root cp) (c_last cp) (c_created cp)"

text \<open>The key of a checkpoint: its own (an exported file) or the ring's.\<close>

definition checkpoint_key :: "world \<Rightarrow> key_ring \<Rightarrow> checkpoint_row \<Rightarrow> nat option" where
  "checkpoint_key w ring cp =
     (case c_pem cp of
        Some pem \<Rightarrow> if pem \<noteq> [] then load_key (w_crypto w) pem else ring_get ring (Some (c_key cp))
      | None \<Rightarrow> ring_get ring (Some (c_key cp)))"

text \<open>\<open>merkle_root(covered) != root or covered[-1] != last\<close>.\<close>

definition root_differs :: "world \<Rightarrow> string list \<Rightarrow> checkpoint_row \<Rightarrow> crash + bool" where
  "root_differs w covered cp =
     (case merkle_root (w_sha w) covered of
        None \<Rightarrow> Inl HashCrash
      | Some root_hash \<Rightarrow>
          if root_hash \<noteq> c_root cp then Inr True
          else if covered = [] then Inl IndexCrash
          else Inr (last covered \<noteq> c_last cp))"

definition report_issue :: "issue \<Rightarrow> checkpoint_report \<Rightarrow> checkpoint_report" where
  "report_issue i rep = rep\<lparr>p_issues := p_issues rep @ [i]\<rparr>"

definition check_one ::
  "world \<Rightarrow> key_ring \<Rightarrow> string list \<Rightarrow> checkpoint_row \<Rightarrow> checkpoint_report \<Rightarrow> crash + bool \<times> checkpoint_report" where
  "check_one w ring hashes cp rep =
     (case statement_of w cp of
        Inl e \<Rightarrow> Inl (CanonicalCrash e)
      | Inr statement \<Rightarrow>
          (let kid = py_strip (c_key cp);
               valid = (case checkpoint_key w ring cp of
                          None \<Rightarrow> False
                        | Some k \<Rightarrow> key_id (w_crypto w) k = kid \<and>
                            signature_valid (w_crypto w) k statement (Some (c_signature cp)))
           in if \<not> valid then Inr (False, report_issue (CheckpointSignatureInvalid (c_size cp)) rep)
              else if \<not> is_trusted ring (Some kid)
              then Inr (False, report_issue (UntrustedCheckpointKey (c_size cp)) rep)
              else if c_size cp > int (length hashes)
              then Inr (False, report_issue (CheckpointBeyondLedger (c_size cp)) rep)
              else (case root_differs w (py_prefix (c_size cp) hashes) cp of
                  Inl e \<Rightarrow> Inl e
                | Inr True \<Rightarrow> Inr (False, report_issue (CheckpointMismatch (c_size cp)) rep)
                | Inr False \<Rightarrow> Inr (True, rep\<lparr>p_verified := p_verified rep + 1\<rparr>))))"

text \<open>\<open>openssl ts -verify\<close> with the auditor's CA: \<open>None\<close> when openssl is not installed.\<close>

record tsa_check =
  openssl :: "(bytes \<Rightarrow> bytes \<Rightarrow> bool) option"

definition verify_timestamp ::
  "world \<Rightarrow> tsa_check \<Rightarrow> checkpoint_row \<Rightarrow> bytes \<Rightarrow> checkpoint_report \<Rightarrow> crash + checkpoint_report" where
  "verify_timestamp w tsa cp response rep =
     (case openssl tsa of
        None \<Rightarrow> Inr (rep\<lparr>p_warnings := p_warnings rep @ [NoOpenssl]\<rparr>)
      | Some check \<Rightarrow>
          (case statement_of w cp of
             Inl e \<Rightarrow> Inl (CanonicalCrash e)
           | Inr statement \<Rightarrow>
               Inr (if check statement response
                    then rep\<lparr>p_timestamps_verified := p_timestamps_verified rep + 1\<rparr>
                    else report_issue (CheckpointTimestampInvalid (c_size cp)) rep)))"

definition timestamp_step ::
  "world \<Rightarrow> tsa_check option \<Rightarrow> checkpoint_row \<Rightarrow> bytes \<Rightarrow> checkpoint_report \<Rightarrow> crash + checkpoint_report" where
  "timestamp_step w tsa cp response rep =
     (let rep = rep\<lparr>p_timestamped := p_timestamped rep + 1\<rparr> in
      case tsa of None \<Rightarrow> Inr rep | Some t \<Rightarrow> verify_timestamp w t cp response rep)"

text \<open>A row of the table: a time-stamp is checked when there is one.\<close>

definition stored_checkpoint ::
  "world \<Rightarrow> key_ring \<Rightarrow> string list \<Rightarrow> tsa_check option \<Rightarrow> checkpoint_row \<Rightarrow> checkpoint_report
     \<Rightarrow> crash + checkpoint_report" where
  "stored_checkpoint w ring hashes tsa cp rep =
     (case check_one w ring hashes (cp\<lparr>c_pem := None\<rparr>) rep of
        Inl e \<Rightarrow> Inl e
      | Inr (ok, rep) \<Rightarrow>
          (case c_tsa_response cp of
             Some response \<Rightarrow> if ok then timestamp_step w tsa cp response rep else Inr rep
           | None \<Rightarrow> Inr rep))"

text \<open>An exported file: \<open>None\<close> when its \<open>format\<close> field is another; an empty response counts as none.\<close>

definition exported_checkpoint ::
  "world \<Rightarrow> key_ring \<Rightarrow> string list \<Rightarrow> tsa_check option \<Rightarrow> checkpoint_row option \<Rightarrow> checkpoint_report
     \<Rightarrow> crash + checkpoint_report" where
  "exported_checkpoint w ring hashes tsa file rep =
     (case file of
        None \<Rightarrow> Inr (report_issue CheckpointFileInvalid rep)
      | Some cp \<Rightarrow>
          (case check_one w ring hashes cp rep of
             Inl e \<Rightarrow> Inl e
           | Inr (ok, rep) \<Rightarrow>
               (case c_tsa_response cp of
                  Some response \<Rightarrow>
                    if ok \<and> response \<noteq> [] then timestamp_step w tsa cp response rep else Inr rep
                | None \<Rightarrow> Inr rep)))"

definition verify_checkpoints ::
  "world \<Rightarrow> key_ring \<Rightarrow> string list \<Rightarrow> tsa_check option \<Rightarrow> checkpoint_row list option \<Rightarrow> checkpoint_row option list
     \<Rightarrow> crash + checkpoint_report" where
  "verify_checkpoints w ring hashes tsa table exported =
     (let rep = \<lparr>p_verified = 0, p_timestamped = 0, p_timestamps_verified = 0, p_issues = [], p_warnings = []\<rparr> in
      case fold_err (stored_checkpoint w ring hashes tsa)
             (sort_key c_size (case table of None \<Rightarrow> [] | Some rows \<Rightarrow> rows)) rep of
        Inl e \<Rightarrow> Inl e
      | Inr rep \<Rightarrow>
          map_sum id (\<lambda>rep.
              if p_timestamped rep > 0 \<and> tsa = None
              then rep\<lparr>p_warnings := p_warnings rep @ [UnverifiedTimestamps (p_timestamped rep)]\<rparr> else rep)
            (fold_err (exported_checkpoint w ring hashes tsa) exported rep))"

section \<open>The audit\<close>

record verification_result =
  v_valid :: bool
  v_total :: nat
  v_range :: "int \<times> int"
  v_continuity :: bool
  v_links :: nat
  v_hashes :: nat
  v_ordering :: bool
  v_issues :: "issue list"
  v_warnings :: "audit_warning list"
  v_signatures :: nat
  v_checkpoints :: nat
  v_timestamps :: nat

text \<open>What the auditor gives, and which tables and columns the ledger has.\<close>

record audit_request =
  trusted_key_ids :: "string list"
  exported_files :: "checkpoint_row option list"
  tsa_ca :: "tsa_check option"
  has_v5_columns :: bool
  has_key_table :: bool
  has_checkpoint_table :: bool

text \<open>The query for a ledger without the columns of format 5 selects nulls for them.\<close>

definition selected_row :: "bool \<Rightarrow> ledger_row \<Rightarrow> ledger_row" where
  "selected_row v5 r =
     (if v5 then r
      else r\<lparr>l_tenant := None, l_kg_hash := None, l_weight_hash := None, l_schema := None,
             l_verdict_signature := None, l_verdict_key := None\<rparr>)"

definition empty_result :: verification_result where
  "empty_result =
     \<lparr>v_valid = True, v_total = 0, v_range = (0, 0), v_continuity = True, v_links = 0, v_hashes = 0,
      v_ordering = True, v_issues = [], v_warnings = [], v_signatures = 0, v_checkpoints = 0, v_timestamps = 0\<rparr>"

definition audit_warnings :: "key_ring \<Rightarrow> audit \<Rightarrow> checkpoint_report \<Rightarrow> audit_warning list" where
  "audit_warnings ring a rep =
     p_warnings rep @
     (if a_v5_entries a > 0 \<and> k_trusted ring = None then [NoPinnedKey] else []) @
     (if a_v5_entries a > 0 \<and> p_verified rep = 0 then [NoCheckpoint] else []) @
     (if a_unchained a > 0 then [UnchainedEvidence (a_unchained a)] else [])"

definition verify_integrity :: "world \<Rightarrow> audit_request \<Rightarrow> database \<Rightarrow> crash + verification_result" where
  "verify_integrity w q db =
     (let rows = map (selected_row (has_v5_columns q)) (by_sequence (entries db));
          ring = load_ring (w_crypto w) (if has_key_table q then Some (signing_keys db) else None) (trusted_key_ids q)
      in
      if rows = [] then Inr empty_result
      else (case fold_err (audit_row w ring) rows new_audit of
          Inl e \<Rightarrow> Inl (CanonicalCrash e)
        | Inr a \<Rightarrow>
            (case verify_checkpoints w ring (map l_hash rows) (tsa_ca q)
                    (if has_checkpoint_table q then Some (checkpoints db) else None) (exported_files q) of
               Inl e \<Rightarrow> Inl e
             | Inr rep \<Rightarrow>
                 (let found = a_issues a @ ring_issues ring @ p_issues rep in
                  Inr \<lparr>v_valid = (found = []), v_total = length rows,
                       v_range = (l_seq (hd rows), l_seq (last rows)),
                       v_continuity = a_sequence_valid a, v_links = a_links a, v_hashes = a_hashes a,
                       v_ordering = a_times_valid a, v_issues = found,
                       v_warnings = audit_warnings ring a rep, v_signatures = a_signatures a,
                       v_checkpoints = p_verified rep, v_timestamps = p_timestamps_verified rep\<rparr>))))"

end
