(* ===== verification/Ledger_Chain.thy ===== *)
theory Ledger_Chain
  imports Ledger_Audit
begin

text \<open>
  What an audit without issues says of the rows: the sequence numbers count up from 1, each row names the
  hash of the row before, and a payload reproduces the stored hash. From there, the binding of the chain: two
  ledgers that pass the audit and end in one hash hold the same chained columns, or SHA-256 collides.
\<close>

section \<open>Rows that raise no issue\<close>

definition grows :: "audit \<Rightarrow> audit \<Rightarrow> bool" where
  "grows a b = (\<exists>new. a_issues b = a_issues a @ new)"

lemma grows_refl [simp]: "grows a a"
  by (simp add: grows_def)

lemma grows_trans: "grows a b \<Longrightarrow> grows b c \<Longrightarrow> grows a c"
  by (auto simp: grows_def)

lemma grows_clean: "grows a b \<Longrightarrow> a_issues b = [] \<Longrightarrow> a_issues a = []"
  by (auto simp: grows_def)

lemma check_format_issues:
  "a_issues (check_format r fmt a) =
   a_issues a @ (if fmt \<noteq> 0 \<and> fmt < a_max_format a then [FormatDowngrade (l_seq r) fmt (a_max_format a)] else [])"
  by (simp add: check_format_def)

lemma check_envelope_column_issues:
  "a_issues (check_envelope_column r fmt eh a) =
   a_issues a @ (if fmt \<ge> 4 \<and> l_envelope_hash r \<noteq> eh then [EvidenceHashMismatch (l_seq r)] else [])"
  by (simp add: check_envelope_column_def)

definition signed_row :: "world \<Rightarrow> key_ring \<Rightarrow> ledger_row \<Rightarrow> bool" where
  "signed_row w ring r \<longleftrightarrow>
     (\<exists>message k. row_message w r = Inr message \<and> ring_get ring (l_verdict_key r) = Some k \<and>
        signature_valid (w_crypto w) k message (l_verdict_signature r) \<and> is_trusted ring (l_verdict_key r))"

lemma check_signature_issues:
  "check_signature w ring r fmt a = Inr b \<Longrightarrow> \<exists>new. a_issues b = a_issues a @ new \<and>
     (new = [] \<longrightarrow> fmt = 5 \<longrightarrow> signed_row w ring r)"
  by (cases "row_message w r"; cases "ring_get ring (l_verdict_key r)")
     (auto simp: check_signature_def signed_row_def Let_def split: if_splits)

lemma check_time_issues:
  "a_issues (check_time r a) = a_issues a @
   (if (case a_prev_time a of None \<Rightarrow> False | Some t \<Rightarrow> l_time r < t) then [TimestampOrder (l_seq r)] else [])"
  by (simp add: check_time_def Let_def)

lemma check_link_issues:
  "a_issues (check_link r a) = a_issues a @
   (if l_seq r \<noteq> a_expected a then [SequenceGap (a_expected a) (l_seq r)] else []) @
   (if l_prev r = a_prev_hash a then [] else [HashMismatch (l_seq r)])"
  by (simp add: check_link_def Let_def)

lemma audit_frames [simp]:
  "a_expected (check_link r a) = l_seq r + 1"
  "a_max_format (check_link r a) = a_max_format a"
  "a_prev_time (check_link r a) = a_prev_time a"
  "a_prev_hash (check_link r a) = a_prev_hash a"
  "a_expected (check_format r fmt a) = a_expected a"
  "a_prev_time (check_format r fmt a) = a_prev_time a"
  "a_expected (check_envelope_column r fmt eh a) = a_expected a"
  "a_max_format (check_envelope_column r fmt eh a) = a_max_format a"
  "a_prev_time (check_envelope_column r fmt eh a) = a_prev_time a"
  "a_expected (check_time r a) = a_expected a"
  "a_max_format (check_time r a) = a_max_format a"
  "a_prev_hash (check_time r a) = l_hash r"
  "a_prev_time (check_time r a) = Some (l_time r)"
  by (simp_all add: check_link_def check_format_def check_envelope_column_def check_time_def Let_def)

lemma check_signature_frames:
  "check_signature w ring r fmt a = Inr b \<Longrightarrow>
   a_expected b = a_expected a \<and> a_max_format b = a_max_format a \<and> a_prev_time b = a_prev_time a"
  by (cases "row_message w r") (auto simp: check_signature_def Let_def split: if_splits option.splits)

text \<open>The payload of a row in the format that its evidence proves.\<close>

definition evidence_hashes :: "world \<Rightarrow> ledger_row \<Rightarrow> string option \<times> string option" where
  "evidence_hashes w r =
     (projr (evidence_hash (w_runtime w) (w_sha w) (w_scan w) (l_envelope r)),
      projr (evidence_hash (w_runtime w) (w_sha w) (w_scan w) (l_transcript r)))"

definition proved_line :: "world \<Rightarrow> ledger_row \<Rightarrow> entry_line" where
  "proved_line w r = stored_line w r (fst (evidence_hashes w r)) (snd (evidence_hashes w r))"

definition payload_members :: "world \<Rightarrow> ledger_row \<Rightarrow> (ustr option \<times> json) list" where
  "payload_members w r =
     (if fst (entry_format w r) = 5 then verdict_line 5 (proved_line w r) @ v5_members (the (stored_v5 r))
      else verdict_line 4 (proved_line w r))"

lemma matches_v4_cases:
  "matches_v4 w r line = 3 \<or>
   matches_v4 w r line = 4 \<and> (\<exists>p. entry_payload_v4 (w_runtime w) line = Inr p \<and> hexdigest w p = l_hash r)"
  by (auto simp: matches_v4_def split: sum.splits)

lemma entry_format_proves:
  assumes "fst (entry_format w r) \<ge> 4"
  shows "\<exists>p. canonicalize (w_runtime w) (JObj (payload_members w r)) = Inr p \<and> hexdigest w p = l_hash r"
proof -
  obtain eh where eh: "evidence_hash (w_runtime w) (w_sha w) (w_scan w) (l_envelope r) = Inr eh"
    using assms by (auto simp: entry_format_def split: sum.splits)
  obtain th where th: "evidence_hash (w_runtime w) (w_sha w) (w_scan w) (l_transcript r) = Inr th"
    using assms eh by (auto simp: entry_format_def split: sum.splits)
  let ?line = "stored_line w r eh th"
  have line: "proved_line w r = ?line" by (simp add: proved_line_def evidence_hashes_def eh th)
  show ?thesis
  proof (cases "stored_v5 r")
    case None
    then have "fst (entry_format w r) = matches_v4 w r ?line" by (simp add: entry_format_def eh th Let_def)
    with assms matches_v4_cases [of w r ?line] show ?thesis
      by (auto simp: payload_members_def line entry_payload_v4_def)
  next
    case (Some cols)
    obtain p where p: "entry_payload_v5 (w_runtime w) ?line cols = Inr p"
      using assms Some by (auto simp: entry_format_def eh th Let_def split: sum.splits)
    show ?thesis
    proof (cases "hexdigest w p = l_hash r")
      case True
      then have "fst (entry_format w r) = 5" by (simp add: entry_format_def eh th Let_def Some p)
      with True p Some show ?thesis by (auto simp: payload_members_def line entry_payload_v5_def)
    next
      case False
      then have "fst (entry_format w r) = matches_v4 w r ?line"
        by (simp add: entry_format_def eh th Let_def Some p)
      with assms matches_v4_cases [of w r ?line] show ?thesis
        by (auto simp: payload_members_def line entry_payload_v4_def)
    qed
  qed
qed

lemma entry_format_range: "fst (entry_format w r) \<in> {3, 4, 5}"
  using matches_v4_cases [of w r]
  by (auto simp: entry_format_def Let_def split: sum.splits option.splits)

lemma settle_format_4: "fmt \<noteq> 3 \<Longrightarrow> settle_format w r fmt = Inr (fmt, [])"
  by (simp add: settle_format_def)

lemma settle_format_clean:
  "settle_format w r fmt = Inr (f, []) \<Longrightarrow> f = fmt"
  by (cases "plain_payload w r") (auto simp: settle_format_def split: if_splits)

text \<open>
  The abstract specification of a ledger: what a row must satisfy after the rows before it, of which only
  the expected sequence number, the last hash, the last time and the last format matter.
\<close>

record position =
  s_expected :: int
  s_hash :: string
  s_time :: "int option"
  s_format :: nat

definition start_position :: position where
  "start_position = \<lparr>s_expected = 1, s_hash = genesis_hash, s_time = None, s_format = 3\<rparr>"

definition after_row :: "world \<Rightarrow> ledger_row \<Rightarrow> position" where
  "after_row w r =
     \<lparr>s_expected = l_seq r + 1, s_hash = l_hash r, s_time = Some (l_time r), s_format = fst (entry_format w r)\<rparr>"

definition position_of :: "audit \<Rightarrow> position" where
  "position_of a =
     \<lparr>s_expected = a_expected a, s_hash = a_prev_hash a, s_time = a_prev_time a, s_format = a_max_format a\<rparr>"

definition clean_row :: "world \<Rightarrow> key_ring \<Rightarrow> position \<Rightarrow> ledger_row \<Rightarrow> bool" where
  "clean_row w ring s r \<longleftrightarrow>
     l_seq r = s_expected s \<and> l_prev r = s_hash s \<and>
     s_format s \<le> fst (entry_format w r) \<and>
     (fst (entry_format w r) = 3 \<longrightarrow> (\<exists>p. plain_payload w r = Inr p \<and> hexdigest w p = l_hash r)) \<and>
     (fst (entry_format w r) \<ge> 4 \<longrightarrow> l_envelope_hash r = snd (entry_format w r)) \<and>
     (fst (entry_format w r) = 5 \<longrightarrow> signed_row w ring r) \<and>
     (case s_time s of None \<Rightarrow> True | Some t \<Rightarrow> t \<le> l_time r)"

fun clean_chain :: "world \<Rightarrow> key_ring \<Rightarrow> position \<Rightarrow> ledger_row list \<Rightarrow> bool" where
  "clean_chain w ring s [] = True"
| "clean_chain w ring s (r # rs) = (clean_row w ring s r \<and> clean_chain w ring (after_row w r) rs)"

lemma audit_row_steps:
  assumes "audit_row w ring r a = Inr b"
  obtains fmt found c where "settle_format w r (fst (entry_format w r)) = Inr (fmt, found)"
    and "check_signature w ring r fmt (check_envelope_column r fmt (snd (entry_format w r))
      (check_format r fmt ((check_link r a)\<lparr>a_issues := a_issues (check_link r a) @ found\<rparr>))) = Inr c"
    and "b = check_time r c"
proof -
  obtain proved eh where f: "entry_format w r = (proved, eh)" by fastforce
  from assms show thesis
    using that by (auto simp: audit_row_def Let_def f map_sum_Inr split: sum.splits)
qed

lemma audit_row_grows: "audit_row w ring r a = Inr b \<Longrightarrow> grows a b"
proof -
  assume "audit_row w ring r a = Inr b"
  then obtain fmt found c where s: "check_signature w ring r fmt (check_envelope_column r fmt (snd (entry_format w r))
      (check_format r fmt ((check_link r a)\<lparr>a_issues := a_issues (check_link r a) @ found\<rparr>))) = Inr c"
    "b = check_time r c" by (rule audit_row_steps)
  from check_signature_issues [OF s(1)] s(2) show ?thesis
    by (auto simp: grows_def check_time_issues check_link_issues check_format_issues check_envelope_column_issues)
qed

lemma check_format_max:
  "a_max_format (check_format r fmt a) = (if fmt \<noteq> 0 \<and> a_max_format a \<le> fmt then fmt else a_max_format a)"
  by (auto simp: check_format_def)

lemma audit_row_clean:
  assumes "audit_row w ring r a = Inr b" and "a_issues b = []"
  shows "clean_row w ring (position_of a) r \<and> position_of b = after_row w r"
proof -
  from assms(1) obtain fmt found c where st: "settle_format w r (fst (entry_format w r)) = Inr (fmt, found)"
    and s: "check_signature w ring r fmt (check_envelope_column r fmt (snd (entry_format w r))
      (check_format r fmt ((check_link r a)\<lparr>a_issues := a_issues (check_link r a) @ found\<rparr>))) = Inr c"
    and b: "b = check_time r c" by (rule audit_row_steps)
  obtain new where new: "a_issues c = a_issues (check_envelope_column r fmt (snd (entry_format w r))
      (check_format r fmt ((check_link r a)\<lparr>a_issues := a_issues (check_link r a) @ found\<rparr>))) @ new"
    and sig: "new = [] \<longrightarrow> fmt = 5 \<longrightarrow> signed_row w ring r"
    using check_signature_issues [OF s] by blast
  have clean: "found = []" "new = []" "l_seq r = a_expected a" "l_prev r = a_prev_hash a"
      "fmt \<noteq> 0 \<longrightarrow> a_max_format a \<le> fmt" "fmt \<ge> 4 \<longrightarrow> l_envelope_hash r = snd (entry_format w r)"
    using assms(2) new unfolding b
    by (auto simp: check_time_issues check_link_issues check_format_issues check_envelope_column_issues
        split: if_splits)
  have fmt: "fmt = fst (entry_format w r)" using st clean(1) settle_format_clean by blast
  have plain: "fst (entry_format w r) = 3 \<longrightarrow> (\<exists>p. plain_payload w r = Inr p \<and> hexdigest w p = l_hash r)"
    using st clean(1) by (cases "plain_payload w r") (auto simp: settle_format_def fmt [symmetric] split: if_splits)
  have nz: "fmt \<noteq> 0" using entry_format_range [of w r] fmt by auto
  have frames: "a_expected c = l_seq r + 1" "a_max_format c = fmt" "a_prev_time c = a_prev_time a"
    using check_signature_frames [OF s] nz clean(5) by (simp_all add: check_format_max)
  have time: "(case a_prev_time a of None \<Rightarrow> True | Some t \<Rightarrow> t \<le> l_time r)"
    using assms(2) unfolding b by (auto simp: check_time_issues frames(3) split: option.splits if_splits)
  show ?thesis
    using clean sig fmt plain nz time frames unfolding clean_row_def position_of_def after_row_def b by simp
qed

text \<open>The other direction: a clean row passes.\<close>

lemma same_issues [simp]: "a\<lparr>a_issues := a_issues a\<rparr> = a"
  by simp

lemma clean_row_passes:
  assumes "clean_row w ring (position_of a) r" and "a_issues a = []"
  shows "\<exists>b. audit_row w ring r a = Inr b \<and> a_issues b = []"
proof -
  let ?f = "fst (entry_format w r)"
  have st: "settle_format w r ?f = Inr (?f, [])"
    using assms(1) by (auto simp: clean_row_def settle_format_def)
  define d where "d = check_envelope_column r ?f (snd (entry_format w r)) (check_format r ?f (check_link r a))"
  have d: "a_issues d = []" "a_prev_time d = a_prev_time a"
    using assms by (auto simp: d_def clean_row_def position_of_def check_link_issues check_format_issues
        check_envelope_column_issues)
  have "\<exists>c. check_signature w ring r ?f d = Inr c \<and> a_issues c = [] \<and> a_prev_time c = a_prev_time a"
    using assms(1) d by (auto simp: check_signature_def clean_row_def signed_row_def Let_def)
  then obtain c where c: "check_signature w ring r ?f d = Inr c" "a_issues c = []" "a_prev_time c = a_prev_time a"
    by blast
  have "audit_row w ring r a = Inr (check_time r c)"
    using c(1) st by (simp add: audit_row_def Let_def d_def split_beta)
  moreover have "a_issues (check_time r c) = []"
    using c assms(1) by (auto simp: check_time_issues clean_row_def position_of_def split: option.splits)
  ultimately show ?thesis by blast
qed

lemma fold_audit_grows: "fold_err (audit_row w ring) rows a = Inr b \<Longrightarrow> grows a b"
proof (induction rows arbitrary: a)
  case (Cons r rows)
  then obtain c where c: "audit_row w ring r a = Inr c" "fold_err (audit_row w ring) rows c = Inr b"
    by (auto split: sum.splits)
  from audit_row_grows [OF c(1)] Cons.IH [OF c(2)] show ?case by (rule grows_trans)
qed simp

text \<open>The loop of the audit decides the specification.\<close>

lemma fold_audit_clean:
  assumes "a_issues a = []"
  shows "(\<exists>b. fold_err (audit_row w ring) rows a = Inr b \<and> a_issues b = []) \<longleftrightarrow>
    clean_chain w ring (position_of a) rows"
  using assms
proof (induction rows arbitrary: a)
  case (Cons r rows)
  show ?case
  proof
    assume "\<exists>b. fold_err (audit_row w ring) (r # rows) a = Inr b \<and> a_issues b = []"
    then obtain b c where c: "audit_row w ring r a = Inr c" "fold_err (audit_row w ring) rows c = Inr b" "a_issues b = []"
      by (auto split: sum.splits)
    have clean: "a_issues c = []" by (rule grows_clean [OF fold_audit_grows [OF c(2)] c(3)])
    from audit_row_clean [OF c(1) clean] Cons.IH [OF clean] c show "clean_chain w ring (position_of a) (r # rows)"
      by auto
  next
    assume chain: "clean_chain w ring (position_of a) (r # rows)"
    then obtain c where c: "audit_row w ring r a = Inr c" "a_issues c = []"
      using clean_row_passes [OF _ Cons.prems, of w ring r] by auto
    from audit_row_clean [OF this] Cons.IH [OF c(2)] chain c(1)
    show "\<exists>b. fold_err (audit_row w ring) (r # rows) a = Inr b \<and> a_issues b = []" by auto
  qed
qed simp

definition ring_of :: "world \<Rightarrow> audit_request \<Rightarrow> database \<Rightarrow> key_ring" where
  "ring_of w q db =
     load_ring (w_crypto w) (if has_key_table q then Some (signing_keys db) else None) (trusted_key_ids q)"

definition audited_rows :: "audit_request \<Rightarrow> database \<Rightarrow> ledger_row list" where
  "audited_rows q db = map (selected_row (has_v5_columns q)) (by_sequence (entries db))"

lemma position_new [simp]: "position_of new_audit = start_position" "a_issues new_audit = []"
  by (simp_all add: position_of_def new_audit_def start_position_def)

lemma audited_rows_Nil [simp]: "audited_rows q db = [] \<longleftrightarrow> entries db = []"
  by (metis audited_rows_def by_sequence_def length_0_conv length_map length_sort)

definition accepted :: "world \<Rightarrow> audit_request \<Rightarrow> database \<Rightarrow> bool" where
  "accepted w q db = (case verify_integrity w q db of Inl _ \<Rightarrow> False | Inr v \<Rightarrow> v_valid v)"

definition checkpoints_pass :: "world \<Rightarrow> audit_request \<Rightarrow> database \<Rightarrow> bool" where
  "checkpoints_pass w q db \<longleftrightarrow>
     (\<exists>rep. verify_checkpoints w (ring_of w q db) (map l_hash (audited_rows q db)) (tsa_ca q)
        (if has_checkpoint_table q then Some (checkpoints db) else None) (exported_files q) = Inr rep \<and>
        p_issues rep = [])"

text \<open>The verdict of the audit on a ledger with entries.\<close>

lemma accepted_iff:
  assumes "entries db \<noteq> []"
  shows "accepted w q db \<longleftrightarrow> clean_chain w (ring_of w q db) start_position (audited_rows q db) \<and>
    k_bad (ring_of w q db) = [] \<and> checkpoints_pass w q db"
proof -
  let ?fold = "fold_err (audit_row w (ring_of w q db)) (audited_rows q db) new_audit"
  let ?cps = "verify_checkpoints w (ring_of w q db) (map l_hash (audited_rows q db)) (tsa_ca q)
        (if has_checkpoint_table q then Some (checkpoints db) else None) (exported_files q)"
  have "accepted w q db \<longleftrightarrow> (\<exists>a rep. ?fold = Inr a \<and> ?cps = Inr rep \<and>
      a_issues a @ ring_issues (ring_of w q db) @ p_issues rep = [])"
    using assms audited_rows_Nil [of q db]
    by (cases ?fold; cases ?cps)
       (auto simp: accepted_def verify_integrity_def Let_def ring_of_def audited_rows_def)
  also have "\<dots> \<longleftrightarrow> (\<exists>a. ?fold = Inr a \<and> a_issues a = []) \<and> k_bad (ring_of w q db) = [] \<and> checkpoints_pass w q db"
    by (auto simp: ring_issues_def checkpoints_pass_def)
  finally show ?thesis
    using fold_audit_clean [of new_audit w "ring_of w q db" "audited_rows q db"] by simp
qed

end
