(* ===== verification/Ledger_Binding.thy ===== *)
theory Ledger_Binding
  imports Ledger_Chain
begin

text \<open>
  What a hash, a chain and a checkpoint bind. A hash that the audit reproduces in format 4 or 5 binds every
  hashed column and the stored evidence of its row; the links then bind all rows before it. The alternative is
  always a collision of SHA-256 between two texts that the two audits hash.
\<close>

section \<open>Laws of the world\<close>

text \<open>Documented behaviour: NFC leaves ASCII text as it is.\<close>

definition ascii_stable :: "runtime \<Rightarrow> bool" where
  "ascii_stable rt \<longleftrightarrow> (\<forall>t. (\<forall>c \<in> set t. c < 128) \<longrightarrow> nfc rt t = t)"

lemma ascii_inject [simp]: "ascii s = ascii t \<longleftrightarrow> s = t"
  by (auto simp: ascii_def inj_map_eq_map [OF inj_of_char])

definition ascii_text :: "string \<Rightarrow> bool" where
  "ascii_text s \<longleftrightarrow> (\<forall>c \<in> set (ascii s). c < 128)"

section \<open>The hashed columns of a row\<close>

text \<open>The value of each hashed column, as canonical JSON tells values apart.\<close>

definition normal_member :: "runtime \<Rightarrow> ustr option \<times> json \<Rightarrow> ustr option \<times> json" where
  "normal_member rt m = (fst m, normal (projr (nfc_normalize_values rt (snd m))))"

definition chained_columns :: "world \<Rightarrow> ledger_row \<Rightarrow> ustr option \<Rightarrow> json option" where
  "chained_columns w r = map_of (map (normal_member (w_runtime w)) (payload_members w r))"

definition column_names :: "string list" where
  "column_names =
     [''ledger_format'', ''sequence_number'', ''previous_hash'', ''timestamp'', ''verdict'', ''telemetry_id'',
      ''telemetry_hash'', ''rule_id'', ''kg_version'', ''ski_model_version'', ''reasoning'', ''track'',
      ''envelope_hash'', ''transcript_hash'', ''transcript_signature'', ''signing_key_id'', ''verifier_status'']"

definition v5_names :: "string list" where
  "v5_names = [''tenant_id'', ''kg_version_hash'', ''model_weight_hash'', ''schema_version'']"

lemma member_name [simp]: "fst (member n v) = Some (ascii n)" "snd (member n v) = v"
  by (simp_all add: member_def)

lemma verdict_line_names: "map fst (verdict_line fmt e) = map (Some \<circ> ascii) column_names"
  by (simp add: verdict_line_def column_names_def)

lemma v5_member_names: "map fst (v5_members c) = map (Some \<circ> ascii) v5_names"
  by (simp add: v5_members_def v5_names_def)

lemma column_names_distinct: "distinct (column_names @ v5_names)"
  by (simp add: column_names_def v5_names_def)

lemma payload_names:
  "map fst (payload_members w r) =
   map (Some \<circ> ascii) (column_names @ (if fst (entry_format w r) = 5 then v5_names else []))"
  by (simp add: payload_members_def verdict_line_names v5_member_names)

lemma payload_distinct: "distinct (map fst (payload_members w r))"
proof -
  have inj: "inj (Some \<circ> ascii)" by (auto simp: inj_def)
  have "distinct (column_names @ (if fst (entry_format w r) = 5 then v5_names else []))"
    using column_names_distinct by auto
  then show ?thesis
    unfolding payload_names by (simp only: distinct_map inj_on_subset [OF inj subset_UNIV])
qed

text \<open>The bytes behind a hash that the audit reproduces in format 4 or 5.\<close>

definition payload_bytes :: "world \<Rightarrow> ledger_row \<Rightarrow> bytes" where
  "payload_bytes w r = projr (canonicalize (w_runtime w) (JObj (payload_members w r)))"

lemma map_of_sorted:
  assumes "sort_key f xs = sort_key f ys" and "distinct (map fst xs)"
  shows "map_of xs = map_of ys"
proof -
  have same: "mset xs = mset ys" using assms(1) by (metis mset_sort)
  then have "mset (map fst xs) = mset (map fst ys)" by (simp only: mset_map)
  with assms(2) have "distinct (map fst ys)" by (metis mset_eq_imp_distinct_iff)
  with assms(2) same show ?thesis by (metis map_of_inject_set mset_eq_setD)
qed

lemma nfc_object:
  assumes "nfc_normalize_values rt (JObj ms) = Inr v"
  shows "normal v = JObj (sort_key member_key (map (normal_member rt) ms))"
proof -
  obtain ms' where ms': "nfc_members rt ms = map Inr ms'" "v = JObj ms'"
    using assms by (auto simp: map_sum_Inr collect_Inr)
  have "map (\<lambda>m. (fst m, normal (snd m))) ms' = map (normal_member rt) ms"
    using ms'(1)
  proof (induction ms arbitrary: ms')
    case (Cons m ms)
    obtain k v where m: "m = (k, v)" by (cases m)
    from Cons.prems obtain n ns where n: "ms' = n # ns" by (cases ms') (auto simp: m)
    from Cons.prems have "map_sum id (Pair k) (nfc_normalize_values rt v) = Inr n" "nfc_members rt ms = map Inr ns"
      by (simp_all add: n m)
    with Cons.IH [of ns] show ?case by (auto simp: n m map_sum_Inr normal_member_def)
  qed simp
  with ms'(2) show ?thesis by simp
qed

lemma payload_identifies_columns:
  assumes laws: "runtime_laws (w_runtime w)"
    and typed: "well_typed (w_runtime w) (JObj (payload_members w r))" "well_typed (w_runtime w) (JObj (payload_members w s))"
    and r: "canonicalize (w_runtime w) (JObj (payload_members w r)) = Inr p"
    and s: "canonicalize (w_runtime w) (JObj (payload_members w s)) = Inr p"
  shows "chained_columns w r = chained_columns w s"
proof -
  obtain v a where v: "nfc_normalize_values (w_runtime w) (JObj (payload_members w r)) = Inr v"
      "serialize (w_runtime w) v = Inr a" "p = utf8 a"
    using r unfolding canonicalize_Inr by blast
  obtain u b where u: "nfc_normalize_values (w_runtime w) (JObj (payload_members w s)) = Inr u"
      "serialize (w_runtime w) u = Inr b" "p = utf8 b"
    using s unfolding canonicalize_Inr by blast
  have "normal v = normal u"
    using jcs_bytes_iff [OF laws nfc_well_typed [OF laws typed(1) v(1)] nfc_well_typed [OF laws typed(2) u(1)] v(2) u(2)]
      v(3) u(3) by simp
  then have "sort_key member_key (map (normal_member (w_runtime w)) (payload_members w r)) =
      sort_key member_key (map (normal_member (w_runtime w)) (payload_members w s))"
    by (simp add: nfc_object [OF v(1)] nfc_object [OF u(1)])
  moreover have "distinct (map fst (map (normal_member (w_runtime w)) (payload_members w r)))"
    using payload_distinct [of w r] by (simp add: normal_member_def comp_def)
  ultimately show ?thesis unfolding chained_columns_def by (rule map_of_sorted)
qed

text \<open>Three columns read back from the map.\<close>

lemma payload_prefix:
  "\<exists>fmt ms. payload_members w r = verdict_line fmt (proved_line w r) @ ms"
  by (auto simp: payload_members_def)

lemma chained_sequence: "chained_columns w r (Some (ascii ''sequence_number'')) = Some (JFloat (Fin (of_int (l_seq r))))"
proof -
  obtain fmt ms where p: "payload_members w r = verdict_line fmt (proved_line w r) @ ms"
    using payload_prefix by blast
  show ?thesis
    by (simp add: chained_columns_def p verdict_line_def normal_member_def proved_line_def stored_line_def)
qed

lemma chained_previous:
  assumes "check_unicode (ascii (l_prev r)) = Inr ()"
  shows "chained_columns w r (Some (ascii ''previous_hash'')) = Some (JStr (nfc (w_runtime w) (ascii (l_prev r))))"
proof -
  obtain fmt ms where p: "payload_members w r = verdict_line fmt (proved_line w r) @ ms"
    using payload_prefix by blast
  show ?thesis
    using assms by (simp add: chained_columns_def p verdict_line_def normal_member_def proved_line_def stored_line_def)
qed

section \<open>One row\<close>

lemma hex_char_ascii: "n < 16 \<Longrightarrow> (of_char (hex_char n) :: nat) < 128"
  by (auto simp: hex_char_def)

lemma to_hex_ascii: "ascii_text (to_hex b)"
proof -
  have "(of_char c :: nat) < 128" if "c \<in> set (byte_hex x)" for c and x :: "8 word"
  proof -
    have "unat x < 256" using unsigned_less [of x] by simp
    then have "unat x div 16 < 16" "unat x mod 16 < 16" by auto
    with that hex_char_ascii show ?thesis by (auto simp: byte_hex_def)
  qed
  then show ?thesis by (auto simp: ascii_text_def ascii_def to_hex_def)
qed

lemma genesis_ascii: "ascii_text genesis_hash"
  by (simp add: ascii_text_def ascii_def genesis_hash_def)

lemma ascii_unicode [simp]: "check_unicode (ascii t) = Inr ()"
proof -
  have "\<not> surrogate (of_char c)" for c
    using nat_of_char_less_256 [of c] by (simp add: surrogate_def del: nat_of_char_less_256)
  then show ?thesis by (simp add: check_unicode_iff ascii_def)
qed

text \<open>The stored evidence, as the canonical bytes that its digests commit to.\<close>

definition evidence_bytes :: "world \<Rightarrow> ustr option \<Rightarrow> bytes option" where
  "evidence_bytes w t =
     (case t of None \<Rightarrow> None | Some s \<Rightarrow> Some (projr (canonicalize_json_text (w_runtime w) (w_scan w) s)))"

definition same_content :: "world \<Rightarrow> ledger_row \<Rightarrow> ledger_row \<Rightarrow> bool" where
  "same_content w r s \<longleftrightarrow>
     chained_columns w r = chained_columns w s \<and>
     evidence_bytes w (l_envelope r) = evidence_bytes w (l_envelope s) \<and>
     evidence_bytes w (l_transcript r) = evidence_bytes w (l_transcript s)"

text \<open>What the audit hashes for a row.\<close>

definition hashed_texts :: "world \<Rightarrow> ledger_row \<Rightarrow> bytes list" where
  "hashed_texts w r =
     payload_bytes w r # (case evidence_bytes w (l_envelope r) of None \<Rightarrow> [] | Some b \<Rightarrow> [b]) @
     (case evidence_bytes w (l_transcript r) of None \<Rightarrow> [] | Some b \<Rightarrow> [b])"

definition sha_collision :: "world \<Rightarrow> ledger_row list \<Rightarrow> ledger_row list \<Rightarrow> bool" where
  "sha_collision w rs ss =
     list_ex (\<lambda>a. list_ex (\<lambda>b. collides (w_sha w) (a, b)) (concat (map (hashed_texts w) ss)))
       (concat (map (hashed_texts w) rs))"

lemma no_collision:
  assumes "\<not> sha_collision w rs ss" "r \<in> set rs" "s \<in> set ss"
    and "a \<in> set (hashed_texts w r)" "b \<in> set (hashed_texts w s)" "w_sha w a = w_sha w b"
  shows "a = b"
  using assms by (force simp: sha_collision_def list_ex_iff collides_def)

text \<open>The texts of a row are strings of code points, which is what a Python string holds.\<close>

definition row_texts :: "world \<Rightarrow> ledger_row \<Rightarrow> ustr list" where
  "row_texts w r =
     [w_iso_session w (l_time r), l_verdict r, l_tid r, l_model r] @
     concat (map (\<lambda>t. case t of None \<Rightarrow> [] | Some u \<Rightarrow> [u])
       [l_rule r, l_kg r, l_reasoning r, l_track r, l_verifier_status r, l_tenant r, l_schema r])"

lemma ascii_code_points [simp]: "code_points (ascii t)"
proof -
  have "(of_char c :: nat) < 1114112" for c
    using nat_of_char_less_256 [of c] by (rule less_trans) simp
  then show ?thesis by (simp add: code_points_def ascii_def list_all_iff)
qed

lemma typed_opt [simp]:
  "well_typed rt (opt_hash h)" "well_typed rt (opt_text t) \<longleftrightarrow> (case t of None \<Rightarrow> True | Some u \<Rightarrow> code_points u)"
  by (auto simp: opt_hash_def opt_text_def split: option.splits)

lemma format_5_columns:
  assumes "fst (entry_format w r) = 5"
  shows "\<exists>t u. l_tenant r = Some t \<and> l_schema r = Some u"
proof (cases "stored_v5 r")
  case None
  have "matches_v4 w r line \<noteq> 5" for line using matches_v4_cases [of w r line] by auto
  with assms show ?thesis by (simp add: entry_format_def None Let_def split: sum.splits)
qed (auto simp: stored_v5_def split: option.splits)

lemma typed_verdict_line:
  "list_all code_points (row_texts w r) \<Longrightarrow> well_typed (w_runtime w) (JObj (verdict_line fmt (proved_line w r)))"
  by (simp add: verdict_line_def proved_line_def stored_line_def member_def row_texts_def list_all_iff split: option.splits)

lemma typed_payload:
  assumes "list_all code_points (row_texts w r)"
  shows "well_typed (w_runtime w) (JObj (payload_members w r))"
proof (cases "fst (entry_format w r) = 5")
  case True
  then obtain t u where "l_tenant r = Some t" "l_schema r = Some u" using format_5_columns by blast
  moreover from this have "code_points t" "code_points u" using assms by (simp_all add: row_texts_def)
  ultimately have "well_typed (w_runtime w) (JObj (v5_members (the (stored_v5 r))))"
    by (simp add: stored_v5_def v5_members_def member_def)
  with typed_verdict_line [OF assms] True show ?thesis by (simp add: payload_members_def)
qed (use typed_verdict_line [OF assms] in \<open>simp add: payload_members_def\<close>)

text \<open>A row whose hash the audit reproduces in format 4 or 5.\<close>

definition chained_row :: "world \<Rightarrow> ledger_row \<Rightarrow> bool" where
  "chained_row w r \<longleftrightarrow> fst (entry_format w r) \<ge> 4 \<and> list_all code_points (row_texts w r)"

lemma chained_row_payload:
  assumes "chained_row w r"
  shows "canonicalize (w_runtime w) (JObj (payload_members w r)) = Inr (payload_bytes w r)"
    and "l_hash r = hexdigest w (payload_bytes w r)"
  using entry_format_proves [of w r] assms by (auto simp: chained_row_def payload_bytes_def)

lemma evidence_hash_bytes:
  "evidence_hash (w_runtime w) (w_sha w) (w_scan w) t = Inr h \<Longrightarrow>
   h = map_option (\<lambda>b. ''sha256:'' @ to_hex (w_sha w b)) (evidence_bytes w t)"
  by (cases t) (auto simp: evidence_hash_def evidence_bytes_def map_sum_Inr)

lemma chained_row_evidence:
  assumes "chained_row w r"
  shows "evidence_hashes w r =
    (map_option (\<lambda>b. ''sha256:'' @ to_hex (w_sha w b)) (evidence_bytes w (l_envelope r)),
     map_option (\<lambda>b. ''sha256:'' @ to_hex (w_sha w b)) (evidence_bytes w (l_transcript r)))"
proof -
  let ?h = "\<lambda>t. evidence_hash (w_runtime w) (w_sha w) (w_scan w) t"
  obtain eh where eh: "?h (l_envelope r) = Inr eh"
    using assms by (auto simp: chained_row_def entry_format_def split: sum.splits)
  obtain th where th: "?h (l_transcript r) = Inr th"
    using assms eh by (auto simp: chained_row_def entry_format_def split: sum.splits)
  show ?thesis
    using evidence_hash_bytes [OF eh] evidence_hash_bytes [OF th] by (simp add: evidence_hashes_def eh th)
qed

definition digest_text :: "string option \<Rightarrow> bool" where
  "digest_text h \<longleftrightarrow> (case h of None \<Rightarrow> True | Some t \<Rightarrow> ascii_text t)"

lemma digest_column:
  assumes "ascii_stable rt" "digest_text h"
  shows "normal (projr (nfc_normalize_values rt (opt_hash h))) = opt_hash h"
  using assms ascii_unicode
  by (cases h) (auto simp: opt_hash_def digest_text_def ascii_stable_def ascii_text_def)

lemma opt_hash_inject [simp]: "opt_hash a = opt_hash b \<longleftrightarrow> a = b"
  by (cases a; cases b) (auto simp: opt_hash_def)

lemma chained_digests:
  assumes "ascii_stable (w_runtime w)" "chained_row w r"
  shows "chained_columns w r (Some (ascii ''envelope_hash'')) = Some (opt_hash (fst (evidence_hashes w r)))"
    and "chained_columns w r (Some (ascii ''transcript_hash'')) = Some (opt_hash (snd (evidence_hashes w r)))"
proof -
  obtain fmt ms where p: "payload_members w r = verdict_line fmt (proved_line w r) @ ms"
    using payload_prefix by blast
  have "ascii_text (''sha256:'' @ to_hex b)" for b
    using to_hex_ascii [of b] by (auto simp: ascii_text_def ascii_def)
  then have d: "digest_text (fst (evidence_hashes w r))" "digest_text (snd (evidence_hashes w r))"
    unfolding chained_row_evidence [OF assms(2)] by (simp_all add: digest_text_def split: option.split)
  note c = d [THEN digest_column [OF assms(1)]]
  show "chained_columns w r (Some (ascii ''envelope_hash'')) = Some (opt_hash (fst (evidence_hashes w r)))"
    "chained_columns w r (Some (ascii ''transcript_hash'')) = Some (opt_hash (snd (evidence_hashes w r)))"
    using c by (simp_all add: chained_columns_def p verdict_line_def normal_member_def proved_line_def stored_line_def)
qed

lemma same_evidence:
  assumes free: "\<not> sha_collision w rs ss" and rows: "r \<in> set rs" "s \<in> set ss"
    and digests: "map_option (\<lambda>b. ''sha256:'' @ to_hex (w_sha w b)) x = map_option (\<lambda>b. ''sha256:'' @ to_hex (w_sha w b)) y"
    and hashed: "\<And>a. x = Some a \<Longrightarrow> a \<in> set (hashed_texts w r)" "\<And>b. y = Some b \<Longrightarrow> b \<in> set (hashed_texts w s)"
  shows "x = y"
proof (cases x)
  case None
  then show ?thesis using digests by simp
next
  case (Some a)
  then obtain b where b: "y = Some b" "w_sha w a = w_sha w b" using digests by (cases y) auto
  with no_collision [OF free rows hashed(1) [OF Some] hashed(2) [OF b(1)]] Some show ?thesis by simp
qed

lemma same_hash_same_content:
  assumes laws: "runtime_laws (w_runtime w)" "ascii_stable (w_runtime w)"
    and rows: "chained_row w r" "chained_row w s" "r \<in> set rs" "s \<in> set ss"
    and hash: "l_hash r = l_hash s" and free: "\<not> sha_collision w rs ss"
  shows "same_content w r s"
proof -
  have "w_sha w (payload_bytes w r) = w_sha w (payload_bytes w s)"
    using hash unfolding rows(1,2) [THEN chained_row_payload(2)] by (simp add: hexdigest_def)
  then have "payload_bytes w r = payload_bytes w s"
    by (rule no_collision [OF free rows(3,4), rotated 2]) (simp_all add: hashed_texts_def)
  then have "canonicalize (w_runtime w) (JObj (payload_members w s)) = Inr (payload_bytes w r)"
    using chained_row_payload(1) [OF rows(2)] by simp
  moreover have "list_all code_points (row_texts w r)" "list_all code_points (row_texts w s)"
    using rows(1,2) by (simp_all add: chained_row_def)
  ultimately have cols: "chained_columns w r = chained_columns w s"
    using payload_identifies_columns [OF laws(1) typed_payload typed_payload chained_row_payload(1) [OF rows(1)]]
    by blast
  then have "evidence_hashes w r = evidence_hashes w s"
    using chained_digests [OF laws(2) rows(1)] chained_digests [OF laws(2) rows(2)] by (simp add: prod_eq_iff)
  note ev = this [unfolded rows(1,2) [THEN chained_row_evidence] prod.inject]
  have "evidence_bytes w (l_envelope r) = evidence_bytes w (l_envelope s)"
    by (rule same_evidence [OF free rows(3,4) conjunct1 [OF ev]]) (auto simp: hashed_texts_def)
  moreover have "evidence_bytes w (l_transcript r) = evidence_bytes w (l_transcript s)"
    by (rule same_evidence [OF free rows(3,4) conjunct2 [OF ev]]) (auto simp: hashed_texts_def)
  ultimately show ?thesis using cols by (simp add: same_content_def)
qed

section \<open>The chain\<close>

definition link_at :: "ledger_row list \<Rightarrow> nat \<Rightarrow> bool" where
  "link_at rows i \<longleftrightarrow>
     l_seq (rows ! i) = 1 + int i \<and> l_prev (rows ! i) = (if i = 0 then genesis_hash else l_hash (rows ! (i - 1)))"

definition linked :: "ledger_row list \<Rightarrow> bool" where
  "linked rows \<longleftrightarrow> (\<forall>i < length rows. link_at rows i)"

lemma link_at_append: "i < length rows \<Longrightarrow> link_at (rows @ ss) i = link_at rows i"
proof -
  assume "i < length rows"
  moreover from this have "i - 1 < length rows" by simp
  ultimately show ?thesis by (simp only: link_at_def nth_append if_True)
qed

lemma linked_snoc:
  "linked (rows @ [r]) \<longleftrightarrow> linked rows \<and> l_seq r = 1 + int (length rows) \<and>
     l_prev r = (if rows = [] then genesis_hash else l_hash (last rows))"
proof -
  have "link_at (rows @ [r]) (length rows) \<longleftrightarrow> l_seq r = 1 + int (length rows) \<and>
     l_prev r = (if rows = [] then genesis_hash else l_hash (last rows))"
    by (cases rows rule: rev_cases) (simp_all add: link_at_def nth_append)
  moreover have "linked (rows @ [r]) \<longleftrightarrow> link_at (rows @ [r]) (length rows) \<and> (\<forall>i < length rows. link_at (rows @ [r]) i)"
    unfolding linked_def by (simp only: length_append_singleton All_less_Suc)
  ultimately show ?thesis unfolding linked_def by (auto simp: link_at_append)
qed

definition clean_at :: "world \<Rightarrow> key_ring \<Rightarrow> position \<Rightarrow> ledger_row list \<Rightarrow> nat \<Rightarrow> bool" where
  "clean_at w ring s rows i = clean_row w ring (if i = 0 then s else after_row w (rows ! (i - 1))) (rows ! i)"

lemma clean_chain_nth: "clean_chain w ring s rows \<longleftrightarrow> (\<forall>i < length rows. clean_at w ring s rows i)"
proof (induction rows arbitrary: s)
  case (Cons r rows)
  have "clean_at w ring s (r # rows) (Suc i) = clean_at w ring (after_row w r) rows i" for i
    by (cases i) (simp_all add: clean_at_def)
  moreover have "clean_at w ring s (r # rows) 0 = clean_row w ring s r" by (simp add: clean_at_def)
  ultimately show ?case unfolding clean_chain.simps Cons.IH by (simp only: length_Cons All_less_Suc2)
qed simp

lemma clean_chain_sequence:
  assumes "clean_chain w ring start_position rows" "i < length rows"
  shows "l_seq (rows ! i) = 1 + int i"
  using assms(2)
proof (induction i)
  case 0
  then have "clean_at w ring start_position rows 0" using assms(1) unfolding clean_chain_nth by blast
  then show ?case by (simp add: clean_at_def clean_row_def start_position_def)
next
  case (Suc i)
  then have "clean_at w ring start_position rows (Suc i)" using assms(1) unfolding clean_chain_nth by blast
  with Suc show ?case by (simp add: clean_at_def clean_row_def after_row_def)
qed

lemma clean_chain_linked:
  assumes "clean_chain w ring start_position rows"
  shows "linked rows"
  unfolding linked_def
proof (intro allI impI)
  fix i
  assume i: "i < length rows"
  with assms have "clean_at w ring start_position rows i" unfolding clean_chain_nth by blast
  with clean_chain_sequence [OF assms i] show "link_at rows i"
    by (simp add: link_at_def clean_at_def clean_row_def start_position_def after_row_def split: if_splits)
qed

lemma linked_take: "linked rows \<Longrightarrow> linked (take n rows)"
  unfolding linked_def by (metis append_take_drop_id length_take link_at_append min_less_iff_conj)

lemma previous_ascii:
  assumes "linked (rows @ [r])" "\<forall>s \<in> set rows. chained_row w s"
  shows "ascii_text (l_prev r)"
  using assms genesis_ascii to_hex_ascii chained_row_payload(2) [of w "last rows"]
  by (auto simp: linked_snoc hexdigest_def)

lemma chain_binds:
  assumes laws: "runtime_laws (w_runtime w)" "ascii_stable (w_runtime w)"
    and free: "\<not> sha_collision w rs ss"
  shows "linked xs \<Longrightarrow> linked ys \<Longrightarrow> \<forall>r \<in> set xs. chained_row w r \<Longrightarrow> \<forall>r \<in> set ys. chained_row w r \<Longrightarrow>
    set xs \<subseteq> set rs \<Longrightarrow> set ys \<subseteq> set ss \<Longrightarrow> xs \<noteq> [] \<Longrightarrow> ys \<noteq> [] \<Longrightarrow> l_hash (last xs) = l_hash (last ys) \<Longrightarrow>
    list_all2 (same_content w) xs ys"
proof (induction xs arbitrary: ys rule: rev_induct)
  case (snoc r xs)
  obtain zs s where ys: "ys = zs @ [s]" using snoc.prems(8) by (meson rev_exhaust)
  note prems = snoc.prems [unfolded ys]
  have same: "same_content w r s"
    by (rule same_hash_same_content [OF laws _ _ _ _ _ free]) (use prems in auto)
  then have cols: "chained_columns w r = chained_columns w s" by (simp add: same_content_def)
  from fun_cong [OF this, of "Some (ascii ''sequence_number'')"] have "l_seq r = l_seq s"
    by (simp add: chained_sequence)
  then have len: "length xs = length zs" using prems(1,2) by (simp add: linked_snoc)
  have prev: "ascii_text (l_prev r)" "ascii_text (l_prev s)"
    using previous_ascii [OF prems(1)] previous_ascii [OF prems(2)] prems(3,4) by auto
  from fun_cong [OF cols, of "Some (ascii ''previous_hash'')"] have "l_prev r = l_prev s"
    using prev laws(2) by (simp add: chained_previous ascii_unicode) (simp add: ascii_stable_def ascii_text_def)
  then have hash: "xs \<noteq> [] \<Longrightarrow> l_hash (last xs) = l_hash (last zs)"
    using prems(1,2) len by (auto simp: linked_snoc)
  have "list_all2 (same_content w) xs zs"
  proof (cases "xs = []")
    case True
    then show ?thesis using len by simp
  next
    case False
    then have "zs \<noteq> []" using len by auto
    with False show ?thesis
      using snoc.IH [of zs] prems hash by (simp add: linked_snoc)
  qed
  then show ?case using same len by (simp add: ys list_all2_append)
qed simp

section \<open>Checkpoints\<close>

definition report_grows :: "checkpoint_report \<Rightarrow> checkpoint_report \<Rightarrow> bool" where
  "report_grows a b = (\<exists>new. p_issues b = p_issues a @ new)"

lemma report_grows_refl [simp]: "report_grows a a"
  by (simp add: report_grows_def)

lemma report_grows_trans: "report_grows a b \<Longrightarrow> report_grows b c \<Longrightarrow> report_grows a c"
  by (auto simp: report_grows_def)

lemma report_grows_clean: "report_grows a b \<Longrightarrow> p_issues b = [] \<Longrightarrow> p_issues a = []"
  by (auto simp: report_grows_def)

text \<open>The checks on one checkpoint, as a predicate.\<close>

definition checkpoint_ok :: "world \<Rightarrow> key_ring \<Rightarrow> string list \<Rightarrow> checkpoint_row \<Rightarrow> bool" where
  "checkpoint_ok w ring hashes cp \<longleftrightarrow>
     (\<exists>statement k. statement_of w cp = Inr statement \<and> checkpoint_key w ring cp = Some k \<and>
        key_id (w_crypto w) k = py_strip (c_key cp) \<and>
        signature_valid (w_crypto w) k statement (Some (c_signature cp))) \<and>
     is_trusted ring (Some (py_strip (c_key cp))) \<and>
     c_size cp \<le> int (length hashes) \<and>
     root_differs w (py_prefix (c_size cp) hashes) cp = Inr False"

lemma check_one_ok:
  "check_one w ring hashes cp rep = Inr (True, rep') \<longleftrightarrow>
   checkpoint_ok w ring hashes cp \<and> rep' = rep\<lparr>p_verified := p_verified rep + 1\<rparr>"
  by (cases "statement_of w cp"; cases "checkpoint_key w ring cp"; cases "root_differs w (py_prefix (c_size cp) hashes) cp")
     (auto simp: check_one_def checkpoint_ok_def Let_def split: bool.splits)

lemma check_one_fails:
  "check_one w ring hashes cp rep = Inr (False, rep') \<Longrightarrow> \<exists>i. p_issues rep' = p_issues rep @ [i]"
  by (auto simp: check_one_def report_issue_def Let_def split: sum.splits if_splits bool.splits option.splits)

definition timestamp_ok :: "world \<Rightarrow> tsa_check option \<Rightarrow> checkpoint_row \<Rightarrow> bytes \<Rightarrow> bool" where
  "timestamp_ok w tsa cp response =
     (case tsa of None \<Rightarrow> True
      | Some t \<Rightarrow> (case openssl t of None \<Rightarrow> True
          | Some check \<Rightarrow> \<exists>statement. statement_of w cp = Inr statement \<and> check statement response))"

definition stored_ok :: "world \<Rightarrow> key_ring \<Rightarrow> string list \<Rightarrow> tsa_check option \<Rightarrow> checkpoint_row \<Rightarrow> bool" where
  "stored_ok w ring hashes tsa cp \<longleftrightarrow>
     checkpoint_ok w ring hashes (cp\<lparr>c_pem := None\<rparr>) \<and>
     (case c_tsa_response cp of None \<Rightarrow> True | Some response \<Rightarrow> timestamp_ok w tsa cp response)"

definition exported_ok ::
  "world \<Rightarrow> key_ring \<Rightarrow> string list \<Rightarrow> tsa_check option \<Rightarrow> checkpoint_row option \<Rightarrow> bool" where
  "exported_ok w ring hashes tsa file =
     (case file of None \<Rightarrow> False
      | Some cp \<Rightarrow> checkpoint_ok w ring hashes cp \<and>
          (case c_tsa_response cp of None \<Rightarrow> True
           | Some response \<Rightarrow> response = [] \<or> timestamp_ok w tsa cp response))"

lemma timestamp_step_clean:
  assumes "p_issues rep = []" "\<exists>statement. statement_of w cp = Inr statement"
  shows "(\<exists>rep'. timestamp_step w tsa cp response rep = Inr rep' \<and> p_issues rep' = []) \<longleftrightarrow>
    timestamp_ok w tsa cp response"
  using assms
  by (auto simp: timestamp_step_def timestamp_ok_def verify_timestamp_def report_issue_def Let_def
      split: option.splits if_splits)

lemma timestamp_step_grows: "timestamp_step w tsa cp response rep = Inr rep' \<Longrightarrow> report_grows rep rep'"
  by (auto simp: timestamp_step_def verify_timestamp_def report_issue_def report_grows_def Let_def
      split: option.splits sum.splits if_splits)

lemma check_one_grows: "check_one w ring hashes cp rep = Inr (ok, rep') \<Longrightarrow> report_grows rep rep'"
  using check_one_ok [of w ring hashes cp rep rep'] check_one_fails [of w ring hashes cp rep rep']
  by (cases ok) (auto simp: report_grows_def)

lemma checkpoint_ok_statement: "checkpoint_ok w ring hashes cp \<Longrightarrow> \<exists>statement. statement_of w cp = Inr statement"
  by (auto simp: checkpoint_ok_def)

lemma statement_of_pem [simp]: "statement_of w (cp\<lparr>c_pem := x\<rparr>) = statement_of w cp"
  by (simp add: statement_of_def)

lemma stored_checkpoint_grows: "stored_checkpoint w ring hashes tsa cp rep = Inr rep' \<Longrightarrow> report_grows rep rep'"
  using check_one_grows timestamp_step_grows report_grows_trans
  by (auto simp: stored_checkpoint_def split: sum.splits option.splits if_splits) blast

lemma exported_checkpoint_grows: "exported_checkpoint w ring hashes tsa file rep = Inr rep' \<Longrightarrow> report_grows rep rep'"
proof (cases "file")
  case None
  then show "exported_checkpoint w ring hashes tsa file rep = Inr rep' \<Longrightarrow> ?thesis"
    by (auto simp: exported_checkpoint_def report_issue_def report_grows_def)
next
  case (Some cp)
  then show "exported_checkpoint w ring hashes tsa file rep = Inr rep' \<Longrightarrow> ?thesis"
    using check_one_grows timestamp_step_grows report_grows_trans
    by (auto simp: exported_checkpoint_def split: sum.splits option.splits if_splits) blast
qed

lemma check_one_clean_False:
  "check_one w ring hashes cp rep = Inr (False, rep') \<Longrightarrow> p_issues rep' \<noteq> []"
  using check_one_fails by fastforce

lemma stored_checkpoint_clean:
  assumes "p_issues rep = []"
  shows "(\<exists>rep'. stored_checkpoint w ring hashes tsa cp rep = Inr rep' \<and> p_issues rep' = []) \<longleftrightarrow>
    stored_ok w ring hashes tsa cp"
proof (cases "checkpoint_ok w ring hashes (cp\<lparr>c_pem := None\<rparr>)")
  case True
  define rep1 where "rep1 = rep\<lparr>p_verified := p_verified rep + 1\<rparr>"
  have one: "check_one w ring hashes (cp\<lparr>c_pem := None\<rparr>) rep = Inr (True, rep1)"
    using True by (simp add: check_one_ok rep1_def)
  have "p_issues rep1 = []" using assms by (simp add: rep1_def)
  moreover have "\<exists>statement. statement_of w cp = Inr statement" using checkpoint_ok_statement [OF True] by simp
  ultimately show ?thesis
    using timestamp_step_clean [of rep1 w cp tsa] True
    by (cases "c_tsa_response cp") (auto simp: stored_checkpoint_def one stored_ok_def)
next
  case False
  show ?thesis
  proof (cases "check_one w ring hashes (cp\<lparr>c_pem := None\<rparr>) rep")
    case (Inr res)
    obtain ok rep1 where res: "res = (ok, rep1)" by (cases res)
    with Inr False have "\<not> ok" by (cases ok) (auto simp: check_one_ok)
    with res Inr have "p_issues rep1 \<noteq> []" by (auto intro!: check_one_clean_False)
    then show ?thesis
      using False \<open>\<not> ok\<close> by (auto simp: stored_checkpoint_def Inr res stored_ok_def split: option.splits)
  qed (use False in \<open>simp add: stored_checkpoint_def stored_ok_def\<close>)
qed

lemma exported_checkpoint_clean:
  assumes "p_issues rep = []"
  shows "(\<exists>rep'. exported_checkpoint w ring hashes tsa file rep = Inr rep' \<and> p_issues rep' = []) \<longleftrightarrow>
    exported_ok w ring hashes tsa file"
proof (cases "file")
  case (Some cp)
  show ?thesis
  proof (cases "checkpoint_ok w ring hashes cp")
    case True
    define rep1 where "rep1 = rep\<lparr>p_verified := p_verified rep + 1\<rparr>"
    have one: "check_one w ring hashes cp rep = Inr (True, rep1)"
      using True by (simp add: check_one_ok rep1_def)
    have "p_issues rep1 = []" using assms by (simp add: rep1_def)
    with checkpoint_ok_statement [OF True] timestamp_step_clean [of rep1 w cp tsa] True show ?thesis
      by (cases "c_tsa_response cp") (auto simp: exported_checkpoint_def Some one exported_ok_def)
  next
    case False
    show ?thesis
    proof (cases "check_one w ring hashes cp rep")
      case (Inr res)
      obtain ok rep1 where res: "res = (ok, rep1)" by (cases res)
      with Inr False have "\<not> ok" by (cases ok) (auto simp: check_one_ok)
      with res Inr have "p_issues rep1 \<noteq> []" by (auto intro!: check_one_clean_False)
      then show ?thesis
        using False \<open>\<not> ok\<close> by (auto simp: exported_checkpoint_def Some Inr res exported_ok_def split: option.splits)
    qed (use False in \<open>simp add: exported_checkpoint_def Some exported_ok_def\<close>)
  qed
qed (simp add: exported_checkpoint_def exported_ok_def report_issue_def)

lemma fold_report:
  assumes grows: "\<And>x rep rep'. f x rep = Inr rep' \<Longrightarrow> report_grows rep rep'"
    and clean: "\<And>x rep. p_issues rep = [] \<Longrightarrow> (\<exists>rep'. f x rep = Inr rep' \<and> p_issues rep' = []) \<longleftrightarrow> ok x"
  shows "p_issues rep = [] \<Longrightarrow>
    (\<exists>rep'. fold_err f xs rep = Inr rep' \<and> p_issues rep' = []) \<longleftrightarrow> (\<forall>x \<in> set xs. ok x)"
proof (induction xs arbitrary: rep)
  case (Cons x xs)
  have gr: "fold_err f ys r = Inr r' \<Longrightarrow> report_grows r r'" for ys r r'
    by (induction ys arbitrary: r) (auto split: sum.splits intro: report_grows_trans grows)
  show ?case
  proof (cases "f x rep")
    case (Inl e)
    with clean [OF Cons.prems, of x] show ?thesis by simp
  next
    case (Inr rep1)
    show ?thesis
    proof (cases "p_issues rep1 = []")
      case True
      with clean [OF Cons.prems, of x] Inr Cons.IH [OF True] show ?thesis by simp
    next
      case False
      then have "\<not> ok x" using clean [OF Cons.prems, of x] Inr by auto
      moreover have "\<not> (\<exists>rep'. fold_err f xs rep1 = Inr rep' \<and> p_issues rep' = [])"
        using False gr report_grows_clean by blast
      ultimately show ?thesis using Inr by simp
    qed
  qed
qed simp

text \<open>The report is clean exactly when every checkpoint and every exported file is in order.\<close>

lemma checkpoints_pass_iff:
  "checkpoints_pass w q db \<longleftrightarrow>
   (has_checkpoint_table q \<longrightarrow>
      (\<forall>cp \<in> set (checkpoints db). stored_ok w (ring_of w q db) (map l_hash (audited_rows q db)) (tsa_ca q) cp)) \<and>
   (\<forall>file \<in> set (exported_files q). exported_ok w (ring_of w q db) (map l_hash (audited_rows q db)) (tsa_ca q) file)"
proof -
  define ring hashes where "ring = ring_of w q db" and "hashes = map l_hash (audited_rows q db)"
  let ?rows = "sort_key c_size (if has_checkpoint_table q then checkpoints db else [])"
  let ?rep = "\<lparr>p_verified = 0, p_timestamped = 0, p_timestamps_verified = 0, p_issues = [], p_warnings = []\<rparr>"
  let ?S = "fold_err (stored_checkpoint w ring hashes (tsa_ca q)) ?rows ?rep"
  let ?E = "fold_err (exported_checkpoint w ring hashes (tsa_ca q)) (exported_files q)"
  have ex: "checkpoints_pass w q db \<longleftrightarrow> (\<exists>rep1 rep2. ?S = Inr rep1 \<and> ?E rep1 = Inr rep2 \<and> p_issues rep2 = [])"
  proof (cases ?S)
    case (Inl e)
    then show ?thesis
      by (cases "has_checkpoint_table q")
         (simp_all add: checkpoints_pass_def verify_checkpoints_def ring_def hashes_def Let_def)
  next
    case (Inr rep1)
    have "checkpoints_pass w q db \<longleftrightarrow> (\<exists>rep. map_sum id (\<lambda>rep. if p_timestamped rep > 0 \<and> tsa_ca q = None
              then rep\<lparr>p_warnings := p_warnings rep @ [UnverifiedTimestamps (p_timestamped rep)]\<rparr> else rep)
            (?E rep1) = Inr rep \<and> p_issues rep = [])"
      using Inr by (cases "has_checkpoint_table q")
         (simp_all add: checkpoints_pass_def verify_checkpoints_def ring_def hashes_def Let_def)
    also have "\<dots> \<longleftrightarrow> (\<exists>rep2. ?E rep1 = Inr rep2 \<and> p_issues rep2 = [])"
      by (cases "?E rep1") auto
    finally show ?thesis using Inr by simp
  qed
  have gr: "?E r = Inr r' \<Longrightarrow> report_grows r r'" for r r' and files :: "checkpoint_row option list"
  proof -
    have "fold_err (exported_checkpoint w ring hashes (tsa_ca q)) ys r = Inr r' \<Longrightarrow> report_grows r r'" for ys r
      by (induction ys arbitrary: r) (auto split: sum.splits intro: report_grows_trans exported_checkpoint_grows)
    then show "?E r = Inr r' \<Longrightarrow> report_grows r r'" by blast
  qed
  have S: "(\<exists>rep1. ?S = Inr rep1 \<and> p_issues rep1 = []) \<longleftrightarrow> (\<forall>cp \<in> set ?rows. stored_ok w ring hashes (tsa_ca q) cp)"
    by (rule fold_report [OF stored_checkpoint_grows stored_checkpoint_clean]) simp_all
  have E: "(\<exists>rep2. ?E rep1 = Inr rep2 \<and> p_issues rep2 = []) \<longleftrightarrow>
      (\<forall>file \<in> set (exported_files q). exported_ok w ring hashes (tsa_ca q) file)" if "p_issues rep1 = []" for rep1
    by (rule fold_report [OF exported_checkpoint_grows exported_checkpoint_clean that])
  have "checkpoints_pass w q db \<longleftrightarrow> (\<forall>cp \<in> set ?rows. stored_ok w ring hashes (tsa_ca q) cp) \<and>
      (\<forall>file \<in> set (exported_files q). exported_ok w ring hashes (tsa_ca q) file)"
    unfolding ex S [symmetric] using E gr report_grows_clean by blast
  then show ?thesis unfolding ring_def hashes_def by (cases "has_checkpoint_table q") simp_all
qed

end
