(* ===== verification/Ledger_Run.thy ===== *)
theory Ledger_Run
  imports Ledger_Binding
begin

text \<open>
  The runs of the writer: it registers its key, appends entries in format 5 and signs checkpoints, in any
  order. The invariant of \<open>ledger_run\<close>, proved by rule induction, is that the audit accepts the ledger, with
  the pinned key and with every checkpoint file exported from it.
\<close>

section \<open>Exported files\<close>

text \<open>
  \<open>export_checkpoints\<close>: the files it writes, with the key that the table joins; \<open>existing\<close> names the files
  already there. Reading a file back gives the object written.
\<close>

definition export_checkpoints :: "database \<Rightarrow> (ustr \<times> int) list \<Rightarrow> checkpoint_row list" where
  "export_checkpoints db existing =
     map (\<lambda>cp. cp\<lparr>c_pem := map_of (signing_keys db) (c_key cp), c_key := py_strip (c_key cp)\<rparr>)
       (filter (\<lambda>cp. (c_tenant cp, c_size cp) \<notin> set existing)
          (sort_key c_tenant (sort_key c_size (checkpoints db))))"

section \<open>Runs\<close>

definition empty_database :: database where
  "empty_database = \<lparr>entries = [], signing_keys = [], checkpoints = []\<rparr>"

text \<open>What the database and the reader rely on: JSONB keeps the canonical form, the session's zone is UTC.\<close>

definition storage_laws :: "world \<Rightarrow> bool" where
  "storage_laws w \<longleftrightarrow>
     (\<forall>t. w_iso_session w t = w_iso_utc w t) \<and>
     (\<forall>t b. canonicalize_json_text (w_runtime w) (w_scan w) t = Inr b \<longrightarrow>
        canonicalize_json_text (w_runtime w) (w_scan w) (w_jsonb w t) = Inr b)"

text \<open>A signer whose key file, key id and signatures belong together.\<close>

definition honest_signer :: "world \<Rightarrow> signer \<Rightarrow> bool" where
  "honest_signer w s \<longleftrightarrow>
     py_strip (s_key_id s) = s_key_id s \<and> s_pem s \<noteq> [] \<and>
     (\<exists>k. load_key (w_crypto w) (s_pem s) = Some k \<and> key_id (w_crypto w) k = s_key_id s \<and>
        (\<forall>m. signature_valid (w_crypto w) k m (Some (s_sign s m))))"

text \<open>The digests of a request have no surrounding space, its transcript id is the one in its transcript.\<close>

definition honest_request :: "world \<Rightarrow> evidence_request \<Rightarrow> bool" where
  "honest_request w q \<longleftrightarrow>
     map_option py_strip (q_kg_version_hash q) = q_kg_version_hash q \<and>
     map_option py_strip (q_model_weight_hash q) = q_model_weight_hash q \<and>
     (case q_transcript q of None \<Rightarrow> True | Some t \<Rightarrow> w_transcript_id w (w_jsonb w t) = q_transcript_id q)"

inductive ledger_run :: "world \<Rightarrow> client \<Rightarrow> signer \<Rightarrow> (bytes \<Rightarrow> bytes) \<Rightarrow> database \<Rightarrow> bool"
  for w cl s authority where
  start: "ledger_run w cl s authority (register_signing_key s empty_database)"
| restart: "ledger_run w cl s authority db \<Longrightarrow> ledger_run w cl s authority (register_signing_key s db)"
| append: "ledger_run w cl s authority db \<Longrightarrow> honest_request w q \<Longrightarrow> \<forall>r \<in> set (entries db). l_time r \<le> now \<Longrightarrow>
    append_v3 w cl db now q = Inr db' \<Longrightarrow> ledger_run w cl s authority db'"
| checkpoint: "ledger_run w cl s authority db \<Longrightarrow> tsa = None \<or> tsa = Some authority \<Longrightarrow>
    make_checkpoint w cl s db created tsa = Inr (Some (db', cp)) \<Longrightarrow> ledger_run w cl s authority db'"

section \<open>The steps\<close>

lemma clean_chain_snoc:
  "clean_chain w ring p (rows @ [r]) \<longleftrightarrow>
   clean_chain w ring p rows \<and> clean_row w ring (if rows = [] then p else after_row w (last rows)) r"
  by (induction rows arbitrary: p) auto

lemma linked_member:
  assumes "linked rows" "r \<in> set rows"
  shows "1 \<le> l_seq r \<and> l_seq r \<le> int (length rows)"
proof -
  obtain i where "i < length rows" "r = rows ! i" using assms(2) by (auto simp: in_set_conv_nth)
  then show ?thesis using assms(1) by (auto simp: linked_def link_at_def)
qed

lemma head_row_snoc:
  "head_row (rows @ [r]) =
   (case head_row rows of None \<Rightarrow> Some r | Some b \<Rightarrow> if l_seq r > l_seq b then Some r else Some b)"
  by (simp add: head_row_def)

lemma head_row_linked: "linked rows \<Longrightarrow> head_row rows = (if rows = [] then None else Some (last rows))"
proof (induction rows rule: rev_induct)
  case (snoc r rows)
  show ?case
  proof (cases "rows = []")
    case False
    have "last rows \<in> set rows" using False by simp
    then have "l_seq (last rows) < l_seq r"
      using snoc.prems linked_member [of rows "last rows"] by (simp add: linked_snoc)
    with False snoc show ?thesis by (simp add: head_row_snoc linked_snoc)
  qed (simp add: head_row_def)
qed (simp add: head_row_def)

lemma next_link_linked:
  assumes "linked rows"
  shows "next_link rows = (1 + int (length rows), if rows = [] then genesis_hash else l_hash (last rows))"
proof (cases rows rule: rev_cases)
  case (snoc xs x)
  with assms have "l_seq x = 1 + int (length xs)" by (simp add: linked_snoc)
  with assms snoc show ?thesis by (simp add: next_link_def head_row_linked)
qed (simp add: next_link_def head_row_def)

lemma by_sequence_linked:
  assumes "linked rows"
  shows "by_sequence rows = rows"
proof -
  have "sorted (map l_seq rows)"
    using assms by (auto simp: sorted_iff_nth_mono linked_def link_at_def)
  then show ?thesis unfolding by_sequence_def by (rule sort_key_id_if_sorted)
qed

lemma canonical_evidence_kept:
  assumes "storage_laws w" "evidence_hash (w_runtime w) (w_sha w) (w_scan w) t = Inr h"
  shows "evidence_hash (w_runtime w) (w_sha w) (w_scan w) (map_option (w_jsonb w) t) = Inr h"
proof (cases t)
  case (Some u)
  then obtain b where "canonicalize_json_text (w_runtime w) (w_scan w) u = Inr b" "h = Some (''sha256:'' @ to_hex (w_sha w b))"
    using assms(2) by (auto simp: evidence_hash_def map_sum_Inr)
  moreover from this(1) have "canonicalize_json_text (w_runtime w) (w_scan w) (w_jsonb w u) = Inr b"
    using assms(1) unfolding storage_laws_def by blast
  ultimately show ?thesis using Some by (simp add: evidence_hash_def)
qed (use assms in simp)

text \<open>What \<open>append_v3\<close> of format 5 writes, and what the audit reads from it.\<close>

definition new_row ::
  "world \<Rightarrow> client \<Rightarrow> int \<times> string \<Rightarrow> int \<Rightarrow> evidence_request \<Rightarrow> string option \<Rightarrow> string option \<Rightarrow> bytes \<Rightarrow> string \<times> string
     \<Rightarrow> ledger_row" where
  "new_row w cl link now q eh th p sig =
     add_v5 (request_v5 cl q) (Some sig) (evidence_row w now (hexdigest w p) (evidence_line w link now q eh th) q)"

lemma append_v3_format5:
  assumes "append_v3 w cl db now q = Inr db'" and "format5 cl" and "key_signer cl = Some s"
  obtains eh th p m where
    "evidence_hash (w_runtime w) (w_sha w) (w_scan w) (Some (q_envelope q)) = Inr eh"
    "evidence_hash (w_runtime w) (w_sha w) (w_scan w) (q_transcript q) = Inr th"
    "entry_payload_v5 (w_runtime w) (evidence_line w (next_link (entries db)) now q eh th) (request_v5 cl q) = Inr p"
    "verdict_signing_bytes (w_runtime w) (fst (next_link (entries db))) (hexdigest w p) (q_telemetry_id q)
       (if q_transcript q = None then None else q_transcript_id q) = Inr m"
    "db' = db\<lparr>entries := entries db @ [new_row w cl (next_link (entries db)) now q eh th p (s_sign s m, s_key_id s)]\<rparr>"
proof -
  obtain eh where eh: "evidence_hash (w_runtime w) (w_sha w) (w_scan w) (Some (q_envelope q)) = Inr eh"
    using assms(1) by (auto simp: append_v3_def split: sum.splits)
  obtain th where th: "evidence_hash (w_runtime w) (w_sha w) (w_scan w) (q_transcript q) = Inr th"
    using assms(1) by (auto simp: append_v3_def eh split: sum.splits)
  obtain p where p: "entry_payload_v5 (w_runtime w) (evidence_line w (next_link (entries db)) now q eh th)
      (request_v5 cl q) = Inr p"
    using assms(1,2) by (auto simp: append_v3_def eh th Let_def split: sum.splits)
  obtain m where m: "verdict_signing_bytes (w_runtime w) (fst (next_link (entries db))) (hexdigest w p)
      (q_telemetry_id q) (if q_transcript q = None then None else q_transcript_id q) = Inr m"
    using assms by (auto simp: append_v3_def eh th p sign_position_def map_sum_Inr Let_def split: sum.splits)
  have "db' = db\<lparr>entries := entries db @ [new_row w cl (next_link (entries db)) now q eh th p (s_sign s m, s_key_id s)]\<rparr>"
    using assms by (simp add: append_v3_def eh th p m sign_position_def new_row_def Let_def)
  with eh th p m show thesis by (rule that)
qed

lemma new_row_columns [simp]:
  "l_seq (new_row w cl link now q eh th p sig) = fst link"
  "l_prev (new_row w cl link now q eh th p sig) = snd link"
  "l_hash (new_row w cl link now q eh th p sig) = hexdigest w p"
  "l_time (new_row w cl link now q eh th p sig) = now"
  "l_tid (new_row w cl link now q eh th p sig) = q_telemetry_id q"
  "l_envelope (new_row w cl link now q eh th p sig) = Some (w_jsonb w (q_envelope q))"
  "l_transcript (new_row w cl link now q eh th p sig) = map_option (w_jsonb w) (q_transcript q)"
  "l_envelope_hash (new_row w cl link now q eh th p sig) = eh"
  "l_verdict_signature (new_row w cl link now q eh th p sig) = Some (fst sig)"
  "l_verdict_key (new_row w cl link now q eh th p sig) = Some (snd sig)"
  by (simp_all add: new_row_def add_v5_def evidence_row_def base_row_def evidence_line_def request_line_def)

lemma new_row_line:
  assumes "storage_laws w"
  shows "stored_line w (new_row w cl link now q eh th p sig) eh th = evidence_line w link now q eh th"
  using assms
  by (simp add: storage_laws_def stored_line_def new_row_def add_v5_def evidence_row_def base_row_def
      evidence_line_def request_line_def)

lemma new_row_v5:
  assumes "honest_request w q"
  shows "stored_v5 (new_row w cl link now q eh th p sig) = Some (request_v5 cl q)"
  using assms
  by (simp add: honest_request_def stored_v5_def new_row_def add_v5_def request_v5_def)

lemma new_row_format:
  assumes "storage_laws w" "honest_request w q"
    and "evidence_hash (w_runtime w) (w_sha w) (w_scan w) (Some (q_envelope q)) = Inr eh"
    and "evidence_hash (w_runtime w) (w_sha w) (w_scan w) (q_transcript q) = Inr th"
    and "entry_payload_v5 (w_runtime w) (evidence_line w link now q eh th) (request_v5 cl q) = Inr p"
  shows "entry_format w (new_row w cl link now q eh th p sig) = (5, eh)"
proof -
  have "evidence_hash (w_runtime w) (w_sha w) (w_scan w) (Some (w_jsonb w (q_envelope q))) = Inr eh"
    using canonical_evidence_kept [OF assms(1,3)] by simp
  then show ?thesis
    using canonical_evidence_kept [OF assms(1,4)] assms(5)
    by (simp add: entry_format_def new_row_line [OF assms(1)] new_row_v5 [OF assms(2)] Let_def)
qed

definition trusted_ring :: "world \<Rightarrow> signer \<Rightarrow> key_ring \<Rightarrow> bool" where
  "trusted_ring w s ring \<longleftrightarrow>
     (\<exists>k. ring_get ring (Some (s_key_id s)) = Some k \<and> key_id (w_crypto w) k = s_key_id s \<and>
        (\<forall>m. signature_valid (w_crypto w) k m (Some (s_sign s m)))) \<and>
     is_trusted ring (Some (s_key_id s)) \<and> k_bad ring = []"

lemma new_row_signed:
  assumes "honest_request w q" "trusted_ring w s ring"
    and "verdict_signing_bytes (w_runtime w) (fst link) (hexdigest w p) (q_telemetry_id q)
       (if q_transcript q = None then None else q_transcript_id q) = Inr m"
  shows "signed_row w ring (new_row w cl link now q eh th p (s_sign s m, s_key_id s))"
proof -
  have "row_message w (new_row w cl link now q eh th p (s_sign s m, s_key_id s)) = Inr m"
    using assms(1,3) by (cases "q_transcript q") (auto simp: row_message_def honest_request_def)
  with assms(2) show ?thesis by (auto simp: signed_row_def trusted_ring_def)
qed

lemma is_trusted_strip: "py_strip kid = kid \<Longrightarrow> stripped_id (Some kid) = kid"
  by (simp add: stripped_id_def)

lemma honest_ring:
  assumes "honest_signer w s" "trusted = [] \<or> s_key_id s \<in> set trusted"
  shows "trusted_ring w s (load_ring (w_crypto w) (Some [(s_key_id s, s_pem s)]) trusted)"
  using assms
  by (auto simp: honest_signer_def trusted_ring_def load_ring_def ring_step_def ring_get_def is_trusted_def stripped_id_def)

section \<open>Issued checkpoints\<close>

definition issued :: "world \<Rightarrow> signer \<Rightarrow> (bytes \<Rightarrow> bytes) \<Rightarrow> string list \<Rightarrow> checkpoint_row \<Rightarrow> bool" where
  "issued w s authority hashes cp \<longleftrightarrow>
     0 \<le> c_size cp \<and> c_size cp \<le> int (length hashes) \<and> c_key cp = s_key_id s \<and>
     root_differs w (take (nat (c_size cp)) hashes) cp = Inr False \<and>
     (\<exists>m. statement_of w cp = Inr m \<and> c_signature cp = s_sign s m \<and> c_tsa_response cp \<in> {None, Some (authority m)})"

definition honest_authority :: "(bytes \<Rightarrow> bytes) \<Rightarrow> tsa_check option \<Rightarrow> bool" where
  "honest_authority authority tsa =
     (case tsa of None \<Rightarrow> True
      | Some t \<Rightarrow> (case openssl t of None \<Rightarrow> True | Some check \<Rightarrow> \<forall>m. check m (authority m)))"

lemma issued_extend: "issued w s authority hashes cp \<Longrightarrow> issued w s authority (hashes @ later) cp"
  by (auto simp: issued_def)

lemma root_differs_columns:
  "c_root cp' = c_root cp \<Longrightarrow> c_last cp' = c_last cp \<Longrightarrow> root_differs w covered cp' = root_differs w covered cp"
  by (cases "merkle_root (w_sha w) covered") (simp_all add: root_differs_def)

lemma same_columns: "cp\<lparr>c_pem := c_pem cp, c_key := c_key cp\<rparr> = cp"
  by (cases cp) simp

lemma issued_ok:
  assumes "issued w s authority hashes cp" "honest_signer w s" "trusted_ring w s ring"
    and "pem = None \<or> pem = Some (s_pem s)"
  shows "checkpoint_ok w ring hashes (cp\<lparr>c_pem := pem, c_key := py_strip (c_key cp)\<rparr>)"
    and "pem = None \<Longrightarrow> checkpoint_ok w ring hashes (cp\<lparr>c_pem := None\<rparr>)"
proof -
  obtain m where m: "statement_of w cp = Inr m" "c_signature cp = s_sign s m"
    using assms(1) by (auto simp: issued_def)
  have key: "c_key cp = s_key_id s" "py_strip (s_key_id s) = s_key_id s" "s_pem s \<noteq> []"
    using assms(1,2) by (auto simp: issued_def honest_signer_def)
  obtain k where k: "load_key (w_crypto w) (s_pem s) = Some k" "key_id (w_crypto w) k = s_key_id s"
      "signature_valid (w_crypto w) k m (Some (s_sign s m))"
    using assms(2) by (auto simp: honest_signer_def)
  obtain j where j: "ring_get ring (Some (s_key_id s)) = Some j" "key_id (w_crypto w) j = s_key_id s"
      "signature_valid (w_crypto w) j m (Some (s_sign s m))" "is_trusted ring (Some (s_key_id s))"
    using assms(3) by (auto simp: trusted_ring_def)
  have stmt: "statement_of w (cp\<lparr>c_pem := pem, c_key := kid\<rparr>) = Inr m" for kid
    using m(1) by (simp add: statement_of_def)
  have cover: "c_size cp \<le> int (length hashes)" "root_differs w (py_prefix (c_size cp) hashes) cp = Inr False"
    using assms(1) by (auto simp: issued_def py_prefix_def)
  have root: "root_differs w (py_prefix (c_size cp) hashes) (cp\<lparr>c_pem := pem, c_key := kid\<rparr>) = Inr False" for kid
    using cover(2) by (simp add: root_differs_columns [of "cp\<lparr>c_pem := pem, c_key := kid\<rparr>" cp])
  have found: "\<exists>i. checkpoint_key w ring (cp\<lparr>c_pem := pem, c_key := s_key_id s\<rparr>) = Some i \<and>
      key_id (w_crypto w) i = s_key_id s \<and> signature_valid (w_crypto w) i m (Some (s_sign s m))"
    using assms(4) k j key(3) by (auto simp: checkpoint_key_def)
  show ok: "checkpoint_ok w ring hashes (cp\<lparr>c_pem := pem, c_key := py_strip (c_key cp)\<rparr>)"
    unfolding checkpoint_ok_def using found stmt root cover(1) j(4) by (simp add: key m(2))
  show "pem = None \<Longrightarrow> checkpoint_ok w ring hashes (cp\<lparr>c_pem := None\<rparr>)"
  proof -
    assume pem: "pem = None"
    have same: "cp\<lparr>c_pem := None, c_key := py_strip (c_key cp)\<rparr> = cp\<lparr>c_pem := None\<rparr>" using key(1,2) by (cases cp) simp
    show "checkpoint_ok w ring hashes (cp\<lparr>c_pem := None\<rparr>)" using ok unfolding pem same .
  qed
qed

lemma issued_timestamp:
  assumes "issued w s authority hashes cp" "honest_authority authority tsa"
  shows "case c_tsa_response cp of None \<Rightarrow> True | Some response \<Rightarrow> timestamp_ok w tsa (cp\<lparr>c_pem := pem, c_key := kid\<rparr>) response"
proof -
  obtain m where m: "statement_of w cp = Inr m" "c_tsa_response cp \<in> {None, Some (authority m)}"
    using assms(1) by (auto simp: issued_def)
  have "statement_of w (cp\<lparr>c_pem := pem, c_key := kid\<rparr>) = Inr m"
    using m(1) by (simp add: statement_of_def)
  then show ?thesis
    using m(2) assms(2) by (auto simp: timestamp_ok_def honest_authority_def split: option.splits)
qed

lemma issued_stored_ok:
  assumes "issued w s authority hashes cp" "honest_signer w s" "trusted_ring w s ring" "honest_authority authority tsa"
  shows "stored_ok w ring hashes tsa cp"
  using issued_ok(2) [OF assms(1-3), of None] issued_timestamp [OF assms(1,4), where pem = "c_pem cp" and kid = "c_key cp",
      unfolded same_columns]
  by (simp only: stored_ok_def simp_thms)

lemma issued_exported_ok:
  assumes "issued w s authority hashes cp" "honest_signer w s" "trusted_ring w s ring" "honest_authority authority tsa"
    and "pem = None \<or> pem = Some (s_pem s)"
  shows "exported_ok w ring hashes tsa (Some (cp\<lparr>c_pem := pem, c_key := py_strip (c_key cp)\<rparr>))"
  using issued_ok(1) [OF assms(1-3,5)] issued_timestamp [OF assms(1,4), where pem = pem and kid = "py_strip (c_key cp)"]
  by (auto simp: exported_ok_def split: option.splits)

lemma make_checkpoint_issues:
  assumes "make_checkpoint w cl s db created tsa = Inr (Some (db', cp))" "linked (entries db)"
    and "tsa = None \<or> tsa = Some authority"
  shows "issued w s authority (map l_hash (entries db)) cp \<and>
    db' = (if list_ex (\<lambda>c. c_tenant c = c_tenant cp \<and> c_size c = c_size cp) (checkpoints db) then db
           else db\<lparr>checkpoints := checkpoints db @ [cp]\<rparr>)"
proof -
  define hashes where "hashes = map l_hash (entries db)"
  have ne: "hashes \<noteq> []" "\<not> int (length hashes) \<le> covered_size (tenant_id cl) db"
    using assms(1) by (auto simp: make_checkpoint_def by_sequence_linked [OF assms(2)] hashes_def Let_def split: if_splits)
  obtain digest where digest: "merkle_root (w_sha w) hashes = Some digest"
    using assms(1) ne by (auto simp: make_checkpoint_def by_sequence_linked [OF assms(2)] hashes_def [symmetric] Let_def
        split: option.splits)
  obtain m where m: "checkpoint_statement (w_runtime w) (tenant_id cl) (int (length hashes)) digest (last hashes) created = Inr m"
    using assms(1) ne by (auto simp: make_checkpoint_def by_sequence_linked [OF assms(2)] hashes_def [symmetric] Let_def digest
        split: sum.splits)
  have cp: "cp = \<lparr>c_tenant = tenant_id cl, c_size = int (length hashes), c_root = digest, c_last = last hashes,
      c_created = created, c_key = s_key_id s, c_signature = s_sign s m, c_pem = None,
      c_tsa_response = map_option (\<lambda>f. f m) tsa\<rparr>"
    and db': "db' = (if list_ex (\<lambda>c. c_tenant c = c_tenant cp \<and> c_size c = c_size cp) (checkpoints db) then db
           else db\<lparr>checkpoints := checkpoints db @ [cp]\<rparr>)"
    using assms(1) ne by (auto simp: make_checkpoint_def by_sequence_linked [OF assms(2)] hashes_def [symmetric] Let_def digest m)
  have "issued w s authority hashes cp"
    using assms(3) m ne digest by (auto simp: issued_def cp root_differs_def statement_of_def)
  with db' show ?thesis by (simp add: hashes_def)
qed

section \<open>The invariant\<close>

definition run_invariant :: "world \<Rightarrow> signer \<Rightarrow> (bytes \<Rightarrow> bytes) \<Rightarrow> key_ring \<Rightarrow> database \<Rightarrow> bool" where
  "run_invariant w s authority ring db \<longleftrightarrow>
     signing_keys db = [(s_key_id s, s_pem s)] \<and>
     clean_chain w ring start_position (entries db) \<and>
     (\<forall>r \<in> set (entries db). fst (entry_format w r) = 5) \<and>
     (\<forall>cp \<in> set (checkpoints db). issued w s authority (map l_hash (entries db)) cp)"

lemma register_again: "signing_keys db = [(s_key_id s, pem)] \<Longrightarrow> register_signing_key s db = db"
  by (simp add: register_signing_key_def)

lemma append_keeps_invariant:
  assumes inv: "run_invariant w s authority ring db"
    and laws: "storage_laws w" "trusted_ring w s ring" "format5 cl" "key_signer cl = Some s" "honest_request w q"
    and time: "\<forall>r \<in> set (entries db). l_time r \<le> now" and step: "append_v3 w cl db now q = Inr db'"
  shows "run_invariant w s authority ring db'"
proof -
  let ?link = "next_link (entries db)"
  obtain eh th p m where st: "evidence_hash (w_runtime w) (w_sha w) (w_scan w) (Some (q_envelope q)) = Inr eh"
    "evidence_hash (w_runtime w) (w_sha w) (w_scan w) (q_transcript q) = Inr th"
    "entry_payload_v5 (w_runtime w) (evidence_line w ?link now q eh th) (request_v5 cl q) = Inr p"
    "verdict_signing_bytes (w_runtime w) (fst ?link) (hexdigest w p) (q_telemetry_id q)
       (if q_transcript q = None then None else q_transcript_id q) = Inr m"
    and db': "db' = db\<lparr>entries := entries db @ [new_row w cl ?link now q eh th p (s_sign s m, s_key_id s)]\<rparr>"
    by (rule append_v3_format5 [OF step laws(3,4)])
  define r where "r = new_row w cl ?link now q eh th p (s_sign s m, s_key_id s)"
  have chain: "clean_chain w ring start_position (entries db)" using inv by (simp add: run_invariant_def)
  note link = next_link_linked [OF clean_chain_linked [OF chain]]
  have fmt: "entry_format w r = (5, eh)"
    unfolding r_def by (rule new_row_format [OF laws(1,5) st(1-3)])
  have signed: "signed_row w ring r"
    unfolding r_def by (rule new_row_signed [OF laws(5,2) st(4)])
  have cols: "l_seq r = fst ?link" "l_prev r = snd ?link" "l_time r = now" "l_envelope_hash r = eh"
    by (simp_all add: r_def)
  have "clean_row w ring (if entries db = [] then start_position else after_row w (last (entries db))) r"
  proof (cases "entries db = []")
    case True
    then show ?thesis using cols fmt signed link by (simp add: clean_row_def start_position_def)
  next
    case False
    then have l: "last (entries db) \<in> set (entries db)" by simp
    have "l_seq (last (entries db)) = int (length (entries db))"
      using clean_chain_sequence [OF chain, of "length (entries db) - 1"] False by (simp add: last_conv_nth of_nat_diff Suc_leI)
    moreover have "fst (entry_format w (last (entries db))) = 5" using inv l by (simp add: run_invariant_def)
    ultimately show ?thesis
      using False cols fmt signed link time l by (simp add: clean_row_def after_row_def)
  qed
  then have "clean_chain w ring start_position (entries db @ [r])" using chain by (simp add: clean_chain_snoc)
  then show ?thesis
    using inv fmt by (auto simp: run_invariant_def db' r_def [symmetric] intro: issued_extend)
qed

lemma checkpoint_keeps_invariant:
  assumes inv: "run_invariant w s authority ring db" and tsa: "tsa = None \<or> tsa = Some authority"
    and step: "make_checkpoint w cl s db created tsa = Inr (Some (db', cp))"
  shows "run_invariant w s authority ring db'"
proof -
  have "linked (entries db)" using inv by (auto simp: run_invariant_def intro: clean_chain_linked)
  from make_checkpoint_issues [OF step this tsa] inv show ?thesis
    by (cases "list_ex (\<lambda>c. c_tenant c = c_tenant cp \<and> c_size c = c_size cp) (checkpoints db)")
       (simp_all add: run_invariant_def)
qed

lemma ledger_run_invariant:
  assumes "ledger_run w cl s authority db" "storage_laws w" "trusted_ring w s ring" "format5 cl" "key_signer cl = Some s"
  shows "run_invariant w s authority ring db"
  using assms(1)
proof induction
  case start
  show ?case by (simp add: run_invariant_def register_signing_key_def empty_database_def)
next
  case (restart db)
  then have "register_signing_key s db = db" by (simp add: run_invariant_def register_again)
  with restart show ?case by simp
next
  case (append db q now db')
  from append_keeps_invariant [OF append.IH assms(2,3,4,5) append.hyps(2,3,4)] show ?case .
next
  case (checkpoint db tsa created db' cp)
  from checkpoint_keeps_invariant [OF checkpoint.IH checkpoint.hyps(2,3)] show ?case .
qed

text \<open>What the invariant means for the audit.\<close>

definition audits_run :: "signer \<Rightarrow> (bytes \<Rightarrow> bytes) \<Rightarrow> database \<Rightarrow> audit_request \<Rightarrow> bool" where
  "audits_run s authority db q \<longleftrightarrow>
     has_v5_columns q \<and> has_key_table q \<and>
     (trusted_key_ids q = [] \<or> s_key_id s \<in> set (trusted_key_ids q)) \<and>
     honest_authority authority (tsa_ca q) \<and>
     (\<forall>file \<in> set (exported_files q). \<exists>cp \<in> set (export_checkpoints db []). file = Some cp)"

lemma selected_row_True [simp]: "selected_row True = (\<lambda>r. r)"
  by (rule ext) (simp add: selected_row_def)

lemma invariant_accepted:
  assumes inv: "\<And>ring. trusted_ring w s ring \<Longrightarrow> run_invariant w s authority ring db"
    and "honest_signer w s" "audits_run s authority db q"
  shows "accepted w q db"
proof (cases "entries db = []")
  case True
  then show ?thesis by (simp add: accepted_def verify_integrity_def by_sequence_def empty_result_def Let_def)
next
  case False
  have pins: "trusted_key_ids q = [] \<or> s_key_id s \<in> set (trusted_key_ids q)"
    and cols: "has_v5_columns q" "has_key_table q" and tsa: "honest_authority authority (tsa_ca q)"
    using assms(3) by (auto simp: audits_run_def)
  have keys: "signing_keys db = [(s_key_id s, s_pem s)]"
    using inv [OF honest_ring [OF assms(2) pins]] by (simp add: run_invariant_def)
  then have ring: "trusted_ring w s (ring_of w q db)"
    using honest_ring [OF assms(2) pins] cols by (simp add: ring_of_def)
  note i = inv [OF ring]
  have chain: "clean_chain w (ring_of w q db) start_position (entries db)" using i by (simp add: run_invariant_def)
  then have rows: "audited_rows q db = entries db"
    using cols by (simp add: audited_rows_def by_sequence_linked clean_chain_linked)
  have issued: "\<forall>cp \<in> set (checkpoints db). issued w s authority (map l_hash (entries db)) cp"
    using i by (simp add: run_invariant_def)
  have "exported_ok w (ring_of w q db) (map l_hash (entries db)) (tsa_ca q) f" if mem: "f \<in> set (exported_files q)" for f
  proof -
    have "\<exists>cp \<in> set (export_checkpoints db []). f = Some cp"
      using assms(3) mem unfolding audits_run_def by blast
    then obtain cp where cp: "cp \<in> set (checkpoints db)"
        "f = Some (cp\<lparr>c_pem := map_of (signing_keys db) (c_key cp), c_key := py_strip (c_key cp)\<rparr>)"
      by (auto simp: export_checkpoints_def)
    have "map_of (signing_keys db) (c_key cp) = None \<or> map_of (signing_keys db) (c_key cp) = Some (s_pem s)"
      by (simp add: keys)
    with cp issued issued_exported_ok [OF _ assms(2) ring tsa] show ?thesis by blast
  qed
  moreover have "\<forall>cp \<in> set (checkpoints db). stored_ok w (ring_of w q db) (map l_hash (entries db)) (tsa_ca q) cp"
    using issued issued_stored_ok [OF _ assms(2) ring tsa] by blast
  ultimately have "checkpoints_pass w q db" unfolding checkpoints_pass_iff rows by blast
  then show ?thesis
    unfolding accepted_iff [OF False] rows using chain ring by (simp add: trusted_ring_def)
qed

lemma honest_run_accepted:
  assumes "ledger_run w cl s authority db" "storage_laws w" "honest_signer w s" "format5 cl" "key_signer cl = Some s"
    and "audits_run s authority db q"
  shows "accepted w q db"
  by (rule invariant_accepted [OF ledger_run_invariant [OF assms(1,2) _ assms(4,5)] assms(3,6)])

end
