(* ===== verification/Ledger_Properties.thy ===== *)
theory Ledger_Properties
  imports Ledger_Run
begin

text \<open>
  The properties of the ledger: that the writer never blocks, that an honest ledger is accepted, what an
  accepted ledger is bound to, and where the tripwires of the code do not trip.
\<close>

section \<open>The writer does not block\<close>

definition plain_member :: "ustr option \<times> json \<Rightarrow> bool" where
  "plain_member m \<longleftrightarrow>
     (case fst m of None \<Rightarrow> False | Some n \<Rightarrow> check_unicode n = Inr ()) \<and>
     (case snd m of JNull \<Rightarrow> True | JInt i \<Rightarrow> \<bar>i\<bar> \<le> exact_int_limit | JStr t \<Rightarrow> check_unicode t = Inr () | _ \<Rightarrow> False)"

lemma canonicalize_plain:
  assumes laws: "runtime_laws rt" and plain: "\<forall>m \<in> set ms. plain_member m"
  shows "\<exists>b. canonicalize rt (JObj ms) = Inr b"
proof -
  have each: "fst m \<noteq> None \<and> sound_value rt (snd m) \<and> check_unicode (the (fst m)) = Inr () \<and> check_tree (snd m) = Inr ()"
    if "m \<in> set ms" for m
    using plain that by (cases "snd m") (auto simp: plain_member_def int_to_double_def abs_le_iff split: option.splits)
  then have "sound_value rt (JObj ms)" "check_tree (JObj ms) = Inr ()"
    unfolding check_tree_JObj by (auto simp: list_all_iff)
  from nfc_sound [OF laws this] obtain v where
    v: "nfc_normalize_values rt (JObj ms) = Inr v" "sound_value rt v" "check_tree v = Inr ()" by blast
  with serialize_sound obtain t where "serialize rt v = Inr t" by blast
  with v(1) show ?thesis unfolding canonicalize_Inr by blast
qed

lemma plain_member_cases [simp]:
  "plain_member (member n (JInt i)) \<longleftrightarrow> \<bar>i\<bar> \<le> exact_int_limit"
  "plain_member (member n (JStr t)) \<longleftrightarrow> check_unicode t = Inr ()"
  "plain_member (member n (opt_text u)) \<longleftrightarrow> (case u of None \<Rightarrow> True | Some t \<Rightarrow> check_unicode t = Inr ())"
  "plain_member (member n (opt_hash h))"
  by (auto simp: plain_member_def opt_text_def opt_hash_def split: option.split)

text \<open>The texts of a request that UTF-8 can encode.\<close>

definition request_texts :: "world \<Rightarrow> client \<Rightarrow> int \<Rightarrow> evidence_request \<Rightarrow> ustr list" where
  "request_texts w cl now q =
     [w_iso_utc w now, q_verdict q, q_telemetry_id q, q_model_version q, q_reasoning q, q_verifier_status q, tenant_id cl] @
     concat (map (\<lambda>t. case t of None \<Rightarrow> [] | Some u \<Rightarrow> [u]) [q_rule_id q, q_kg_version q, q_track q, q_transcript_id q])"

definition encodable :: "world \<Rightarrow> client \<Rightarrow> int \<Rightarrow> evidence_request \<Rightarrow> bool" where
  "encodable w cl now q \<longleftrightarrow> (\<forall>t \<in> set (request_texts w cl now q). check_unicode t = Inr ())"

definition has_form :: "world \<Rightarrow> ustr \<Rightarrow> bool" where
  "has_form w t \<longleftrightarrow> (\<exists>b. canonicalize_json_text (w_runtime w) (w_scan w) t = Inr b)"

lemma encodable_texts:
  assumes "encodable w cl now q"
  shows "check_unicode (w_iso_utc w now) = Inr ()" "check_unicode (q_verdict q) = Inr ()"
    "check_unicode (q_telemetry_id q) = Inr ()" "check_unicode (q_model_version q) = Inr ()"
    "check_unicode (q_reasoning q) = Inr ()" "check_unicode (q_verifier_status q) = Inr ()"
    "check_unicode (tenant_id cl) = Inr ()"
    "case q_rule_id q of None \<Rightarrow> True | Some t \<Rightarrow> check_unicode t = Inr ()"
    "case q_kg_version q of None \<Rightarrow> True | Some t \<Rightarrow> check_unicode t = Inr ()"
    "case q_track q of None \<Rightarrow> True | Some t \<Rightarrow> check_unicode t = Inr ()"
    "case q_transcript_id q of None \<Rightarrow> True | Some t \<Rightarrow> check_unicode t = Inr ()"
  using assms by (auto simp: encodable_def request_texts_def split: option.splits)

lemma evidence_payload_total:
  assumes "runtime_laws (w_runtime w)" "encodable w cl now q" "\<bar>fst link\<bar> \<le> exact_int_limit"
  shows "\<exists>p. entry_payload_v5 (w_runtime w) (evidence_line w link now q eh th) (request_v5 cl q) = Inr p"
  unfolding entry_payload_v5_def
  by (rule canonicalize_plain [OF assms(1)])
     (use encodable_texts [OF assms(2)] assms(3) in
      \<open>simp add: verdict_line_def v5_members_def evidence_line_def request_line_def request_v5_def ledger_schema_version_def
         exact_int_limit_def\<close>)

lemma signing_bytes_total:
  assumes "runtime_laws rt" "\<bar>n\<bar> \<le> exact_int_limit" "check_unicode tid = Inr ()"
    and "case transcript of None \<Rightarrow> True | Some t \<Rightarrow> check_unicode t = Inr ()"
  shows "\<exists>m. verdict_signing_bytes rt n h tid transcript = Inr m"
  unfolding verdict_signing_bytes_def
  by (rule canonicalize_plain [OF assms(1)]) (use assms in simp)

lemma evidence_hash_total: "has_form w t \<Longrightarrow> \<exists>h. evidence_hash (w_runtime w) (w_sha w) (w_scan w) (Some t) = Inr h"
  by (auto simp: has_form_def evidence_hash_def)

lemma append_v3_total:
  assumes laws: "runtime_laws (w_runtime w)" "format5 cl"
    and q: "encodable w cl now q" "has_form w (q_envelope q)" "\<forall>t \<in> set_option (q_transcript q). has_form w t"
    and db: "linked (entries db)" "int (length (entries db)) < exact_int_limit"
  shows "\<exists>db'. append_v3 w cl db now q = Inr db'"
proof -
  let ?link = "next_link (entries db)"
  obtain eh where eh: "evidence_hash (w_runtime w) (w_sha w) (w_scan w) (Some (q_envelope q)) = Inr eh"
    using evidence_hash_total [OF q(2)] by blast
  have "\<exists>th. evidence_hash (w_runtime w) (w_sha w) (w_scan w) (q_transcript q) = Inr th"
    using q(3) evidence_hash_total [of w] by (cases "q_transcript q") (auto simp: evidence_hash_def)
  then obtain th where th: "evidence_hash (w_runtime w) (w_sha w) (w_scan w) (q_transcript q) = Inr th" by blast
  have n: "\<bar>fst ?link\<bar> \<le> exact_int_limit" using next_link_linked [OF db(1)] db(2) by simp
  obtain p where p: "entry_payload_v5 (w_runtime w) (evidence_line w ?link now q eh th) (request_v5 cl q) = Inr p"
    using evidence_payload_total [OF laws(1) q(1) n] by blast
  have "\<exists>sig. sign_position w cl q (fst ?link) (hexdigest w p) = Inr sig"
  proof (cases "key_signer cl")
    case (Some s)
    have "case (if q_transcript q = None then None else q_transcript_id q) of None \<Rightarrow> True
        | Some t \<Rightarrow> check_unicode t = Inr ()"
      using encodable_texts(11) [OF q(1)] by simp
    from signing_bytes_total [OF laws(1) n encodable_texts(3) [OF q(1)] this, of "hexdigest w p"]
    show ?thesis by (auto simp: sign_position_def Some)
  qed (simp add: sign_position_def)
  then obtain sig where "sign_position w cl q (fst ?link) (hexdigest w p) = Inr sig" by blast
  with eh th p laws(2) show ?thesis by (simp add: append_v3_def Let_def)
qed

lemma append_v3_adds_row:
  assumes "append_v3 w cl db now q = Inr db'"
  shows "\<exists>r. db' = db\<lparr>entries := entries db @ [r]\<rparr> \<and> l_seq r = fst (next_link (entries db)) \<and>
    l_prev r = snd (next_link (entries db)) \<and> l_time r = now \<and> l_hash r \<in> range (hexdigest w)"
proof -
  have rows: "l_hash (evidence_row w now h (evidence_line w link now q eh th) q) = h"
    "l_seq (evidence_row w now h (evidence_line w link now q eh th) q) = fst link"
    "l_prev (evidence_row w now h (evidence_line w link now q eh th) q) = snd link"
    "l_time (evidence_row w now h (evidence_line w link now q eh th) q) = now" for h link eh th
    by (simp_all add: evidence_row_def base_row_def evidence_line_def request_line_def)
  have added: "l_hash (add_v5 c sig r) = l_hash r" "l_seq (add_v5 c sig r) = l_seq r" "l_prev (add_v5 c sig r) = l_prev r" "l_time (add_v5 c sig r) = l_time r"
    for c sig r by (simp_all add: add_v5_def)
  from assms show ?thesis
    by (auto simp: append_v3_def Let_def rows added split: sum.splits if_splits)
qed

lemma append_v3_linked: "append_v3 w cl db now q = Inr db' \<Longrightarrow> linked (entries db) \<Longrightarrow> linked (entries db')"
  using append_v3_adds_row [of w cl db now q db'] next_link_linked [of "entries db"] by (auto simp: linked_snoc)

lemma make_checkpoint_entries:
  "make_checkpoint w cl s db created tsa = Inr (Some (db', cp)) \<Longrightarrow> entries db' = entries db"
  by (auto simp: make_checkpoint_def Let_def split: if_splits option.splits sum.splits)

lemma ledger_run_linked: "ledger_run w cl s authority db \<Longrightarrow> linked (entries db)"
proof (induction rule: ledger_run.induct)
  case start
  show ?case by (simp add: linked_def register_signing_key_def empty_database_def)
next
  case (restart db)
  then show ?case by (simp add: register_signing_key_def)
next
  case (append db q now db')
  then show ?case by (blast intro: append_v3_linked)
next
  case (checkpoint db tsa created db' cp)
  then show ?case by (simp add: make_checkpoint_entries)
qed

lemma ledger_run_hashes:
  assumes "\<And>x. length (w_sha w x) = 32"
  shows "ledger_run w cl s authority db \<Longrightarrow> \<exists>hs. raw_hashes (map l_hash (entries db)) = Some hs"
proof -
  have hex: "\<exists>hs. raw_hashes hashes = Some hs" if "\<forall>h \<in> set hashes. \<exists>b. h = to_hex b \<and> length b = 32" for hashes
    using that by (induction hashes) fastforce+
  have "\<forall>r \<in> set (entries db). \<exists>p. l_hash r = hexdigest w p" if "ledger_run w cl s authority db"
    using that
  proof (induction rule: ledger_run.induct)
    case start
    show ?case by (simp add: register_signing_key_def empty_database_def)
  next
    case (restart db)
    then show ?case by (simp add: register_signing_key_def)
  next
    case (append db q now db')
    with append_v3_adds_row [OF append.hyps(4)] show ?case by auto
  next
    case (checkpoint db tsa created db' cp)
    then show ?case by (simp add: make_checkpoint_entries)
  qed
  with assms show "ledger_run w cl s authority db \<Longrightarrow> ?thesis" by (intro hex) (auto simp: hexdigest_def)
qed

lemma ledger_run_issued:
  "ledger_run w cl s authority db \<Longrightarrow> \<forall>cp \<in> set (checkpoints db). issued w s authority (map l_hash (entries db)) cp"
proof (induction rule: ledger_run.induct)
  case start
  show ?case by (simp add: register_signing_key_def empty_database_def)
next
  case (restart db)
  then show ?case by (simp add: register_signing_key_def)
next
  case (append db q now db')
  with append_v3_adds_row [OF append.hyps(4)] show ?case by (auto intro!: issued_extend)
next
  case (checkpoint db tsa created db' cp)
  from make_checkpoint_issues [OF checkpoint.hyps(3) ledger_run_linked [OF checkpoint.hyps(1)] checkpoint.hyps(2)]
    checkpoint.IH
  show ?case
    by (cases "list_ex (\<lambda>c. c_tenant c = c_tenant cp \<and> c_size c = c_size cp) (checkpoints db)") simp_all
qed

lemma make_checkpoint_total:
  assumes laws: "runtime_laws (w_runtime w)" "\<And>x. length (w_sha w x) = 32"
    and run: "ledger_run w cl s authority db" "int (length (entries db)) \<le> exact_int_limit"
    and texts: "check_unicode (tenant_id cl) = Inr ()" "check_unicode created = Inr ()"
    and uncovered: "covered_size (tenant_id cl) db < int (length (entries db))" "entries db \<noteq> []"
  shows "\<exists>db' cp. make_checkpoint w cl s db created tsa = Inr (Some (db', cp))"
proof -
  define hashes where "hashes = map l_hash (entries db)"
  have h: "map l_hash (by_sequence (entries db)) = hashes"
    by (simp add: hashes_def by_sequence_linked [OF ledger_run_linked [OF run(1)]])
  have n: "length hashes = length (entries db)" "hashes \<noteq> []" using uncovered(2) by (simp_all add: hashes_def)
  obtain hs where hs: "raw_hashes hashes = Some hs"
    using ledger_run_hashes [where w = w, OF laws(2) run(1)] by (auto simp: hashes_def)
  have digest: "merkle_root (w_sha w) hashes = Some (to_hex (tree_root (w_sha w) hs))"
    by (rule merkle_root_Some [OF n(2) hs])
  have "\<exists>m. checkpoint_statement (w_runtime w) (tenant_id cl) (int (length hashes)) root_hash (last hashes) created = Inr m"
    for root_hash
    unfolding checkpoint_statement_def
    by (rule canonicalize_plain [OF laws(1)]) (use run(2) texts in \<open>simp add: n exact_int_limit_def\<close>)
  then obtain m where "checkpoint_statement (w_runtime w) (tenant_id cl) (int (length hashes))
      (to_hex (tree_root (w_sha w) hs)) (last hashes) created = Inr m" by blast
  then show ?thesis
    unfolding make_checkpoint_def h Let_def using n uncovered(1) by (simp add: digest)
qed

section \<open>The payload before format 4\<close>

lemma escape_char_unicode: "c \<in> set (escape_char d) \<Longrightarrow> surrogate c \<Longrightarrow> c = d"
proof (cases d rule: escape_char_cases)
  case (short t)
  then have "t < 200" by (auto simp: short_name_def short_escapes_def split: if_splits)
  then show "c \<in> set (escape_char d) \<Longrightarrow> surrogate c \<Longrightarrow> ?thesis" using short by (auto simp: surrogate_def)
qed (auto simp: hex_code_def surrogate_def split: if_splits)

lemma quote_text_unicode: "check_unicode t = Inr () \<Longrightarrow> check_unicode (quote_text t) = Inr ()"
  using escape_char_unicode by (fastforce simp: check_unicode_iff quote_text_def surrogate_def)

lemma commas_unicode: "\<forall>t \<in> set ts. check_unicode t = Inr () \<Longrightarrow> check_unicode (commas ts) = Inr ()"
  by (induction ts rule: commas.induct) (auto simp: check_unicode_iff surrogate_def)

lemma int_text_unicode: "check_unicode (int_text i) = Inr ()"
proof -
  have "list_all is_digit (nat_text n)" for n using nat_text_digits by blast
  then have "\<not> surrogate c" if "c \<in> set (nat_text n)" for c n
    using that by (force simp: list_all_iff is_digit_def surrogate_def)
  then show ?thesis by (auto simp: check_unicode_iff int_text_def) (auto simp: surrogate_def)
qed

lemma dumps_sorted_unicode:
  assumes "\<forall>m \<in> set ms. plain_member m"
  shows "check_unicode (dumps_sorted ms) = Inr ()"
proof -
  have one: "check_unicode (quote_text (the (fst m)) @ [58] @ dumps_value (snd m)) = Inr ()" if "m \<in> set ms" for m
  proof -
    have m: "plain_member m" using assms that by blast
    then have "check_unicode (quote_text (the (fst m))) = Inr ()"
      by (intro quote_text_unicode) (auto simp: plain_member_def split: option.splits)
    moreover have "check_unicode (dumps_value (snd m)) = Inr ()"
      using m int_text_unicode quote_text_unicode
      by (cases "snd m") (auto simp: plain_member_def dumps_value_def)
    ultimately show ?thesis by (auto simp: check_unicode_iff surrogate_def)
  qed
  have "check_unicode (commas (map (\<lambda>m. quote_text (the (fst m)) @ [58] @ dumps_value (snd m))
      (sort_key (\<lambda>m. the (fst m)) ms))) = Inr ()"
    by (rule commas_unicode) (use one in simp)
  then show ?thesis by (auto simp: dumps_sorted_def check_unicode_iff surrogate_def)
qed

section \<open>Receipts\<close>

lemma raw_hashes_take: "raw_hashes xs = Some ys \<Longrightarrow> raw_hashes (take m xs) = Some (take m ys)"
  by (induction xs arbitrary: ys m) (auto simp: take_Cons' split: option.splits if_splits)

lemma covering_size_Some:
  assumes "cp \<in> set (checkpoints db)" "c_tenant cp = tenant" "seq \<le> c_size cp"
  shows "\<exists>cp' \<in> set (checkpoints db). c_tenant cp' = tenant \<and> seq \<le> c_size cp' \<and>
    covering_size tenant seq db = Some (c_size cp') \<and>
    (\<forall>d \<in> set (checkpoints db). c_tenant d = tenant \<and> seq \<le> c_size d \<longrightarrow> c_size cp' \<le> c_size d)"
proof -
  define sizes where "sizes = map c_size (filter (\<lambda>c. seq \<le> c_size c \<and> c_tenant c = tenant) (checkpoints db))"
  have "c_size cp \<in> set sizes" using assms by (auto simp: sizes_def)
  then obtain n ns where s: "sizes = n # ns" by (cases sizes) auto
  have "covering_size tenant seq db = Some (fold min ns n)"
    using s by (simp add: covering_size_def sizes_def)
  also have "fold min ns n = Min (set sizes)" unfolding s by (rule Min.set_eq_fold [symmetric])
  finally have eq: "covering_size tenant seq db = Some (Min (set sizes))" .
  have "Min (set sizes) \<in> set sizes" using s by (intro Min_in) auto
  then obtain cp' where cp': "cp' \<in> set (checkpoints db)" "c_tenant cp' = tenant" "seq \<le> c_size cp'"
      "c_size cp' = Min (set sizes)"
    by (auto simp: sizes_def)
  have "c_size cp' \<le> c_size d" if "d \<in> set (checkpoints db)" "c_tenant d = tenant" "seq \<le> c_size d" for d
    unfolding cp'(4) using that by (intro Min_le) (simp_all add: sizes_def)
  with cp' eq show ?thesis by metis
qed

lemma find_linked:
  assumes "linked rows" "i < length rows"
  shows "find (\<lambda>r. l_seq r = 1 + int i) rows = Some (rows ! i)"
proof -
  have "\<forall>j < length rows. (l_seq (rows ! j) = 1 + int i) = (j = i)"
    using assms by (auto simp: linked_def link_at_def)
  then show ?thesis using assms(2) by (auto simp: find_Some_iff)
qed

lemma filter_linked:
  assumes "linked rows" "n \<le> length rows"
  shows "filter (\<lambda>r. l_seq r \<le> int n) rows = take n rows"
proof -
  have seq: "\<forall>j < length rows. l_seq (rows ! j) = 1 + int j" using assms(1) by (simp add: linked_def link_at_def)
  have "filter (\<lambda>r. l_seq r \<le> int n) (take n rows) = take n rows"
    using seq assms(2) by (intro filter_True) (auto simp: in_set_conv_nth)
  moreover have "filter (\<lambda>r. l_seq r \<le> int n) (drop n rows) = []"
    using seq by (intro filter_False) (auto simp: in_set_conv_nth)
  ultimately show ?thesis by (metis append_Nil2 append_take_drop_id filter_append)
qed

section \<open>Properties\<close>

text \<open>What the audit requires of the row at a position, besides its link.\<close>

definition row_proved :: "world \<Rightarrow> key_ring \<Rightarrow> ledger_row \<Rightarrow> bool" where
  "row_proved w ring r =
     (if fst (entry_format w r) = 3 then \<exists>p. plain_payload w r = Inr p \<and> hexdigest w p = l_hash r
      else canonicalize (w_runtime w) (JObj (payload_members w r)) = Inr (payload_bytes w r) \<and>
        l_hash r = hexdigest w (payload_bytes w r) \<and> l_envelope_hash r = fst (evidence_hashes w r) \<and>
        (fst (entry_format w r) = 5 \<longrightarrow> signed_row w ring r))"

definition follows :: "world \<Rightarrow> ledger_row \<Rightarrow> ledger_row \<Rightarrow> bool" where
  "follows w r s \<longleftrightarrow>
     l_prev s = l_hash r \<and> l_time r \<le> l_time s \<and> fst (entry_format w r) \<le> fst (entry_format w s)"

lemma format_envelope: "fst (entry_format w r) \<noteq> 3 \<Longrightarrow> snd (entry_format w r) = fst (evidence_hashes w r)"
  using matches_v4_cases [of w r]
  by (auto simp: entry_format_def evidence_hashes_def Let_def split: sum.splits option.splits)

lemma clean_row_proved:
  "clean_row w ring p r \<longleftrightarrow> row_proved w ring r \<and> l_seq r = s_expected p \<and> l_prev r = s_hash p \<and>
     s_format p \<le> fst (entry_format w r) \<and> (case s_time p of None \<Rightarrow> True | Some t \<Rightarrow> t \<le> l_time r)"
proof (cases "fst (entry_format w r) = 3")
  case False
  then have four: "fst (entry_format w r) \<ge> 4" using entry_format_range [of w r] by auto
  from entry_format_proves [OF this] have "canonicalize (w_runtime w) (JObj (payload_members w r)) = Inr (payload_bytes w r)"
    "l_hash r = hexdigest w (payload_bytes w r)"
    by (auto simp: payload_bytes_def)
  then show ?thesis
    using False four format_envelope [OF False] by (auto simp: clean_row_def row_proved_def)
qed (auto simp: clean_row_def row_proved_def)

lemma clean_chain_proved:
  "clean_chain w ring start_position rows \<longleftrightarrow>
   (\<forall>i < length rows. row_proved w ring (rows ! i) \<and> l_seq (rows ! i) = 1 + int i) \<and>
   (rows \<noteq> [] \<longrightarrow> l_prev (rows ! 0) = genesis_hash) \<and>
   (\<forall>i. Suc i < length rows \<longrightarrow> follows w (rows ! i) (rows ! Suc i))"
proof (induction rows rule: rev_induct)
  case (snoc r rows)
  have fmt: "3 \<le> fst (entry_format w r)" using entry_format_range [of w r] by auto
  show ?case
  proof (cases "rows = []")
    case True
    then show ?thesis
      using fmt by (auto simp: clean_chain_snoc clean_row_proved start_position_def)
  next
    case False
    then obtain n where n: "length rows = Suc n" by (cases rows) auto
    have l: "last rows = rows ! n" using False n by (simp add: last_conv_nth)
    have step: "(\<forall>i. Suc i < length (rows @ [r]) \<longrightarrow> follows w ((rows @ [r]) ! i) ((rows @ [r]) ! Suc i)) \<longleftrightarrow>
        (\<forall>i. Suc i < length rows \<longrightarrow> follows w (rows ! i) (rows ! Suc i)) \<and> follows w (rows ! n) r"
      using n by (auto simp: nth_append less_Suc_eq)
    have all: "(\<forall>i < length (rows @ [r]). row_proved w ring ((rows @ [r]) ! i) \<and> l_seq ((rows @ [r]) ! i) = 1 + int i) \<longleftrightarrow>
        (\<forall>i < length rows. row_proved w ring (rows ! i) \<and> l_seq (rows ! i) = 1 + int i) \<and>
        row_proved w ring r \<and> l_seq r = 1 + int (Suc n)"
      unfolding length_append_singleton All_less_Suc n by (auto simp: nth_append n)
    have first: "(rows @ [r]) ! 0 = rows ! 0" using n by (simp add: nth_append)
    have "clean_row w ring (after_row w (rows ! n)) r \<longleftrightarrow> row_proved w ring r \<and> l_seq r = l_seq (rows ! n) + 1 \<and>
        follows w (rows ! n) r"
      by (auto simp: clean_row_proved after_row_def follows_def)
    then show ?thesis
      unfolding clean_chain_snoc snoc.IH step all first using False n l by auto
  qed
qed simp

text \<open>
  Property C2. The audit decides a specification of the ledger. On a ledger with entries, \<open>verify_integrity\<close>
  ends without a critical issue exactly when: every row reproduces its stored hash from its own columns and
  evidence (and a format-5 row carries a signature of its position by a key the auditor trusts), the rows are
  numbered 1, 2, 3, ..., the first row follows the genesis hash and every other row the row before it, in link,
  time and format; no signing key is under a wrong id; and every checkpoint of the table and every exported
  file is signed, covered by the ledger, and gives its root and last hash.
\<close>

theorem audit_decides_specification:
  assumes "entries db \<noteq> []"
  shows "accepted w q db \<longleftrightarrow>
    (let rows = audited_rows q db; ring = ring_of w q db; hashes = map l_hash rows in
     (\<forall>i < length rows. row_proved w ring (rows ! i) \<and> l_seq (rows ! i) = 1 + int i) \<and>
     l_prev (rows ! 0) = genesis_hash \<and>
     (\<forall>i. Suc i < length rows \<longrightarrow> follows w (rows ! i) (rows ! Suc i)) \<and>
     k_bad ring = [] \<and>
     (has_checkpoint_table q \<longrightarrow> (\<forall>cp \<in> set (checkpoints db). stored_ok w ring hashes (tsa_ca q) cp)) \<and>
     (\<forall>file \<in> set (exported_files q). exported_ok w ring hashes (tsa_ca q) file))"
proof -
  have "audited_rows q db \<noteq> []" using assms by simp
  then show ?thesis
    unfolding accepted_iff [OF assms] clean_chain_proved checkpoints_pass_iff Let_def by blast
qed

text \<open>
  Property C24. The last hash binds the ledger. When two audits, of any two ledgers and with any keys, accept,
  and the ledgers end in the same entry hash, then they have the same rows: as many, each with the same value in
  every hashed column and the same envelope and transcript in canonical form; or two of the texts that the
  audits hash collide under SHA-256. Rows of the formats before 4 are excluded: they do not hash their evidence.
\<close>

theorem ledger_head_binds:
  assumes "runtime_laws (w_runtime w)" "ascii_stable (w_runtime w)"
    and "accepted w q db" "accepted w q' db'" and "entries db \<noteq> []" "entries db' \<noteq> []"
    and "\<forall>r \<in> set (audited_rows q db). chained_row w r" "\<forall>r \<in> set (audited_rows q' db'). chained_row w r"
    and "l_hash (last (audited_rows q db)) = l_hash (last (audited_rows q' db'))"
  shows "list_all2 (same_content w) (audited_rows q db) (audited_rows q' db') \<or>
    sha_collision w (audited_rows q db) (audited_rows q' db')"
proof (rule disjCI)
  assume free: "\<not> sha_collision w (audited_rows q db) (audited_rows q' db')"
  have "linked (audited_rows q db)" "linked (audited_rows q' db')"
    using assms(3-6) by (auto simp: accepted_iff intro: clean_chain_linked)
  then show "list_all2 (same_content w) (audited_rows q db) (audited_rows q' db')"
    using assms by (intro chain_binds [OF assms(1,2) free]) simp_all
qed

lemma exported_covers:
  assumes "accepted w q db" "entries db \<noteq> []" "Some cp \<in> set (exported_files q)"
  shows "linked (py_prefix (c_size cp) (audited_rows q db)) \<and> py_prefix (c_size cp) (audited_rows q db) \<noteq> [] \<and>
    l_hash (last (py_prefix (c_size cp) (audited_rows q db))) = c_last cp \<and>
    set (py_prefix (c_size cp) (audited_rows q db)) \<subseteq> set (audited_rows q db)"
proof -
  have rows: "linked (audited_rows q db)" and ok: "exported_ok w (ring_of w q db) (map l_hash (audited_rows q db)) (tsa_ca q) (Some cp)"
    using assms unfolding accepted_iff [OF assms(2)] checkpoints_pass_iff by (auto intro: clean_chain_linked)
  have prefix: "py_prefix n (map l_hash xs) = map l_hash (py_prefix n xs)" for n and xs :: "ledger_row list"
    by (simp add: py_prefix_def take_map)
  have "root_differs w (map l_hash (py_prefix (c_size cp) (audited_rows q db))) cp = Inr False"
    using ok by (simp add: exported_ok_def checkpoint_ok_def prefix)
  then have "py_prefix (c_size cp) (audited_rows q db) \<noteq> []"
    "l_hash (last (py_prefix (c_size cp) (audited_rows q db))) = c_last cp"
    by (auto simp: root_differs_def last_map split: option.splits if_splits)
  then show ?thesis
    using linked_take [OF rows] set_take_subset [of _ "audited_rows q db"] by (simp add: py_prefix_def)
qed

text \<open>
  Property C3. An exported checkpoint binds the ledger it was exported from, where there is one. Two ledgers that
  are not empty, with every audited row of format 4 or later, whose audits both accept the same exported file, have
  the same entries under it, row by row, in every hashed column and in their evidence, or SHA-256 collides. So
  a ledger whose covered entries are rewritten, even with all its hashes, signatures and checkpoint rows, is not
  accepted with the file. The two premises are needed: a ledger without entries is accepted with any file
  (\<open>emptied_ledger_passes\<close>), and the rows of formats 2 and 3 do not hash all of these columns.
\<close>

theorem exported_checkpoint_binds:
  assumes "runtime_laws (w_runtime w)" "ascii_stable (w_runtime w)"
    and "accepted w q db" "accepted w q' db'" and "entries db \<noteq> []" "entries db' \<noteq> []"
    and "\<forall>r \<in> set (audited_rows q db). chained_row w r" "\<forall>r \<in> set (audited_rows q' db'). chained_row w r"
    and "Some cp \<in> set (exported_files q)" "Some cp \<in> set (exported_files q')"
  shows "list_all2 (same_content w) (py_prefix (c_size cp) (audited_rows q db)) (py_prefix (c_size cp) (audited_rows q' db')) \<or>
    sha_collision w (audited_rows q db) (audited_rows q' db')"
proof (rule disjCI)
  assume free: "\<not> sha_collision w (audited_rows q db) (audited_rows q' db')"
  show "list_all2 (same_content w) (py_prefix (c_size cp) (audited_rows q db)) (py_prefix (c_size cp) (audited_rows q' db'))"
    using exported_covers [OF assms(3,5,9)] exported_covers [OF assms(4,6,10)] assms(7,8)
    by (intro chain_binds [OF assms(1,2) free]) auto
qed

text \<open>
  Property C6. The audit accepts every ledger that the writer produces: after any sequence of key registrations,
  format-5 appends in order of time and checkpoints, by one signer, \<open>verify_integrity\<close> finds no issue, with the
  signer's key pinned or none, with every checkpoint exported from the ledger, and with the time-stamp
  authority's answers checked. The laws are those of the storage (JSONB keeps the canonical form, the reader's
  session is in UTC) and of signatures (what the signer signs verifies).
\<close>

theorem honest_ledger_is_accepted:
  assumes "ledger_run w cl s authority db" and "storage_laws w" "honest_signer w s"
    and "format5 cl" "key_signer cl = Some s" and "audits_run s authority db q"
  shows "accepted w q db"
  by (rule honest_run_accepted [OF assms])

text \<open>
  The writer never blocks: in every reachable ledger below 2 to the 53 entries, an honest request
  whose texts UTF-8 can encode and whose evidence has a canonical form is appended, with the next sequence number,
  and the ledger with it is reachable again.
\<close>

theorem append_never_blocks:
  assumes "runtime_laws (w_runtime w)" and "ledger_run w cl s authority db" "format5 cl"
    and "honest_request w q" "encodable w cl now q"
    and "has_form w (q_envelope q)" "\<forall>t \<in> set_option (q_transcript q). has_form w t"
    and "\<forall>r \<in> set (entries db). l_time r \<le> now" and "int (length (entries db)) < exact_int_limit"
  shows "\<exists>r db'. append_v3 w cl db now q = Inr db' \<and> db' = db\<lparr>entries := entries db @ [r]\<rparr> \<and>
    l_seq r = 1 + int (length (entries db)) \<and> ledger_run w cl s authority db'"
proof -
  note linked = ledger_run_linked [OF assms(2)]
  obtain db' where step: "append_v3 w cl db now q = Inr db'"
    using append_v3_total [OF assms(1,3,5,6,7) linked assms(9)] by blast
  obtain r where "db' = db\<lparr>entries := entries db @ [r]\<rparr>" "l_seq r = fst (next_link (entries db))"
    using append_v3_adds_row [OF step] by blast
  moreover have "ledger_run w cl s authority db'"
    by (rule ledger_run.append [OF assms(2,4,8) step])
  ultimately show ?thesis using step by (auto simp: next_link_linked [OF linked])
qed

lemma covered_evidence:
  assumes "\<And>x. length (w_sha w x) = 32" and "ledger_run w cl s authority db" and "i < length (entries db)"
    and "cp \<in> set (checkpoints db)" "c_tenant cp = tenant_id cl" "1 + int i \<le> c_size cp"
  shows "\<exists>r hashes prf cp'. evidence cl db (1 + int i) = Some (r, Some hashes) \<and> r = entries db ! i \<and>
    cp' \<in> set (checkpoints db) \<and> c_size cp' = int (length hashes) \<and> c_size cp' \<le> c_size cp \<and>
    i < length hashes \<and> hashes ! i = l_hash r \<and> merkle_root (w_sha w) hashes = Some (c_root cp') \<and>
    inclusion_proof (w_sha w) hashes (int i) = Inr prf \<and>
    verify_inclusion (w_sha w) (l_hash r) (int i) (int (length hashes)) prf (c_root cp') = Some True"
proof -
  note linked = ledger_run_linked [OF assms(2)]
  obtain cp' where cp': "cp' \<in> set (checkpoints db)" "1 + int i \<le> c_size cp'" "c_size cp' \<le> c_size cp"
      "covering_size (tenant_id cl) (1 + int i) db = Some (c_size cp')"
    using covering_size_Some [OF assms(4,5,6)] assms(4-6) by blast
  define n where "n = nat (c_size cp')"
  define hashes where "hashes = map l_hash (take n (entries db))"
  have issued: "issued w s authority (map l_hash (entries db)) cp'"
    using ledger_run_issued [OF assms(2)] cp'(1) by blast
  then have le: "c_size cp' \<le> int (length (entries db))" by (simp add: issued_def)
  have n: "c_size cp' = int n" "n \<le> length (entries db)" "i < n"
    using cp'(2) le unfolding n_def by linarith+
  have hlen: "length hashes = n" using n(2) by (simp add: hashes_def)
  have "evidence cl db (1 + int i) = Some (entries db ! i, Some hashes)"
    using find_linked [OF linked assms(3)] cp'(4) n(2)
    by (simp add: evidence_def n(1) filter_linked [OF linked] by_sequence_linked linked_take [OF linked] hashes_def)
  moreover obtain hs where hs: "raw_hashes hashes = Some hs"
  proof -
    obtain bs where "raw_hashes (map l_hash (entries db)) = Some bs"
      using ledger_run_hashes [where w = w, OF assms(1) assms(2)] by blast
    from raw_hashes_take [OF this] show thesis using that by (simp add: hashes_def take_map)
  qed
  moreover obtain path digest where made: "inclusion_proof (w_sha w) hashes (int i) = Inr path"
      "merkle_root (w_sha w) hashes = Some digest"
      "verify_inclusion (w_sha w) (hashes ! i) (int i) (int (length hashes)) path digest = Some True"
    using proof_exists [OF hs, of i] n(3) hlen by blast
  moreover have "hashes ! i = l_hash (entries db ! i)" using n assms(3) by (simp add: hashes_def)
  moreover have "digest = c_root cp'"
    using issued made(2) by (auto simp: issued_def root_differs_def n(1) hashes_def take_map split: if_splits option.splits)
  ultimately show ?thesis using cp'(1,3) n(1,3) hlen by (intro exI conjI; (assumption | rule refl)?) auto
qed

text \<open>
  Every covered entry has a receipt. In a reachable ledger, for an entry that some checkpoint of the
  tenant covers, \<open>evidence\<close> returns the row and the hashes of the smallest such checkpoint; from them
  \<open>inclusion_proof\<close> makes a proof that \<open>verify_inclusion\<close> accepts for the entry's hash against the root that
  the checkpoint signs.
\<close>

theorem covered_entry_has_receipt:
  assumes "\<And>x. length (w_sha w x) = 32" and "ledger_run w cl s authority db" and "i < length (entries db)"
    and "cp \<in> set (checkpoints db)" "c_tenant cp = tenant_id cl" "1 + int i \<le> c_size cp"
  shows "\<exists>r hashes prf cp'. evidence cl db (1 + int i) = Some (r, Some hashes) \<and> r = entries db ! i \<and>
    cp' \<in> set (checkpoints db) \<and> c_size cp' = int (length hashes) \<and> c_size cp' \<le> c_size cp \<and>
    hashes ! i = l_hash r \<and> merkle_root (w_sha w) hashes = Some (c_root cp') \<and>
    inclusion_proof (w_sha w) hashes (int i) = Inr prf \<and>
    verify_inclusion (w_sha w) (l_hash r) (int i) (int (length hashes)) prf (c_root cp') = Some True"
  using covered_evidence [OF assms] by blast

text \<open>
  Deleting every entry is not noticed: on a ledger without entries \<open>verify_integrity\<close> returns a
  valid result before it looks at the checkpoints, so not even an exported checkpoint that covers the deleted
  entries is compared.
\<close>

theorem emptied_ledger_passes:
  "verify_integrity w q (db\<lparr>entries := []\<rparr>) = Inr empty_result"
  by (simp add: verify_integrity_def by_sequence_def Let_def)

text \<open>
  The sequence-gap tripwire of \<open>append\<close> reports a gap after a regular \<open>append_v3\<close> by the same
  writer, because \<open>append_v3\<close> neither checks nor advances the expected sequence number.
\<close>

theorem append_v3_trips_the_wire:
  assumes "linked (entries db)"
    and "append_entry w cl db t1 q1 = (cl1, gap1, Inr db1)" and "append_v3 w cl1 db1 t2 q2 = Inr db2"
  shows "fst (snd (append_entry w cl1 db2 t3 q3)) = True"
proof -
  obtain r1 where r1: "entries db1 = entries db @ [r1]" "l_seq r1 = fst (next_link (entries db))"
      "l_prev r1 = snd (next_link (entries db))" "expected_next_seq cl1 = Some (fst (next_link (entries db)) + 1)"
    using assms(2) by (auto simp: append_entry_def Let_def base_row_def request_line_def map_sum_Inr)
  have l1: "linked (entries db1)"
    using assms(1) r1 by (simp add: linked_snoc next_link_linked)
  note l2 = append_v3_linked [OF assms(3) l1]
  obtain r2 where "entries db2 = entries db1 @ [r2]" using append_v3_adds_row [OF assms(3)] by auto
  then have "fst (next_link (entries db2)) = 3 + int (length (entries db))"
    using next_link_linked [OF l2] r1(1) by simp
  then show ?thesis
    using r1(4) by (simp add: append_entry_def Let_def next_link_linked [OF assms(1)])
qed

subsection \<open>Witnesses\<close>

text \<open>A world to evaluate in: JSON texts are string literals, a signature is the message after a zero byte.\<close>

definition sample_signer :: signer where
  "sample_signer = \<lparr>s_key_id = ''k'', s_pem = ''pem'', s_sign = (\<lambda>m. to_hex (0 # m))\<rparr>"

definition sample_world :: world where
  "sample_world =
     \<lparr>w_runtime = sample_runtime, w_sha = sample_sha, w_scan = (\<lambda>t. Some (RStr t)),
      w_crypto = \<lparr>load_pem = (\<lambda>s. Some (Ed25519 1)), key_id = (\<lambda>k. ''k''), verifies = (\<lambda>k sig m. sig = 0 # m)\<rparr>,
      w_jsonb = (\<lambda>t. t), w_transcript_id = (\<lambda>t. Some (ascii ''t1'')), w_iso_utc = int_text, w_iso_session = int_text\<rparr>"

definition sample_client :: client where
  "sample_client =
     \<lparr>expected_next_seq = None, format5 = True, tenant_id = ascii ''default'', key_signer = Some sample_signer\<rparr>"

definition sample_request :: evidence_request where
  "sample_request =
     \<lparr>q_verdict = ascii ''CLEAR'', q_telemetry_id = ascii ''m1'', q_telemetry_hash = ''00'', q_rule_id = Some (ascii ''r1''),
      q_kg_version = None, q_model_version = ascii ''3.3.0'', q_reasoning = [233], q_track = Some (ascii ''v3-evaluator''),
      q_envelope = [101, 233], q_transcript = Some [116], q_transcript_id = Some (ascii ''t1''),
      q_transcript_signature = Some ''ff'', q_signing_key_id = Some ''k'', q_verifier_status = ascii ''agrees'',
      q_kg_version_hash = Some ''sha256:00'', q_model_weight_hash = None\<rparr>"

fun sample_ledger :: "nat \<Rightarrow> database" where
  "sample_ledger 0 = register_signing_key sample_signer empty_database"
| "sample_ledger (Suc n) = projr (append_v3 sample_world sample_client (sample_ledger n) 5 sample_request)"

lemma sample_world_fields [simp]:
  "w_runtime sample_world = sample_runtime" "w_sha sample_world = sample_sha"
  "w_iso_utc sample_world = int_text" "w_iso_session sample_world = int_text" "w_jsonb sample_world = (\<lambda>t. t)"
  "w_scan sample_world = (\<lambda>t. Some (RStr t))" "w_transcript_id sample_world = (\<lambda>t. Some (ascii ''t1''))"
  by (simp_all add: sample_world_def)

lemma sample_client_fields [simp]:
  "format5 sample_client = True" "key_signer sample_client = Some sample_signer" "tenant_id sample_client = ascii ''default''"
  by (simp_all add: sample_client_def)

lemma sample_ascii_stable: "ascii_stable sample_runtime"
  by (simp add: ascii_stable_def sample_runtime_def)

lemma sample_storage: "storage_laws sample_world"
  by (simp add: storage_laws_def)

lemma sample_signer_honest: "honest_signer sample_world sample_signer"
proof -
  have "py_strip ''k'' = ''k''" by code_simp
  moreover have "to_hex (0 # m) \<noteq> []" for m by (simp add: to_hex_def byte_hex_def)
  ultimately show ?thesis
    by (simp add: honest_signer_def sample_world_def sample_signer_def load_key_def signature_valid_def)
qed

lemma sample_request_honest: "honest_request sample_world sample_request"
proof -
  have "py_strip ''sha256:00'' = ''sha256:00''" by code_simp
  then show ?thesis by (simp add: honest_request_def sample_request_def)
qed

lemma sample_time: "int_text 5 = [53]"
  by (simp add: int_text_def nat_text.simps)

lemma sample_encodable: "encodable sample_world sample_client 5 sample_request"
proof -
  have "check_unicode [53] = Inr ()" "check_unicode [233] = Inr ()" by (simp_all add: check_unicode_iff surrogate_def)
  then show ?thesis by (simp add: encodable_def request_texts_def sample_request_def sample_time)
qed

lemma sample_form: "check_unicode t = Inr () \<Longrightarrow> has_form sample_world t"
proof -
  assume t: "check_unicode t = Inr ()"
  then have "parse_json sample_runtime (\<lambda>t. Some (RStr t)) t = Inr (JStr t)" by (simp add: parse_json_def)
  moreover have "nfc_normalize_values sample_runtime (JStr t) = Inr (JStr t)"
    using t by (simp add: sample_runtime_def)
  moreover have "serialize sample_runtime (JStr t) = Inr (quote_text t)" using t unfolding serialize_JStr by simp
  ultimately show ?thesis
    by (auto simp: has_form_def canonicalize_json_text_def canonicalize_Inr)
qed

lemma sample_forms: "has_form sample_world (q_envelope sample_request)"
  "\<forall>t \<in> set_option (q_transcript sample_request). has_form sample_world t"
proof -
  have "check_unicode [101, 233] = Inr ()" "check_unicode [116] = Inr ()" by (simp_all add: check_unicode_iff surrogate_def)
  then show "has_form sample_world (q_envelope sample_request)"
    "\<forall>t \<in> set_option (q_transcript sample_request). has_form sample_world t"
    by (auto simp: sample_request_def intro!: sample_form)
qed

text \<open>The ledgers reached in this world: \<open>sample_reached\<close> also says that their texts are code points.\<close>

definition sample_reached :: "nat \<Rightarrow> database \<Rightarrow> bool" where
  "sample_reached n db \<longleftrightarrow>
     ledger_run sample_world sample_client sample_signer (\<lambda>m. []) db \<and> length (entries db) = n \<and>
     (\<forall>r \<in> set (entries db). l_time r = 5 \<and> list_all code_points (row_texts sample_world r))"

lemma sample_append:
  assumes "sample_reached n db" "n < 100"
  shows "\<exists>db' r. append_v3 sample_world sample_client db 5 sample_request = Inr db' \<and> sample_reached (Suc n) db' \<and>
    db' = db\<lparr>entries := entries db @ [r]\<rparr>"
proof -
  have run: "ledger_run sample_world sample_client sample_signer (\<lambda>m. []) db"
    and short: "int (length (entries db)) < exact_int_limit"
    and time: "\<forall>r \<in> set (entries db). l_time r \<le> 5"
    using assms by (auto simp: sample_reached_def exact_int_limit_def)
  obtain db' where step: "append_v3 sample_world sample_client db 5 sample_request = Inr db'"
    using append_v3_total [OF _ _ sample_encodable sample_forms ledger_run_linked [OF run] short] sample_runtime_laws
    by auto
  note reached = ledger_run.append [OF run sample_request_honest time step]
  obtain eh th p m where db': "db' = db\<lparr>entries := entries db @
      [new_row sample_world sample_client (next_link (entries db)) 5 sample_request eh th p (s_sign sample_signer m, s_key_id sample_signer)]\<rparr>"
    using append_v3_format5 [OF step] by (metis sample_client_fields(1,2))
  have "list_all code_points (row_texts sample_world
      (new_row sample_world sample_client link 5 sample_request eh th p sig))" for link sig
    by (simp add: row_texts_def new_row_def add_v5_def evidence_row_def base_row_def evidence_line_def request_line_def
        request_v5_def ledger_schema_version_def sample_request_def sample_time)
  with reached step assms(1) show ?thesis by (auto simp: sample_reached_def db')
qed

lemma sample_ledger_reached: "n \<le> 100 \<Longrightarrow> sample_reached n (sample_ledger n)"
proof (induction n)
  case 0
  show ?case
    using ledger_run.start by (auto simp: sample_reached_def register_signing_key_def empty_database_def)
next
  case (Suc n)
  then have "sample_reached n (sample_ledger n)" by simp
  from sample_append [OF this] Suc.prems show ?case by auto
qed

definition sample_audit :: "checkpoint_row list \<Rightarrow> audit_request" where
  "sample_audit files =
     \<lparr>trusted_key_ids = [''k''], exported_files = map Some files, tsa_ca = None, has_v5_columns = True,
      has_key_table = True, has_checkpoint_table = True\<rparr>"

lemma sample_audit_fields [simp]:
  "trusted_key_ids (sample_audit fs) = [''k'']" "exported_files (sample_audit fs) = map Some fs"
  "has_v5_columns (sample_audit fs)" "has_key_table (sample_audit fs)"
  by (simp_all add: sample_audit_def)

lemma sample_audits_run:
  "set files \<subseteq> set (export_checkpoints db []) \<Longrightarrow> audits_run sample_signer (\<lambda>m. []) db (sample_audit files)"
  by (auto simp: audits_run_def honest_authority_def sample_audit_def sample_signer_def)

lemma sample_accepted:
  assumes "sample_reached n db" "set files \<subseteq> set (export_checkpoints db [])"
  shows "accepted sample_world (sample_audit files) db"
  using assms(1) sample_audits_run [OF assms(2)]
  by (intro honest_run_accepted [OF _ sample_storage sample_signer_honest]) (auto simp: sample_reached_def)

lemma sample_rows:
  assumes "sample_reached n db"
  shows "audited_rows (sample_audit files) db = entries db" "\<forall>r \<in> set (entries db). chained_row sample_world r"
proof -
  have run: "ledger_run sample_world sample_client sample_signer (\<lambda>m. []) db"
    using assms by (simp add: sample_reached_def)
  show "audited_rows (sample_audit files) db = entries db"
    using by_sequence_linked [OF ledger_run_linked [OF run]] by (simp add: audited_rows_def)
  have "run_invariant sample_world sample_signer (\<lambda>m. [])
      (load_ring (w_crypto sample_world) (Some [(s_key_id sample_signer, s_pem sample_signer)]) []) db"
    by (rule ledger_run_invariant [OF run sample_storage honest_ring [OF sample_signer_honest]]) simp_all
  then show "\<forall>r \<in> set (entries db). chained_row sample_world r"
    using assms by (auto simp: run_invariant_def chained_row_def sample_reached_def)
qed

text \<open>Three entries, a checkpoint of them, and a fourth entry.\<close>

definition sample_step :: "(database \<times> checkpoint_row) option" where
  "sample_step = projr (make_checkpoint sample_world sample_client sample_signer (sample_ledger 3) (ascii ''t'') None)"

definition sample_covered :: database where
  "sample_covered = fst (the sample_step)"

definition sample_checkpoint :: checkpoint_row where
  "sample_checkpoint = snd (the sample_step)"

definition sample_later :: database where
  "sample_later = projr (append_v3 sample_world sample_client sample_covered 5 sample_request)"

lemma sample_fresh: "checkpoints (sample_ledger n) = [] \<or> n > 100"
proof (induction n)
  case 0
  show ?case by (simp add: register_signing_key_def empty_database_def)
next
  case (Suc n)
  show ?case
  proof (cases "n < 100")
    case True
    then have "sample_reached n (sample_ledger n)" by (simp add: sample_ledger_reached)
    from sample_append [OF this True] Suc True show ?thesis by auto
  qed simp
qed

lemma sample_covered_facts:
  "sample_reached 3 sample_covered \<and> entries sample_covered = entries (sample_ledger 3) \<and> checkpoints sample_covered = [sample_checkpoint] \<and>
   c_tenant sample_checkpoint = ascii ''default'' \<and> c_size sample_checkpoint = 3"
proof -
  have r: "sample_reached 3 (sample_ledger 3)" by (simp add: sample_ledger_reached)
  then have run: "ledger_run sample_world sample_client sample_signer (\<lambda>m. []) (sample_ledger 3)"
    and n: "length (entries (sample_ledger 3)) = 3" by (simp_all add: sample_reached_def)
  have none: "checkpoints (sample_ledger 3) = []" using sample_fresh [of 3] by simp
  then have "covered_size (tenant_id sample_client) (sample_ledger 3) < int (length (entries (sample_ledger 3)))"
    by (simp add: covered_size_def max_or_zero_def n)
  then obtain db' cp where step: "make_checkpoint sample_world sample_client sample_signer (sample_ledger 3) (ascii ''t'') None =
      Inr (Some (db', cp))"
    using make_checkpoint_total [where w = sample_world and tsa = None and created = "ascii ''t''", OF _ _ run] n
      sample_runtime_laws sample_sha_length
    by (fastforce simp: exact_int_limit_def)
  then have eq: "sample_covered = db'" "sample_checkpoint = cp"
    by (simp_all add: sample_covered_def sample_checkpoint_def sample_step_def)
  have "ledger_run sample_world sample_client sample_signer (\<lambda>m. []) db'"
    by (rule ledger_run.checkpoint [OF run _ step]) simp
  moreover have "entries db' = entries (sample_ledger 3)" by (rule make_checkpoint_entries [OF step])
  moreover have "checkpoints db' = [cp]"
    using make_checkpoint_issues [OF step ledger_run_linked [OF run], of "\<lambda>m. []"] none by simp
  moreover have "c_tenant cp = ascii ''default'' \<and> c_size cp = 3"
    using step n by (auto simp: make_checkpoint_def by_sequence_def Let_def split: if_splits option.splits sum.splits)
  ultimately show ?thesis using r by (simp add: eq sample_reached_def)
qed

lemma sample_covered_reached:
  "sample_reached 3 sample_covered \<and> checkpoints sample_covered = [sample_checkpoint] \<and>
   c_tenant sample_checkpoint = ascii ''default'' \<and> c_size sample_checkpoint = 3"
  and sample_covered_entries: "entries sample_covered = entries (sample_ledger 3)"
  using sample_covered_facts by blast+

lemma sample_later_reached:
  "sample_reached 4 sample_later \<and> checkpoints sample_later = [sample_checkpoint] \<and>
   signing_keys sample_later = signing_keys sample_covered"
proof -
  from sample_covered_reached have "sample_reached 3 sample_covered" by blast
  from sample_append [OF this] sample_covered_reached show ?thesis by (auto simp: sample_later_def)
qed

lemma sample_same_export: "export_checkpoints sample_later [] = export_checkpoints sample_covered []"
  using sample_covered_reached sample_later_reached by (simp add: export_checkpoints_def)

theorem audit_decides_specification_witness:
  "list_all (row_proved sample_world (ring_of sample_world (sample_audit []) sample_covered)) (entries sample_covered) \<and>
   map l_seq (entries sample_covered) = [1, 2, 3]"
proof -
  have r: "sample_reached 3 sample_covered" using sample_covered_reached by blast
  then have n: "length (entries sample_covered) = 3" by (simp add: sample_reached_def)
  then have "entries sample_covered \<noteq> []" by auto
  from audit_decides_specification [OF this, of sample_world "sample_audit []"] sample_accepted [OF r, of "[]"]
  have "\<forall>i < 3. row_proved sample_world (ring_of sample_world (sample_audit []) sample_covered) (entries sample_covered ! i) \<and>
      l_seq (entries sample_covered ! i) = 1 + int i"
    by (simp add: sample_rows(1) [OF r] n Let_def)
  moreover obtain a b c where "entries sample_covered = [a, b, c]"
    using n by (auto simp: numeral_3_eq_3 length_Suc_conv)
  ultimately show ?thesis by (simp add: numeral_3_eq_3 All_less_Suc)
qed

theorem ledger_head_binds_witness:
  "list_all2 (same_content sample_world) (entries (sample_ledger 3)) (entries sample_covered) \<or>
   sha_collision sample_world (entries (sample_ledger 3)) (entries sample_covered)"
proof -
  have r: "sample_reached 3 (sample_ledger 3)" "sample_reached 3 sample_covered"
    using sample_covered_reached sample_ledger_reached [of 3] by simp_all
  have ne: "entries (sample_ledger 3) \<noteq> []" "entries sample_covered \<noteq> []"
    using r by (auto simp: sample_reached_def)
  have same: "entries (sample_ledger 3) = entries sample_covered" by (rule sample_covered_entries [symmetric])
  show ?thesis
    using ledger_head_binds [of sample_world "sample_audit []" "sample_ledger 3" "sample_audit []" sample_covered]
      sample_accepted [OF r(1), of "[]"] sample_accepted [OF r(2), of "[]"] ne sample_runtime_laws sample_ascii_stable
      sample_rows(2) [OF r(1)] sample_rows(2) [OF r(2)]
    by (simp add: sample_rows(1) [OF r(1)] sample_rows(1) [OF r(2)] same)
qed

theorem exported_checkpoint_binds_witness:
  "\<exists>cp. export_checkpoints sample_covered [] = [cp] \<and> c_size cp = 3 \<and>
     (list_all2 (same_content sample_world) (py_prefix 3 (entries sample_covered)) (py_prefix 3 (entries sample_later)) \<or>
      sha_collision sample_world (entries sample_covered) (entries sample_later))"
proof -
  have r: "sample_reached 3 sample_covered" "sample_reached 4 sample_later"
    using sample_covered_reached sample_later_reached by blast+
  have ne: "entries sample_covered \<noteq> []" "entries sample_later \<noteq> []"
    using r by (auto simp: sample_reached_def)
  obtain cp where cp: "export_checkpoints sample_covered [] = [cp]" "c_size cp = 3"
    using sample_covered_reached by (simp add: export_checkpoints_def)
  have acc: "accepted sample_world (sample_audit [cp]) sample_covered" "accepted sample_world (sample_audit [cp]) sample_later"
    using sample_accepted [OF r(1), of "[cp]"] sample_accepted [OF r(2), of "[cp]"] cp(1) by (simp_all add: sample_same_export)
  have "list_all2 (same_content sample_world) (py_prefix (c_size cp) (entries sample_covered)) (py_prefix (c_size cp) (entries sample_later)) \<or>
      sha_collision sample_world (entries sample_covered) (entries sample_later)"
    using exported_checkpoint_binds [OF _ _ acc ne] sample_runtime_laws sample_ascii_stable
      sample_rows(2) [OF r(1)] sample_rows(2) [OF r(2)]
    by (simp add: sample_rows(1) [OF r(1)] sample_rows(1) [OF r(2)])
  with cp show ?thesis by auto
qed

theorem honest_ledger_is_accepted_witness:
  "accepted sample_world (sample_audit (export_checkpoints sample_covered [])) sample_later"
proof (rule honest_ledger_is_accepted [OF _ sample_storage sample_signer_honest])
  show "ledger_run sample_world sample_client sample_signer (\<lambda>m. []) sample_later"
    using sample_later_reached by (simp add: sample_reached_def)
  show "audits_run sample_signer (\<lambda>m. []) sample_later (sample_audit (export_checkpoints sample_covered []))"
    by (rule sample_audits_run) (simp add: sample_same_export)
qed simp_all

theorem append_never_blocks_witness:
  "\<exists>r db'. append_v3 sample_world sample_client sample_covered 5 sample_request = Inr db' \<and>
     db' = sample_covered\<lparr>entries := entries sample_covered @ [r]\<rparr> \<and> l_seq r = 1 + int (length (entries sample_covered)) \<and>
     ledger_run sample_world sample_client sample_signer (\<lambda>m. []) db'"
  using sample_covered_reached
  by (intro append_never_blocks [OF _ _ _ sample_request_honest sample_encodable sample_forms])
     (auto simp: sample_reached_def sample_runtime_laws exact_int_limit_def)

theorem covered_entry_has_receipt_witness:
  "\<exists>r hashes path cp'. evidence sample_client sample_later (1 + int 1) = Some (r, Some hashes) \<and>
     r = entries sample_later ! 1 \<and> cp' \<in> set (checkpoints sample_later) \<and> c_size cp' = int (length hashes) \<and>
     c_size cp' \<le> c_size sample_checkpoint \<and> hashes ! 1 = l_hash r \<and> merkle_root (w_sha sample_world) hashes = Some (c_root cp') \<and>
     inclusion_proof (w_sha sample_world) hashes (int 1) = Inr path \<and>
     verify_inclusion (w_sha sample_world) (l_hash r) (int 1) (int (length hashes)) path (c_root cp') = Some True"
  using sample_later_reached sample_covered_reached
  by (intro covered_entry_has_receipt [where w = sample_world])
     (auto simp: sample_reached_def sample_sha_length)

definition sample_plain_request :: append_request where
  "sample_plain_request = append_request.truncate sample_request"

lemma sample_plain_append:
  "\<exists>cl1 db1. append_entry sample_world sample_client empty_database 5 sample_plain_request = (cl1, False, Inr db1) \<and>
     linked (entries db1) \<and> length (entries db1) = 1 \<and> format5 cl1 \<and> tenant_id cl1 = ascii ''default'' \<and>
     key_signer cl1 = Some sample_signer"
proof -
  have link: "next_link (entries empty_database) = (1, genesis_hash)"
    by (simp add: empty_database_def next_link_def head_row_def)
  let ?line = "request_line sample_world (1, genesis_hash) 5 sample_plain_request"
  have "\<forall>m \<in> set (v3_members ?line). plain_member m"
    using encodable_texts [OF sample_encodable]
    by (simp add: v3_members_def request_line_def sample_plain_request_def append_request.truncate_def exact_int_limit_def)
  then obtain p where p: "canonical_entry_payload ?line = Inr p"
    using dumps_sorted_unicode [of "v3_members ?line"] by (auto simp: canonical_entry_payload_def Let_def)
  define r where "r = base_row 5 (hexdigest sample_world p) ?line"
  have "append_entry sample_world sample_client empty_database 5 sample_plain_request =
      (sample_client\<lparr>expected_next_seq := Some 2\<rparr>, False, Inr (empty_database\<lparr>entries := [r]\<rparr>))"
    using p unfolding append_entry_def link Let_def by (simp add: r_def sample_client_def) (simp add: empty_database_def)
  moreover have "linked [r]"
    by (simp add: linked_def link_at_def r_def base_row_def request_line_def)
  ultimately show ?thesis by simp
qed

theorem append_v3_trips_the_wire_witness:
  "\<exists>cl1 db1 db2. append_entry sample_world sample_client empty_database 5 sample_plain_request = (cl1, False, Inr db1) \<and>
     append_v3 sample_world cl1 db1 5 sample_request = Inr db2 \<and>
     fst (snd (append_entry sample_world cl1 db2 5 sample_plain_request)) = True"
proof -
  obtain cl1 db1 where first: "append_entry sample_world sample_client empty_database 5 sample_plain_request = (cl1, False, Inr db1)"
    and db1: "linked (entries db1)" "length (entries db1) = 1" and cl1: "format5 cl1" "tenant_id cl1 = ascii ''default''"
    using sample_plain_append by blast
  have "encodable sample_world cl1 5 sample_request"
    using sample_encodable cl1(2) by (simp add: encodable_def request_texts_def)
  then obtain db2 where second: "append_v3 sample_world cl1 db1 5 sample_request = Inr db2"
    using append_v3_total [OF _ cl1(1) _ sample_forms db1(1)] db1(2) sample_runtime_laws by (auto simp: exact_int_limit_def)
  have "linked (entries empty_database)" by (simp add: empty_database_def linked_def)
  from append_v3_trips_the_wire [OF this first second] first second show ?thesis by blast
qed

end
