(* ===== verification/Transcript.thy ===== *)
theory Transcript
  imports Ledger Evaluation
begin

text \<open>
  The signed transcript of one evaluation: the canonical prompt (\<open>PROMPT_TEMPLATE\<close> and
  \<open>_render_canonical_prompt\<close> of \<open>ski_model/v3/evaluator.py\<close>), the hashes and the signed message
  (\<open>ski_schemas/transcript.py\<close>), \<open>_build_transcript\<close>, and the recovery of the inputs from a stored prompt
  (\<open>recover_prompt_inputs\<close> of \<open>audit_ledger/replay.py\<close>).

  \<open>json.dumps\<close> is modelled on the values that JSON text holds; the text of a double is the \<open>repr\<close> of the
  parameter \<open>runtime\<close>. \<open>json.loads\<close> is a parameter of the recovery.
\<close>

section \<open>json.dumps\<close>

fun json_of :: "py \<Rightarrow> json"
  and json_items :: "py list \<Rightarrow> json list"
  and json_members :: "obj \<Rightarrow> (ustr option \<times> json) list"
where
  "json_of PyNone = JNull"
| "json_of (PyBool b) = JBool b"
| "json_of (PyInt i) = JInt i"
| "json_of (PyFloat x) = JFloat x"
| "json_of (PyStr s) = JStr (ascii s)"
| "json_of (PyList xs) = JArr (json_items xs)"
| "json_of (PyTuple xs) = JArr (json_items xs)"
| "json_of (PyDict d) = JObj (json_members d)"
| "json_items [] = []"
| "json_items (x # xs) = json_of x # json_items xs"
| "json_members [] = []"
| "json_members ((k, v) # d) = (Some (ascii k), json_of v) # json_members d"

fun join :: "ustr \<Rightarrow> ustr list \<Rightarrow> ustr" where
  "join sep [] = []"
| "join sep [t] = t"
| "join sep (t # ts) = t @ sep @ join sep ts"

definition float_text :: "runtime \<Rightarrow> pyfloat \<Rightarrow> ustr" where
  "float_text rt x =
     (case x of
        Fin q \<Rightarrow> if q < 0 then 45 # repr_text rt (- q) else repr_text rt q
      | NaN \<Rightarrow> ascii ''NaN''
      | PosInf \<Rightarrow> ascii ''Infinity''
      | NegInf \<Rightarrow> ascii ''-Infinity'')"

text \<open>
  With \<open>ensure_ascii=False\<close>; \<open>tight\<close> is \<open>sort_keys=True, separators=(",", ":")\<close>, otherwise the defaults.
  \<open>JOther\<close> does not arise: no \<open>py\<close> value becomes one.
\<close>

definition item_separator :: "bool \<Rightarrow> ustr" where
  "item_separator tight = (if tight then [44] else [44, 32])"

definition name_separator :: "bool \<Rightarrow> ustr" where
  "name_separator tight = (if tight then [58] else [58, 32])"

definition ordered_members :: "bool \<Rightarrow> (ustr \<times> ustr) list \<Rightarrow> (ustr \<times> ustr) list" where
  "ordered_members tight ms = (if tight then sort_key fst ms else ms)"

definition object_text :: "bool \<Rightarrow> (ustr \<times> ustr) list \<Rightarrow> ustr" where
  "object_text tight ms =
     [123] @ join (item_separator tight)
       (map (\<lambda>(n, t). quote_text n @ name_separator tight @ t) (ordered_members tight ms)) @ [125]"

fun dumps :: "runtime \<Rightarrow> bool \<Rightarrow> json \<Rightarrow> ustr"
  and dumps_items :: "runtime \<Rightarrow> bool \<Rightarrow> json list \<Rightarrow> ustr list"
  and dumps_members :: "runtime \<Rightarrow> bool \<Rightarrow> (ustr option \<times> json) list \<Rightarrow> (ustr \<times> ustr) list"
where
  "dumps rt tight JNull = ascii ''null''"
| "dumps rt tight (JBool b) = (if b then ascii ''true'' else ascii ''false'')"
| "dumps rt tight (JInt i) = int_text i"
| "dumps rt tight (JFloat x) = float_text rt x"
| "dumps rt tight (JStr t) = quote_text t"
| "dumps rt tight (JArr xs) = [91] @ join (item_separator tight) (dumps_items rt tight xs) @ [93]"
| "dumps rt tight (JObj ms) = object_text tight (dumps_members rt tight ms)"
| "dumps rt tight JOther = []"
| "dumps_items rt tight [] = []"
| "dumps_items rt tight (x # xs) = dumps rt tight x # dumps_items rt tight xs"
| "dumps_members rt tight [] = []"
| "dumps_members rt tight ((n, x) # ms) =
     (case n of None \<Rightarrow> [] | Some t \<Rightarrow> t, dumps rt tight x) # dumps_members rt tight ms"

section \<open>The canonical prompt\<close>

text \<open>
  The template as \<open>str.format\<close> reads it (a doubled brace is one brace), cut at the list of node ids: the
  lines before it and the lines between it and the measurement.
\<close>

definition prompt_head :: "string list" where
  \<open>prompt_head =
     [''You are a regulatory compliance evaluator for the SKI Framework v3.'',
      '''',
      ''You receive:'',
      ''  1. A measurement record (the data being evaluated).'',
      ''  2. A Knowledge Graph snapshot of applicable regulatory obligations,'',
      ''     scoped to the measurement's jurisdiction and effective date.'',
      '''',
      ''Produce a structured verdict envelope per the schema below.'',
      '''',
      ''RULES (non-negotiable):'',
      ''  * Cite ONLY node ids from this exact list - any other id voids your'',
      ''    verdict: '']\<close>

definition prompt_rules :: "string list" where
  \<open>prompt_rules =
     ['''',
      ''  * Copy node ids character-for-character. Do not invent, shorten, or'',
      ''    rename them.'',
      ''  * Every formalizable_assertion you emit must reference a specific'',
      ''    KG obligation by ID. The Symbolic Verifier mechanically checks them.'',
      ''  * In assertions, "value" and "observed" are BARE scalars (or, for'',
      ''    range obligations like must_be_within, "value" is the two-element'',
      ''    array [min, max]). NEVER objects: write 7.2, not {"value": 7.2};'',
      ''    write [6.5, 8.5], not {"min": 6.5, "max": 8.5}.'',
      ''  * The KG snapshot is ALREADY scoped: every obligation in it is in'',
      ''    force for this measurement's jurisdiction and date. Do NOT re-check'',
      ''    jurisdictions or effective dates - the framework did that. A past'',
      ''    effective_date means the rule IS in force.'',
      ''  * An obligation MAPS to the measurement when its "metric" field'',
      ''    equals a key in MEASUREMENT. If it maps, you MUST evaluate it and'',
      ''    emit a formalizable_assertion - never NULL_UNMAPPED.'',
      ''  * Verdict MUST be one of: CLEAR, FLAG, NULL_UNMAPPED, NULL_STALE,'',
      ''    DISCRETIONARY.'',
      ''  * NULL_UNMAPPED: NO obligation's "metric" matches ANY measurement key.'',
      ''  * NULL_STALE: the telemetry itself is stale or missing (silent'',
      ''    sensor). It is NEVER about rule dates.'',
      ''  * FLAG: a mapped obligation is breached. Compute carefully, digit by'',
      ''    digit, before setting "satisfied":'',
      ''      - must_not_exceed: satisfied iff observed <= value. EQUAL IS'',
      ''        SATISFIED: observed 100 against value 100 is CLEAR, not FLAG.'',
      ''      - must_be_at_least: satisfied iff observed >= value.'',
      ''      - must_be_within [lo, hi]: satisfied iff lo <= observed AND'',
      ''        observed <= hi. Boundaries are inclusive. 5.4 is NOT within'',
      ''        [6.0, 8.5]; 8.6 is NOT within [6.0, 8.5].'',
      ''  * "observed" MUST be copied exactly from MEASUREMENT - the verifier'',
      ''    cross-checks it against the record and rejects invented readings.'',
      ''  * CLEAR: every mapped obligation is satisfied.'',
      ''  * DISCRETIONARY: a mapped obligation requires qualified human'',
      ''    judgment that numbers alone cannot settle.'',
      '''',
      ''  Worked example: MEASUREMENT {"so2_ppm": 85}; obligation'',
      ''  {"id": "x.so2", "metric": "so2_ppm", "predicate": "must_not_exceed",'',
      ''  "value": 100} -> metric matches, 85 <= 100 -> verdict CLEAR, one'',
      ''  assertion: {"predicate": "must_not_exceed", "metric": "so2_ppm",'',
      ''  "value": 100, "observed": 85, "satisfied": true,'',
      ''  "obligation_id": "x.so2"}.'',
      '''',
      ''OUTPUT (strict JSON, no other prose):'',
      ''  {'',
      ''    "verdict": "<one of the five>",'',
      ''    "reasoning": "<one paragraph>",'',
      ''    "kg_citations": ['',
      ''      {"node_id": "...", "version": "...",'',
      ''        "role": "obligation|definition_resolved|exemption_considered|precedent_referenced|jurisdiction_matched"}'',
      ''    ],'',
      ''    "formalizable_assertions": ['',
      ''      {"predicate": "...", "metric": "...", "value": ...,'',
      ''        "observed": ..., "satisfied": true|false, "obligation_id": "..."}'',
      ''    ]'',
      ''  }'',
      '''',
      ''MEASUREMENT:'',
      '''']\<close>

definition prompt_lines :: "string list \<Rightarrow> ustr" where
  "prompt_lines ls = join [10] (map ascii ls)"

definition snapshot_marker :: ustr where
  "snapshot_marker = [10] @ ascii ''KG SNAPSHOT:'' @ [10]"

definition measurement_marker :: ustr where
  "measurement_marker = [10] @ ascii ''MEASUREMENT:'' @ [10]"

text \<open>
  The sorted ids. Ids that are not all texts are an error here: Python sorts a set of numbers too, but no
  loaded Knowledge Graph has one.
\<close>

definition prompt_ids :: "obj \<Rightarrow> Evaluator.crash + string list" where
  "prompt_ids snap =
     (let ids = valid_node_ids snap in
      if list_all is_str ids then Inr (sort (remdups (List.map_filter str_of ids))) else Inl TypeError)"

definition template_text :: "ustr \<Rightarrow> ustr \<Rightarrow> ustr \<Rightarrow> ustr" where
  "template_text ids measurement_json kg_snapshot_json =
     prompt_lines prompt_head @ ids @ prompt_lines prompt_rules @ measurement_json @ [10] @
     snapshot_marker @ kg_snapshot_json @ [10]"

definition render_canonical_prompt :: "runtime \<Rightarrow> obj \<Rightarrow> obj \<Rightarrow> Evaluator.crash + ustr" where
  "render_canonical_prompt rt m snap =
     map_sum id (\<lambda>ids. template_text (dumps rt False (JArr (map (\<lambda>i. JStr (ascii i)) ids)))
         (dumps rt True (json_of (PyDict m))) (dumps rt True (json_of (PyDict snap))))
       (prompt_ids snap)"

section \<open>The transcript\<close>

record transcript =
  t_id :: string
  t_request :: ustr
  t_request_hash :: string
  t_response :: obj
  t_response_hash :: string
  t_signature :: string
  t_key_id :: string
  t_backend :: string
  t_started :: ustr
  t_completed :: ustr

definition canonical_request :: "ustr \<Rightarrow> bytes" where
  "canonical_request request_text = utf8 request_text"

definition canonical_response :: "runtime \<Rightarrow> obj \<Rightarrow> bytes" where
  "canonical_response rt response = utf8 (dumps rt True (json_of (PyDict response)))"

definition sha256_label :: "world \<Rightarrow> bytes \<Rightarrow> string" where
  "sha256_label w b = ''sha256:'' @ hexdigest w b"

definition hash_pair :: "world \<Rightarrow> ustr \<Rightarrow> obj \<Rightarrow> string \<times> string" where
  "hash_pair w request_text response =
     (sha256_label w (canonical_request request_text),
      sha256_label w (canonical_response (w_runtime w) response))"

definition signing_message :: "string \<Rightarrow> string \<Rightarrow> bytes" where
  "signing_message request_hash response_hash = utf8 (ascii (request_hash @ ''|'' @ response_hash))"

text \<open>\<open>self.llm.name\<close> raises where the backend has no name.\<close>

definition build_transcript ::
  "world \<Rightarrow> signer option \<Rightarrow> string \<Rightarrow> string option \<Rightarrow> ustr \<Rightarrow> obj \<Rightarrow> ustr \<Rightarrow> ustr
     \<Rightarrow> Evaluator.crash + transcript option" where
  "build_transcript w sg uuid backend prompt response started completed =
     (case sg of
        None \<Rightarrow> Inr None
      | Some s \<Rightarrow>
          (let (req_hash, resp_hash) = hash_pair w prompt response in
           case backend of
             None \<Rightarrow> Inl AttributeError
           | Some name \<Rightarrow>
               Inr (Some \<lparr>t_id = uuid, t_request = prompt, t_request_hash = req_hash, t_response = response,
                 t_response_hash = resp_hash, t_signature = s_sign s (signing_message req_hash resp_hash),
                 t_key_id = s_key_id s, t_backend = name, t_started = started, t_completed = completed\<rparr>)))"

text \<open>\<open>json.dumps(transcript.model_dump(mode="json"), ensure_ascii=False)\<close>: the fields in order of declaration.\<close>

definition transcript_text :: "runtime \<Rightarrow> transcript \<Rightarrow> ustr" where
  "transcript_text rt t =
     dumps rt False (JObj
       [member ''transcript_id'' (JStr (ascii (t_id t))),
        member ''request_canonical'' (JStr (t_request t)),
        member ''request_hash'' (JStr (ascii (t_request_hash t))),
        member ''response_canonical'' (json_of (PyDict (t_response t))),
        member ''response_hash'' (JStr (ascii (t_response_hash t))),
        member ''signature_hex'' (JStr (ascii (t_signature t))),
        member ''signing_key_id'' (JStr (ascii (t_key_id t))),
        member ''backend_name'' (JStr (ascii (t_backend t))),
        member ''backend_metadata'' (JObj []),
        member ''started_at'' (JStr (t_started t)),
        member ''completed_at'' (JStr (t_completed t))])"

section \<open>Evaluation with its transcript\<close>

record evaluation_result =
  er_envelope :: envelope
  er_transcript :: "transcript option"

text \<open>The wall clock and \<open>uuid4\<close> of one evaluation.\<close>

record call_context =
  cx_uuid :: string
  cx_started :: ustr
  cx_completed :: ustr

definition aevaluate_with_transcript ::
  "world \<Rightarrow> contract \<Rightarrow> string option \<Rightarrow> evaluator \<Rightarrow> signer option \<Rightarrow> call_context \<Rightarrow> ustr \<Rightarrow> obj \<Rightarrow> obj \<Rightarrow> py
     \<Rightarrow> string option \<Rightarrow> int option \<Rightarrow> telemetry_source option \<Rightarrow> obj \<Rightarrow> Evaluator.crash + evaluation_result" where
  "aevaluate_with_transcript w k env ev sg cx prompt m snap tier subject as_of buffer raw =
     (case build_transcript w sg (cx_uuid cx) (backend_name (ev_llm ev)) prompt raw (cx_started cx) (cx_completed cx) of
        Inl c \<Rightarrow> Inl c
      | Inr t \<Rightarrow>
          map_sum id (\<lambda>e. \<lparr>er_envelope = e, er_transcript = t\<rparr>)
            (aevaluate k env ev (transcript_reference None (map_option t_id t)) m snap tier subject as_of buffer raw))"

section \<open>Recovering the inputs\<close>

text \<open>\<open>t.partition(sep)\<close>: the text before and after the first occurrence, if there is one.\<close>

fun partition_at :: "ustr \<Rightarrow> ustr \<Rightarrow> (ustr \<times> ustr) option" where
  "partition_at sep t =
     (if take (length sep) t = sep then Some ([], drop (length sep) t)
      else (case t of [] \<Rightarrow> None
        | c # cs \<Rightarrow> map_option (\<lambda>(h, r). (c # h, r)) (partition_at sep cs)))"

declare partition_at.simps [simp del]

definition space_code :: "nat \<Rightarrow> bool" where
  "space_code n = ((9 \<le> n \<and> n \<le> 13) \<or> (28 \<le> n \<and> n \<le> 32))"

definition text_strip :: "ustr \<Rightarrow> ustr" where
  "text_strip t = rev (dropWhile space_code (rev (dropWhile space_code t)))"

datatype recovery_error = NoSections | NotJson | NotObjects

definition recover_prompt_inputs ::
  "(ustr \<Rightarrow> json option) \<Rightarrow> ustr \<Rightarrow> recovery_error + (ustr option \<times> json) list \<times> (ustr option \<times> json) list" where
  "recover_prompt_inputs loads request =
     (case partition_at measurement_marker request of
        None \<Rightarrow> Inl NoSections
      | Some (_, rest) \<Rightarrow>
          (case partition_at snapshot_marker rest of
             None \<Rightarrow> Inl NoSections
           | Some (measurement_line, snapshot_text) \<Rightarrow>
               (case (loads (text_strip measurement_line), loads (text_strip snapshot_text)) of
                  (Some (JObj m), Some (JObj s)) \<Rightarrow> Inr (m, s)
                | (None, _) \<Rightarrow> Inl NotJson
                | (_, None) \<Rightarrow> Inl NotJson
                | _ \<Rightarrow> Inl NotObjects)))"

section \<open>No line break inside JSON text\<close>

lemma join_single_line: "10 \<notin> set sep \<Longrightarrow> \<forall>t \<in> set ts. 10 \<notin> set t \<Longrightarrow> 10 \<notin> set (join sep ts)"
  by (induction sep ts rule: join.induct) auto

lemma nat_text_single_line: "10 \<notin> set (nat_text n)"
proof (induction n rule: nat_text.induct)
  case (1 n)
  then show ?case by (subst nat_text.simps) auto
qed

lemma quote_text_single_line: "10 \<notin> set (quote_text t)"
proof -
  have "10 \<notin> set (escape_char c)" for c
    by (auto simp: escape_char_def short_escapes_def hex_code_def split: option.split)
  then show ?thesis by (auto simp: quote_text_def)
qed

lemma object_text_single_line: "\<forall>p \<in> set ms. 10 \<notin> set (snd p) \<Longrightarrow> 10 \<notin> set (object_text tight ms)"
proof -
  assume ms: "\<forall>p \<in> set ms. 10 \<notin> set (snd p)"
  have "set (ordered_members tight ms) = set ms" by (simp add: ordered_members_def)
  with ms have "10 \<notin> set (join (item_separator tight)
      (map (\<lambda>(n, t). quote_text n @ name_separator tight @ t) (ordered_members tight ms)))"
    by (intro join_single_line) (auto simp: item_separator_def name_separator_def quote_text_single_line)
  then show ?thesis by (simp add: object_text_def)
qed

definition repr_single_line :: "runtime \<Rightarrow> bool" where
  "repr_single_line rt \<longleftrightarrow> (\<forall>q. 10 \<notin> set (repr_text rt q))"

lemma number_text_single_line: "10 \<notin> set (int_text i)" "repr_single_line rt \<Longrightarrow> 10 \<notin> set (float_text rt x)"
  using nat_text_single_line
  by (auto simp: int_text_def float_text_def repr_single_line_def ascii_def split: pyfloat.split)

lemma dumps_single_line:
  assumes "repr_single_line rt"
  shows "10 \<notin> set (dumps rt tight j)" and "\<forall>t \<in> set (dumps_items rt tight xs). 10 \<notin> set t"
    and "\<forall>p \<in> set (dumps_members rt tight ms). 10 \<notin> set (snd p)"
  using assms
proof (induction rt tight j and rt tight xs and rt tight ms rule: dumps_dumps_items_dumps_members.induct)
  case (6 rt tight xs)
  then have "10 \<notin> set (join (item_separator tight) (dumps_items rt tight xs))"
    by (intro join_single_line) (simp_all add: item_separator_def)
  then show ?case by simp
qed (simp_all add: ascii_def quote_text_single_line object_text_single_line number_text_single_line)

section \<open>The first line that is a marker\<close>

definition lines_after :: "ustr list \<Rightarrow> ustr" where
  "lines_after ls = concat (map (\<lambda>l. 10 # l) ls)"

lemma join_lines: "join [10] (l # ls) = l @ lines_after ls"
proof (induction ls arbitrary: l)
  case (Cons k ls)
  show ?case using Cons [of k] by (simp add: lines_after_def)
qed (simp add: lines_after_def)

lemma partition_skip:
  assumes "10 \<notin> set a"
  shows "partition_at (10 # m) (a @ t) = map_option (\<lambda>(h, r). (a @ h, r)) (partition_at (10 # m) t)"
  using assms
proof (induction a)
  case (Cons c cs)
  then show ?case
    by (subst partition_at.simps) (simp add: option.map_comp comp_def case_prod_beta')
qed (simp add: case_prod_beta' option.map_ident)

lemma line_differs:
  assumes "10 \<notin> set m" "10 \<notin> set l" "l \<noteq> m"
  shows "take (length (m @ [10])) (l @ 10 # t) \<noteq> m @ [10]"
proof
  assume eq: "take (length (m @ [10])) (l @ 10 # t) = m @ [10]"
  then have pre: "m @ [10] @ drop (length (m @ [10])) (l @ 10 # t) = l @ 10 # t"
    by (metis append.assoc append_take_drop_id)
  have "takeWhile (\<lambda>c. c \<noteq> 10) (m @ [10] @ u) = m" for u
    using assms(1) by (subst takeWhile_append2) auto
  moreover have "takeWhile (\<lambda>c. c \<noteq> 10) (l @ 10 # t) = l"
    using assms(2) by (subst takeWhile_append2) auto
  ultimately show False using pre assms(3) by metis
qed

lemma partition_marker_line:
  assumes "10 \<notin> set a" "10 \<notin> set m" "\<forall>l \<in> set ls. 10 \<notin> set l \<and> l \<noteq> m"
  shows "partition_at (10 # m @ [10]) (a @ lines_after ls @ 10 # m @ 10 # b) = Some (a @ lines_after ls, b)"
proof -
  have "partition_at (10 # m @ [10]) (lines_after ls @ 10 # m @ 10 # b) = Some (lines_after ls, b)"
    using assms(3)
  proof (induction ls)
    case Nil
    show ?case by (subst partition_at.simps) (simp add: lines_after_def)
  next
    case (Cons l ls)
    then have l: "10 \<notin> set l" "l \<noteq> m" by auto
    let ?rest = "lines_after ls @ 10 # m @ 10 # b"
    obtain u where u: "?rest = 10 # u" by (cases ls) (auto simp: lines_after_def)
    have "take (length (10 # m @ [10])) (10 # l @ ?rest) \<noteq> 10 # m @ [10]"
      using line_differs [OF assms(2) l, of u] unfolding u by simp
    then have "partition_at (10 # m @ [10]) (10 # l @ ?rest) =
        map_option (\<lambda>(h, r). (10 # h, r)) (partition_at (10 # m @ [10]) (l @ ?rest))"
      by (subst partition_at.simps) simp
    also have "partition_at (10 # m @ [10]) (l @ ?rest) = Some (l @ lines_after ls, b)"
      using Cons l(1) by (simp add: partition_skip)
    finally show ?case by (simp add: lines_after_def)
  qed
  then show ?thesis using assms(1) by (simp add: partition_skip)
qed

section \<open>The template\<close>

definition marker_free :: "string \<Rightarrow> bool" where
  "marker_free l = (l \<noteq> ''MEASUREMENT:'' \<and> CHR 0x0A \<notin> set l)"

lemma marker_free_code: "marker_free l \<Longrightarrow> 10 \<notin> set (ascii l) \<and> ascii l \<noteq> ascii ''MEASUREMENT:''"
proof -
  assume free: "marker_free l"
  have inj: "inj (of_char :: char \<Rightarrow> nat)" by (simp add: inj_on_def)
  then have "ascii l = ascii k \<longleftrightarrow> l = k" for k unfolding ascii_def by (simp add: inj_map_eq_map)
  moreover have "10 = (of_char (CHR 0x0A) :: nat)" by simp
  then have "10 \<notin> set (ascii l)"
    using free inj unfolding marker_free_def ascii_def by (metis image_set inj_image_mem_iff)
  ultimately show ?thesis using free unfolding marker_free_def by blast
qed

lemma template_lines:
  "list_all marker_free (prompt_head @ take (length prompt_rules - 2) prompt_rules)"
  "drop (length prompt_rules - 2) prompt_rules = [''MEASUREMENT:'', []]"
  "prompt_head \<noteq> []" "hd (last prompt_head) = CHR '' ''" "last prompt_head \<noteq> []" "length prompt_rules > 2" "length prompt_head > 1"
  by code_simp+

lemma prompt_lines_split:
  "prompt_lines (h # hs @ [l]) @ ids @ prompt_lines (r # rs @ [k, []]) @ t =
   ascii h @ lines_after (map ascii hs @ [ascii l @ ids @ ascii r] @ map ascii rs) @ 10 # ascii k @ 10 # t"
proof -
  have "ascii [] = []" by (simp add: ascii_def)
  then show ?thesis unfolding prompt_lines_def list.map map_append join_lines by (simp add: lines_after_def)
qed

lemma strip_object_text:
  assumes "t = [123] @ u @ [125]"
  shows "text_strip (t @ [10]) = t"
  by (simp add: assms text_strip_def space_code_def)

lemma dumps_object: "dumps rt True (json_of (PyDict m)) = [123] @ join [44] (map (\<lambda>(n, t). quote_text n @ [58] @ t)
    (ordered_members True (dumps_members rt True (json_members m)))) @ [125]"
  by (simp add: object_text_def item_separator_def name_separator_def)

lemma template_recovered:
  assumes "10 \<notin> set ids" "10 \<notin> set mj"
  shows "partition_at measurement_marker (template_text ids mj sj) =
      Some (prompt_lines prompt_head @ ids @ prompt_lines (take (length prompt_rules - 2) prompt_rules),
        mj @ [10] @ snapshot_marker @ sj @ [10])"
    and "partition_at snapshot_marker (mj @ [10] @ snapshot_marker @ sj @ [10]) = Some (mj @ [10], sj @ [10])"
proof -
  let ?k = "''MEASUREMENT:''"
  define R where "R = take (length prompt_rules - 2) prompt_rules"
  have rules: "prompt_rules = R @ [?k, []]"
    using template_lines(2) unfolding R_def by (metis append_take_drop_id)
  have "length prompt_rules = length R + 2" by (subst rules) simp
  then have "R \<noteq> []" using template_lines(6) by force
  then obtain r rs where R: "R = r # rs" by (cases R) auto
  obtain hs' l where head: "prompt_head = hs' @ [l]" using template_lines(3) by (meson rev_exhaust)
  have "length prompt_head = length hs' + 1" by (subst head) simp
  then have "hs' \<noteq> []" using template_lines(7) by force
  then obtain h hs where hs': "hs' = h # hs" by (cases hs') auto
  have "last prompt_head = l" by (simp add: head)
  then have l: "l \<noteq> []" "hd l = CHR '' ''" using template_lines(4,5) by metis+
  have "list_all marker_free ((h # hs @ [l]) @ R)"
    using template_lines(1) unfolding R_def [symmetric] head hs' by simp
  then have free: "\<forall>x \<in> set (h # hs @ [l] @ R). marker_free x" by (simp add: list_all_iff)
  let ?lines = "map ascii hs @ [ascii l @ ids @ ascii r] @ map ascii rs"
  have "ascii l @ ids @ ascii r \<noteq> ascii ?k" using l by (cases l) (auto simp: ascii_def)
  with free assms(1) have "\<forall>x \<in> set ?lines. 10 \<notin> set x \<and> x \<noteq> ascii ?k"
    using marker_free_code R by auto
  moreover have "10 \<notin> set (ascii h)" using free marker_free_code by simp
  moreover have "10 \<notin> set (ascii ?k)" by (simp add: ascii_def)
  ultimately have found: "partition_at (10 # ascii ?k @ [10]) (ascii h @ lines_after ?lines @ 10 # ascii ?k @ 10 # t) =
      Some (ascii h @ lines_after ?lines, t)" for t
    by (intro partition_marker_line)
  have whole: "template_text ids mj sj =
      ascii h @ lines_after ?lines @ 10 # ascii ?k @ 10 # (mj @ [10] @ snapshot_marker @ sj @ [10])"
    unfolding template_text_def head hs' rules R append_Cons prompt_lines_split by simp
  have before: "prompt_lines (h # hs @ [l]) @ ids @ prompt_lines (r # rs) = ascii h @ lines_after ?lines"
    unfolding prompt_lines_def list.map map_append join_lines by (simp add: lines_after_def)
  show "partition_at measurement_marker (template_text ids mj sj) =
      Some (prompt_lines prompt_head @ ids @ prompt_lines (take (length prompt_rules - 2) prompt_rules),
        mj @ [10] @ snapshot_marker @ sj @ [10])"
    unfolding whole measurement_marker_def R_def [symmetric]
    using found before by (simp add: head hs' R)
  have "partition_at (10 # ascii ''KG SNAPSHOT:'' @ [10]) (mj @ lines_after [[]] @ 10 # ascii ''KG SNAPSHOT:'' @ 10 # (sj @ [10])) =
      Some (mj @ lines_after [[]], sj @ [10])"
    using assms(2) by (intro partition_marker_line) (simp_all add: ascii_def)
  then show "partition_at snapshot_marker (mj @ [10] @ snapshot_marker @ sj @ [10]) = Some (mj @ [10], sj @ [10])"
    by (simp add: snapshot_marker_def lines_after_def)
qed

section \<open>Properties\<close>

text \<open>
  Property C29. An auditor recovers from a stored prompt exactly the inputs it was rendered from: the two
  sections that \<open>recover_prompt_inputs\<close> cuts out, at the first marker lines, are the canonical texts of the
  measurement and of the snapshot, whatever they contain. No text in them can imitate a marker.
\<close>

theorem prompt_inputs_recovered:
  assumes "render_canonical_prompt rt m snap = Inr prompt" "repr_single_line rt"
    and "loads (dumps rt True (json_of (PyDict m))) = Some (JObj m')"
    and "loads (dumps rt True (json_of (PyDict snap))) = Some (JObj snap')"
  shows "recover_prompt_inputs loads prompt = Inr (m', snap')"
proof -
  define mj where "mj = dumps rt True (json_of (PyDict m))"
  define sj where "sj = dumps rt True (json_of (PyDict snap))"
  obtain ids where prompt: "prompt = template_text (dumps rt False (JArr (map (\<lambda>i. JStr (ascii i)) ids))) mj sj"
    using assms(1) by (auto simp: render_canonical_prompt_def mj_def sj_def map_sum_def split: sum.splits)
  define idt where "idt = dumps rt False (JArr (map (\<lambda>i. JStr (ascii i)) ids))"
  have "10 \<notin> set idt" "10 \<notin> set mj"
    unfolding idt_def mj_def by (rule dumps_single_line(1) [OF assms(2)])+
  note cut = template_recovered [OF this, of sj]
  have "text_strip (mj @ [10]) = mj" "text_strip (sj @ [10]) = sj"
    unfolding mj_def sj_def by (rule strip_object_text, rule dumps_object)+
  moreover have "loads mj = Some (JObj m')" "loads sj = Some (JObj snap')"
    using assms(3,4) unfolding mj_def sj_def by this+
  ultimately show ?thesis
    unfolding recover_prompt_inputs_def prompt idt_def [symmetric] by (simp only: cut option.case prod.case sum.case json.case)
qed

definition sample_measurement :: obj where
  "sample_measurement = [(''nox'', PyInt 40)]"

definition sample_loads :: "ustr \<Rightarrow> json option" where
  "sample_loads t =
     (let known = [PyDict sample_measurement, PyDict (sample_snapshot ''nox'')]
      in map_option (normal \<circ> json_of) (find (\<lambda>v. dumps sample_runtime True (json_of v) = t) known))"

theorem prompt_inputs_recovered_witness:
  "\<exists>prompt m' snap'. render_canonical_prompt sample_runtime sample_measurement (sample_snapshot ''nox'') = Inr prompt \<and>
     recover_prompt_inputs sample_loads prompt = Inr (m', snap')"
proof -
  have "repr_single_line sample_runtime"
    using nat_text_single_line by (simp add: repr_single_line_def sample_runtime_def)
  moreover have "\<exists>prompt. render_canonical_prompt sample_runtime sample_measurement (sample_snapshot ''nox'') = Inr prompt"
    by (simp add: render_canonical_prompt_def prompt_ids_def valid_node_ids_def snapshot_obligations_def
        snapshot_definitions_def sample_snapshot_def dget_default_def map_filter_simps)
  moreover have "\<exists>m'. sample_loads (dumps sample_runtime True (json_of (PyDict sample_measurement))) = Some (JObj m')"
    by (simp add: sample_loads_def)
  moreover have "\<exists>s'. sample_loads (dumps sample_runtime True (json_of (PyDict (sample_snapshot ''nox'')))) = Some (JObj s')"
    by (simp add: sample_loads_def)
  ultimately show ?thesis
    using prompt_inputs_recovered [of sample_runtime sample_measurement "sample_snapshot ''nox''"] by blast
qed

end
