(* ===== verification/Flat_Graph.thy ===== *)
theory Flat_Graph
  imports KG_Loader Transcript Ledger_Properties
begin

text \<open>
  The one graph shape of the framework (\<open>ski_schemas/kg_graph.py\<close>): the version hash of a Knowledge Graph
  and the conversion of the earlier flat shape.

  Sets of ids are lists without duplicates. A jurisdiction that is no text is refused here at once; the
  source builds a node or an edge from it that the compiler refuses, or raises. \<open>str(v)\<close> on a value that is
  no text is the parameter \<open>value_text\<close> of \<open>codec\<close>.
\<close>

section \<open>The version hash\<close>

definition kg_version_hash_of :: "world \<Rightarrow> obj \<Rightarrow> canon_error + string" where
  "kg_version_hash_of w graph =
     sha256_canonical (w_runtime w) (w_sha w)
       (json_of (PyDict [(''metadata'', dget graph ''metadata''), (''nodes'', dget graph ''nodes''),
          (''edges'', dget graph ''edges'')]))"

section \<open>The conversion\<close>

datatype flat_error =
    FlatShape
  | FlatRuleIds
  | FlatRoutes "string list"
  | FlatJurisdiction py
  | FlatCanonical canon_error

definition universal_names :: "string list" where
  "universal_names = [''global'', ''*'', '''']"

definition tier_words :: "(string \<times> string) list" where
  "tier_words =
     [(''tier-1'', ''high''), (''tier1'', ''high''), (''high'', ''high''), (''high-risk'', ''high''),
      (''tier-2'', ''medium''), (''tier2'', ''medium''), (''standard'', ''medium''), (''default'', ''medium''),
      (''medium'', ''medium''), (''tier-3'', ''low''), (''tier3'', ''low''), (''low'', ''low''), (''low-risk'', ''low'')]"

definition kept_fields :: "string list" where
  "kept_fields = [''metric'', ''value'', ''unit'', ''window_seconds'', ''requires_recent_within_seconds'']"

definition versioned :: "world \<Rightarrow> obj \<Rightarrow> flat_error + obj" where
  "versioned w node =
     (case sha256_canonical (w_runtime w) (w_sha w) (json_of (PyDict node)) of
        Inl e \<Rightarrow> Inl (FlatCanonical e)
      | Inr h \<Rightarrow> Inr (node @ [(''version'', PyStr h)]))"

record flat_state =
  fl_obligations :: "obj list"
  fl_rules :: "obj list"
  fl_jurisdictions :: "(string \<times> obj) list"
  fl_edges :: "obj list"

definition edge_of :: "string \<Rightarrow> string \<Rightarrow> string \<Rightarrow> obj" where
  "edge_of ty source target = [(''type'', PyStr ty), (''from'', PyStr source), (''to'', PyStr target)]"

definition named_node :: "string \<Rightarrow> string \<Rightarrow> obj" where
  "named_node i ty = [(''id'', PyStr i), (''type'', PyStr ty), (''name'', PyStr i)]"

text \<open>The Obligation and the Rule of one flat rule, before their versions.\<close>

definition when_truthy :: "string \<Rightarrow> py \<Rightarrow> obj" where
  "when_truthy k v = (if truthy v then [(k, v)] else [])"

definition flat_obligation :: "obj \<Rightarrow> py \<Rightarrow> string \<Rightarrow> obj" where
  "flat_obligation r default_date ob_id =
     [(''id'', PyStr ob_id), (''type'', PyStr ''Obligation''),
      (''obligation_type'', dget_default r ''predicate'' (PyStr ''must_not_exceed''))] @
     concat (map (\<lambda>f. field_if r f f) kept_fields) @
     when_truthy ''effective_date_start'' (or_else (dget r ''effective_date'') default_date) @
     when_truthy ''effective_date_end'' (dget r ''sunset_date'') @
     when_truthy ''summary'' (dget r ''name'')"

definition flat_rule_node :: "codec \<Rightarrow> obj \<Rightarrow> string \<Rightarrow> obj" where
  "flat_rule_node co r ob_id =
     [(''id'', PyStr (''rule.'' @ ob_id)), (''type'', PyStr ''Rule''),
      (''name'', PyStr (value_text co (or_else (dget r ''name'') (PyStr ob_id))))] @
     (case dget r ''risk_tier'' of
        PyStr t \<Rightarrow> (case map_of tier_words (py_lower (py_strip t)) of None \<Rightarrow> [] | Some u \<Rightarrow> [(''risk_tier'', PyStr u)])
      | _ \<Rightarrow> [])"

text \<open>\<open>[scope] if isinstance(scope, str) else (scope or [])\<close>\<close>

definition flat_scope :: "py \<Rightarrow> flat_error + py list" where
  "flat_scope scope =
     (case scope of
        PyStr s \<Rightarrow> Inr [PyStr s]
      | _ \<Rightarrow> if truthy scope then (case iter_items scope of None \<Rightarrow> Inl (FlatJurisdiction scope) | Some xs \<Rightarrow> Inr xs)
             else Inr [])"

definition jurisdiction_step :: "world \<Rightarrow> string \<Rightarrow> py \<Rightarrow> flat_state \<Rightarrow> flat_error + flat_state" where
  "jurisdiction_step w ob_id v st =
     (case v of
        PyStr j \<Rightarrow>
          if j \<in> set universal_names then Inr st
          else (case versioned w (named_node j ''Jurisdiction'') of
              Inl e \<Rightarrow> Inl e
            | Inr node \<Rightarrow>
                Inr (st\<lparr>fl_jurisdictions := alist_setdefault j node (fl_jurisdictions st),
                        fl_edges := fl_edges st @ [edge_of ''scoped_to'' ob_id j]\<rparr>))
      | _ \<Rightarrow> Inl (FlatJurisdiction v))"

definition flat_step :: "world \<Rightarrow> codec \<Rightarrow> py \<Rightarrow> obj \<Rightarrow> flat_state \<Rightarrow> flat_error + flat_state" where
  "flat_step w co default_date r st =
     (let ob_id = (case dget r ''id'' of PyStr i \<Rightarrow> i | _ \<Rightarrow> []) in
      case versioned w (flat_obligation r default_date ob_id) of
        Inl e \<Rightarrow> Inl e
      | Inr ob \<Rightarrow>
          (case versioned w (flat_rule_node co r ob_id) of
             Inl e \<Rightarrow> Inl e
           | Inr node \<Rightarrow>
               (case flat_scope (dget r ''jurisdiction'') of
                  Inl e \<Rightarrow> Inl e
                | Inr scope \<Rightarrow>
                    fold_err (jurisdiction_step w ob_id) scope
                      (st\<lparr>fl_obligations := fl_obligations st @ [ob], fl_rules := fl_rules st @ [node],
                          fl_edges := fl_edges st @ [edge_of ''consists_of'' (''rule.'' @ ob_id) ob_id]\<rparr>))))"

definition subject_step ::
  "world \<Rightarrow> string \<times> string \<Rightarrow> obj list \<times> obj list \<Rightarrow> flat_error + obj list \<times> obj list" where
  "subject_step w = (\<lambda>(subject, routed) (subjects, edges).
     (case versioned w (named_node subject ''Subject'') of
        Inl e \<Rightarrow> Inl e
      | Inr node \<Rightarrow> Inr (subjects @ [node], edges @ [edge_of ''applies_to'' (''rule.'' @ routed) subject])))"

definition named_rule :: "py \<Rightarrow> bool" where
  "named_rule v = (case v of PyDict r \<Rightarrow> (case dget r ''id'' of PyStr i \<Rightarrow> i \<noteq> [] | _ \<Rightarrow> False) | _ \<Rightarrow> False)"

definition flat_metadata :: "codec \<Rightarrow> obj \<Rightarrow> obj" where
  "flat_metadata co md =
     alist_set ''schema_version'' (PyStr ''3.0'')
       (alist_setdefault ''name'' (PyStr (value_text co (or_else (dget md ''version'') (PyStr ''converted-kg'')))) md)"

definition routes_of :: "obj \<Rightarrow> (string \<times> string) list" where
  "routes_of registry = List.map_filter (\<lambda>(s, r). map_option (\<lambda>i. (s, i)) (str_of r)) registry"

definition flat_to_graph :: "world \<Rightarrow> codec \<Rightarrow> obj \<Rightarrow> py \<Rightarrow> flat_error + obj" where
  "flat_to_graph w co flat default_date =
     (case (or_else (dget flat ''metadata'') (PyDict []), or_else (dget flat ''rules'') (PyList []),
            or_else (dget flat ''tag_registry'') (PyDict [])) of
        (PyDict md, PyList raw_rules, PyDict registry) \<Rightarrow>
          if \<not> list_all named_rule raw_rules then Inl FlatRuleIds
          else
            (let rules = List.map_filter dict_of raw_rules;
                 rule_ids = map (\<lambda>r. dget r ''id'') rules;
                 bad = sort (map fst (filter (\<lambda>(s, r). \<not> (is_str r \<and> r \<in> set rule_ids)) registry))
             in
             if bad \<noteq> [] then Inl (FlatRoutes bad)
             else
               (case fold_err (flat_step w co default_date) rules
                       \<lparr>fl_obligations = [], fl_rules = [], fl_jurisdictions = [], fl_edges = []\<rparr> of
                  Inl e \<Rightarrow> Inl e
                | Inr st \<Rightarrow>
                    (case fold_err (subject_step w) (sort_key fst (routes_of registry)) ([], fl_edges st) of
                       Inl e \<Rightarrow> Inl e
                     | Inr (subjects, edges) \<Rightarrow>
                         Inr [(''metadata'', PyDict (flat_metadata co md)),
                              (''nodes'', PyDict
                                 [(''subjects'', PyList (map PyDict subjects)), (''rules'', PyList (map PyDict (fl_rules st))),
                                  (''obligations'', PyList (map PyDict (fl_obligations st))),
                                  (''jurisdictions'', PyList (map (PyDict \<circ> snd) (sort_key fst (fl_jurisdictions st))))]),
                              (''edges'', PyList (map PyDict edges))])))
      | _ \<Rightarrow> Inl FlatShape)"

section \<open>Values with a canonical form\<close>

text \<open>Every integer is exact as a double, every float finite. Text is ASCII, so it holds no surrogate.\<close>

fun exact_value :: "py \<Rightarrow> bool"
  and exact_items :: "py list \<Rightarrow> bool"
  and exact_members :: "obj \<Rightarrow> bool"
where
  "exact_value (PyInt i) = (\<bar>i\<bar> \<le> exact_int_limit)"
| "exact_value (PyFloat x) = is_finite x"
| "exact_value (PyList xs) = exact_items xs"
| "exact_value (PyTuple xs) = exact_items xs"
| "exact_value (PyDict d) = exact_members d"
| "exact_value PyNone = True"
| "exact_value (PyBool b) = True"
| "exact_value (PyStr s) = True"
| "exact_items [] = True"
| "exact_items (x # xs) = (exact_value x \<and> exact_items xs)"
| "exact_members [] = True"
| "exact_members ((k, v) # d) = (exact_value v \<and> exact_members d)"

lemma ascii_encodable: "check_unicode (ascii s) = Inr ()"
proof -
  have "c < 256" if "c \<in> set (ascii s)" for c
    using that by (auto simp: ascii_def)
  then show ?thesis by (force simp: check_unicode_iff surrogate_def)
qed

lemma json_of_sound:
  "exact_value v \<Longrightarrow> sound_value rt (json_of v) \<and> check_tree (json_of v) = Inr ()"
  "exact_items xs \<Longrightarrow> \<forall>x \<in> set (json_items xs). sound_value rt x \<and> check_tree x = Inr ()"
  "exact_members d \<Longrightarrow> \<forall>m \<in> set (json_members d). fst m \<noteq> None \<and> check_unicode (the (fst m)) = Inr () \<and>
     sound_value rt (snd m) \<and> check_tree (snd m) = Inr ()"
proof (induction v and xs and d rule: exact_value_exact_items_exact_members.induct)
  case (1 i)
  then show ?case by (auto simp: int_to_double_def abs_le_iff)
next
  case (3 xs)
  then show ?case by (auto simp: list_all_iff check_tree_JArr simp del: check_tree.simps)
next
  case (4 xs)
  then show ?case by (auto simp: list_all_iff check_tree_JArr simp del: check_tree.simps)
next
  case (5 d)
  then show ?case by (auto simp: list_all_iff check_tree_JObj simp del: check_tree.simps)
qed (auto simp: ascii_encodable)

lemma exact_canonical:
  assumes "runtime_laws rt" "exact_members d"
  shows "\<exists>b. canonicalize rt (json_of (PyDict d)) = Inr b"
proof -
  have "exact_value (PyDict d)" using assms(2) by simp
  from nfc_sound [OF assms(1) conjunct1 [OF json_of_sound(1) [OF this]] conjunct2 [OF json_of_sound(1) [OF this]]]
  obtain v where v: "nfc_normalize_values rt (json_of (PyDict d)) = Inr v" "sound_value rt v" "check_tree v = Inr ()" by blast
  with serialize_sound obtain t where "serialize rt v = Inr t" by blast
  with v(1) show ?thesis unfolding canonicalize_Inr by blast
qed

section \<open>What the conversion builds\<close>

definition rule_id_of :: "obj \<Rightarrow> string" where
  "rule_id_of r = (case dget r ''id'' of PyStr i \<Rightarrow> i | _ \<Rightarrow> [])"

definition with_version :: "obj \<Rightarrow> obj \<Rightarrow> bool" where
  "with_version n n' \<longleftrightarrow> (\<exists>h. n' = n @ [(''version'', PyStr h)])"

lemma versioned_Inr: "versioned w n = Inr n' \<Longrightarrow> with_version n n'"
  by (auto simp: versioned_def with_version_def split: sum.splits)

lemma with_version_dget: "with_version n n' \<Longrightarrow> k \<noteq> ''version'' \<Longrightarrow> dget n' k = dget n k"
  by (auto simp: with_version_def dget_def map_add_def split: option.split)

text \<open>The jurisdictions of a flat rule that become nodes.\<close>

definition scoped_names :: "string list \<Rightarrow> string list" where
  "scoped_names js = filter (\<lambda>j. j \<notin> set universal_names) js"

definition jurisdictions_ok :: "(string \<times> obj) list \<Rightarrow> bool" where
  "jurisdictions_ok d \<longleftrightarrow> (\<forall>(j, node) \<in> set d. with_version (named_node j ''Jurisdiction'') node)"

lemma jurisdiction_steps:
  "fold_err (jurisdiction_step w i) scope st = Inr st' \<Longrightarrow>
   \<exists>js. scope = map PyStr js \<and> fl_obligations st' = fl_obligations st \<and> fl_rules st' = fl_rules st \<and>
     fl_edges st' = fl_edges st @ map (edge_of ''scoped_to'' i) (scoped_names js) \<and>
     fst ` set (fl_jurisdictions st') = fst ` set (fl_jurisdictions st) \<union> set (scoped_names js) \<and>
     (jurisdictions_ok (fl_jurisdictions st) \<longrightarrow> jurisdictions_ok (fl_jurisdictions st'))"
proof (induction scope arbitrary: st)
  case (Cons v scope)
  then obtain t where t: "jurisdiction_step w i v st = Inr t" "fold_err (jurisdiction_step w i) scope t = Inr st'"
    by (auto split: sum.splits)
  obtain j where v: "v = PyStr j" using t(1) by (auto simp: jurisdiction_step_def split: py.splits)
  obtain js where IH: "scope = map PyStr js" "fl_obligations st' = fl_obligations t" "fl_rules st' = fl_rules t"
    "fl_edges st' = fl_edges t @ map (edge_of ''scoped_to'' i) (scoped_names js)"
    "fst ` set (fl_jurisdictions st') = fst ` set (fl_jurisdictions t) \<union> set (scoped_names js)"
    "jurisdictions_ok (fl_jurisdictions t) \<longrightarrow> jurisdictions_ok (fl_jurisdictions st')"
    using Cons.IH [OF t(2)] by blast
  show ?case
  proof (cases "j \<in> set universal_names")
    case True
    with t(1) v have "t = st" by (simp add: jurisdiction_step_def)
    with IH v True show ?thesis by (intro exI [of _ "j # js"]) (simp add: scoped_names_def)
  next
    case False
    with t(1) v obtain node where node: "versioned w (named_node j ''Jurisdiction'') = Inr node"
      and t': "t = st\<lparr>fl_jurisdictions := alist_setdefault j node (fl_jurisdictions st),
                fl_edges := fl_edges st @ [edge_of ''scoped_to'' i j]\<rparr>"
      by (auto simp: jurisdiction_step_def split: sum.splits)
    have "jurisdictions_ok (fl_jurisdictions st) \<Longrightarrow> jurisdictions_ok (fl_jurisdictions t)"
      using versioned_Inr [OF node] by (auto simp: t' jurisdictions_ok_def alist_setdefault_def)
    moreover have "fst ` set (fl_jurisdictions t) = insert j (fst ` set (fl_jurisdictions st))"
      by (auto simp: t' alist_setdefault_def)
    ultimately show ?thesis
      using IH v False by (intro exI [of _ "j # js"]) (simp add: scoped_names_def t')
  qed
qed (simp add: scoped_names_def)

text \<open>What one flat rule adds: its Obligation, its Rule, and its edges, with the texts of its jurisdictions.\<close>

definition rule_scope :: "obj \<Rightarrow> string list \<Rightarrow> bool" where
  "rule_scope r js \<longleftrightarrow> flat_scope (dget r ''jurisdiction'') = Inr (map PyStr js)"

definition rule_edges :: "obj \<Rightarrow> string list \<Rightarrow> obj list" where
  "rule_edges r js =
     edge_of ''consists_of'' (''rule.'' @ rule_id_of r) (rule_id_of r) #
     map (edge_of ''scoped_to'' (rule_id_of r)) (scoped_names js)"

lemma flat_steps:
  "fold_err (flat_step w co d) rules st = Inr st' \<Longrightarrow>
   \<exists>scopes obs nodes. list_all2 rule_scope rules scopes \<and>
     list_all2 (\<lambda>r. with_version (flat_obligation r d (rule_id_of r))) rules obs \<and>
     list_all2 (\<lambda>r. with_version (flat_rule_node co r (rule_id_of r))) rules nodes \<and>
     fl_obligations st' = fl_obligations st @ obs \<and> fl_rules st' = fl_rules st @ nodes \<and>
     fl_edges st' = fl_edges st @ concat (map2 rule_edges rules scopes) \<and>
     fst ` set (fl_jurisdictions st') = fst ` set (fl_jurisdictions st) \<union> set (concat (map scoped_names scopes)) \<and>
     (jurisdictions_ok (fl_jurisdictions st) \<longrightarrow> jurisdictions_ok (fl_jurisdictions st'))"
proof (induction rules arbitrary: st)
  case (Cons r rules)
  then obtain t where t: "flat_step w co d r st = Inr t" "fold_err (flat_step w co d) rules t = Inr st'"
    by (auto split: sum.splits)
  let ?i = "rule_id_of r"
  obtain ob node scope where parts: "versioned w (flat_obligation r d ?i) = Inr ob" "versioned w (flat_rule_node co r ?i) = Inr node"
      "flat_scope (dget r ''jurisdiction'') = Inr scope"
    and step: "fold_err (jurisdiction_step w ?i) scope
      (st\<lparr>fl_obligations := fl_obligations st @ [ob], fl_rules := fl_rules st @ [node],
          fl_edges := fl_edges st @ [edge_of ''consists_of'' (''rule.'' @ ?i) ?i]\<rparr>) = Inr t"
    using t(1) unfolding flat_step_def rule_id_of_def [symmetric] by (auto simp: Let_def split: sum.splits)
  from jurisdiction_steps [OF step] obtain js where js: "scope = map PyStr js"
    "fl_obligations t = fl_obligations st @ [ob]" "fl_rules t = fl_rules st @ [node]"
    "fl_edges t = fl_edges st @ rule_edges r js"
    "fst ` set (fl_jurisdictions t) = fst ` set (fl_jurisdictions st) \<union> set (scoped_names js)"
    "jurisdictions_ok (fl_jurisdictions st) \<longrightarrow> jurisdictions_ok (fl_jurisdictions t)"
    by (auto simp: rule_edges_def)
  from Cons.IH [OF t(2)] obtain scopes obs nodes where IH: "list_all2 rule_scope rules scopes"
    "list_all2 (\<lambda>r. with_version (flat_obligation r d (rule_id_of r))) rules obs"
    "list_all2 (\<lambda>r. with_version (flat_rule_node co r (rule_id_of r))) rules nodes"
    "fl_obligations st' = fl_obligations t @ obs" "fl_rules st' = fl_rules t @ nodes"
    "fl_edges st' = fl_edges t @ concat (map2 rule_edges rules scopes)"
    "fst ` set (fl_jurisdictions st') = fst ` set (fl_jurisdictions t) \<union> set (concat (map scoped_names scopes))"
    "jurisdictions_ok (fl_jurisdictions t) \<longrightarrow> jurisdictions_ok (fl_jurisdictions st')"
    by blast
  have "rule_scope r js" using parts(3) js(1) by (simp add: rule_scope_def)
  then show ?case
    using IH js versioned_Inr [OF parts(1)] versioned_Inr [OF parts(2)]
    by (intro exI [of _ "js # scopes"] exI [of _ "ob # obs"] exI [of _ "node # nodes"]) auto
qed simp

lemma subject_steps:
  "fold_err (subject_step w) routes (ss, es) = Inr (ss', es') \<Longrightarrow>
   \<exists>nodes. ss' = ss @ nodes \<and> es' = es @ map (\<lambda>(s, r). edge_of ''applies_to'' (''rule.'' @ r) s) routes \<and>
     list_all2 (\<lambda>(s, r). with_version (named_node s ''Subject'')) routes nodes"
proof (induction routes arbitrary: ss es)
  case (Cons p routes)
  obtain s r where p: "p = (s, r)" by (cases p)
  with Cons.prems obtain node where node: "versioned w (named_node s ''Subject'') = Inr node"
    and rest: "fold_err (subject_step w) routes (ss @ [node], es @ [edge_of ''applies_to'' (''rule.'' @ r) s]) = Inr (ss', es')"
    by (auto simp: subject_step_def split: sum.splits)
  from Cons.IH [OF rest] versioned_Inr [OF node] p show ?case by auto
qed simp

section \<open>What the compiler reads from the edges\<close>

lemma edge_of_dget [simp]:
  "dget (edge_of ty s t) ''type'' = PyStr ty" "dget (edge_of ty s t) ''from'' = PyStr s" "dget (edge_of ty s t) ''to'' = PyStr t"
  by (simp_all add: edge_of_def dget_def)

lemma edge_of_eq [simp]: "edge_of ty s t = edge_of ty' s' t' \<longleftrightarrow> ty = ty' \<and> s = s' \<and> t = t'"
  by (auto simp: edge_of_def)

lemma values_of_alist_set: "values_of (alist_set k v d) k' = (if k' = k then v else values_of d k')"
  by (simp add: values_of_def)

lemma values_of_append [simp]: "values_of (append_value k v d) k' = values_of d k' @ (if k' = k then [v] else [])"
  by (simp add: append_value_def values_of_alist_set)

lemma set_values_of_add [simp]: "set (values_of (add_value k v d) k') = set (values_of d k') \<union> (if k' = k then {v} else {})"
  by (auto simp: add_value_def values_of_alist_set)

lemma values_of_keys: "distinct (map fst d) \<Longrightarrow> k \<notin> fst ` set d \<Longrightarrow> values_of d k = []"
  by (simp add: values_of_outside)

text \<open>The edges of a converted graph: each relates nodes of the right lists.\<close>

definition plain_edge :: "node_index \<Rightarrow> obj \<Rightarrow> bool" where
  "plain_edge by_id e \<longleftrightarrow>
     (\<exists>s t. e = edge_of ''consists_of'' s t \<and> s \<in> set (ids_of by_id ''rules'')) \<or>
     (\<exists>s t. e = edge_of ''scoped_to'' s t \<and> t \<in> set (ids_of by_id ''jurisdictions'')) \<or>
     (\<exists>s t. e = edge_of ''applies_to'' s t \<and> s \<in> set (ids_of by_id ''rules'') \<and> t \<in> set (ids_of by_id ''subjects''))"

definition owners_in :: "obj list \<Rightarrow> string \<Rightarrow> string list" where
  "owners_in es k = List.map_filter (\<lambda>e. if dget e ''type'' = PyStr ''consists_of'' \<and> dget e ''to'' = PyStr k
       then str_of (dget e ''from'') else None) es"

lemma read_plain_edges:
  assumes "fold_err (add_edge by_id) (map PyDict es) m = Inr m'" "\<forall>e \<in> set es. plain_edge by_id e"
  shows "(\<forall>k. values_of (owners m') k = values_of (owners m) k @ owners_in es k) \<and>
    (\<forall>k. set (values_of (scoped m') k) = set (values_of (scoped m) k) \<union> {t. edge_of ''scoped_to'' k t \<in> set es}) \<and>
    (\<forall>k. set (values_of (applies m') k) = set (values_of (applies m) k) \<union> {t. edge_of ''applies_to'' k t \<in> set es})"
  using assms
proof (induction es arbitrary: m)
  case (Cons e es)
  then obtain t where t: "add_edge by_id (PyDict e) m = Inr t" "fold_err (add_edge by_id) (map PyDict es) t = Inr m'"
    by (auto split: sum.splits)
  from Cons.IH [OF t(2)] Cons.prems(2)
  have IH: "\<forall>k. values_of (owners m') k = values_of (owners t) k @ owners_in es k"
    "\<forall>k. set (values_of (scoped m') k) = set (values_of (scoped t) k) \<union> {u. edge_of ''scoped_to'' k u \<in> set es}"
    "\<forall>k. set (values_of (applies m') k) = set (values_of (applies t) k) \<union> {u. edge_of ''applies_to'' k u \<in> set es}"
    by simp_all
  from Cons.prems(2) consider s u where "e = edge_of ''consists_of'' s u" "s \<in> set (ids_of by_id ''rules'')"
    | s u where "e = edge_of ''scoped_to'' s u" "u \<in> set (ids_of by_id ''jurisdictions'')"
    | s u where "e = edge_of ''applies_to'' s u" "s \<in> set (ids_of by_id ''rules'')" "u \<in> set (ids_of by_id ''subjects'')"
    by (auto simp: plain_edge_def)
  then show ?case
  proof cases
    case 1
    then have "t = m\<lparr>owners := append_value u s (owners m)\<rparr>" using t(1) by (simp add: add_edge_def split: if_splits)
    with 1 IH show ?thesis by (auto simp: owners_in_def map_filter_simps)
  next
    case 2
    then have "t = m\<lparr>scoped := add_value s u (scoped m)\<rparr>" using t(1) by (simp add: add_edge_def split: if_splits)
    with 2 IH show ?thesis by (auto simp: owners_in_def map_filter_simps)
  next
    case 3
    then have "t = m\<lparr>applies := add_value s u (applies m)\<rparr>" using t(1) by (simp add: add_edge_def split: if_splits)
    with 3 IH show ?thesis by (auto simp: owners_in_def map_filter_simps)
  qed
qed (simp add: owners_in_def map_filter_simps)

lemma owners_in_Nil [simp]: "owners_in [] k = []"
  by (simp add: owners_in_def map_filter_simps)

lemma owners_in_edge [simp]:
  "owners_in (edge_of ty s t # es) k = (if ty = ''consists_of'' \<and> t = k then [s] else []) @ owners_in es k"
  by (simp add: owners_in_def map_filter_simps)

lemma owners_in_append [simp]: "owners_in (es @ fs) k = owners_in es k @ owners_in fs k"
  by (induction es) (auto simp: owners_in_def map_filter_simps split: option.split)

lemma owners_in_scoped: "owners_in (map (edge_of ''scoped_to'' i) ns) k = []"
  by (induction ns) simp_all

lemma owners_in_rule_edges: "owners_in (rule_edges r js) k = (if rule_id_of r = k then [''rule.'' @ rule_id_of r] else [])"
  by (simp add: rule_edges_def owners_in_scoped)

lemma owners_in_applies: "owners_in (map (\<lambda>(s, r). edge_of ''applies_to'' (''rule.'' @ r) s) routes) k = []"
  by (induction routes) auto

lemma owners_in_rules:
  "length scopes = length rules \<Longrightarrow> owners_in (concat (map2 rule_edges rules scopes)) k =
    map (\<lambda>r. ''rule.'' @ rule_id_of r) (filter (\<lambda>r. rule_id_of r = k) rules)"
proof (induction rules arbitrary: scopes)
  case (Cons r rules)
  then obtain js scopes' where "scopes = js # scopes'" "length scopes' = length rules" by (cases scopes) auto
  with Cons.IH [of scopes'] show ?case by (simp add: owners_in_rule_edges)
qed simp

lemma filter_distinct_single:
  assumes "distinct (map f xs)" "x \<in> set xs"
  shows "filter (\<lambda>y. f y = f x) xs = [x]"
proof -
  obtain ys zs where xs: "xs = ys @ x # zs" using split_list [OF assms(2)] by blast
  have "f y \<noteq> f x" if "y \<in> set ys \<union> set zs" for y
    using assms(1) that by (auto simp: xs image_iff)
  then show ?thesis by (auto simp: xs filter_empty_conv)
qed

section \<open>The fields of a compiled obligation\<close>

lemma dget_Cons [simp]: "dget ((k, v) # d) k' = (if k = k' then v else dget d k')"
  by (simp add: dget_def)

lemma dget_Nil [simp]: "dget [] k = PyNone"
  by (simp add: dget_def)

lemma dget_append: "dget (d @ e) k = (if has_key d k then dget d k else dget e k)"
  by (simp add: dget_def has_key_def map_add_def split: option.split)

lemma dget_field_if [simp]:
  "dget (field_if n a b @ d) k = (if k = b \<and> dget n a \<noteq> PyNone then dget n a else dget d k)"
  by (simp add: field_if_def)

lemma dget_when_truthy [simp]: "dget (when_truthy a v @ d) k = (if k = a \<and> truthy v then v else dget d k)"
  by (simp add: when_truthy_def)

text \<open>The Rules that own an obligation, its jurisdictions by edge, and its tier, as the compiler reads them.\<close>

definition owning_rules :: "edge_maps \<Rightarrow> obj \<Rightarrow> string list" where
  "owning_rules maps node = values_of (owners maps) (node_id_of node)"

definition scope_roots :: "edge_maps \<Rightarrow> obj \<Rightarrow> string list" where
  "scope_roots maps node =
     remdups (values_of (scoped maps) (node_id_of node) @ concat (map (values_of (scoped maps)) (owning_rules maps node)))"

lemma compile_obligation_dget:
  assumes "compile_obligation by_id maps children node = Inr ob"
  shows "list_all (\<lambda>f. dget ob f = dget node f) copied_fields"
    and "dget ob ''effective_date'' = dget node ''effective_date_start''"
    and "dget ob ''sunset_date'' = dget node ''effective_date_end''"
    and "dget ob ''jurisdiction'' =
      (if scope_roots maps node \<noteq> [] then py_strings (with_descendants children (scope_roots maps node)) else PyNone)"
    and "dget ob ''risk_tier'' =
      (case strictest_declared (declared_tiers by_id (owning_rules maps node)) of None \<Rightarrow> PyNone | Some t \<Rightarrow> PyStr t)"
proof -
  obtain i p name where shape: "dget node ''id'' = PyStr i" "dget node ''obligation_type'' = PyStr p" "dget node ''metric'' = PyStr name"
    using assms by (rule compile_obligation_shape)
  have i: "node_id_of node = i" using shape(1) by (simp add: node_id_of_def)
  define tail where "tail =
    (case strictest_declared (declared_tiers by_id (owning_rules maps node)) of None \<Rightarrow> [] | Some t \<Rightarrow> [(''risk_tier'', PyStr t)]) @
    (if owning_rules maps node \<noteq> [] then
       [(''rule_ids'', py_strings (sort (owning_rules maps node)))] @
       (if list_all (\<lambda>r. r \<in> fst ` set (applies maps)) (owning_rules maps node)
        then [(''subjects'', py_strings (sort (remdups (concat (map (values_of (applies maps)) (owning_rules maps node))))))]
        else [])
     else [])"
  have ob: "ob = (''id'', PyStr i) # (''predicate'', PyStr p) # field_if node ''metric'' ''metric'' @ field_if node ''value'' ''value'' @
      field_if node ''unit'' ''unit'' @ field_if node ''summary'' ''summary'' @ field_if node ''window_seconds'' ''window_seconds'' @
      field_if node ''requires_recent_within_seconds'' ''requires_recent_within_seconds'' @
      field_if node ''effective_date_start'' ''effective_date'' @ field_if node ''effective_date_end'' ''sunset_date'' @
      (if scope_roots maps node \<noteq> [] then [(''jurisdiction'', py_strings (with_descendants children (scope_roots maps node)))] else []) @ tail"
    using assms shape unfolding tail_def scope_roots_def owning_rules_def i
    by (simp add: compile_obligation_def copied_fields_def Let_def cong: if_cong option.case_cong)
  have tail: "dget tail ''risk_tier'' =
      (case strictest_declared (declared_tiers by_id (owning_rules maps node)) of None \<Rightarrow> PyNone | Some t \<Rightarrow> PyStr t)"
    unfolding tail_def by (cases "strictest_declared (declared_tiers by_id (owning_rules maps node))") simp_all
  have "set (map fst tail) \<subseteq> {''risk_tier'', ''rule_ids'', ''subjects''}"
    unfolding tail_def by (auto split: option.splits if_splits)
  then have other: "dget tail k = PyNone" if "k \<notin> {''risk_tier'', ''rule_ids'', ''subjects''}" for k
    using that by (intro dget_None) (auto simp: map_of_eq_None_iff)
  have scope: "dget ((if roots \<noteq> [] then [(''jurisdiction'', x)] else []) @ tail) k =
      (if k = ''jurisdiction'' \<and> roots \<noteq> [] then x else dget tail k)" for roots :: "string list" and x k
    by simp
  show "list_all (\<lambda>f. dget ob f = dget node f) copied_fields"
    unfolding ob copied_fields_def by (simp add: other scope)
  show "dget ob ''effective_date'' = dget node ''effective_date_start''" "dget ob ''sunset_date'' = dget node ''effective_date_end''"
    unfolding ob by (simp_all add: other scope)
  show "dget ob ''jurisdiction'' =
      (if scope_roots maps node \<noteq> [] then py_strings (with_descendants children (scope_roots maps node)) else PyNone)"
    unfolding ob by (simp add: other scope)
  show "dget ob ''risk_tier'' =
      (case strictest_declared (declared_tiers by_id (owning_rules maps node)) of None \<Rightarrow> PyNone | Some t \<Rightarrow> PyStr t)"
    unfolding ob using tail by (simp add: scope)
qed

section \<open>The converted graph\<close>

lemma named_rules:
  "list_all named_rule vs \<Longrightarrow> map PyDict (List.map_filter dict_of vs) = vs \<and>
   (\<forall>r \<in> set (List.map_filter dict_of vs). dget r ''id'' = PyStr (rule_id_of r) \<and> rule_id_of r \<noteq> [])"
proof (induction vs)
  case (Cons v vs)
  from Cons.prems obtain r where r: "v = PyDict r" "dget r ''id'' = PyStr (rule_id_of r)" "rule_id_of r \<noteq> []"
    by (auto simp: named_rule_def rule_id_of_def split: py.splits)
  with Cons show ?case by (simp add: map_filter_simps)
qed (simp add: map_filter_simps)

lemma flat_to_graph_Inr:
  assumes "flat_to_graph w co flat d = Inr g"
  obtains rules scopes obs rule_nodes subjects jurisdictions routes where
    "or_else (dget flat ''rules'') (PyList []) = PyList (map PyDict rules)"
    "\<forall>r \<in> set rules. dget r ''id'' = PyStr (rule_id_of r) \<and> rule_id_of r \<noteq> []"
    "list_all2 rule_scope rules scopes"
    "list_all2 (\<lambda>r. with_version (flat_obligation r d (rule_id_of r))) rules obs"
    "list_all2 (\<lambda>r. with_version (flat_rule_node co r (rule_id_of r))) rules rule_nodes"
    "jurisdictions_ok jurisdictions" "fst ` set jurisdictions = set (concat (map scoped_names scopes))"
    "list_all2 (\<lambda>(s, r). with_version (named_node s ''Subject'')) routes subjects"
    "\<forall>p \<in> set routes. snd p \<in> rule_id_of ` set rules"
    "dget g ''nodes'' = PyDict
       [(''subjects'', PyList (map PyDict subjects)), (''rules'', PyList (map PyDict rule_nodes)),
        (''obligations'', PyList (map PyDict obs)), (''jurisdictions'', PyList (map PyDict (map snd (sort_key fst jurisdictions))))]"
    "dget g ''edges'' = PyList (map PyDict (concat (map2 rule_edges rules scopes) @
       map (\<lambda>(s, r). edge_of ''applies_to'' (''rule.'' @ r) s) routes))"
proof -
  obtain md raw registry where shape: "or_else (dget flat ''metadata'') (PyDict []) = PyDict md"
      "or_else (dget flat ''rules'') (PyList []) = PyList raw" "or_else (dget flat ''tag_registry'') (PyDict []) = PyDict registry"
    using assms by (auto simp: flat_to_graph_def split: py.splits)
  define rules where "rules = List.map_filter dict_of raw"
  define routes where "routes = sort_key fst (routes_of registry)"
  have named: "list_all named_rule raw"
    using assms by (auto simp: flat_to_graph_def shape split: if_splits)
  have ids: "map (\<lambda>r. dget r ''id'') rules = map (PyStr \<circ> rule_id_of) rules"
    using named_rules [OF named] by (simp add: rules_def)
  let ?st0 = "\<lparr>fl_obligations = [], fl_rules = [], fl_jurisdictions = [], fl_edges = []\<rparr>"
  have good: "filter (\<lambda>(s, r). \<not> (is_str r \<and> r \<in> set (map (\<lambda>r. dget r ''id'') rules))) registry = []"
  proof (rule ccontr)
    let ?bad = "filter (\<lambda>(s, r). \<not> (is_str r \<and> r \<in> set (map (\<lambda>r. dget r ''id'') rules))) registry"
    assume "?bad \<noteq> []"
    moreover have "sort xs = [] \<longleftrightarrow> xs = []" for xs :: "string list" by (metis length_0_conv length_sort)
    ultimately have "sort (map fst ?bad) \<noteq> []" by (simp only: map_is_Nil_conv simp_thms)
    with assms named show False
      unfolding flat_to_graph_def shape rules_def by (simp only: prod.case py.case Let_def simp_thms if_True if_False sum.distinct)
  qed
  obtain st where st: "fold_err (flat_step w co d) rules ?st0 = Inr st"
    and rest: "(case fold_err (subject_step w) routes ([], fl_edges st) of
                       Inl e \<Rightarrow> Inl e
                     | Inr (subjects, edges) \<Rightarrow>
                         Inr [(''metadata'', PyDict (flat_metadata co md)),
                              (''nodes'', PyDict
                                 [(''subjects'', PyList (map PyDict subjects)), (''rules'', PyList (map PyDict (fl_rules st))),
                                  (''obligations'', PyList (map PyDict (fl_obligations st))),
                                  (''jurisdictions'', PyList (map (PyDict \<circ> snd) (sort_key fst (fl_jurisdictions st))))]),
                              (''edges'', PyList (map PyDict edges))]) = Inr g"
    using assms good by (auto simp: flat_to_graph_def shape named Let_def rules_def [symmetric] routes_def split: sum.splits if_splits)
  obtain subjects edges where subs: "fold_err (subject_step w) routes ([], fl_edges st) = Inr (subjects, edges)"
    and g: "g = [(''metadata'', PyDict (flat_metadata co md)),
                              (''nodes'', PyDict
                                 [(''subjects'', PyList (map PyDict subjects)), (''rules'', PyList (map PyDict (fl_rules st))),
                                  (''obligations'', PyList (map PyDict (fl_obligations st))),
                                  (''jurisdictions'', PyList (map (PyDict \<circ> snd) (sort_key fst (fl_jurisdictions st))))]),
                              (''edges'', PyList (map PyDict edges))]"
    using rest by (auto split: sum.splits)
  obtain scopes where scopes: "list_all2 rule_scope rules scopes"
    "list_all2 (\<lambda>r. with_version (flat_obligation r d (rule_id_of r))) rules (fl_obligations st)"
    "list_all2 (\<lambda>r. with_version (flat_rule_node co r (rule_id_of r))) rules (fl_rules st)"
    "fl_edges st = concat (map2 rule_edges rules scopes)"
    "fst ` set (fl_jurisdictions st) = set (concat (map scoped_names scopes))" "jurisdictions_ok (fl_jurisdictions st)"
    using flat_steps [OF st] by (auto simp: jurisdictions_ok_def)
  have routed: "\<forall>p \<in> set routes. snd p \<in> rule_id_of ` set rules"
  proof
    fix p assume "p \<in> set routes"
    then obtain v where v: "(fst p, v) \<in> set registry" "v = PyStr (snd p)"
      by (auto simp: routes_def routes_of_def List.map_filter_def split: option.splits)
    with good have "v \<in> set (map (\<lambda>r. dget r ''id'') rules)" by (auto simp: filter_empty_conv)
    with v(2) show "snd p \<in> rule_id_of ` set rules" unfolding ids by auto
  qed
  from subject_steps [OF subs] obtain nodes where nodes: "subjects = nodes"
    "edges = fl_edges st @ map (\<lambda>(s, r). edge_of ''applies_to'' (''rule.'' @ r) s) routes"
    "list_all2 (\<lambda>(s, r). with_version (named_node s ''Subject'')) routes nodes"
    by auto
  show thesis
  proof (rule that [OF _ _ scopes(1-3,6,5) nodes(3) routed])
    show "or_else (dget flat ''rules'') (PyList []) = PyList (map PyDict rules)"
      using named_rules [OF named] shape(2) by (simp add: rules_def)
    show "\<forall>r \<in> set rules. dget r ''id'' = PyStr (rule_id_of r) \<and> rule_id_of r \<noteq> []"
      using named_rules [OF named] by (simp add: rules_def)
  qed (simp_all add: g nodes(1,2) scopes(4))
qed

lemma children_none:
  assumes "\<forall>(i, k, node) \<in> set by_id. k = ''jurisdictions'' \<longrightarrow> dget node ''parent'' = PyNone"
  shows "jurisdiction_children by_id = []"
proof -
  have "fold (\<lambda>(i, k, node) d. if k = ''jurisdictions''
      then (case dget node ''parent'' of PyStr parent \<Rightarrow> add_value parent i d | _ \<Rightarrow> d) else d) es d = d"
    if "\<forall>(i, k, node) \<in> set es. k = ''jurisdictions'' \<longrightarrow> dget node ''parent'' = PyNone" for es d
    using that by (induction es arbitrary: d) auto
  with assms show ?thesis unfolding jurisdiction_children_def by blast
qed

lemma with_descendants_none: "set (with_descendants [] roots) = set roots"
proof -
  have "child_relation [] = {}" by (auto simp: child_relation_def values_of_def)
  then show ?thesis by (auto simp: with_descendants_def descend_set)
qed

text \<open>
  Which jurisdictions a converted rule is in force in: everywhere when its list names only universal ones,
  otherwise where one of the others matches.
\<close>

definition in_converted_scope :: "string list \<Rightarrow> string option \<Rightarrow> bool" where
  "in_converted_scope js wanted \<longleftrightarrow>
     (case wanted of
        None \<Rightarrow> True
      | Some w \<Rightarrow>
          scoped_names js = [] \<or>
          list_ex (\<lambda>j. normalised_jurisdiction j \<in> set universal_jurisdictions \<or>
                       normalised_jurisdiction j = normalised_jurisdiction w) (scoped_names js))"

lemma matches_names:
  "set xs = set ys \<Longrightarrow> jurisdiction_matches (py_strings xs) (Some w) =
   list_ex (\<lambda>j. normalised_jurisdiction j \<in> set universal_jurisdictions \<or>
                normalised_jurisdiction j = normalised_jurisdiction w) ys"
  by (auto simp: jurisdiction_matches_def py_strings_def list_ex_iff Let_def)

lemma tier_word_canonical:
  "canonicalise (case map_of tier_words (py_lower (py_strip t)) of None \<Rightarrow> PyNone | Some u \<Rightarrow> PyStr u) = canonicalise (PyStr t)"
proof -
  have c: "canonicalise (PyStr ''high'') = ''tier-1''" "canonicalise (PyStr ''medium'') = ''tier-2''" "canonicalise (PyStr ''low'') = ''tier-3''"
    by code_simp+
  show ?thesis
    unfolding canonicalise_def [of "PyStr t"]
    by (simp add: tier_words_def governor_aliases_def c default_tier_def) (simp add: canonicalise_def default_tier_def)
qed

lemma tier_word_cases: "map_of tier_words k = Some u \<Longrightarrow> u \<in> {''high'', ''medium'', ''low''}"
  by (auto simp: tier_words_def split: if_splits)

text \<open>What a flat rule and its compiled obligation have in common.\<close>

definition carries_over :: "py \<Rightarrow> obj \<Rightarrow> obj \<Rightarrow> bool" where
  "carries_over d r ob \<longleftrightarrow>
     dget ob ''id'' = dget r ''id'' \<and> dget ob ''predicate'' = dget_default r ''predicate'' (PyStr ''must_not_exceed'') \<and>
     list_all (\<lambda>f. dget ob f = dget r f) kept_fields \<and>
     dget ob ''effective_date'' = (let v = or_else (dget r ''effective_date'') d in if truthy v then v else PyNone) \<and>
     dget ob ''sunset_date'' = (let v = dget r ''sunset_date'' in if truthy v then v else PyNone) \<and>
     canonicalise (dget ob ''risk_tier'') = canonicalise (dget r ''risk_tier'') \<and>
     (\<exists>js. rule_scope r js \<and> (\<forall>wanted. jurisdiction_matches (dget ob ''jurisdiction'') wanted = in_converted_scope js wanted))"

lemma flat_obligation_dget:
  "dget (flat_obligation r d i) ''id'' = PyStr i"
  "dget (flat_obligation r d i) ''obligation_type'' = dget_default r ''predicate'' (PyStr ''must_not_exceed'')"
  "dget (flat_obligation r d i) ''effective_date_start'' = (let v = or_else (dget r ''effective_date'') d in if truthy v then v else PyNone)"
  "dget (flat_obligation r d i) ''effective_date_end'' = (let v = dget r ''sunset_date'' in if truthy v then v else PyNone)"
  "list_all (\<lambda>f. dget (flat_obligation r d i) f = dget r f) kept_fields"
  unfolding flat_obligation_def kept_fields_def
  by (simp_all add: Let_def) (simp_all add: when_truthy_def)

lemma flat_rule_tier:
  assumes "with_version (flat_rule_node co r i) node"
  shows "node_id_of node = ''rule.'' @ i"
    and "dget node ''risk_tier'' = (case dget r ''risk_tier'' of
        PyStr t \<Rightarrow> (case map_of tier_words (py_lower (py_strip t)) of None \<Rightarrow> PyNone | Some u \<Rightarrow> PyStr u)
      | _ \<Rightarrow> PyNone)"
proof -
  note v = with_version_dget [OF assms]
  show "node_id_of node = ''rule.'' @ i" by (simp add: node_id_of_def v flat_rule_node_def)
  show "dget node ''risk_tier'' = (case dget r ''risk_tier'' of
        PyStr t \<Rightarrow> (case map_of tier_words (py_lower (py_strip t)) of None \<Rightarrow> PyNone | Some u \<Rightarrow> PyStr u)
      | _ \<Rightarrow> PyNone)"
    by (simp add: v flat_rule_node_def split: py.split option.split)
qed

lemma declared_single:
  assumes "map_of by_id r = Some (''rules'', node)" "dget node ''risk_tier'' = PyNone \<or> (\<exists>u \<in> {''high'', ''medium'', ''low''}. dget node ''risk_tier'' = PyStr u)"
  shows "(case strictest_declared (declared_tiers by_id [r]) of None \<Rightarrow> PyNone | Some t \<Rightarrow> PyStr t) = dget node ''risk_tier''"
  using assms(2)
proof
  assume "dget node ''risk_tier'' = PyNone"
  with assms(1) show ?thesis by (simp add: declared_tiers_def map_filter_simps strictest_declared_def)
next
  assume "\<exists>u \<in> {''high'', ''medium'', ''low''}. dget node ''risk_tier'' = PyStr u"
  then obtain u where u: "u \<in> {''high'', ''medium'', ''low''}" "dget node ''risk_tier'' = PyStr u" by blast
  have "map_of compile_tier_rank ''high'' = Some 0" "map_of compile_tier_rank ''medium'' = Some 1"
    "map_of compile_tier_rank ''low'' = Some 2" by (simp_all add: compile_tier_rank_def)
  with u(1) obtain k where "map_of compile_tier_rank u = Some k" by blast
  with assms(1) u(2) show ?thesis by (simp add: declared_tiers_def map_filter_simps strictest_declared_def)
qed

lemma rule_edge_cases:
  assumes "length scopes = length rules" "e \<in> set (concat (map2 rule_edges rules scopes))"
  obtains n where "n < length rules" "e = edge_of ''consists_of'' (''rule.'' @ rule_id_of (rules ! n)) (rule_id_of (rules ! n)) \<or>
     (\<exists>j \<in> set (scoped_names (scopes ! n)). e = edge_of ''scoped_to'' (rule_id_of (rules ! n)) j)"
proof -
  from assms obtain n where "n < length rules" "e \<in> set (rule_edges (rules ! n) (scopes ! n))"
    by (auto simp: set_zip)
  then show thesis by (intro that) (auto simp: rule_edges_def)
qed

lemma map_filter_dicts [simp]: "List.map_filter dict_of (map PyDict xs) = xs"
  by (induction xs) (simp_all add: map_filter_simps)

definition converted_nodes :: "obj list \<Rightarrow> obj list \<Rightarrow> obj list \<Rightarrow> obj list \<Rightarrow> obj" where
  "converted_nodes subjects rules obs js =
     [(''subjects'', PyList (map PyDict subjects)), (''rules'', PyList (map PyDict rules)),
      (''obligations'', PyList (map PyDict obs)), (''jurisdictions'', PyList (map PyDict js))]"

lemma converted_lists [simp]:
  "node_list (converted_nodes subjects rules obs js) ''subjects'' = subjects"
  "node_list (converted_nodes subjects rules obs js) ''rules'' = rules"
  "node_list (converted_nodes subjects rules obs js) ''obligations'' = obs"
  "node_list (converted_nodes subjects rules obs js) ''jurisdictions'' = js"
  "node_list (converted_nodes subjects rules obs js) ''definitions'' = []"
  "node_list (converted_nodes subjects rules obs js) ''exemptions'' = []"
  "node_list (converted_nodes subjects rules obs js) ''precedents'' = []"
  "node_list (converted_nodes subjects rules obs js) ''citations'' = []"
  by (simp_all add: node_list_def converted_nodes_def dget_default_def map_filter_simps)

text \<open>What the compiler knows of a converted graph.\<close>

lemma converted_index:
  assumes index: "index_nodes (converted_nodes subjects rule_nodes obs js) = Inr by_id"
  shows "ids_of by_id ''rules'' = map node_id_of rule_nodes" "ids_of by_id ''obligations'' = map node_id_of obs"
    "ids_of by_id ''jurisdictions'' = map node_id_of js" "ids_of by_id ''subjects'' = map node_id_of subjects"
    "distinct (map node_id_of rule_nodes)" "distinct (map node_id_of obs)"
    "node_id_of ` set rule_nodes \<inter> node_id_of ` set obs = {}"
    "node \<in> set rule_nodes \<Longrightarrow> map_of by_id (node_id_of node) = Some (''rules'', node)"
    "(i, ''jurisdictions'', node) \<in> set by_id \<Longrightarrow> node \<in> set js"
proof -
  note kinds = ids_of_index [OF index]
  show "ids_of by_id ''rules'' = map node_id_of rule_nodes" "ids_of by_id ''obligations'' = map node_id_of obs"
    "ids_of by_id ''jurisdictions'' = map node_id_of js" "ids_of by_id ''subjects'' = map node_id_of subjects"
    by (simp_all add: kinds node_kinds_def)
  have all: "by_id = map (node_entry ''subjects'') subjects @ map (node_entry ''rules'') rule_nodes @
      map (node_entry ''obligations'') obs @ map (node_entry ''jurisdictions'') js"
    using index_nodes_Inr(1) [OF index] by (simp add: node_kinds_def)
  have fst: "map fst (map (node_entry k) xs) = map node_id_of xs" for k xs by (simp add: node_entry_def)
  have "distinct (map fst by_id)" by (rule index_nodes_Inr(2) [OF index])
  then have d: "distinct (map node_id_of subjects @ map node_id_of rule_nodes @ map node_id_of obs @ map node_id_of js)"
    unfolding all map_append fst .
  then show "distinct (map node_id_of rule_nodes)" "distinct (map node_id_of obs)"
    "node_id_of ` set rule_nodes \<inter> node_id_of ` set obs = {}"
    by auto
  show "map_of by_id (node_id_of node) = Some (''rules'', node)" if "node \<in> set rule_nodes"
  proof (rule map_of_is_SomeI)
    show "distinct (map fst by_id)" by (rule index_nodes_Inr(2) [OF index])
    show "(node_id_of node, ''rules'', node) \<in> set by_id" using that by (auto simp: all node_entry_def)
  qed
  show "node \<in> set js" if "(i, ''jurisdictions'', node) \<in> set by_id"
    using that by (auto simp: all node_entry_def)
qed

lemma converted_maps:
  assumes len: "length scopes = length rules" and ids: "distinct (map rule_id_of rules)"
    and apart: "\<forall>r \<in> set rules. \<forall>r' \<in> set rules. ''rule.'' @ rule_id_of r \<noteq> rule_id_of r'"
    and names: "set (ids_of by_id ''rules'') = (\<lambda>r. ''rule.'' @ rule_id_of r) ` set rules"
      "set (ids_of by_id ''jurisdictions'') = set (concat (map scoped_names scopes))"
      "set (ids_of by_id ''subjects'') = fst ` set routes"
    and routed: "\<forall>p \<in> set routes. snd p \<in> rule_id_of ` set rules"
    and read: "read_edges by_id (map PyDict (concat (map2 rule_edges rules scopes) @
       map (\<lambda>(s, r). edge_of ''applies_to'' (''rule.'' @ r) s) routes)) = Inr maps"
    and n: "n < length rules"
  shows "values_of (owners maps) (rule_id_of (rules ! n)) = [''rule.'' @ rule_id_of (rules ! n)]"
    and "set (values_of (scoped maps) (rule_id_of (rules ! n))) = set (scoped_names (scopes ! n))"
    and "values_of (scoped maps) (''rule.'' @ rule_id_of (rules ! n)) = []"
proof -
  define es where "es = concat (map2 rule_edges rules scopes) @ map (\<lambda>(s, r). edge_of ''applies_to'' (''rule.'' @ r) s) routes"
  have plain: "\<forall>e \<in> set es. plain_edge by_id e"
  proof
    fix e assume "e \<in> set es"
    then consider "e \<in> set (concat (map2 rule_edges rules scopes))"
      | p where "p \<in> set routes" "e = edge_of ''applies_to'' (''rule.'' @ snd p) (fst p)" by (auto simp: es_def)
    then show "plain_edge by_id e"
    proof cases
      case 1
      from len 1 obtain m where m: "m < length rules" "e = edge_of ''consists_of'' (''rule.'' @ rule_id_of (rules ! m)) (rule_id_of (rules ! m)) \<or>
        (\<exists>j \<in> set (scoped_names (scopes ! m)). e = edge_of ''scoped_to'' (rule_id_of (rules ! m)) j)"
        by (rule rule_edge_cases)
      have "''rule.'' @ rule_id_of (rules ! m) \<in> set (ids_of by_id ''rules'')" using m(1) names(1) by simp
      moreover have "set (scoped_names (scopes ! m)) \<subseteq> set (ids_of by_id ''jurisdictions'')" using m(1) len names(2) by auto
      ultimately show ?thesis using m(2) unfolding plain_edge_def by blast
    next
      case 2
      then have "''rule.'' @ snd p \<in> set (ids_of by_id ''rules'')" "fst p \<in> set (ids_of by_id ''subjects'')"
        using routed names(1,3) by auto
      with 2 show ?thesis unfolding plain_edge_def by blast
    qed
  qed
  have maps: "values_of (owners maps) k = owners_in es k" "set (values_of (scoped maps) k) = {t. edge_of ''scoped_to'' k t \<in> set es}" for k
    using read_plain_edges [OF _ plain] read unfolding read_edges_def es_def [symmetric] by (auto simp: values_of_def)
  show "values_of (owners maps) (rule_id_of (rules ! n)) = [''rule.'' @ rule_id_of (rules ! n)]"
    using filter_distinct_single [OF ids, of "rules ! n"] n
    unfolding maps(1) es_def owners_in_append owners_in_applies owners_in_rules [OF len] by simp
  have scoped: "edge_of ''scoped_to'' k t \<in> set es \<longleftrightarrow> (\<exists>m < length rules. k = rule_id_of (rules ! m) \<and> t \<in> set (scoped_names (scopes ! m)))" for k t
  proof
    assume "edge_of ''scoped_to'' k t \<in> set es"
    then have "edge_of ''scoped_to'' k t \<in> set (concat (map2 rule_edges rules scopes))" by (auto simp: es_def)
    with len obtain m where "m < length rules" "edge_of ''scoped_to'' k t = edge_of ''consists_of'' (''rule.'' @ rule_id_of (rules ! m)) (rule_id_of (rules ! m)) \<or>
        (\<exists>j \<in> set (scoped_names (scopes ! m)). edge_of ''scoped_to'' k t = edge_of ''scoped_to'' (rule_id_of (rules ! m)) j)"
      by (rule rule_edge_cases)
    then show "\<exists>m < length rules. k = rule_id_of (rules ! m) \<and> t \<in> set (scoped_names (scopes ! m))" by auto
  next
    assume "\<exists>m < length rules. k = rule_id_of (rules ! m) \<and> t \<in> set (scoped_names (scopes ! m))"
    then obtain m where m: "m < length rules" "k = rule_id_of (rules ! m)" "t \<in> set (scoped_names (scopes ! m))" by blast
    then have "edge_of ''scoped_to'' k t \<in> set (rule_edges (rules ! m) (scopes ! m))" by (simp add: rule_edges_def)
    moreover have "(rules ! m, scopes ! m) \<in> set (zip rules scopes)" using m(1) len by (auto simp: set_zip)
    ultimately show "edge_of ''scoped_to'' k t \<in> set es" unfolding es_def by fastforce
  qed
  have same: "m = n" if "m < length rules" "rule_id_of (rules ! n) = rule_id_of (rules ! m)" for m
    using that n ids by (simp add: distinct_conv_nth) metis
  show "set (values_of (scoped maps) (rule_id_of (rules ! n))) = set (scoped_names (scopes ! n))"
    using n same by (auto simp: maps(2) scoped)
  have "set (values_of (scoped maps) (''rule.'' @ rule_id_of (rules ! n))) = {}"
    using apart n by (auto simp: maps(2) scoped)
  then show "values_of (scoped maps) (''rule.'' @ rule_id_of (rules ! n)) = []" by simp
qed

lemma flat_conversion:
  assumes conv: "flat_to_graph w co flat d = Inr g"
    and comp: "compile_graph (dget g ''nodes'') (dget g ''edges'') = Inr (obs, defs)"
  shows "defs = [] \<and> (\<exists>rules. or_else (dget flat ''rules'') (PyList []) = PyList (map PyDict rules) \<and> list_all2 (carries_over d) rules obs)"
proof -
  from conv obtain rules scopes obs0 rule_nodes subjects jurisdictions routes where c:
    "or_else (dget flat ''rules'') (PyList []) = PyList (map PyDict rules)"
    "\<forall>r \<in> set rules. dget r ''id'' = PyStr (rule_id_of r) \<and> rule_id_of r \<noteq> []"
    "list_all2 rule_scope rules scopes"
    "list_all2 (\<lambda>r. with_version (flat_obligation r d (rule_id_of r))) rules obs0"
    "list_all2 (\<lambda>r. with_version (flat_rule_node co r (rule_id_of r))) rules rule_nodes"
    "jurisdictions_ok jurisdictions" "fst ` set jurisdictions = set (concat (map scoped_names scopes))"
    "list_all2 (\<lambda>(s, r). with_version (named_node s ''Subject'')) routes subjects"
    "\<forall>p \<in> set routes. snd p \<in> rule_id_of ` set rules"
    "dget g ''nodes'' = PyDict (converted_nodes subjects rule_nodes obs0 (map snd (sort_key fst jurisdictions)))"
    "dget g ''edges'' = PyList (map PyDict (concat (map2 rule_edges rules scopes) @
       map (\<lambda>(s, r). edge_of ''applies_to'' (''rule.'' @ r) s) routes))"
    unfolding converted_nodes_def by (rule flat_to_graph_Inr)
  let ?js = "map snd (sort_key fst jurisdictions)"
  from comp [unfolded c(10,11)] obtain by_id maps where k: "index_nodes (converted_nodes subjects rule_nodes obs0 ?js) = Inr by_id"
    "read_edges by_id (map PyDict (concat (map2 rule_edges rules scopes) @
       map (\<lambda>(s, r). edge_of ''applies_to'' (''rule.'' @ r) s) routes)) = Inr maps"
    "list_all2 (\<lambda>node ob. compile_obligation by_id maps (jurisdiction_children by_id) node = Inr ob) obs0 obs" "defs = []"
    by (rule compile_graph_Inr) auto
  note idx = converted_index [OF k(1)]
  have len: "length scopes = length rules" "length obs0 = length rules" "length rule_nodes = length rules" "length obs = length rules"
    using list_all2_lengthD [OF c(3)] list_all2_lengthD [OF c(4)] list_all2_lengthD [OF c(5)] list_all2_lengthD [OF k(3)] by simp_all
  have node_id: "node_id_of node = i" if "with_version (flat_obligation r d i) node" for node r i
    using with_version_dget [OF that] by (simp add: node_id_of_def flat_obligation_dget)
  have named_id: "node_id_of node = i" if "with_version (named_node i ty) node" for node i ty
    using with_version_dget [OF that] by (simp add: node_id_of_def named_node_def)
  have ob_ids: "map node_id_of obs0 = map rule_id_of rules"
    using c(4) by (induction rule: list_all2_induct) (auto simp: node_id)
  have rule_ids: "map node_id_of rule_nodes = map (\<lambda>r. ''rule.'' @ rule_id_of r) rules"
    using c(5) by (induction rule: list_all2_induct) (auto simp: flat_rule_tier(1))
  have subject_ids: "map node_id_of subjects = map fst routes"
    using c(8) by (induction rule: list_all2_induct) (auto simp: named_id)
  have "node_id_of (snd p) = fst p" if "p \<in> set jurisdictions" for p
    using c(6) that by (auto simp: jurisdictions_ok_def named_id)
  then have "set (map node_id_of ?js) = fst ` set jurisdictions" by (force simp: image_iff)
  then have j_ids: "set (ids_of by_id ''jurisdictions'') = set (concat (map scoped_names scopes))" by (simp only: idx(3) c(7))
  have ids: "distinct (map rule_id_of rules)" using idx(6) by (simp only: ob_ids)
  have apart: "\<forall>r \<in> set rules. \<forall>r' \<in> set rules. ''rule.'' @ rule_id_of r \<noteq> rule_id_of r'"
    using idx(7) unfolding set_map [symmetric] ob_ids rule_ids by auto
  have children: "jurisdiction_children by_id = []"
  proof (rule children_none, clarify)
    fix i node assume "(i, ''jurisdictions'', node) \<in> set by_id"
    then obtain j where "with_version (named_node j ''Jurisdiction'') node"
      using idx(9) c(6) by (fastforce simp: jurisdictions_ok_def)
    from with_version_dget [OF this] show "dget node ''parent'' = PyNone" by (simp add: named_node_def)
  qed
  note maps = converted_maps [OF len(1) ids apart _ j_ids _ c(9) k(2)]
  have "carries_over d (rules ! n) (obs ! n)" if n: "n < length rules" for n
  proof -
    let ?r = "rules ! n" and ?node = "obs0 ! n" and ?ob = "obs ! n"
    have m: "values_of (owners maps) (rule_id_of ?r) = [''rule.'' @ rule_id_of ?r]"
      "set (values_of (scoped maps) (rule_id_of ?r)) = set (scoped_names (scopes ! n))" "values_of (scoped maps) (''rule.'' @ rule_id_of ?r) = []"
      using maps [OF _ _ n] idx(1,4) rule_ids subject_ids by (simp_all add: image_comp)
    have node: "with_version (flat_obligation ?r d (rule_id_of ?r)) ?node" using c(4) n by (simp add: list_all2_conv_all_nth)
    have rn: "with_version (flat_rule_node co ?r (rule_id_of ?r)) (rule_nodes ! n)" using c(5) n by (simp add: list_all2_conv_all_nth)
    have ob: "compile_obligation by_id maps [] ?node = Inr ?ob"
      using k(3) n len(2) unfolding children by (simp add: list_all2_conv_all_nth)
    have own: "owning_rules maps ?node = [''rule.'' @ rule_id_of ?r]"
      and roots: "set (scope_roots maps ?node) = set (scoped_names (scopes ! n))"
      unfolding scope_roots_def owning_rules_def node_id [OF node] using m by simp_all
    note v = with_version_dget [OF node] and f = compile_obligation_fields [OF ob] compile_obligation_dget [OF ob]
    have tier: "dget ?ob ''risk_tier'' = dget (rule_nodes ! n) ''risk_tier''"
      unfolding f(10) own
    proof (rule declared_single)
      show "map_of by_id (''rule.'' @ rule_id_of ?r) = Some (''rules'', rule_nodes ! n)"
        using idx(8) [of "rule_nodes ! n"] n len(3) flat_rule_tier(1) [OF rn] by simp
      show "dget (rule_nodes ! n) ''risk_tier'' = PyNone \<or> (\<exists>u \<in> {''high'', ''medium'', ''low''}. dget (rule_nodes ! n) ''risk_tier'' = PyStr u)"
        unfolding flat_rule_tier(2) [OF rn] by (auto split: py.split option.split dest: tier_word_cases)
    qed
    have "canonicalise (dget ?ob ''risk_tier'') = canonicalise (dget ?r ''risk_tier'')"
      unfolding tier flat_rule_tier(2) [OF rn]
      by (cases "dget ?r ''risk_tier''") (simp_all add: tier_word_canonical, simp_all add: canonicalise_def)
    moreover have "rule_scope ?r (scopes ! n)" using c(3) n by (simp add: list_all2_conv_all_nth)
    moreover have "jurisdiction_matches (dget ?ob ''jurisdiction'') wanted = in_converted_scope (scopes ! n) wanted" for wanted
    proof (cases wanted)
      case (Some u)
      have "scope_roots maps ?node = [] \<longleftrightarrow> scoped_names (scopes ! n) = []" using roots by (metis set_empty)
      moreover have "set (with_descendants [] (scope_roots maps ?node)) = set (scoped_names (scopes ! n))"
        using roots by (simp add: with_descendants_none)
      ultimately show ?thesis
        using matches_names unfolding f(9) Some by (simp add: in_converted_scope_def) (simp add: jurisdiction_matches_def)
    qed (simp add: in_converted_scope_def jurisdiction_matches_def)
    moreover have "list_all (\<lambda>f. dget ?ob f = dget ?r f) kept_fields"
      using f(6) flat_obligation_dget(5) [of ?r d "rule_id_of ?r"] unfolding copied_fields_def kept_fields_def by (simp add: v)
    moreover have "dget ?ob ''id'' = dget ?r ''id''" using f(1) node_id [OF node] c(2) n by simp
    ultimately show ?thesis
      unfolding carries_over_def using f(2,7,8) by (simp add: v flat_obligation_dget) blast
  qed
  then have "list_all2 (carries_over d) rules obs" using len(4) by (simp add: list_all2_conv_all_nth)
  with c(1) k(4) show ?thesis by blast
qed

section \<open>Properties\<close>

text \<open>
  Property C20. The conversion of a flat Knowledge Graph and its compilation yield one obligation per flat
  rule, in order, with the rule's id, predicate, metric, bound, unit, windows and dates, with a risk tier
  that the governor reads alike. Of the rule's jurisdictions only those that are not universal are carried over:
  the obligation is in force in these, and everywhere when there are none. So a rule that names a universal
  jurisdiction beside others does not keep its scope (\<open>universal_jurisdiction_is_lost\<close>).
\<close>

theorem flat_conversion_exact:
  assumes "flat_to_graph w co flat d = Inr g"
    and "compile_graph (dget g ''nodes'') (dget g ''edges'') = Inr (obs, defs)"
  shows "defs = [] \<and> (\<exists>rules. or_else (dget flat ''rules'') (PyList []) = PyList (map PyDict rules) \<and> list_all2 (carries_over d) rules obs)"
  using assms by (rule flat_conversion)

definition blank_world :: world where
  "blank_world = sample_world\<lparr>w_sha := (\<lambda>b. [])\<rparr>"

lemma blank_versioned:
  assumes "exact_members node"
  shows "versioned blank_world node = Inr (node @ [(''version'', PyStr ''sha256:'')])"
  using exact_canonical [OF sample_runtime_laws assms]
  by (auto simp: versioned_def sha256_canonical_def blank_world_def to_hex_def)

definition mixed_flat :: obj where
  "mixed_flat =
     [(''metadata'', PyDict [(''version'', PyStr ''1'')]),
      (''rules'', PyList [PyDict [(''id'', PyStr ''r''), (''metric'', PyStr ''nox''), (''value'', PyInt 100),
          (''risk_tier'', PyStr ''Tier-1''), (''jurisdiction'', PyList [PyStr ''global'', PyStr ''us-ca''])]]),
      (''tag_registry'', PyDict [(''stack-1'', PyStr ''r'')])]"

lemma mixed_converts:
  "\<exists>g. flat_to_graph blank_world sample_codec mixed_flat PyNone = Inr g \<and>
     (case compile_graph (dget g ''nodes'') (dget g ''edges'') of
        Inl e \<Rightarrow> False
      | Inr (obs, defs) \<Rightarrow> defs = [] \<and> map (\<lambda>ob. (dget ob ''risk_tier'', dget ob ''jurisdiction'',
          jurisdiction_matches (dget ob ''jurisdiction'') (Some ''eu''))) obs = [(PyStr ''high'', PyList [PyStr ''us-ca''], False)])"
proof -
  let ?g = "[(''metadata'', PyDict (flat_metadata sample_codec [(''version'', PyStr ''1'')])),
    (''nodes'', PyDict (converted_nodes [named_node ''stack-1'' ''Subject'' @ [(''version'', PyStr ''sha256:'')]]
       [[(''id'', PyStr ''rule.r''), (''type'', PyStr ''Rule''), (''name'', PyStr (value_text sample_codec (PyStr ''r''))),
         (''risk_tier'', PyStr ''high''), (''version'', PyStr ''sha256:'')]]
       [[(''id'', PyStr ''r''), (''type'', PyStr ''Obligation''), (''obligation_type'', PyStr ''must_not_exceed''),
         (''metric'', PyStr ''nox''), (''value'', PyInt 100), (''version'', PyStr ''sha256:'')]]
       [named_node ''us-ca'' ''Jurisdiction'' @ [(''version'', PyStr ''sha256:'')]])),
    (''edges'', PyList (map PyDict [edge_of ''consists_of'' ''rule.r'' ''r'', edge_of ''scoped_to'' ''r'' ''us-ca'',
       edge_of ''applies_to'' ''rule.r'' ''stack-1'']))]"
  have tier: "map_of tier_words (py_lower (py_strip ''Tier-1'')) = Some ''high''" by code_simp
  have rule: "flat_rule_node sample_codec [(''id'', PyStr ''r''), (''metric'', PyStr ''nox''), (''value'', PyInt 100),
          (''risk_tier'', PyStr ''Tier-1''), (''jurisdiction'', PyList [PyStr ''global'', PyStr ''us-ca''])] ''r'' =
      [(''id'', PyStr ''rule.r''), (''type'', PyStr ''Rule''), (''name'', PyStr (value_text sample_codec (PyStr ''r''))),
         (''risk_tier'', PyStr ''high'')]"
    by (simp add: flat_rule_node_def tier or_else_def)
  have ob: "flat_obligation [(''id'', PyStr ''r''), (''metric'', PyStr ''nox''), (''value'', PyInt 100),
          (''risk_tier'', PyStr ''Tier-1''), (''jurisdiction'', PyList [PyStr ''global'', PyStr ''us-ca''])] PyNone ''r'' =
      [(''id'', PyStr ''r''), (''type'', PyStr ''Obligation''), (''obligation_type'', PyStr ''must_not_exceed''),
         (''metric'', PyStr ''nox''), (''value'', PyInt 100)]"
    by (simp add: flat_obligation_def kept_fields_def field_if_def when_truthy_def or_else_def dget_default_def)
  have "flat_to_graph blank_world sample_codec mixed_flat PyNone = Inr ?g"
    by (simp add: flat_to_graph_def mixed_flat_def or_else_def named_rule_def map_filter_simps flat_step_def rule ob
        blank_versioned exact_int_limit_def flat_scope_def jurisdiction_step_def universal_names_def named_node_def alist_setdefault_def
        routes_of_def subject_step_def converted_nodes_def Let_def)
  moreover have "case compile_graph (dget ?g ''nodes'') (dget ?g ''edges'') of
        Inl e \<Rightarrow> False
      | Inr (obs, defs) \<Rightarrow> defs = [] \<and> map (\<lambda>ob. (dget ob ''risk_tier'', dget ob ''jurisdiction'',
          jurisdiction_matches (dget ob ''jurisdiction'') (Some ''eu''))) obs = [(PyStr ''high'', PyList [PyStr ''us-ca''], False)]"
    by code_simp
  ultimately show ?thesis by blast
qed

theorem flat_conversion_exact_witness:
  "\<exists>g obs. flat_to_graph blank_world sample_codec mixed_flat PyNone = Inr g \<and>
     map_sum id fst (compile_graph (dget g ''nodes'') (dget g ''edges'')) = Inr obs \<and>
     (\<exists>rules. list_all2 (carries_over PyNone) rules obs) \<and> length obs = 1"
proof -
  obtain g where g: "flat_to_graph blank_world sample_codec mixed_flat PyNone = Inr g"
    "case compile_graph (dget g ''nodes'') (dget g ''edges'') of
        Inl e \<Rightarrow> False
      | Inr (obs, defs) \<Rightarrow> defs = [] \<and> map (\<lambda>ob. (dget ob ''risk_tier'', dget ob ''jurisdiction'',
          jurisdiction_matches (dget ob ''jurisdiction'') (Some ''eu''))) obs = [(PyStr ''high'', PyList [PyStr ''us-ca''], False)]"
    using mixed_converts by blast
  then obtain obs defs where comp: "compile_graph (dget g ''nodes'') (dget g ''edges'') = Inr (obs, defs)" "length obs = 1"
    by (auto split: sum.splits)
  from flat_conversion_exact [OF g(1) comp(1)] g(1) comp show ?thesis by auto
qed

text \<open>
  A flat rule whose jurisdictions name a universal one beside others was in force everywhere;
  its conversion keeps the others only, so in every other jurisdiction the obligation is lost.
\<close>

theorem universal_jurisdiction_is_lost:
  "jurisdiction_matches (PyList [PyStr ''global'', PyStr ''us-ca'']) (Some ''eu'') \<and>
   (\<exists>g obs. flat_to_graph blank_world sample_codec mixed_flat PyNone = Inr g \<and>
      compile_graph (dget g ''nodes'') (dget g ''edges'') = Inr (obs, []) \<and>
      map (\<lambda>ob. jurisdiction_matches (dget ob ''jurisdiction'') (Some ''eu'')) obs = [False])"
proof -
  have flat: "jurisdiction_matches (PyList [PyStr ''global'', PyStr ''us-ca'']) (Some ''eu'')" by code_simp
  obtain g where g: "flat_to_graph blank_world sample_codec mixed_flat PyNone = Inr g"
    "case compile_graph (dget g ''nodes'') (dget g ''edges'') of
        Inl e \<Rightarrow> False
      | Inr (obs, defs) \<Rightarrow> defs = [] \<and> map (\<lambda>ob. (dget ob ''risk_tier'', dget ob ''jurisdiction'',
          jurisdiction_matches (dget ob ''jurisdiction'') (Some ''eu''))) obs = [(PyStr ''high'', PyList [PyStr ''us-ca''], False)]"
    using mixed_converts by blast
  then obtain obs where "compile_graph (dget g ''nodes'') (dget g ''edges'') = Inr (obs, [])"
      "map (\<lambda>ob. jurisdiction_matches (dget ob ''jurisdiction'') (Some ''eu'')) obs = [False]"
    by (auto split: sum.splits)
  with flat g(1) show ?thesis by (intro conjI exI [of _ g] exI [of _ obs])
qed

end
