(* ===== verification/Agreement_Monitor.thy ===== *)
theory Agreement_Monitor
  imports Canonical_Reading Envelope
begin

text \<open>
  The agreement monitor (\<open>ski_model/v3/agreement_monitor.py\<close>): a rolling window of verifier statuses with
  its agreement rate. The quotient of two integers is the double nearest to it (\<open>nearest\<close> of \<open>runtime\<close>).
\<close>

section \<open>The monitor\<close>

record monitor =
  window_size :: int
  threshold :: pyfloat
  recorded :: "verifier_status list"

datatype monitor_error = WindowNotPositive int | BadThreshold pyfloat | UnknownStatus string | NotAStatus

text \<open>What \<open>record\<close> is given: a member of the enumeration, a text, or something else.\<close>

datatype status_input = Status_Member verifier_status | Status_Text string | Other_Value

definition normalise_status :: "status_input \<Rightarrow> monitor_error + verifier_status" where
  "normalise_status v =
     (case v of
        Status_Member s \<Rightarrow> Inr s
      | Status_Text t \<Rightarrow> (case status_of_name t of None \<Rightarrow> Inl (UnknownStatus t) | Some s \<Rightarrow> Inr s)
      | Other_Value \<Rightarrow> Inl NotAStatus)"

definition new_monitor :: "int \<Rightarrow> pyfloat \<Rightarrow> monitor_error + monitor" where
  "new_monitor n limit =
     (if n \<le> 0 then Inl (WindowNotPositive n)
      else if \<not> (float_le (Fin 0) limit \<and> float_le limit (Fin 1)) then Inl (BadThreshold limit)
      else Inr \<lparr>window_size = n, threshold = limit, recorded = []\<rparr>)"

text \<open>\<open>append\<close> on a \<open>deque(maxlen=n)\<close>.\<close>

definition deque_append :: "int \<Rightarrow> 'a list \<Rightarrow> 'a \<Rightarrow> 'a list" where
  "deque_append n xs x = (if int (length xs) < n then xs @ [x] else tl xs @ [x])"

definition record_status :: "monitor \<Rightarrow> status_input \<Rightarrow> monitor_error + monitor" where
  "record_status mon v =
     (case normalise_status v of
        Inl e \<Rightarrow> Inl e
      | Inr s \<Rightarrow> Inr (mon\<lparr>recorded := deque_append (window_size mon) (recorded mon) s\<rparr>))"

definition count_status :: "verifier_status list \<Rightarrow> verifier_status \<Rightarrow> nat" where
  "count_status xs s = length (filter (\<lambda>x. x = s) xs)"

text \<open>\<open>agreed / total\<close>: two integers of a window are far inside the range of a double.\<close>

definition agreement_rate :: "runtime \<Rightarrow> verifier_status list \<Rightarrow> pyfloat option" where
  "agreement_rate rt xs =
     (if xs = [] then None
      else Some (case nearest rt (of_nat (count_status xs AGREED) / of_nat (length xs)) of
          None \<Rightarrow> PosInf | Some q \<Rightarrow> Fin q))"

record monitor_view =
  v_window_size :: int
  v_threshold :: pyfloat
  v_observed :: nat
  v_counts :: "(string \<times> nat) list"
  v_rate :: "pyfloat option"
  v_healthy :: bool

definition all_statuses :: "verifier_status list" where
  "all_statuses = [AGREED, LLM_CONTRADICTION, NEURO_SYMBOLIC_DIVERGENCE, UNVERIFIABLE]"

definition monitor_snapshot :: "runtime \<Rightarrow> monitor \<Rightarrow> monitor_view" where
  "monitor_snapshot rt mon =
     (let rate = agreement_rate rt (recorded mon) in
      \<lparr>v_window_size = window_size mon, v_threshold = threshold mon, v_observed = length (recorded mon),
       v_counts = map (\<lambda>s. (status_name s, count_status (recorded mon) s)) all_statuses,
       v_rate = rate,
       v_healthy = (case rate of None \<Rightarrow> True | Some r \<Rightarrow> float_le (threshold mon) r)\<rparr>)"

definition is_healthy :: "runtime \<Rightarrow> monitor \<Rightarrow> bool" where
  "is_healthy rt mon =
     (case agreement_rate rt (recorded mon) of None \<Rightarrow> True | Some r \<Rightarrow> float_le (threshold mon) r)"

section \<open>The window\<close>

definition last_of :: "int \<Rightarrow> 'a list \<Rightarrow> 'a list" where
  "last_of n xs = drop (length xs - nat n) xs"

lemma last_of_append:
  assumes "n > 0"
  shows "deque_append n (last_of n xs) x = last_of n (xs @ [x])"
proof (cases "length xs < nat n")
  case True
  then have "int (length xs) < n" using assms by (simp add: zless_nat_eq_int_zless)
  with True show ?thesis by (simp add: deque_append_def last_of_def)
next
  case False
  then have "Suc (length xs) - nat n = Suc (length xs - nat n)" by simp
  with False assms show ?thesis
    by (simp add: deque_append_def last_of_def drop_Suc tl_drop of_nat_diff)
qed

lemma record_members:
  assumes "n > 0"
  shows "fold_err (\<lambda>v mon. record_status mon (Status_Member v)) xs
      \<lparr>window_size = n, threshold = l, recorded = last_of n ys\<rparr> =
    Inr \<lparr>window_size = n, threshold = l, recorded = last_of n (ys @ xs)\<rparr>"
proof (induction xs arbitrary: ys)
  case (Cons x xs)
  show ?case
    using Cons [of "ys @ [x]"] by (simp add: record_status_def normalise_status_def last_of_append [OF assms])
qed simp

lemma counts_partition: "sum_list (map (count_status xs) all_statuses) = length xs"
proof (induction xs)
  case (Cons x xs)
  then show ?case by (cases x) (simp_all add: count_status_def all_statuses_def)
qed (simp add: count_status_def all_statuses_def)

section \<open>Properties\<close>

text \<open>Rounding to the nearest double is monotone, and defined between 0 and 1.\<close>

definition rounding_laws :: "runtime \<Rightarrow> bool" where
  "rounding_laws rt \<longleftrightarrow>
     (\<forall>p q p' q'. p \<le> q \<longrightarrow> nearest rt p = Some p' \<longrightarrow> nearest rt q = Some q' \<longrightarrow> p' \<le> q') \<and>
     (\<forall>q. 0 \<le> q \<longrightarrow> q \<le> 1 \<longrightarrow> nearest rt q \<noteq> None)"

lemma rate_reaches:
  assumes "rounding_laws rt" "nearest rt limit = Some limit"
    and "limit * of_nat (length xs) \<le> of_nat (count_status xs AGREED)" "agreement_rate rt xs = Some r"
  shows "float_le (Fin limit) r"
proof -
  let ?q = "of_nat (count_status xs AGREED) / of_nat (length xs) :: rat"
  have ne: "xs \<noteq> []" using assms(4) by (auto simp: agreement_rate_def)
  then have pos: "(0 :: rat) < of_nat (length xs)" by simp
  have "count_status xs AGREED \<le> length xs" by (simp add: count_status_def)
  then have "0 \<le> ?q" "?q \<le> 1" using pos by (simp_all add: divide_le_eq)
  then obtain p where p: "nearest rt ?q = Some p" using assms(1) unfolding rounding_laws_def by blast
  have "limit \<le> ?q" using assms(3) pos by (simp add: le_divide_eq)
  then have "limit \<le> p" using assms(1,2) p unfolding rounding_laws_def by blast
  then show ?thesis using assms(4) ne p by (auto simp: agreement_rate_def)
qed

text \<open>
  A monitor that has recorded a history shows exactly its last \<open>window_size\<close> statuses: their
  number, and the count of each status. The flag of the snapshot is the answer of \<open>is_healthy\<close>, which is
  true whenever the exact share of AGREED in the window reaches the threshold, also on an empty window.
\<close>

theorem monitor_window:
  assumes "new_monitor n (Fin limit) = Inr start"
    and "fold_err (\<lambda>v mon. record_status mon (Status_Member v)) history start = Inr mon"
    and "rounding_laws rt" "nearest rt limit = Some limit"
  shows "v_observed (monitor_snapshot rt mon) = min (nat n) (length history) \<and>
    v_counts (monitor_snapshot rt mon) =
      map (\<lambda>s. (status_name s, count_status (last_of n history) s)) all_statuses \<and>
    v_healthy (monitor_snapshot rt mon) = is_healthy rt mon \<and>
    (limit * of_nat (length (last_of n history)) \<le> of_nat (count_status (last_of n history) AGREED) \<longrightarrow>
       is_healthy rt mon)"
proof -
  have n: "n > 0" and start: "start = \<lparr>window_size = n, threshold = Fin limit, recorded = last_of n []\<rparr>"
    using assms(1) by (auto simp: new_monitor_def last_of_def split: if_splits)
  have mon: "mon = \<lparr>window_size = n, threshold = Fin limit, recorded = last_of n history\<rparr>"
    using assms(2) record_members [OF n, where l = "Fin limit" and xs = history and ys = "[]"] by (simp add: start)
  have "length (last_of n history) = min (nat n) (length history)" by (auto simp: last_of_def)
  then show ?thesis
    using rate_reaches [OF assms(3,4), of "last_of n history"]
    by (auto simp: mon monitor_snapshot_def Let_def is_healthy_def split: option.split)
qed

definition sample_rounding :: runtime where
  "sample_rounding = \<lparr>nearest = Some, repr_text = (\<lambda>q. []), nfc = (\<lambda>t. t), max_int_digits = 4300\<rparr>"

definition sample_history :: "verifier_status list" where
  "sample_history = [UNVERIFIABLE, AGREED, LLM_CONTRADICTION, AGREED]"

theorem monitor_window_witness:
  "\<exists>start mon. new_monitor 3 (Fin (1 / 2)) = Inr start \<and>
     fold_err (\<lambda>v mon. record_status mon (Status_Member v)) sample_history start = Inr mon \<and>
     v_observed (monitor_snapshot sample_rounding mon) = 3 \<and> is_healthy sample_rounding mon"
proof -
  define start where "start = \<lparr>window_size = 3, threshold = Fin (1 / 2), recorded = []\<rparr>"
  define mon where "mon = \<lparr>window_size = 3, threshold = Fin (1 / 2), recorded = last_of 3 sample_history\<rparr>"
  have new: "new_monitor 3 (Fin (1 / 2)) = Inr start" by (simp add: new_monitor_def start_def)
  have run: "fold_err (\<lambda>v mon. record_status mon (Status_Member v)) sample_history start = Inr mon"
    using record_members [where n = 3 and l = "Fin (1 / 2)" and xs = sample_history and ys = "[]"] by (simp add: start_def mon_def last_of_def)
  have laws: "rounding_laws sample_rounding" "nearest sample_rounding (1 / 2) = Some (1 / 2)"
    by (simp_all add: rounding_laws_def sample_rounding_def)
  have "1 / 2 * of_nat (length (last_of 3 sample_history)) \<le> (of_nat (count_status (last_of 3 sample_history) AGREED) :: rat)"
    by (simp add: last_of_def sample_history_def count_status_def numeral_3_eq_3)
  moreover have "min (nat 3) (length sample_history) = 3" by (simp add: sample_history_def)
  ultimately show ?thesis using monitor_window [OF new run laws] new run by metis
qed

end
