(* ===== verification/Net_Address.thy ===== *)
theory Net_Address
  imports KG_Loader
begin

text \<open>
  What the sovereignty checks use of Python's standard library (CPython 3.14, the version of the runtime's
  image): \<open>str\<close> methods, \<open>ipaddress.ip_address\<close> with the address classes, and the host name of
  \<open>urllib.parse.urlsplit\<close>. Text is ASCII; an address is the integer it denotes.
\<close>

section \<open>Text\<close>

definition strip_chars :: "string \<Rightarrow> string \<Rightarrow> string" where
  "strip_chars cs s = rev (dropWhile (\<lambda>c. c \<in> set cs) (rev (dropWhile (\<lambda>c. c \<in> set cs) s)))"

definition rstrip_chars :: "string \<Rightarrow> string \<Rightarrow> string" where
  "rstrip_chars cs s = rev (dropWhile (\<lambda>c. c \<in> set cs) (rev s))"

text \<open>\<open>s.partition(c)\<close> and \<open>s.rpartition(c)[2]\<close> for a one-character separator.\<close>

definition before_char :: "char \<Rightarrow> string \<Rightarrow> string" where
  "before_char c s = takeWhile (\<lambda>x. x \<noteq> c) s"

definition after_char :: "char \<Rightarrow> string \<Rightarrow> string" where
  "after_char c s = drop 1 (dropWhile (\<lambda>x. x \<noteq> c) s)"

definition after_last :: "char \<Rightarrow> string \<Rightarrow> string" where
  "after_last c s = rev (takeWhile (\<lambda>x. x \<noteq> c) (rev s))"

definition starts_with :: "string \<Rightarrow> string \<Rightarrow> bool" where
  "starts_with p s = (take (length p) s = p)"

definition ends_with :: "string \<Rightarrow> string \<Rightarrow> bool" where
  "ends_with p s = (length p \<le> length s \<and> drop (length s - length p) s = p)"

fun contains_text :: "string \<Rightarrow> string \<Rightarrow> bool" where
  "contains_text p [] = (p = [])"
| "contains_text p (c # cs) = (starts_with p (c # cs) \<or> contains_text p cs)"

definition is_letter :: "char \<Rightarrow> bool" where
  "is_letter c = (let n = (of_char c :: nat) in (65 \<le> n \<and> n \<le> 90) \<or> (97 \<le> n \<and> n \<le> 122))"

definition is_decimal :: "char \<Rightarrow> bool" where
  "is_decimal c = (let n = (of_char c :: nat) in 48 \<le> n \<and> n \<le> 57)"

section \<open>IP addresses\<close>

datatype ip = IPv4 int | IPv6 int

definition decimal_value :: "string \<Rightarrow> int" where
  "decimal_value s = foldl (\<lambda>a c. 10 * a + (of_char c - 48)) 0 s"

definition parse_octet :: "string \<Rightarrow> int option" where
  "parse_octet s =
     (if s = [] \<or> \<not> list_all is_decimal s \<or> length s > 3 \<or> (s \<noteq> ''0'' \<and> hd s = CHR ''0'') \<or> decimal_value s > 255
      then None else Some (decimal_value s))"

definition parse_ipv4 :: "string \<Rightarrow> int option" where
  "parse_ipv4 s =
     (case map parse_octet (py_split (CHR ''.'') s) of
        [Some a, Some b, Some c, Some d] \<Rightarrow> Some (((a * 256 + b) * 256 + c) * 256 + d)
      | _ \<Rightarrow> None)"

definition hex_value :: "string \<Rightarrow> int" where
  "hex_value s = foldl (\<lambda>a c. 16 * a + (case hex_digit c of None \<Rightarrow> 0 | Some d \<Rightarrow> int d)) 0 s"

definition parse_hextet :: "string \<Rightarrow> int option" where
  "parse_hextet s =
     (if s = [] \<or> \<not> list_all (\<lambda>c. hex_digit c \<noteq> None) s \<or> length s > 4 then None else Some (hex_value s))"

fun all_some :: "'a option list \<Rightarrow> 'a list option" where
  "all_some [] = Some []"
| "all_some (x # xs) = (case x of None \<Rightarrow> None | Some a \<Rightarrow> map_option (\<lambda>as. a # as) (all_some xs))"

definition join_hextets :: "int list \<Rightarrow> int" where
  "join_hextets hs = foldl (\<lambda>a h. a * 65536 + h) 0 hs"

text \<open>The colon-separated parts, a dotted suffix replaced by its two hextets.\<close>

definition ipv6_parts :: "string \<Rightarrow> int option list option" where
  "ipv6_parts s =
     (let parts = py_split (CHR '':'') s
      in if length parts < 3 then None
         else if CHR ''.'' \<in> set (last parts) then
           (case parse_ipv4 (last parts) of
              None \<Rightarrow> None
            | Some v \<Rightarrow>
                map_option (\<lambda>hs. hs @ [Some (v div 65536), Some (v mod 65536)])
                  (all_some (map (\<lambda>p. if p = [] then Some None else map_option Some (parse_hextet p)) (butlast parts))))
         else all_some (map (\<lambda>p. if p = [] then Some None else map_option Some (parse_hextet p)) parts))"

text \<open>\<open>None\<close> is an empty part; the zero run is the one empty part that is neither first nor last.\<close>

definition expand_hextets :: "int option list \<Rightarrow> int list option" where
  "expand_hextets parts =
     (let n = length parts;
          skips = filter (\<lambda>i. parts ! i = None) [1..<n - 1]
      in if n > 9 then None
         else (case skips of
             [] \<Rightarrow> if n = 8 then all_some parts else None
           | [i] \<Rightarrow>
               (let hi = (if hd parts = None then i - 1 else i);
                    lo = (if last parts = None then n - i - 2 else n - i - 1)
                in if hd parts = None \<and> hi > 0 \<or> last parts = None \<and> lo > 0 \<or> hi + lo > 7 then None
                   else (case (all_some (take hi parts), all_some (drop (n - lo) parts)) of
                       (Some hs, Some ls) \<Rightarrow> Some (hs @ replicate (8 - (hi + lo)) 0 @ ls)
                     | _ \<Rightarrow> None))
           | _ \<Rightarrow> None))"

definition parse_ipv6 :: "string \<Rightarrow> int option" where
  "parse_ipv6 s =
     (let addr = before_char (CHR ''%'') s; zone = after_char (CHR ''%'') s in
      if CHR ''%'' \<in> set s \<and> (zone = [] \<or> CHR ''%'' \<in> set zone) then None
      else Option.bind (ipv6_parts addr) (\<lambda>parts. map_option join_hextets (expand_hextets parts)))"

definition ip_address :: "string \<Rightarrow> ip option" where
  "ip_address s =
     (case parse_ipv4 s of
        Some v \<Rightarrow> Some (IPv4 v)
      | None \<Rightarrow> if CHR ''/'' \<in> set s then None else map_option IPv6 (parse_ipv6 s))"

text \<open>Membership in a network of \<open>w\<close>-bit addresses.\<close>

definition in_network :: "nat \<Rightarrow> int \<Rightarrow> int \<times> nat \<Rightarrow> bool" where
  "in_network w a = (\<lambda>(base, prefix). a div 2 ^ (w - prefix) = base div 2 ^ (w - prefix))"

definition quad :: "int \<Rightarrow> int \<Rightarrow> int \<Rightarrow> int \<Rightarrow> int" where
  "quad a b c d = ((a * 256 + b) * 256 + c) * 256 + d"

definition private_v4 :: "(int \<times> nat) list" where
  "private_v4 =
     [(quad 0 0 0 0, 8), (quad 10 0 0 0, 8), (quad 127 0 0 0, 8), (quad 169 254 0 0, 16), (quad 172 16 0 0, 12),
      (quad 192 0 0 0, 24), (quad 192 0 0 170, 31), (quad 192 0 2 0, 24), (quad 192 168 0 0, 16),
      (quad 198 18 0 0, 15), (quad 198 51 100 0, 24), (quad 203 0 113 0, 24), (quad 240 0 0 0, 4),
      (quad 255 255 255 255, 32)]"

definition public_v4 :: "(int \<times> nat) list" where
  "public_v4 = [(quad 192 0 0 9, 32), (quad 192 0 0 10, 32)]"

definition high :: "int list \<Rightarrow> int" where
  "high hs = join_hextets (hs @ replicate (8 - length hs) 0)"

definition private_v6 :: "(int \<times> nat) list" where
  "private_v6 =
     [(1, 128), (0, 128), (high [0, 0, 0, 0, 0, 65535], 96), (high [100, 65435, 1], 48), (high [256], 64),
      (high [8193], 23), (high [8193, 3512], 32), (high [8194], 16), (high [16383], 20), (high [64512], 7),
      (high [65152], 10)]"

definition public_v6 :: "(int \<times> nat) list" where
  "public_v6 =
     [(high [8193, 1] + 1, 128), (high [8193, 1] + 2, 128), (high [8193, 3], 32), (high [8193, 4, 274], 48),
      (high [8193, 32], 28), (high [8193, 48], 28)]"

definition ipv4_mapped :: "int \<Rightarrow> int option" where
  "ipv4_mapped a = (if a div 2 ^ 32 = 65535 then Some (a mod 2 ^ 32) else None)"

definition private4 :: "int \<Rightarrow> bool" where
  "private4 a = (list_ex (in_network 32 a) private_v4 \<and> \<not> list_ex (in_network 32 a) public_v4)"

definition is_private :: "ip \<Rightarrow> bool" where
  "is_private p =
     (case p of
        IPv4 a \<Rightarrow> private4 a
      | IPv6 a \<Rightarrow>
          (case ipv4_mapped a of
             Some b \<Rightarrow> private4 b
           | None \<Rightarrow> list_ex (in_network 128 a) private_v6 \<and> \<not> list_ex (in_network 128 a) public_v6))"

definition is_loopback :: "ip \<Rightarrow> bool" where
  "is_loopback p =
     (case p of
        IPv4 a \<Rightarrow> in_network 32 a (quad 127 0 0 0, 8)
      | IPv6 a \<Rightarrow> (case ipv4_mapped a of Some b \<Rightarrow> in_network 32 b (quad 127 0 0 0, 8) | None \<Rightarrow> a = 1))"

definition is_link_local :: "ip \<Rightarrow> bool" where
  "is_link_local p =
     (case p of
        IPv4 a \<Rightarrow> in_network 32 a (quad 169 254 0 0, 16)
      | IPv6 a \<Rightarrow> (case ipv4_mapped a of
            Some b \<Rightarrow> in_network 32 b (quad 169 254 0 0, 16)
          | None \<Rightarrow> in_network 128 a (high [65152], 10)))"

definition is_unspecified :: "ip \<Rightarrow> bool" where
  "is_unspecified p = (case p of IPv4 a \<Rightarrow> a = 0 | IPv6 a \<Rightarrow> (case ipv4_mapped a of Some b \<Rightarrow> b = 0 | None \<Rightarrow> a = 0))"

section \<open>The host of a URL\<close>

text \<open>\<open>Inl\<close> where \<open>urlsplit\<close> raises \<open>ValueError\<close>.\<close>

definition scheme_char :: "char \<Rightarrow> bool" where
  "scheme_char c = (is_letter c \<or> is_decimal c \<or> c \<in> set ''+-.'')"

definition clean_url :: "string \<Rightarrow> string" where
  "clean_url url =
     filter (\<lambda>c. of_char c \<noteq> (9 :: nat) \<and> of_char c \<noteq> (10 :: nat) \<and> of_char c \<noteq> (13 :: nat))
       (dropWhile (\<lambda>c. of_char c \<le> (32 :: nat)) url)"

definition drop_scheme :: "string \<Rightarrow> string" where
  "drop_scheme url =
     (let s = before_char (CHR '':'') url in
      if CHR '':'' \<in> set url \<and> s \<noteq> [] \<and> is_letter (hd url) \<and> list_all scheme_char s
      then after_char (CHR '':'') url else url)"

definition split_netloc :: "string \<Rightarrow> string" where
  "split_netloc url = takeWhile (\<lambda>c. c \<notin> set ''/?#'') (drop 2 url)"

definition bracketed_host_ok :: "string \<Rightarrow> bool" where
  "bracketed_host_ok h =
     (if starts_with ''v'' h then
        (let digits = takeWhile (\<lambda>c. hex_digit c \<noteq> None) (drop 1 h); rest = drop (1 + length digits) h
         in digits \<noteq> [] \<and> starts_with ''.'' rest \<and> length rest > 1)
      else (case ip_address h of Some (IPv6 _) \<Rightarrow> True | _ \<Rightarrow> False))"

definition bracketed_netloc_ok :: "string \<Rightarrow> bool" where
  "bracketed_netloc_ok netloc =
     (let hp = after_last (CHR ''@'') netloc in
      if CHR ''['' \<in> set hp then
        (let inner = after_char (CHR ''['') hp; port = after_char (CHR '']'') inner
         in before_char (CHR ''['') hp = [] \<and> (port = [] \<or> starts_with '':'' port) \<and>
            bracketed_host_ok (before_char (CHR '']'') inner))
      else bracketed_host_ok (before_char (CHR '':'') hp))"

definition url_netloc :: "string \<Rightarrow> string option" where
  "url_netloc url =
     (let rest = drop_scheme (clean_url url) in
      if \<not> starts_with ''//'' rest then Some []
      else (let netloc = split_netloc rest; l = CHR ''['' \<in> set netloc; r = CHR '']'' \<in> set netloc in
        if l \<noteq> r then None
        else if l \<and> r \<and> \<not> bracketed_netloc_ok netloc then None
        else Some netloc))"

definition netloc_host :: "string \<Rightarrow> string" where
  "netloc_host netloc =
     (let hostinfo = after_last (CHR ''@'') netloc;
          host = (if CHR ''['' \<in> set hostinfo then before_char (CHR '']'') (after_char (CHR ''['') hostinfo)
                  else before_char (CHR '':'') hostinfo)
      in py_lower (before_char (CHR ''%'') host) @ drop (length (before_char (CHR ''%'') host)) host)"

section \<open>Facts\<close>

lemma in_network_iff:
  assumes "2 ^ (w - prefix) dvd base"
  shows "in_network w a (base, prefix) \<longleftrightarrow> base \<le> a \<and> a < base + 2 ^ (w - prefix)"
proof -
  obtain k where k: "base = 2 ^ (w - prefix) * k" using assms by (auto simp: dvd_def)
  have pos: "(0 :: int) < 2 ^ (w - prefix)" by simp
  have "a div 2 ^ (w - prefix) = k \<longleftrightarrow> 2 ^ (w - prefix) * k \<le> a \<and> a < 2 ^ (w - prefix) * k + 2 ^ (w - prefix)"
  proof
    assume "a div 2 ^ (w - prefix) = k"
    then have "a = 2 ^ (w - prefix) * k + a mod 2 ^ (w - prefix)" by (metis mult_div_mod_eq)
    with pos show "2 ^ (w - prefix) * k \<le> a \<and> a < 2 ^ (w - prefix) * k + 2 ^ (w - prefix)"
      using pos_mod_sign [OF pos, of a] pos_mod_bound [OF pos, of a] by linarith
  next
    assume "2 ^ (w - prefix) * k \<le> a \<and> a < 2 ^ (w - prefix) * k + 2 ^ (w - prefix)"
    then show "a div 2 ^ (w - prefix) = k"
      by (intro int_div_pos_eq [where r = "a - 2 ^ (w - prefix) * k"]) auto
  qed
  then show ?thesis by (simp add: in_network_def k)
qed

lemma py_split_append:
  "sep \<notin> set a \<Longrightarrow> py_split sep (a @ sep # b) = a # py_split sep b"
  by (induction a) auto

lemma parse_ipv4_quad:
  assumes "parse_octet a = Some v" "parse_octet b = Some w" "parse_octet c = Some x" "parse_octet d = Some y"
  shows "parse_ipv4 (a @ ''.'' @ b @ ''.'' @ c @ ''.'' @ d) = Some (quad v w x y)"
proof -
  have no: "CHR ''.'' \<notin> set s" if "parse_octet s = Some z" for s z
    using that by (auto simp: parse_octet_def list_all_iff is_decimal_def split: if_splits)
  show ?thesis
    by (simp add: parse_ipv4_def py_split_append py_split_single no [OF assms(1)] no [OF assms(2)] no [OF assms(3)]
        no [OF assms(4)] assms quad_def)
qed

end
