(* ===== verification/Sovereignty.thy ===== *)
theory Sovereignty
  imports Net_Address
begin

text \<open>
  Sovereignty mode (\<open>ski_model/sovereignty.py\<close>): the mode, the startup checks, the refusal in strict mode, and
  the egress guard as a state machine over the audit events of the process.

  A check is its id and its answer; the texts of requirement, detail and remedy are left out. \<open>Inl\<close> is an
  exception. Name resolution is a parameter, given anew for every event: \<open>None\<close> where it raises.
\<close>

section \<open>Mode and environment\<close>

type_synonym env = "(string \<times> string) list"

definition env_default :: "env \<Rightarrow> string \<Rightarrow> string \<Rightarrow> string" where
  "env_default env k d = (case map_of env k of None \<Rightarrow> d | Some v \<Rightarrow> v)"

definition strict_mode :: string where
  "strict_mode = ''strict''"

definition advisory_mode :: string where
  "advisory_mode = ''advisory''"

record check =
  ck_id :: string
  ck_ok :: "bool option"

datatype sovereignty_error = BadMode string | BadUrl | Unmet "string list"

definition resolve_mode :: "env \<Rightarrow> sovereignty_error + string" where
  "resolve_mode env =
     (let given = py_lower (py_strip (env_get env ''SKI_SOVEREIGNTY''));
          mode = (if given = [] then strict_mode else given)
      in if mode \<in> {strict_mode, advisory_mode} then Inr mode else Inl (BadMode mode))"

section \<open>Local hosts\<close>

definition default_suffixes :: "string list" where
  "default_suffixes = [''.local'', ''.localhost'', ''.internal'', ''.svc'', ''.cluster.local'']"

definition local_suffixes :: "env \<Rightarrow> string list" where
  "local_suffixes env =
     (let extra = map (py_lower \<circ> py_strip)
            (filter (\<lambda>s. py_strip s \<noteq> []) (py_split (CHR '','') (env_get env ''SKI_SOVEREIGN_LOCAL_DOMAINS'')))
      in default_suffixes @ map (\<lambda>s. if starts_with ''.'' s then s else CHR ''.'' # s) extra)"

definition normalise_host :: "string \<Rightarrow> string" where
  "normalise_host host =
     py_lower (rstrip_chars ''.'' (before_char (CHR ''%'') (strip_chars ''[]'' (py_strip host))))"

definition shared_address_space :: "ip \<Rightarrow> bool" where
  "shared_address_space p = (case p of IPv4 a \<Rightarrow> in_network 32 a (quad 100 64 0 0, 10) | IPv6 a \<Rightarrow> False)"

definition is_local_host :: "string \<Rightarrow> string list \<Rightarrow> bool" where
  "is_local_host given suffixes =
     (let host = normalise_host given in
      if host = [] then False
      else (case ip_address host of
          None \<Rightarrow> host = ''localhost'' \<or> CHR ''.'' \<notin> set host \<or> list_ex (\<lambda>s. ends_with s host) suffixes
        | Some p \<Rightarrow> is_loopback p \<or> is_private p \<or> is_link_local p \<or> shared_address_space p))"

definition url_host :: "string \<Rightarrow> sovereignty_error + string" where
  "url_host url =
     (case url_netloc (if contains_text ''://'' url then url else ''//'' @ url) of
        None \<Rightarrow> Inl BadUrl
      | Some netloc \<Rightarrow> Inr (netloc_host netloc))"

definition backend_url :: "string \<Rightarrow> env \<Rightarrow> string option" where
  "backend_url backend env =
     (if backend = ''ollama'' then Some (env_default env ''OLLAMA_BASE_URL'' ''http://ollama:11434'')
      else if backend = ''vllm'' then Some (env_default env ''VLLM_BASE_URL'' ''http://vllm:8000'')
      else None)"

section \<open>The checks\<close>

definition sovereign_backends :: "string list" where
  "sovereign_backends = [''ollama'', ''vllm'']"

definition registered_hash_sources :: "string list" where
  "registered_hash_sources = [''verified-backend-digest'', ''verified-file-digest'', ''operator-asserted'']"

definition url_hosts :: "string list \<Rightarrow> sovereignty_error + string list" where
  "url_hosts urls = map_sum id rev (fold_err (\<lambda>u hs. map_sum id (\<lambda>h. h # hs) (url_host u)) urls [])"

definition config_checks :: "string \<Rightarrow> env \<Rightarrow> nat \<Rightarrow> sovereignty_error + check list" where
  "config_checks backend env anchor_count =
     (let suffixes = local_suffixes env in
      case url_host (env_get env ''LEDGER_DSN'') of
        Inl e \<Rightarrow> Inl e
      | Inr ledger_host \<Rightarrow>
          (case url_hosts ((case backend_url backend env of None \<Rightarrow> [] | Some u \<Rightarrow> if u = [] then [] else [u]) @
                           [env_get env ''SKI_TSA_URL'']) of
             Inl e \<Rightarrow> Inl e
           | Inr hosts \<Rightarrow>
               (let outside = filter (\<lambda>d. \<not> is_local_host d suffixes) (filter (\<lambda>d. d \<noteq> []) (ledger_host # hosts)) in
                Inr [\<lparr>ck_id = ''sovereign_backend'', ck_ok = Some (backend \<in> set sovereign_backends)\<rparr>,
                     \<lparr>ck_id = ''kg_trust_anchor'', ck_ok = Some (anchor_count > 0)\<rparr>,
                     \<lparr>ck_id = ''ledger_local'', ck_ok = Some (ledger_host \<noteq> [] \<and> is_local_host ledger_host suffixes)\<rparr>,
                     \<lparr>ck_id = ''egress_allowlist_local'', ck_ok = Some (outside = [])\<rparr>])))"

definition model_hash_check :: "string option \<Rightarrow> check" where
  "model_hash_check source =
     \<lparr>ck_id = ''model_weight_registered'',
      ck_ok = Some (case source of None \<Rightarrow> False | Some s \<Rightarrow> s \<in> set registered_hash_sources)\<rparr>"

definition model_hash_verified_check :: "bool \<Rightarrow> check" where
  "model_hash_verified_check v = \<lparr>ck_id = ''model_weight_verified'', ck_ok = Some v\<rparr>"

definition not_evaluated :: "string \<Rightarrow> check" where
  "not_evaluated i = \<lparr>ck_id = i, ck_ok = None\<rparr>"

definition model_signature_check :: "string option \<Rightarrow> check" where
  "model_signature_check signer_id =
     (if signer_id = None then not_evaluated ''model_signature'' else \<lparr>ck_id = ''model_signature'', ck_ok = Some True\<rparr>)"

text \<open>The trust level of the loaded Knowledge Graph, \<open>None\<close> when none is loaded.\<close>

definition kg_anchored_check :: "kg_trust_level option \<Rightarrow> check" where
  "kg_anchored_check level = \<lparr>ck_id = ''kg_anchored'', ck_ok = Some (level = Some Anchored)\<rparr>"

definition runtime_checks :: "env \<Rightarrow> check list" where
  "runtime_checks env =
     [\<lparr>ck_id = ''tls_enabled'', ck_ok = Some (py_lower (py_strip (env_default env ''TLS_ENABLED'' ''true'')) = ''true'')\<rparr>,
      \<lparr>ck_id = ''single_worker'', ck_ok = Some (py_strip (env_default env ''SKI_MODEL_WORKERS'' ''1'') = ''1'')\<rparr>]"

text \<open>
  What the query of the ledger role returns: an error, no row, or the role with its three flags. Without
  a ledger connection nothing is asked.
\<close>

datatype role_answer = Role_Failed | Role_Missing | Role_Row string bool bool bool

definition ledger_role_check :: "role_answer option \<Rightarrow> check \<times> string option" where
  "ledger_role_check answer =
     (let result = (\<lambda>ok. \<lparr>ck_id = ''ledger_least_privilege'', ck_ok = Some ok\<rparr>) in
      case answer of
        Some (Role_Row r elevated owner rewrite) \<Rightarrow> (result (\<not> elevated \<and> \<not> owner \<and> \<not> rewrite), Some r)
      | _ \<Rightarrow> (result False, None))"

definition enforce :: "string \<Rightarrow> check list \<Rightarrow> sovereignty_error + unit" where
  "enforce mode checks =
     (let failed = filter (\<lambda>c. ck_ok c = Some False) checks in
      if failed = [] then Inr ()
      else if mode = strict_mode then Inl (Unmet (map ck_id failed))
      else Inr ())"

definition refuse_if_failed :: "string \<Rightarrow> check list \<Rightarrow> sovereignty_error + unit" where
  "refuse_if_failed mode checks =
     (if mode = strict_mode \<and> list_ex (\<lambda>c. ck_ok c = Some False) checks then enforce mode checks else Inr ())"

section \<open>The egress guard\<close>

definition lookup_events :: "string list" where
  "lookup_events = [''socket.getaddrinfo'', ''socket.gethostbyname'', ''socket.gethostbyname_ex'', ''socket.gethostbyaddr'']"

definition send_events :: "string list" where
  "send_events = [''socket.connect'', ''socket.sendto'', ''socket.sendmsg'']"

definition egress_allowlist :: "string \<Rightarrow> env \<Rightarrow> sovereignty_error + string list" where
  "egress_allowlist backend env =
     (case url_hosts ([env_get env ''LEDGER_DSN''] @
            (case backend_url backend env of None \<Rightarrow> [] | Some u \<Rightarrow> if u = [] then [] else [u]) @
            [env_get env ''SKI_TSA_URL'']) of
        Inl e \<Rightarrow> Inl e
      | Inr hosts \<Rightarrow> Inr (sort (remdups (map py_lower (filter (\<lambda>h. h \<noteq> []) hosts)))))"

record guard =
  g_mode :: string
  g_allowlist :: "string list"
  g_attempts :: nat
  g_armed :: bool
  g_addresses :: "string list"

type_synonym resolver = "string \<Rightarrow> string list option"

definition new_guard :: "string \<Rightarrow> string list \<Rightarrow> guard" where
  "new_guard mode hosts =
     \<lparr>g_mode = mode, g_allowlist = sort (remdups (filter (\<lambda>h. h \<noteq> []) (map normalise_host hosts))),
      g_attempts = 0, g_armed = False, g_addresses = []\<rparr>"

definition tripped :: "guard \<Rightarrow> bool" where
  "tripped g = (g_mode g = strict_mode \<and> g_attempts g > 0)"

definition resolve_guard :: "resolver \<Rightarrow> guard \<Rightarrow> guard" where
  "resolve_guard look g =
     g\<lparr>g_addresses := concat (map (\<lambda>h. case look h of None \<Rightarrow> [] | Some as \<Rightarrow> map normalise_host as) (g_allowlist g))\<rparr>"

definition arm :: "resolver \<Rightarrow> guard \<Rightarrow> guard" where
  "arm look g = (resolve_guard look g)\<lparr>g_armed := True\<rparr>"

text \<open>The answer, and the guard with the addresses it may have resolved again.\<close>

definition allows :: "resolver \<Rightarrow> guard \<Rightarrow> string \<Rightarrow> bool \<times> guard" where
  "allows look g given =
     (let host = normalise_host given in
      if host = [] \<or> host = ''localhost'' \<or> host \<in> set (g_allowlist g) \<or> host \<in> set (g_addresses g) then (True, g)
      else (case ip_address host of
          None \<Rightarrow> (False, g)
        | Some p \<Rightarrow>
            if is_loopback p \<or> is_unspecified p then (True, g)
            else (let g' = resolve_guard look g in (host \<in> set (g_addresses g'), g'))))"

text \<open>The arguments of an audit event. \<open>Arg_Other\<close> is a value that is no text, bytes or tuple, with its \<open>str\<close>.\<close>

datatype audit_arg = Arg_Text string | Arg_Bytes string | Arg_Tuple "audit_arg list" | Arg_Other string

definition arg_text :: "audit_arg \<Rightarrow> string" where
  "arg_text a =
     (case a of Arg_Text s \<Rightarrow> s | Arg_Bytes s \<Rightarrow> ''b'' @ [CHR 0x27] @ s @ [CHR 0x27] | Arg_Tuple _ \<Rightarrow> ''()'' | Arg_Other s \<Rightarrow> s)"

definition destination :: "string \<Rightarrow> audit_arg list \<Rightarrow> string option" where
  "destination event args =
     (if event \<in> set send_events then
        (case args of
           _ # Arg_Tuple (a # _) # _ \<Rightarrow> Some (arg_text a)
         | _ \<Rightarrow> None)
      else if event \<in> set lookup_events then
        (case args of
           Arg_Text h # _ \<Rightarrow> Some h
         | Arg_Bytes h # _ \<Rightarrow> Some h
         | _ \<Rightarrow> None)
      else None)"

datatype call_outcome = Performed | Refused

text \<open>\<open>audit\<close>; \<open>bypass\<close> is the flag of the guard's own lookups.\<close>

definition audit_call :: "resolver \<Rightarrow> bool \<Rightarrow> guard \<Rightarrow> string \<Rightarrow> audit_arg list \<Rightarrow> guard \<times> call_outcome" where
  "audit_call look bypass g event args =
     (if \<not> g_armed g \<or> bypass then (g, Performed)
      else (case destination event args of
          None \<Rightarrow> (g, Performed)
        | Some d \<Rightarrow>
            (let (ok, g') = allows look g d in
             if ok then (g', Performed)
             else (g'\<lparr>g_attempts := g_attempts g' + 1\<rparr>, if g_mode g' = strict_mode then Refused else Performed))))"

text \<open>\<open>_audit_hook\<close>: the events it hands to the active guard.\<close>

definition audit_hook ::
  "resolver \<Rightarrow> bool \<Rightarrow> guard option \<Rightarrow> string \<Rightarrow> audit_arg list \<Rightarrow> guard option \<times> call_outcome" where
  "audit_hook look bypass active event args =
     (case active of
        Some g \<Rightarrow>
          if starts_with ''socket.'' event
          then (let (g', out) = audit_call look bypass g event args in (Some g', out)) else (active, Performed)
      | None \<Rightarrow> (active, Performed))"

section \<open>A run of the guard\<close>

text \<open>The audit events of the process, each with the resolver of its time.\<close>

fun guard_run :: "(resolver \<times> string \<times> audit_arg list) list \<Rightarrow> guard \<Rightarrow> guard \<times> call_outcome list" where
  "guard_run [] g = (g, [])"
| "guard_run ((look, event, args) # es) g =
     (let (g', out) = audit_call look False g event args; (g'', outs) = guard_run es g' in (g'', out # outs))"

definition inside_allowlist :: "string list \<Rightarrow> string list \<Rightarrow> resolver list \<Rightarrow> string \<Rightarrow> bool" where
  "inside_allowlist hosts addresses looks d \<longleftrightarrow>
     (let host = normalise_host d in
      host = [] \<or> host = ''localhost'' \<or> host \<in> set hosts \<or> host \<in> set addresses \<or>
      (\<exists>p. ip_address host = Some p \<and> (is_loopback p \<or> is_unspecified p)) \<or>
      (\<exists>look \<in> set looks. \<exists>h \<in> set hosts. \<exists>as. look h = Some as \<and> host \<in> normalise_host ` set as))"

definition call_destination :: "resolver \<times> string \<times> audit_arg list \<Rightarrow> string option" where
  "call_destination = (\<lambda>(look, event, args). destination event args)"

lemma resolve_guard_fields [simp]:
  "g_mode (resolve_guard look g) = g_mode g" "g_allowlist (resolve_guard look g) = g_allowlist g"
  "g_attempts (resolve_guard look g) = g_attempts g" "g_armed (resolve_guard look g) = g_armed g"
  by (simp_all add: resolve_guard_def)

lemma resolved_address:
  "a \<in> set (g_addresses (resolve_guard look g)) \<longleftrightarrow>
   (\<exists>h \<in> set (g_allowlist g). \<exists>as. look h = Some as \<and> a \<in> normalise_host ` set as)"
proof -
  have "a \<in> set (case look h of None \<Rightarrow> [] | Some as \<Rightarrow> map normalise_host as) \<longleftrightarrow>
      (\<exists>as. look h = Some as \<and> a \<in> normalise_host ` set as)" for h
    by (cases "look h") auto
  then show ?thesis by (simp add: resolve_guard_def)
qed

lemma allows_cases:
  assumes "allows look g d = (ok, g')"
  shows "g' = g \<or> g' = resolve_guard look g"
    and "ok \<Longrightarrow> inside_allowlist (g_allowlist g) (g_addresses g) [look] d"
  using assms
  by (auto simp: allows_def inside_allowlist_def Let_def resolved_address split: if_splits option.splits)

lemma inside_allowlist_mono:
  assumes "inside_allowlist hosts addresses looks d"
    and "\<And>a. a \<in> set addresses \<Longrightarrow> a \<in> set addresses' \<or>
      (\<exists>look \<in> set looks'. \<exists>h \<in> set hosts. \<exists>as. look h = Some as \<and> a \<in> normalise_host ` set as)"
    and "set looks \<subseteq> set looks'"
  shows "inside_allowlist hosts addresses' looks' d"
  using assms unfolding inside_allowlist_def Let_def by blast

lemma audit_call_step:
  assumes "audit_call look False g event args = (g', out)" "g_armed g"
  shows "g_mode g' = g_mode g" "g_allowlist g' = g_allowlist g" "g_armed g'"
    and "g_mode g = strict_mode \<Longrightarrow> g_attempts g' = g_attempts g + (if out = Refused then 1 else 0)"
    and "a \<in> set (g_addresses g') \<Longrightarrow> a \<in> set (g_addresses g) \<or>
      (\<exists>h \<in> set (g_allowlist g). \<exists>as. look h = Some as \<and> a \<in> normalise_host ` set as)"
    and "g_mode g = strict_mode \<Longrightarrow> out = Performed \<Longrightarrow> destination event args = Some d \<Longrightarrow>
      inside_allowlist (g_allowlist g) (g_addresses g) [look] d"
proof -
  have "g_mode g' = g_mode g \<and> g_allowlist g' = g_allowlist g \<and> g_armed g' \<and>
    (g_mode g = strict_mode \<longrightarrow> g_attempts g' = g_attempts g + (if out = Refused then 1 else 0)) \<and>
    (a \<in> set (g_addresses g') \<longrightarrow> a \<in> set (g_addresses g) \<or>
      (\<exists>h \<in> set (g_allowlist g). \<exists>as. look h = Some as \<and> a \<in> normalise_host ` set as)) \<and>
    (g_mode g = strict_mode \<longrightarrow> out = Performed \<longrightarrow> destination event args = Some d \<longrightarrow>
      inside_allowlist (g_allowlist g) (g_addresses g) [look] d)"
  proof (cases "destination event args")
    case None
    then show ?thesis using assms by (auto simp: audit_call_def)
  next
    case (Some d')
    obtain ok g1 where al: "allows look g d' = (ok, g1)" by (cases "allows look g d'")
    show ?thesis
      using assms Some allows_cases [OF al] resolved_address [of a look g]
      by (auto simp: audit_call_def al Let_def split: if_splits)
  qed
  then show "g_mode g' = g_mode g" "g_allowlist g' = g_allowlist g" "g_armed g'"
    "g_mode g = strict_mode \<Longrightarrow> g_attempts g' = g_attempts g + (if out = Refused then 1 else 0)"
    "a \<in> set (g_addresses g') \<Longrightarrow> a \<in> set (g_addresses g) \<or>
      (\<exists>h \<in> set (g_allowlist g). \<exists>as. look h = Some as \<and> a \<in> normalise_host ` set as)"
    "g_mode g = strict_mode \<Longrightarrow> out = Performed \<Longrightarrow> destination event args = Some d \<Longrightarrow>
      inside_allowlist (g_allowlist g) (g_addresses g) [look] d"
    by blast+
qed

lemma guard_run_facts:
  assumes "guard_run es g = (g', outs)" "g_armed g" "g_mode g = strict_mode"
  shows "length outs = length es \<and> g_mode g' = strict_mode \<and>
    g_attempts g' = g_attempts g + length (filter (\<lambda>out. out = Refused) outs) \<and>
    list_all (\<lambda>(e, out). out = Performed \<longrightarrow> (case call_destination e of None \<Rightarrow> True
       | Some d \<Rightarrow> inside_allowlist (g_allowlist g) (g_addresses g) (map fst es) d)) (zip es outs)"
  using assms
proof (induction es arbitrary: g outs)
  case (Cons e es)
  obtain look event args where e: "e = (look, event, args)" by (cases e)
  obtain g1 out where step: "audit_call look False g event args = (g1, out)"
    by (cases "audit_call look False g event args")
  obtain outs1 where rest: "guard_run es g1 = (g', outs1)" and outs: "outs = out # outs1"
    using Cons.prems(1) by (auto simp: e step split: prod.splits)
  note s = audit_call_step [OF step Cons.prems(2)]
  have IH: "length outs1 = length es \<and> g_mode g' = strict_mode \<and>
    g_attempts g' = g_attempts g1 + length (filter (\<lambda>out. out = Refused) outs1) \<and>
    list_all (\<lambda>(e, out). out = Performed \<longrightarrow> (case call_destination e of None \<Rightarrow> True
       | Some d \<Rightarrow> inside_allowlist (g_allowlist g1) (g_addresses g1) (map fst es) d)) (zip es outs1)"
    using Cons.IH [OF rest s(3)] Cons.prems(3) s(1) by simp
  have later: "inside_allowlist (g_allowlist g1) (g_addresses g1) (map fst es) d \<Longrightarrow>
      inside_allowlist (g_allowlist g) (g_addresses g) (map fst (e # es)) d" for d
    unfolding s(2) by (rule inside_allowlist_mono) (use s(5) in \<open>auto simp: e\<close>)
  have now: "out = Performed \<Longrightarrow> destination event args = Some d \<Longrightarrow>
      inside_allowlist (g_allowlist g) (g_addresses g) (map fst (e # es)) d" for d
    by (rule inside_allowlist_mono [OF s(6) [OF Cons.prems(3)]]) (simp_all add: e)
  have "list_all (\<lambda>(e', out). out = Performed \<longrightarrow> (case call_destination e' of None \<Rightarrow> True
       | Some d \<Rightarrow> inside_allowlist (g_allowlist g) (g_addresses g) (map fst (e # es)) d)) (zip es outs1)"
    using IH later by (fastforce simp: list_all_iff split: option.splits)
  then show ?case
    using IH s(4) [OF Cons.prems(3)] now by (auto simp: outs call_destination_def e split: option.split)
qed simp

section \<open>Which IPv4 addresses are local\<close>

definition octet :: "int \<Rightarrow> bool" where
  "octet v \<longleftrightarrow> 0 \<le> v \<and> v \<le> 255"

lemma octet_value: "parse_octet s = Some v \<Longrightarrow> octet v"
proof -
  assume p: "parse_octet s = Some v"
  have "0 \<le> foldl (\<lambda>a c. 10 * a + (of_char c - 48)) n cs" if "list_all is_decimal cs" "0 \<le> n" for cs and n :: int
    using that
  proof (induction cs arbitrary: n)
    case (Cons c cs)
    have "(of_char c :: int) = int (of_char c)" by (simp only: of_nat_of_char)
    moreover have "48 \<le> (of_char c :: nat)" using Cons.prems(1) by (simp add: is_decimal_def Let_def)
    ultimately have "48 \<le> (of_char c :: int)" by linarith
    with Cons show ?case by simp
  qed simp
  then show ?thesis
    using p by (auto simp: parse_octet_def octet_def decimal_value_def split: if_splits)
qed

text \<open>The ranges of the library's private networks, on the octets of an address.\<close>

definition local_octets :: "int \<Rightarrow> int \<Rightarrow> int \<Rightarrow> int \<Rightarrow> bool" where
  "local_octets a b c d \<longleftrightarrow>
     a = 0 \<or> a = 10 \<or> a = 127 \<or> (a = 169 \<and> b = 254) \<or> (a = 172 \<and> 16 \<le> b \<and> b \<le> 31) \<or>
     (a = 192 \<and> b = 0 \<and> c = 0 \<and> d \<noteq> 9 \<and> d \<noteq> 10) \<or> (a = 192 \<and> b = 0 \<and> c = 2) \<or> (a = 192 \<and> b = 168) \<or>
     (a = 198 \<and> (b = 18 \<or> b = 19)) \<or> (a = 198 \<and> b = 51 \<and> c = 100) \<or> (a = 203 \<and> b = 0 \<and> c = 113) \<or>
     240 \<le> a \<or> (a = 100 \<and> 64 \<le> b \<and> b \<le> 127)"

lemma quad_prefix:
  assumes "octet a" "octet b" "octet c" "octet d"
  shows "quad a b c d div 2 ^ 8 = (a * 256 + b) * 256 + c" "quad a b c d div 2 ^ 16 = a * 256 + b"
    "quad a b c d div 2 ^ 24 = a" "quad a b c d div 2 ^ 28 = a div 16"
    "quad a b c d div 2 ^ 22 = a * 4 + b div 64" "quad a b c d div 2 ^ 20 = a * 16 + b div 16"
    "quad a b c d div 2 ^ 17 = a * 128 + b div 2"
    "quad a b c d div 2 ^ 1 = ((a * 256 + b) * 256 + c) * 128 + d div 2"
    "quad a b c d div 2 ^ 0 = quad a b c d"
proof -
  have pw: "(2 :: int) ^ 16 = 2 ^ 8 * 256" "(2 :: int) ^ 24 = 2 ^ 16 * 256" "(2 :: int) ^ 28 = 2 ^ 24 * 16"
    "(2 :: int) ^ 22 = 2 ^ 16 * 64" "(2 :: int) ^ 20 = 2 ^ 16 * 16" "(2 :: int) ^ 17 = 2 ^ 16 * 2" "(2 :: int) ^ 8 = 256"
    by simp_all
  have div: "x div (k * l) = x div k div l" if "0 \<le> l" for x k l :: int
    using that by (rule zdiv_zmult2_eq)
  have low: "(x * 256 + y) div 256 = x" if "octet y" for x y
    using that by (simp add: octet_def)
  show 8: "quad a b c d div 2 ^ 8 = (a * 256 + b) * 256 + c"
    unfolding quad_def pw(7) by (rule low [OF assms(4)])
  show 16: "quad a b c d div 2 ^ 16 = a * 256 + b"
    unfolding pw(1) by (subst div) (simp, unfold 8, rule low [OF assms(3)])
  show 24: "quad a b c d div 2 ^ 24 = a"
    unfolding pw(2) by (subst div) (simp, unfold 16, rule low [OF assms(2)])
  show "quad a b c d div 2 ^ 28 = a div 16"
    unfolding pw(3) by (subst div) (simp, unfold 24, rule refl)
  have part: "(x * (m * k) + y) div k = x * m + y div k" if "k \<noteq> 0" for x y m k :: int
  proof -
    have "x * (m * k) + y = y + x * m * k" by (simp add: algebra_simps)
    then show ?thesis using that by (simp only: div_mult_self1) simp
  qed
  have k: "(256 :: int) = 4 * 64" "(256 :: int) = 16 * 16" "(256 :: int) = 128 * 2" by simp_all
  have parts: "(x * 256 + y) div 64 = x * 4 + y div 64" "(x * 256 + y) div 16 = x * 16 + y div 16"
    "(x * 256 + y) div 2 = x * 128 + y div 2" for x y :: int
    by (subst k(1), rule part, simp) (subst k(2), rule part, simp, subst k(3), rule part, simp)
  show "quad a b c d div 2 ^ 22 = a * 4 + b div 64"
    unfolding pw(4) by (subst div) (simp, unfold 16, rule parts)
  show "quad a b c d div 2 ^ 20 = a * 16 + b div 16"
    unfolding pw(5) by (subst div) (simp, unfold 16, rule parts)
  show "quad a b c d div 2 ^ 17 = a * 128 + b div 2"
    unfolding pw(6) by (subst div) (simp, unfold 16, rule parts)
  show "quad a b c d div 2 ^ 1 = ((a * 256 + b) * 256 + c) * 128 + d div 2"
    unfolding quad_def power_one_right parts by (rule refl)
  show "quad a b c d div 2 ^ 0 = quad a b c d" by simp
qed

lemma digits_eq:
  assumes "octet y" "octet y'"
  shows "x * 256 + y = x' * 256 + y' \<longleftrightarrow> x = x' \<and> y = y'"
proof
  assume eq: "x * 256 + y = x' * 256 + y'"
  have "(x * 256 + y) div 256 = x" "(x' * 256 + y') div 256 = x'" using assms by (simp_all add: octet_def)
  with eq show "x = x' \<and> y = y'" by simp
qed simp

lemma scaled_eq:
  assumes "octet y" "octet y'" "k * m = 256" "m > 0" "k > 0"
  shows "x * m + y div k = x' * m + y' div k \<longleftrightarrow> x = x' \<and> y div k = y' div k"
proof
  assume eq: "x * m + y div k = x' * m + y' div k"
  have part: "(z * m + w div k) div m = z" if "octet w" for z w
  proof -
    have "w < k * m" using that assms(3) by (simp add: octet_def)
    moreover have "k * (w div k) \<le> w" using mult_div_mod_eq [of k w] pos_mod_sign [OF assms(5), of w] by linarith
    ultimately have "k * (w div k) < k * m" by linarith
    then have "w div k < m" using assms(5) by simp
    moreover have "0 \<le> w div k" using that assms(5) by (simp add: octet_def pos_imp_zdiv_nonneg_iff)
    ultimately show ?thesis using assms(4) by simp
  qed
  from eq have "x = x'" using part [OF assms(1), of x] part [OF assms(2), of x'] by simp
  with eq show "x = x' \<and> y div k = y' div k" by simp
qed simp

lemma network_members:
  assumes "octet a" "octet b" "octet c" "octet d" "octet a'" "octet b'" "octet c'" "octet d'"
  shows "in_network 32 (quad a b c d) (quad a' b' c' d', 4) \<longleftrightarrow> a div 16 = a' div 16"
    "in_network 32 (quad a b c d) (quad a' b' c' d', 8) \<longleftrightarrow> a = a'"
    "in_network 32 (quad a b c d) (quad a' b' c' d', 10) \<longleftrightarrow> a = a' \<and> b div 64 = b' div 64"
    "in_network 32 (quad a b c d) (quad a' b' c' d', 12) \<longleftrightarrow> a = a' \<and> b div 16 = b' div 16"
    "in_network 32 (quad a b c d) (quad a' b' c' d', 15) \<longleftrightarrow> a = a' \<and> b div 2 = b' div 2"
    "in_network 32 (quad a b c d) (quad a' b' c' d', 16) \<longleftrightarrow> a = a' \<and> b = b'"
    "in_network 32 (quad a b c d) (quad a' b' c' d', 24) \<longleftrightarrow> a = a' \<and> b = b' \<and> c = c'"
    "in_network 32 (quad a b c d) (quad a' b' c' d', 31) \<longleftrightarrow> a = a' \<and> b = b' \<and> c = c' \<and> d div 2 = d' div 2"
    "in_network 32 (quad a b c d) (quad a' b' c' d', 32) \<longleftrightarrow> a = a' \<and> b = b' \<and> c = c' \<and> d = d'"
proof -
  note p = quad_prefix [OF assms(1-4)] and p' = quad_prefix [OF assms(5-8)]
  have net: "in_network 32 x (y, n) \<longleftrightarrow> x div 2 ^ (32 - n) = y div 2 ^ (32 - n)" for x y n by (simp add: in_network_def)
  have bits: "(32 :: nat) - 4 = 28" "(32 :: nat) - 8 = 24" "(32 :: nat) - 10 = 22" "(32 :: nat) - 12 = 20"
    "(32 :: nat) - 15 = 17" "(32 :: nat) - 16 = 16" "(32 :: nat) - 24 = 8" "(32 :: nat) - 31 = 1" "(32 :: nat) - 32 = 0"
    by simp_all
  note eqs = digits_eq [OF assms(2,6)] digits_eq [OF assms(3,7)] digits_eq [OF assms(4,8)]
  have scaled: "x * 4 + b div 64 = x' * 4 + b' div 64 \<longleftrightarrow> x = x' \<and> b div 64 = b' div 64"
    "x * 16 + b div 16 = x' * 16 + b' div 16 \<longleftrightarrow> x = x' \<and> b div 16 = b' div 16"
    "x * 128 + b div 2 = x' * 128 + b' div 2 \<longleftrightarrow> x = x' \<and> b div 2 = b' div 2"
    "x * 128 + d div 2 = x' * 128 + d' div 2 \<longleftrightarrow> x = x' \<and> d div 2 = d' div 2" for x x'
    by (rule scaled_eq [OF assms(2,6)] scaled_eq [OF assms(4,8)]; simp)+
  show "in_network 32 (quad a b c d) (quad a' b' c' d', 4) \<longleftrightarrow> a div 16 = a' div 16"
    "in_network 32 (quad a b c d) (quad a' b' c' d', 8) \<longleftrightarrow> a = a'"
    "in_network 32 (quad a b c d) (quad a' b' c' d', 10) \<longleftrightarrow> a = a' \<and> b div 64 = b' div 64"
    "in_network 32 (quad a b c d) (quad a' b' c' d', 12) \<longleftrightarrow> a = a' \<and> b div 16 = b' div 16"
    "in_network 32 (quad a b c d) (quad a' b' c' d', 15) \<longleftrightarrow> a = a' \<and> b div 2 = b' div 2"
    "in_network 32 (quad a b c d) (quad a' b' c' d', 16) \<longleftrightarrow> a = a' \<and> b = b'"
    "in_network 32 (quad a b c d) (quad a' b' c' d', 24) \<longleftrightarrow> a = a' \<and> b = b' \<and> c = c'"
    "in_network 32 (quad a b c d) (quad a' b' c' d', 31) \<longleftrightarrow> a = a' \<and> b = b' \<and> c = c' \<and> d div 2 = d' div 2"
    unfolding net bits p p' eqs scaled by (simp_all only: conj_assoc)
  show "in_network 32 (quad a b c d) (quad a' b' c' d', 32) \<longleftrightarrow> a = a' \<and> b = b' \<and> c = c' \<and> d = d'"
    unfolding net bits p(9) p'(9) unfolding quad_def eqs by blast
qed

lemma octet_const: "0 \<le> n \<Longrightarrow> n \<le> 255 \<Longrightarrow> octet n"
  by (simp add: octet_def)

lemma block_div: "b div 16 = 1 \<longleftrightarrow> 16 \<le> b \<and> b \<le> 31" "b div 64 = 1 \<longleftrightarrow> 64 \<le> b \<and> b \<le> 127"
  "b div 2 = 9 \<longleftrightarrow> b = 18 \<or> b = 19" "b div 2 = 85 \<longleftrightarrow> b = 170 \<or> b = 171" "octet b \<Longrightarrow> b div 16 = 15 \<longleftrightarrow> 240 \<le> b"
  for b :: int
  unfolding octet_def by presburger+

lemma local_quad:
  assumes "octet a" "octet b" "octet c" "octet d"
  shows "(is_loopback (IPv4 (quad a b c d)) \<or> is_private (IPv4 (quad a b c d)) \<or> is_link_local (IPv4 (quad a b c d)) \<or>
      shared_address_space (IPv4 (quad a b c d))) \<longleftrightarrow> local_octets a b c d"
proof -
  note n = network_members [OF assms octet_const octet_const octet_const octet_const]
  have nets: "in_network 32 (quad a b c d) (quad 0 0 0 0, 8) \<longleftrightarrow> a = 0"
    "in_network 32 (quad a b c d) (quad 10 0 0 0, 8) \<longleftrightarrow> a = 10"
    "in_network 32 (quad a b c d) (quad 127 0 0 0, 8) \<longleftrightarrow> a = 127"
    "in_network 32 (quad a b c d) (quad 169 254 0 0, 16) \<longleftrightarrow> a = 169 \<and> b = 254"
    "in_network 32 (quad a b c d) (quad 172 16 0 0, 12) \<longleftrightarrow> a = 172 \<and> 16 \<le> b \<and> b \<le> 31"
    "in_network 32 (quad a b c d) (quad 192 0 0 0, 24) \<longleftrightarrow> a = 192 \<and> b = 0 \<and> c = 0"
    "in_network 32 (quad a b c d) (quad 192 0 0 170, 31) \<longleftrightarrow> a = 192 \<and> b = 0 \<and> c = 0 \<and> (d = 170 \<or> d = 171)"
    "in_network 32 (quad a b c d) (quad 192 0 2 0, 24) \<longleftrightarrow> a = 192 \<and> b = 0 \<and> c = 2"
    "in_network 32 (quad a b c d) (quad 192 168 0 0, 16) \<longleftrightarrow> a = 192 \<and> b = 168"
    "in_network 32 (quad a b c d) (quad 198 18 0 0, 15) \<longleftrightarrow> a = 198 \<and> (b = 18 \<or> b = 19)"
    "in_network 32 (quad a b c d) (quad 198 51 100 0, 24) \<longleftrightarrow> a = 198 \<and> b = 51 \<and> c = 100"
    "in_network 32 (quad a b c d) (quad 203 0 113 0, 24) \<longleftrightarrow> a = 203 \<and> b = 0 \<and> c = 113"
    "in_network 32 (quad a b c d) (quad 240 0 0 0, 4) \<longleftrightarrow> 240 \<le> a"
    "in_network 32 (quad a b c d) (quad 255 255 255 255, 32) \<longleftrightarrow> a = 255 \<and> b = 255 \<and> c = 255 \<and> d = 255"
    "in_network 32 (quad a b c d) (quad 192 0 0 9, 32) \<longleftrightarrow> a = 192 \<and> b = 0 \<and> c = 0 \<and> d = 9"
    "in_network 32 (quad a b c d) (quad 192 0 0 10, 32) \<longleftrightarrow> a = 192 \<and> b = 0 \<and> c = 0 \<and> d = 10"
    "in_network 32 (quad a b c d) (quad 100 64 0 0, 10) \<longleftrightarrow> a = 100 \<and> 64 \<le> b \<and> b \<le> 127"
    by (simp_all add: n block_div assms)
  have kinds: "is_private (IPv4 (quad a b c d)) \<longleftrightarrow> private4 (quad a b c d)"
    "is_loopback (IPv4 (quad a b c d)) \<longleftrightarrow> a = 127" "is_link_local (IPv4 (quad a b c d)) \<longleftrightarrow> a = 169 \<and> b = 254"
    "shared_address_space (IPv4 (quad a b c d)) \<longleftrightarrow> a = 100 \<and> 64 \<le> b \<and> b \<le> 127"
    by (simp_all add: is_private_def is_loopback_def is_link_local_def shared_address_space_def nets)
  have block: "private4 (quad a b c d) \<longleftrightarrow>
    (a = 0 \<or> a = 10 \<or> a = 127 \<or> (a = 169 \<and> b = 254) \<or> (a = 172 \<and> 16 \<le> b \<and> b \<le> 31) \<or>
     (a = 192 \<and> b = 0 \<and> c = 0) \<or> (a = 192 \<and> b = 0 \<and> c = 0 \<and> (d = 170 \<or> d = 171)) \<or> (a = 192 \<and> b = 0 \<and> c = 2) \<or>
     (a = 192 \<and> b = 168) \<or> (a = 198 \<and> (b = 18 \<or> b = 19)) \<or> (a = 198 \<and> b = 51 \<and> c = 100) \<or>
     (a = 203 \<and> b = 0 \<and> c = 113) \<or> 240 \<le> a \<or> (a = 255 \<and> b = 255 \<and> c = 255 \<and> d = 255)) \<and>
    \<not> ((a = 192 \<and> b = 0 \<and> c = 0 \<and> d = 9) \<or> (a = 192 \<and> b = 0 \<and> c = 0 \<and> d = 10))"
    unfolding private4_def private_v4_def public_v4_def by (simp only: list_ex_Nil_iff list_ex_Cons_iff nets simp_thms disj_assoc)
  consider "a = 192" | "240 \<le> a" | "a \<noteq> 192" "a < 240" by linarith
  then show ?thesis
  proof cases
    case 1
    then show ?thesis unfolding kinds block local_octets_def by auto
  next
    case 2
    then show ?thesis unfolding kinds block local_octets_def by simp
  next
    case 3
    then show ?thesis unfolding kinds block local_octets_def by simp metis
  qed
qed

lemma dropWhile_first: "s \<noteq> [] \<Longrightarrow> \<not> P (hd s) \<Longrightarrow> dropWhile P s = s"
  by (cases s) auto

lemma octet_text:
  assumes "parse_octet s = Some v"
  shows "s \<noteq> []" "list_all is_decimal s"
  using assms by (auto simp: parse_octet_def split: if_splits)

text \<open>An address in dotted notation is its own normal form.\<close>

lemma normalise_quad:
  assumes "parse_octet s = Some a" "parse_octet t = Some b" "parse_octet u = Some c" "parse_octet v = Some d"
  shows "normalise_host (s @ ''.'' @ t @ ''.'' @ u @ ''.'' @ v) = s @ ''.'' @ t @ ''.'' @ u @ ''.'' @ v"
proof -
  let ?h = "s @ ''.'' @ t @ ''.'' @ u @ ''.'' @ v"
  have chars: "is_decimal c \<or> c = CHR ''.''" if "c \<in> set ?h" for c
    using that octet_text(2) [OF assms(1)] octet_text(2) [OF assms(2)] octet_text(2) [OF assms(3)] octet_text(2) [OF assms(4)]
    by (auto simp: list_all_iff)
  have first: "is_decimal (hd ?h)" using octet_text [OF assms(1)] by (cases s) auto
  have final: "is_decimal (hd (rev ?h))" using octet_text [OF assms(4)] by (cases v rule: rev_cases) auto
  have kinds: "\<not> is_space c \<and> c \<notin> set ''[].%''" if "is_decimal c" for c
    using that by (auto simp: is_decimal_def is_space_def Let_def)
  have "py_strip ?h = ?h"
    using first final kinds by (simp add: py_strip_def py_lstrip_def dropWhile_first del: rev_append)
  moreover have "strip_chars ''[]'' ?h = ?h"
    using first final kinds by (simp add: strip_chars_def dropWhile_first del: rev_append)
  moreover have "before_char (CHR ''%'') ?h = ?h"
    unfolding before_char_def takeWhile_eq_all_conv using chars kinds by fastforce
  moreover have "rstrip_chars ''.'' ?h = ?h"
    using final kinds by (simp add: rstrip_chars_def dropWhile_first del: rev_append)
  moreover have "lower_char c = c" if "is_decimal c \<or> c = CHR ''.''" for c
    using that by (auto simp: lower_char_def is_decimal_def Let_def)
  then have "py_lower ?h = ?h" unfolding py_lower_def using chars by (intro map_idI) blast
  ultimately show ?thesis unfolding normalise_host_def by simp
qed

section \<open>Properties\<close>

text \<open>
  Property C28. In strict mode an armed guard performs only calls whose destination is loopback, empty, an
  allowlisted name or an address that such a name resolves to. It counts exactly the calls it refuses, so
  it is tripped, and stays tripped, from the first refused call on.
\<close>

theorem strict_guard_confines:
  assumes "guard_run es (arm look (new_guard strict_mode hosts)) = (g, outs)"
  shows "list_all (\<lambda>(e, out). out = Performed \<longrightarrow> (case call_destination e of None \<Rightarrow> True
       | Some d \<Rightarrow> inside_allowlist (map normalise_host hosts) [] (look # map fst es) d)) (zip es outs) \<and>
    g_attempts g = length (filter (\<lambda>out. out = Refused) outs) \<and> (tripped g \<longleftrightarrow> Refused \<in> set outs)"
proof -
  let ?g = "arm look (new_guard strict_mode hosts)"
  have g: "g_armed ?g" "g_mode ?g = strict_mode" "g_attempts ?g = 0"
    "set (g_allowlist ?g) = set (filter (\<lambda>h. h \<noteq> []) (map normalise_host hosts))"
    by (simp_all add: arm_def new_guard_def)
  note run = guard_run_facts [OF assms g(1,2)]
  have "inside_allowlist (g_allowlist ?g) (g_addresses ?g) (map fst es) d \<Longrightarrow>
      inside_allowlist (map normalise_host hosts) [] (look # map fst es) d" for d
    using g(4) resolved_address [of _ look "new_guard strict_mode hosts"]
    unfolding inside_allowlist_def Let_def arm_def by (fastforce simp: new_guard_def)
  with run have "list_all (\<lambda>(e, out). out = Performed \<longrightarrow> (case call_destination e of None \<Rightarrow> True
       | Some d \<Rightarrow> inside_allowlist (map normalise_host hosts) [] (look # map fst es) d)) (zip es outs)"
    by (fastforce simp: list_all_iff split: option.splits)
  moreover have "tripped g \<longleftrightarrow> Refused \<in> set outs"
    using run g(3) by (auto simp: tripped_def filter_empty_conv length_greater_0_conv)
  ultimately show ?thesis using run g(3) by simp
qed

definition sample_resolver :: resolver where
  "sample_resolver h = (if h = ''db.internal'' then Some [''10.0.0.5''] else None)"

definition sample_calls :: "(resolver \<times> string \<times> audit_arg list) list" where
  "sample_calls =
     [(sample_resolver, ''socket.connect'', [Arg_Other ''s'', Arg_Tuple [Arg_Text ''10.0.0.5'', Arg_Other ''5432'']]),
      (sample_resolver, ''socket.getaddrinfo'', [Arg_Text ''api.example.com'']),
      (sample_resolver, ''socket.connect'', [Arg_Other ''s'', Arg_Tuple [Arg_Text ''127.0.0.1'', Arg_Other ''80'']])]"

theorem strict_guard_confines_witness:
  "\<exists>g. guard_run sample_calls (arm sample_resolver (new_guard strict_mode [''DB.internal.''])) =
       (g, [Performed, Refused, Performed]) \<and> tripped g \<and> g_attempts g = 1"
proof -
  let ?run = "guard_run sample_calls (arm sample_resolver (new_guard strict_mode [''DB.internal.'']))"
  have "snd ?run = [Performed, Refused, Performed]" by code_simp
  then have run: "?run = (fst ?run, [Performed, Refused, Performed])" by (simp add: prod_eq_iff)
  show ?thesis using strict_guard_confines [OF run] run by (intro exI [of _ "fst ?run"]) simp
qed

text \<open>
  Which IPv4 literals count as inside the deployment, whatever domains are declared: the private,
  loopback, link-local and shared ranges, and also the reserved blocks of 0/8, 192.0.0/24, 192.0.2/24,
  198.18/15, 198.51.100/24, 203.0.113/24 and 240/4, which the module's documentation does not name.
\<close>

theorem local_ipv4_exact:
  assumes "parse_octet s = Some a" "parse_octet t = Some b" "parse_octet u = Some c" "parse_octet v = Some d"
  shows "is_local_host (s @ ''.'' @ t @ ''.'' @ u @ ''.'' @ v) suffixes \<longleftrightarrow> local_octets a b c d"
proof -
  have "s @ ''.'' @ t @ ''.'' @ u @ ''.'' @ v \<noteq> []" by simp
  moreover have "ip_address (s @ ''.'' @ t @ ''.'' @ u @ ''.'' @ v) = Some (IPv4 (quad a b c d))"
    using parse_ipv4_quad [OF assms] by (simp add: ip_address_def)
  ultimately show ?thesis
    using local_quad [OF octet_value [OF assms(1)] octet_value [OF assms(2)] octet_value [OF assms(3)] octet_value [OF assms(4)]]
    unfolding is_local_host_def normalise_quad [OF assms] by (simp add: Let_def)
qed

theorem local_ipv4_exact_witness:
  "is_local_host ''203.0.113.7'' default_suffixes \<and> is_local_host ''10.1.2.3'' default_suffixes \<and>
   is_local_host ''8.8.8.8'' default_suffixes = False"
proof -
  have o: "parse_octet ''203'' = Some 203" "parse_octet ''0'' = Some 0" "parse_octet ''113'' = Some 113"
    "parse_octet ''7'' = Some 7" "parse_octet ''10'' = Some 10" "parse_octet ''1'' = Some 1" "parse_octet ''2'' = Some 2"
    "parse_octet ''3'' = Some 3" "parse_octet ''8'' = Some 8" by code_simp+
  have "local_octets 203 0 113 7" "local_octets 10 1 2 3" "\<not> local_octets 8 8 8 8" by (simp_all add: local_octets_def)
  then show ?thesis
    using local_ipv4_exact [OF o(1,2,3,4), of default_suffixes] local_ipv4_exact [OF o(5,6,7,8), of default_suffixes]
      local_ipv4_exact [OF o(9,9,9,9), of default_suffixes]
    by simp
qed

text \<open>
  An address in another notation counts as a local name: the host \<open>134744072\<close>, which the
  resolver of the system reads as 8.8.8.8, is a single label and no IP literal. With it as the ledger's
  host the configuration checks pass, where \<open>8.8.8.8\<close> fails both checks on destinations.
\<close>

definition ledger_env :: "string \<Rightarrow> env" where
  "ledger_env host = [(''LEDGER_DSN'', ''postgresql://ski@'' @ host @ ''/ledger'')]"

theorem decimal_address_passes_as_local:
  "parse_ipv4 ''8.8.8.8'' = Some (decimal_value ''134744072'') \<and>
   map_sum id (map ck_ok) (config_checks ''ollama'' (ledger_env ''134744072'') 1) =
     Inr [Some True, Some True, Some True, Some True] \<and>
   map_sum id (map ck_ok) (config_checks ''ollama'' (ledger_env ''8.8.8.8'') 1) =
     Inr [Some True, Some True, Some False, Some False]"
  by code_simp

end
