(* ===== verification/Service.thy ===== *)
theory Service
  imports Flat_Graph Telemetry_Buffer Agreement_Monitor Sovereignty
begin

text \<open>
  The runtime service (\<open>ski_model/server.py\<close>): its state, the load of a Knowledge Graph, and the evaluation
  of one measurement.

  The handlers are coroutines of one process, so another handler can run wherever one waits. \<open>phase\<close> says
  where an evaluation waits, and \<open>progress\<close> is what it does up to the next wait: the buffer write, the
  scoping with the prompt, the decision on the model's answer, the read of the ledger's head, the insert.
  \<open>evaluate_measurement\<close> runs the phases of one measurement without interruption; the theory
  \<open>Service_Run\<close> interleaves them. The answers of the model, the clocks, and whether the buffer can be written
  are in the record \<open>turn\<close>. Metrics and log lines are left out.
\<close>

section \<open>State\<close>

record measurement_record =
  mr_id :: string
  mr_timestamp :: string
  mr_subject :: string
  mr_values :: obj
  mr_jurisdiction :: "string option"

text \<open>
  What the process is deployed with: the outside world, the environment, and how pydantic writes an envelope
  as JSON text and its reasoning as text.
\<close>

record deployment =
  dp_world :: world
  dp_codec :: codec
  dp_calendar :: calendar
  dp_contract :: contract
  dp_arith :: db_arith
  dp_env :: env
  dp_read_file :: "string \<Rightarrow> string option"
  dp_envelope_text :: "envelope \<Rightarrow> ustr"
  dp_reasoning_text :: "reasoning_text \<Rightarrow> ustr"

text \<open>\<open>_State\<close>, with the tables of the database; \<open>sv_buffer\<close> says whether the telemetry buffer is provisioned.\<close>

record service =
  sv_graph :: "knowledge_graph option"
  sv_policy :: "trust_policy option"
  sv_registry :: "(string \<times> obj) list option"
  sv_graph_hash :: string
  sv_llm :: "llm_backend option"
  sv_evaluator :: "evaluator option"
  sv_ledger :: "client option"
  sv_signer :: "signer option"
  sv_monitor :: "monitor option"
  sv_guard :: "guard option"
  sv_buffer :: bool
  sv_tenant :: string
  sv_produced :: nat
  sv_max_skew :: int
  sv_checkpoint_every :: int
  sv_db :: database
  sv_rows :: "telemetry_row list"

datatype service_error =
    EgressRefusal nat
  | NoGraph
  | NotInitialised
  | BadTimestamp string
  | NoTimezone string
  | InputErrors "input_error list"
  | NoCanonicalForm canon_error
  | SkewRejected rat int
  | ScopeFailure
  | EvaluationFailure Evaluator.crash
  | ModelFailure string
  | LedgerFailure canon_error
  | SequenceTaken int

text \<open>The HTTP status that the caller sees; an exception that no handler maps is a 500.\<close>

fun status_code :: "service_error \<Rightarrow> nat" where
  "status_code (EgressRefusal _) = 503"
| "status_code NoGraph = 503"
| "status_code (BadTimestamp _) = 422"
| "status_code (NoTimezone _) = 422"
| "status_code (InputErrors _) = 422"
| "status_code (NoCanonicalForm _) = 422"
| "status_code (SkewRejected _ _) = 422"
| "status_code _ = 500"

section \<open>Loading a Knowledge Graph\<close>

text \<open>The codec of the deployment converts a flat document with the conversion of \<open>Flat_Graph\<close>.\<close>

definition service_codec :: "deployment \<Rightarrow> codec" where
  "service_codec dp =
     (dp_codec dp)\<lparr>flat_graph := (\<lambda>data.
        case flat_to_graph (dp_world dp) (dp_codec dp) data PyNone of
          Inl e \<Rightarrow> Inl ''ValueError''
        | Inr g \<Rightarrow> Inr (dget g ''nodes'', dget g ''edges''))\<rparr>"

definition graph_content :: "deployment \<Rightarrow> obj \<Rightarrow> flat_error + obj" where
  "graph_content dp data =
     (if is_graph_kg data
      then Inr [(''metadata'', or_else (dget data ''metadata'') (PyDict [])), (''nodes'', dget data ''nodes''),
                (''edges'', dget data ''edges'')]
      else flat_to_graph (dp_world dp) (dp_codec dp) data PyNone)"

datatype kg_load_error =
    SignatureMissing
  | PolicyInvalid load_error
  | GraphInvalid load_error
  | FlatShapeRefused
  | HashFailure

definition compute_kg_version_hash :: "deployment \<Rightarrow> obj \<Rightarrow> kg_load_error + string" where
  "compute_kg_version_hash dp data =
     (case graph_content dp data of
        Inl e \<Rightarrow> Inl HashFailure
      | Inr g \<Rightarrow> (case kg_version_hash_of (dp_world dp) g of Inl e \<Rightarrow> Inl HashFailure | Inr h \<Rightarrow> Inr h))"

definition require_graph_shape :: "env \<Rightarrow> knowledge_graph \<Rightarrow> kg_load_error + unit" where
  "require_graph_shape env kg =
     (if legacy_version_hash kg = None then Inr ()
      else if env_true env ''SKI_KG_ALLOW_FLAT'' then Inr () else Inl FlatShapeRefused)"

fun trust_name :: "kg_trust_level \<Rightarrow> string" where
  "trust_name Anchored = ''anchored''"
| "trust_name Unanchored = ''unanchored''"
| "trust_name Unsigned = ''unsigned''"

definition checked_graph ::
  "deployment \<Rightarrow> trust_policy option \<Rightarrow> obj \<Rightarrow> kg_load_error + knowledge_graph \<times> string" where
  "checked_graph dp given data =
     (if \<not> has_key data ''signature'' then Inl SignatureMissing
      else (case (case given of
                    Some p \<Rightarrow> Inr p
                  | None \<Rightarrow> policy_from_env (w_crypto (dp_world dp)) (dp_read_file dp) (dp_env dp)) of
          Inl e \<Rightarrow> Inl (PolicyInvalid e)
        | Inr policy \<Rightarrow>
            (case from_dict (w_crypto (dp_world dp)) (service_codec dp) data True policy of
               Inl e \<Rightarrow> Inl (GraphInvalid e)
             | Inr kg \<Rightarrow>
                 (case require_graph_shape (dp_env dp) kg of
                    Inl e \<Rightarrow> Inl e
                  | Inr _ \<Rightarrow> map_sum id (Pair kg) (compute_kg_version_hash dp data)))))"

text \<open>
  \<open>load_kg\<close>: \<open>Inl (Some e)\<close> is the 400 with its reason. \<open>Inl None\<close> is the exception of the tag registry, which
  is built after the graph has been replaced.
\<close>

definition load_kg :: "deployment \<Rightarrow> obj \<Rightarrow> service \<Rightarrow> service \<times> (kg_load_error option + unit)" where
  "load_kg dp data sv =
     (case checked_graph dp (sv_policy sv) data of
        Inl e \<Rightarrow> (sv, Inl (Some e))
      | Inr (kg, new_hash) \<Rightarrow>
          (let sv = sv\<lparr>sv_graph := Some kg\<rparr> in
           case registry_from_dict (kg_tag_registry kg) (kg_rules kg) of
             Inl missing \<Rightarrow> (sv, Inl None)
           | Inr registry \<Rightarrow>
               (sv\<lparr>sv_registry := Some registry, sv_graph_hash := new_hash,
                   sv_evaluator := map_option (\<lambda>ev. ev\<lparr>ev_kg_version_hash := new_hash,
                      ev_kg_signer_key_id := signer_key_id kg, ev_kg_trust := Some (trust_name (kg_trust_of kg))\<rparr>)
                      (sv_evaluator sv)\<rparr>, Inr ())))"

section \<open>Validation\<close>

definition parse_telemetry_ts :: "calendar \<Rightarrow> string \<Rightarrow> service_error + int" where
  "parse_telemetry_ts cal s =
     (case from_iso cal (replace_Z s) of
        None \<Rightarrow> Inl (BadTimestamp s)
      | Some Naive \<Rightarrow> Inl (NoTimezone s)
      | Some (Aware t) \<Rightarrow> Inr t)"

definition record_json :: "measurement_record \<Rightarrow> obj" where
  "record_json mr =
     [(''measurement_id'', PyStr (mr_id mr)), (''timestamp'', PyStr (mr_timestamp mr)), (''subject'', PyStr (mr_subject mr)),
      (''measurement'', PyDict (mr_values mr)), (''jurisdiction'', opt_str (mr_jurisdiction mr))]"

definition hash_measurement :: "world \<Rightarrow> measurement_record \<Rightarrow> canon_error + string" where
  "hash_measurement w mr = map_sum id (hexdigest w) (canonicalize (w_runtime w) (json_of (PyDict (record_json mr))))"

definition clock_skew_mode :: "env \<Rightarrow> string" where
  "clock_skew_mode env = py_lower (py_strip (env_default env ''SKI_CLOCK_SKEW_MODE'' ''discretionary''))"

text \<open>Times are microseconds; the double that \<open>total_seconds\<close> yields is compared exactly.\<close>

definition clock_skew_delta :: "int \<Rightarrow> int \<Rightarrow> int" where
  "clock_skew_delta telemetry_ts arrival = \<bar>arrival - telemetry_ts\<bar>"

definition too_skewed :: "service \<Rightarrow> int \<Rightarrow> int \<Rightarrow> bool" where
  "too_skewed sv telemetry_ts arrival =
     (sv_max_skew sv > 0 \<and> clock_skew_delta telemetry_ts arrival > microseconds (sv_max_skew sv))"

definition skew_seconds :: "int \<Rightarrow> int \<Rightarrow> rat" where
  "skew_seconds telemetry_ts arrival = of_int (clock_skew_delta telemetry_ts arrival) / 1000000"

definition sentinel_hash :: string where
  "sentinel_hash = ''sha256:'' @ genesis_hash"

definition build_clock_skew_envelope :: "rat \<Rightarrow> int \<Rightarrow> string \<Rightarrow> knowledge_graph option \<Rightarrow> envelope" where
  "build_clock_skew_envelope seconds limit graph_hash kg =
     \<lparr>verdict = DISCRETIONARY, reasoning = ClockSkewReasoning, kg_citations = [], formalizable_assertions = [],
      verifier_result = \<lparr>status = UNVERIFIABLE, checked_assertions = 0, divergences = [ClockSkew seconds limit]\<rparr>,
      model_provenance =
        \<lparr>model_weight_hash = sentinel_hash, kg_version_hash = graph_hash, prompt_template_id = ''ski.v3.clock-skew-guard'',
         prompt_template_hash = sentinel_hash, decoder_seed = 0, structured_grammar_hash = sentinel_hash,
         model_hash_verified = None, inference_backend = None,
         kg_signer_key_id = Option.bind kg signer_key_id, kg_trust = map_option (trust_name \<circ> kg_trust_of) kg\<rparr>,
      transcript_ref = ''transcript:none-clock-skew-guard'', human_attestation = Some attestation_required,
      envelope_notes = [ClockSkewNote seconds limit], verdict_path = None\<rparr>"

section \<open>What is written to the ledger\<close>

definition first_obligation_id :: "envelope \<Rightarrow> string option" where
  "first_obligation_id e = map_option node_id (find (\<lambda>c. node_id c \<noteq> []) (kg_citations e))"

definition runtime_version :: ustr where
  "runtime_version = ascii ''3.3.0''"

definition ledger_request ::
  "deployment \<Rightarrow> service \<Rightarrow> knowledge_graph \<Rightarrow> measurement_record \<Rightarrow> string \<Rightarrow> envelope \<Rightarrow> transcript option
     \<Rightarrow> string option \<Rightarrow> string \<Rightarrow> string option \<Rightarrow> evidence_request" where
  "ledger_request dp sv kg mr thash e t rule_id track weight_hash =
     \<lparr>q_verdict = ascii (verdict_name (verdict e)), q_telemetry_id = ascii (mr_id mr), q_telemetry_hash = thash,
      q_rule_id = map_option ascii rule_id, q_kg_version = Some (ascii (kg_version kg)), q_model_version = runtime_version,
      q_reasoning = dp_reasoning_text dp (reasoning e), q_track = Some (ascii track),
      q_envelope = dp_envelope_text dp e, q_transcript = map_option (transcript_text (w_runtime (dp_world dp))) t,
      q_transcript_id = map_option (ascii \<circ> t_id) t, q_transcript_signature = map_option t_signature t,
      q_signing_key_id = map_option t_key_id t, q_verifier_status = ascii (status_name (status (verifier_result e))),
      q_kg_version_hash = Some (sv_graph_hash sv), q_model_weight_hash = weight_hash\<rparr>"

text \<open>
  \<open>append_v3\<close> waits between the read of the head and the insert; this is the row it inserts after the head
  \<open>link\<close>.
\<close>

definition row_after ::
  "world \<Rightarrow> client \<Rightarrow> int \<times> string \<Rightarrow> int \<Rightarrow> evidence_request \<Rightarrow> canon_error + ledger_row" where
  "row_after w cl link now q =
     (case evidence_hash (w_runtime w) (w_sha w) (w_scan w) (Some (q_envelope q)) of
        Inl e \<Rightarrow> Inl e
      | Inr envelope_hash \<Rightarrow>
     (case evidence_hash (w_runtime w) (w_sha w) (w_scan w) (q_transcript q) of
        Inl e \<Rightarrow> Inl e
      | Inr transcript_hash \<Rightarrow>
          (let line = evidence_line w link now q envelope_hash transcript_hash in
           if format5 cl then
             (case entry_payload_v5 (w_runtime w) line (request_v5 cl q) of
                Inl e \<Rightarrow> Inl e
              | Inr p \<Rightarrow>
                  map_sum id (\<lambda>sig. add_v5 (request_v5 cl q) sig (evidence_row w now (hexdigest w p) line q))
                    (sign_position w cl q (fst link) (hexdigest w p)))
           else map_sum id (\<lambda>p. evidence_row w now (hexdigest w p) line q) (entry_payload_v4 (w_runtime w) line))))"

section \<open>The phases of an evaluation\<close>

text \<open>
  Where an evaluation waits: before the buffer write, after it, for the model's answer to the prompt, and for
  the ledger, before and after the read of the head. The flag of an append says whether a model was asked.
\<close>

datatype phase =
    Buffering measurement_record int string
  | Scoping measurement_record int string
  | Asking measurement_record int string obj string ustr
  | Appending evidence_request envelope bool
  | Inserting evidence_request envelope bool "int \<times> string" int
  | Finished "service_error + envelope"

record turn =
  tn_buffer_ok :: bool
  tn_answer :: "string + obj"
  tn_call :: call_context
  tn_now :: int

text \<open>The checks before the first wait, and the branch of the clock-skew guard.\<close>

definition skew_phase ::
  "deployment \<Rightarrow> service \<Rightarrow> knowledge_graph \<Rightarrow> measurement_record \<Rightarrow> string \<Rightarrow> rat \<Rightarrow> service \<times> phase" where
  "skew_phase dp sv kg mr thash seconds =
     (if clock_skew_mode (dp_env dp) = ''reject'' then (sv, Finished (Inl (SkewRejected seconds (sv_max_skew sv))))
      else
        (let e = build_clock_skew_envelope seconds (sv_max_skew sv) (sv_graph_hash sv) (Some kg) in
         (sv\<lparr>sv_produced := sv_produced sv + 1\<rparr>,
          Appending (ledger_request dp sv kg mr thash e None None ''v3-clock-skew-guard'' None) e False)))"

definition admit :: "deployment \<Rightarrow> int \<Rightarrow> measurement_record \<Rightarrow> service \<Rightarrow> service \<times> phase" where
  "admit dp arrival mr sv =
     (case sv_graph sv of
        None \<Rightarrow> (sv, Finished (Inl NoGraph))
      | Some kg \<Rightarrow>
          if sv_evaluator sv = None \<or> sv_ledger sv = None then (sv, Finished (Inl NotInitialised))
          else (case parse_telemetry_ts (dp_calendar dp) (mr_timestamp mr) of
              Inl e \<Rightarrow> (sv, Finished (Inl e))
            | Inr ts \<Rightarrow>
                (let errors = measurement_input_errors (mr_values mr) (kg_rules kg) in
                 if errors \<noteq> [] then (sv, Finished (Inl (InputErrors errors)))
                 else (case hash_measurement (dp_world dp) mr of
                     Inl e \<Rightarrow> (sv, Finished (Inl (NoCanonicalForm e)))
                   | Inr thash \<Rightarrow>
                       if too_skewed sv ts arrival then skew_phase dp sv kg mr thash (skew_seconds ts arrival)
                       else (sv, Buffering mr ts thash)))))"

definition telemetry_of :: "deployment \<Rightarrow> service \<Rightarrow> telemetry_source option" where
  "telemetry_of dp sv = (if sv_buffer sv then Some (buffer_source (dp_arith dp) (sv_tenant sv) (sv_rows sv)) else None)"

text \<open>A buffer write that fails is logged and the evaluation goes on.\<close>

definition write_buffer :: "turn \<Rightarrow> measurement_record \<Rightarrow> int \<Rightarrow> string \<Rightarrow> service \<Rightarrow> service \<times> phase" where
  "write_buffer tn mr ts thash sv =
     (if sv_buffer sv \<and> tn_buffer_ok tn
      then sv\<lparr>sv_rows := buffer_append (\<lambda>m. []) (sv_tenant sv) (mr_subject mr) (mr_id mr) ts (mr_values mr) (Some thash) (sv_rows sv)\<rparr>
      else sv, Scoping mr ts thash)"

definition scope_measurement :: "deployment \<Rightarrow> measurement_record \<Rightarrow> int \<Rightarrow> string \<Rightarrow> service \<Rightarrow> service \<times> phase" where
  "scope_measurement dp mr ts thash sv0 =
     (let sv = sv0\<lparr>sv_produced := sv_produced sv0 + 1\<rparr> in
      case sv_graph sv of
        None \<Rightarrow> (sv, Finished (Inl NoGraph))
      | Some kg \<Rightarrow>
          (case scope_to (dp_calendar dp) kg (mr_jurisdiction mr) ts (Some (mr_subject mr)) of
             Inl _ \<Rightarrow> (sv, Finished (Inl ScopeFailure))
           | Inr snapshot \<Rightarrow>
               (case render_canonical_prompt (w_runtime (dp_world dp)) (mr_values mr) snapshot of
                  Inl c \<Rightarrow> (sv, Finished (Inl (EvaluationFailure c)))
                | Inr prompt \<Rightarrow> (sv, Asking mr ts thash snapshot (tier_for_snapshot snapshot) prompt))))"

definition decide ::
  "deployment \<Rightarrow> turn \<Rightarrow> measurement_record \<Rightarrow> int \<Rightarrow> string \<Rightarrow> obj \<Rightarrow> string \<Rightarrow> ustr \<Rightarrow> service \<Rightarrow> service \<times> phase" where
  "decide dp tn mr ts thash snapshot tier prompt sv =
     (case (sv_graph sv, sv_evaluator sv) of
        (Some kg, Some ev) \<Rightarrow>
          (case tn_answer tn of
             Inl e \<Rightarrow> (sv, Finished (Inl (ModelFailure e)))
           | Inr raw \<Rightarrow>
               (case aevaluate_with_transcript (dp_world dp) (dp_contract dp)
                       (map_of (dp_env dp) ''SKI_FORCE_DISCRETIONARY_ON_UNVERIFIABLE'') ev (sv_signer sv) (tn_call tn) prompt
                       (mr_values mr) snapshot (PyStr tier) (Some (mr_subject mr)) (Some ts) (telemetry_of dp sv) raw of
                  Inl c \<Rightarrow> (sv, Finished (Inl (EvaluationFailure c)))
                | Inr result \<Rightarrow>
                    (let e = er_envelope result in
                     (sv, Appending (ledger_request dp sv kg mr thash e (er_transcript result) (first_obligation_id e)
                            ''v3-evaluator'' (map_option backend_weight_hash (sv_llm sv))) e True))))
      | _ \<Rightarrow> (sv, Finished (Inl NotInitialised)))"

definition select_head :: "turn \<Rightarrow> evidence_request \<Rightarrow> envelope \<Rightarrow> bool \<Rightarrow> service \<Rightarrow> service \<times> phase" where
  "select_head tn q e asked sv = (sv, Inserting q e asked (next_link (entries (sv_db sv))) (tn_now tn))"

definition record_outcome :: "envelope \<Rightarrow> service \<Rightarrow> service" where
  "record_outcome e sv =
     (case sv_monitor sv of
        None \<Rightarrow> sv
      | Some mon \<Rightarrow>
          (case record_status mon (Status_Member (status (verifier_result e))) of
             Inl _ \<Rightarrow> sv
           | Inr mon' \<Rightarrow> sv\<lparr>sv_monitor := Some mon'\<rparr>))"

text \<open>The insert: sequence numbers are unique, so a number that another append took meanwhile is refused.\<close>

definition insert_row ::
  "deployment \<Rightarrow> evidence_request \<Rightarrow> envelope \<Rightarrow> bool \<Rightarrow> int \<times> string \<Rightarrow> int \<Rightarrow> service \<Rightarrow> service \<times> phase" where
  "insert_row dp q e asked link now sv =
     (case sv_ledger sv of
        None \<Rightarrow> (sv, Finished (Inl NotInitialised))
      | Some cl \<Rightarrow>
          (case row_after (dp_world dp) cl link now q of
             Inl err \<Rightarrow> (sv, Finished (Inl (LedgerFailure err)))
           | Inr r \<Rightarrow>
               if list_ex (\<lambda>r'. l_seq r' = l_seq r) (entries (sv_db sv)) then (sv, Finished (Inl (SequenceTaken (l_seq r))))
               else
                 (let sv' = sv\<lparr>sv_db := (sv_db sv)\<lparr>entries := entries (sv_db sv) @ [r]\<rparr>\<rparr> in
                  (if asked then record_outcome e sv' else sv', Finished (Inr e)))))"

definition progress :: "deployment \<Rightarrow> turn \<Rightarrow> phase \<Rightarrow> service \<Rightarrow> service \<times> phase" where
  "progress dp tn ph sv =
     (case ph of
        Buffering mr ts thash \<Rightarrow> write_buffer tn mr ts thash sv
      | Scoping mr ts thash \<Rightarrow> scope_measurement dp mr ts thash sv
      | Asking mr ts thash snapshot tier prompt \<Rightarrow> decide dp tn mr ts thash snapshot tier prompt sv
      | Appending q e asked \<Rightarrow> select_head tn q e asked sv
      | Inserting q e asked link now \<Rightarrow> insert_row dp q e asked link now sv
      | Finished r \<Rightarrow> (sv, ph))"

section \<open>One evaluation\<close>

fun run_phases :: "deployment \<Rightarrow> turn \<Rightarrow> nat \<Rightarrow> phase \<Rightarrow> service \<Rightarrow> service \<times> phase" where
  "run_phases dp tn 0 ph sv = (sv, ph)"
| "run_phases dp tn (Suc n) ph sv = (let (sv', ph') = progress dp tn ph sv in run_phases dp tn n ph' sv')"

text \<open>\<open>evaluate\<close>: the egress guard first. Five waits are the most an evaluation has.\<close>

definition enter :: "deployment \<Rightarrow> int \<Rightarrow> measurement_record \<Rightarrow> service \<Rightarrow> service \<times> phase" where
  "enter dp arrival mr sv =
     (case sv_guard sv of
        Some g \<Rightarrow> if tripped g then (sv, Finished (Inl (EgressRefusal (g_attempts g)))) else admit dp arrival mr sv
      | None \<Rightarrow> admit dp arrival mr sv)"

definition result_of :: "phase \<Rightarrow> (service_error + envelope) option" where
  "result_of ph = (case ph of Finished r \<Rightarrow> Some r | _ \<Rightarrow> None)"

definition evaluate_measurement ::
  "deployment \<Rightarrow> int \<Rightarrow> turn \<Rightarrow> measurement_record \<Rightarrow> service \<Rightarrow> service \<times> (service_error + envelope) option" where
  "evaluate_measurement dp arrival tn mr sv =
     (let (sv', ph) = enter dp arrival mr sv in map_prod id result_of (run_phases dp tn 5 ph sv'))"

section \<open>Checkpoints\<close>

text \<open>
  The background checkpoint after an append, as one step. The time-stamp authority may be absent, answer or
  fail; a failure is logged and the checkpoint signed without it.
\<close>

datatype tsa_outcome = No_Authority | Answers "bytes \<Rightarrow> bytes" | Fails

definition sign_checkpoint :: "deployment \<Rightarrow> ustr \<Rightarrow> tsa_outcome \<Rightarrow> service \<Rightarrow> service" where
  "sign_checkpoint dp created tsa sv =
     (case sv_ledger sv of
        None \<Rightarrow> sv
      | Some cl \<Rightarrow>
          (case key_signer cl of
             None \<Rightarrow> sv
           | Some s \<Rightarrow>
               (case make_checkpoint (dp_world dp) cl s (sv_db sv) created
                       (case tsa of Answers f \<Rightarrow> Some f | _ \<Rightarrow> None) of
                  Inl _ \<Rightarrow> sv
                | Inr None \<Rightarrow> sv
                | Inr (Some (db, cp)) \<Rightarrow> sv\<lparr>sv_db := db\<rparr>)))"

definition maybe_checkpoint :: "deployment \<Rightarrow> ustr \<Rightarrow> tsa_outcome \<Rightarrow> service \<Rightarrow> service" where
  "maybe_checkpoint dp created tsa sv =
     (case sv_ledger sv of
        None \<Rightarrow> sv
      | Some cl \<Rightarrow>
          if \<not> format5 cl \<or> sv_checkpoint_every sv \<le> 0 then sv
          else if entries_since_checkpoint cl (sv_db sv) \<ge> sv_checkpoint_every sv then sign_checkpoint dp created tsa sv
          else sv)"

section \<open>Facts\<close>

text \<open>An append whose head does not change between the read and the insert is the append of the ledger client.\<close>

lemma append_v3_row_after:
  "append_v3 w cl db now q =
   map_sum id (\<lambda>r. db\<lparr>entries := entries db @ [r]\<rparr>) (row_after w cl (next_link (entries db)) now q)"
  by (auto simp: append_v3_def row_after_def Let_def split: sum.split)

lemma row_after_columns:
  assumes "row_after w cl link now q = Inr r"
  shows "l_seq r = fst link" "l_prev r = snd link" "l_time r = now" "l_verdict r = q_verdict q" "l_tid r = q_telemetry_id q"
    "l_thash r = q_telemetry_hash q" "l_track r = q_track q" "l_verifier_status r = Some (q_verifier_status q)"
    "l_envelope r = Some (w_jsonb w (q_envelope q))" "l_kg r = q_kg_version q"
    "format5 cl \<Longrightarrow> l_kg_hash r = q_kg_version_hash q"
proof -
  obtain line h c sig where r: "r = (if format5 cl then add_v5 (request_v5 cl q) sig (evidence_row w now h line q) else evidence_row w now h line q)"
    and line: "\<exists>eh th. line = evidence_line w link now q eh th"
    using assms by (fastforce simp: row_after_def Let_def map_sum_Inr split: sum.splits if_splits)
  have "line = evidence_line w link now q (en_envelope_hash line) (en_transcript_hash line)"
    using line by (auto simp: evidence_line_def)
  then have fields: "en_sequence_number line = fst link" "en_previous_hash line = snd link" "en_verdict line = q_verdict q"
    "en_telemetry_id line = q_telemetry_id q" "en_telemetry_hash line = q_telemetry_hash q" "en_track line = q_track q"
    "en_verifier_status line = Some (q_verifier_status q)" "en_kg_version line = q_kg_version q"
    using line by (auto simp: evidence_line_def request_line_def)
  show "l_seq r = fst link" "l_prev r = snd link" "l_time r = now" "l_verdict r = q_verdict q" "l_tid r = q_telemetry_id q"
    "l_thash r = q_telemetry_hash q" "l_track r = q_track q" "l_verifier_status r = Some (q_verifier_status q)"
    "l_envelope r = Some (w_jsonb w (q_envelope q))" "l_kg r = q_kg_version q"
    "format5 cl \<Longrightarrow> l_kg_hash r = q_kg_version_hash q"
    by (simp_all add: r add_v5_def evidence_row_def base_row_def request_v5_def fields)
qed

text \<open>What the phases leave alone.\<close>

definition same_settings :: "service \<Rightarrow> service \<Rightarrow> bool" where
  "same_settings sv sv' \<longleftrightarrow>
     sv_policy sv' = sv_policy sv \<and> sv_llm sv' = sv_llm sv \<and> sv_ledger sv' = sv_ledger sv \<and> sv_signer sv' = sv_signer sv \<and>
     sv_buffer sv' = sv_buffer sv \<and> sv_tenant sv' = sv_tenant sv \<and> sv_max_skew sv' = sv_max_skew sv \<and>
     sv_checkpoint_every sv' = sv_checkpoint_every sv"

definition same_graph :: "service \<Rightarrow> service \<Rightarrow> bool" where
  "same_graph sv sv' \<longleftrightarrow>
     sv_graph sv' = sv_graph sv \<and> sv_registry sv' = sv_registry sv \<and> sv_graph_hash sv' = sv_graph_hash sv \<and>
     sv_evaluator sv' = sv_evaluator sv \<and> sv_guard sv' = sv_guard sv"

lemma same_refl [simp]: "same_settings sv sv" "same_graph sv sv"
  by (simp_all add: same_settings_def same_graph_def)

lemma record_outcome_frame [simp]:
  "same_settings sv (record_outcome e sv)" "same_graph sv (record_outcome e sv)" "sv_db (record_outcome e sv) = sv_db sv"
  "sv_rows (record_outcome e sv) = sv_rows sv"
  by (auto simp: record_outcome_def same_settings_def same_graph_def split: option.split sum.split)

lemma enter_frame:
  assumes "enter dp arrival mr sv = (sv', ph)"
  shows "same_settings sv sv' \<and> same_graph sv sv' \<and> sv_db sv' = sv_db sv \<and> sv_rows sv' = sv_rows sv"
  using assms
  by (auto simp: enter_def admit_def skew_phase_def same_settings_def same_graph_def Let_def split: option.splits if_splits sum.splits)

text \<open>An evaluation appends at most one row, and only with the verdict it returns.\<close>

lemma progress_frame:
  assumes "progress dp tn ph sv = (sv', ph')"
  shows "same_settings sv sv' \<and> same_graph sv sv' \<and>
    (sv_db sv' = sv_db sv \<and> (result_of ph = None \<longrightarrow> (case result_of ph' of Some (Inr e) \<Rightarrow> False | _ \<Rightarrow> True)) \<or>
     (\<exists>q e asked link now cl r. ph = Inserting q e asked link now \<and> sv_ledger sv = Some cl \<and>
        row_after (dp_world dp) cl link now q = Inr r \<and> \<not> list_ex (\<lambda>r'. l_seq r' = l_seq r) (entries (sv_db sv)) \<and>
        sv_db sv' = (sv_db sv)\<lparr>entries := entries (sv_db sv) @ [r]\<rparr> \<and> ph' = Finished (Inr e)))"
proof (cases ph)
  case (Buffering mr ts h)
  with assms show ?thesis
    by (auto simp: progress_def write_buffer_def same_settings_def same_graph_def result_of_def split: if_splits)
next
  case (Scoping mr ts h)
  with assms show ?thesis
    by (auto simp: progress_def scope_measurement_def same_settings_def same_graph_def result_of_def Let_def
        split: option.splits sum.splits)
next
  case (Asking mr ts h snapshot tier prompt)
  with assms show ?thesis
    by (auto simp: progress_def decide_def result_of_def Let_def split: option.splits sum.splits)
next
  case (Appending q e asked)
  with assms show ?thesis by (auto simp: progress_def select_head_def result_of_def)
next
  case (Inserting q e asked link now)
  show ?thesis
  proof (cases "sv_ledger sv")
    case None
    with Inserting assms show ?thesis by (auto simp: progress_def insert_row_def result_of_def)
  next
    case (Some cl)
    show ?thesis
    proof (cases "row_after (dp_world dp) cl link now q")
      case (Inl err)
      with Inserting Some assms show ?thesis by (auto simp: progress_def insert_row_def result_of_def)
    next
      case (Inr r)
      have "same_settings sv (record_outcome e (sv\<lparr>sv_db := d\<rparr>))" "same_graph sv (record_outcome e (sv\<lparr>sv_db := d\<rparr>))" for d
        using record_outcome_frame(1,2) [of "sv\<lparr>sv_db := d\<rparr>" e] by (auto simp: same_settings_def same_graph_def)
      then show ?thesis
        using Inserting Some Inr assms
        by (auto simp: progress_def insert_row_def result_of_def Let_def same_settings_def same_graph_def split: if_splits)
    qed
  qed
next
  case (Finished r)
  with assms show ?thesis by (auto simp: progress_def result_of_def)
qed

end
