(* ===== verification/Service_Run.thy ===== *)
theory Service_Run
  imports Service
begin

text \<open>
  The service with its handlers interleaved: evaluations arrive and go on from one wait to the next in any
  order, Knowledge Graphs are loaded, checkpoints signed and network calls made in between. The clock of the
  database process never runs back. What holds in every reachable state is proved by rule induction on
  \<open>service_run\<close>.
\<close>

section \<open>Steps\<close>

type_synonym system = "service \<times> phase list"

definition tsa_is :: "(bytes \<Rightarrow> bytes) \<Rightarrow> tsa_outcome \<Rightarrow> bool" where
  "tsa_is authority tsa = (case tsa of Answers f \<Rightarrow> f = authority | _ \<Rightarrow> True)"

text \<open>What \<open>uuid4\<close> yields: hexadecimal digits and hyphens.\<close>

definition uuid_like :: "string \<Rightarrow> bool" where
  "uuid_like s = list_all (\<lambda>c. c \<in> set ''0123456789abcdef-'') s"

inductive service_step :: "deployment \<Rightarrow> (bytes \<Rightarrow> bytes) \<Rightarrow> system \<Rightarrow> system \<Rightarrow> bool" for dp authority where
  arrive: "enter dp arrival mr sv = (sv', ph) \<Longrightarrow> service_step dp authority (sv, ts) (sv', ts @ [ph])"
| resume: "i < length ts \<Longrightarrow> list_all (\<lambda>r. l_time r \<le> tn_now tn) (entries (sv_db sv)) \<Longrightarrow>
    uuid_like (cx_uuid (tn_call tn)) \<Longrightarrow> progress dp tn (ts ! i) sv = (sv', ph) \<Longrightarrow> service_step dp authority (sv, ts) (sv', ts[i := ph])"
| load: "load_kg dp data sv = (sv', outcome) \<Longrightarrow> service_step dp authority (sv, ts) (sv', ts)"
| checkpoint: "tsa_is authority tsa \<Longrightarrow> service_step dp authority (sv, ts) (maybe_checkpoint dp created tsa sv, ts)"
| network: "sv_guard sv = Some g \<Longrightarrow> audit_call look bypass g event args = (g', out) \<Longrightarrow>
    service_step dp authority (sv, ts) (sv\<lparr>sv_guard := Some g'\<rparr>, ts)"

inductive service_run :: "deployment \<Rightarrow> (bytes \<Rightarrow> bytes) \<Rightarrow> system \<Rightarrow> system \<Rightarrow> bool" for dp authority start where
  initial: "service_run dp authority start start"
| step: "service_run dp authority start sys \<Longrightarrow> service_step dp authority sys sys' \<Longrightarrow> service_run dp authority start sys'"

inductive_cases service_stepE: "service_step dp authority (sv, ts) (sv', ts')"

section \<open>What the steps leave alone\<close>

lemma load_frame:
  assumes "load_kg dp data sv = (sv', outcome)"
  shows "same_settings sv sv' \<and> sv_db sv' = sv_db sv \<and> sv_rows sv' = sv_rows sv \<and> sv_monitor sv' = sv_monitor sv \<and>
    sv_guard sv' = sv_guard sv"
  using assms by (auto simp: load_kg_def same_settings_def Let_def split: sum.splits)

lemma checkpoint_frame:
  "same_settings sv (maybe_checkpoint dp created tsa sv) \<and> same_graph sv (maybe_checkpoint dp created tsa sv) \<and>
   entries (sv_db (maybe_checkpoint dp created tsa sv)) = entries (sv_db sv) \<and>
   sv_rows (maybe_checkpoint dp created tsa sv) = sv_rows sv"
  by (auto simp: maybe_checkpoint_def sign_checkpoint_def same_settings_def same_graph_def make_checkpoint_entries
      split: option.split sum.split)

lemma service_step_settings:
  "service_step dp authority (sv, ts) (sv', ts') \<Longrightarrow> same_settings sv sv'"
  by (erule service_stepE)
    (use enter_frame progress_frame load_frame checkpoint_frame in \<open>auto simp: same_settings_def\<close>)

lemma same_settings_trans: "same_settings a b \<Longrightarrow> same_settings b c \<Longrightarrow> same_settings a c"
  by (simp add: same_settings_def)

lemma service_run_settings:
  "service_run dp authority (sv, ts) (sv', ts') \<Longrightarrow> same_settings sv sv'"
proof (induction "(sv', ts')" arbitrary: sv' ts' rule: service_run.induct)
  case initial
  then show ?case by simp
next
  case (step sys)
  obtain sv1 ts1 where sys: "sys = (sv1, ts1)" by (cases sys)
  from step(2) [OF sys] service_step_settings [OF step(3) [unfolded sys]] show ?case by (rule same_settings_trans)
qed

section \<open>Every returned verdict has its row\<close>

text \<open>What a row and an envelope say of the verdict.\<close>

definition row_view :: "ledger_row \<Rightarrow> ustr \<times> ustr option \<times> ustr option" where
  "row_view r = (l_verdict r, l_verifier_status r, l_envelope r)"

definition envelope_view :: "deployment \<Rightarrow> envelope \<Rightarrow> ustr \<times> ustr option \<times> ustr option" where
  "envelope_view dp e =
     (ascii (verdict_name (verdict e)), Some (ascii (status_name (status (verifier_result e)))),
      Some (w_jsonb (dp_world dp) (dp_envelope_text dp e)))"

definition request_of :: "deployment \<Rightarrow> envelope \<Rightarrow> evidence_request \<Rightarrow> bool" where
  "request_of dp e q \<longleftrightarrow> q_verdict q = ascii (verdict_name (verdict e)) \<and>
     q_verifier_status q = ascii (status_name (status (verifier_result e))) \<and> q_envelope q = dp_envelope_text dp e"

definition coherent :: "deployment \<Rightarrow> phase \<Rightarrow> bool" where
  "coherent dp ph =
     (case ph of Appending q e asked \<Rightarrow> request_of dp e q | Inserting q e asked link now \<Rightarrow> request_of dp e q | _ \<Rightarrow> True)"

lemma ledger_request_of [simp]: "request_of dp e (ledger_request dp sv kg mr h e t i track wh)"
  by (simp add: request_of_def ledger_request_def)

definition returned :: "phase list \<Rightarrow> envelope list" where
  "returned ts = List.map_filter (\<lambda>ph. case ph of Finished (Inr e) \<Rightarrow> Some e | _ \<Rightarrow> None) ts"

lemma enter_phase:
  assumes "enter dp arrival mr sv = (sv', ph)"
  shows "coherent dp ph \<and> returned [ph] = []"
  using assms
  by (auto simp: enter_def admit_def skew_phase_def coherent_def returned_def map_filter_simps Let_def
      split: option.splits if_splits sum.splits)

lemma progress_coherent:
  assumes "progress dp tn ph sv = (sv', ph')" "coherent dp ph"
  shows "coherent dp ph'"
  using assms
  by (auto simp: progress_def write_buffer_def scope_measurement_def decide_def select_head_def insert_row_def coherent_def Let_def
      split: phase.splits option.splits if_splits sum.splits)

lemma returned_append [simp]: "returned (ts @ us) = returned ts @ returned us"
  by (induction ts) (auto simp: returned_def map_filter_simps split: option.split)

lemma mset_returned_update:
  assumes "i < length ts" "returned [ts ! i] = []"
  shows "mset (returned (ts[i := ph])) = mset (returned ts) + mset (returned [ph])"
proof -
  have cons: "returned (p # ps) = returned [p] @ returned ps" for p ps using returned_append [of "[p]" ps] by simp
  have "returned ts = returned (take i ts @ ts ! i # drop (Suc i) ts)"
    by (rule arg_cong [OF id_take_nth_drop [OF assms(1)]])
  then have "returned ts = returned (take i ts) @ returned (drop (Suc i) ts)"
    unfolding returned_append cons [of "ts ! i" "drop (Suc i) ts"] assms(2) append_Nil .
  moreover have "returned (ts[i := ph]) = returned (take i ts) @ returned [ph] @ returned (drop (Suc i) ts)"
    unfolding upd_conv_take_nth_drop [OF assms(1)] returned_append cons [of ph "drop (Suc i) ts"] by (rule refl)
  ultimately show ?thesis by simp
qed

definition recorded_since :: "deployment \<Rightarrow> ledger_row list \<Rightarrow> system \<Rightarrow> bool" where
  "recorded_since dp before sys \<longleftrightarrow>
     list_all (coherent dp) (snd sys) \<and>
     (\<exists>new. entries (sv_db (fst sys)) = before @ new \<and>
        mset (map row_view new) = mset (map (envelope_view dp) (returned (snd sys))))"

lemma insert_recorded:
  assumes "request_of dp e q" "row_after (dp_world dp) cl link now q = Inr r"
  shows "row_view r = envelope_view dp e"
  using assms row_after_columns [OF assms(2)] by (simp add: row_view_def envelope_view_def request_of_def)

lemma resume_recorded:
  assumes "recorded_since dp before (sv, ts)" "i < length ts" "progress dp tn (ts ! i) sv = (sv', ph)"
  shows "recorded_since dp before (sv', ts[i := ph])"
proof -
  have coherent: "list_all (coherent dp) ts" "coherent dp (ts ! i)"
    using assms(1,2) by (auto simp: recorded_since_def list_all_length)
  then have all: "list_all (coherent dp) (ts[i := ph])"
    using progress_coherent [OF assms(3)] assms(2) by (auto simp: list_all_length nth_list_update)
  obtain new where new: "entries (sv_db sv) = before @ new"
      "mset (map row_view new) = mset (map (envelope_view dp) (returned ts))"
    using assms(1) by (auto simp: recorded_since_def)
  show ?thesis
  proof (cases "result_of (ts ! i)")
    case (Some r)
    then have "ts ! i = Finished r" by (auto simp: result_of_def split: phase.splits)
    with assms(2,3) have "sv' = sv" "ts[i := ph] = ts" by (auto simp: progress_def list_update_same_conv)
    with assms(1) show ?thesis by simp
  next
    case None
    then have no: "returned [ts ! i] = []"
      by (cases "ts ! i") (auto simp: result_of_def returned_def map_filter_simps)
    note upd = mset_returned_update [OF assms(2) no, of ph]
    from progress_frame [OF assms(3)] None consider
        "sv_db sv' = sv_db sv" "case result_of ph of Some (Inr e) \<Rightarrow> False | _ \<Rightarrow> True"
      | q e asked link now cl r where "ts ! i = Inserting q e asked link now" "row_after (dp_world dp) cl link now q = Inr r"
        "sv_db sv' = (sv_db sv)\<lparr>entries := entries (sv_db sv) @ [r]\<rparr>" "ph = Finished (Inr e)"
      by blast
    then show ?thesis
    proof cases
      case 1
      have "returned [ph] = []"
        using 1(2) by (auto simp: returned_def map_filter_simps result_of_def split: phase.splits sum.splits)
      with all new upd 1(1) show ?thesis by (auto simp: recorded_since_def)
    next
      case 2
      have "row_view r = envelope_view dp e"
        using coherent(2) 2(1,2) by (intro insert_recorded) (auto simp: coherent_def)
      moreover have "returned [ph] = [e]" using 2(4) by (simp add: returned_def map_filter_simps)
      ultimately have "mset (map row_view (new @ [r])) = mset (map (envelope_view dp) (returned (ts[i := ph])))"
        using new(2) upd by simp
      with all new(1) 2(3) show ?thesis by (auto simp: recorded_since_def)
    qed
  qed
qed

lemma step_recorded:
  assumes "service_step dp authority (sv, ts) (sv', ts')" "recorded_since dp before (sv, ts)"
  shows "recorded_since dp before (sv', ts')"
  using assms(1)
proof (cases rule: service_step.cases)
  case (arrive arrival mr ph)
  with assms(2) enter_phase [OF arrive(2)] enter_frame [OF arrive(2)] show ?thesis by (simp add: recorded_since_def)
next
  case (resume i tn ph)
  with resume_recorded [OF assms(2)] show ?thesis by simp
next
  case (load data outcome)
  with assms(2) load_frame [OF load(2)] show ?thesis by (simp add: recorded_since_def)
next
  case (checkpoint tsa created)
  with assms(2) checkpoint_frame [of sv dp created tsa] show ?thesis by (simp add: recorded_since_def)
next
  case (network g look bypass event args g' out)
  with assms(2) show ?thesis by (simp add: recorded_since_def)
qed

lemma run_recorded:
  assumes "service_run dp authority (sv, []) sys"
  shows "recorded_since dp (entries (sv_db sv)) sys"
  using assms
proof (induction sys rule: service_run.induct)
  case initial
  then show ?case by (simp add: recorded_since_def returned_def map_filter_simps)
next
  case (step sys sys')
  then show ?case using step_recorded by (cases sys, cases sys') blast
qed

section \<open>The ledger of the interleaved service\<close>

lemma strip_dense:
  assumes "\<forall>c \<in> set s. \<not> is_space c"
  shows "py_strip s = s"
proof -
  have keep: "dropWhile is_space t = t" if "\<forall>c \<in> set t. \<not> is_space c" for t using that by (cases t) auto
  have "dropWhile is_space (rev s) = rev s" using assms by (intro keep) simp
  then show ?thesis using keep [OF assms] by (simp add: py_strip_def py_lstrip_def)
qed

lemma strip_digest: "py_strip (''sha256:'' @ to_hex b) = ''sha256:'' @ to_hex b"
proof (rule strip_dense, rule ballI)
  fix c assume "c \<in> set (''sha256:'' @ to_hex b)"
  moreover have "list_all (\<lambda>c. \<not> is_space c) ''sha256:''" by code_simp
  moreover have "\<not> is_space c" if mem: "c \<in> set (to_hex b)" for c
  proof -
    obtain x where "c \<in> set (byte_hex x)" using mem by (auto simp: to_hex_def)
    moreover have "unat x div 16 < 16" "unat x mod 16 < 16" using unsigned_less [of x, where 'a = nat] by simp_all
    ultimately show ?thesis using hex_digit_char by (auto simp: byte_hex_def)
  qed
  ultimately show "\<not> is_space c" by (auto simp: list_all_iff)
qed

text \<open>A pending insert holds the link after a prefix of the ledger, all of it older than its own time.\<close>

definition pending :: "ledger_row list \<Rightarrow> int \<times> string \<Rightarrow> int \<Rightarrow> bool" where
  "pending rows link now \<longleftrightarrow>
     (\<exists>k \<le> length rows. link = next_link (take k rows) \<and> (\<forall>r \<in> set (take k rows). l_time r \<le> now))"

definition ledger_phase :: "world \<Rightarrow> ledger_row list \<Rightarrow> phase \<Rightarrow> bool" where
  "ledger_phase w rows ph =
     (case ph of
        Appending q e asked \<Rightarrow> honest_request w q
      | Inserting q e asked link now \<Rightarrow> honest_request w q \<and> pending rows link now
      | _ \<Rightarrow> True)"

definition transcript_law :: "world \<Rightarrow> bool" where
  "transcript_law w \<longleftrightarrow>
     (\<forall>t. uuid_like (t_id t) \<longrightarrow> w_transcript_id w (w_jsonb w (transcript_text (w_runtime w) t)) = Some (ascii (t_id t)))"

text \<open>A service as the startup leaves it: format 5, one signer for both uses, digests without spaces.\<close>

definition clean_service :: "service \<Rightarrow> client \<Rightarrow> signer \<Rightarrow> bool" where
  "clean_service sv cl s \<longleftrightarrow>
     sv_ledger sv = Some cl \<and> format5 cl \<and> key_signer cl = Some s \<and> py_strip (sv_graph_hash sv) = sv_graph_hash sv \<and>
     (case sv_llm sv of None \<Rightarrow> True | Some llm \<Rightarrow> py_strip (backend_weight_hash llm) = backend_weight_hash llm)"

definition sound_system :: "deployment \<Rightarrow> (bytes \<Rightarrow> bytes) \<Rightarrow> client \<Rightarrow> signer \<Rightarrow> system \<Rightarrow> bool" where
  "sound_system dp authority cl s sys \<longleftrightarrow>
     clean_service (fst sys) cl s \<and> ledger_run (dp_world dp) cl s authority (sv_db (fst sys)) \<and>
     list_all (ledger_phase (dp_world dp) (entries (sv_db (fst sys)))) (snd sys)"

lemma pending_extend: "pending rows link now \<Longrightarrow> pending (rows @ more_rows) link now"
  unfolding pending_def by (metis le_trans length_append le_add1 take_append diff_is_0_eq take_0 append_Nil2)

lemma ledger_phase_extend: "ledger_phase w rows ph \<Longrightarrow> ledger_phase w (rows @ more_rows) ph"
  by (cases ph) (auto simp: ledger_phase_def pending_extend)

lemma request_honest:
  assumes "transcript_law (dp_world dp)" "py_strip (sv_graph_hash sv) = sv_graph_hash sv" "map_option py_strip wh = wh"
    and "case t of None \<Rightarrow> True | Some t \<Rightarrow> uuid_like (t_id t)"
  shows "honest_request (dp_world dp) (ledger_request dp sv kg mr h e t i track wh)"
  using assms by (auto simp: honest_request_def ledger_request_def transcript_law_def split: option.split)

lemma enter_ledger_phase:
  assumes "transcript_law (dp_world dp)" "clean_service sv cl s" "enter dp arrival mr sv = (sv', ph)"
  shows "ledger_phase (dp_world dp) rows ph"
  using assms
  by (auto simp: enter_def admit_def skew_phase_def ledger_phase_def clean_service_def request_honest Let_def
      split: option.splits if_splits sum.splits)

lemma progress_ledger_phase:
  assumes "transcript_law (dp_world dp)" "clean_service sv cl s" "ledger_phase (dp_world dp) (entries (sv_db sv)) ph"
    and "list_all (\<lambda>r. l_time r \<le> tn_now tn) (entries (sv_db sv))" "uuid_like (cx_uuid (tn_call tn))"
    and "progress dp tn ph sv = (sv', ph')"
  shows "ledger_phase (dp_world dp) (entries (sv_db sv)) ph'"
proof (cases ph)
  case (Asking mr ts h snapshot tier prompt)
  have "py_strip (sv_graph_hash sv) = sv_graph_hash sv"
    "map_option py_strip (map_option backend_weight_hash (sv_llm sv)) = map_option backend_weight_hash (sv_llm sv)"
    using assms(2) by (auto simp: clean_service_def split: option.splits)
  moreover have "case t of None \<Rightarrow> True | Some t \<Rightarrow> uuid_like (t_id t)"
    if "aevaluate_with_transcript w k env ev sg (tn_call tn) prompt m snap tier subject as_of buffer raw = Inr result"
      "t = er_transcript result" for w k env ev sg prompt m snap tier subject as_of buffer raw result t
    using that assms(5)
    by (auto simp: aevaluate_with_transcript_def build_transcript_def map_sum_Inr Let_def split: sum.splits option.splits prod.splits)
  ultimately show ?thesis
    using Asking assms(1,6)
    by (auto simp: progress_def decide_def ledger_phase_def Let_def intro!: request_honest split: option.splits sum.splits)
next
  case (Appending q e asked)
  have "pending (entries (sv_db sv)) (next_link (entries (sv_db sv))) (tn_now tn)"
    unfolding pending_def using assms(4) by (intro exI [of _ "length (entries (sv_db sv))"]) (simp add: list_all_iff)
  with Appending assms(3,6) show ?thesis by (auto simp: progress_def select_head_def ledger_phase_def)
qed (use assms(6) in \<open>auto simp: progress_def write_buffer_def scope_measurement_def insert_row_def ledger_phase_def Let_def
    split: option.splits sum.splits if_splits\<close>)

text \<open>An insert that succeeds appends after the head: the link it read is still the last.\<close>

lemma insert_is_append:
  assumes "ledger_run w cl s authority db" "honest_request w q" "pending (entries db) link now"
    and "row_after w cl link now q = Inr r" "\<not> list_ex (\<lambda>r'. l_seq r' = l_seq r) (entries db)"
  shows "ledger_run w cl s authority (db\<lparr>entries := entries db @ [r]\<rparr>)"
proof -
  note linked = ledger_run_linked [OF assms(1)]
  obtain k where k: "k \<le> length (entries db)" "link = next_link (take k (entries db))"
      "\<forall>r \<in> set (take k (entries db)). l_time r \<le> now"
    using assms(3) by (auto simp: pending_def)
  have "linked (take k (entries db))" using linked by (auto simp: linked_def link_at_def)
  from next_link_linked [OF this] k(1,2) have "fst link = 1 + int k" by (simp add: min_absorb2)
  then have seq: "l_seq r = 1 + int k" using row_after_columns(1) [OF assms(4)] by simp
  have "k = length (entries db)"
  proof (rule ccontr)
    assume "k \<noteq> length (entries db)"
    with k(1) have "k < length (entries db)" by simp
    with linked have "l_seq (entries db ! k) = 1 + int k" by (auto simp: linked_def link_at_def)
    with seq \<open>k < length (entries db)\<close> assms(5) show False by (auto simp: list_ex_iff)
  qed
  with k have "link = next_link (entries db)" "\<forall>r \<in> set (entries db). l_time r \<le> now" by simp_all
  moreover from this(1) assms(4) have "append_v3 w cl db now q = Inr (db\<lparr>entries := entries db @ [r]\<rparr>)"
    by (simp add: append_v3_row_after)
  ultimately show ?thesis by (intro ledger_run.append [OF assms(1,2)])
qed

lemma load_clean:
  assumes "load_kg dp data sv = (sv', outcome)" "clean_service sv cl s"
  shows "clean_service sv' cl s"
proof -
  have "py_strip h = h" if "compute_kg_version_hash dp data = Inr h" for h
    using that strip_digest
    by (auto simp: compute_kg_version_hash_def kg_version_hash_of_def sha256_canonical_def map_sum_Inr split: sum.splits)
  moreover have "compute_kg_version_hash dp data = Inr h" if "checked_graph dp policy data = Inr (kg, h)" for policy kg h
    using that by (auto simp: checked_graph_def map_sum_Inr split: if_splits sum.splits option.splits)
  ultimately show ?thesis
    using assms by (fastforce simp: load_kg_def clean_service_def Let_def split: sum.splits)
qed

lemma clean_frame: "same_settings sv sv' \<Longrightarrow> sv_graph_hash sv' = sv_graph_hash sv \<Longrightarrow> clean_service sv cl s \<Longrightarrow> clean_service sv' cl s"
  by (simp add: same_settings_def clean_service_def)

lemma checkpoint_run:
  assumes "ledger_run (dp_world dp) cl s authority (sv_db sv)" "clean_service sv cl s" "tsa_is authority tsa"
  shows "ledger_run (dp_world dp) cl s authority (sv_db (maybe_checkpoint dp created tsa sv))"
proof -
  have "ledger_run (dp_world dp) cl s authority db"
    if "make_checkpoint (dp_world dp) cl s (sv_db sv) created (case tsa of Answers f \<Rightarrow> Some f | _ \<Rightarrow> None) = Inr (Some (db, cp))" for db cp
    using assms(3) by (intro ledger_run.checkpoint [OF assms(1) _ that]) (auto simp: tsa_is_def split: tsa_outcome.splits)
  then show ?thesis
    using assms(1,2) by (auto simp: maybe_checkpoint_def sign_checkpoint_def clean_service_def split: sum.split option.split)
qed

lemma step_sound:
  assumes "service_step dp authority (sv, ts) (sv', ts')" "transcript_law (dp_world dp)" "sound_system dp authority cl s (sv, ts)"
  shows "sound_system dp authority cl s (sv', ts')"
  using assms(1)
proof (cases rule: service_step.cases)
  case (arrive arrival mr ph)
  have clean: "clean_service sv cl s" using assms(3) by (simp add: sound_system_def)
  with arrive assms(3) enter_ledger_phase [OF assms(2) clean arrive(2)] enter_frame [OF arrive(2)] show ?thesis
    by (auto simp: sound_system_def same_graph_def intro: clean_frame)
next
  case (resume i tn ph)
  have clean: "clean_service sv cl s" and phases: "list_all (ledger_phase (dp_world dp) (entries (sv_db sv))) ts"
    and run: "ledger_run (dp_world dp) cl s authority (sv_db sv)"
    using assms(3) by (simp_all add: sound_system_def)
  have here: "ledger_phase (dp_world dp) (entries (sv_db sv)) (ts ! i)" using phases resume(2) by (simp add: list_all_length)
  note frame = progress_frame [OF resume(5)]
  have "ledger_phase (dp_world dp) (entries (sv_db sv)) ph"
    by (rule progress_ledger_phase [OF assms(2) clean here resume(3,4,5)])
  with phases resume(2) have all: "list_all (ledger_phase (dp_world dp) (entries (sv_db sv))) (ts[i := ph])"
    by (auto simp: list_all_length nth_list_update)
  have clean': "clean_service sv' cl s" using frame clean by (auto simp: same_graph_def intro: clean_frame)
  from frame consider "sv_db sv' = sv_db sv"
    | q e asked link now cl' r where "ts ! i = Inserting q e asked link now" "sv_ledger sv = Some cl'"
      "row_after (dp_world dp) cl' link now q = Inr r" "\<not> list_ex (\<lambda>r'. l_seq r' = l_seq r) (entries (sv_db sv))"
      "sv_db sv' = (sv_db sv)\<lparr>entries := entries (sv_db sv) @ [r]\<rparr>"
    by blast
  then show ?thesis
  proof cases
    case 1
    with all run clean' resume(1) show ?thesis by (simp add: sound_system_def)
  next
    case 2
    have "cl' = cl" using clean 2(2) by (simp add: clean_service_def)
    moreover have "honest_request (dp_world dp) q" "pending (entries (sv_db sv)) link now"
      using here 2(1) by (simp_all add: ledger_phase_def)
    ultimately have "ledger_run (dp_world dp) cl s authority (sv_db sv')"
      unfolding 2(5) using 2(3,4) by (intro insert_is_append [OF run]) simp_all
    moreover have "list_all (ledger_phase (dp_world dp) (entries (sv_db sv'))) (ts[i := ph])"
      using all 2(5) by (auto simp: list_all_iff ledger_phase_extend)
    ultimately show ?thesis using clean' resume(1) by (simp add: sound_system_def)
  qed
next
  case (load data outcome)
  with assms(3) load_frame [OF load(2)] load_clean [OF load(2)] show ?thesis by (simp add: sound_system_def)
next
  case (checkpoint tsa created)
  with assms(3) checkpoint_frame [of sv dp created tsa] checkpoint_run [of dp cl s authority sv tsa created] show ?thesis
    by (auto simp: sound_system_def same_graph_def intro: clean_frame)
next
  case (network g look bypass event args g' out)
  with assms(3) show ?thesis by (simp add: sound_system_def clean_service_def)
qed

lemma run_sound:
  assumes "service_run dp authority start sys" "transcript_law (dp_world dp)" "sound_system dp authority cl s start"
  shows "sound_system dp authority cl s sys"
  using assms(1)
proof (induction sys rule: service_run.induct)
  case initial
  then show ?case by (rule assms(3))
next
  case (step sys sys')
  then show ?case using step_sound [OF _ assms(2)] by (cases sys, cases sys') blast
qed

section \<open>One evaluation without interruption\<close>

fun phase_rank :: "phase \<Rightarrow> nat" where
  "phase_rank (Buffering _ _ _) = 5"
| "phase_rank (Scoping _ _ _) = 4"
| "phase_rank (Asking _ _ _ _ _ _) = 3"
| "phase_rank (Appending _ _ _) = 2"
| "phase_rank (Inserting _ _ _ _ _) = 1"
| "phase_rank (Finished _) = 0"

lemma phase_rank_0: "phase_rank ph = 0 \<longleftrightarrow> (\<exists>r. ph = Finished r)"
  by (cases ph) auto

lemma progress_rank: "phase_rank (snd (progress dp tn ph sv)) \<le> phase_rank ph - 1"
  by (cases ph)
    (auto simp: progress_def write_buffer_def scope_measurement_def decide_def select_head_def insert_row_def Let_def
      split: option.split sum.split)

lemma enter_rank: "phase_rank (snd (enter dp arrival mr sv)) \<le> 5"
  by (auto simp: enter_def admit_def skew_phase_def Let_def split: option.split sum.split)

lemma run_phases_rank: "phase_rank (snd (run_phases dp tn n ph sv)) \<le> phase_rank ph - n"
proof (induction n arbitrary: ph sv)
  case (Suc n)
  obtain sv' ph' where p: "progress dp tn ph sv = (sv', ph')" by (cases "progress dp tn ph sv")
  have "phase_rank (snd (run_phases dp tn n ph' sv')) \<le> phase_rank ph' - n" by (rule Suc)
  also have "\<dots> \<le> phase_rank ph - Suc n" using progress_rank [of dp tn ph sv] p by simp
  finally show ?case by (simp add: p)
qed simp

lemma evaluation_finishes:
  assumes "enter dp arrival mr sv = (sv0, ph0)" "run_phases dp tn 5 ph0 sv0 = (sv', ph)"
  shows "\<exists>r. ph = Finished r"
proof -
  have "phase_rank ph \<le> phase_rank ph0 - 5" using run_phases_rank [of dp tn 5 ph0 sv0] assms(2) by simp
  moreover have "phase_rank ph0 \<le> 5" using enter_rank [of dp arrival mr sv] assms(1) by simp
  ultimately show ?thesis by (simp flip: phase_rank_0)
qed

text \<open>The rows an evaluation adds: one when it returns a verdict, none when it fails.\<close>

definition recorded :: "deployment \<Rightarrow> ledger_row list \<Rightarrow> service \<Rightarrow> phase \<Rightarrow> bool" where
  "recorded dp before sv ph \<longleftrightarrow> coherent dp ph \<and>
     (case ph of
        Finished (Inr e) \<Rightarrow> \<exists>r. entries (sv_db sv) = before @ [r] \<and> row_view r = envelope_view dp e
      | _ \<Rightarrow> entries (sv_db sv) = before)"

lemma progress_recorded:
  assumes "progress dp tn ph sv = (sv', ph')" "recorded dp before sv ph"
  shows "recorded dp before sv' ph'"
proof (cases "result_of ph")
  case (Some r)
  then have "ph = Finished r" by (auto simp: result_of_def split: phase.splits)
  with assms show ?thesis by (simp add: progress_def)
next
  case None
  then have before: "entries (sv_db sv) = before" using assms(2) by (auto simp: recorded_def result_of_def split: phase.splits)
  have coherent: "coherent dp ph" "coherent dp ph'"
    using assms(2) progress_coherent [OF assms(1)] by (simp_all add: recorded_def)
  from progress_frame [OF assms(1)] None consider
      "sv_db sv' = sv_db sv" "case result_of ph' of Some (Inr e) \<Rightarrow> False | _ \<Rightarrow> True"
    | q e asked link now cl r where "ph = Inserting q e asked link now" "row_after (dp_world dp) cl link now q = Inr r"
      "sv_db sv' = (sv_db sv)\<lparr>entries := entries (sv_db sv) @ [r]\<rparr>" "ph' = Finished (Inr e)"
    by blast
  then show ?thesis
  proof cases
    case 1
    with before coherent(2) show ?thesis by (auto simp: recorded_def result_of_def split: phase.splits sum.splits)
  next
    case 2
    have "row_view r = envelope_view dp e"
      using coherent(1) 2(1,2) by (intro insert_recorded) (auto simp: coherent_def)
    with before coherent(2) 2 show ?thesis by (simp add: recorded_def)
  qed
qed

lemma run_phases_recorded: "recorded dp before sv ph \<Longrightarrow> run_phases dp tn n ph sv = (sv', ph') \<Longrightarrow> recorded dp before sv' ph'"
proof (induction n arbitrary: ph sv)
  case (Suc n)
  obtain sv1 ph1 where p: "progress dp tn ph sv = (sv1, ph1)" by (cases "progress dp tn ph sv")
  from Suc.IH [OF progress_recorded [OF p Suc.prems(1)]] Suc.prems(2) p show ?case by simp
qed simp

lemma enter_recorded:
  assumes "enter dp arrival mr sv = (sv', ph)"
  shows "recorded dp (entries (sv_db sv)) sv' ph"
  using enter_phase [OF assms] enter_frame [OF assms]
  by (auto simp: recorded_def returned_def map_filter_simps split: phase.splits sum.splits)

end
