(* ===== verification/Service_Graph.thy ===== *)
theory Service_Graph
  imports Service_Run
begin

text \<open>
  The Knowledge Graph in force: a load is atomic, its registry is always built, and in every reachable state the
  graph, its hash and the evaluator's provenance belong together.
\<close>

section \<open>The tag registry of a flat graph is built\<close>

lemma rule_index_keys:
  "fst ` set (fold (\<lambda>r d. if truthy (dget r ''id'') then alist_set (dget r ''id'') r d else d) rules d0) =
   fst ` set d0 \<union> {i. truthy i \<and> i \<in> (\<lambda>r. dget r ''id'') ` set rules}"
  by (induction rules arbitrary: d0) (auto simp: keys_alist_set)

lemma sort_empty_iff: "sort xs = [] \<longleftrightarrow> xs = []"
  by (metis set_empty set_sort)

lemma flat_routes_known:
  assumes "flat_to_graph w co data d = Inr g" "or_else (dget data ''tag_registry'') (PyDict []) = PyDict registry"
    and "or_else (dget data ''rules'') (PyList []) = PyList (map PyDict rules)" "(s, r) \<in> set registry"
  shows "truthy r \<and> r \<in> (\<lambda>r. dget r ''id'') ` set rules"
proof -
  have named: "list_all named_rule (map PyDict rules)"
    and known: "\<forall>s r. (s, r) \<in> set registry \<longrightarrow> is_str r \<and> r \<in> (\<lambda>r. dget r ''id'') ` set rules"
    using assms(1-3) by (auto simp: flat_to_graph_def Let_def sort_empty_iff filter_empty_conv split: py.splits if_splits)
  have mem: "r \<in> (\<lambda>r. dget r ''id'') ` set rules" using known assms(4) by blast
  then obtain rule where "rule \<in> set rules" "dget rule ''id'' = r" by auto
  with named have "truthy r"
    by (cases r) (auto simp: list_all_iff named_rule_def split: py.splits dest!: bspec [of "set rules" _ rule])
  with mem show ?thesis by simp
qed

lemma registry_total:
  assumes "from_dict cr (service_codec dp) data req policy = Inr kg"
  shows "\<exists>d. registry_from_dict (kg_tag_registry kg) (kg_rules kg) = Inr d"
proof (cases "is_graph_kg data")
  case True
  with assms have "kg_tag_registry kg = []" by (auto simp: from_dict_def read_graph_def Let_def split: py.splits sum.splits if_splits)
  then show ?thesis by (simp add: registry_from_dict_def)
next
  case False
  with assms obtain g defs where f: "flat_to_graph (dp_world dp) (dp_codec dp) data PyNone = Inr g"
      "or_else (dget data ''tag_registry'') (PyDict []) = PyDict (kg_tag_registry kg)"
      "compile_graph (dget g ''nodes'') (dget g ''edges'') = Inr (kg_rules kg, defs)"
    by (auto simp: from_dict_def read_flat_def service_codec_def Let_def split: py.splits sum.splits if_splits)
  from flat_conversion [OF f(1,3)] obtain rules where rules:
      "or_else (dget data ''rules'') (PyList []) = PyList (map PyDict rules)" "list_all2 (carries_over PyNone) rules (kg_rules kg)"
    by blast
  from rules(2) have ids: "map (\<lambda>r. dget r ''id'') (kg_rules kg) = map (\<lambda>r. dget r ''id'') rules"
    by (induction rule: list_all2_induct) (auto simp: carries_over_def)
  have "map_of (rule_index (kg_rules kg)) r \<noteq> None" if mem: "(s, r) \<in> set (kg_tag_registry kg)" for s r
  proof -
    have "r \<in> (\<lambda>r. dget r ''id'') ` set (kg_rules kg)" "truthy r"
      using flat_routes_known [OF f(1,2) rules(1) mem] arg_cong [OF ids, of set] by (simp_all add: image_comp)
    then have "r \<in> fst ` set (rule_index (kg_rules kg))" unfolding rule_index_def rule_index_keys by blast
    then show ?thesis by (auto simp: map_of_eq_None_iff)
  qed
  then have "\<not> (\<exists>e. registry_from_dict (kg_tag_registry kg) (kg_rules kg) = Inl e)"
    unfolding registry_from_dict_def fold_registry_fails_iff by blast
  then show ?thesis by (cases "registry_from_dict (kg_tag_registry kg) (kg_rules kg)") auto
qed

lemma checked_graph_Inr:
  assumes "checked_graph dp given data = Inr (kg, h)"
  obtains policy where "from_dict (w_crypto (dp_world dp)) (service_codec dp) data True policy = Inr kg"
    "case given of Some p \<Rightarrow> policy = p
      | None \<Rightarrow> policy_from_env (w_crypto (dp_world dp)) (dp_read_file dp) (dp_env dp) = Inr policy"
    "compute_kg_version_hash dp data = Inr h" "require_graph_shape (dp_env dp) kg = Inr ()"
  using assms by (auto simp: checked_graph_def map_sum_Inr split: if_splits sum.splits option.splits)

section \<open>The graph that the provenance names\<close>

text \<open>Graph, hash and the three fields that the evaluator puts into the provenance belong together.\<close>

definition graph_agrees :: "service \<Rightarrow> bool" where
  "graph_agrees sv =
     (case (sv_graph sv, sv_evaluator sv) of
        (Some kg, Some ev) \<Rightarrow> ev_kg_version_hash ev = sv_graph_hash sv \<and> ev_kg_signer_key_id ev = signer_key_id kg \<and>
          ev_kg_trust ev = Some (trust_name (kg_trust_of kg))
      | _ \<Rightarrow> True)"

text \<open>The graph in force was verified against an anchor of the policy.\<close>

definition serves_anchored :: "trust_policy \<Rightarrow> service \<Rightarrow> bool" where
  "serves_anchored policy sv =
     (case sv_graph sv of
        None \<Rightarrow> True
      | Some kg \<Rightarrow> kg_trust_of kg = Anchored \<and> signature_verified kg \<and>
          signer_key_id kg \<in> (Some \<circ> anchor_key_id) ` set (anchors policy))"

lemma load_outcomes:
  assumes "load_kg dp data sv = (sv', outcome)"
  shows "case outcome of
      Inl None \<Rightarrow> False
    | Inl (Some e) \<Rightarrow> checked_graph dp (sv_policy sv) data = Inl e \<and> sv' = sv
    | Inr _ \<Rightarrow> (\<exists>kg h d. checked_graph dp (sv_policy sv) data = Inr (kg, h) \<and>
        registry_from_dict (kg_tag_registry kg) (kg_rules kg) = Inr d \<and>
        sv_graph sv' = Some kg \<and> sv_registry sv' = Some d \<and> sv_graph_hash sv' = h \<and> graph_agrees sv')"
proof (cases "checked_graph dp (sv_policy sv) data")
  case (Inl e)
  with assms show ?thesis by (auto simp: load_kg_def)
next
  case (Inr p)
  obtain kg h where c: "checked_graph dp (sv_policy sv) data = Inr (kg, h)" using Inr by (cases p) auto
  obtain policy where "from_dict (w_crypto (dp_world dp)) (service_codec dp) data True policy = Inr kg"
    using c by (rule checked_graph_Inr)
  from registry_total [OF this] obtain d where "registry_from_dict (kg_tag_registry kg) (kg_rules kg) = Inr d" by blast
  with c assms show ?thesis
    by (auto simp: load_kg_def graph_agrees_def split: option.split)
qed

lemma load_anchored:
  assumes "load_kg dp data sv = (sv', outcome)" "sv_policy sv = Some policy" "anchors policy \<noteq> []" "serves_anchored policy sv"
  shows "serves_anchored policy sv'"
proof (cases outcome)
  case (Inl e)
  with load_outcomes [OF assms(1)] assms(4) show ?thesis by (cases e) auto
next
  case (Inr u)
  with load_outcomes [OF assms(1)] obtain kg h where c: "checked_graph dp (sv_policy sv) data = Inr (kg, h)"
      and graph: "sv_graph sv' = Some kg"
    by auto
  obtain policy' where "from_dict (w_crypto (dp_world dp)) (service_codec dp) data True policy' = Inr kg" "policy' = policy"
    using c by (rule checked_graph_Inr) (simp add: assms(2))
  note loaded = this(1) [unfolded this(2)]
  from trust_of_anchored [OF from_dict_trust(1) [OF loaded] assms(3)] from_dict_trust(2) [OF loaded]
  show ?thesis by (auto simp: serves_anchored_def graph)
qed

text \<open>Only a load touches graph, hash and evaluator.\<close>

lemma step_graph:
  assumes "service_step dp authority (sv, ts) (sv', ts')"
  shows "(\<exists>data outcome. load_kg dp data sv = (sv', outcome)) \<or> (sv_graph sv' = sv_graph sv \<and>
    sv_graph_hash sv' = sv_graph_hash sv \<and> sv_evaluator sv' = sv_evaluator sv \<and> sv_registry sv' = sv_registry sv)"
  using assms
proof (cases rule: service_step.cases)
  case (arrive arrival mr ph)
  with enter_frame [OF arrive(2)] show ?thesis by (simp add: same_graph_def)
next
  case (resume i tn ph)
  with progress_frame [OF resume(5)] show ?thesis by (simp add: same_graph_def)
next
  case (load data outcome)
  then show ?thesis by blast
next
  case (checkpoint tsa created)
  with checkpoint_frame [of sv dp created tsa] show ?thesis by (simp add: same_graph_def)
next
  case (network g look bypass event args g' out)
  then show ?thesis by simp
qed

lemma run_agrees:
  assumes "service_run dp authority start sys" "graph_agrees (fst start)"
  shows "graph_agrees (fst sys)"
  using assms
proof (induction sys rule: service_run.induct)
  case (step sys sys')
  obtain sv ts sv' ts' where s: "sys = (sv, ts)" "sys' = (sv', ts')" by (cases sys, cases sys')
  from step_graph [OF step(2) [unfolded s]] show ?case
  proof
    assume "\<exists>data outcome. load_kg dp data sv = (sv', outcome)"
    then obtain data outcome where load: "load_kg dp data sv = (sv', outcome)" by blast
    from load_outcomes [OF this] step(3,4) s show ?thesis by (cases outcome) (auto split: option.splits)
  next
    assume "sv_graph sv' = sv_graph sv \<and> sv_graph_hash sv' = sv_graph_hash sv \<and> sv_evaluator sv' = sv_evaluator sv \<and>
      sv_registry sv' = sv_registry sv"
    with step(3,4) s show ?thesis by (auto simp: graph_agrees_def split: option.splits)
  qed
qed

lemma run_anchored:
  assumes "service_run dp authority (sv, ts) sys" "sv_policy sv = Some policy" "anchors policy \<noteq> []" "serves_anchored policy sv"
  shows "serves_anchored policy (fst sys)"
  using assms(1)
proof (induction sys rule: service_run.induct)
  case initial
  with assms(4) show ?case by simp
next
  case (step sys sys')
  obtain sv1 ts1 sv' ts' where s: "sys = (sv1, ts1)" "sys' = (sv', ts')" by (cases sys, cases sys')
  have policy: "sv_policy sv1 = Some policy"
    using service_run_settings [OF step(1) [unfolded s]] assms(2) by (simp add: same_settings_def)
  from step_graph [OF step(2) [unfolded s]] show ?case
  proof
    assume "\<exists>data outcome. load_kg dp data sv1 = (sv', outcome)"
    then show ?thesis using load_anchored [OF _ policy assms(3)] step(3) s by auto
  next
    assume "sv_graph sv' = sv_graph sv1 \<and> sv_graph_hash sv' = sv_graph_hash sv1 \<and> sv_evaluator sv' = sv_evaluator sv1 \<and>
      sv_registry sv' = sv_registry sv1"
    with step(3) s show ?thesis by (simp add: serves_anchored_def)
  qed
qed

end
