(* ===== verification/Service_Paths.thy ===== *)
theory Service_Paths
  imports Service_Graph
begin

text \<open>
  The paths through one evaluation: what a returned verdict has passed, and which row it left. The guard of a
  run, once tripped, stays tripped.
\<close>

section \<open>The guard\<close>

lemma allows_keeps:
  assumes "allows look g d = (ok, g')"
  shows "g_mode g' = g_mode g \<and> g_attempts g' = g_attempts g"
  using assms by (auto simp: allows_def Let_def split: option.splits if_splits)

lemma audit_call_keeps:
  assumes "audit_call look bypass g event args = (g', out)"
  shows "g_mode g' = g_mode g \<and> g_attempts g \<le> g_attempts g'"
  using assms allows_keeps
  by (fastforce simp: audit_call_def Let_def split: option.splits if_splits prod.splits)

lemma run_tripped:
  assumes "service_run dp authority (sv, ts) sys" "sv_guard sv = Some g" "tripped g"
  shows "\<exists>g'. sv_guard (fst sys) = Some g' \<and> tripped g' \<and> g_attempts g \<le> g_attempts g'"
  using assms(1)
proof (induction sys rule: service_run.induct)
  case initial
  with assms(2,3) show ?case by auto
next
  case (step sys sys')
  obtain sv1 ts1 sv' ts' where s: "sys = (sv1, ts1)" "sys' = (sv', ts')" by (cases sys, cases sys')
  from step(3) s obtain g1 where g1: "sv_guard sv1 = Some g1" "tripped g1" "g_attempts g \<le> g_attempts g1" by auto
  from step(2) [unfolded s] show ?case
  proof (cases rule: service_step.cases)
    case (arrive arrival mr ph)
    with g1 s enter_frame [OF arrive(2)] show ?thesis by (auto simp: same_graph_def)
  next
    case (resume i tn ph)
    with g1 s progress_frame [OF resume(5)] show ?thesis by (auto simp: same_graph_def)
  next
    case (load data outcome)
    with g1 s load_frame [OF load(2)] show ?thesis by auto
  next
    case (checkpoint tsa created)
    with g1 s checkpoint_frame [of sv1 dp created tsa] show ?thesis by (auto simp: same_graph_def)
  next
    case (network g0 look bypass event args g' out)
    with g1 s audit_call_keeps [OF network(4)] show ?thesis by (auto simp: tripped_def)
  qed
qed

section \<open>The paths of an evaluation\<close>

lemma run_phases_finished [simp]: "run_phases dp tn n (Finished r) sv = (sv, Finished r)"
  by (induction n) (simp_all add: progress_def)

lemma run_phases_pos:
  "0 < n \<Longrightarrow> run_phases dp tn n ph sv = run_phases dp tn (n - 1) (snd (progress dp tn ph sv)) (fst (progress dp tn ph sv))"
  by (cases n) (simp_all split: prod.split)

lemma progress_simps:
  "progress dp tn (Buffering mr ts h) sv = write_buffer tn mr ts h sv"
  "progress dp tn (Scoping mr ts h) sv = scope_measurement dp mr ts h sv"
  "progress dp tn (Asking mr ts h snapshot tier prompt) sv = decide dp tn mr ts h snapshot tier prompt sv"
  "progress dp tn (Appending q e asked) sv = select_head tn q e asked sv"
  "progress dp tn (Inserting q e asked link now) sv = insert_row dp q e asked link now sv"
  by (simp_all add: progress_def)

lemma ledger_request_cong:
  "sv_graph_hash sv' = sv_graph_hash sv \<Longrightarrow>
   ledger_request dp sv' kg mr h e t i track wh = ledger_request dp sv kg mr h e t i track wh"
  by (simp add: ledger_request_def)

text \<open>The last two phases: the row is inserted after the head that was read.\<close>

lemma append_phases:
  assumes "run_phases dp tn n (Appending q e asked) sv = (sv', Finished (Inr e'))"
  obtains cl r where "sv_ledger sv = Some cl" "e' = e"
    "row_after (dp_world dp) cl (next_link (entries (sv_db sv))) (tn_now tn) q = Inr r"
    "entries (sv_db sv') = entries (sv_db sv) @ [r]" "same_settings sv sv'" "same_graph sv sv'" "sv_rows sv' = sv_rows sv"
proof (cases n)
  case 0
  with assms show thesis by simp
next
  case (Suc m)
  let ?link = "next_link (entries (sv_db sv))"
  have two: "run_phases dp tn m (Inserting q e asked ?link (tn_now tn)) sv = (sv', Finished (Inr e'))"
    using assms Suc by (simp add: progress_def select_head_def)
  then obtain k where "m = Suc k" by (cases m) auto
  with two have ins: "run_phases dp tn k (snd (insert_row dp q e asked ?link (tn_now tn) sv)) (fst (insert_row dp q e asked ?link (tn_now tn) sv))
      = (sv', Finished (Inr e'))"
    by (simp add: progress_def split: prod.splits)
  then obtain cl r where c: "sv_ledger sv = Some cl" "row_after (dp_world dp) cl ?link (tn_now tn) q = Inr r"
      "\<not> list_ex (\<lambda>r'. l_seq r' = l_seq r) (entries (sv_db sv))"
    by (auto simp: insert_row_def split: option.splits sum.splits if_splits)
  let ?sv = "sv\<lparr>sv_db := (sv_db sv)\<lparr>entries := entries (sv_db sv) @ [r]\<rparr>\<rparr>"
  have out: "sv' = (if asked then record_outcome e ?sv else ?sv)" "e' = e"
    using ins c by (auto simp: insert_row_def Let_def split: if_splits)
  have "same_settings sv ?sv" "same_graph sv ?sv" by (simp_all add: same_settings_def same_graph_def)
  with record_outcome_frame [where sv = ?sv and e = e] have "same_settings sv sv'" "same_graph sv sv'"
    unfolding out by (auto simp: same_settings_def same_graph_def)
  moreover have "entries (sv_db sv') = entries (sv_db sv) @ [r]" "sv_rows sv' = sv_rows sv"
    unfolding out by simp_all
  ultimately show thesis using that [OF c(1) out(2) c(2)] by blast
qed

text \<open>What an evaluation has passed when it returns a verdict.\<close>

definition admitted :: "deployment \<Rightarrow> measurement_record \<Rightarrow> service \<Rightarrow> knowledge_graph \<Rightarrow> int \<Rightarrow> string \<Rightarrow> bool" where
  "admitted dp mr sv kg ts h \<longleftrightarrow>
     sv_graph sv = Some kg \<and> parse_telemetry_ts (dp_calendar dp) (mr_timestamp mr) = Inr ts \<and>
     measurement_input_errors (mr_values mr) (kg_rules kg) = [] \<and> hash_measurement (dp_world dp) mr = Inr h \<and>
     (case sv_guard sv of None \<Rightarrow> True | Some g \<Rightarrow> \<not> tripped g)"

lemma enter_cases:
  assumes "enter dp arrival mr sv = (sv', ph)"
  obtains (failed) err where "ph = Finished (Inl err)" "sv' = sv"
  | (skewed) kg ts h e where "admitted dp mr sv kg ts h" "too_skewed sv ts arrival"
      "clock_skew_mode (dp_env dp) \<noteq> ''reject''" "sv' = sv\<lparr>sv_produced := sv_produced sv + 1\<rparr>"
      "e = build_clock_skew_envelope (skew_seconds ts arrival) (sv_max_skew sv) (sv_graph_hash sv) (Some kg)"
      "ph = Appending (ledger_request dp sv kg mr h e None None ''v3-clock-skew-guard'' None) e False"
  | (buffering) kg ts h where "admitted dp mr sv kg ts h" "\<not> too_skewed sv ts arrival" "sv' = sv" "ph = Buffering mr ts h"
proof (cases "\<exists>err. ph = Finished (Inl err)")
  case True
  then obtain err where err: "ph = Finished (Inl err)" by blast
  moreover have "sv' = sv"
    using assms err by (auto simp: enter_def admit_def skew_phase_def Let_def split: option.splits if_splits sum.splits)
  ultimately show thesis by (rule failed)
next
  case False
  have "admit dp arrival mr sv = (sv', ph)" and guard: "case sv_guard sv of None \<Rightarrow> True | Some g \<Rightarrow> \<not> tripped g"
    using assms False by (auto simp: enter_def split: option.splits if_splits)
  then obtain kg ts h where a: "admitted dp mr sv kg ts h"
      "(if too_skewed sv ts arrival then skew_phase dp sv kg mr h (skew_seconds ts arrival) else (sv, Buffering mr ts h)) = (sv', ph)"
    using False by (auto simp: admit_def admitted_def Let_def split: option.splits if_splits sum.splits)
  show thesis
  proof (cases "too_skewed sv ts arrival")
    case True
    with a(2) False show thesis
      by (intro skewed [OF a(1) True _ _ refl]) (auto simp: skew_phase_def Let_def split: if_splits)
  next
    case False
    with a(2) show thesis by (intro buffering [OF a(1) False]) simp_all
  qed
qed


text \<open>The phases after a successful admission.\<close>

lemma decided_path:
  assumes "run_phases dp tn 5 (Buffering mr ts h) sv = (sv', Finished (Inr e))"
  obtains kg snapshot prompt ev raw result cl r where
    "sv_graph sv = Some kg" "scope_to (dp_calendar dp) kg (mr_jurisdiction mr) ts (Some (mr_subject mr)) = Inr snapshot"
    "render_canonical_prompt (w_runtime (dp_world dp)) (mr_values mr) snapshot = Inr prompt"
    "sv_evaluator sv = Some ev" "tn_answer tn = Inr raw"
    "aevaluate_with_transcript (dp_world dp) (dp_contract dp) (map_of (dp_env dp) ''SKI_FORCE_DISCRETIONARY_ON_UNVERIFIABLE'') ev
       (sv_signer sv) (tn_call tn) prompt (mr_values mr) snapshot (PyStr (tier_for_snapshot snapshot)) (Some (mr_subject mr)) (Some ts)
       (telemetry_of dp sv') raw = Inr result"
    "e = er_envelope result" "sv_ledger sv = Some cl"
    "row_after (dp_world dp) cl (next_link (entries (sv_db sv))) (tn_now tn)
       (ledger_request dp sv kg mr h e (er_transcript result) (first_obligation_id e) ''v3-evaluator''
          (map_option backend_weight_hash (sv_llm sv))) = Inr r"
    "entries (sv_db sv') = entries (sv_db sv) @ [r]" "sv_rows sv' = sv_rows (fst (write_buffer tn mr ts h sv))"
proof -
  define sv1 where "sv1 = fst (write_buffer tn mr ts h sv)"
  define sv2 where "sv2 = sv1\<lparr>sv_produced := sv_produced sv1 + 1\<rparr>"
  have same: "sv_graph sv2 = sv_graph sv" "sv_evaluator sv2 = sv_evaluator sv" "sv_ledger sv2 = sv_ledger sv" "sv_db sv2 = sv_db sv"
      "sv_signer sv2 = sv_signer sv" "sv_llm sv2 = sv_llm sv" "sv_graph_hash sv2 = sv_graph_hash sv" "sv_rows sv2 = sv_rows sv1"
    by (simp_all add: sv2_def sv1_def write_buffer_def)
  have "run_phases dp tn 4 (Scoping mr ts h) sv1 = (sv', Finished (Inr e))"
    using assms by (simp add: run_phases_pos [of 5] progress_simps sv1_def write_buffer_def)
  then have scoped: "run_phases dp tn 3 (snd (scope_measurement dp mr ts h sv1)) (fst (scope_measurement dp mr ts h sv1)) = (sv', Finished (Inr e))"
    by (simp add: run_phases_pos [of 4] progress_simps)
  then obtain kg snapshot prompt where k: "sv_graph sv2 = Some kg"
      "scope_to (dp_calendar dp) kg (mr_jurisdiction mr) ts (Some (mr_subject mr)) = Inr snapshot"
      "render_canonical_prompt (w_runtime (dp_world dp)) (mr_values mr) snapshot = Inr prompt"
    by (auto simp: scope_measurement_def sv2_def Let_def split: option.splits sum.splits)
  let ?tier = "tier_for_snapshot snapshot"
  have "run_phases dp tn 3 (Asking mr ts h snapshot ?tier prompt) sv2 = (sv', Finished (Inr e))"
    using scoped k by (simp add: scope_measurement_def sv2_def)
  then have asked: "run_phases dp tn 2 (snd (decide dp tn mr ts h snapshot ?tier prompt sv2)) (fst (decide dp tn mr ts h snapshot ?tier prompt sv2))
      = (sv', Finished (Inr e))"
    by (simp add: run_phases_pos [of 3] progress_simps)
  then obtain ev raw result where d: "sv_evaluator sv2 = Some ev" "tn_answer tn = Inr raw"
      "aevaluate_with_transcript (dp_world dp) (dp_contract dp) (map_of (dp_env dp) ''SKI_FORCE_DISCRETIONARY_ON_UNVERIFIABLE'') ev
         (sv_signer sv2) (tn_call tn) prompt (mr_values mr) snapshot (PyStr ?tier) (Some (mr_subject mr)) (Some ts)
         (telemetry_of dp sv2) raw = Inr result"
    using k(1) by (auto simp: decide_def Let_def split: option.splits sum.splits)
  let ?e = "er_envelope result"
  have "run_phases dp tn 2 (Appending (ledger_request dp sv2 kg mr h ?e (er_transcript result) (first_obligation_id ?e)
      ''v3-evaluator'' (map_option backend_weight_hash (sv_llm sv2))) ?e True) sv2 = (sv', Finished (Inr e))"
    using asked k(1) d by (simp add: decide_def Let_def)
  then obtain cl r where a: "sv_ledger sv2 = Some cl" "e = ?e"
      "row_after (dp_world dp) cl (next_link (entries (sv_db sv2))) (tn_now tn)
         (ledger_request dp sv2 kg mr h ?e (er_transcript result) (first_obligation_id ?e) ''v3-evaluator''
           (map_option backend_weight_hash (sv_llm sv2))) = Inr r"
      "entries (sv_db sv') = entries (sv_db sv2) @ [r]" "same_settings sv2 sv'" "sv_rows sv' = sv_rows sv2"
    by (rule append_phases)
  have "telemetry_of dp sv2 = telemetry_of dp sv'"
    using a(5,6) by (simp add: telemetry_of_def same_settings_def)
  moreover have "sv_rows sv' = sv_rows (fst (write_buffer tn mr ts h sv))" using a(6) same(8) by (simp add: sv1_def)
  ultimately show thesis
    using that [of kg snapshot prompt ev raw result cl r] k d a(1-4)
    unfolding same ledger_request_cong [OF same(7)] by simp
qed


text \<open>From the append on, an evaluation writes no telemetry.\<close>

lemma append_keeps_rows:
  "phase_rank ph \<le> 2 \<Longrightarrow> sv_rows (fst (run_phases dp tn n ph sv)) = sv_rows sv"
proof (induction n arbitrary: ph sv)
  case (Suc n)
  have "phase_rank (snd (progress dp tn ph sv)) \<le> 2" using progress_rank [of dp tn ph sv] Suc.prems by simp
  from Suc.IH [OF this, of "fst (progress dp tn ph sv)"]
  have "sv_rows (fst (run_phases dp tn (Suc n) ph sv)) = sv_rows (fst (progress dp tn ph sv))"
    by (simp add: run_phases_pos [of "Suc n"] del: run_phases.simps)
  also have "\<dots> = sv_rows sv"
    using Suc.prems by (cases ph) (auto simp: progress_def select_head_def insert_row_def Let_def split: option.split sum.split)
  finally show ?case .
qed simp

lemma evaluation_result:
  obtains sv' r where "evaluate_measurement dp arrival tn mr sv = (sv', Some r)"
    "case r of Inl err \<Rightarrow> entries (sv_db sv') = entries (sv_db sv)
      | Inr e \<Rightarrow> \<exists>row. entries (sv_db sv') = entries (sv_db sv) @ [row] \<and> row_view row = envelope_view dp e"
proof -
  obtain sv0 ph0 where e: "enter dp arrival mr sv = (sv0, ph0)" by (cases "enter dp arrival mr sv")
  obtain sv' ph where p: "run_phases dp tn 5 ph0 sv0 = (sv', ph)" by (cases "run_phases dp tn 5 ph0 sv0")
  from evaluation_finishes [OF e p] obtain r where r: "ph = Finished r" by blast
  have "recorded dp (entries (sv_db sv)) sv' ph" by (rule run_phases_recorded [OF enter_recorded [OF e] p])
  with r have "case r of Inl err \<Rightarrow> entries (sv_db sv') = entries (sv_db sv)
      | Inr e \<Rightarrow> \<exists>row. entries (sv_db sv') = entries (sv_db sv) @ [row] \<and> row_view row = envelope_view dp e"
    by (auto simp: recorded_def split: sum.splits)
  moreover have "evaluate_measurement dp arrival tn mr sv = (sv', Some r)"
    using e p r by (simp add: evaluate_measurement_def result_of_def)
  ultimately show thesis by (rule that [rotated])
qed

lemma evaluate_Inr:
  assumes "evaluate_measurement dp arrival tn mr sv = (sv', Some r)"
  obtains sv0 ph0 where "enter dp arrival mr sv = (sv0, ph0)" "run_phases dp tn 5 ph0 sv0 = (sv', Finished r)"
proof -
  obtain sv0 ph0 where e: "enter dp arrival mr sv = (sv0, ph0)" by (cases "enter dp arrival mr sv")
  obtain sv1 ph where p: "run_phases dp tn 5 ph0 sv0 = (sv1, ph)" by (cases "run_phases dp tn 5 ph0 sv0")
  with e assms have "sv1 = sv'" "ph = Finished r"
    by (auto simp: evaluate_measurement_def result_of_def split: phase.splits)
  with e p show thesis by (intro that) simp_all
qed

text \<open>Every envelope carries the provenance of its evaluator.\<close>

lemma risk_policy_provenance [simp]: "model_provenance (apply_risk_policy env e tier) = model_provenance e"
  by (simp add: apply_risk_policy_def downgrade_to_discretionary_def Let_def split: prod.split risk_tier.split)

lemma aevaluate_provenance:
  assumes "aevaluate k env ev tref m snap tier s t buf raw = Inr e"
  shows "model_provenance e = build_provenance ev"
  using assms
proof (cases rule: aevaluate_paths)
  case (cited invalid r)
  then show ?thesis by (simp add: citation_envelope_def)
next
  case (contract detail)
  then show ?thesis by (simp add: contract_envelope_def)
next
  case (verified llm expl as cs v tnotes as' nnotes r e0)
  then show ?thesis by (auto simp: verified_envelope_def)
qed

end
