(* ===== verification/Service_Properties.thy ===== *)
theory Service_Properties
  imports Service_Paths
begin

text \<open>
  What the runtime service promises: each evaluation ends with one row or none, every returned verdict is in
  the ledger, the ledger of interleaved evaluations passes the audit, a CLEAR is backed by the slice it was
  decided on, the graph in force is the verified one, and a tripped guard refuses for good. Then two
  interleavings that the code does not rule out.
\<close>

section \<open>Properties\<close>

text \<open>
  Property C7. A CLEAR that the service returns is backed end to end: the record parsed without input errors and
  was not skewed, its slice of the graph in force was computed and holds no obligation that the verifier evaluates
  as breached and none that is hidden, the freshness gate passed, and the ledger has one new row, with that
  verdict, the hash of the record and, in format 5, the hash of the graph.
\<close>

theorem clear_response_is_backed:
  assumes "evaluate_measurement dp arrival tn mr sv = (sv', Some (Inr e))" and "verdict e = CLEAR"
  shows "\<exists>kg ts h snapshot cl r. admitted dp mr sv kg ts h \<and> \<not> too_skewed sv ts arrival \<and>
     scope_to (dp_calendar dp) kg (mr_jurisdiction mr) ts (Some (mr_subject mr)) = Inr snapshot \<and>
     breaches_of (Some (mr_subject mr)) (Some ts) (telemetry_of dp sv') (mr_values mr) snapshot = [] \<and>
     hidden_obligations snapshot (mr_values mr) = [] \<and>
     freshness_gate (mr_values mr) snapshot (Some (mr_subject mr)) (Some ts) (telemetry_of dp sv') = None \<and>
     sv_ledger sv = Some cl \<and> entries (sv_db sv') = entries (sv_db sv) @ [r] \<and>
     l_verdict r = ascii ''CLEAR'' \<and> l_thash r = h \<and> row_view r = envelope_view dp e \<and>
     (format5 cl \<longrightarrow> l_kg_hash r = Some (sv_graph_hash sv))"
proof -
  obtain sv0 ph0 where e: "enter dp arrival mr sv = (sv0, ph0)" "run_phases dp tn 5 ph0 sv0 = (sv', Finished (Inr e))"
    using assms(1) by (rule evaluate_Inr)
  from e(1) show ?thesis
  proof (cases rule: enter_cases)
    case (failed err)
    with e(2) show ?thesis by simp
  next
    case (skewed kg ts h e0)
    from e(2) [unfolded skewed(6)] have "e = e0" by (rule append_phases)
    with skewed(5) assms(2) show ?thesis by (simp add: build_clock_skew_envelope_def)
  next
    case (buffering kg ts h)
    from e(2) [unfolded buffering(3,4)] show ?thesis
    proof (rule decided_path)
      fix kg' snapshot prompt ev raw result cl r
      assume d: "sv_graph sv = Some kg'"
        "scope_to (dp_calendar dp) kg' (mr_jurisdiction mr) ts (Some (mr_subject mr)) = Inr snapshot"
        "aevaluate_with_transcript (dp_world dp) (dp_contract dp) (map_of (dp_env dp) ''SKI_FORCE_DISCRETIONARY_ON_UNVERIFIABLE'') ev
           (sv_signer sv) (tn_call tn) prompt (mr_values mr) snapshot (PyStr (tier_for_snapshot snapshot)) (Some (mr_subject mr)) (Some ts)
           (telemetry_of dp sv') raw = Inr result"
        "e = er_envelope result" "sv_ledger sv = Some cl" "entries (sv_db sv') = entries (sv_db sv) @ [r]"
      assume row: "row_after (dp_world dp) cl (next_link (entries (sv_db sv))) (tn_now tn)
         (ledger_request dp sv kg' mr h e (er_transcript result) (first_obligation_id e) ''v3-evaluator''
           (map_option backend_weight_hash (sv_llm sv))) = Inr r"
      have kg: "kg' = kg" using d(1) buffering(1) by (simp add: admitted_def)
      obtain tref where "aevaluate (dp_contract dp) (map_of (dp_env dp) ''SKI_FORCE_DISCRETIONARY_ON_UNVERIFIABLE'') ev tref (mr_values mr)
          snapshot (PyStr (tier_for_snapshot snapshot)) (Some (mr_subject mr)) (Some ts) (telemetry_of dp sv') raw = Inr e"
        using d(3,4) by (auto simp: aevaluate_with_transcript_def map_sum_Inr split: sum.splits)
      from this assms(2) have clear: "freshness_gate (mr_values mr) snapshot (Some (mr_subject mr)) (Some ts) (telemetry_of dp sv') = None"
          "breaches_of (Some (mr_subject mr)) (Some ts) (telemetry_of dp sv') (mr_values mr) snapshot = []"
          "hidden_obligations snapshot (mr_values mr) = []"
        by (rule clear_path; auto dest: report_fail_closed_hidden)+
      have "l_verdict r = ascii ''CLEAR''" "l_thash r = h" "format5 cl \<longrightarrow> l_kg_hash r = Some (sv_graph_hash sv)"
        using row_after_columns [OF row] assms(2) by (simp_all add: ledger_request_def)
      moreover have "row_view r = envelope_view dp e" by (rule insert_recorded [OF ledger_request_of row])
      ultimately show ?thesis using buffering(1,2) clear d(2,5,6) kg by blast
    qed
  qed
qed

text \<open>
  Property C8. The ledger of the interleaved service passes the audit: whatever evaluations arrive, wait and go
  on in any order, with graph loads, checkpoints and network calls between them, \<open>verify_integrity\<close> accepts
  the ledger of every reachable state, with the checkpoints exported from it.
\<close>

theorem concurrent_ledger_is_audited:
  assumes "service_run dp authority start sys" and "sound_system dp authority cl s start"
    and "transcript_law (dp_world dp)" "storage_laws (dp_world dp)" "honest_signer (dp_world dp) s"
    and "audits_run s authority (sv_db (fst sys)) q"
  shows "accepted (dp_world dp) q (sv_db (fst sys))"
proof -
  have "sound_system dp authority cl s sys" by (rule run_sound [OF assms(1,3,2)])
  then have "ledger_run (dp_world dp) cl s authority (sv_db (fst sys))" "format5 cl" "key_signer cl = Some s"
    by (simp_all add: sound_system_def clean_service_def)
  with assms(4,5,6) show ?thesis by (intro honest_run_accepted)
qed

text \<open>
  Property C10. Every returned verdict is recorded, and nothing else: in every reachable state the rows added
  since the start are, up to order, those of the verdicts that evaluations have returned, each with its
  verdict, verifier status and envelope.
\<close>

theorem returned_verdicts_are_recorded:
  assumes "service_run dp authority (sv, []) (sv', ts)"
  shows "\<exists>new. entries (sv_db sv') = entries (sv_db sv) @ new \<and>
    mset (map row_view new) = mset (map (envelope_view dp) (returned ts))"
  using run_recorded [OF assms] by (simp add: recorded_since_def)

text \<open>
  Property C14. Every evaluation ends: without interruption it returns a verdict, with exactly one new row that
  carries it, or an error, with the ledger unchanged. Interleaved, each step that resumes an evaluation brings
  it closer to its end.
\<close>

theorem evaluation_ends:
  "(\<exists>sv' r. evaluate_measurement dp arrival tn mr sv = (sv', Some r) \<and>
     (case r of Inl err \<Rightarrow> entries (sv_db sv') = entries (sv_db sv)
      | Inr e \<Rightarrow> \<exists>row. entries (sv_db sv') = entries (sv_db sv) @ [row] \<and> row_view row = envelope_view dp e)) \<and>
   phase_rank (snd (enter dp arrival mr sv)) \<le> 5 \<and> phase_rank (snd (progress dp tn ph sv)) \<le> phase_rank ph - 1"
proof (intro conjI enter_rank progress_rank)
  show "\<exists>sv' r. evaluate_measurement dp arrival tn mr sv = (sv', Some r) \<and>
     (case r of Inl err \<Rightarrow> entries (sv_db sv') = entries (sv_db sv)
      | Inr e \<Rightarrow> \<exists>row. entries (sv_db sv') = entries (sv_db sv) @ [row] \<and> row_view row = envelope_view dp e)"
  proof -
    obtain sv' r where "evaluate_measurement dp arrival tn mr sv = (sv', Some r)"
      "case r of Inl err \<Rightarrow> entries (sv_db sv') = entries (sv_db sv)
        | Inr e \<Rightarrow> \<exists>row. entries (sv_db sv') = entries (sv_db sv) @ [row] \<and> row_view row = envelope_view dp e"
      by (rule evaluation_result)
    then show ?thesis by blast
  qed
qed

text \<open>
  Property C19. A record whose timestamp is further from its arrival than the limit is never trusted: no verdict
  but DISCRETIONARY, unverifiable and for attestation, leaves the service, and the record is not buffered.
\<close>

theorem skewed_measurement_is_not_trusted:
  assumes "sv_graph sv = Some kg" and "parse_telemetry_ts (dp_calendar dp) (mr_timestamp mr) = Inr ts"
    and "too_skewed sv ts arrival" and "evaluate_measurement dp arrival tn mr sv = (sv', Some r)"
  shows "sv_rows sv' = sv_rows sv \<and>
    (case r of Inl err \<Rightarrow> entries (sv_db sv') = entries (sv_db sv)
     | Inr e \<Rightarrow> verdict e = DISCRETIONARY \<and> status (verifier_result e) = UNVERIFIABLE \<and>
         human_attestation e = Some attestation_required \<and> kg_citations e = [])"
proof -
  obtain sv0 ph0 where e: "enter dp arrival mr sv = (sv0, ph0)" "run_phases dp tn 5 ph0 sv0 = (sv', Finished r)"
    using assms(4) by (rule evaluate_Inr)
  have unchanged: "case r of Inl err \<Rightarrow> entries (sv_db sv') = entries (sv_db sv) | Inr e \<Rightarrow> True"
  proof -
    obtain sv1 r1 where "evaluate_measurement dp arrival tn mr sv = (sv1, Some r1)"
      "case r1 of Inl err \<Rightarrow> entries (sv_db sv1) = entries (sv_db sv)
        | Inr e \<Rightarrow> \<exists>row. entries (sv_db sv1) = entries (sv_db sv) @ [row] \<and> row_view row = envelope_view dp e"
      by (rule evaluation_result)
    with assms(4) show ?thesis by (cases r) auto
  qed
  from e(1) show ?thesis
  proof (cases rule: enter_cases)
    case (failed err)
    with e(2) show ?thesis by auto
  next
    case (skewed kg' ts' h e0)
    have "sv_rows sv' = sv_rows sv"
      using append_keeps_rows [of ph0 dp tn 5 sv0] e(2) skewed(4,6) by simp
    moreover have "e' = e0" if r: "r = Inr e'" for e'
      using e(2) unfolding skewed(6) r by (rule append_phases)
    moreover have "verdict e0 = DISCRETIONARY \<and> status (verifier_result e0) = UNVERIFIABLE \<and>
        human_attestation e0 = Some attestation_required \<and> kg_citations e0 = []"
      by (simp add: skewed(5) build_clock_skew_envelope_def)
    ultimately show ?thesis using unchanged by (cases r) simp_all
  next
    case (buffering kg' ts' h)
    with assms(1-3) show ?thesis by (simp add: admitted_def)
  qed
qed

text \<open>
  Property C22. Once the egress guard of a strict deployment has refused a call, every later evaluation, in every
  reachable state, is refused with a 503 and changes nothing.
\<close>

theorem tripped_service_refuses:
  assumes "service_run dp authority (sv, ts) (sv', ts')" and "sv_guard sv = Some g" "tripped g"
  shows "\<exists>n \<ge> g_attempts g. evaluate_measurement dp arrival tn mr sv' = (sv', Some (Inl (EgressRefusal n))) \<and>
    status_code (EgressRefusal n) = 503"
proof -
  from run_tripped [OF assms] obtain g' where g': "sv_guard sv' = Some g'" "tripped g'" "g_attempts g \<le> g_attempts g'" by auto
  then have "evaluate_measurement dp arrival tn mr sv' = (sv', Some (Inl (EgressRefusal (g_attempts g'))))"
    by (simp add: evaluate_measurement_def enter_def result_of_def)
  with g'(3) show ?thesis by auto
qed

text \<open>
  A graph load is atomic: it fails and changes nothing, or it puts the checked graph, its registry
  and its hash in force together with the evaluator's provenance. The tag registry, which is built after the
  graph has been replaced, never fails. Settings, ledger, telemetry and guard are left alone.
\<close>

theorem load_is_atomic:
  "case load_kg dp data sv of
     (sv', Inl err) \<Rightarrow> sv' = sv \<and> (case err of None \<Rightarrow> False | Some e \<Rightarrow> checked_graph dp (sv_policy sv) data = Inl e)
   | (sv', Inr _) \<Rightarrow> graph_agrees sv' \<and> same_settings sv sv' \<and> sv_db sv' = sv_db sv \<and> sv_rows sv' = sv_rows sv \<and>
       sv_guard sv' = sv_guard sv \<and>
       (\<exists>kg h d. checked_graph dp (sv_policy sv) data = Inr (kg, h) \<and>
          registry_from_dict (kg_tag_registry kg) (kg_rules kg) = Inr d \<and>
          sv_graph sv' = Some kg \<and> sv_registry sv' = Some d \<and> sv_graph_hash sv' = h)"
proof -
  obtain sv' outcome where l: "load_kg dp data sv = (sv', outcome)" by (cases "load_kg dp data sv")
  with load_outcomes [OF l] load_frame [OF l] show ?thesis by (auto split: sum.splits option.splits)
qed

text \<open>
  Property C15. Under a policy with anchors, a service that starts with a graph verified against an anchor, or
  with none, serves such a graph in every reachable state, and hash, signer and trust level in the evaluator's
  provenance are those of the graph in force.
\<close>

theorem served_graph_is_anchored:
  assumes "service_run dp authority (sv, ts) (sv', ts')" and "sv_policy sv = Some policy" "anchors policy \<noteq> []"
    and "serves_anchored policy sv" "graph_agrees sv"
  shows "serves_anchored policy sv' \<and> graph_agrees sv'"
  using run_anchored [OF assms(1-4)] run_agrees [OF assms(1)] assms(5) by simp

section \<open>Interleavings that the code does not rule out\<close>

text \<open>
  A verdict is lost when two evaluations read the ledger's head before either inserts: the first
  insert succeeds, the second finds its sequence number taken and ends in a 500, without a row, though its
  append alone would have succeeded.
\<close>

theorem second_append_is_refused:
  assumes "linked (entries (sv_db sv))" and "sv_ledger sv = Some cl"
    and "row_after (dp_world dp) cl (next_link (entries (sv_db sv))) (tn_now tn) q = Inr r"
    and "row_after (dp_world dp) cl (next_link (entries (sv_db sv))) (tn_now tn') q' = Inr r'"
    and "progress dp tn (Appending q e asked) sv = (sv1, ph)" "progress dp tn' (Appending q' e' asked') sv1 = (sv2, ph')"
    and "progress dp tn ph sv2 = (sv3, out)" "progress dp tn' ph' sv3 = (sv4, out')"
  shows "out = Finished (Inr e) \<and> out' = Finished (Inl (SequenceTaken (1 + int (length (entries (sv_db sv)))))) \<and>
    entries (sv_db sv4) = entries (sv_db sv) @ [r] \<and> status_code (SequenceTaken (1 + int (length (entries (sv_db sv))))) = 500"
proof -
  let ?link = "next_link (entries (sv_db sv))"
  have seq: "fst ?link = 1 + int (length (entries (sv_db sv)))" using next_link_linked [OF assms(1)] by simp
  have rows: "l_seq r = fst ?link" "l_seq r' = fst ?link" using row_after_columns(1) assms(3,4) by blast+
  have fresh: "\<not> list_ex (\<lambda>x. l_seq x = fst ?link) (entries (sv_db sv))"
    using assms(1) unfolding seq by (auto simp: list_ex_iff linked_def link_at_def in_set_conv_nth)
  have heads: "sv1 = sv" "sv2 = sv" "ph = Inserting q e asked ?link (tn_now tn)" "ph' = Inserting q' e' asked' ?link (tn_now tn')"
    using assms(5,6) by (auto simp: progress_simps select_head_def)
  have first: "out = Finished (Inr e)" "entries (sv_db sv3) = entries (sv_db sv) @ [r]" "sv_ledger sv3 = Some cl"
    using assms(2,3,7) fresh rows(1) record_outcome_frame [where e = e]
    by (auto simp: heads progress_simps insert_row_def Let_def same_settings_def split: if_splits)
  have "sv4 = sv3" "out' = Finished (Inl (SequenceTaken (fst ?link)))"
    using assms(4,8) first(2,3) rows by (auto simp: heads progress_simps insert_row_def)
  with first show ?thesis by (simp add: seq)
qed

text \<open>
  Property C30. A graph loaded while an evaluation waits for the model signs that evaluation's verdict: the
  envelope's provenance, the graph version and the graph hash of the ledger row are those of the new graph,
  while the verdict was reached on the slice of the graph that was in force when the model was asked.
\<close>

theorem load_renames_graph_in_flight:
  assumes "load_kg dp data sv = (sv1, Inr ())" and "checked_graph dp (sv_policy sv) data = Inr (kg, h)"
    and "progress dp tn (Asking mr ts th snapshot tier prompt) sv1 = (sv2, Appending q e asked)"
  shows "kg_version_hash (model_provenance e) = h \<and> kg_signer_key_id (model_provenance e) = signer_key_id kg \<and>
    q_kg_version q = Some (ascii (kg_version kg)) \<and> q_kg_version_hash q = Some h \<and>
    (\<exists>ev tref raw. aevaluate (dp_contract dp) (map_of (dp_env dp) ''SKI_FORCE_DISCRETIONARY_ON_UNVERIFIABLE'') ev tref
       (mr_values mr) snapshot (PyStr tier) (Some (mr_subject mr)) (Some ts) (telemetry_of dp sv) raw = Inr e)"
proof -
  note l = load_outcomes [OF assms(1)] load_frame [OF assms(1)]
  have graph: "sv_graph sv1 = Some kg" "sv_graph_hash sv1 = h" "graph_agrees sv1" using l(1) assms(2) by auto
  have telemetry: "telemetry_of dp sv1 = telemetry_of dp sv" using l(2) by (simp add: telemetry_of_def same_settings_def)
  from assms(3) graph(1) obtain ev raw result where d: "sv_evaluator sv1 = Some ev"
      "aevaluate_with_transcript (dp_world dp) (dp_contract dp) (map_of (dp_env dp) ''SKI_FORCE_DISCRETIONARY_ON_UNVERIFIABLE'') ev
         (sv_signer sv1) (tn_call tn) prompt (mr_values mr) snapshot (PyStr tier) (Some (mr_subject mr)) (Some ts)
         (telemetry_of dp sv1) raw = Inr result" "e = er_envelope result"
      "q = ledger_request dp sv1 kg mr th e (er_transcript result) (first_obligation_id e) ''v3-evaluator''
        (map_option backend_weight_hash (sv_llm sv1))"
    by (auto simp: progress_simps decide_def Let_def split: option.splits sum.splits)
  then obtain tref where a: "aevaluate (dp_contract dp) (map_of (dp_env dp) ''SKI_FORCE_DISCRETIONARY_ON_UNVERIFIABLE'') ev tref
       (mr_values mr) snapshot (PyStr tier) (Some (mr_subject mr)) (Some ts) (telemetry_of dp sv) raw = Inr e"
    by (auto simp: aevaluate_with_transcript_def map_sum_Inr telemetry split: sum.splits)
  have "ev_kg_version_hash ev = h" "ev_kg_signer_key_id ev = signer_key_id kg"
    using graph d(1) by (simp_all add: graph_agrees_def)
  then have "kg_version_hash (model_provenance e) = h" "kg_signer_key_id (model_provenance e) = signer_key_id kg"
    by (simp_all add: aevaluate_provenance [OF a] build_provenance_def Let_def)
  with a d(4) graph(2) show ?thesis by (auto simp: ledger_request_def)
qed

section \<open>Witnesses\<close>

text \<open>A world whose database reads the transcript id from the text that the writer stores.\<close>

definition service_world :: world where
  "service_world = sample_world\<lparr>w_transcript_id := (\<lambda>t. Some (takeWhile (\<lambda>n. n \<noteq> 34) (drop 19 t)))\<rparr>"

definition sample_deployment :: deployment where
  "sample_deployment =
     \<lparr>dp_world = service_world, dp_codec = sample_codec, dp_calendar = sample_calendar,
      dp_contract = sample_contract (sample_claim ''nox'' 40 None), dp_arith = \<lparr>to_double = (\<lambda>x. x), avg_numeric = (\<lambda>xs. 0)\<rparr>,
      dp_env = [], dp_read_file = (\<lambda>f. None), dp_envelope_text = (\<lambda>e. ascii ''e''), dp_reasoning_text = (\<lambda>r. ascii ''r'')\<rparr>"

definition anchor_policy :: trust_policy where
  "anchor_policy = \<lparr>anchors = [\<lparr>anchor_key_id = ''k'', anchor_key = 1\<rparr>], allow_unanchored = False\<rparr>"

definition sample_service :: "database \<Rightarrow> service" where
  "sample_service db =
     \<lparr>sv_graph = Some (sample_kg PyNone), sv_policy = Some anchor_policy, sv_registry = None, sv_graph_hash = ''sha256:33'',
      sv_llm = None, sv_evaluator = Some sample_evaluator, sv_ledger = Some sample_client, sv_signer = None,
      sv_monitor = None, sv_guard = None, sv_buffer = False, sv_tenant = ''default'', sv_produced = 0, sv_max_skew = 60,
      sv_checkpoint_every = 0, sv_db = db, sv_rows = []\<rparr>"

definition sample_record :: measurement_record where
  "sample_record = \<lparr>mr_id = ''m1'', mr_timestamp = ''2025-01-01T00:00:00Z'', mr_subject = ''stack-1'',
     mr_values = [(''nox'', PyInt 40)], mr_jurisdiction = None\<rparr>"

definition sample_turn :: turn where
  "sample_turn = \<lparr>tn_buffer_ok = True, tn_answer = Inr (sample_answer ''CLEAR'' ''ob1''),
     tn_call = \<lparr>cx_uuid = ''a0'', cx_started = [], cx_completed = []\<rparr>, tn_now = 5\<rparr>"

declare sample_ledger.simps [simp del]

lemma sample_deployment_fields [simp]:
  "dp_world sample_deployment = service_world" "dp_calendar sample_deployment = sample_calendar" "dp_env sample_deployment = []"
  "dp_codec sample_deployment = sample_codec"
  "dp_contract sample_deployment = sample_contract (sample_claim ''nox'' 40 None)"
  "dp_envelope_text sample_deployment = (\<lambda>e. ascii ''e'')" "dp_reasoning_text sample_deployment = (\<lambda>r. ascii ''r'')"
  by (simp_all add: sample_deployment_def)

lemma service_world_fields [simp]:
  "w_runtime service_world = sample_runtime" "w_iso_utc service_world = int_text" "w_iso_session service_world = int_text"
  "w_jsonb service_world = (\<lambda>t. t)" "w_sha service_world = sample_sha" "w_scan service_world = (\<lambda>t. Some (RStr t))"
  "w_crypto service_world = w_crypto sample_world"
  "w_transcript_id service_world = (\<lambda>t. Some (takeWhile (\<lambda>n. n \<noteq> 34) (drop 19 t)))"
  by (simp_all add: service_world_def)

lemma sample_turn_fields [simp]:
  "tn_buffer_ok sample_turn" "tn_answer sample_turn = Inr (sample_answer ''CLEAR'' ''ob1'')" "tn_now sample_turn = 5"
  by (simp_all add: sample_turn_def)

lemma sample_service_fields [simp]:
  "sv_graph (sample_service db) = Some (sample_kg PyNone)" "sv_policy (sample_service db) = Some anchor_policy"
  "sv_graph_hash (sample_service db) = ''sha256:33''" "sv_llm (sample_service db) = None"
  "sv_evaluator (sample_service db) = Some sample_evaluator" "sv_ledger (sample_service db) = Some sample_client"
  "sv_signer (sample_service db) = None" "sv_monitor (sample_service db) = None" "sv_guard (sample_service db) = None"
  "sv_buffer (sample_service db) = False" "sv_max_skew (sample_service db) = 60" "sv_db (sample_service db) = db"
  "sv_rows (sample_service db) = []"
  by (simp_all add: sample_service_def)

lemma row_after_total:
  fixes db :: database
  assumes "runtime_laws (w_runtime w)" "format5 cl" "encodable w cl now q" "has_form w (q_envelope q)"
    and "\<forall>t \<in> set_option (q_transcript q). has_form w t" "linked (entries db)" "int (length (entries db)) < exact_int_limit"
  shows "\<exists>r. row_after w cl (next_link (entries db)) now q = Inr r"
  using append_v3_total [OF assms] by (auto simp: append_v3_row_after map_sum_Inr)

lemma service_form: "check_unicode t = Inr () \<Longrightarrow> has_form service_world t"
  using sample_form [of t] by (simp add: has_form_def)

lemma sample_request_encodable:
  assumes "t = None"
  shows "encodable service_world sample_client 5 (ledger_request sample_deployment (sample_service db) kg sample_record h e t i track wh)"
proof -
  have "check_unicode [53] = Inr ()" by (simp add: check_unicode_iff surrogate_def)
  then show ?thesis
    using assms by (auto simp: encodable_def request_texts_def ledger_request_def ascii_encodable runtime_version_def sample_time
        split: option.splits)
qed

lemma sample_row:
  assumes "t = None" "linked (entries db)" "int (length (entries db)) < exact_int_limit"
  shows "\<exists>r. row_after service_world sample_client (next_link (entries db)) 5
    (ledger_request sample_deployment (sample_service db) kg sample_record h e t i track wh) = Inr r"
  using assms sample_runtime_laws
  by (intro row_after_total sample_request_encodable) (auto simp: ledger_request_def ascii_encodable service_form)

lemma sample_admitted: "\<exists>h. admitted sample_deployment sample_record (sample_service db) (sample_kg PyNone) 5 h"
proof -
  have ts: "parse_telemetry_ts sample_calendar (mr_timestamp sample_record) = Inr 5" by code_simp
  have ok: "measurement_input_errors (mr_values sample_record) (kg_rules (sample_kg PyNone)) = []" by code_simp
  have "exact_members (record_json sample_record)" by code_simp
  from exact_canonical [OF sample_runtime_laws this] have "\<exists>h. hash_measurement service_world sample_record = Inr h"
    by (auto simp: hash_measurement_def)
  with ts ok show ?thesis by (simp add: admitted_def)
qed


lemma sample_ledger_linked: "linked (entries (sample_ledger 0))" "int (length (entries (sample_ledger 0))) < exact_int_limit"
  using ledger_run_linked [of sample_world sample_client sample_signer "\<lambda>m. []" "sample_ledger 0"] sample_ledger_reached [of 0]
  by (auto simp: sample_reached_def exact_int_limit_def)

lemma sample_ledger_empty: "entries (sample_ledger 0) = []"
  using sample_ledger_reached [of 0] by (simp add: sample_reached_def)

lemma ledger_request_produced [simp]:
  "ledger_request dp (sv\<lparr>sv_produced := n\<rparr>) kg mr h e t i track wh = ledger_request dp sv kg mr h e t i track wh"
  by (simp add: ledger_request_def)

theorem clear_response_is_backed_witness:
  "\<exists>sv' e r. evaluate_measurement sample_deployment 5 sample_turn sample_record (sample_service (sample_ledger 0)) = (sv', Some (Inr e)) \<and>
     verdict e = CLEAR \<and> entries (sv_db sv') = entries (sample_ledger 0) @ [r] \<and> l_verdict r = ascii ''CLEAR''"
proof -
  let ?dp = sample_deployment and ?mr = sample_record and ?kg = "sample_kg PyNone" and ?sv = "sample_service (sample_ledger 0)"
  obtain h where h: "admitted ?dp ?mr ?sv ?kg 5 h" using sample_admitted by blast
  have fields: "mr_values ?mr = [(''nox'', PyInt 40)]" "mr_jurisdiction ?mr = None" "mr_subject ?mr = ''stack-1''"
    by (simp_all add: sample_record_def)
  have enter: "enter ?dp 5 ?mr ?sv = (?sv, Buffering ?mr 5 h)"
    using h by (simp add: enter_def admit_def admitted_def too_skewed_def clock_skew_delta_def microseconds_def)
  let ?ask = "\<lambda>s. aevaluate (sample_contract (sample_claim ''nox'' 40 None)) None sample_evaluator (transcript_reference None None)
    [(''nox'', PyInt 40)] s (PyStr (tier_for_snapshot s)) (Some ''stack-1'') (Some 5) None (sample_answer ''CLEAR'' ''ob1'')"
  have "case scope_to sample_calendar ?kg None 5 (Some ''stack-1'') of
      Inl e \<Rightarrow> False
    | Inr s \<Rightarrow> (case prompt_ids s of Inl e \<Rightarrow> False | Inr ids \<Rightarrow> (case ?ask s of Inl c \<Rightarrow> False | Inr e \<Rightarrow> verdict e = CLEAR))"
    by code_simp
  then obtain snapshot ids e where scope: "scope_to sample_calendar ?kg None 5 (Some ''stack-1'') = Inr snapshot"
      and ids: "prompt_ids snapshot = Inr ids" and e: "?ask snapshot = Inr e" "verdict e = CLEAR"
    by (auto split: sum.splits)
  obtain prompt where prompt: "render_canonical_prompt sample_runtime [(''nox'', PyInt 40)] snapshot = Inr prompt"
    using ids by (simp add: render_canonical_prompt_def)
  let ?q = "ledger_request ?dp ?sv ?kg ?mr h e None (first_obligation_id e) ''v3-evaluator'' None"
  obtain r where r: "row_after service_world sample_client (next_link (entries (sample_ledger 0))) 5 ?q = Inr r"
    using sample_row [OF refl sample_ledger_linked] by blast
  let ?sv1 = "?sv\<lparr>sv_produced := sv_produced ?sv + 1\<rparr>"
  have decided: "decide ?dp sample_turn ?mr 5 h snapshot (tier_for_snapshot snapshot) prompt ?sv1 = (?sv1, Appending ?q e True)"
    using e(1) by (simp add: decide_def aevaluate_with_transcript_def build_transcript_def telemetry_of_def fields)
  have scoped: "scope_measurement ?dp ?mr 5 h ?sv = (?sv1, Asking ?mr 5 h snapshot (tier_for_snapshot snapshot) prompt)"
    using scope prompt by (simp add: scope_measurement_def fields Let_def)
  have "\<exists>sv'. insert_row ?dp ?q e True (next_link (entries (sample_ledger 0))) 5 ?sv1 = (sv', Finished (Inr e))"
    using r by (simp add: insert_row_def sample_ledger_empty Let_def)
  then obtain sv' where ins: "insert_row ?dp ?q e True (next_link (entries (sample_ledger 0))) 5 ?sv1 = (sv', Finished (Inr e))"
    by blast
  have "run_phases ?dp sample_turn 5 (Buffering ?mr 5 h) ?sv = (sv', Finished (Inr e))"
    using scoped decided ins
    by (simp add: run_phases_pos [of 5] run_phases_pos [of 4] run_phases_pos [of 3] run_phases_pos [of 2] progress_simps
        write_buffer_def select_head_def)
  then have "evaluate_measurement ?dp 5 sample_turn ?mr ?sv = (sv', Some (Inr e))"
    using enter by (simp add: evaluate_measurement_def result_of_def)
  from this e(2) clear_response_is_backed [OF this e(2)] show ?thesis by fastforce
qed


section \<open>A race\<close>

lemma uuid_text:
  assumes "uuid_like s"
  shows "concat (map escape_char (ascii s)) = ascii s" "34 \<notin> set (ascii s)"
proof -
  have "list_all (\<lambda>c. escape_char (of_char c) = [of_char c] \<and> (of_char c :: nat) \<noteq> 34) ''0123456789abcdef-''" by code_simp
  then have each: "escape_char (of_char c) = [of_char c] \<and> (of_char c :: nat) \<noteq> 34" if "c \<in> set s" for c
    using assms that unfolding uuid_like_def list_all_iff by blast
  then show "concat (map escape_char (ascii s)) = ascii s"
    by (induction s) (simp_all add: ascii_def)
  show "34 \<notin> set (ascii s)" using each by (force simp: ascii_def)
qed

lemma service_transcripts: "transcript_law service_world"
proof -
  have head: "length ([123] @ quote_text (ascii ''transcript_id'') @ [58, 32, 34]) = 19" by code_simp
  have "w_transcript_id service_world (transcript_text rt t) = Some (ascii (t_id t))" if id: "uuid_like (t_id t)" for rt t
  proof -
    obtain rest where "transcript_text rt t =
        [123] @ quote_text (ascii ''transcript_id'') @ [58, 32] @ quote_text (ascii (t_id t)) @ rest"
      by (simp add: transcript_text_def member_def object_text_def ordered_members_def name_separator_def)
    then have "transcript_text rt t = ([123] @ quote_text (ascii ''transcript_id'') @ [58, 32, 34]) @ ascii (t_id t) @ 34 # rest"
      by (simp add: quote_text_def [of "ascii (t_id t)"] uuid_text(1) [OF id])
    then have "drop 19 (transcript_text rt t) = ascii (t_id t) @ 34 # rest"
      using head by (metis append_eq_conv_conj)
    then show ?thesis using uuid_text(2) [OF id] by (simp add: takeWhile_append2 takeWhile_append)
  qed
  then show ?thesis by (simp add: transcript_law_def)
qed

lemma sample_race:
  "\<exists>q e r sv1 sv2. enter sample_deployment 100000000 sample_record (sample_service (sample_ledger 0)) = (sv1, Appending q e False) \<and>
     enter sample_deployment 100000000 sample_record sv1 = (sv2, Appending q e False) \<and>
     row_after service_world sample_client (1, genesis_hash) 5 q = Inr r \<and> l_seq r = 1 \<and> l_time r = 5 \<and>
     sv_db sv2 = sample_ledger 0 \<and> sv_ledger sv2 = Some sample_client \<and> verdict e = DISCRETIONARY"
proof -
  let ?sv = "\<lambda>n. (sample_service (sample_ledger 0))\<lparr>sv_produced := n\<rparr>"
  obtain h where h: "admitted sample_deployment sample_record (sample_service (sample_ledger 0)) (sample_kg PyNone) 5 h"
    using sample_admitted by blast
  let ?e = "build_clock_skew_envelope (skew_seconds 5 100000000) 60 ''sha256:33'' (Some (sample_kg PyNone))"
  let ?q = "ledger_request sample_deployment (sample_service (sample_ledger 0)) (sample_kg PyNone) sample_record h ?e None None ''v3-clock-skew-guard'' None"
  have mode: "clock_skew_mode [] \<noteq> ''reject''" by code_simp
  have enter: "enter sample_deployment 100000000 sample_record (?sv n) = (?sv (n + 1), Appending ?q ?e False)" for n
    using h mode
    by (simp add: enter_def admit_def admitted_def too_skewed_def clock_skew_delta_def microseconds_def skew_phase_def Let_def
       )
  have start: "?sv 0 = sample_service (sample_ledger 0)" by (simp add: sample_service_def)
  have first: "enter sample_deployment 100000000 sample_record (sample_service (sample_ledger 0)) = (?sv 1, Appending ?q ?e False)"
    using enter [of 0] unfolding start by simp
  have link: "next_link (entries (sample_ledger 0)) = (1, genesis_hash)"
    unfolding sample_ledger_empty by (simp add: next_link_def head_row_def)
  obtain r where r: "row_after service_world sample_client (1, genesis_hash) 5 ?q = Inr r"
    using sample_row [OF refl sample_ledger_linked] unfolding link by blast
  have "l_seq r = 1" "l_time r = 5" using row_after_columns(1,3) [OF r] by simp_all
  moreover have "verdict ?e = DISCRETIONARY" by (simp add: build_clock_skew_envelope_def)
  ultimately show ?thesis
    using first enter [of 1] r sample_service_fields by fastforce
qed


text \<open>Two skewed records arrive, both read the head, and only one insert succeeds.\<close>

lemma sample_race_run:
  obtains q e r sv1 sv2 sv3 where
    "enter sample_deployment 100000000 sample_record (sample_service (sample_ledger 0)) = (sv1, Appending q e False)"
    "row_after service_world sample_client (1, genesis_hash) 5 q = Inr r" "verdict e = DISCRETIONARY"
    "entries (sv_db sv2) = []" "sv_ledger sv2 = Some sample_client" "entries (sv_db sv3) = [r]"
    "progress sample_deployment sample_turn (Appending q e False) sv2 = (sv2, Inserting q e False (1, genesis_hash) 5)"
    "progress sample_deployment sample_turn (Inserting q e False (1, genesis_hash) 5) sv2 = (sv3, Finished (Inr e))"
    "progress sample_deployment sample_turn (Inserting q e False (1, genesis_hash) 5) sv3 = (sv3, Finished (Inl (SequenceTaken 1)))"
    "service_run sample_deployment (\<lambda>m. []) (sample_service (sample_ledger 0), [])
       (sv3, [Finished (Inr e), Finished (Inl (SequenceTaken 1))])"
proof -
  obtain q e r sv1 sv2 where s: "enter sample_deployment 100000000 sample_record (sample_service (sample_ledger 0)) = (sv1, Appending q e False)"
     "enter sample_deployment 100000000 sample_record sv1 = (sv2, Appending q e False)"
     "row_after service_world sample_client (1, genesis_hash) 5 q = Inr r" "l_seq r = 1" "l_time r = 5"
     "sv_db sv2 = sample_ledger 0" "sv_ledger sv2 = Some sample_client" "verdict e = DISCRETIONARY"
    using sample_race by (elim exE conjE) (rule that)
  let ?db = "(sample_ledger 0)\<lparr>entries := [r]\<rparr>" and ?ins = "Inserting q e False (1, genesis_hash) 5"
  have empty: "entries (sv_db sv2) = []" unfolding s(6) by (rule sample_ledger_empty)
  have head: "progress sample_deployment sample_turn (Appending q e False) sv2 = (sv2, ?ins)"
    by (simp add: progress_simps select_head_def empty next_link_def head_row_def)
  have first: "progress sample_deployment sample_turn ?ins sv2 = (sv2\<lparr>sv_db := ?db\<rparr>, Finished (Inr e))"
    using s(3,6,7) empty by (simp add: progress_simps insert_row_def Let_def)
  have second: "progress sample_deployment sample_turn ?ins (sv2\<lparr>sv_db := ?db\<rparr>) =
      (sv2\<lparr>sv_db := ?db\<rparr>, Finished (Inl (SequenceTaken 1)))"
    using s(3,4,7) by (simp add: progress_simps insert_row_def)
  have id: "uuid_like (cx_uuid (tn_call sample_turn))" by code_simp
  have run: "service_run sample_deployment (\<lambda>m. []) (sample_service (sample_ledger 0), []) (sv2, [Appending q e False, Appending q e False])"
    using service_run.step [OF service_run.step [OF service_run.initial service_step.arrive [OF s(1)]] service_step.arrive [OF s(2)],
      of "\<lambda>m. []" "[]"] by simp
  have run: "service_run sample_deployment (\<lambda>m. []) (sample_service (sample_ledger 0), []) (sv2, [?ins, Appending q e False])"
    using service_run.step [OF run service_step.resume [where i = 0 and tn = sample_turn and sv' = sv2 and ph = ?ins]] id head empty by simp
  have run: "service_run sample_deployment (\<lambda>m. []) (sample_service (sample_ledger 0), []) (sv2, [?ins, ?ins])"
    using service_run.step [OF run service_step.resume [where i = 1 and tn = sample_turn and sv' = sv2 and ph = ?ins]] id head empty by simp
  have run: "service_run sample_deployment (\<lambda>m. []) (sample_service (sample_ledger 0), []) (sv2\<lparr>sv_db := ?db\<rparr>, [Finished (Inr e), ?ins])"
    using service_run.step [OF run service_step.resume [where i = 0 and tn = sample_turn and ph = "Finished (Inr e)"]] id first empty by simp
  have run: "service_run sample_deployment (\<lambda>m. []) (sample_service (sample_ledger 0), [])
      (sv2\<lparr>sv_db := ?db\<rparr>, [Finished (Inr e), Finished (Inl (SequenceTaken 1))])"
    using service_run.step [OF run service_step.resume [where i = 1 and tn = sample_turn and ph = "Finished (Inl (SequenceTaken 1))"]]
      id second s(5) by simp
  show thesis
    using that [OF s(1,3,8) empty s(7) _ head first second run] by simp
qed

lemma sample_sound: "sound_system sample_deployment (\<lambda>m. []) sample_client sample_signer (sample_service (sample_ledger 0), [])"
proof -
  have "ledger_run service_world sample_client sample_signer (\<lambda>m. []) (sample_ledger 0)"
    using ledger_run.start by (simp add: sample_ledger.simps)
  moreover have "py_strip ''sha256:33'' = ''sha256:33''" by code_simp
  ultimately show ?thesis by (simp add: sound_system_def clean_service_def)
qed

theorem concurrent_ledger_is_audited_witness:
  "\<exists>e sv. service_run sample_deployment (\<lambda>m. []) (sample_service (sample_ledger 0), []) (sv, [Finished (Inr e), Finished (Inl (SequenceTaken 1))]) \<and>
     length (entries (sv_db sv)) = 1 \<and> accepted service_world (sample_audit []) (sv_db sv)"
proof (rule sample_race_run)
  fix q e r sv3
  assume run: "service_run sample_deployment (\<lambda>m. []) (sample_service (sample_ledger 0), [])
       (sv3, [Finished (Inr e), Finished (Inl (SequenceTaken 1))])" and one: "entries (sv_db sv3) = [r]"
  have "storage_laws service_world" by (simp add: storage_laws_def)
  moreover have "honest_signer service_world sample_signer" using sample_signer_honest by (simp add: honest_signer_def)
  ultimately have "accepted (dp_world sample_deployment) (sample_audit []) (sv_db sv3)"
    using concurrent_ledger_is_audited [OF run sample_sound, of "sample_audit []"] service_transcripts sample_audits_run [of "[]"]
    by simp
  moreover have "length (entries (sv_db sv3)) = 1" using one by simp
  ultimately show ?thesis using run by (metis sample_deployment_fields(1))
qed

theorem returned_verdicts_are_recorded_witness:
  "\<exists>e sv row. service_run sample_deployment (\<lambda>m. []) (sample_service (sample_ledger 0), []) (sv, [Finished (Inr e), Finished (Inl (SequenceTaken 1))]) \<and>
     entries (sv_db sv) = [row] \<and> row_view row = envelope_view sample_deployment e"
proof (rule sample_race_run)
  fix q e r sv3
  assume run: "service_run sample_deployment (\<lambda>m. []) (sample_service (sample_ledger 0), [])
       (sv3, [Finished (Inr e), Finished (Inl (SequenceTaken 1))])" and one: "entries (sv_db sv3) = [r]"
  from returned_verdicts_are_recorded [OF run] one have "row_view r = envelope_view sample_deployment e"
    by (auto simp: sample_ledger_empty returned_def map_filter_simps)
  with run one show ?thesis by blast
qed

theorem second_append_is_refused_witness:
  "\<exists>q e sv ph ph' sv'. progress sample_deployment sample_turn (Appending q e False) sv = (sv, ph) \<and>
     progress sample_deployment sample_turn ph sv = (sv', Finished (Inr e)) \<and>
     progress sample_deployment sample_turn ph sv' = (sv', ph') \<and> ph' = Finished (Inl (SequenceTaken 1))"
proof (rule sample_race_run)
  fix q e r sv2 sv3
  assume s: "row_after service_world sample_client (1, genesis_hash) 5 q = Inr r" "entries (sv_db sv2) = []"
    "sv_ledger sv2 = Some sample_client"
    "progress sample_deployment sample_turn (Appending q e False) sv2 = (sv2, Inserting q e False (1, genesis_hash) 5)"
    "progress sample_deployment sample_turn (Inserting q e False (1, genesis_hash) 5) sv2 = (sv3, Finished (Inr e))"
    "progress sample_deployment sample_turn (Inserting q e False (1, genesis_hash) 5) sv3 = (sv3, Finished (Inl (SequenceTaken 1)))"
  obtain sv4 out where out: "progress sample_deployment sample_turn (Inserting q e False (1, genesis_hash) 5) sv3 = (sv4, out)"
    by (cases "progress sample_deployment sample_turn (Inserting q e False (1, genesis_hash) 5) sv3")
  have link: "next_link (entries (sv_db sv2)) = (1, genesis_hash)" by (simp add: s(2) next_link_def head_row_def)
  have "out = Finished (Inl (SequenceTaken 1))"
    using second_append_is_refused [of sv2 sample_client sample_deployment sample_turn q r sample_turn q r e False sv2 _ e False, OF _ s(3) _ _ s(4,4,5) out]
      s(1,2) link by (simp add: linked_def)
  with s out show ?thesis by blast
qed


theorem skewed_measurement_is_not_trusted_witness:
  "\<exists>sv' e. evaluate_measurement sample_deployment 100000000 sample_turn sample_record (sample_service (sample_ledger 0)) = (sv', Some (Inr e)) \<and>
     sv_rows sv' = [] \<and> verdict e = DISCRETIONARY"
proof (rule sample_race_run)
  fix q e r sv1
  let ?sv = "sample_service (sample_ledger 0)"
  assume s: "enter sample_deployment 100000000 sample_record ?sv = (sv1, Appending q e False)"
    "row_after service_world sample_client (1, genesis_hash) 5 q = Inr r"
  have frame: "sv_db sv1 = sample_ledger 0" "sv_ledger sv1 = Some sample_client"
    using enter_frame [OF s(1)] by (simp_all add: same_settings_def)
  have link: "next_link [] = (1, genesis_hash)" by (simp add: next_link_def head_row_def)
  have "\<exists>sv'. run_phases sample_deployment sample_turn 5 (Appending q e False) sv1 = (sv', Finished (Inr e))"
    using s(2) frame sample_ledger_empty
    by (simp add: run_phases_pos [of 5] run_phases_pos [of 4] progress_simps select_head_def link insert_row_def Let_def)
  then obtain sv' where run: "evaluate_measurement sample_deployment 100000000 sample_turn sample_record ?sv = (sv', Some (Inr e))"
    using s(1) by (auto simp: evaluate_measurement_def result_of_def)
  have "parse_telemetry_ts sample_calendar (mr_timestamp sample_record) = Inr 5" by code_simp
  then have "sv_rows sv' = sv_rows ?sv \<and> verdict e = DISCRETIONARY"
    using skewed_measurement_is_not_trusted [OF _ _ _ run, of "sample_kg PyNone" 5]
    by (simp add: too_skewed_def clock_skew_delta_def microseconds_def)
  with run show ?thesis by auto
qed

definition tripped_guard :: guard where
  "tripped_guard = \<lparr>g_mode = strict_mode, g_allowlist = [], g_attempts = 1, g_armed = True, g_addresses = []\<rparr>"

theorem tripped_service_refuses_witness:
  "\<exists>sv' n. service_run sample_deployment (\<lambda>m. []) ((sample_service empty_database)\<lparr>sv_guard := Some tripped_guard\<rparr>, []) (sv', []) \<and>
     evaluate_measurement sample_deployment 5 sample_turn sample_record sv' = (sv', Some (Inl (EgressRefusal n)))"
proof -
  let ?sv = "(sample_service empty_database)\<lparr>sv_guard := Some tripped_guard\<rparr>"
  obtain g' out where call: "audit_call (\<lambda>h. None) False tripped_guard ''socket.connect'' [] = (g', out)"
    by (cases "audit_call (\<lambda>h. None) False tripped_guard ''socket.connect'' []")
  have run: "service_run sample_deployment (\<lambda>m. []) (?sv, []) (?sv\<lparr>sv_guard := Some g'\<rparr>, [])"
    by (rule service_run.step [OF service_run.initial service_step.network [OF _ call]]) simp
  have "sv_guard ?sv = Some tripped_guard" "tripped tripped_guard" by (simp_all add: tripped_guard_def tripped_def)
  from tripped_service_refuses [OF run this] run show ?thesis by blast
qed

definition service_document :: obj where
  "service_document = alist_set ''signature'' (PyDict [(''algorithm'', PyStr ''ed25519''), (''public_key_pem'', PyStr ''k''),
     (''value_hex'', PyStr ''0001'')]) sample_document"

lemma sample_load:
  assumes "sv_policy sv = Some anchor_policy"
  obtains sv1 kg h where "load_kg sample_deployment service_document sv = (sv1, Inr ())"
    "checked_graph sample_deployment (Some anchor_policy) service_document = Inr (kg, h)"
proof -
  have "case from_dict (w_crypto service_world) (service_codec sample_deployment) service_document True anchor_policy of
      Inl e \<Rightarrow> False | Inr kg \<Rightarrow> require_graph_shape [] kg = Inr ()" by code_simp
  then obtain kg where kg: "from_dict (w_crypto service_world) (service_codec sample_deployment) service_document True anchor_policy = Inr kg"
      "require_graph_shape [] kg = Inr ()"
    by (auto split: sum.splits)
  have graph: "is_graph_kg service_document" "has_key service_document ''signature''" "truthy (dget service_document ''metadata'')"
    by code_simp+
  have "exact_members [(''metadata'', dget service_document ''metadata''), (''nodes'', dget service_document ''nodes''),
      (''edges'', dget service_document ''edges'')]" by code_simp
  from exact_canonical [OF sample_runtime_laws this] obtain h where h: "compute_kg_version_hash sample_deployment service_document = Inr h"
    using graph(1,3) by (auto simp: compute_kg_version_hash_def graph_content_def kg_version_hash_of_def sha256_canonical_def or_else_def
        split: sum.splits)
  have checked: "checked_graph sample_deployment (Some anchor_policy) service_document = Inr (kg, h)"
    using kg graph(2) h by (simp add: checked_graph_def)
  obtain sv1 outcome where l: "load_kg sample_deployment service_document sv = (sv1, outcome)"
    by (cases "load_kg sample_deployment service_document sv")
  with load_outcomes [OF l] checked assms have "outcome = Inr ()" by (auto split: sum.splits option.splits)
  with l checked show thesis by (intro that) simp_all
qed

theorem served_graph_is_anchored_witness:
  "\<exists>sv kg. service_run sample_deployment (\<lambda>m. []) ((sample_service empty_database)\<lparr>sv_graph := None\<rparr>, []) (sv, []) \<and>
     sv_graph sv = Some kg \<and> kg_trust_of kg = Anchored"
proof -
  let ?sv = "(sample_service empty_database)\<lparr>sv_graph := None\<rparr>"
  have policy: "sv_policy ?sv = Some anchor_policy" by simp
  obtain sv1 kg h where l: "load_kg sample_deployment service_document ?sv = (sv1, Inr ())"
      "checked_graph sample_deployment (Some anchor_policy) service_document = Inr (kg, h)"
    using policy by (rule sample_load)
  have run: "service_run sample_deployment (\<lambda>m. []) (?sv, []) (sv1, [])"
    by (rule service_run.step [OF service_run.initial service_step.load [OF l(1)]])
  have "anchors anchor_policy \<noteq> []" "serves_anchored anchor_policy ?sv" "graph_agrees ?sv"
    by (simp_all add: anchor_policy_def serves_anchored_def graph_agrees_def)
  from served_graph_is_anchored [OF run policy this] have "serves_anchored anchor_policy sv1" by blast
  moreover have "sv_graph sv1 = Some kg" using load_outcomes [OF l(1)] l(2) policy by auto
  ultimately show ?thesis using run by (auto simp: serves_anchored_def)
qed

theorem load_renames_graph_in_flight_witness:
  "\<exists>sv1 sv2 q e h kg. load_kg sample_deployment service_document (sample_service empty_database) = (sv1, Inr ()) \<and>
     checked_graph sample_deployment (Some anchor_policy) service_document = Inr (kg, h) \<and>
     progress sample_deployment sample_turn (Asking sample_record 5 ''00'' (sample_snapshot ''nox'') ''high'' []) sv1 = (sv2, Appending q e True) \<and>
     kg_version_hash (model_provenance e) = h"
proof -
  have policy: "sv_policy (sample_service empty_database) = Some anchor_policy" by simp
  obtain sv1 kg h where l: "load_kg sample_deployment service_document (sample_service empty_database) = (sv1, Inr ())"
      "checked_graph sample_deployment (Some anchor_policy) service_document = Inr (kg, h)"
    using policy by (rule sample_load)
  have graph: "sv_graph sv1 = Some kg" using load_outcomes [OF l(1)] l(2) by auto
  have frame: "sv_signer sv1 = None" "sv_llm sv1 = None" "sv_buffer sv1 = False"
    using load_frame [OF l(1)] by (simp_all add: same_settings_def)
  obtain ev where ev: "sv_evaluator sv1 = Some ev"
    using l by (auto simp: load_kg_def Let_def split: sum.splits)
  let ?ask = "\<lambda>ev tref. aevaluate (sample_contract (sample_claim ''nox'' 40 None)) None ev tref [(''nox'', PyInt 40)]
    (sample_snapshot ''nox'') (PyStr ''high'') (Some ''stack-1'') (Some 5) None (sample_answer ''CLEAR'' ''ob1'')"
  have "case ?ask sample_evaluator [] of Inl c \<Rightarrow> False | Inr e \<Rightarrow> True" by code_simp
  then have "\<not> (\<exists>c. ?ask sample_evaluator [] = Inl c)" by (auto split: sum.splits)
  then have "\<not> (\<exists>c. ?ask ev tref = Inl c)" for tref unfolding aevaluate_crashes_iff .
  then have fine: "\<exists>e. ?ask ev tref = Inr e" for tref by (cases "?ask ev tref") auto
  have fields: "mr_values sample_record = [(''nox'', PyInt 40)]" "mr_subject sample_record = ''stack-1''" by (simp_all add: sample_record_def)
  obtain e where e: "?ask ev (transcript_reference None None) = Inr e" using fine by blast
  define q where "q = ledger_request sample_deployment sv1 kg sample_record ''00'' e None (first_obligation_id e) ''v3-evaluator'' None"
  have step: "progress sample_deployment sample_turn (Asking sample_record 5 ''00'' (sample_snapshot ''nox'') ''high'' []) sv1 =
      (sv1, Appending q e True)"
    using e graph frame ev fields
    by (simp add: progress_simps decide_def aevaluate_with_transcript_def build_transcript_def telemetry_of_def q_def)
  have "kg_version_hash (model_provenance e) = h"
    using load_renames_graph_in_flight [OF l(1) _ step] l(2) by simp
  with l step show ?thesis by blast
qed

end
