(* ===== verification/Py_Number.thy ===== *)
theory Py_Number
  imports Py_Value
begin

text \<open>
  \<open>int\<close> and \<open>float\<close> of Python on the values of \<open>Py_Value\<close>. Text is ASCII; the rounding of an integer
  to a double and the reading of a float from text are parameters.
\<close>

section \<open>Integers\<close>

definition is_digit :: "char \<Rightarrow> bool" where
  "is_digit c = (CHR ''0'' \<le> c \<and> c \<le> CHR ''9'')"

text \<open>Digits in groups with single underscores between them.\<close>

definition digit_groups :: "string \<Rightarrow> string option" where
  "digit_groups s =
     (let parts = py_split (CHR ''_'') s in
      if list_all (\<lambda>p. p \<noteq> [] \<and> list_all is_digit p) parts then Some (concat parts) else None)"

definition digits_value :: "string \<Rightarrow> int" where
  "digits_value s = foldl (\<lambda>n c. 10 * n + int (of_char c - 48)) 0 s"

definition signed_text :: "string \<Rightarrow> int \<times> string" where
  "signed_text s =
     (case s of [] \<Rightarrow> (1, []) | c # cs \<Rightarrow> if c = CHR ''-'' then (-1, cs) else if c = CHR ''+'' then (1, cs) else (1, s))"

text \<open>\<open>int(s)\<close>: \<open>None\<close> is \<open>ValueError\<close>.\<close>

definition py_int :: "string \<Rightarrow> int option" where
  "py_int s = (let (sg, t) = signed_text (py_strip s) in map_option (\<lambda>ds. sg * digits_value ds) (digit_groups t))"

text \<open>What the conversions raise.\<close>

datatype number_error = Number_TypeError | Number_ValueError | Number_OverflowError

definition truncate :: "rat \<Rightarrow> int" where
  "truncate q = (if q \<ge> 0 then \<lfloor>q\<rfloor> else \<lceil>q\<rceil>)"

definition to_int :: "py \<Rightarrow> number_error + int" where
  "to_int v =
     (case v of
        PyBool b \<Rightarrow> Inr (if b then 1 else 0)
      | PyInt i \<Rightarrow> Inr i
      | PyFloat (Fin q) \<Rightarrow> Inr (truncate q)
      | PyFloat NaN \<Rightarrow> Inl Number_ValueError
      | PyFloat _ \<Rightarrow> Inl Number_OverflowError
      | PyStr s \<Rightarrow> (case py_int s of None \<Rightarrow> Inl Number_ValueError | Some n \<Rightarrow> Inr n)
      | _ \<Rightarrow> Inl Number_TypeError)"

section \<open>Floats\<close>

text \<open>The double nearest to an integer, \<open>None\<close> beyond the largest double; a float read from text.\<close>

record float_reader =
  float_of_int :: "int \<Rightarrow> rat option"
  float_of_text :: "string \<Rightarrow> pyfloat option"

definition to_float :: "float_reader \<Rightarrow> py \<Rightarrow> number_error + pyfloat" where
  "to_float fl v =
     (case v of
        PyBool b \<Rightarrow> Inr (Fin (if b then 1 else 0))
      | PyInt i \<Rightarrow> (case float_of_int fl i of None \<Rightarrow> Inl Number_OverflowError | Some q \<Rightarrow> Inr (Fin q))
      | PyFloat x \<Rightarrow> Inr x
      | PyStr s \<Rightarrow> (case float_of_text fl s of None \<Rightarrow> Inl Number_ValueError | Some x \<Rightarrow> Inr x)
      | _ \<Rightarrow> Inl Number_TypeError)"

text \<open>An integer up to 2 to the 53rd is a double.\<close>

definition exact_small_ints :: "float_reader \<Rightarrow> bool" where
  "exact_small_ints fl \<longleftrightarrow> (\<forall>i. \<bar>i\<bar> \<le> 2 ^ 53 \<longrightarrow> float_of_int fl i = Some (of_int i))"

end
