(* ===== verification/Backends.thy ===== *)
theory Backends
  imports Py_Number Sovereignty Transcript Evaluation Ledger_Properties
begin

text \<open>
  The language-model backends (\<open>ski_model/v3/backends\<close>): their selection, the pin on the model's weights, and the
  reading of what a model answers; and \<open>FakeLLM\<close> of \<open>v3/evaluator.py\<close>.

  The replies of the model servers, the weights file and \<open>json.loads\<close> are parameters. Text is ASCII. The texts
  of reasoning are shortened to their fixed parts.
\<close>

section \<open>The pin on the weights\<close>

datatype backend_error =
    BadPin
  | PinMismatch
  | PinUnverifiable
  | RemoteModel
  | WeightsUnreadable
  | AmbiguousBackend
  | FakeRefused
  | FakePinned
  | UnknownBackend string
  | BadNumber
  | BadReply

record model_hash_resolution =
  mh_hash :: string
  mh_verified :: bool
  mh_source :: string

definition hex64 :: "string \<Rightarrow> bool" where
  "hex64 s = (length s = 64 \<and> list_all (\<lambda>c. c \<in> set ''0123456789abcdef'') s)"

definition normalize_sha256 :: "string \<Rightarrow> backend_error + string" where
  "normalize_sha256 v =
     (let given = py_lower (py_strip v);
          candidate = (if starts_with ''sha256:'' given \<or> starts_with ''sha256-'' given then drop 7 given else given)
      in if hex64 candidate then Inr candidate else Inl BadPin)"

definition expected_model_hash :: "env \<Rightarrow> backend_error + string option" where
  "expected_model_hash env =
     (let raw = env_get env ''SKI_MODEL_FILE_SHA256'' in
      if py_strip raw = [] then Inr None else map_sum id Some (normalize_sha256 raw))"

text \<open>\<open>splitlines\<close> up to empty lines, which the caller skips.\<close>

fun split_lines :: "string \<Rightarrow> string list" where
  "split_lines [] = [[]]"
| "split_lines (c # cs) =
     (if (of_char c :: nat) \<in> {10, 11, 12, 13, 28, 29, 30} then [] # split_lines cs
      else (case split_lines cs of [] \<Rightarrow> [[c]] | l # ls \<Rightarrow> (c # l) # ls))"

text \<open>\<open>_BLOB_NAME\<close>.\<close>

definition blob_digest :: "string \<Rightarrow> string option" where
  "blob_digest name =
     (if (starts_with ''sha256-'' name \<or> starts_with ''sha256:'' name) \<and> hex64 (drop 7 name) then Some (drop 7 name) else None)"

definition weights_digest_from_modelfile :: "py \<Rightarrow> string option" where
  "weights_digest_from_modelfile modelfile =
     (case modelfile of
        PyStr t \<Rightarrow>
          (let from = (\<lambda>l. py_lower (takeWhile (\<lambda>c. c \<noteq> CHR '' '') l) = ''from'');
               wanted = filter (\<lambda>l. l \<noteq> [] \<and> hd l \<noteq> CHR ''#'' \<and> from l) (map py_strip (split_lines t))
           in case wanted of
                [] \<Rightarrow> None
              | l # ls \<Rightarrow>
                  (let arg = py_strip (drop 1 (dropWhile (\<lambda>c. c \<noteq> CHR '' '') l));
                       base = rev (takeWhile (\<lambda>c. c \<noteq> CHR ''/'' \<and> c \<noteq> CHR 0x5C) (rev arg))
                   in blob_digest (py_lower base)))
      | _ \<Rightarrow> None)"

definition name_commitment :: "world \<Rightarrow> string \<Rightarrow> string \<Rightarrow> string" where
  "name_commitment w backend name = ''sha256:'' @ hexdigest w (utf8 (ascii (backend @ '':'' @ name)))"

definition check_pin :: "string \<Rightarrow> string \<Rightarrow> backend_error + unit" where
  "check_pin expected found = (if found \<noteq> expected then Inl PinMismatch else Inr ())"

definition sha256_file :: "world \<Rightarrow> bytes \<Rightarrow> string" where
  "sha256_file w content = hexdigest w content"

text \<open>What \<open>/api/show\<close> answers: \<open>None\<close> is a transport error or no JSON.\<close>

definition resolve_ollama_hash :: "world \<Rightarrow> string \<Rightarrow> string option \<Rightarrow> py option \<Rightarrow> backend_error + model_hash_resolution" where
  "resolve_ollama_hash w name expected reply =
     (case reply of
        None \<Rightarrow>
          if expected \<noteq> None then Inl PinUnverifiable
          else Inr \<lparr>mh_hash = name_commitment w ''ollama'' name, mh_verified = False, mh_source = ''name-commitment''\<rparr>
      | Some data \<Rightarrow>
          (let d = (case data of PyDict d \<Rightarrow> d | _ \<Rightarrow> []) in
           if truthy (dget d ''remote_host'') \<or> truthy (dget d ''remote_model'') then Inl RemoteModel
           else (case (expected, weights_digest_from_modelfile (dget d ''modelfile'')) of
               (Some pin, None) \<Rightarrow> Inl PinUnverifiable
             | (Some pin, Some found) \<Rightarrow>
                 map_sum id (\<lambda>_. \<lparr>mh_hash = ''sha256:'' @ found, mh_verified = True, mh_source = ''verified-backend-digest''\<rparr>)
                   (check_pin pin found)
             | (None, Some found) \<Rightarrow>
                 Inr \<lparr>mh_hash = ''sha256:'' @ found, mh_verified = False, mh_source = ''backend-digest''\<rparr>
             | (None, None) \<Rightarrow>
                 Inr \<lparr>mh_hash = name_commitment w ''ollama'' name, mh_verified = False, mh_source = ''name-commitment''\<rparr>)))"

text \<open>\<open>/v1/models\<close>: a transport error only skips the check, a reply of another shape raises.\<close>

datatype models_reply = Models_Failed | Models_Not_Json | Models_Json py

definition list_served_models :: "models_reply \<Rightarrow> backend_error + py list option" where
  "list_served_models reply =
     (case reply of
        Models_Failed \<Rightarrow> Inr None
      | Models_Not_Json \<Rightarrow> Inl BadReply
      | Models_Json (PyDict d) \<Rightarrow>
          (let models = dget d ''data'' in
           if \<not> truthy models then Inr (Some [])
           else (case iter_items models of
               None \<Rightarrow> Inl BadReply
             | Some ms \<Rightarrow> Inr (Some (map (\<lambda>m. dget_default m ''id'' (PyStr [])) (List.map_filter dict_of ms)))))
      | Models_Json _ \<Rightarrow> Inl BadReply)"

definition resolve_vllm_hash ::
  "world \<Rightarrow> string \<Rightarrow> string option \<Rightarrow> string option \<Rightarrow> (string \<Rightarrow> bytes option) \<Rightarrow> models_reply \<Rightarrow>
     backend_error + model_hash_resolution" where
  "resolve_vllm_hash w name pin path read models =
     (case list_served_models models of
        Inl e \<Rightarrow> Inl e
      | Inr _ \<Rightarrow>
     (case (case pin of None \<Rightarrow> Inr None | Some p \<Rightarrow> if p = [] then Inr None else map_sum id Some (normalize_sha256 p)) of
        Inl e \<Rightarrow> Inl e
      | Inr expected \<Rightarrow>
     (case (case path of None \<Rightarrow> Inr None
            | Some p \<Rightarrow> if p = [] then Inr None
                else (case read p of None \<Rightarrow> Inl WeightsUnreadable | Some content \<Rightarrow> Inr (Some (sha256_file w content)))) of
        Inl e \<Rightarrow> Inl e
      | Inr found \<Rightarrow>
          (case (expected, found) of
             (Some e, Some obs) \<Rightarrow>
               map_sum id (\<lambda>_. \<lparr>mh_hash = ''sha256:'' @ e, mh_verified = True, mh_source = ''verified-file-digest''\<rparr>) (check_pin e obs)
           | (Some e, None) \<Rightarrow> Inr \<lparr>mh_hash = ''sha256:'' @ e, mh_verified = False, mh_source = ''operator-asserted''\<rparr>
           | (None, Some obs) \<Rightarrow> Inr \<lparr>mh_hash = ''sha256:'' @ obs, mh_verified = False, mh_source = ''file-digest''\<rparr>
           | (None, None) \<Rightarrow>
               Inr \<lparr>mh_hash = name_commitment w ''vllm'' name, mh_verified = False, mh_source = ''name-commitment''\<rparr>))))"

section \<open>Selection\<close>

definition resolve_backend_name :: "env \<Rightarrow> backend_error + string" where
  "resolve_backend_name env =
     (let canonical = py_lower (py_strip (env_get env ''SKI_V3_LLM_BACKEND''));
          alias = py_lower (py_strip (env_get env ''SKI_INFERENCE_BACKEND''))
      in if canonical \<noteq> [] \<and> alias \<noteq> [] \<and> canonical \<noteq> alias then Inl AmbiguousBackend
         else Inr (if canonical \<noteq> [] then canonical else if alias \<noteq> [] then alias else ''fake''))"

definition fake_llm_allowed :: "env \<Rightarrow> bool" where
  "fake_llm_allowed env = (py_lower (py_strip (env_get env ''SKI_ALLOW_FAKE_LLM'')) = ''true'')"

text \<open>
  What the construction of a backend meets: the replies of the servers, the file system, the two hashes of the
  framework's prompt and grammar, and \<open>float\<close> on a text.
\<close>

record backend_site =
  bs_show :: "py option"
  bs_models :: models_reply
  bs_read :: "string \<Rightarrow> bytes option"
  bs_template_hash :: string
  bs_grammar_hash :: string
  bs_float :: "string \<Rightarrow> pyfloat option"

text \<open>A backend with what \<open>_backend_provenance\<close> reads from it.\<close>

record built_backend =
  bb_llm :: llm_backend
  bb_model_id :: string
  bb_source :: string

definition bb_verified :: "built_backend \<Rightarrow> bool" where
  "bb_verified b = (backend_hash_verified (bb_llm b) = Some (PyBool True))"

definition real_backend :: "backend_site \<Rightarrow> string \<Rightarrow> string \<Rightarrow> string \<Rightarrow> model_hash_resolution \<Rightarrow> built_backend" where
  "real_backend st cls name model res =
     \<lparr>bb_llm = \<lparr>backend_class = cls, backend_name = Some name, backend_weight_hash = mh_hash res,
        backend_template_id = ''ski.v3.evaluate.5'', backend_template_hash = bs_template_hash st,
        backend_grammar_hash = bs_grammar_hash st, backend_hash_verified = Some (PyBool (mh_verified res))\<rparr>,
      bb_model_id = model, bb_source = mh_source res\<rparr>"

definition fake_backend :: "backend_site \<Rightarrow> built_backend" where
  "fake_backend st =
     \<lparr>bb_llm = \<lparr>backend_class = ''FakeLLM'', backend_name = Some ''fake-llm'', backend_weight_hash = ''sha256:'' @ replicate 64 (CHR ''f''),
        backend_template_id = ''ski.v3.evaluate.5'', backend_template_hash = bs_template_hash st,
        backend_grammar_hash = bs_grammar_hash st, backend_hash_verified = None\<rparr>,
      bb_model_id = ''fake-llm'', bb_source = ''unspecified''\<rparr>"

text \<open>The numbers are read before the backend is made.\<close>

definition numbers_read :: "env \<Rightarrow> backend_site \<Rightarrow> string \<Rightarrow> string \<Rightarrow> bool" where
  "numbers_read env st tokens timeout =
     (py_int (env_default env ''SKI_MODEL_SEED'' ''42'') \<noteq> None \<and>
      py_int (env_default env ''SKI_MODEL_MAX_TOKENS'' tokens) \<noteq> None \<and> bs_float st timeout \<noteq> None)"

definition weights_path :: "env \<Rightarrow> string option" where
  "weights_path env = (let p = env_get env ''SKI_MODEL_FILE_PATH'' in if p = [] then None else Some p)"

definition build_backend :: "world \<Rightarrow> env \<Rightarrow> backend_site \<Rightarrow> backend_error + built_backend" where
  "build_backend w env st =
     (case resolve_backend_name env of
        Inl e \<Rightarrow> Inl e
      | Inr name \<Rightarrow>
     (case expected_model_hash env of
        Inl e \<Rightarrow> Inl e
      | Inr expected \<Rightarrow>
          if name = ''fake'' then
            (if \<not> fake_llm_allowed env then Inl FakeRefused
             else if expected \<noteq> None then Inl FakePinned else Inr (fake_backend st))
          else if name = ''ollama'' then
            (let model = env_default env ''SKI_MODEL_NAME'' ''qwen2.5:7b-instruct'' in
             if \<not> numbers_read env st ''512'' (env_default env ''SKI_OLLAMA_TIMEOUT_S'' ''60'') then Inl BadNumber
             else map_sum id (real_backend st ''OllamaV3Backend'' ''ollama-v3'' model)
                    (resolve_ollama_hash w model expected (bs_show st)))
          else if name = ''vllm'' then
            (let model = env_default env ''SKI_MODEL_NAME'' ''Qwen/Qwen2.5-7B-Instruct'' in
             if \<not> numbers_read env st ''1536'' (env_default env ''SKI_VLLM_TIMEOUT_S'' ''120'') then Inl BadNumber
             else map_sum id (real_backend st ''VLLMV3Backend'' ''vllm-v3'' model)
                    (resolve_vllm_hash w model expected
                      (weights_path env) (bs_read st) (bs_models st)))
          else Inl (UnknownBackend name)))"

section \<open>What a model answers\<close>

datatype answer_error = NoSuchAttribute | WrongType | MissingKey | BodyNotJson

datatype http_reply = Transport_Error | Not_Json | Json_Body py

definition discretionary_response :: "string \<Rightarrow> obj" where
  "discretionary_response reason =
     [(''verdict'', PyStr ''DISCRETIONARY''), (''reasoning'', PyStr reason), (''kg_citations'', PyList []),
      (''formalizable_assertions'', PyList [])]"

definition required_response_keys :: "string list" where
  "required_response_keys = [''verdict'', ''reasoning'', ''kg_citations'', ''formalizable_assertions'']"

definition permitted_verdicts :: "string list" where
  "permitted_verdicts = [''CLEAR'', ''FLAG'', ''NULL_UNMAPPED'', ''NULL_STALE'', ''DISCRETIONARY'']"

text \<open>\<open>loads\<close> is \<open>json.loads\<close> on text, \<open>None\<close> its \<open>JSONDecodeError\<close>.\<close>

definition parse_structured_output :: "(string \<Rightarrow> py option) \<Rightarrow> string \<Rightarrow> answer_error + obj" where
  "parse_structured_output loads raw_text =
     (case loads raw_text of
        None \<Rightarrow> Inr (discretionary_response ''Backend output was not valid JSON'')
      | Some (PyDict d) \<Rightarrow>
          if \<not> list_all (has_key d) required_response_keys then
            Inr (discretionary_response ''Backend output missing required keys'')
          else if \<not> hashable (dget d ''verdict'') then Inl WrongType
          else if \<not> in_names (dget d ''verdict'') permitted_verdicts then
            Inr (discretionary_response ''Backend verdict is not in the five-verdict taxonomy'')
          else Inr d
      | Some _ \<Rightarrow> Inr (discretionary_response ''Backend output JSON was not an object at top level''))"

definition ollama_answer :: "(string \<Rightarrow> py option) \<Rightarrow> http_reply \<Rightarrow> answer_error + obj" where
  "ollama_answer loads reply =
     (case reply of
        Transport_Error \<Rightarrow> Inr (discretionary_response ''Ollama backend transport error'')
      | Not_Json \<Rightarrow> Inl BodyNotJson
      | Json_Body body \<Rightarrow>
          (case body of
             PyDict b \<Rightarrow>
               (case dget_default b ''response'' (PyStr []) of
                  PyStr raw_text \<Rightarrow> parse_structured_output loads raw_text
                | _ \<Rightarrow> Inl WrongType)
           | _ \<Rightarrow> Inl NoSuchAttribute))"

text \<open>\<open>choices[0]\<close> of what is not falsy.\<close>

definition first_choice :: "py \<Rightarrow> answer_error + py" where
  "first_choice choices =
     (case choices of
        PyDict _ \<Rightarrow> Inl MissingKey
      | PyStr s \<Rightarrow> Inr (PyStr (take 1 s))
      | _ \<Rightarrow> (case seq_items choices of Some (c # _) \<Rightarrow> Inr c | _ \<Rightarrow> Inl WrongType))"

definition vllm_answer :: "(string \<Rightarrow> py option) \<Rightarrow> http_reply \<Rightarrow> answer_error + obj" where
  "vllm_answer loads reply =
     (case reply of
        Transport_Error \<Rightarrow> Inr (discretionary_response ''vLLM backend transport error'')
      | Not_Json \<Rightarrow> Inl BodyNotJson
      | Json_Body body \<Rightarrow>
          (case body of
             PyDict b \<Rightarrow>
               (let choices = dget b ''choices'' in
                if \<not> truthy choices then Inr (discretionary_response ''vLLM response contained no choices'')
                else (case first_choice choices of
                    Inl e \<Rightarrow> Inl e
                  | Inr (PyDict c) \<Rightarrow>
                      (let message = dget c ''message'' in
                       case (if truthy message then message else PyDict []) of
                         PyDict m \<Rightarrow>
                           (let content = dget m ''content'' in
                            case (if truthy content then content else PyStr []) of
                              PyStr raw_text \<Rightarrow> parse_structured_output loads raw_text
                            | _ \<Rightarrow> Inl WrongType)
                       | _ \<Rightarrow> Inl NoSuchAttribute)
                  | Inr _ \<Rightarrow> Inr (discretionary_response ''vLLM response contained no choices'')))
           | _ \<Rightarrow> Inl NoSuchAttribute))"

section \<open>The fake model\<close>

definition fake_unmapped :: "string \<Rightarrow> obj" where
  "fake_unmapped reason =
     [(''verdict'', PyStr ''NULL_UNMAPPED''), (''reasoning'', PyStr reason), (''kg_citations'', PyList []),
      (''formalizable_assertions'', PyList [])]"

definition fake_citation :: "obj \<Rightarrow> obj \<Rightarrow> py" where
  "fake_citation snap ob =
     PyDict [(''node_id'', dget ob ''id''), (''version'', dget_default snap ''version'' (PyStr ''unknown'')),
       (''role'', PyStr ''obligation'')]"

definition fake_assertion :: "obj \<Rightarrow> obj \<Rightarrow> py \<Rightarrow> bool \<Rightarrow> py" where
  "fake_assertion ob m pred ok =
     PyDict [(''predicate'', pred), (''metric'', dget ob ''metric''), (''value'', dget ob ''value''),
       (''observed'', (case dget ob ''metric'' of PyStr n \<Rightarrow> dget m n | _ \<Rightarrow> PyNone)), (''satisfied'', PyBool ok),
       (''obligation_id'', dget ob ''id'')]"

definition fake_predicate :: "obj \<Rightarrow> py" where
  "fake_predicate ob = dget_default ob ''predicate'' (PyStr ''must_not_exceed'')"

text \<open>\<open>ob.get("metric") in measurement\<close>: the reading, when there is one.\<close>

definition fake_reading :: "obj \<Rightarrow> obj \<Rightarrow> py option" where
  "fake_reading m ob = (case dget ob ''metric'' of PyStr n \<Rightarrow> map_of m n | _ \<Rightarrow> None)"

definition fake_stale :: "obj \<Rightarrow> obj \<Rightarrow> bool" where
  "fake_stale m ob =
     (case fake_reading m ob of
        None \<Rightarrow> False
      | Some reading \<Rightarrow>
          \<not> in_names (dget ob ''predicate'') stateful_predicates \<and> is_missing_reading reading (fake_predicate ob))"

text \<open>What the comprehension over the obligations raises.\<close>

definition fake_obligation_error :: "obj \<Rightarrow> py \<Rightarrow> answer_error option" where
  "fake_obligation_error m v =
     (case v of
        PyDict ob \<Rightarrow>
          if \<not> hashable (dget ob ''metric'') then Some WrongType
          else if fake_reading m ob \<noteq> None \<and> \<not> hashable (dget ob ''predicate'') then Some WrongType else None
      | _ \<Rightarrow> Some NoSuchAttribute)"

definition fake_satisfied :: "py \<Rightarrow> py \<Rightarrow> py \<Rightarrow> bool" where
  "fake_satisfied pred found limit =
     (if pred = PyStr ''must_not_exceed'' \<and> is_number found \<and> is_number limit then py_le found limit
      else if pred = PyStr ''must_be_within'' then
        (case limit of
           PyList [lo, hi] \<Rightarrow>
             if is_number found \<and> is_number lo \<and> is_number hi then py_le lo found \<and> py_le found hi else True
         | _ \<Rightarrow> True)
      else True)"

definition fake_evaluate :: "obj \<Rightarrow> obj \<Rightarrow> answer_error + obj" where
  "fake_evaluate m snap =
     (let given = dget_default snap ''obligations'' (PyList []) in
      if \<not> truthy given then Inr (fake_unmapped ''No applicable obligation in the provided KG snapshot.'')
      else (case iter_items given of
          None \<Rightarrow> Inl WrongType
        | Some vs \<Rightarrow>
      (case List.map_filter (fake_obligation_error m) vs of
          e # _ \<Rightarrow> Inl e
        | [] \<Rightarrow>
            (let obs = List.map_filter dict_of vs;
                 stale = filter (fake_stale m) obs
             in
             if stale \<noteq> [] then
               (if \<not> list_all (\<lambda>ob. has_key ob ''id'') stale then Inl MissingKey
                else Inr [(''verdict'', PyStr ''NULL_STALE''), (''reasoning'', PyStr ''Missing telemetry''),
                    (''kg_citations'', PyList (map (fake_citation snap) stale)),
                    (''formalizable_assertions'',
                       PyList (map (\<lambda>ob. fake_assertion ob m (fake_predicate ob) False) stale))])
             else (case filter (\<lambda>ob. truthy (dget ob ''metric'') \<and> fake_reading m ob \<noteq> None) obs of
                 [] \<Rightarrow> Inr (fake_unmapped ''No obligation metric matches the measurement keys.'')
               | ob # _ \<Rightarrow>
                   if \<not> has_key ob ''id'' then Inl MissingKey
                   else
                     (let ok = fake_satisfied (fake_predicate ob) (the (fake_reading m ob)) (dget ob ''value'')
                      in Inr [(''verdict'', PyStr (if ok then ''CLEAR'' else ''FLAG'')),
                          (''reasoning'', PyStr (if ok then ''Within limit.'' else ''Breach.'')),
                          (''kg_citations'', PyList [fake_citation snap ob]),
                          (''formalizable_assertions'', PyList [fake_assertion ob m (fake_predicate ob) ok])]))))))"

section \<open>The pin\<close>

text \<open>The digest that the runtime obtains without the pin: from the server's model file, or by hashing the mounted file.\<close>

definition observed_digest :: "world \<Rightarrow> env \<Rightarrow> backend_site \<Rightarrow> string option" where
  "observed_digest w env st =
     (case resolve_backend_name env of
        Inl _ \<Rightarrow> None
      | Inr name \<Rightarrow>
          if name = ''ollama'' then
            (case bs_show st of Some (PyDict d) \<Rightarrow> weights_digest_from_modelfile (dget d ''modelfile'') | _ \<Rightarrow> None)
          else if name = ''vllm'' then Option.bind (weights_path env) (\<lambda>p. map_option (sha256_file w) (bs_read st p))
          else None)"

lemma check_pin_Inr [simp]: "check_pin e x = Inr u \<longleftrightarrow> x = e"
  by (simp add: check_pin_def)

lemma map_sum_id_Inr [simp]: "map_sum id f x = Inr y \<longleftrightarrow> (\<exists>z. x = Inr z \<and> y = f z)"
  by (cases x) auto

lemma map_sum_id_Inl [simp]: "map_sum id f x = Inl e \<longleftrightarrow> x = Inl e"
  by (cases x) auto

lemma real_backend_fields [simp]:
  "bb_verified (real_backend st cls n m res) = mh_verified res"
  "backend_weight_hash (bb_llm (real_backend st cls n m res)) = mh_hash res"
  "bb_source (real_backend st cls n m res) = mh_source res"
  by (simp_all add: bb_verified_def real_backend_def)

lemma fake_backend_unverified [simp]: "\<not> bb_verified (fake_backend st)"
  by (simp add: bb_verified_def fake_backend_def)

lemma weights_digest_no_text [simp]: "weights_digest_from_modelfile PyNone = None"
  by (simp add: weights_digest_from_modelfile_def)

lemma ollama_resolution:
  assumes "resolve_ollama_hash w name pin reply = Inr res"
  shows "mh_verified res \<longleftrightarrow> pin \<noteq> None"
    and "pin = Some p \<Longrightarrow> mh_hash res = ''sha256:'' @ p \<and>
           (\<exists>d. reply = Some (PyDict d) \<and> weights_digest_from_modelfile (dget d ''modelfile'') = Some p)"
  using assms
  by (auto simp: resolve_ollama_hash_def Let_def dget_def split: option.splits if_splits py.splits)

lemma strip_spaceless: "\<forall>c \<in> set s. \<not> is_space c \<Longrightarrow> py_strip s = s"
proof -
  assume plain: "\<forall>c \<in> set s. \<not> is_space c"
  have "dropWhile is_space t = t" if "set t \<subseteq> set s" for t
    using plain that by (cases t) auto
  then show ?thesis by (simp add: py_strip_def py_lstrip_def)
qed

lemma hex_digit_plain:
  "c \<in> set ''0123456789abcdef'' \<Longrightarrow> \<not> is_space c \<and> lower_char c = c \<and> c \<noteq> CHR ''s''"
  by (auto simp: is_space_def lower_char_def Let_def)

lemma hex64_normal:
  assumes "hex64 p"
  shows "normalize_sha256 p = Inr p"
proof -
  have plain: "\<forall>c \<in> set p. \<not> is_space c \<and> lower_char c = c \<and> c \<noteq> CHR ''s''"
    using assms hex_digit_plain by (auto simp only: hex64_def list_all_iff)
  then have "py_lower (py_strip p) = p"
    by (simp add: strip_spaceless py_lower_def map_idI)
  moreover have "\<not> starts_with ''sha256:'' p \<and> \<not> starts_with ''sha256-'' p"
    using plain by (cases p) (simp_all add: starts_with_def)
  ultimately show ?thesis using assms by (simp add: normalize_sha256_def)
qed

lemma normalize_hex64: "normalize_sha256 v = Inr p \<Longrightarrow> hex64 p"
  by (auto simp: normalize_sha256_def Let_def split: if_splits)

lemma expected_hex64: "expected_model_hash env = Inr (Some p) \<Longrightarrow> hex64 p"
  by (auto simp: expected_model_hash_def Let_def dest: normalize_hex64 split: if_splits)

lemma hex64_empty [simp]: "\<not> hex64 []"
  by (simp add: hex64_def)

lemma vllm_resolution:
  assumes "resolve_vllm_hash w name pin path read models = Inr res"
    and "\<forall>p. pin = Some p \<longrightarrow> hex64 p" and "path \<noteq> Some []"
  shows "mh_verified res \<longleftrightarrow> pin \<noteq> None \<and> path \<noteq> None"
    and "pin = Some p \<Longrightarrow> mh_hash res = ''sha256:'' @ p"
    and "pin = Some p \<Longrightarrow> path = None \<Longrightarrow> mh_source res = ''operator-asserted''"
    and "pin = Some p \<Longrightarrow> path = Some q \<Longrightarrow> map_option (sha256_file w) (read q) = Some p"
  using assms
  by (auto simp: resolve_vllm_hash_def Let_def hex64_normal split: option.splits if_splits sum.splits)

lemma weights_path_nonempty: "weights_path env \<noteq> Some []"
  by (auto simp: weights_path_def Let_def split: if_splits)

lemma build_backend_cases:
  assumes "build_backend w env st = Inr b"
  obtains
    (fake) "resolve_backend_name env = Inr ''fake''" "expected_model_hash env = Inr None" "b = fake_backend st"
  | (ollama) pin n res where "resolve_backend_name env = Inr ''ollama''" "expected_model_hash env = Inr pin"
      "resolve_ollama_hash w n pin (bs_show st) = Inr res" "b = real_backend st ''OllamaV3Backend'' ''ollama-v3'' n res"
  | (vllm) pin n res where "resolve_backend_name env = Inr ''vllm''" "expected_model_hash env = Inr pin"
      "resolve_vllm_hash w n pin (weights_path env) (bs_read st) (bs_models st) = Inr res"
      "b = real_backend st ''VLLMV3Backend'' ''vllm-v3'' n res"
proof -
  obtain name where name: "resolve_backend_name env = Inr name"
    using assms by (auto simp: build_backend_def split: sum.splits)
  obtain pin where pin: "expected_model_hash env = Inr pin"
    using assms name by (auto simp: build_backend_def split: sum.splits)
  note step = assms [unfolded build_backend_def name pin sum.case Let_def]
  consider "name = ''fake''" | "name = ''ollama''" | "name = ''vllm''"
    using step by (auto split: if_splits)
  then show thesis
  proof cases
    case 1
    with step have "pin = None" "b = fake_backend st" by (simp_all split: if_splits)
    with 1 name pin show thesis using fake by simp
  next
    case 2
    with step obtain n res where "resolve_ollama_hash w n pin (bs_show st) = Inr res"
      and "b = real_backend st ''OllamaV3Backend'' ''ollama-v3'' n res"
      by (simp split: if_splits) blast
    with 2 name pin show thesis using ollama by simp
  next
    case 3
    with step obtain n res where
      "resolve_vllm_hash w n pin (weights_path env) (bs_read st) (bs_models st) = Inr res"
      and "b = real_backend st ''VLLMV3Backend'' ''vllm-v3'' n res"
      by (simp split: if_splits) blast
    with 3 name pin show thesis using vllm by simp
  qed
qed

lemma pin_honoured:
  assumes "build_backend w env st = Inr b" and "expected_model_hash env = Inr pin"
  shows "bb_verified b \<longleftrightarrow> pin \<noteq> None \<and> observed_digest w env st = pin"
    and "pin = Some p \<Longrightarrow> backend_weight_hash (bb_llm b) = ''sha256:'' @ p"
    and "pin = Some p \<Longrightarrow> \<not> bb_verified b \<Longrightarrow>
           bb_source b = ''operator-asserted'' \<and> resolve_backend_name env = Inr ''vllm'' \<and>
           weights_path env = None"
proof -
  have "(bb_verified b \<longleftrightarrow> pin \<noteq> None \<and> observed_digest w env st = pin) \<and>
    (\<forall>p. pin = Some p \<longrightarrow> backend_weight_hash (bb_llm b) = ''sha256:'' @ p \<and>
       (\<not> bb_verified b \<longrightarrow> bb_source b = ''operator-asserted'' \<and> resolve_backend_name env = Inr ''vllm'' \<and>
           weights_path env = None))"
    using assms(1)
  proof (cases rule: build_backend_cases)
    case fake
    with assms(2) show ?thesis by simp
  next
    case (ollama pin' n res)
    with assms(2) have [simp]: "pin' = pin" by simp
    from ollama_resolution [OF ollama(3)] show ?thesis
      using ollama(1,4) by (cases pin) (auto simp: observed_digest_def)
  next
    case (vllm pin' n res)
    with assms(2) have [simp]: "pin' = pin" by simp
    have "\<forall>p. pin' = Some p \<longrightarrow> hex64 p" using assms(2) by (auto dest: expected_hex64)
    from vllm_resolution [OF vllm(3) this weights_path_nonempty] show ?thesis
      using vllm(1,4)
      by (cases pin; cases "weights_path env") (simp_all add: observed_digest_def)
  qed
  then show "bb_verified b \<longleftrightarrow> pin \<noteq> None \<and> observed_digest w env st = pin"
    "pin = Some p \<Longrightarrow> backend_weight_hash (bb_llm b) = ''sha256:'' @ p"
    "pin = Some p \<Longrightarrow> \<not> bb_verified b \<Longrightarrow>
       bb_source b = ''operator-asserted'' \<and> resolve_backend_name env = Inr ''vllm'' \<and>
       weights_path env = None"
    by auto
qed

section \<open>Malformed answers\<close>

definition conforming :: "obj \<Rightarrow> bool" where
  "conforming d =
     (list_all (has_key d) required_response_keys \<and> in_names (dget d ''verdict'') permitted_verdicts)"

lemma parse_structured_cases:
  assumes "parse_structured_output loads t = Inr raw"
  obtains (malformed) r where "raw = discretionary_response r" | (conforming) "loads t = Some (PyDict raw)" "conforming raw"
  using assms by (auto simp: parse_structured_output_def conforming_def split: option.splits py.splits if_splits)

lemma ollama_answer_cases:
  assumes "ollama_answer loads reply = Inr raw"
  obtains (malformed) r where "raw = discretionary_response r" | (conforming) t where "loads t = Some (PyDict raw)" "conforming raw"
  using assms by (auto simp: ollama_answer_def elim: parse_structured_cases split: http_reply.splits py.splits)

lemma vllm_answer_cases:
  assumes "vllm_answer loads reply = Inr raw"
  obtains (malformed) r where "raw = discretionary_response r" | (conforming) t where "loads t = Some (PyDict raw)" "conforming raw"
  using assms
  by (auto simp: vllm_answer_def Let_def elim: parse_structured_cases split: http_reply.splits py.splits sum.splits if_splits)

lemma discretionary_response_parsed [simp]:
  "parse_output k (discretionary_response r) = Inr (DISCRETIONARY, PyStr r, [], [])"
  by (simp add: parse_output_def discretionary_response_def parse_items_def dget_default_def verdict_of_name_def)

lemma discretionary_response_cites:
  "invalid_citations snap (discretionary_response r) =
     (if list_all hashable (valid_node_ids snap) then Inr [] else Inl TypeError)"
  by (simp add: invalid_citations_def cited_node_ids_def discretionary_response_def dget_default_def Let_def)

lemma taxonomy_guard_discretionary [simp]: "taxonomy_guard m snap DISCRETIONARY as cs = (DISCRETIONARY, [])"
  by (simp add: taxonomy_guard_def)

lemma normalize_satisfied_Nil [simp]: "fst (normalize_satisfied [] m obs) = []"
  by (simp add: normalize_satisfied_def)

text \<open>With nothing cited and nothing asserted the evaluation takes its last path.\<close>

lemma discretionary_path:
  assumes "aevaluate k env ev tref m snap tier s t buf (discretionary_response r) = Inr e"
  obtains ns q where
    "e = (let e0 = verified_envelope ev tref DISCRETIONARY r [] [] ns q
          in if freshness_gate m snap s t buf \<noteq> None then apply_freshness e0 (freshness_gate m snap s t buf)
             else enforce_fail_closed (apply_risk_policy env e0 tier) q)"
proof -
  obtain index violations where ix: "index_obligations (snapshot_obligations snap) (Some m) = (index, violations)"
    by (cases "index_obligations (snapshot_obligations snap) (Some m)")
  obtain as ns where ns: "normalize_satisfied [] (Some m) (Some index) = (as, ns)"
    by (cases "normalize_satisfied [] (Some m) (Some index)")
  with normalize_satisfied_Nil [of "Some m" "Some index"] have "as = []" by simp
  with assms ix ns show thesis
    by (intro that [of ns "with_fail_closed (averify_report s t buf [] DISCRETIONARY (Some m) (Some index)) violations"])
       (auto simp: aevaluate_def Let_def discretionary_response_cites split: if_splits)
qed

lemma discretionary_evaluation:
  assumes "aevaluate k env ev tref m snap tier s t buf (discretionary_response r) = Inr e"
  shows "verdict e \<in> {DISCRETIONARY, NULL_STALE} \<and> formalizable_assertions e = [] \<and> kg_citations e = []"
proof -
  from assms obtain ns q where e: "e = (let e0 = verified_envelope ev tref DISCRETIONARY r [] [] ns q
          in if freshness_gate m snap s t buf \<noteq> None then apply_freshness e0 (freshness_gate m snap s t buf)
             else enforce_fail_closed (apply_risk_policy env e0 tier) q)"
    by (rule discretionary_path)
  show ?thesis
  proof (cases "freshness_gate m snap s t buf")
    case None
    then show ?thesis by (simp add: e Let_def enforce_verdict policy_verdict_eq)
  next
    case (Some f)
    with gate_overrides(1) [OF assms] show ?thesis by (auto simp: e Let_def)
  qed
qed

text \<open>
  Property C31. A pin on the weights is honoured: a backend that the factory builds records exactly the pinned
  digest and counts as verified exactly when a pin is set and equals the digest that the runtime obtained
  itself; the one pinned backend that is not verified is vLLM without a mounted weights file, recorded as the
  operator's assertion.
\<close>

theorem model_pin_is_honoured:
  assumes "build_backend w env st = Inr b" and "expected_model_hash env = Inr pin"
  shows "(bb_verified b \<longleftrightarrow> pin \<noteq> None \<and> observed_digest w env st = pin) \<and>
    (\<forall>p. pin = Some p \<longrightarrow>
       backend_weight_hash (bb_llm b) = ''sha256:'' @ p \<and>
       (\<not> bb_verified b \<longrightarrow>
          bb_source b = ''operator-asserted'' \<and> resolve_backend_name env = Inr ''vllm'' \<and> weights_path env = None))"
  using pin_honoured [OF assms] by blast

text \<open>The inputs of the witnesses: a pinned Ollama model.\<close>

definition sample_pin :: string where
  "sample_pin = replicate 64 (CHR ''a'')"

definition pinned_env :: env where
  "pinned_env = [(''SKI_V3_LLM_BACKEND'', ''Ollama''), (''SKI_MODEL_FILE_SHA256'', '' SHA256:'' @ sample_pin)]"

definition sample_site :: "string \<Rightarrow> backend_site" where
  "sample_site digest =
     \<lparr>bs_show = Some (PyDict [(''modelfile'', PyStr (''# weights'' @ [CHR 0x0A] @ ''FROM /models/blobs/sha256-'' @ digest))]),
      bs_models = Models_Failed, bs_read = (\<lambda>_. None), bs_template_hash = ''t'', bs_grammar_hash = ''g'',
      bs_float = (\<lambda>_. Some (Fin 1))\<rparr>"

lemma pinned_run:
  "expected_model_hash pinned_env = Inr (Some sample_pin)"
  "\<exists>b. build_backend sample_world pinned_env (sample_site sample_pin) = Inr b"
proof -
  show expected: "expected_model_hash pinned_env = Inr (Some sample_pin)" by code_simp
  have "resolve_backend_name pinned_env = Inr ''ollama''" by code_simp
  moreover have "numbers_read pinned_env (sample_site sample_pin) ''512'' (env_default pinned_env ''SKI_OLLAMA_TIMEOUT_S'' ''60'')"
    by code_simp
  moreover have "weights_digest_from_modelfile
      (PyStr (''# weights'' @ [CHR 0x0A] @ ''FROM /models/blobs/sha256-'' @ sample_pin)) = Some sample_pin"
    by code_simp
  ultimately show "\<exists>b. build_backend sample_world pinned_env (sample_site sample_pin) = Inr b"
    using expected
    by (simp add: build_backend_def Let_def resolve_ollama_hash_def sample_site_def dget_def truthy.simps)
qed

theorem model_pin_is_honoured_witness:
  "\<exists>b. build_backend sample_world pinned_env (sample_site sample_pin) = Inr b \<and> bb_verified b \<and>
     backend_weight_hash (bb_llm b) = ''sha256:'' @ sample_pin"
proof -
  obtain b where b: "build_backend sample_world pinned_env (sample_site sample_pin) = Inr b"
    using pinned_run(2) by blast
  have "resolve_backend_name pinned_env \<noteq> Inr ''vllm''" by code_simp
  with model_pin_is_honoured [OF b pinned_run(1)] b show ?thesis by blast
qed

text \<open>
  Property C32. What a real backend returns is either the JSON object that the model wrote, with the four
  required keys and a verdict of the taxonomy, or leads, in every evaluation that returns, to DISCRETIONARY or
  NULL_STALE with no assertion and no citation.
\<close>

theorem malformed_output_is_discretionary:
  assumes "ollama_answer loads reply = Inr raw \<or> vllm_answer loads reply = Inr raw"
    and "aevaluate k env ev tref m snap tier s t buf raw = Inr e"
  shows "(\<exists>raw_text. loads raw_text = Some (PyDict raw)) \<and> conforming raw \<or>
    verdict e \<in> {DISCRETIONARY, NULL_STALE} \<and> formalizable_assertions e = [] \<and> kg_citations e = []"
proof -
  from assms(1) consider r where "raw = discretionary_response r"
    | raw_text where "loads raw_text = Some (PyDict raw)" "conforming raw"
    by (auto elim: ollama_answer_cases vllm_answer_cases)
  then show ?thesis
    using assms(2) discretionary_evaluation by cases blast+
qed

theorem malformed_output_is_discretionary_witness:
  "\<exists>raw e. ollama_answer (\<lambda>_. None) (Json_Body (PyDict [(''response'', PyStr ''{'')])) = Inr raw \<and>
     aevaluate (sample_contract (sample_claim ''nox'' 40 None)) None sample_evaluator ''ref'' [(''nox'', PyInt 40)]
       (sample_snapshot ''nox'') (PyStr ''high'') None None None raw = Inr e \<and> verdict e = DISCRETIONARY"
proof -
  let ?raw = "discretionary_response ''Backend output was not valid JSON''"
  have raw: "ollama_answer (\<lambda>_. None) (Json_Body (PyDict [(''response'', PyStr ''{'')])) = Inr ?raw"
    by (simp add: ollama_answer_def parse_structured_output_def dget_default_def)
  let ?run = "aevaluate (sample_contract (sample_claim ''nox'' 40 None)) None sample_evaluator ''ref'' [(''nox'', PyInt 40)]
       (sample_snapshot ''nox'') (PyStr ''high'') None None None ?raw"
  have "(case ?run of Inr e \<Rightarrow> verdict e = DISCRETIONARY | Inl _ \<Rightarrow> False)" by code_simp
  then obtain e where "?run = Inr e" "verdict e = DISCRETIONARY" by (cases ?run) simp_all
  moreover from this malformed_output_is_discretionary [OF disjI1 [OF raw]]
  have "verdict e \<in> {DISCRETIONARY, NULL_STALE}" by fastforce
  ultimately show ?thesis using raw by blast
qed

end
