(* ===== verification/Startup.thy ===== *)
theory Startup
  imports Backends Service
begin

text \<open>
  The startup of the service (\<open>lifespan\<close> of \<open>server.py\<close>), the migrations of the ledger
  (\<open>ledger_migrations.py\<close>), the provisioning of the transcript key (\<open>signing.py\<close>), and the keys that guard the
  endpoints.

  The startup runs in stages, each of which may refuse. What a stage meets outside the process is in the record
  \<open>site\<close>; the dependencies it contacts are logged, in order. The verification of an OpenSSF model
  signature is an answer of the site. An error of the driver in the middle of a query is left out: the database
  answers all queries of the startup, or none.
\<close>

section \<open>Migrations\<close>

record ledger_schema =
  sc_columns :: "string list"
  sc_tables :: "string list"

definition required_v3_columns :: "string list" where
  "required_v3_columns =
     [''envelope_json'', ''envelope_hash'', ''transcript_json'', ''transcript_signature'', ''signing_key_id'', ''verifier_status'']"

definition required_v5_columns :: "string list" where
  "required_v5_columns =
     [''tenant_id'', ''kg_version_hash'', ''model_weight_hash'', ''schema_version'', ''verdict_signature'', ''verdict_signing_key_id'']"

definition v5_tables :: "string list" where
  "v5_tables = [''ledger_signing_keys'', ''ledger_checkpoints'']"

text \<open>\<open>ADD COLUMN IF NOT EXISTS\<close>, \<open>CREATE TABLE IF NOT EXISTS\<close>.\<close>

definition add_missing :: "string list \<Rightarrow> string list \<Rightarrow> string list" where
  "add_missing wanted present = present @ filter (\<lambda>c. c \<notin> set present) wanted"

definition apply_0002 :: "ledger_schema \<Rightarrow> ledger_schema" where
  "apply_0002 sc = sc\<lparr>sc_columns := add_missing required_v3_columns (sc_columns sc)\<rparr>"

definition apply_0003 :: "ledger_schema \<Rightarrow> ledger_schema" where
  "apply_0003 sc =
     sc\<lparr>sc_columns := add_missing required_v5_columns (sc_columns sc), sc_tables := add_missing v5_tables (sc_tables sc)\<rparr>"

definition missing_v3_columns :: "ledger_schema \<Rightarrow> string list" where
  "missing_v3_columns sc = filter (\<lambda>c. c \<notin> set (sc_columns sc)) required_v3_columns"

definition has_v5_schema :: "ledger_schema \<Rightarrow> bool" where
  "has_v5_schema sc =
     (list_all (\<lambda>c. c \<in> set (sc_columns sc)) required_v5_columns \<and> list_all (\<lambda>t. t \<in> set (sc_tables sc)) v5_tables)"

definition automigrate :: "env \<Rightarrow> bool" where
  "automigrate env = (py_lower (env_default env ''SKI_AUTOMIGRATE'' ''true'') \<noteq> ''false'')"

datatype schema_error = Columns_Missing "string list" | Role_Cannot_Migrate "string list"

text \<open>\<open>may_alter\<close>: whether the role of the connection may change the schema.\<close>

definition ensure_v3_ledger_schema :: "env \<Rightarrow> bool \<Rightarrow> ledger_schema \<Rightarrow> schema_error + ledger_schema" where
  "ensure_v3_ledger_schema env may_alter sc =
     (let missing = missing_v3_columns sc in
      if missing = [] then Inr sc
      else if \<not> automigrate env then Inl (Columns_Missing missing)
      else if \<not> may_alter then Inl (Role_Cannot_Migrate missing)
      else (let sc' = apply_0002 sc; still_missing = missing_v3_columns sc' in
            if still_missing \<noteq> [] then Inl (Columns_Missing still_missing) else Inr sc'))"

definition ensure_v5_ledger_schema :: "env \<Rightarrow> bool \<Rightarrow> ledger_schema \<Rightarrow> bool \<times> ledger_schema" where
  "ensure_v5_ledger_schema env may_alter sc =
     (if has_v5_schema sc then (True, sc)
      else if \<not> automigrate env then (False, sc)
      else if \<not> may_alter then (False, sc)
      else (let sc' = apply_0003 sc in (has_v5_schema sc', sc')))"

section \<open>The transcript key\<close>

text \<open>What is at the path of the key: nothing, bytes that are no key, or a key.\<close>

datatype key_file = Key_Missing | Key_Unusable | Key_Present signer

datatype key_error = Key_Lost | Generation_Not_Allowed | Key_Unreadable | Key_Not_Written | Ledger_Not_Asked

text \<open>\<open>fresh\<close> is the pair that \<open>generate\<close> yields, \<open>None\<close> where it cannot be written.\<close>

definition auto_provision :: "env \<Rightarrow> key_file \<Rightarrow> bool \<Rightarrow> signer option \<Rightarrow> key_error + signer" where
  "auto_provision env at_path ledger_has_signed fresh =
     (case at_path of
        Key_Present s \<Rightarrow> Inr s
      | Key_Unusable \<Rightarrow> Inl Key_Unreadable
      | Key_Missing \<Rightarrow>
          if ledger_has_signed then Inl Key_Lost
          else if py_lower (py_strip (env_get env ''SKI_ALLOW_KEY_GENERATION'')) \<noteq> ''true'' then Inl Generation_Not_Allowed
          else (case fresh of None \<Rightarrow> Inl Key_Not_Written | Some s \<Rightarrow> Inr s))"

definition has_signed_transcripts :: "database \<Rightarrow> bool" where
  "has_signed_transcripts db = list_ex (\<lambda>r. l_transcript_signature r \<noteq> None) (entries db)"

text \<open>The ledger is asked only when there is no key file.\<close>

definition provision_signer :: "env \<Rightarrow> key_file \<Rightarrow> database \<Rightarrow> signer option \<Rightarrow> key_error + signer" where
  "provision_signer env at_path db fresh =
     auto_provision env at_path (at_path = Key_Missing \<and> has_signed_transcripts db) fresh"

section \<open>Settings\<close>

text \<open>The row of the tenant: the query fails, finds nothing, or finds the column, which may be null.\<close>

datatype tenant_answer = Tenant_Failed | Tenant_Missing | Tenant_Skew "int option"

definition default_max_clock_skew :: int where
  "default_max_clock_skew = 60"

definition resolve_max_clock_skew :: "env \<Rightarrow> tenant_answer \<Rightarrow> int" where
  "resolve_max_clock_skew env answer =
     (case answer of
        Tenant_Skew (Some n) \<Rightarrow> n
      | _ \<Rightarrow>
          (case map_of env ''SKI_MAX_CLOCK_SKEW_SECONDS'' of
             Some v \<Rightarrow> (case py_int v of Some n \<Rightarrow> n | None \<Rightarrow> default_max_clock_skew)
           | None \<Rightarrow> default_max_clock_skew))"

text \<open>Whether the buffer's table and the tenant's row are there; \<open>None\<close> where the query fails.\<close>

definition init_telemetry_buffer :: "(bool \<times> bool) option \<Rightarrow> bool" where
  "init_telemetry_buffer answer = (case answer of None \<Rightarrow> False | Some (table, tenant) \<Rightarrow> table \<and> tenant)"

section \<open>Keys of the endpoints\<close>

datatype admin_key_error = Admin_Key_Missing | Admin_Key_Shared

definition kg_hot_load_enabled :: "env \<Rightarrow> bool" where
  "kg_hot_load_enabled env = (py_lower (py_strip (env_default env ''SKI_ENABLE_KG_HOT_LOAD'' ''false'')) = ''true'')"

definition kg_admin_api_key :: "env \<Rightarrow> admin_key_error + string" where
  "kg_admin_api_key env =
     (let admin_key = env_get env ''SKI_ADMIN_API_KEY''; api_key = env_get env ''API_KEY'' in
      if admin_key = [] then Inl Admin_Key_Missing
      else if api_key \<noteq> [] \<and> admin_key = api_key then Inl Admin_Key_Shared
      else Inr admin_key)"

text \<open>The dependencies of the endpoints: \<open>Inl\<close> is the status of the refusal.\<close>

definition require_api_key :: "env \<Rightarrow> string option \<Rightarrow> nat + unit" where
  "require_api_key env given =
     (let api_key = env_get env ''API_KEY'' in
      if py_lower (env_default env ''API_KEY_REQUIRED'' ''true'') \<noteq> ''true'' then Inr ()
      else if api_key = [] then Inl 500
      else if given = None \<or> given = Some [] \<or> given \<noteq> Some api_key then Inl 401
      else Inr ())"

definition require_kg_admin :: "env \<Rightarrow> string option \<Rightarrow> nat + unit" where
  "require_kg_admin env given =
     (if \<not> kg_hot_load_enabled env then Inl 403
      else (case kg_admin_api_key env of
          Inl _ \<Rightarrow> Inl 503
        | Inr admin_key \<Rightarrow> if given = None \<or> given = Some [] \<or> given \<noteq> Some admin_key then Inl 401 else Inr ()))"

text \<open>\<open>main\<close>: whether the server is started with a certificate; \<open>None\<close> is a refusal.\<close>

definition serves_tls :: "env \<Rightarrow> bool option" where
  "serves_tls env =
     (if py_int (env_default env ''SKI_MODEL_WORKERS'' ''1'') \<noteq> Some 1 then None
      else if py_int (env_default env ''PORT'' ''8000'') = None then None
      else Some (py_lower (env_default env ''TLS_ENABLED'' ''true'') = ''true''))"

section \<open>The stages\<close>

datatype kg_file = Kg_Missing | Kg_Unreadable | Kg_Document py

record site =
  st_kg_file :: "string \<Rightarrow> kg_file"
  st_backend :: backend_site
  st_model_signature :: "unit + string option"
  st_engine :: "string \<Rightarrow> bool"
  st_reachable :: bool
  st_schema :: ledger_schema
  st_may_alter :: bool
  st_role :: role_answer
  st_key :: key_file
  st_fresh_key :: "signer option"
  st_tenant :: "string \<Rightarrow> tenant_answer"
  st_buffer :: "string \<Rightarrow> (bool \<times> bool) option"
  st_resolver :: resolver
  st_db :: database
  st_rows :: "telemetry_row list"

datatype startup_error =
    PolicyRefused load_error
  | SovereigntyRefused sovereignty_error
  | BackendRefused backend_error
  | AdminKeyRefused admin_key_error
  | GraphUnreadable
  | GraphRefused kg_load_error
  | RegistryRefused
  | ModelSignatureRefused
  | DsnMissing
  | DsnRefused
  | LedgerUnreachable
  | SchemaRefused schema_error
  | KeyRefused key_error
  | SettingRefused string
  | MonitorRefused monitor_error

text \<open>The configuration: only the file of trust anchors is read.\<close>

record configured =
  cf_policy :: trust_policy
  cf_mode :: string
  cf_backend :: string
  cf_checks :: "check list"

definition refused :: "string \<Rightarrow> check list \<Rightarrow> startup_error + check list" where
  "refused mode checks =
     (case refuse_if_failed mode checks of Inl e \<Rightarrow> Inl (SovereigntyRefused e) | Inr _ \<Rightarrow> Inr checks)"

definition configure :: "deployment \<Rightarrow> startup_error + configured" where
  "configure dp =
     (let env = dp_env dp in
      case policy_from_env (w_crypto (dp_world dp)) (dp_read_file dp) env of
        Inl e \<Rightarrow> Inl (PolicyRefused e)
      | Inr policy \<Rightarrow>
     (case resolve_mode env of
        Inl e \<Rightarrow> Inl (SovereigntyRefused e)
      | Inr mode \<Rightarrow>
     (case resolve_backend_name env of
        Inl e \<Rightarrow> Inl (BackendRefused e)
      | Inr backend \<Rightarrow>
     (case config_checks backend env (length (anchors policy)) of
        Inl e \<Rightarrow> Inl (SovereigntyRefused e)
      | Inr cs \<Rightarrow>
     (case refused mode (cs @ runtime_checks env) of
        Inl e \<Rightarrow> Inl e
      | Inr checks \<Rightarrow>
          (let cf = \<lparr>cf_policy = policy, cf_mode = mode, cf_backend = backend, cf_checks = checks\<rparr> in
           if \<not> kg_hot_load_enabled env then Inr cf
           else (case kg_admin_api_key env of Inl e \<Rightarrow> Inl (AdminKeyRefused e) | Inr _ \<Rightarrow> Inr cf)))))))"

text \<open>The graph, with its hash and its registry.\<close>

record loaded =
  ld_graph :: "knowledge_graph option"
  ld_hash :: string
  ld_registry :: "(string \<times> obj) list option"

definition kg_requires_signature :: "env \<Rightarrow> bool" where
  "kg_requires_signature env = (py_lower (env_default env ''KG_REQUIRE_SIGNATURE'' ''true'') = ''true'')"

definition startup_graph :: "deployment \<Rightarrow> site \<Rightarrow> trust_policy \<Rightarrow> startup_error + loaded" where
  "startup_graph dp st policy =
     (let env = dp_env dp in
      case st_kg_file st (env_default env ''KG_PATH'' ''/app/kg/kg.json'') of
        Kg_Missing \<Rightarrow> Inr \<lparr>ld_graph = None, ld_hash = sentinel_hash, ld_registry = None\<rparr>
      | Kg_Document (PyDict data) \<Rightarrow>
          (case from_dict (w_crypto (dp_world dp)) (service_codec dp) data (kg_requires_signature env) policy of
             Inl e \<Rightarrow> Inl (GraphRefused (GraphInvalid e))
           | Inr kg \<Rightarrow>
          (case require_graph_shape env kg of
             Inl e \<Rightarrow> Inl (GraphRefused e)
           | Inr _ \<Rightarrow>
          (case compute_kg_version_hash dp data of
             Inl e \<Rightarrow> Inl (GraphRefused e)
           | Inr h \<Rightarrow>
          (case registry_from_dict (kg_tag_registry kg) (kg_rules kg) of
             Inl _ \<Rightarrow> Inl RegistryRefused
           | Inr registry \<Rightarrow> Inr \<lparr>ld_graph = Some kg, ld_hash = h, ld_registry = Some registry\<rparr>))))
      | _ \<Rightarrow> Inl GraphUnreadable)"

definition graph_stage :: "deployment \<Rightarrow> site \<Rightarrow> configured \<Rightarrow> startup_error + loaded \<times> check list" where
  "graph_stage dp st cf =
     (case startup_graph dp st (cf_policy cf) of
        Inl e \<Rightarrow> Inl e
      | Inr ld \<Rightarrow>
          map_sum id (Pair ld)
            (refused (cf_mode cf) (cf_checks cf @ [kg_anchored_check (map_option kg_trust_of (ld_graph ld))])))"

definition backend_checks :: "built_backend \<Rightarrow> check list" where
  "backend_checks b = [model_hash_check (Some (bb_source b)), model_hash_verified_check (bb_verified b)]"

definition backend_stage ::
  "deployment \<Rightarrow> site \<Rightarrow> string \<Rightarrow> check list \<Rightarrow> startup_error + built_backend \<times> check list" where
  "backend_stage dp st mode checks =
     (case build_backend (dp_world dp) (dp_env dp) (st_backend st) of
        Inl e \<Rightarrow> Inl (BackendRefused e)
      | Inr b \<Rightarrow>
     (case st_model_signature st of
        Inl _ \<Rightarrow> Inl ModelSignatureRefused
      | Inr model_signer \<Rightarrow>
          map_sum id (Pair b) (refused mode (checks @ backend_checks b @ [model_signature_check model_signer]))))"

text \<open>The ledger. The first of these refusals come before the database is contacted.\<close>

definition open_ledger :: "deployment \<Rightarrow> site \<Rightarrow> startup_error + unit" where
  "open_ledger dp st =
     (let dsn = env_get (dp_env dp) ''LEDGER_DSN'' in
      if dsn = [] then Inl DsnMissing else if \<not> st_engine st dsn then Inl DsnRefused else Inr ())"

definition ledger_stage ::
  "deployment \<Rightarrow> site \<Rightarrow> string \<Rightarrow> check list \<Rightarrow> startup_error + bool \<times> string option \<times> check list" where
  "ledger_stage dp st mode checks =
     (if \<not> st_reachable st then Inl LedgerUnreachable
      else (case ensure_v3_ledger_schema (dp_env dp) (st_may_alter st) (st_schema st) of
          Inl e \<Rightarrow> Inl (SchemaRefused e)
        | Inr sc \<Rightarrow>
            (let v5 = fst (ensure_v5_ledger_schema (dp_env dp) (st_may_alter st) sc);
                 (ledger_check, role_name) = ledger_role_check (Some (st_role st));
                 all_checks = checks @ [ledger_check]
             in (case enforce mode all_checks of
                   Inl e \<Rightarrow> Inl (SovereigntyRefused e)
                 | Inr _ \<Rightarrow> Inr (v5, role_name, all_checks)))))"

section \<open>The startup\<close>

record started =
  sd_service :: service
  sd_mode :: string
  sd_checks :: "check list"
  sd_ledger_role :: "string option"
  sd_backend :: built_backend
  sd_tsa :: "string option"

definition tsa_from_env :: "env \<Rightarrow> string option" where
  "tsa_from_env env = (let url = py_strip (env_get env ''SKI_TSA_URL'') in if url = [] then None else Some url)"

definition startup_client :: "env \<Rightarrow> bool \<Rightarrow> signer \<Rightarrow> client" where
  "startup_client env v5 s =
     \<lparr>expected_next_seq = None, format5 = v5, tenant_id = ascii (env_default env ''SKI_TENANT_ID'' ''default''),
      key_signer = Some s\<rparr>"

definition startup_evaluator :: "llm_backend \<Rightarrow> loaded \<Rightarrow> int \<Rightarrow> evaluator" where
  "startup_evaluator llm ld seed =
     \<lparr>ev_llm = llm, ev_kg_version_hash = ld_hash ld, ev_decoder_seed = seed,
      ev_kg_signer_key_id = Option.bind (ld_graph ld) signer_key_id,
      ev_kg_trust = map_option (trust_name \<circ> kg_trust_of) (ld_graph ld)\<rparr>"

text \<open>What follows the ledger: key, settings, monitor, guard.\<close>

definition settings_stage ::
  "deployment \<Rightarrow> site \<Rightarrow> configured \<Rightarrow> loaded \<Rightarrow> built_backend \<Rightarrow> bool \<Rightarrow> startup_error + service" where
  "settings_stage dp st cf ld b v5 =
     (let env = dp_env dp; tenant = env_default env ''SKI_TENANT_ID'' ''default'' in
      case provision_signer env (st_key st) (st_db st) (st_fresh_key st) of
        Inl e \<Rightarrow> Inl (KeyRefused e)
      | Inr s \<Rightarrow>
     (case py_int (env_default env ''SKI_LEDGER_CHECKPOINT_EVERY'' ''1000'') of
        None \<Rightarrow> Inl (SettingRefused ''SKI_LEDGER_CHECKPOINT_EVERY'')
      | Some every \<Rightarrow>
     (case py_int (env_default env ''SKI_MODEL_SEED'' ''0'') of
        None \<Rightarrow> Inl (SettingRefused ''SKI_MODEL_SEED'')
      | Some seed \<Rightarrow>
     (case py_int (env_default env ''SKI_AGREEMENT_WINDOW'' ''1000'') of
        None \<Rightarrow> Inl (SettingRefused ''SKI_AGREEMENT_WINDOW'')
      | Some window \<Rightarrow>
     (case bs_float (st_backend st) (env_default env ''SKI_AGREEMENT_THRESHOLD'' ''0.95'') of
        None \<Rightarrow> Inl (SettingRefused ''SKI_AGREEMENT_THRESHOLD'')
      | Some limit \<Rightarrow>
     (case new_monitor window limit of
        Inl e \<Rightarrow> Inl (MonitorRefused e)
      | Inr mon \<Rightarrow>
     (case egress_allowlist (cf_backend cf) env of
        Inl e \<Rightarrow> Inl (SovereigntyRefused e)
      | Inr hosts \<Rightarrow>
          Inr \<lparr>sv_graph = ld_graph ld, sv_policy = Some (cf_policy cf), sv_registry = ld_registry ld, sv_graph_hash = ld_hash ld,
               sv_llm = Some (bb_llm b), sv_evaluator = Some (startup_evaluator (bb_llm b) ld seed),
               sv_ledger = Some (startup_client env v5 s), sv_signer = Some s, sv_monitor = Some mon,
               sv_guard = Some (arm (st_resolver st) (new_guard (cf_mode cf) hosts)),
               sv_buffer = init_telemetry_buffer (st_buffer st tenant), sv_tenant = tenant, sv_produced = 0,
               sv_max_skew = resolve_max_clock_skew env (st_tenant st tenant), sv_checkpoint_every = every,
               sv_db = (if v5 then register_signing_key s (st_db st) else st_db st), sv_rows = st_rows st\<rparr>)))))))"

datatype dependency = Graph_File | Model_Backend | Ledger_Database

definition startup :: "deployment \<Rightarrow> site \<Rightarrow> dependency list \<times> (startup_error + started)" where
  "startup dp st =
     (case configure dp of
        Inl e \<Rightarrow> ([], Inl e)
      | Inr cf \<Rightarrow>
     (case graph_stage dp st cf of
        Inl e \<Rightarrow> ([Graph_File], Inl e)
      | Inr (ld, checks) \<Rightarrow>
     (case backend_stage dp st (cf_mode cf) checks of
        Inl e \<Rightarrow> ([Graph_File, Model_Backend], Inl e)
      | Inr (b, checks) \<Rightarrow>
     (case open_ledger dp st of
        Inl e \<Rightarrow> ([Graph_File, Model_Backend], Inl e)
      | Inr _ \<Rightarrow>
     (case ledger_stage dp st (cf_mode cf) checks of
        Inl e \<Rightarrow> ([Graph_File, Model_Backend, Ledger_Database], Inl e)
      | Inr (v5, role_name, checks) \<Rightarrow>
          ([Graph_File, Model_Backend, Ledger_Database],
           map_sum id (\<lambda>sv. \<lparr>sd_service = sv, sd_mode = cf_mode cf, sd_checks = checks, sd_ledger_role = role_name,
                            sd_backend = b, sd_tsa = tsa_from_env (dp_env dp)\<rparr>)
             (settings_stage dp st cf ld b v5)))))))"

section \<open>Endpoints\<close>

text \<open>\<open>POST /api/kg/load\<close> and \<open>POST /api/evaluate\<close> with their dependencies: the HTTP status of the answer.\<close>

definition post_kg_load :: "deployment \<Rightarrow> string option \<Rightarrow> obj \<Rightarrow> service \<Rightarrow> service \<times> nat" where
  "post_kg_load dp given data sv =
     (case require_kg_admin (dp_env dp) given of
        Inl code \<Rightarrow> (sv, code)
      | Inr _ \<Rightarrow>
          (let (sv', outcome) = load_kg dp data sv in
           (sv', (case outcome of Inr _ \<Rightarrow> 200 | Inl (Some _) \<Rightarrow> 400 | Inl None \<Rightarrow> 500))))"

definition post_evaluate ::
  "deployment \<Rightarrow> string option \<Rightarrow> int \<Rightarrow> turn \<Rightarrow> measurement_record \<Rightarrow> service \<Rightarrow> service \<times> (nat + envelope)" where
  "post_evaluate dp given arrival tn mr sv =
     (case require_api_key (dp_env dp) given of
        Inl code \<Rightarrow> (sv, Inl code)
      | Inr _ \<Rightarrow>
          (let (sv', outcome) = evaluate_measurement dp arrival tn mr sv in
           (sv', (case outcome of
                    Some (Inr e) \<Rightarrow> Inr e
                  | Some (Inl err) \<Rightarrow> Inl (status_code err)
                  | None \<Rightarrow> Inl 500))))"

record backend_provenance =
  bp_backend :: string
  bp_model_id :: string
  bp_weight_hash :: string
  bp_verified :: bool
  bp_source :: string

definition backend_provenance_of :: "built_backend \<Rightarrow> backend_provenance" where
  "backend_provenance_of b =
     \<lparr>bp_backend = (case backend_name (bb_llm b) of Some n \<Rightarrow> n | None \<Rightarrow> backend_class (bb_llm b)), bp_model_id = bb_model_id b,
      bp_weight_hash = backend_weight_hash (bb_llm b), bp_verified = bb_verified b, bp_source = bb_source b\<rparr>"

record trust_provenance =
  tp_version_hash :: "string option"
  tp_signer :: "string option"
  tp_trust :: "string option"
  tp_anchors :: "string list"
  tp_transcript_key :: "string option"

definition trust_provenance_of :: "service \<Rightarrow> trust_provenance" where
  "trust_provenance_of sv =
     \<lparr>tp_version_hash = (case sv_graph sv of None \<Rightarrow> None | Some _ \<Rightarrow> Some (sv_graph_hash sv)),
      tp_signer = Option.bind (sv_graph sv) signer_key_id, tp_trust = map_option (trust_name \<circ> kg_trust_of) (sv_graph sv),
      tp_anchors = (case sv_policy sv of None \<Rightarrow> [] | Some p \<Rightarrow> map anchor_key_id (anchors p)),
      tp_transcript_key = map_option s_key_id (sv_signer sv)\<rparr>"

record health =
  he_status :: string
  he_kg_loaded :: bool
  he_kg_verified :: bool
  he_canary :: string
  he_produced :: nat
  he_trust :: trust_provenance

text \<open>\<open>/api/health\<close>, without the time and the constant version.\<close>

definition health_check :: "deployment \<Rightarrow> service \<Rightarrow> health" where
  "health_check dp sv =
     \<lparr>he_status = (if sv_graph sv = None then ''no_kg'' else ''healthy''), he_kg_loaded = (sv_graph sv \<noteq> None),
      he_kg_verified = (case sv_graph sv of None \<Rightarrow> False | Some kg \<Rightarrow> signature_verified kg),
      he_canary = (case sv_monitor sv of None \<Rightarrow> ''not_started'' | Some mon \<Rightarrow> if is_healthy (w_runtime (dp_world dp)) mon then ''healthy'' else ''degraded''),
      he_produced = sv_produced sv, he_trust = trust_provenance_of sv\<rparr>"

text \<open>\<open>/api/canary\<close>: \<open>None\<close> is not started.\<close>

definition canary_status :: "deployment \<Rightarrow> service \<Rightarrow> (monitor_view \<times> string) option" where
  "canary_status dp sv =
     map_option (\<lambda>mon. let view = monitor_snapshot (w_runtime (dp_world dp)) mon in (view, if v_healthy view then ''healthy'' else ''degraded'')) (sv_monitor sv)"

end
