(* ===== verification/Startup_Properties.thy ===== *)
theory Startup_Properties
  imports Startup Service_Properties
begin

text \<open>
  What the startup guarantees: the facts on its stages, the properties of a service that has started, and the
  composition with the runs of the service.
\<close>

section \<open>Stages\<close>

lemma refused_Inr:
  "refused mode checks = Inr cs \<longleftrightarrow> cs = checks \<and> (mode = strict_mode \<longrightarrow> \<not> list_ex (\<lambda>c. ck_ok c = Some False) checks)"
  by (auto simp: refused_def refuse_if_failed_def enforce_def Let_def filter_empty_conv list_ex_iff split: sum.splits if_splits)

lemma refuse_None: "refuse_if_failed mode checks = Inr u \<Longrightarrow> refused mode checks = Inr checks"
  by (simp add: refused_def)

definition unmet :: "check list \<Rightarrow> bool" where
  "unmet checks = list_ex (\<lambda>c. ck_ok c = Some False) checks"

lemma unmet_append [simp]: "unmet (cs @ ds) \<longleftrightarrow> unmet cs \<or> unmet ds"
  by (simp add: unmet_def)

lemma enforce_Inr: "enforce mode checks = Inr u \<longleftrightarrow> (mode = strict_mode \<longrightarrow> \<not> unmet checks)"
  by (auto simp: enforce_def unmet_def Let_def filter_empty_conv list_ex_iff)

lemma configure_Inr:
  assumes "configure dp = Inr cf"
  shows "policy_from_env (w_crypto (dp_world dp)) (dp_read_file dp) (dp_env dp) = Inr (cf_policy cf)"
    and "resolve_mode (dp_env dp) = Inr (cf_mode cf)" and "resolve_backend_name (dp_env dp) = Inr (cf_backend cf)"
    and "\<exists>cs. config_checks (cf_backend cf) (dp_env dp) (length (anchors (cf_policy cf))) = Inr cs \<and>
           cf_checks cf = cs @ runtime_checks (dp_env dp)"
    and "cf_mode cf = strict_mode \<Longrightarrow> \<not> unmet (cf_checks cf)"
    and "kg_hot_load_enabled (dp_env dp) \<Longrightarrow> \<exists>k. kg_admin_api_key (dp_env dp) = Inr k"
  using assms
  by (auto simp: configure_def Let_def refused_Inr unmet_def split: sum.splits if_splits)

lemma graph_stage_Inr:
  assumes "graph_stage dp st cf = Inr (ld, checks)"
  shows "startup_graph dp st (cf_policy cf) = Inr ld"
    and "checks = cf_checks cf @ [kg_anchored_check (map_option kg_trust_of (ld_graph ld))]"
    and "cf_mode cf = strict_mode \<Longrightarrow> \<not> unmet checks"
  using assms by (auto simp: graph_stage_def refused_Inr unmet_def map_sum_Inr split: sum.splits)

lemma backend_stage_Inr:
  assumes "backend_stage dp st mode checks = Inr (b, checks')"
  shows "build_backend (dp_world dp) (dp_env dp) (st_backend st) = Inr b"
    and "\<exists>signer_id. checks' = checks @ backend_checks b @ [model_signature_check signer_id]"
    and "mode = strict_mode \<Longrightarrow> \<not> unmet checks'"
  using assms by (auto simp: backend_stage_def refused_Inr unmet_def map_sum_Inr split: sum.splits)

lemma ledger_stage_Inr:
  assumes "ledger_stage dp st mode checks = Inr (v5, role_name, checks')"
  shows "\<exists>sc. ensure_v3_ledger_schema (dp_env dp) (st_may_alter st) (st_schema st) = Inr sc \<and>
           v5 = fst (ensure_v5_ledger_schema (dp_env dp) (st_may_alter st) sc)"
    and "checks' = checks @ [fst (ledger_role_check (Some (st_role st)))]"
    and "mode = strict_mode \<Longrightarrow> \<not> unmet checks'"
  using assms by (auto simp: ledger_stage_def enforce_Inr Let_def split: sum.splits if_splits prod.splits)

lemma settings_stage_Inr:
  assumes "settings_stage dp st cf ld b v5 = Inr sv"
  obtains s every seed mon hosts where
    "provision_signer (dp_env dp) (st_key st) (st_db st) (st_fresh_key st) = Inr s"
    "egress_allowlist (cf_backend cf) (dp_env dp) = Inr hosts"
    "sv_graph sv = ld_graph ld" "sv_policy sv = Some (cf_policy cf)" "sv_registry sv = ld_registry ld"
    "sv_graph_hash sv = ld_hash ld" "sv_llm sv = Some (bb_llm b)"
    "sv_evaluator sv = Some (startup_evaluator (bb_llm b) ld seed)"
    "sv_ledger sv = Some (startup_client (dp_env dp) v5 s)" "sv_signer sv = Some s" "sv_monitor sv = Some mon"
    "sv_guard sv = Some (arm (st_resolver st) (new_guard (cf_mode cf) hosts))" "sv_produced sv = 0"
    "sv_checkpoint_every sv = every" "sv_rows sv = st_rows st"
    "sv_db sv = (if v5 then register_signing_key s (st_db st) else st_db st)"
proof -
  note run = assms [unfolded settings_stage_def Let_def]
  from run obtain s where s: "provision_signer (dp_env dp) (st_key st) (st_db st) (st_fresh_key st) = Inr s"
    by (auto split: sum.splits)
  from run s obtain every where every: "py_int (env_default (dp_env dp) ''SKI_LEDGER_CHECKPOINT_EVERY'' ''1000'') = Some every"
    by (auto split: option.splits)
  from run s every obtain seed where seed: "py_int (env_default (dp_env dp) ''SKI_MODEL_SEED'' ''0'') = Some seed"
    by (auto split: option.splits)
  from run s every seed obtain n where n: "py_int (env_default (dp_env dp) ''SKI_AGREEMENT_WINDOW'' ''1000'') = Some n"
    by (auto split: option.splits)
  from run s every seed n obtain x where
    x: "bs_float (st_backend st) (env_default (dp_env dp) ''SKI_AGREEMENT_THRESHOLD'' ''0.95'') = Some x"
    by (auto split: option.splits)
  from run s every seed n x obtain mon where mon: "new_monitor n x = Inr mon"
    by (auto split: sum.splits)
  from run s every seed n x mon obtain hosts where hosts: "egress_allowlist (cf_backend cf) (dp_env dp) = Inr hosts"
    by (auto split: sum.splits)
  show thesis
    by (rule that [OF s hosts, where mon = mon and every = every and seed = seed])
       (use run s every seed n x mon hosts in auto)
qed

lemma startup_Inr:
  assumes "startup dp st = (contacts, Inr sd)"
  obtains cf ld cs cs' v5 where
    "configure dp = Inr cf" "graph_stage dp st cf = Inr (ld, cs)"
    "backend_stage dp st (cf_mode cf) cs = Inr (sd_backend sd, cs')"
    "open_ledger dp st = Inr ()"
    "ledger_stage dp st (cf_mode cf) cs' = Inr (v5, sd_ledger_role sd, sd_checks sd)"
    "settings_stage dp st cf ld (sd_backend sd) v5 = Inr (sd_service sd)" "sd_mode sd = cf_mode cf"
  using assms by (auto simp: startup_def map_sum_Inr split: sum.splits prod.splits)

section \<open>Digests\<close>

lemma to_hex_spaceless: "\<forall>c \<in> set (to_hex b). \<not> is_space c"
proof -
  have "unat w < 256" for w :: "8 word" using unsigned_less [of w] by simp
  then have "unat w div 16 < 16" for w :: "8 word" by (simp add: less_mult_imp_div_less)
  then show ?thesis
    using hex_digit_char by (auto simp: to_hex_def byte_hex_def)
qed

lemma sha256_label_strip: "\<forall>c \<in> set h. \<not> is_space c \<Longrightarrow> py_strip (''sha256:'' @ h) = ''sha256:'' @ h"
proof (rule strip_spaceless)
  assume "\<forall>c \<in> set h. \<not> is_space c"
  moreover have "list_all (\<lambda>c. \<not> is_space c) ''sha256:''" by code_simp
  ultimately show "\<forall>c \<in> set (''sha256:'' @ h). \<not> is_space c"
    by (auto simp only: set_append list_all_iff Un_iff)
qed

lemmas label_strip = sha256_label_strip [simplified]

lemma hex64_spaceless: "hex64 h \<Longrightarrow> \<forall>c \<in> set h. \<not> is_space c"
  using hex_digit_plain by (auto simp only: hex64_def list_all_iff)

lemma name_commitment_strip: "py_strip (name_commitment w k n) = name_commitment w k n"
  unfolding name_commitment_def hexdigest_def by (rule sha256_label_strip [OF to_hex_spaceless])

lemma blob_digest_hex64: "blob_digest n = Some h \<Longrightarrow> hex64 h"
  by (auto simp: blob_digest_def split: if_splits)

lemma weights_digest_hex64: "weights_digest_from_modelfile v = Some h \<Longrightarrow> hex64 h"
  by (auto simp: weights_digest_from_modelfile_def Let_def dest: blob_digest_hex64 split: py.splits list.splits)

lemma ollama_hash_strip:
  "resolve_ollama_hash w name pin reply = Inr res \<Longrightarrow> py_strip (mh_hash res) = mh_hash res"
  by (auto simp: resolve_ollama_hash_def Let_def name_commitment_strip
      intro!: label_strip hex64_spaceless dest!: weights_digest_hex64
      split: option.splits if_splits py.splits)

lemma vllm_hash_strip:
  assumes "resolve_vllm_hash w name pin path read models = Inr res"
  shows "py_strip (mh_hash res) = mh_hash res"
  using assms
  by (auto simp: resolve_vllm_hash_def Let_def name_commitment_strip sha256_file_def hexdigest_def
      intro!: label_strip hex64_spaceless to_hex_spaceless dest: normalize_hex64
      split: option.splits if_splits sum.splits)

lemma backend_hash_strip:
  assumes "build_backend w env st = Inr b"
  shows "py_strip (backend_weight_hash (bb_llm b)) = backend_weight_hash (bb_llm b)"
  using assms
proof (cases rule: build_backend_cases)
  case fake
  have "py_strip (''sha256:'' @ replicate 64 (CHR ''f'')) = ''sha256:'' @ replicate 64 (CHR ''f'')"
    by (rule sha256_label_strip) (simp add: is_space_def Let_def)
  with fake show ?thesis by (simp add: fake_backend_def)
next
  case (ollama pin n res)
  with ollama_hash_strip [OF ollama(3)] show ?thesis by simp
next
  case (vllm pin n res)
  with vllm_hash_strip [OF vllm(3)] show ?thesis by simp
qed

lemma version_hash_strip: "compute_kg_version_hash dp data = Inr h \<Longrightarrow> py_strip h = h"
  by (auto simp: compute_kg_version_hash_def kg_version_hash_of_def sha256_canonical_def map_sum_Inr
      intro!: label_strip to_hex_spaceless split: sum.splits)

lemma startup_graph_facts:
  assumes "startup_graph dp st policy = Inr ld"
  shows "py_strip (ld_hash ld) = ld_hash ld"
    and "ld_graph ld = Some kg \<Longrightarrow> signature_verified kg = (kg_trust_of kg = Anchored)"
    and "ld_graph ld = Some kg \<Longrightarrow> anchors policy \<noteq> [] \<Longrightarrow>
           kg_trust_of kg = Anchored \<and> signer_key_id kg \<in> (Some \<circ> anchor_key_id) ` set (anchors policy)"
proof -
  have "py_strip sentinel_hash = sentinel_hash" by code_simp
  with assms show "py_strip (ld_hash ld) = ld_hash ld"
    by (auto simp: startup_graph_def Let_def dest: version_hash_strip split: kg_file.splits py.splits sum.splits)
next
  assume "ld_graph ld = Some kg"
  with assms obtain data where d: "from_dict (w_crypto (dp_world dp)) (service_codec dp) data (kg_requires_signature (dp_env dp)) policy = Inr kg"
    by (auto simp: startup_graph_def Let_def split: kg_file.splits py.splits sum.splits)
  show "signature_verified kg = (kg_trust_of kg = Anchored)" by (rule from_dict_trust(2) [OF d])
  assume "anchors policy \<noteq> []"
  from trust_of_anchored [OF from_dict_trust(1) [OF d] this]
  show "kg_trust_of kg = Anchored \<and> signer_key_id kg \<in> (Some \<circ> anchor_key_id) ` set (anchors policy)" by auto
qed

section \<open>A started service\<close>

lemma startup_graph_agrees:
  assumes "startup dp st = (contacts, Inr sd)"
  shows "graph_agrees (sd_service sd)" and "py_strip (sv_graph_hash (sd_service sd)) = sv_graph_hash (sd_service sd)"
    and "sv_policy (sd_service sd) = Some policy \<Longrightarrow> anchors policy \<noteq> [] \<Longrightarrow> serves_anchored policy (sd_service sd)"
proof -
  from assms obtain cf ld cs v5 where stage: "graph_stage dp st cf = Inr (ld, cs)"
    and settings: "settings_stage dp st cf ld (sd_backend sd) v5 = Inr (sd_service sd)"
    by (cases rule: startup_Inr) blast
  note facts = startup_graph_facts [OF graph_stage_Inr(1) [OF stage]]
  from settings obtain seed where sv: "sv_graph (sd_service sd) = ld_graph ld" "sv_policy (sd_service sd) = Some (cf_policy cf)"
    "sv_graph_hash (sd_service sd) = ld_hash ld" "sv_evaluator (sd_service sd) = Some (startup_evaluator (bb_llm (sd_backend sd)) ld seed)"
    by (cases rule: settings_stage_Inr) blast
  show "graph_agrees (sd_service sd)"
    by (cases "ld_graph ld") (simp_all add: graph_agrees_def sv startup_evaluator_def)
  show "py_strip (sv_graph_hash (sd_service sd)) = sv_graph_hash (sd_service sd)" using facts(1) by (simp add: sv)
  show "serves_anchored policy (sd_service sd)" if "sv_policy (sd_service sd) = Some policy" "anchors policy \<noteq> []"
    using facts(2,3) that by (cases "ld_graph ld") (simp_all add: serves_anchored_def sv)
qed

lemma startup_clean:
  assumes "startup dp st = (contacts, Inr sd)" and "sv_ledger (sd_service sd) = Some cl" "format5 cl"
  obtains s where "sv_signer (sd_service sd) = Some s" "clean_service (sd_service sd) cl s"
    "sv_db (sd_service sd) = register_signing_key s (st_db st)"
    "provision_signer (dp_env dp) (st_key st) (st_db st) (st_fresh_key st) = Inr s"
  using assms(1)
proof (cases rule: startup_Inr)
  case (1 cf ld cs cs' v5)
  note facts = startup_graph_facts [OF graph_stage_Inr(1) [OF 1(2)]] backend_hash_strip [OF backend_stage_Inr(1) [OF 1(3)]]
  from 1(6) show thesis
  proof (cases rule: settings_stage_Inr)
    case (1 s every seed mon hosts)
    with assms(2,3) have "v5" "key_signer cl = Some s" by (auto simp: startup_client_def)
    with 1 facts assms(2,3) show thesis by (intro that [of s]) (simp_all add: clean_service_def)
  qed
qed

section \<open>Strict mode\<close>

lemma url_hosts_step:
  "fold_err (\<lambda>u hs. map_sum id (\<lambda>h. h # hs) (url_host u)) us acc = Inr r \<Longrightarrow>
   \<exists>hs. r = rev hs @ acc \<and> list_all2 (\<lambda>u h. url_host u = Inr h) us hs"
proof (induction us arbitrary: acc r)
  case (Cons u us)
  then obtain h where h: "url_host u = Inr h" and "fold_err (\<lambda>u hs. map_sum id (\<lambda>h. h # hs) (url_host u)) us (h # acc) = Inr r"
    by (cases "url_host u") (auto simp: id_def)
  with Cons.IH obtain hs where "r = rev hs @ h # acc" "list_all2 (\<lambda>u h. url_host u = Inr h) us hs" by blast
  with h show ?case by (intro exI [of _ "h # hs"]) simp
qed simp

lemma url_hosts_Inr: "url_hosts us = Inr hs \<Longrightarrow> list_all2 (\<lambda>u h. url_host u = Inr h) us hs"
  using url_hosts_step [of us "[]"] by (auto simp: url_hosts_def map_sum_Inr)

lemma url_hosts_host: "url_hosts us = Inr hs \<Longrightarrow> u \<in> set us \<Longrightarrow> \<exists>d \<in> set hs. url_host u = Inr d"
proof -
  have "list_all2 (\<lambda>u h. url_host u = Inr h) us hs \<Longrightarrow> u \<in> set us \<longrightarrow> (\<exists>d \<in> set hs. url_host u = Inr d)"
    by (induction rule: list_all2_induct) auto
  then show "url_hosts us = Inr hs \<Longrightarrow> u \<in> set us \<Longrightarrow> \<exists>d \<in> set hs. url_host u = Inr d"
    by (blast dest: url_hosts_Inr)
qed

lemma url_hosts_url: "url_hosts us = Inr hs \<Longrightarrow> d \<in> set hs \<Longrightarrow> \<exists>u \<in> set us. url_host u = Inr d"
proof -
  have "list_all2 (\<lambda>u h. url_host u = Inr h) us hs \<Longrightarrow> d \<in> set hs \<longrightarrow> (\<exists>u \<in> set us. url_host u = Inr d)"
    by (induction rule: list_all2_induct) auto
  then show "url_hosts us = Inr hs \<Longrightarrow> d \<in> set hs \<Longrightarrow> \<exists>u \<in> set us. url_host u = Inr d"
    by (blast dest: url_hosts_Inr)
qed

text \<open>What the configuration may contact.\<close>

definition configured_urls :: "string \<Rightarrow> env \<Rightarrow> string list" where
  "configured_urls backend env =
     [env_get env ''LEDGER_DSN''] @
     (case backend_url backend env of None \<Rightarrow> [] | Some u \<Rightarrow> if u = [] then [] else [u]) @ [env_get env ''SKI_TSA_URL'']"

lemma config_checks_hold:
  assumes "config_checks backend env n = Inr cs" and "\<not> unmet cs"
  shows "backend \<in> set sovereign_backends" and "n > 0"
    and "u \<in> set (configured_urls backend env) \<Longrightarrow>
      \<exists>h. url_host u = Inr h \<and> (h = [] \<or> is_local_host h (local_suffixes env))"
    and "\<exists>h. url_host (env_get env ''LEDGER_DSN'') = Inr h \<and> h \<noteq> [] \<and> is_local_host h (local_suffixes env)"
proof -
  obtain ledger_host where l: "url_host (env_get env ''LEDGER_DSN'') = Inr ledger_host"
    using assms(1) by (auto simp: config_checks_def Let_def split: sum.splits)
  obtain hosts where h: "url_hosts ((case backend_url backend env of None \<Rightarrow> [] | Some u \<Rightarrow> if u = [] then [] else [u]) @
      [env_get env ''SKI_TSA_URL'']) = Inr hosts"
    using assms(1) l by (auto simp: config_checks_def Let_def split: sum.splits)
  from assms l h have facts: "backend \<in> set sovereign_backends" "n > 0" "ledger_host \<noteq> [] \<and> is_local_host ledger_host (local_suffixes env)"
      "\<forall>d \<in> set hosts. d \<noteq> [] \<longrightarrow> is_local_host d (local_suffixes env)"
    by (auto simp: config_checks_def Let_def unmet_def filter_empty_conv)
  show "backend \<in> set sovereign_backends" "n > 0" by (rule facts)+
  show "\<exists>h. url_host (env_get env ''LEDGER_DSN'') = Inr h \<and> h \<noteq> [] \<and> is_local_host h (local_suffixes env)" using l facts(3) by blast
  assume "u \<in> set (configured_urls backend env)"
  then consider "u = env_get env ''LEDGER_DSN''"
    | "u \<in> set ((case backend_url backend env of None \<Rightarrow> [] | Some u \<Rightarrow> if u = [] then [] else [u]) @ [env_get env ''SKI_TSA_URL''])"
    by (auto simp: configured_urls_def)
  then show "\<exists>h. url_host u = Inr h \<and> (h = [] \<or> is_local_host h (local_suffixes env))"
  proof cases
    case 1
    with l facts(3) show ?thesis by auto
  next
    case 2
    with url_hosts_host [OF h] obtain d where "url_host u = Inr d" "d \<in> set hosts" by blast
    with facts(4) show ?thesis by auto
  qed
qed

lemma runtime_checks_hold:
  "\<not> unmet (runtime_checks env) \<longleftrightarrow>
     py_lower (py_strip (env_default env ''TLS_ENABLED'' ''true'')) = ''true'' \<and>
     py_strip (env_default env ''SKI_MODEL_WORKERS'' ''1'') = ''1''"
  by (auto simp: runtime_checks_def unmet_def)

lemma allowlist_hosts:
  assumes "egress_allowlist backend env = Inr hosts" and "h \<in> set hosts"
  shows "\<exists>u \<in> set (configured_urls backend env). \<exists>d. url_host u = Inr d \<and> d \<noteq> [] \<and> h = py_lower d"
proof (cases "url_hosts (configured_urls backend env)")
  case (Inl e)
  with assms(1) show ?thesis by (simp add: egress_allowlist_def configured_urls_def)
next
  case (Inr hs)
  with assms obtain d where "d \<in> set hs" "d \<noteq> []" "h = py_lower d"
    by (auto simp: egress_allowlist_def configured_urls_def)
  with url_hosts_url [OF Inr] show ?thesis by blast
qed

text \<open>The guard that the startup arms.\<close>

definition confined_guard :: "env \<Rightarrow> guard \<Rightarrow> bool" where
  "confined_guard env g \<longleftrightarrow>
     g_mode g = strict_mode \<and> g_armed g \<and> g_attempts g = 0 \<and>
     (\<forall>h \<in> set (g_allowlist g). \<exists>d. is_local_host d (local_suffixes env) \<and> h = normalise_host (py_lower d))"

lemma armed_guard_confined:
  assumes "config_checks backend env n = Inr cs" "\<not> unmet cs" "egress_allowlist backend env = Inr hosts"
  shows "confined_guard env (arm look (new_guard strict_mode hosts))"
proof -
  have "\<exists>d. is_local_host d (local_suffixes env) \<and> h = normalise_host (py_lower d)"
    if "h \<in> normalise_host ` set hosts" for h
    using that allowlist_hosts [OF assms(3)] config_checks_hold(3) [OF assms(1,2)] by force
  then show ?thesis
    by (auto simp: confined_guard_def arm_def new_guard_def)
qed

text \<open>A backend that counts as verified reported the digest that the operator pinned.\<close>

lemma verified_pin:
  assumes "build_backend w env site = Inr b" and "bb_verified b"
  obtains pin where "expected_model_hash env = Inr (Some pin)" "observed_digest w env site = Some pin"
    "backend_weight_hash (bb_llm b) = ''sha256:'' @ pin"
proof -
  obtain p where p: "expected_model_hash env = Inr p" using assms(1) by (cases rule: build_backend_cases) auto
  with pin_honoured [OF assms(1) p] assms(2) show thesis by (cases p) (use that in auto)
qed

text \<open>What each stage that passes in strict mode has found.\<close>

lemma strict_settings_hold:
  assumes "configure dp = Inr cf" and "cf_mode cf = strict_mode"
  shows "(\<exists>name \<in> set sovereign_backends. resolve_backend_name (dp_env dp) = Inr name \<and>
        (\<forall>u \<in> set (configured_urls name (dp_env dp)). \<exists>h. url_host u = Inr h \<and>
          (h = [] \<or> is_local_host h (local_suffixes (dp_env dp))))) \<and>
      (\<exists>policy. policy_from_env (w_crypto (dp_world dp)) (dp_read_file dp) (dp_env dp) = Inr policy \<and> anchors policy \<noteq> []) \<and>
      (\<exists>h. url_host (env_get (dp_env dp) ''LEDGER_DSN'') = Inr h \<and> h \<noteq> [] \<and> is_local_host h (local_suffixes (dp_env dp))) \<and>
      py_lower (py_strip (env_default (dp_env dp) ''TLS_ENABLED'' ''true'')) = ''true'' \<and>
      py_strip (env_default (dp_env dp) ''SKI_MODEL_WORKERS'' ''1'') = ''1''"
proof -
  note c = configure_Inr [OF assms(1)]
  obtain cs where cs: "config_checks (cf_backend cf) (dp_env dp) (length (anchors (cf_policy cf))) = Inr cs"
    "cf_checks cf = cs @ runtime_checks (dp_env dp)" using c(4) by blast
  have met: "\<not> unmet cs" "\<not> unmet (runtime_checks (dp_env dp))" using c(5) [OF assms(2)] cs(2) by simp_all
  have "anchors (cf_policy cf) \<noteq> []" using config_checks_hold(2) [OF cs(1) met(1)] by simp
  then show ?thesis using c(1,3) config_checks_hold [OF cs(1) met(1)] met(2) [unfolded runtime_checks_hold] by blast
qed

lemma strict_graph_anchored:
  assumes "graph_stage dp st cf = Inr (ld, cs)" and "cf_mode cf = strict_mode"
  shows "startup_graph dp st (cf_policy cf) = Inr ld \<and> (\<exists>kg. ld_graph ld = Some kg \<and> kg_trust_of kg = Anchored)"
proof -
  note gr = graph_stage_Inr [OF assms(1)]
  have "\<not> unmet [kg_anchored_check (map_option kg_trust_of (ld_graph ld))]" using gr(2) gr(3) [OF assms(2)] by simp
  with gr(1) show ?thesis by (auto simp: unmet_def kg_anchored_check_def)
qed

lemma strict_backend_pinned:
  assumes "backend_stage dp st mode checks = Inr (b, checks')" and "mode = strict_mode"
  shows "\<exists>b pin. build_backend (dp_world dp) (dp_env dp) (st_backend st) = Inr b \<and> bb_verified b \<and>
    expected_model_hash (dp_env dp) = Inr (Some pin) \<and> observed_digest (dp_world dp) (dp_env dp) (st_backend st) = Some pin"
proof -
  note bk = backend_stage_Inr [OF assms(1)]
  have "bb_verified b" using bk(2) bk(3) [OF assms(2)] by (auto simp: unmet_def backend_checks_def model_hash_verified_check_def)
  then show ?thesis using bk(1) verified_pin [OF bk(1)] by metis
qed

section \<open>Properties\<close>

text \<open>
  Property C34. A service that starts in strict mode runs a local model server, whose weights equal the
  operator's pin, with a Knowledge Graph that an anchor verified, over a ledger role that cannot rewrite it, with
  the TLS and the single-worker setting, and behind an armed guard whose every destination is inside the
  deployment.
\<close>

theorem strict_start_is_sovereign:
  assumes "startup dp st = (contacts, Inr sd)" and "sd_mode sd = strict_mode"
  shows "(\<exists>name \<in> set sovereign_backends. resolve_backend_name (dp_env dp) = Inr name) \<and>
    (\<exists>pin. expected_model_hash (dp_env dp) = Inr (Some pin) \<and>
       observed_digest (dp_world dp) (dp_env dp) (st_backend st) = Some pin \<and>
       map_option backend_weight_hash (sv_llm (sd_service sd)) = Some (''sha256:'' @ pin)) \<and>
    (\<exists>kg. sv_graph (sd_service sd) = Some kg \<and> kg_trust_of kg = Anchored \<and> signature_verified kg) \<and>
    (\<exists>g. sv_guard (sd_service sd) = Some g \<and> confined_guard (dp_env dp) g) \<and>
    (\<exists>r. st_role st = Role_Row r False False False) \<and> \<not> unmet (runtime_checks (dp_env dp))"
  using assms(1)
proof (cases rule: startup_Inr)
  case (1 cf ld cs cs' v5)
  note c = configure_Inr [OF 1(1)] and gr = graph_stage_Inr [OF 1(2)] and bk = backend_stage_Inr [OF 1(3)]
    and lg = ledger_stage_Inr [OF 1(5)]
  have mode: "cf_mode cf = strict_mode" using 1(7) assms(2) by simp
  obtain cs0 where cs0: "config_checks (cf_backend cf) (dp_env dp) (length (anchors (cf_policy cf))) = Inr cs0"
    "cf_checks cf = cs0 @ runtime_checks (dp_env dp)" using c(4) by blast
  have met: "\<not> unmet cs0" "\<not> unmet (runtime_checks (dp_env dp))" using c(5) [OF mode] cs0(2) by simp_all
  have "\<not> unmet [kg_anchored_check (map_option kg_trust_of (ld_graph ld))]" using gr(2,3) mode by simp
  then obtain kg where kg: "ld_graph ld = Some kg" "kg_trust_of kg = Anchored"
    by (auto simp: unmet_def kg_anchored_check_def)
  have ver: "bb_verified (sd_backend sd)" using bk(2,3) mode by (auto simp: unmet_def backend_checks_def model_hash_verified_check_def)
  obtain pin where pin: "expected_model_hash (dp_env dp) = Inr (Some pin)"
      "observed_digest (dp_world dp) (dp_env dp) (st_backend st) = Some pin"
      "backend_weight_hash (bb_llm (sd_backend sd)) = ''sha256:'' @ pin"
    by (rule verified_pin [OF bk(1) ver])
  have "\<not> unmet [fst (ledger_role_check (Some (st_role st)))]" using lg(2,3) mode by simp
  then have role_ok: "\<exists>r. st_role st = Role_Row r False False False"
    by (cases "st_role st") (auto simp: unmet_def ledger_role_check_def Let_def)
  from 1(6) obtain hosts where sv: "egress_allowlist (cf_backend cf) (dp_env dp) = Inr hosts"
    "sv_graph (sd_service sd) = ld_graph ld" "sv_llm (sd_service sd) = Some (bb_llm (sd_backend sd))"
    "sv_guard (sd_service sd) = Some (arm (st_resolver st) (new_guard (cf_mode cf) hosts))"
    by (cases rule: settings_stage_Inr) blast
  have "confined_guard (dp_env dp) (arm (st_resolver st) (new_guard (cf_mode cf) hosts))"
    unfolding mode by (rule armed_guard_confined [OF cs0(1) met(1) sv(1)])
  moreover have "signature_verified kg" using startup_graph_facts(2) [OF gr(1) kg(1)] kg(2) by simp
  ultimately show ?thesis
    using c(3) config_checks_hold(1) [OF cs0(1) met(1)] pin kg role_ok met(2) sv by auto
qed

text \<open>
  Property C35. In strict mode each dependency is contacted only after the requirements before it hold. Nothing is
  contacted, not even the graph file, unless the backend runs locally, a trust anchor is configured, the ledger
  has a local host, every configured destination is inside the deployment, and the TLS and single-worker settings
  hold; no model server is asked unless the graph is anchored; the ledger is not contacted unless the digest of
  the weights that the server runs is the operator's pin.
\<close>

theorem refusal_precedes_contact:
  assumes "resolve_mode (dp_env dp) = Inr strict_mode"
  shows "(fst (startup dp st) \<noteq> [] \<longrightarrow>
      (\<exists>name \<in> set sovereign_backends. resolve_backend_name (dp_env dp) = Inr name \<and>
        (\<forall>u \<in> set (configured_urls name (dp_env dp)). \<exists>h. url_host u = Inr h \<and>
          (h = [] \<or> is_local_host h (local_suffixes (dp_env dp))))) \<and>
      (\<exists>policy. policy_from_env (w_crypto (dp_world dp)) (dp_read_file dp) (dp_env dp) = Inr policy \<and> anchors policy \<noteq> []) \<and>
      (\<exists>h. url_host (env_get (dp_env dp) ''LEDGER_DSN'') = Inr h \<and> h \<noteq> [] \<and> is_local_host h (local_suffixes (dp_env dp))) \<and>
      py_lower (py_strip (env_default (dp_env dp) ''TLS_ENABLED'' ''true'')) = ''true'' \<and>
      py_strip (env_default (dp_env dp) ''SKI_MODEL_WORKERS'' ''1'') = ''1'') \<and>
    (Model_Backend \<in> set (fst (startup dp st)) \<longrightarrow>
      (\<exists>cf ld kg. configure dp = Inr cf \<and> startup_graph dp st (cf_policy cf) = Inr ld \<and> ld_graph ld = Some kg \<and>
        kg_trust_of kg = Anchored)) \<and>
    (Ledger_Database \<in> set (fst (startup dp st)) \<longrightarrow>
      (\<exists>b pin. build_backend (dp_world dp) (dp_env dp) (st_backend st) = Inr b \<and> bb_verified b \<and>
        expected_model_hash (dp_env dp) = Inr (Some pin) \<and> observed_digest (dp_world dp) (dp_env dp) (st_backend st) = Some pin))"
proof (cases "configure dp")
  case (Inl e)
  then show ?thesis by (simp add: startup_def)
next
  case cf: (Inr cf)
  note c = configure_Inr [OF cf] and first = strict_settings_hold [OF cf _]
  have mode: "cf_mode cf = strict_mode" using c(2) assms by simp
  show ?thesis
  proof (cases "graph_stage dp st cf")
    case (Inl e)
    with cf first [OF mode] show ?thesis by (simp add: startup_def)
  next
    case (Inr q)
    then obtain ld cs where g: "graph_stage dp st cf = Inr (ld, cs)" by (cases q) simp
    have second: "\<exists>cf ld kg. configure dp = Inr cf \<and> startup_graph dp st (cf_policy cf) = Inr ld \<and> ld_graph ld = Some kg \<and>
        kg_trust_of kg = Anchored"
      using strict_graph_anchored [OF g mode] cf by blast
    show ?thesis
    proof (cases "backend_stage dp st (cf_mode cf) cs")
      case (Inl e)
      with cf g first [OF mode] second show ?thesis by (simp add: startup_def)
    next
      case (Inr r)
      then obtain b cs' where "backend_stage dp st (cf_mode cf) cs = Inr (b, cs')" by (cases r) simp
      from strict_backend_pinned [OF this mode] first [OF mode] second show ?thesis by blast
    qed
  qed
qed

section \<open>Witnesses\<close>

definition strict_env :: env where
  "strict_env = [(''SKI_V3_LLM_BACKEND'', ''ollama''), (''SKI_MODEL_FILE_SHA256'', sample_pin),
     (''SKI_KG_TRUST_ANCHORS'', ''a.pem''), (''LEDGER_DSN'', ''postgresql://db/ski''),
     (''SKI_ALLOW_KEY_GENERATION'', ''true''), (''SKI_ENABLE_KG_HOT_LOAD'', ''true''), (''SKI_ADMIN_API_KEY'', ''k1'')]"

definition strict_deployment :: deployment where
  "strict_deployment = sample_deployment\<lparr>dp_env := strict_env,
     dp_read_file := (\<lambda>path. Some ''-----BEGIN PUBLIC KEY-----k-----END PUBLIC KEY-----'')\<rparr>"

definition current_schema :: ledger_schema where
  "current_schema = \<lparr>sc_columns = required_v3_columns @ required_v5_columns, sc_tables = v5_tables\<rparr>"

definition strict_site :: site where
  "strict_site =
     \<lparr>st_kg_file = (\<lambda>path. Kg_Document (PyDict service_document)), st_backend = sample_site sample_pin,
      st_model_signature = Inr None, st_engine = (\<lambda>dsn. True), st_reachable = True, st_schema = current_schema,
      st_may_alter = False, st_role = Role_Row ''ski_ledger_writer'' False False False, st_key = Key_Missing,
      st_fresh_key = Some sample_signer, st_tenant = (\<lambda>t. Tenant_Missing), st_buffer = (\<lambda>t. None), st_resolver = (\<lambda>h. None),
      st_db = empty_database, st_rows = []\<rparr>"

lemma graph_reading_depends:
  assumes "dp_world dp = dp_world dp'" "dp_codec dp = dp_codec dp'"
  shows "service_codec dp = service_codec dp'" "compute_kg_version_hash dp = compute_kg_version_hash dp'"
  unfolding service_codec_def compute_kg_version_hash_def graph_content_def fun_eq_iff assms by simp_all

lemma strict_deployment_fields [simp]:
  "dp_env strict_deployment = strict_env" "dp_world strict_deployment = service_world"
  "dp_codec strict_deployment = sample_codec"
  by (simp_all add: strict_deployment_def)

lemma strict_deployment_reading [simp]:
  "service_codec strict_deployment = service_codec sample_deployment"
  "compute_kg_version_hash strict_deployment = compute_kg_version_hash sample_deployment"
  by (rule graph_reading_depends; simp)+

lemma strict_site_fields [simp]:
  "st_kg_file strict_site = (\<lambda>path. Kg_Document (PyDict service_document))" "st_backend strict_site = sample_site sample_pin"
  "st_model_signature strict_site = Inr None" "st_engine strict_site = (\<lambda>dsn. True)" "st_reachable strict_site"
  "st_schema strict_site = current_schema" "st_role strict_site = Role_Row ''ski_ledger_writer'' False False False"
  "st_key strict_site = Key_Missing"
  "st_fresh_key strict_site = Some sample_signer" "st_db strict_site = empty_database"
  by (simp_all add: strict_site_def)

lemma strict_configured:
  obtains cf where "configure strict_deployment = Inr cf" "cf_policy cf = anchor_policy" "cf_mode cf = strict_mode"
    "cf_backend cf = ''ollama''" "\<not> unmet (cf_checks cf)"
proof -
  have "case configure strict_deployment of Inl _ \<Rightarrow> False
    | Inr cf \<Rightarrow> cf_policy cf = anchor_policy \<and> cf_mode cf = strict_mode \<and> cf_backend cf = ''ollama'' \<and> \<not> unmet (cf_checks cf)"
    by code_simp
  then show thesis using that by (cases "configure strict_deployment") auto
qed

lemma strict_document:
  obtains kg h where "from_dict (w_crypto service_world) (service_codec sample_deployment) service_document True anchor_policy = Inr kg"
    "compute_kg_version_hash sample_deployment service_document = Inr h" "require_graph_shape strict_env kg = Inr ()"
    "has_key service_document ''signature''" "kg_trust_of kg = Anchored"
proof -
  obtain sv kg h where c: "checked_graph sample_deployment (Some anchor_policy) service_document = Inr (kg, h)"
    by (rule sample_load [of "sample_service empty_database"]) simp_all
  then obtain policy where kg: "from_dict (w_crypto service_world) (service_codec sample_deployment) service_document True anchor_policy = Inr kg"
    "compute_kg_version_hash sample_deployment service_document = Inr h" "require_graph_shape [] kg = Inr ()"
    by (rule checked_graph_Inr) auto
  have "has_key service_document ''signature''" by code_simp
  moreover have "require_graph_shape strict_env kg = Inr ()"
    using kg(3) by (auto simp: require_graph_shape_def env_true_def env_get_def py_strip_def py_lstrip_def split: if_splits)
  moreover have "kg_trust_of kg = Anchored"
    using trust_of_anchored [OF from_dict_trust(1) [OF kg(1)]] by (simp add: anchor_policy_def)
  ultimately show thesis using that kg(1,2) by blast
qed

lemma strict_graph:
  obtains kg ld where "startup_graph strict_deployment strict_site anchor_policy = Inr ld" "ld_graph ld = Some kg"
    "kg_trust_of kg = Anchored"
proof -
  obtain kg h where kg: "from_dict (w_crypto service_world) (service_codec sample_deployment) service_document True anchor_policy = Inr kg"
    "compute_kg_version_hash sample_deployment service_document = Inr h" "require_graph_shape strict_env kg = Inr ()"
    "kg_trust_of kg = Anchored" by (rule strict_document)
  from registry_total [OF kg(1)] obtain registry where registry: "registry_from_dict (kg_tag_registry kg) (kg_rules kg) = Inr registry"
    by blast
  have "kg_requires_signature strict_env" by code_simp
  with kg registry show thesis
    by (intro that [of "\<lparr>ld_graph = Some kg, ld_hash = h, ld_registry = Some registry\<rparr>" kg]) (simp_all add: startup_graph_def)
qed

lemma strict_backend:
  obtains b where "build_backend service_world strict_env (sample_site sample_pin) = Inr b" "bb_verified b"
    "bb_source b = ''verified-backend-digest''"
proof -
  have pin: "expected_model_hash strict_env = Inr (Some sample_pin)" by code_simp
  have "resolve_backend_name strict_env = Inr ''ollama''" by code_simp
  moreover have "numbers_read strict_env (sample_site sample_pin) ''512'' (env_default strict_env ''SKI_OLLAMA_TIMEOUT_S'' ''60'')"
    by code_simp
  moreover have "weights_digest_from_modelfile
      (PyStr (''# weights'' @ [CHR 0x0A] @ ''FROM /models/blobs/sha256-'' @ sample_pin)) = Some sample_pin"
    by code_simp
  ultimately show thesis
    using pin that [of "real_backend (sample_site sample_pin) ''OllamaV3Backend'' ''ollama-v3''
       (env_default strict_env ''SKI_MODEL_NAME'' ''qwen2.5:7b-instruct'')
       \<lparr>mh_hash = ''sha256:'' @ sample_pin, mh_verified = True, mh_source = ''verified-backend-digest''\<rparr>"]
    by (simp add: build_backend_def Let_def resolve_ollama_hash_def sample_site_def dget_def truthy.simps check_pin_def)
qed

lemma strict_ledger:
  "ensure_v3_ledger_schema strict_env False current_schema = Inr current_schema"
  "ensure_v5_ledger_schema strict_env False current_schema = (True, current_schema)"
  by (simp_all add: ensure_v3_ledger_schema_def ensure_v5_ledger_schema_def missing_v3_columns_def has_v5_schema_def current_schema_def
      list_all_iff)

lemma strict_key: "provision_signer strict_env Key_Missing empty_database (Some sample_signer) = Inr sample_signer"
proof -
  have "py_lower (py_strip (env_get strict_env ''SKI_ALLOW_KEY_GENERATION'')) = ''true''" by code_simp
  then show ?thesis by (simp add: provision_signer_def auto_provision_def has_signed_transcripts_def empty_database_def)
qed

lemma strict_settings:
  assumes "cf_backend cf = ''ollama''"
  obtains sv where "settings_stage strict_deployment strict_site cf ld b True = Inr sv"
proof -
  have "py_int (env_default strict_env ''SKI_LEDGER_CHECKPOINT_EVERY'' ''1000'') = Some 1000"
    "py_int (env_default strict_env ''SKI_MODEL_SEED'' ''0'') = Some 0"
    "py_int (env_default strict_env ''SKI_AGREEMENT_WINDOW'' ''1000'') = Some 1000" by code_simp+
  moreover have "new_monitor 1000 (Fin 1) = Inr \<lparr>window_size = 1000, threshold = Fin 1, recorded = []\<rparr>"
    by (simp add: new_monitor_def)
  moreover note strict_key
  moreover obtain hosts where "egress_allowlist ''ollama'' strict_env = Inr hosts"
  proof -
    have "case egress_allowlist ''ollama'' strict_env of Inl _ \<Rightarrow> False | Inr _ \<Rightarrow> True" by code_simp
    then show thesis using that by (cases "egress_allowlist ''ollama'' strict_env") auto
  qed
  moreover have "bs_float (sample_site sample_pin) x = Some (Fin 1)" for x by (simp add: sample_site_def)
  ultimately show thesis using that assms by (simp add: settings_stage_def Let_def)
qed

lemma strict_startup:
  obtains sd where "startup strict_deployment strict_site = ([Graph_File, Model_Backend, Ledger_Database], Inr sd)"
    "sd_mode sd = strict_mode" "sv_ledger (sd_service sd) = Some sample_client" "sv_signer (sd_service sd) = Some sample_signer"
proof -
  obtain cf where cf: "configure strict_deployment = Inr cf" "cf_policy cf = anchor_policy" "cf_mode cf = strict_mode"
    "cf_backend cf = ''ollama''" "\<not> unmet (cf_checks cf)" by (rule strict_configured)
  obtain kg ld where ld: "startup_graph strict_deployment strict_site anchor_policy = Inr ld" "ld_graph ld = Some kg"
    "kg_trust_of kg = Anchored" by (rule strict_graph)
  obtain b where b: "build_backend service_world strict_env (sample_site sample_pin) = Inr b" "bb_verified b"
    "bb_source b = ''verified-backend-digest''" by (rule strict_backend)
  obtain sv where sv: "settings_stage strict_deployment strict_site cf ld b True = Inr sv" by (rule strict_settings [OF cf(4)])
  define cs where "cs = cf_checks cf @ [kg_anchored_check (Some Anchored)]"
  have cs: "\<not> unmet cs" using cf(5) by (simp add: cs_def unmet_def kg_anchored_check_def)
  have g: "graph_stage strict_deployment strict_site cf = Inr (ld, cs)"
    using ld cf(2) cs by (simp add: graph_stage_def cs_def refused_Inr unmet_def [symmetric])
  define ds where "ds = cs @ backend_checks b @ [model_signature_check None]"
  have ds: "\<not> unmet ds"
    using cs b by (simp add: ds_def backend_checks_def unmet_def model_hash_check_def registered_hash_sources_def
        model_hash_verified_check_def model_signature_check_def not_evaluated_def)
  have s: "backend_stage strict_deployment strict_site strict_mode cs = Inr (b, ds)"
    using b(1) ds by (simp add: backend_stage_def ds_def refused_Inr unmet_def [symmetric])
  have o: "open_ledger strict_deployment strict_site = Inr ()"
    by (simp add: open_ledger_def strict_env_def env_get_def)
  have "enforce strict_mode (ds @ [\<lparr>ck_id = ''ledger_least_privilege'', ck_ok = Some True\<rparr>]) = Inr ()"
    using ds by (simp add: enforce_Inr unmet_def)
  then have l: "\<exists>role_name es. ledger_stage strict_deployment strict_site strict_mode ds = Inr (True, role_name, es)"
    using strict_ledger by (simp add: ledger_stage_def ledger_role_check_def Let_def strict_site_def)
  from sv obtain t where t: "provision_signer strict_env Key_Missing empty_database (Some sample_signer) = Inr t"
    "sv_ledger sv = Some (startup_client strict_env True t)" "sv_signer sv = Some t"
    by (cases rule: settings_stage_Inr) simp_all
  have "t = sample_signer" using t(1) strict_key by simp
  moreover have "startup_client strict_env True sample_signer = sample_client"
    by (simp add: startup_client_def sample_client_def strict_env_def env_default_def)
  ultimately have "sv_ledger sv = Some sample_client" "sv_signer sv = Some sample_signer" using t(2,3) by simp_all
  with l show thesis using cf g s o sv that by (auto simp: startup_def)
qed

theorem strict_start_is_sovereign_witness:
  "\<exists>contacts sd kg. startup strict_deployment strict_site = (contacts, Inr sd) \<and>
     sv_graph (sd_service sd) = Some kg \<and> kg_trust_of kg = Anchored"
proof (rule strict_startup )
  fix sd
  assume run: "startup strict_deployment strict_site = ([Graph_File, Model_Backend, Ledger_Database], Inr sd)"
    and "sd_mode sd = strict_mode"
  from strict_start_is_sovereign [OF this] run show ?thesis by blast
qed

theorem refusal_precedes_contact_witness:
  "resolve_mode (dp_env strict_deployment) = Inr strict_mode \<and>
   Ledger_Database \<in> set (fst (startup strict_deployment strict_site)) \<and>
   (\<exists>b. build_backend service_world strict_env (sample_site sample_pin) = Inr b \<and> bb_verified b)"
proof -
  have mode: "resolve_mode (dp_env strict_deployment) = Inr strict_mode" unfolding strict_deployment_fields by code_simp
  obtain sd where "startup strict_deployment strict_site = ([Graph_File, Model_Backend, Ledger_Database], Inr sd)"
    by (rule strict_startup)
  then have c: "Ledger_Database \<in> set (fst (startup strict_deployment strict_site))" by simp
  from refusal_precedes_contact [OF mode, of strict_site] c
  have "\<exists>b. build_backend (dp_world strict_deployment) (dp_env strict_deployment) (st_backend strict_site) = Inr b \<and> bb_verified b"
    by blast
  with mode c show ?thesis by simp
qed

text \<open>
  Property C36. From the startup to any later state: a service that starts over an empty ledger, or over one that
  such a service has written with the same key, keeps a ledger that the audit accepts, whatever runs and in any
  order; graph, hash and provenance agree; and with anchors every graph it serves is anchored.
\<close>

theorem started_service_is_audited:
  assumes "startup dp st = (contacts, Inr sd)" and "service_run dp authority (sd_service sd, []) sys"
    and "sv_ledger (sd_service sd) = Some cl" "format5 cl" "sv_signer (sd_service sd) = Some s"
    and "st_db st = empty_database \<or> ledger_run (dp_world dp) cl s authority (st_db st)"
    and "transcript_law (dp_world dp)" "storage_laws (dp_world dp)" "honest_signer (dp_world dp) s"
    and "audits_run s authority (sv_db (fst sys)) q"
  shows "accepted (dp_world dp) q (sv_db (fst sys)) \<and> graph_agrees (fst sys) \<and>
    (\<forall>policy. sv_policy (sd_service sd) = Some policy \<longrightarrow> anchors policy \<noteq> [] \<longrightarrow> serves_anchored policy (fst sys))"
proof -
  obtain s' where s': "sv_signer (sd_service sd) = Some s'" "clean_service (sd_service sd) cl s'"
    "sv_db (sd_service sd) = register_signing_key s' (st_db st)"
    using assms(1,3,4) by (rule startup_clean)
  then have [simp]: "s' = s" using assms(5) by simp
  have "ledger_run (dp_world dp) cl s authority (sv_db (sd_service sd))"
    using assms(6) s'(3) by (auto intro: ledger_run.start ledger_run.restart)
  with s'(2) have "sound_system dp authority cl s (sd_service sd, [])" by (simp add: sound_system_def)
  from run_sound [OF assms(2,7) this]
  have "ledger_run (dp_world dp) cl s authority (sv_db (fst sys))" "key_signer cl = Some s"
    by (simp_all add: sound_system_def clean_service_def)
  with assms(4,8,9,10) have "accepted (dp_world dp) q (sv_db (fst sys))" by (intro honest_run_accepted)
  moreover obtain sv ts where [simp]: "sys = (sv, ts)" by (cases sys)
  have "graph_agrees (fst sys)" using run_agrees [OF assms(2)] startup_graph_agrees(1) [OF assms(1)] by simp
  moreover have "serves_anchored policy (fst sys)"
    if "sv_policy (sd_service sd) = Some policy" "anchors policy \<noteq> []" for policy
    using run_anchored [OF assms(2) that startup_graph_agrees(3) [OF assms(1) that]] by simp
  ultimately show ?thesis by blast
qed

theorem started_service_is_audited_witness:
  "\<exists>sd sv. startup strict_deployment strict_site = ([Graph_File, Model_Backend, Ledger_Database], Inr sd) \<and>
     service_run strict_deployment (\<lambda>m. []) (sd_service sd, []) (sv, []) \<and>
     accepted service_world (sample_audit []) (sv_db sv) \<and> graph_agrees sv"
proof (rule strict_startup )
  fix sd
  assume sd: "startup strict_deployment strict_site = ([Graph_File, Model_Backend, Ledger_Database], Inr sd)"
    "sv_ledger (sd_service sd) = Some sample_client" "sv_signer (sd_service sd) = Some sample_signer"
  obtain sv outcome where l: "load_kg strict_deployment service_document (sd_service sd) = (sv, outcome)"
    by (cases "load_kg strict_deployment service_document (sd_service sd)")
  have run: "service_run strict_deployment (\<lambda>m. []) (sd_service sd, []) (sv, [])"
    by (rule service_run.step [OF service_run.initial service_step.load [OF l]])
  have "storage_laws service_world" by (simp add: storage_laws_def)
  moreover have "honest_signer service_world sample_signer" using sample_signer_honest by (simp add: honest_signer_def)
  moreover have "format5 sample_client" by (simp add: sample_client_def)
  moreover have "audits_run sample_signer (\<lambda>m. []) (sv_db (fst (sv, []))) (sample_audit [])"
    by (rule sample_audits_run) simp
  ultimately have "accepted service_world (sample_audit []) (sv_db sv) \<and> graph_agrees sv"
    using started_service_is_audited [OF sd(1) run sd(2) _ sd(3), of "sample_audit []"] service_transcripts by simp
  with sd(1) run show ?thesis by blast
qed

text \<open>
  A lost transcript key is never replaced: a service that starts without a key file runs over a
  ledger that holds no signed transcript, and only where the operator allowed a key to be generated.
\<close>

theorem lost_key_is_not_replaced:
  assumes "startup dp st = (contacts, Inr sd)" and "st_key st = Key_Missing"
  shows "\<not> has_signed_transcripts (st_db st) \<and> sv_signer (sd_service sd) = st_fresh_key st \<and>
    py_lower (py_strip (env_get (dp_env dp) ''SKI_ALLOW_KEY_GENERATION'')) = ''true''"
  using assms(1)
proof (cases rule: startup_Inr)
  case (1 cf ld cs cs' v5)
  from 1(6) obtain s where "provision_signer (dp_env dp) (st_key st) (st_db st) (st_fresh_key st) = Inr s"
    "sv_signer (sd_service sd) = Some s" by (cases rule: settings_stage_Inr) blast
  with assms(2) show ?thesis
    by (auto simp: provision_signer_def auto_provision_def split: if_splits option.splits)
qed

theorem lost_key_is_not_replaced_witness:
  "\<exists>contacts sd. startup strict_deployment strict_site = (contacts, Inr sd) \<and> sv_signer (sd_service sd) = Some sample_signer \<and>
     \<not> has_signed_transcripts empty_database"
proof (rule strict_startup)
  fix sd
  assume run: "startup strict_deployment strict_site = ([Graph_File, Model_Backend, Ledger_Database], Inr sd)"
  from lost_key_is_not_replaced [OF this] run show ?thesis by auto
qed

text \<open>
  The migrations of the ledger only add: after a successful first migration every v3 column is
  there and repeating it under any settings changes nothing; the second reports format 5 exactly when the schema
  has it; neither drops a column or a table.
\<close>

theorem migrations_only_add:
  assumes "ensure_v3_ledger_schema env may_alter sc = Inr sc1" and "ensure_v5_ledger_schema env may_alter sc1 = (v5, sc2)"
  shows "missing_v3_columns sc2 = [] \<and> ensure_v3_ledger_schema env' may_alter' sc2 = Inr sc2 \<and> (v5 \<longleftrightarrow> has_v5_schema sc2) \<and>
    ensure_v5_ledger_schema env may_alter sc2 = (v5, sc2) \<and>
    set (sc_columns sc) \<subseteq> set (sc_columns sc2) \<and> set (sc_tables sc) \<subseteq> set (sc_tables sc2)"
proof -
  have added: "set (add_missing wanted present) = set wanted \<union> set present" for wanted present
    by (auto simp: add_missing_def)
  have v3: "missing_v3_columns sc1 = []" "set (sc_columns sc) \<subseteq> set (sc_columns sc1)" "sc_tables sc1 = sc_tables sc"
    using assms(1) added by (auto simp: ensure_v3_ledger_schema_def apply_0002_def Let_def split: if_splits)
  have v5: "set (sc_columns sc1) \<subseteq> set (sc_columns sc2)" "set (sc_tables sc1) \<subseteq> set (sc_tables sc2)" "v5 \<longleftrightarrow> has_v5_schema sc2"
    "ensure_v5_ledger_schema env may_alter sc2 = (v5, sc2)"
    using assms(2) added
    by (auto simp: ensure_v5_ledger_schema_def apply_0003_def has_v5_schema_def list_all_iff Let_def split: if_splits)
  have "missing_v3_columns sc2 = []" using v3(1) v5(1) by (auto simp: missing_v3_columns_def filter_empty_conv)
  with v3 v5 show ?thesis by (auto simp: ensure_v3_ledger_schema_def)
qed

theorem migrations_only_add_witness:
  "\<exists>sc2. ensure_v3_ledger_schema [] True \<lparr>sc_columns = [''track''], sc_tables = []\<rparr> = Inr sc2 \<and> missing_v3_columns sc2 = [] \<and>
     snd (ensure_v5_ledger_schema [] False sc2) = sc2"
proof -
  let ?sc = "\<lparr>sc_columns = [''track''], sc_tables = []\<rparr>"
  have "case ensure_v3_ledger_schema [] True ?sc of Inl _ \<Rightarrow> False | Inr _ \<Rightarrow> True" by code_simp
  then obtain sc1 where one: "ensure_v3_ledger_schema [] True ?sc = Inr sc1" by (cases "ensure_v3_ledger_schema [] True ?sc") auto
  obtain v5 sc2 where two: "ensure_v5_ledger_schema [] True sc1 = (v5, sc2)" by (cases "ensure_v5_ledger_schema [] True sc1")
  have "missing_v3_columns ?sc \<noteq> []" by code_simp
  with one have "sc1 = apply_0002 ?sc" by (auto simp: ensure_v3_ledger_schema_def Let_def split: if_splits)
  moreover have "\<not> has_v5_schema (apply_0002 ?sc)" "missing_v3_columns (apply_0002 ?sc) = []" by code_simp+
  moreover have "missing_v3_columns sc2 = []" using migrations_only_add [OF one two] by blast
  ultimately show ?thesis using one by (auto simp: ensure_v5_ledger_schema_def)
qed

text \<open>
  Property C37. The graph in force changes through the API only for the holder of the admin key: a request that
  changes the service was made with hot-loading enabled and with a key that is set and differs from the key of
  the evaluation endpoint, and carried a document that passes every check of a load.
\<close>

theorem graph_change_needs_admin_key:
  assumes "post_kg_load dp given data sv = (sv', code)" and "sv' \<noteq> sv"
  shows "kg_hot_load_enabled (dp_env dp) \<and>
    (\<exists>k. given = Some k \<and> k \<noteq> [] \<and> k = env_get (dp_env dp) ''SKI_ADMIN_API_KEY'' \<and> k \<noteq> env_get (dp_env dp) ''API_KEY'') \<and>
    (\<exists>kg h. checked_graph dp (sv_policy sv) data = Inr (kg, h) \<and> sv_graph sv' = Some kg \<and> code = 200)"
proof -
  from assms have auth: "require_kg_admin (dp_env dp) given = Inr ()"
    by (auto simp: post_kg_load_def split: sum.splits)
  then obtain k where "kg_admin_api_key (dp_env dp) = Inr k" "given = Some k" "kg_hot_load_enabled (dp_env dp)"
    by (auto simp: require_kg_admin_def split: sum.splits if_splits)
  moreover from this have "k \<noteq> []" "k = env_get (dp_env dp) ''SKI_ADMIN_API_KEY''" "k \<noteq> env_get (dp_env dp) ''API_KEY''"
    by (auto simp: kg_admin_api_key_def Let_def split: if_splits)
  moreover obtain outcome where l: "load_kg dp data sv = (sv', outcome)"
      and code: "code = (case outcome of Inr _ \<Rightarrow> 200 | Inl (Some _) \<Rightarrow> 400 | Inl None \<Rightarrow> 500)"
    using assms(1) auth by (auto simp: post_kg_load_def split: prod.splits)
  ultimately show ?thesis
    using load_outcomes [OF l] assms(2) by (auto split: sum.splits option.splits)
qed

theorem graph_change_needs_admin_key_witness:
  "\<exists>sv kg. post_kg_load strict_deployment (Some ''k1'') service_document ((sample_service empty_database)\<lparr>sv_graph := None\<rparr>) = (sv, 200) \<and>
     sv_graph sv = Some kg"
proof -
  let ?sv = "(sample_service empty_database)\<lparr>sv_graph := None\<rparr>"
  obtain kg h where "from_dict (w_crypto service_world) (service_codec sample_deployment) service_document True anchor_policy = Inr kg"
    "compute_kg_version_hash sample_deployment service_document = Inr h" "require_graph_shape strict_env kg = Inr ()"
    "has_key service_document ''signature''" by (rule strict_document)
  then have checked: "checked_graph strict_deployment (Some anchor_policy) service_document = Inr (kg, h)"
    by (simp add: checked_graph_def)
  obtain sv outcome where l: "load_kg strict_deployment service_document ?sv = (sv, outcome)"
    by (cases "load_kg strict_deployment service_document ?sv")
  have policy: "sv_policy ?sv = Some anchor_policy" by simp
  from load_outcomes [OF l] checked policy have sv: "sv_graph sv = Some kg" by (auto split: sum.splits option.splits)
  have "require_kg_admin strict_env (Some ''k1'') = Inr ()" by code_simp
  with l obtain code where post: "post_kg_load strict_deployment (Some ''k1'') service_document ?sv = (sv, code)"
    by (auto simp: post_kg_load_def)
  have "sv \<noteq> ?sv" using sv by auto
  from graph_change_needs_admin_key [OF post this] post sv show ?thesis by auto
qed

text \<open>
  The TLS check of the startup and the server read the setting differently: with a trailing space in
  it the check holds and the server serves plain HTTP.
\<close>

theorem tls_check_passes_in_plaintext:
  "\<not> unmet (runtime_checks [(''TLS_ENABLED'', ''true '')]) \<and> serves_tls [(''TLS_ENABLED'', ''true '')] = Some False"
  by code_simp

end
