(* ===== verification/Symbolic_Evaluator.thy ===== *)
theory Symbolic_Evaluator
  imports Py_Number Evaluator KG_Loader
begin

text \<open>
  The evaluator of symbolic rules (\<open>symbolic_evaluator/evaluator.py\<close>): stateless operators, operators over the
  telemetry buffer, and the freshness gate of a rule.

  A decision is a verdict with a reason; a reason is one constructor per message. The buffer is a record of its
  three queries, \<open>Inl\<close> where one raises. \<open>Inl\<close> of the evaluation is an exception that leaves it.
\<close>

section \<open>Types\<close>

datatype rule_reason =
    NoPredicate
  | StatefulInSync
  | FreshnessInSync
  | FreshnessWithoutBuffer
  | FreshnessFailed
  | NotFresh
  | StatefulWithoutBuffer
  | StatefulFailed
  | MetricAbsent
  | RuleUnitMismatch py py
  | Satisfied
  | Breached
  | PredicateRaised
  | UnknownOperator
  | UnknownComparison
  | NoWindowValues
  | NoPriorRecord
  | Debounced
  | DuplicateEvent

record decision =
  dn_verdict :: verdict
  dn_reason :: rule_reason

abbreviation decide_as :: "verdict \<Rightarrow> rule_reason \<Rightarrow> decision" where
  "decide_as v r \<equiv> \<lparr>dn_verdict = v, dn_reason = r\<rparr>"

datatype rule_error = Rule_TypeError | Rule_ValueError | Rule_OverflowError | Rule_KeyError | Rule_AttributeError | Rule_BufferError

fun rule_error_of :: "number_error \<Rightarrow> rule_error" where
  "rule_error_of Number_TypeError = Rule_TypeError"
| "rule_error_of Number_ValueError = Rule_ValueError"
| "rule_error_of Number_OverflowError = Rule_OverflowError"

record window_totals =
  wt_count :: nat
  wt_sum :: "pyfloat option"
  wt_avg :: "pyfloat option"

record rule_buffer =
  rb_window :: "py \<Rightarrow> iso_time \<Rightarrow> int \<Rightarrow> py \<Rightarrow> unit + window_totals"
  rb_last :: "py \<Rightarrow> iso_time \<Rightarrow> unit + int option"
  rb_fresh :: "py \<Rightarrow> iso_time \<Rightarrow> int \<Rightarrow> unit + bool"

section \<open>Operators\<close>

definition numeric_ops :: "string list" where
  "numeric_ops = [''lte'', ''gte'', ''lt'', ''gt'', ''eq'', ''range'', ''between'']"

definition set_ops :: "string list" where
  "set_ops = [''in_set'', ''not_in_set'']"

definition window_ops :: "string list" where
  "window_ops = [''window_count'', ''window_sum'', ''window_avg'']"

definition temporal_ops :: "string list" where
  "temporal_ops = [''since_last'', ''debounce'']"

definition stateful_ops :: "string list" where
  "stateful_ops = window_ops @ temporal_ops"

definition comparators :: "(string \<times> (pyfloat \<Rightarrow> pyfloat \<Rightarrow> bool)) list" where
  "comparators =
     [(''lte'', float_le), (''lt'', float_less), (''gte'', \<lambda>a b. float_le b a), (''gt'', \<lambda>a b. float_less b a), (''eq'', float_eq)]"

definition bool_to_decision :: "bool \<Rightarrow> decision" where
  "bool_to_decision ok = (if ok then decide_as CLEAR Satisfied else decide_as FLAG Breached)"

definition compare_to :: "py \<Rightarrow> pyfloat \<Rightarrow> pyfloat \<Rightarrow> rule_error + decision" where
  "compare_to cmp seen target =
     (if \<not> hashable cmp then Inl Rule_TypeError
      else (case Option.bind (str_of cmp) (map_of comparators) of
          None \<Rightarrow> Inr (decide_as DISCRETIONARY UnknownComparison)
        | Some f \<Rightarrow> Inr (bool_to_decision (f seen target))))"

text \<open>\<open>predicate[k]\<close>, and \<open>float(predicate[k])\<close>.\<close>

definition float_field :: "float_reader \<Rightarrow> obj \<Rightarrow> string \<Rightarrow> rule_error + pyfloat" where
  "float_field fl pred k =
     (case map_of pred k of
        None \<Rightarrow> Inl Rule_KeyError
      | Some v \<Rightarrow> map_sum rule_error_of id (to_float fl v))"

definition int_field :: "obj \<Rightarrow> string \<Rightarrow> rule_error + int" where
  "int_field pred k =
     (case map_of pred k of None \<Rightarrow> Inl Rule_KeyError | Some v \<Rightarrow> map_sum rule_error_of id (to_int v))"

section \<open>Stateless rules\<close>

fun lookup_path :: "py \<Rightarrow> string list \<Rightarrow> py" where
  "lookup_path cur [] = cur"
| "lookup_path cur (part # parts) =
     (case cur of
        PyDict d \<Rightarrow> (case map_of d part of None \<Rightarrow> PyNone | Some v \<Rightarrow> lookup_path v parts)
      | _ \<Rightarrow> PyNone)"

text \<open>\<open>_lookup\<close>: a falsy path is the whole object.\<close>

definition lookup_metric :: "py \<Rightarrow> py \<Rightarrow> rule_error + py" where
  "lookup_metric measurement dotted =
     (if \<not> truthy dotted then Inr measurement
      else (case dotted of
          PyStr s \<Rightarrow> Inr (lookup_path measurement (py_split (CHR ''.'') s))
        | _ \<Rightarrow> Inl Rule_AttributeError))"

definition value_and_unit :: "py \<Rightarrow> py \<times> py" where
  "value_and_unit seen =
     (case seen of
        PyDict d \<Rightarrow> if has_key d ''value'' then (dget d ''value'', dget d ''unit'') else (seen, PyNone)
      | _ \<Rightarrow> (seen, PyNone))"

definition eval_numeric :: "float_reader \<Rightarrow> string \<Rightarrow> obj \<Rightarrow> py \<Rightarrow> rule_error + decision" where
  "eval_numeric fl name pred seen =
     (case map_sum rule_error_of id (to_float fl seen) of
        Inl e \<Rightarrow> Inl e
      | Inr x \<Rightarrow>
          (case map_of comparators name of
             Some f \<Rightarrow> map_sum id (\<lambda>limit. bool_to_decision (f x limit)) (float_field fl pred ''value'')
           | None \<Rightarrow>
               (case float_field fl pred ''min'' of
                  Inl e \<Rightarrow> Inl e
                | Inr lo \<Rightarrow>
                    map_sum id (\<lambda>hi. bool_to_decision (float_le lo x \<and> float_le x hi)) (float_field fl pred ''max''))))"

definition eval_set :: "string \<Rightarrow> obj \<Rightarrow> py \<Rightarrow> rule_error + decision" where
  "eval_set name pred seen =
     (case (if truthy (dget pred ''value'') then dget pred ''value'' else PyList []) of
        PyList allowed \<Rightarrow>
          (let in_set = py_in seen allowed in
           Inr (bool_to_decision (if name = ''in_set'' then in_set else \<not> in_set)))
      | _ \<Rightarrow> Inl Rule_TypeError)"

text \<open>\<open>TypeError\<close> and \<open>ValueError\<close> of the operator go to a human reviewer; other exceptions leave the evaluation.\<close>

definition reviewed :: "rule_error + decision \<Rightarrow> rule_error + decision" where
  "reviewed r =
     (case r of
        Inl e \<Rightarrow> if e \<in> {Rule_TypeError, Rule_ValueError} then Inr (decide_as DISCRETIONARY PredicateRaised) else Inl e
      | Inr d \<Rightarrow> Inr d)"

definition apply_operator :: "float_reader \<Rightarrow> obj \<Rightarrow> py \<Rightarrow> rule_error + decision" where
  "apply_operator fl pred seen =
     (let op = dget pred ''operator'' in
      if \<not> hashable op then Inl Rule_TypeError
      else (case op of
          PyStr name \<Rightarrow>
            if name \<in> set numeric_ops then eval_numeric fl name pred seen
            else if name \<in> set set_ops then eval_set name pred seen
            else if name = ''exists'' then Inr (decide_as CLEAR Satisfied)
            else Inr (decide_as DISCRETIONARY UnknownOperator)
        | _ \<Rightarrow> Inr (decide_as DISCRETIONARY UnknownOperator)))"

definition evaluate_stateless :: "float_reader \<Rightarrow> obj \<Rightarrow> obj \<Rightarrow> rule_error + decision" where
  "evaluate_stateless fl rule telemetry =
     (case dget rule ''predicate'' of
        PyDict pred \<Rightarrow>
          (case lookup_metric (dget_default telemetry ''measurement'' (PyDict [])) (dget_default pred ''metric'' (PyStr [])) of
             Inl e \<Rightarrow> Inl e
           | Inr PyNone \<Rightarrow> Inr (decide_as NULL_UNMAPPED MetricAbsent)
           | Inr seen \<Rightarrow>
               (let (v, unit) = value_and_unit seen; wanted = dget pred ''unit'' in
                if truthy wanted \<and> truthy unit \<and> \<not> py_eq unit wanted
                then Inr (decide_as DISCRETIONARY (RuleUnitMismatch wanted unit))
                else reviewed (apply_operator fl pred v)))
      | _ \<Rightarrow> Inr (decide_as DISCRETIONARY NoPredicate))"

section \<open>Stateful rules\<close>

text \<open>\<open>(as_of - last_ts).total_seconds()\<close>; the double is taken as exact. The buffer's times are aware.\<close>

definition elapsed_seconds :: "iso_time \<Rightarrow> int \<Rightarrow> rule_error + rat" where
  "elapsed_seconds as_of last_ts =
     (case as_of of Aware t \<Rightarrow> Inr (of_int (t - last_ts) / 1000000) | Naive \<Rightarrow> Inl Rule_TypeError)"

definition queried :: "unit + 'a \<Rightarrow> rule_error + 'a" where
  "queried r = map_sum (\<lambda>_. Rule_BufferError) id r"

definition window_decision :: "string \<Rightarrow> py \<Rightarrow> pyfloat \<Rightarrow> window_totals \<Rightarrow> rule_error + decision" where
  "window_decision name cmp target wt =
     (if name = ''window_count'' then compare_to cmp (Fin (of_nat (wt_count wt))) target
      else (case (if name = ''window_sum'' then wt_sum wt else wt_avg wt) of
          None \<Rightarrow> Inr (decide_as NULL_UNMAPPED NoWindowValues)
        | Some x \<Rightarrow> compare_to cmp x target))"

definition evaluate_window ::
  "float_reader \<Rightarrow> obj \<Rightarrow> string \<Rightarrow> py \<Rightarrow> iso_time \<Rightarrow> rule_buffer \<Rightarrow> rule_error + decision" where
  "evaluate_window fl pred name subject as_of buf =
     (case int_field pred ''seconds'' of
        Inl e \<Rightarrow> Inl e
      | Inr seconds \<Rightarrow>
     (case float_field fl pred ''value'' of
        Inl e \<Rightarrow> Inl e
      | Inr target \<Rightarrow>
     (case queried (rb_window buf subject as_of seconds (dget pred ''metric'')) of
        Inl e \<Rightarrow> Inl e
      | Inr wt \<Rightarrow> window_decision name (dget_default pred ''op'' (PyStr ''lte'')) target wt)))"

definition evaluate_since_last ::
  "float_reader \<Rightarrow> obj \<Rightarrow> py \<Rightarrow> iso_time \<Rightarrow> rule_buffer \<Rightarrow> rule_error + decision" where
  "evaluate_since_last fl pred subject as_of buf =
     (case float_field fl pred ''value_seconds'' of
        Inl e \<Rightarrow> Inl e
      | Inr limit \<Rightarrow>
     (case queried (rb_last buf subject as_of) of
        Inl e \<Rightarrow> Inl e
      | Inr None \<Rightarrow> Inr (decide_as NULL_UNMAPPED NoPriorRecord)
      | Inr (Some last_ts) \<Rightarrow>
          (case elapsed_seconds as_of last_ts of
             Inl e \<Rightarrow> Inl e
           | Inr s \<Rightarrow> compare_to (dget_default pred ''op'' (PyStr ''gte'')) (Fin s) limit)))"

definition evaluate_debounce :: "obj \<Rightarrow> py \<Rightarrow> iso_time \<Rightarrow> rule_buffer \<Rightarrow> rule_error + decision" where
  "evaluate_debounce pred subject as_of buf =
     (case int_field pred ''seconds'' of
        Inl e \<Rightarrow> Inl e
      | Inr seconds \<Rightarrow>
     (case queried (rb_last buf subject as_of) of
        Inl e \<Rightarrow> Inl e
      | Inr None \<Rightarrow> Inr (decide_as CLEAR Debounced)
      | Inr (Some last_ts) \<Rightarrow>
          (case elapsed_seconds as_of last_ts of
             Inl e \<Rightarrow> Inl e
           | Inr s \<Rightarrow>
               Inr (if s > of_int seconds then decide_as CLEAR Debounced else decide_as DISCRETIONARY DuplicateEvent))))"

definition evaluate_stateful ::
  "float_reader \<Rightarrow> obj \<Rightarrow> string \<Rightarrow> py \<Rightarrow> iso_time \<Rightarrow> rule_buffer \<Rightarrow> rule_error + decision" where
  "evaluate_stateful fl pred name subject as_of buf =
     (if name \<in> set window_ops then evaluate_window fl pred name subject as_of buf
      else if name = ''since_last'' then evaluate_since_last fl pred subject as_of buf
      else if name = ''debounce'' then evaluate_debounce pred subject as_of buf
      else Inr (decide_as DISCRETIONARY UnknownOperator))"

section \<open>The evaluation\<close>

definition parse_timestamp :: "calendar \<Rightarrow> py \<Rightarrow> iso_time option" where
  "parse_timestamp cal v = (case v of PyStr s \<Rightarrow> from_iso cal (replace_Z s) | _ \<Rightarrow> None)"

text \<open>The freshness gate of a rule: \<open>None\<close> lets the evaluation go on.\<close>

definition rule_freshness :: "obj \<Rightarrow> py \<Rightarrow> iso_time option \<Rightarrow> rule_buffer option \<Rightarrow> decision option" where
  "rule_freshness pred subject as_of buf =
     (let fresh_seconds = dget pred ''requires_recent_within_seconds'' in
      if fresh_seconds = PyNone then None
      else (case (buf, as_of) of
          (Some b, Some t) \<Rightarrow>
            (case to_int fresh_seconds of
               Inl _ \<Rightarrow> Some (decide_as DISCRETIONARY FreshnessFailed)
             | Inr n \<Rightarrow>
                 (case rb_fresh b subject t n of
                    Inl _ \<Rightarrow> Some (decide_as DISCRETIONARY FreshnessFailed)
                  | Inr ok \<Rightarrow> if ok then None else Some (decide_as NULL_STALE NotFresh)))
        | _ \<Rightarrow> Some (decide_as DISCRETIONARY FreshnessWithoutBuffer)))"

definition stateful_operator :: "obj \<Rightarrow> rule_error + string option" where
  "stateful_operator pred =
     (let op = dget pred ''operator'' in
      if \<not> hashable op then Inl Rule_TypeError
      else Inr (case op of PyStr name \<Rightarrow> if name \<in> set stateful_ops then Some name else None | _ \<Rightarrow> None))"

definition evaluate_rule_async ::
  "calendar \<Rightarrow> float_reader \<Rightarrow> obj \<Rightarrow> obj \<Rightarrow> rule_buffer option \<Rightarrow> iso_time option \<Rightarrow> rule_error + decision" where
  "evaluate_rule_async cal fl rule telemetry buf given =
     (case dget rule ''predicate'' of
        PyDict pred \<Rightarrow>
          (let subject = dget_default telemetry ''subject'' (PyStr []);
               as_of = (case given of Some t \<Rightarrow> Some t | None \<Rightarrow> parse_timestamp cal (dget telemetry ''timestamp''))
           in case rule_freshness pred subject as_of buf of
             Some d \<Rightarrow> Inr d
           | None \<Rightarrow>
               (case stateful_operator pred of
                  Inl e \<Rightarrow> Inl e
                | Inr None \<Rightarrow> evaluate_stateless fl rule telemetry
                | Inr (Some name) \<Rightarrow>
                    (case (buf, as_of) of
                       (Some b, Some t) \<Rightarrow>
                         (case evaluate_stateful fl pred name subject t b of
                            Inl _ \<Rightarrow> Inr (decide_as DISCRETIONARY StatefulFailed)
                          | Inr d \<Rightarrow> Inr d)
                     | _ \<Rightarrow> Inr (decide_as DISCRETIONARY StatefulWithoutBuffer))))
      | _ \<Rightarrow> Inr (decide_as DISCRETIONARY NoPredicate))"

definition evaluate_rule_sync :: "float_reader \<Rightarrow> obj \<Rightarrow> obj \<Rightarrow> rule_error + decision" where
  "evaluate_rule_sync fl rule telemetry =
     (case dget rule ''predicate'' of
        PyDict pred \<Rightarrow>
          (case stateful_operator pred of
             Inl e \<Rightarrow> Inl e
           | Inr (Some _) \<Rightarrow> Inr (decide_as DISCRETIONARY StatefulInSync)
           | Inr None \<Rightarrow>
               if dget pred ''requires_recent_within_seconds'' \<noteq> PyNone then Inr (decide_as DISCRETIONARY FreshnessInSync)
               else evaluate_stateless fl rule telemetry)
      | _ \<Rightarrow> evaluate_stateless fl rule telemetry)"

section \<open>Agreement with the predicate handlers\<close>

text \<open>The v3 predicate and value that an operator of a rule stands for.\<close>

definition v3_form :: "string \<Rightarrow> obj \<Rightarrow> (string \<times> py) option" where
  "v3_form name pred =
     (if name = ''lte'' then Some (''must_not_exceed'', dget pred ''value'')
      else if name = ''gte'' then Some (''must_be_at_least'', dget pred ''value'')
      else if name = ''lt'' then Some (''must_be_below'', dget pred ''value'')
      else if name = ''gt'' then Some (''must_be_above'', dget pred ''value'')
      else if name \<in> {''range'', ''between''} then Some (''must_be_within'', PyList [dget pred ''min'', dget pred ''max''])
      else None)"

text \<open>A number that \<open>float\<close> leaves as it is.\<close>

definition exact_operand :: "float_reader \<Rightarrow> py \<Rightarrow> bool" where
  "exact_operand fl v = (\<exists>x. real_of v = Some x \<and> to_float fl v = Inr (Fin x))"

lemma exact_operand_small:
  assumes "exact_small_ints fl"
  shows "\<bar>i\<bar> \<le> 2 ^ 53 \<Longrightarrow> exact_operand fl (PyInt i)" and "exact_operand fl (PyFloat (Fin q))"
  using assms by (simp_all add: exact_operand_def exact_small_ints_def to_float_def)

lemma exact_operandE:
  assumes "exact_operand fl v"
  obtains x where "real_of v = Some x" "to_float fl v = Inr (Fin x)"
  using assms by (auto simp: exact_operand_def)

lemma float_field_exact: "exact_operand fl (dget pred k) \<Longrightarrow> float_field fl pred k = map_sum rule_error_of id (to_float fl (dget pred k))"
  by (auto simp: exact_operand_def float_field_def dget_def split: option.splits)

definition operands :: "string \<Rightarrow> obj \<Rightarrow> py list" where
  "operands name pred =
     (if name \<in> {''range'', ''between''} then [dget pred ''min'', dget pred ''max''] else [dget pred ''value''])"

lemma float_less_Fin [simp]: "float_less (Fin a) (Fin b) \<longleftrightarrow> a < b"
  by (auto simp: float_less_def)

lemma comparator_meaning:
  assumes "v3_form name pred = Some (p, v)" and "map_of comparators name = Some f"
    and "real_of seen = Some x" and "real_of (dget pred ''value'') = Some y"
  shows "bound_meaning p seen v = Some (f (Fin x) (Fin y))"
proof -
  from assms(2) consider "name = ''lte''" "f = float_le" | "name = ''lt''" "f = float_less"
    | "name = ''gte''" "f = (\<lambda>a b. float_le b a)" | "name = ''gt''" "f = (\<lambda>a b. float_less b a)" | "name = ''eq''"
    by (auto simp: comparators_def split: if_splits)
  then show ?thesis
    using assms(1,3,4) by cases (auto simp: v3_form_def bound_meaning_def bound_of_def)
qed

lemma eval_comparison:
  assumes "v3_form name pred = Some (p, v)" and "map_of comparators name = Some f"
    and "exact_operand fl seen" and "exact_operand fl (dget pred ''value'')"
  shows "\<exists>ok. eval_numeric fl name pred seen = Inr (bool_to_decision ok) \<and> bound_meaning p seen v = Some ok"
proof -
  obtain x y where "real_of seen = Some x" "to_float fl seen = Inr (Fin x)"
    and "real_of (dget pred ''value'') = Some y" "to_float fl (dget pred ''value'') = Inr (Fin y)"
    using assms(3,4) by (auto elim!: exact_operandE)
  with comparator_meaning [OF assms(1,2)] assms(2,4) show ?thesis
    by (simp add: eval_numeric_def float_field_exact)
qed

lemma eval_between:
  assumes "map_of comparators name = None" and "exact_operand fl seen"
    and "exact_operand fl (dget pred ''min'')" and "exact_operand fl (dget pred ''max'')"
  shows "\<exists>ok. eval_numeric fl name pred seen = Inr (bool_to_decision ok) \<and>
    bound_meaning ''must_be_within'' seen (PyList [dget pred ''min'', dget pred ''max'']) = Some ok"
proof -
  obtain x lo hi where "real_of seen = Some x" "to_float fl seen = Inr (Fin x)"
    and "real_of (dget pred ''min'') = Some lo" "to_float fl (dget pred ''min'') = Inr (Fin lo)"
    and "real_of (dget pred ''max'') = Some hi" "to_float fl (dget pred ''max'') = Inr (Fin hi)"
    using assms(2-4) by (auto elim!: exact_operandE)
  with assms(1,3,4) show ?thesis
    by (simp add: eval_numeric_def float_field_exact bound_meaning_def bound_of_def)
qed

lemma eval_numeric_meaning:
  assumes "v3_form name pred = Some (p, v)" and "exact_operand fl seen" and "list_all (exact_operand fl) (operands name pred)"
  shows "\<exists>ok. eval_numeric fl name pred seen = Inr (bool_to_decision ok) \<and> bound_meaning p seen v = Some ok"
proof (cases "name = ''range'' \<or> name = ''between''")
  case True
  then have "map_of comparators name = None" by (auto simp: comparators_def)
  moreover have "p = ''must_be_within''" "v = PyList [dget pred ''min'', dget pred ''max'']"
    using True assms(1) by (auto simp: v3_form_def)
  ultimately show ?thesis
    using eval_between [OF _ assms(2)] True assms(3) by (simp add: operands_def)
next
  case False
  with assms(1) consider "name = ''lte''" | "name = ''gte''" | "name = ''lt''" | "name = ''gt''"
    by (auto simp: v3_form_def split: if_splits)
  then obtain f where "map_of comparators name = Some f"
    by cases (simp_all add: comparators_def)
  then show ?thesis
    using eval_comparison [OF assms(1) _ assms(2)] False assms(3) by (simp add: operands_def)
qed

text \<open>
  Property C33. The symbolic rules and the v3 obligations mean the same on numbers: for every numeric comparison
  that both have, whose reading and operands are finite numbers that a double holds exactly, the operator of a
  rule decides, CLEAR exactly when the handler of the corresponding predicate is satisfied and FLAG exactly when
  it is breached.
\<close>

theorem rule_agrees_with_predicate:
  assumes "v3_form name pred = Some (p, v)" and "exact_operand fl seen" and "list_all (exact_operand fl) (operands name pred)"
    and "map_of predicate_handlers p = Some h"
  shows "\<exists>ok. eval_numeric fl name pred seen = Inr (bool_to_decision ok) \<and> mechanically_satisfied (h seen v) = Some ok"
proof -
  have "p \<in> set numeric_predicates"
    using assms(1) by (auto simp: v3_form_def numeric_predicates_def split: if_splits)
  with eval_numeric_meaning [OF assms(1-3)] map_of_predicate_handlers [OF _ assms(4)] show ?thesis by auto
qed

definition sample_reader :: float_reader where
  "sample_reader = \<lparr>float_of_int = (\<lambda>i. if \<bar>i\<bar> \<le> 2 ^ 1023 then Some (of_int i) else None), float_of_text = (\<lambda>s. None)\<rparr>"

lemma sample_reader_exact: "exact_small_ints sample_reader"
  by (simp add: exact_small_ints_def sample_reader_def)

theorem rule_agrees_with_predicate_witness:
  "\<exists>ok. eval_numeric sample_reader ''between'' [(''min'', PyInt 1), (''max'', PyInt 5)] (PyFloat (Fin 7)) = Inr (bool_to_decision ok) \<and>
     mechanically_satisfied (check_must_be_within (PyFloat (Fin 7)) (PyList [PyInt 1, PyInt 5])) = Some ok"
proof (rule rule_agrees_with_predicate)
  let ?pred = "[(''min'', PyInt 1), (''max'', PyInt 5)]"
  show "v3_form ''between'' ?pred = Some (''must_be_within'', PyList [PyInt 1, PyInt 5])"
    by (simp add: v3_form_def dget_def)
  show "exact_operand sample_reader (PyFloat (Fin 7))"
    by (rule exact_operand_small(2) [OF sample_reader_exact])
  show "list_all (exact_operand sample_reader) (operands ''between'' ?pred)"
    using exact_operand_small(1) [OF sample_reader_exact] by (simp add: operands_def dget_def)
  show "map_of predicate_handlers ''must_be_within'' = Some check_must_be_within"
    by (simp add: predicate_handlers_def)
qed

section \<open>Exceptions\<close>

lemma map_sum_Inl: "map_sum f g x = Inl e \<longleftrightarrow> (\<exists>z. x = Inl z \<and> e = f z)"
  by (cases x) auto

text \<open>What an operator raises and \<open>except (TypeError, ValueError)\<close> does not catch.\<close>

definition uncaught :: "rule_error \<Rightarrow> bool" where
  "uncaught e = (e \<notin> {Rule_TypeError, Rule_ValueError})"

lemma to_float_errors: "map_sum rule_error_of id (to_float fl v) = Inl e \<Longrightarrow> uncaught e \<Longrightarrow> e = Rule_OverflowError"
  by (cases "to_float fl v"; cases "projl (to_float fl v)") (auto simp: uncaught_def)

lemma float_field_errors:
  "float_field fl pred k = Inl e \<Longrightarrow> uncaught e \<Longrightarrow> e = Rule_KeyError \<and> \<not> has_key pred k \<or> e = Rule_OverflowError"
  by (auto simp: float_field_def has_key_def split: option.splits dest: to_float_errors)

lemma eval_numeric_errors:
  assumes "eval_numeric fl name pred seen = Inl e" "uncaught e"
  shows "e = Rule_OverflowError \<or> e = Rule_KeyError \<and>
    \<not> list_all (has_key pred) (if map_of comparators name = None then [''min'', ''max''] else [''value''])"
proof (cases "map_sum rule_error_of id (to_float fl seen)")
  case (Inl e')
  with assms have "map_sum rule_error_of id (to_float fl seen) = Inl e" by (simp add: eval_numeric_def)
  with assms(2) show ?thesis by (auto dest: to_float_errors)
next
  case (Inr x)
  with assms(1) consider k where "map_of comparators name \<noteq> None" "float_field fl pred ''value'' = Inl e"
    | "map_of comparators name = None" "float_field fl pred ''min'' = Inl e"
    | "map_of comparators name = None" "float_field fl pred ''max'' = Inl e"
    by (auto simp: eval_numeric_def map_sum_Inl split: option.splits sum.splits)
  then show ?thesis
    using float_field_errors [OF _ assms(2)] by cases (fastforce, fastforce, fastforce)
qed

lemma eval_set_errors: "eval_set name pred seen = Inl e \<Longrightarrow> e = Rule_TypeError"
  by (auto simp: eval_set_def Let_def split: py.splits)

lemma apply_operator_errors:
  assumes "reviewed (apply_operator fl pred seen) = Inl e"
  shows "\<exists>name \<in> set numeric_ops. dget pred ''operator'' = PyStr name \<and>
    (e = Rule_OverflowError \<or> e = Rule_KeyError \<and>
      \<not> list_all (has_key pred) (if map_of comparators name = None then [''min'', ''max''] else [''value'']))"
proof -
  from assms have raised: "apply_operator fl pred seen = Inl e" and unc: "uncaught e"
    by (auto simp: reviewed_def uncaught_def split: sum.splits if_splits)
  from raised unc obtain name where "dget pred ''operator'' = PyStr name" "name \<in> set numeric_ops"
    "eval_numeric fl name pred seen = Inl e"
    by (auto simp: apply_operator_def uncaught_def Let_def dest: eval_set_errors split: py.splits if_splits)
  with eval_numeric_errors [OF _ unc] show ?thesis by blast
qed

text \<open>
  What leaves the evaluation of a rule as an exception: an operator that is no dictionary key, a
  metric that is neither falsy nor text, a numeric operand that is missing, and a number beyond the largest
  double; everything else is a decision.
\<close>

theorem rule_evaluation_raises:
  assumes "evaluate_rule_async cal fl rule telemetry buf as_of = Inl e"
  shows "\<exists>pred. dget rule ''predicate'' = PyDict pred \<and>
    (e = Rule_TypeError \<and> \<not> hashable (dget pred ''operator'') \<or>
     e = Rule_AttributeError \<and> str_of (dget_default pred ''metric'' (PyStr [])) = None \<or>
     (\<exists>name \<in> set numeric_ops. dget pred ''operator'' = PyStr name \<and>
       (e = Rule_OverflowError \<or> e = Rule_KeyError \<and>
         \<not> list_all (has_key pred) (if map_of comparators name = None then [''min'', ''max''] else [''value'']))))"
proof -
  obtain pred where pred: "dget rule ''predicate'' = PyDict pred"
    using assms by (auto simp: evaluate_rule_async_def split: py.splits)
  from assms pred consider "stateful_operator pred = Inl e" | "evaluate_stateless fl rule telemetry = Inl e"
    by (auto simp: evaluate_rule_async_def Let_def split: option.splits sum.splits)
  then show ?thesis
  proof cases
    case 1
    with pred show ?thesis by (auto simp: stateful_operator_def Let_def split: if_splits)
  next
    case 2
    obtain looked where m: "lookup_metric (dget_default telemetry ''measurement'' (PyDict [])) (dget_default pred ''metric'' (PyStr [])) = looked"
      by blast
    show ?thesis
    proof (cases looked)
      case (Inl e')
      with m have "str_of (dget_default pred ''metric'' (PyStr [])) = None" "e' = Rule_AttributeError"
        by (auto simp: lookup_metric_def split: if_splits py.splits)
      with 2 pred m Inl show ?thesis by (simp add: evaluate_stateless_def)
    next
      case (Inr seen)
      with 2 pred m have "reviewed (apply_operator fl pred (fst (value_and_unit seen))) = Inl e"
        by (auto simp: evaluate_stateless_def Let_def split: py.splits prod.splits if_splits)
      from apply_operator_errors [OF this] pred show ?thesis by blast
    qed
  qed
qed

definition limitless_rule :: obj where
  "limitless_rule = [(''predicate'', PyDict [(''operator'', PyStr ''lte''), (''metric'', PyStr ''nox'')])]"

definition nox_telemetry :: obj where
  "nox_telemetry = [(''subject'', PyStr ''s''), (''measurement'', PyDict [(''nox'', PyInt 4)])]"

theorem rule_evaluation_raises_witness:
  "evaluate_rule_async sample_calendar sample_reader limitless_rule nox_telemetry None None = Inl Rule_KeyError \<and>
   dget limitless_rule ''predicate'' = PyDict [(''operator'', PyStr ''lte''), (''metric'', PyStr ''nox'')]"
proof -
  have run: "evaluate_rule_async sample_calendar sample_reader limitless_rule nox_telemetry None None = Inl Rule_KeyError"
    by (simp add: evaluate_rule_async_def limitless_rule_def nox_telemetry_def dget_def dget_default_def rule_freshness_def
        stateful_operator_def stateful_ops_def window_ops_def temporal_ops_def evaluate_stateless_def lookup_metric_def
        value_and_unit_def reviewed_def apply_operator_def numeric_ops_def eval_numeric_def comparators_def
        float_field_def to_float_def sample_reader_def Let_def)
  from rule_evaluation_raises [OF run] run show ?thesis by (auto simp: limitless_rule_def dget_def)
qed

section \<open>Buffers\<close>

text \<open>Without a buffer the synchronous evaluation is the asynchronous one, up to the reason of a refusal.\<close>

lemma sync_matches_async:
  assumes "dget rule ''predicate'' = PyDict pred" and "stateful_operator pred = Inr None"
    and "dget pred ''requires_recent_within_seconds'' = PyNone"
  shows "evaluate_rule_sync fl rule telemetry = evaluate_rule_async cal fl rule telemetry buf as_of"
  using assms by (simp add: evaluate_rule_sync_def evaluate_rule_async_def rule_freshness_def Let_def)

lemma sync_refuses_buffers:
  assumes "dget rule ''predicate'' = PyDict pred" and "evaluate_rule_sync fl rule telemetry = Inr d"
    and "stateful_operator pred \<noteq> Inr None \<or> dget pred ''requires_recent_within_seconds'' \<noteq> PyNone"
  shows "dn_verdict d = DISCRETIONARY"
  using assms by (auto simp: evaluate_rule_sync_def split: sum.splits option.splits if_splits)

lemma rule_freshness_verdict:
  "rule_freshness pred subject as_of buf = Some d \<Longrightarrow> dn_verdict d \<in> {DISCRETIONARY, NULL_STALE}"
  by (auto simp: rule_freshness_def Let_def split: option.splits sum.splits if_splits)

text \<open>
  A rule that requires a recent sample decides CLEAR, FLAG or NULL_UNMAPPED only when the buffer
  reports one for the subject within the seconds it names; without a buffer, a time or a readable number of
  seconds, and when the query fails, it is DISCRETIONARY.
\<close>

theorem unfresh_rule_is_not_decided:
  assumes "evaluate_rule_async cal fl rule telemetry buf as_of = Inr d" and "dn_verdict d \<in> {CLEAR, FLAG, NULL_UNMAPPED}"
    and "dget rule ''predicate'' = PyDict pred" and "dget pred ''requires_recent_within_seconds'' \<noteq> PyNone"
  shows "\<exists>b t n. buf = Some b \<and> to_int (dget pred ''requires_recent_within_seconds'') = Inr n \<and>
    (as_of = Some t \<or> as_of = None \<and> parse_timestamp cal (dget telemetry ''timestamp'') = Some t) \<and>
    rb_fresh b (dget_default telemetry ''subject'' (PyStr [])) t n = Inr True"
proof -
  let ?as_of = "case as_of of Some t \<Rightarrow> Some t | None \<Rightarrow> parse_timestamp cal (dget telemetry ''timestamp'')"
  have "rule_freshness pred (dget_default telemetry ''subject'' (PyStr [])) ?as_of buf = None"
  proof (cases "rule_freshness pred (dget_default telemetry ''subject'' (PyStr [])) ?as_of buf")
    case (Some d')
    with assms(1,3) have "d' = d" by (simp add: evaluate_rule_async_def Let_def)
    with rule_freshness_verdict [OF Some] assms(2) show ?thesis by auto
  qed
  then obtain b t n where "buf = Some b" "?as_of = Some t" "to_int (dget pred ''requires_recent_within_seconds'') = Inr n"
    "rb_fresh b (dget_default telemetry ''subject'' (PyStr [])) t n = Inr True"
    using assms(4) by (auto simp: rule_freshness_def Let_def split: option.splits sum.splits if_splits)
  then show ?thesis by (auto split: option.splits)
qed

definition gated_rule :: obj where
  "gated_rule = [(''predicate'', PyDict [(''operator'', PyStr ''exists''), (''metric'', PyStr ''nox''),
     (''requires_recent_within_seconds'', PyInt 60)])]"

definition fresh_buffer :: rule_buffer where
  "fresh_buffer = \<lparr>rb_window = (\<lambda>_ _ _ _. Inl ()), rb_last = (\<lambda>_ _. Inr None), rb_fresh = (\<lambda>s t n. Inr (n = 60))\<rparr>"

theorem unfresh_rule_is_not_decided_witness:
  "\<exists>d n. evaluate_rule_async sample_calendar sample_reader gated_rule nox_telemetry (Some fresh_buffer) (Some (Aware 5)) = Inr d \<and>
     dn_verdict d = CLEAR \<and> rb_fresh fresh_buffer (PyStr ''s'') (Aware 5) n = Inr True"
proof -
  let ?pred = "[(''operator'', PyStr ''exists''), (''metric'', PyStr ''nox''), (''requires_recent_within_seconds'', PyInt 60)]"
  have pred: "dget gated_rule ''predicate'' = PyDict ?pred" "dget ?pred ''requires_recent_within_seconds'' \<noteq> PyNone"
    by (simp_all add: gated_rule_def dget_def)
  have run: "evaluate_rule_async sample_calendar sample_reader gated_rule nox_telemetry (Some fresh_buffer) (Some (Aware 5)) =
      Inr (decide_as CLEAR Satisfied)"
    by (simp add: evaluate_rule_async_def gated_rule_def nox_telemetry_def dget_def dget_default_def rule_freshness_def
        fresh_buffer_def to_int_def stateful_operator_def stateful_ops_def window_ops_def temporal_ops_def
        evaluate_stateless_def lookup_metric_def value_and_unit_def reviewed_def apply_operator_def numeric_ops_def
        set_ops_def Let_def)
  from unfresh_rule_is_not_decided [OF run _ pred] show ?thesis
    using run by (auto simp: nox_telemetry_def dget_default_def)
qed

end
