(* ===== verification/Cose.thy ===== *)
theory Cose
  imports Canonical_Reading
begin

text \<open>
  Deterministic CBOR and COSE_Sign1 (\<open>ski_schemas/cose.py\<close>): the encoder, the decoder, signing and verification.

  A map is the list of its items in the order of the dictionary. The decoder takes the depth at which Python
  stops the recursion. The signature scheme is a parameter.
\<close>

section \<open>Bytes\<close>

text \<open>\<open>n.to_bytes(k, "big")\<close> and \<open>int.from_bytes(data, "big")\<close>.\<close>

fun be_bytes :: "nat \<Rightarrow> nat \<Rightarrow> bytes" where
  "be_bytes 0 n = []"
| "be_bytes (Suc k) n = be_bytes k (n div 256) @ [of_nat n]"

definition be_value :: "bytes \<Rightarrow> nat" where
  "be_value bs = fold (\<lambda>b n. n * 256 + unat b) bs 0"

text \<open>\<open>raw.decode("utf-8")\<close>: \<open>None\<close> where Python raises.\<close>

definition scalar :: "nat \<Rightarrow> bool" where
  "scalar c = (c < 1114112 \<and> \<not> (55296 \<le> c \<and> c < 57344))"

definition utf8_width :: "nat \<Rightarrow> nat" where
  "utf8_width b = (if b < 128 then 1 else if b < 224 then 2 else if b < 240 then 3 else 4)"

fun utf8_code :: "nat list \<Rightarrow> nat" where
  "utf8_code [a] = a"
| "utf8_code [a, b] = (a - 192) * 64 + (b - 128)"
| "utf8_code [a, b, c] = ((a - 224) * 64 + (b - 128)) * 64 + (c - 128)"
| "utf8_code [a, b, c, d] = (((a - 240) * 64 + (b - 128)) * 64 + (c - 128)) * 64 + (d - 128)"
| "utf8_code _ = 0"

definition utf8_next :: "nat list \<Rightarrow> nat option" where
  "utf8_next bs =
     (let ch = take (utf8_width (hd bs)) bs; c = utf8_code ch in if scalar c \<and> utf8_char c = ch then Some c else None)"

fun utf8_read :: "nat list \<Rightarrow> ustr option" where
  "utf8_read [] = Some []"
| "utf8_read (b # bs) =
     (case utf8_next (b # bs) of
        None \<Rightarrow> None
      | Some c \<Rightarrow> map_option ((#) c) (utf8_read (drop (utf8_width b - 1) bs)))"

declare utf8_read.simps [simp del]

definition utf8_decode :: "bytes \<Rightarrow> ustr option" where
  "utf8_decode bs = utf8_read (map unat bs)"

section \<open>CBOR\<close>

datatype cbor =
    Null
  | Boolean bool
  | Integer int
  | Bytes bytes
  | Text ustr
  | Array "cbor list"
  | Map "(cbor \<times> cbor) list"
  | Tag nat cbor

text \<open>
  What the codec and the message raise: \<open>CborError\<close>, or an exception that is none of it: \<open>UnicodeError\<close> on
  text, \<open>TypeError\<close> on a key that cannot be hashed, \<open>RecursionError\<close>.
\<close>

datatype cbor_error =
    Cbor_Error string
  | Unicode_Error
  | Unhashable_Key
  | Too_Deep

definition head :: "nat \<Rightarrow> nat \<Rightarrow> cbor_error + bytes" where
  "head major n =
     (if n < 24 then Inr [of_nat (major * 32 + n)]
      else if n < 2 ^ 8 then Inr (of_nat (major * 32 + 24) # be_bytes 1 n)
      else if n < 2 ^ 16 then Inr (of_nat (major * 32 + 25) # be_bytes 2 n)
      else if n < 2 ^ 32 then Inr (of_nat (major * 32 + 26) # be_bytes 4 n)
      else if n < 2 ^ 64 then Inr (of_nat (major * 32 + 27) # be_bytes 8 n)
      else Inl (Cbor_Error ''integer''))"

definition both :: "cbor_error + bytes \<Rightarrow> cbor_error + bytes \<Rightarrow> cbor_error + bytes" where
  "both a b = (case a of Inl e \<Rightarrow> Inl e | Inr x \<Rightarrow> map_sum id ((@) x) b)"

fun joined :: "(cbor_error + bytes) list \<Rightarrow> cbor_error + bytes" where
  "joined [] = Inr []"
| "joined (x # xs) = both x (joined xs)"

text \<open>The encoded items of a dictionary, or the first error of one.\<close>

fun gather :: "((cbor_error + bytes) \<times> (cbor_error + bytes)) list \<Rightarrow> cbor_error + (bytes \<times> bytes) list" where
  "gather [] = Inr []"
| "gather ((k, v) # xs) =
     (case k of Inl e \<Rightarrow> Inl e
      | Inr x \<Rightarrow> (case v of Inl e \<Rightarrow> Inl e | Inr y \<Rightarrow> map_sum id ((#) (x, y)) (gather xs)))"

fun cbor_encode :: "cbor \<Rightarrow> cbor_error + bytes" where
  "cbor_encode Null = Inr [0xF6]"
| "cbor_encode (Boolean b) = Inr [if b then 0xF5 else 0xF4]"
| "cbor_encode (Integer i) = (if i \<ge> 0 then head 0 (nat i) else head 1 (nat (- 1 - i)))"
| "cbor_encode (Bytes b) = map_sum id (\<lambda>h. h @ b) (head 2 (length b))"
| "cbor_encode (Text t) =
     (if list_all scalar t then map_sum id (\<lambda>h. h @ utf8 t) (head 3 (length (utf8 t))) else Inl Unicode_Error)"
| "cbor_encode (Array xs) = both (head 4 (length xs)) (joined (map cbor_encode xs))"
| "cbor_encode (Map ps) =
     (case gather (map (\<lambda>(k, v). (cbor_encode k, cbor_encode v)) ps) of
        Inl e \<Rightarrow> Inl e
      | Inr items \<Rightarrow> map_sum id (\<lambda>h. h @ concat (map (\<lambda>(k, v). k @ v) (sort_key fst items))) (head 5 (length items)))"
| "cbor_encode (Tag n v) = both (head 6 n) (cbor_encode v)"

text \<open>Keys of a dictionary: what can be hashed, and the form in which Python compares them (\<open>True == 1\<close>).\<close>

fun hashable_key :: "cbor \<Rightarrow> bool" where
  "hashable_key (Array _) = False"
| "hashable_key (Map _) = False"
| "hashable_key (Tag _ v) = hashable_key v"
| "hashable_key _ = True"

fun key_form :: "cbor \<Rightarrow> cbor" where
  "key_form (Boolean b) = Integer (if b then 1 else 0)"
| "key_form (Tag n v) = Tag n (key_form v)"
| "key_form v = v"

fun put_item :: "cbor \<Rightarrow> cbor \<Rightarrow> (cbor \<times> cbor) list \<Rightarrow> (cbor \<times> cbor) list" where
  "put_item k v [] = [(k, v)]"
| "put_item k v (p # ps) = (if key_form (fst p) = key_form k then (fst p, v) # ps else p # put_item k v ps)"

text \<open>The loops over the items of an array and of a map.\<close>

fun read_items :: "(bytes \<Rightarrow> cbor_error + cbor \<times> bytes) \<Rightarrow> nat \<Rightarrow> bytes \<Rightarrow> cbor_error + cbor list \<times> bytes" where
  "read_items f 0 bs = Inr ([], bs)"
| "read_items f (Suc n) bs =
     (case f bs of
        Inl e \<Rightarrow> Inl e
      | Inr (v, rest) \<Rightarrow> map_sum id (\<lambda>(vs, rest). (v # vs, rest)) (read_items f n rest))"

fun read_pairs ::
  "(bytes \<Rightarrow> cbor_error + cbor \<times> bytes) \<Rightarrow> nat \<Rightarrow> (cbor \<times> cbor) list \<Rightarrow> bytes \<Rightarrow> cbor_error + (cbor \<times> cbor) list \<times> bytes" where
  "read_pairs f 0 ps bs = Inr (ps, bs)"
| "read_pairs f (Suc n) ps bs =
     (case f bs of
        Inl e \<Rightarrow> Inl e
      | Inr (k, rest) \<Rightarrow>
          (case f rest of
             Inl e \<Rightarrow> Inl e
           | Inr (v, rest) \<Rightarrow> if \<not> hashable_key k then Inl Unhashable_Key else read_pairs f n (put_item k v ps) rest))"

text \<open>The number that follows the first byte, and the bytes after it.\<close>

definition read_number :: "nat \<Rightarrow> bytes \<Rightarrow> cbor_error + nat \<times> bytes" where
  "read_number info bs =
     (if info < 24 then Inr (info, bs)
      else if info \<le> 27 then
        (let size = 2 ^ (info - 24) in
         if length bs < size then Inl (Cbor_Error ''truncated'') else Inr (be_value (take size bs), drop size bs))
      else Inl (Cbor_Error ''indefinite''))"

fun decode_item :: "nat \<Rightarrow> bytes \<Rightarrow> cbor_error + cbor \<times> bytes" where
  "decode_item 0 bs = Inl Too_Deep"
| "decode_item (Suc d) bs =
     (case bs of
        [] \<Rightarrow> Inl (Cbor_Error ''truncated'')
      | b # bs \<Rightarrow>
          (let major = unat b div 32; info = unat b mod 32 in
           if major = 7 then
             (if info = 20 then Inr (Boolean False, bs) else if info = 21 then Inr (Boolean True, bs)
              else if info = 22 then Inr (Null, bs) else Inl (Cbor_Error ''simple''))
           else
             (case read_number info bs of
                Inl e \<Rightarrow> Inl e
              | Inr (n, rest) \<Rightarrow>
                  if major = 0 then Inr (Integer (int n), rest)
                  else if major = 1 then Inr (Integer (- 1 - int n), rest)
                  else if major = 2 \<or> major = 3 then
                    (if length rest < n then Inl (Cbor_Error ''truncated'')
                     else if major = 2 then Inr (Bytes (take n rest), drop n rest)
                     else (case utf8_decode (take n rest) of
                         None \<Rightarrow> Inl Unicode_Error
                       | Some t \<Rightarrow> Inr (Text t, drop n rest)))
                  else if major = 4 then map_sum id (\<lambda>(vs, rest). (Array vs, rest)) (read_items (decode_item d) n rest)
                  else if major = 5 then map_sum id (\<lambda>(ps, rest). (Map ps, rest)) (read_pairs (decode_item d) n [] rest)
                  else map_sum id (\<lambda>(v, rest). (Tag n v, rest)) (decode_item d rest))))"

definition cbor_decode :: "nat \<Rightarrow> bytes \<Rightarrow> cbor_error + cbor" where
  "cbor_decode depth data =
     (case decode_item depth data of
        Inl e \<Rightarrow> Inl e
      | Inr (v, rest) \<Rightarrow> if rest \<noteq> [] then Inl (Cbor_Error ''trailing'') else Inr v)"

section \<open>COSE\_Sign1\<close>

definition alg_eddsa :: int where
  "alg_eddsa = - 8"

definition cose_sign1_tag :: nat where
  "cose_sign1_tag = 18"

definition header_alg :: cbor where
  "header_alg = Integer 1"

definition header_content_type :: cbor where
  "header_content_type = Integer 3"

definition header_kid :: cbor where
  "header_kid = Integer 4"

definition sig_structure :: "bytes \<Rightarrow> bytes \<Rightarrow> cbor_error + bytes" where
  "sig_structure protected payload =
     cbor_encode (Array [Text (ascii ''Signature1''), Bytes protected, Bytes [], Bytes payload])"

type_synonym header = "(cbor \<times> cbor) list"

record cose_sign1 =
  cs_protected :: header
  cs_protected_bytes :: bytes
  cs_unprotected :: header
  cs_payload :: "bytes option"
  cs_signature :: bytes

fun header_get :: "header \<Rightarrow> cbor \<Rightarrow> cbor" where
  "header_get [] k = Null"
| "header_get (p # ps) k = (if key_form (fst p) = key_form k then snd p else header_get ps k)"

text \<open>A dictionary display: later items replace earlier ones.\<close>

definition put_all :: "header \<Rightarrow> header \<Rightarrow> header" where
  "put_all ps qs = fold (\<lambda>(k, v) acc. put_item k v acc) qs ps"

definition message_of :: "cbor \<Rightarrow> cbor_error + cbor list" where
  "message_of item =
     (case (case item of Tag n v \<Rightarrow> if n \<noteq> cose_sign1_tag then Inl (Cbor_Error ''tag'') else Inr v | _ \<Rightarrow> Inr item) of
        Inl e \<Rightarrow> Inl e
      | Inr (Array xs) \<Rightarrow> if length xs = 4 then Inr xs else Inl (Cbor_Error ''array'')
      | Inr _ \<Rightarrow> Inl (Cbor_Error ''array''))"

definition payload_of :: "cbor \<Rightarrow> bytes option option" where
  "payload_of v = (case v of Null \<Rightarrow> Some None | Bytes b \<Rightarrow> Some (Some b) | _ \<Rightarrow> None)"

definition cose_decode :: "nat \<Rightarrow> bytes \<Rightarrow> cbor_error + cose_sign1" where
  "cose_decode depth data =
     (case cbor_decode depth data of
        Inl e \<Rightarrow> Inl e
      | Inr item \<Rightarrow>
     (case message_of item of
        Inl e \<Rightarrow> Inl e
      | Inr xs \<Rightarrow>
     (case (xs ! 0, xs ! 1) of
        (Bytes protected, Map unprotected) \<Rightarrow>
          (case (payload_of (xs ! 2), xs ! 3) of
             (Some payload, Bytes sig) \<Rightarrow>
               (case (if protected = [] then Inr (Map []) else cbor_decode depth protected) of
                  Inl e \<Rightarrow> Inl e
                | Inr (Map hs) \<Rightarrow>
                    Inr \<lparr>cs_protected = hs, cs_protected_bytes = protected, cs_unprotected = unprotected,
                         cs_payload = payload, cs_signature = sig\<rparr>
                | Inr _ \<Rightarrow> Inl (Cbor_Error ''protected''))
           | _ \<Rightarrow> Inl (Cbor_Error ''payload''))
      | _ \<Rightarrow> Inl (Cbor_Error ''headers''))))"

definition to_be_signed :: "cose_sign1 \<Rightarrow> bytes option \<Rightarrow> cbor_error + bytes" where
  "to_be_signed msg detached =
     (case (case cs_payload msg of Some p \<Rightarrow> Some p | None \<Rightarrow> detached) of
        None \<Rightarrow> Inl (Cbor_Error ''detached'')
      | Some p \<Rightarrow> sig_structure (cs_protected_bytes msg) p)"

definition cose_verify :: "(bytes \<Rightarrow> bytes \<Rightarrow> bool) \<Rightarrow> cose_sign1 \<Rightarrow> bytes option \<Rightarrow> cbor_error + bool" where
  "cose_verify vf msg detached =
     (if header_get (cs_protected msg) header_alg \<noteq> Integer alg_eddsa then Inr False
      else map_sum id (vf (cs_signature msg)) (to_be_signed msg detached))"

definition optional_bytes :: "bytes option \<Rightarrow> cbor" where
  "optional_bytes p = (case p of None \<Rightarrow> Null | Some b \<Rightarrow> Bytes b)"

definition cose_message :: "bytes \<Rightarrow> header \<Rightarrow> bytes option \<Rightarrow> bytes \<Rightarrow> cbor" where
  "cose_message protected unprotected payload sig =
     Tag cose_sign1_tag (Array [Bytes protected, Map unprotected, optional_bytes payload, Bytes sig])"

definition cose_encode :: "cose_sign1 \<Rightarrow> cbor_error + bytes" where
  "cose_encode msg =
     cbor_encode (cose_message (cs_protected_bytes msg) (cs_unprotected msg) (cs_payload msg) (cs_signature msg))"

definition sign1 :: "header \<Rightarrow> bytes \<Rightarrow> (bytes \<Rightarrow> bytes) \<Rightarrow> header \<Rightarrow> bool \<Rightarrow> cbor_error + bytes" where
  "sign1 protected payload sign unprotected detached =
     (case cbor_encode (Map (put_all [(header_alg, Integer alg_eddsa)] protected)) of
        Inl e \<Rightarrow> Inl e
      | Inr protected_bytes \<Rightarrow>
     (case sig_structure protected_bytes payload of
        Inl e \<Rightarrow> Inl e
      | Inr m \<Rightarrow> cbor_encode (cose_message protected_bytes unprotected (if detached then None else Some payload) (sign m))))"

section \<open>Bytes and numbers\<close>

lemma length_be_bytes [simp]: "length (be_bytes k n) = k"
  by (induction k n rule: be_bytes.induct) auto

lemma unat_byte: "unat (of_nat n :: 8 word) = n mod 256"
  by (simp add: unsigned_of_nat take_bit_eq_mod)

lemma be_value_snoc: "be_value (bs @ [b]) = be_value bs * 256 + unat b"
  by (simp add: be_value_def)

lemma be_value_bytes: "be_value (be_bytes k n) = n mod 256 ^ k"
proof (induction k n rule: be_bytes.induct)
  case (2 k n)
  have "n mod 256 ^ Suc k = (n div 256 mod 256 ^ k) * 256 + n mod 256"
    by (simp add: mod_mult2_eq mult.commute)
  with 2 show ?case by (simp add: be_value_snoc unat_byte)
qed (simp add: be_value_def)

lemma byte_major: "major < 8 \<Longrightarrow> info < 32 \<Longrightarrow> unat (of_nat (major * 32 + info) :: 8 word) = major * 32 + info"
  unfolding unat_byte by simp

lemma read_number_small: "info < 24 \<Longrightarrow> read_number info bs = Inr (info, bs)"
  by (simp add: read_number_def)

lemma read_number_sized: "n < 256 ^ (2 ^ i) \<Longrightarrow> i < 4 \<Longrightarrow> read_number (24 + i) (be_bytes (2 ^ i) n @ rest) = Inr (n, rest)"
  by (simp add: read_number_def Let_def be_value_bytes)

lemma head_read:
  assumes "head major n = Inr h" "major < 8"
  shows "\<exists>b r. h = b # r \<and> unat b div 32 = major \<and> read_number (unat b mod 32) (r @ rest) = Inr (n, rest)"
proof -
  have byte: "unat (of_nat (major * 32 + i) :: 8 word) div 32 = major \<and> unat (of_nat (major * 32 + i) :: 8 word) mod 32 = i"
    if "i < 32" for i using byte_major [OF assms(2) that] that by simp
  have sized: "\<exists>b r. of_nat (major * 32 + (24 + i)) # be_bytes (2 ^ i) n = b # r \<and> unat b div 32 = major \<and>
      read_number (unat b mod 32) (r @ rest) = Inr (n, rest)" if "n < 256 ^ (2 ^ i)" "i < 4" for i
  proof (intro exI conjI)
    show "of_nat (major * 32 + (24 + i)) # be_bytes (2 ^ i) n = of_nat (major * 32 + (24 + i)) # be_bytes (2 ^ i) n" ..
    show "unat (of_nat (major * 32 + (24 + i)) :: 8 word) div 32 = major" using byte [of "24 + i"] that(2) by simp
    have "unat (of_nat (major * 32 + (24 + i)) :: 8 word) mod 32 = 24 + i" using byte [of "24 + i"] that(2) by simp
    then show "read_number (unat (of_nat (major * 32 + (24 + i)) :: 8 word) mod 32) (be_bytes (2 ^ i) n @ rest) = Inr (n, rest)"
      using read_number_sized [OF that, of rest] by simp
  qed
  consider "n < 24" | "h = of_nat (major * 32 + (24 + 0)) # be_bytes (2 ^ 0) n" "n < 256 ^ (2 ^ 0)"
    | "h = of_nat (major * 32 + (24 + 1)) # be_bytes (2 ^ 1) n" "n < 256 ^ (2 ^ 1)"
    | "h = of_nat (major * 32 + (24 + 2)) # be_bytes (2 ^ 2) n" "n < 256 ^ (2 ^ 2)"
    | "h = of_nat (major * 32 + (24 + 3)) # be_bytes (2 ^ 3) n" "n < 256 ^ (2 ^ 3)"
    using assms(1) unfolding head_def by (auto split: if_splits)
  then show ?thesis
  proof cases
    case 1
    then show ?thesis using assms byte [of n] read_number_small [OF 1] by (auto simp: head_def)
  next
    case 2
    from sized [OF 2(2)] 2(1) show ?thesis by fastforce
  next
    case 3
    from sized [OF 3(2)] 3(1) show ?thesis by fastforce
  next
    case 4
    from sized [OF 4(2)] 4(1) show ?thesis by fastforce
  next
    case 5
    from sized [OF 5(2)] 5(1) show ?thesis by fastforce
  qed
qed

section \<open>UTF-8\<close>

lemma sextets:
  "4096 * (c div 4096) + c div 64 mod 64 * 64 + c mod 64 = c"
  "262144 * (c div 262144) + 4096 * (c div 4096 mod 64) + c div 64 mod 64 * 64 + c mod 64 = c" for c :: nat
proof -
  define a b where "a = c div 64" and "b = a div 64"
  have "c div 4096 = b" "c div 262144 = b div 64" "c div 4096 mod 64 = b mod 64" "c div 64 mod 64 = a mod 64" unfolding a_def b_def by (simp_all add: div_mult2_eq [symmetric])
  moreover have "c = 64 * a + c mod 64" "a = 64 * b + a mod 64" "b = 64 * (b div 64) + b mod 64"
    unfolding a_def b_def by simp_all
  ultimately show "4096 * (c div 4096) + c div 64 mod 64 * 64 + c mod 64 = c"
    "262144 * (c div 262144) + 4096 * (c div 4096 mod 64) + c div 64 mod 64 * 64 + c mod 64 = c"
    by linarith+
qed

lemma utf8_next_char:
  assumes "scalar c"
  shows "utf8_next (utf8_char c @ rest) = Some c \<and> utf8_width (hd (utf8_char c)) = length (utf8_char c)"
proof -
  have "utf8_code (utf8_char c) = c \<and> utf8_width (hd (utf8_char c)) = length (utf8_char c)"
    using assms sextets [of c] by (auto simp: utf8_char_def utf8_width_def scalar_def)
  then show ?thesis using assms by (simp add: utf8_next_def Let_def)
qed

lemma utf8_read_text: "list_all scalar t \<Longrightarrow> utf8_read (concat (map utf8_char t)) = Some t"
proof (induction t)
  case (Cons c t)
  obtain b bs where ch: "utf8_char c = b # bs" using utf8_char_not_Nil [of c] by (cases "utf8_char c") auto
  from utf8_next_char [of c "concat (map utf8_char t)"] Cons ch show ?case
    by (simp add: utf8_read.simps)
qed (simp add: utf8_read.simps)

lemma scalar_code_points: "list_all scalar t \<Longrightarrow> code_points t"
  by (auto simp: code_points_def scalar_def list_all_iff)

lemma utf8_decode_encode:
  assumes "list_all scalar t"
  shows "utf8_decode (utf8 t) = Some t"
proof -
  have "map unat (utf8 t) = concat (map utf8_char t)"
    unfolding utf8_def list.map_comp using utf8_bytes [OF scalar_code_points [OF assms]]
    by (intro map_idI) (auto simp add: unat_byte list_all_iff intro!: mod_less)
  then show ?thesis by (simp add: utf8_decode_def utf8_read_text assms)
qed

section \<open>Decoding what was encoded\<close>

text \<open>How deep a value nests, what a dictionary demands of keys, and the order in which a map is written.\<close>

fun levels :: "cbor \<Rightarrow> nat" where
  "levels (Array xs) = Suc (foldr max (map levels xs) 0)"
| "levels (Map ps) = Suc (foldr max (map (\<lambda>(k, v). max (levels k) (levels v)) ps) 0)"
| "levels (Tag n v) = Suc (levels v)"
| "levels _ = 1"

fun well_keyed :: "cbor \<Rightarrow> bool" where
  "well_keyed (Array xs) = list_all well_keyed xs"
| "well_keyed (Map ps) =
     (distinct (map (\<lambda>(k, v). key_form k) ps) \<and> list_all (\<lambda>(k, v). hashable_key k \<and> well_keyed k \<and> well_keyed v) ps)"
| "well_keyed (Tag n v) = well_keyed v"
| "well_keyed _ = True"

definition written :: "cbor \<Rightarrow> bytes" where
  "written v = projr (cbor_encode v)"

definition by_written_key :: "(cbor \<times> 'a) list \<Rightarrow> (cbor \<times> 'a) list" where
  "by_written_key ps = sort_key (written \<circ> fst) ps"

fun normal_item :: "cbor \<Rightarrow> cbor" where
  "normal_item (Array xs) = Array (map normal_item xs)"
| "normal_item (Map ps) = Map (by_written_key (map (\<lambda>(k, v). (k, normal_item v)) ps))"
| "normal_item (Tag n v) = Tag n (normal_item v)"
| "normal_item v = v"

lemma hashable_normal: "hashable_key v \<Longrightarrow> normal_item v = v"
  by (induction v rule: hashable_key.induct) auto

lemma both_Inr: "both a b = Inr c \<longleftrightarrow> (\<exists>x y. a = Inr x \<and> b = Inr y \<and> c = x @ y)"
  by (cases a; cases b) (auto simp: both_def)

lemma map_sum_Inr_iff: "map_sum id f x = Inr y \<longleftrightarrow> (\<exists>z. x = Inr z \<and> y = f z)"
  by (cases x) auto

lemma joined_Inr: "joined (map cbor_encode xs) = Inr bs \<Longrightarrow> bs = concat (map written xs) \<and> (\<forall>x \<in> set xs. \<exists>b. cbor_encode x = Inr b)"
  by (induction xs arbitrary: bs) (auto simp: both_Inr written_def)

lemma gather_Inr:
  "gather (map (\<lambda>(k, v). (cbor_encode k, cbor_encode v)) ps) = Inr items \<Longrightarrow>
   items = map (\<lambda>(k, v). (written k, written v)) ps \<and>
   (\<forall>(k, v) \<in> set ps. (\<exists>b. cbor_encode k = Inr b) \<and> (\<exists>b. cbor_encode v = Inr b))"
proof (induction ps arbitrary: items)
  case (Cons p ps)
  obtain k v where p: "p = (k, v)" by (cases p)
  from Cons.prems show ?case
    by (auto simp: p written_def map_sum_Inr_iff dest: Cons.IH split: sum.splits)
qed simp

text \<open>What can be written: numbers and lengths below 2 to the 64th, and text that UTF-8 holds.\<close>

fun encodable_item :: "cbor \<Rightarrow> bool" where
  "encodable_item (Integer i) = (- (2 ^ 64) \<le> i \<and> i < 2 ^ 64)"
| "encodable_item (Bytes b) = (length b < 2 ^ 64)"
| "encodable_item (Text t) = (list_all scalar t \<and> length (utf8 t) < 2 ^ 64)"
| "encodable_item (Array xs) = (length xs < 2 ^ 64 \<and> list_all encodable_item xs)"
| "encodable_item (Map ps) = (length ps < 2 ^ 64 \<and> list_all (\<lambda>(k, v). encodable_item k \<and> encodable_item v) ps)"
| "encodable_item (Tag n v) = (n < 2 ^ 64 \<and> encodable_item v)"
| "encodable_item _ = True"

lemma head_Inr_iff: "(\<exists>b. head major n = Inr b) \<longleftrightarrow> n < 2 ^ 64"
  by (auto simp: head_def)

lemma joined_Inr_iff: "(\<exists>bs. joined (map f xs) = Inr bs) \<longleftrightarrow> (\<forall>x \<in> set xs. \<exists>b. f x = Inr b)"
  by (induction xs) (auto simp: both_Inr)

lemma gather_Inr_iff:
  "(\<exists>items. gather (map (\<lambda>(k, v). (f k, f v)) ps) = Inr items) \<longleftrightarrow> (\<forall>(k, v) \<in> set ps. (\<exists>b. f k = Inr b) \<and> (\<exists>b. f v = Inr b))"
proof (induction ps)
  case (Cons p ps)
  obtain k v where p: "p = (k, v)" by (cases p)
  show ?case by (cases "f k"; cases "f v") (use Cons in \<open>auto simp: p map_sum_Inr_iff\<close>)
qed simp

lemma gather_length:
  "gather (map (\<lambda>(k, v). (cbor_encode k, cbor_encode v)) ps) = Inr items \<Longrightarrow> length items = length ps"
  using gather_Inr by fastforce

lemma cbor_encode_iff: "(\<exists>bs. cbor_encode v = Inr bs) \<longleftrightarrow> encodable_item v"
proof (induction v)
  case (Integer i)
  show ?case by (cases "i \<ge> 0") (auto simp: head_Inr_iff nat_less_iff)
next
  case (Array xs)
  have "(\<exists>bs. cbor_encode (Array xs) = Inr bs) \<longleftrightarrow> (\<exists>h. head 4 (length xs) = Inr h) \<and> (\<exists>bs. joined (map cbor_encode xs) = Inr bs)"
    by (auto simp: both_Inr)
  also have "\<dots> \<longleftrightarrow> length xs < 2 ^ 64 \<and> (\<forall>x \<in> set xs. encodable_item x)"
    unfolding head_Inr_iff joined_Inr_iff using Array by blast
  finally show ?case by (simp add: list_all_iff)
next
  case (Map ps)
  have "(\<exists>bs. cbor_encode (Map ps) = Inr bs) \<longleftrightarrow>
      (\<exists>items h. gather (map (\<lambda>(k, v). (cbor_encode k, cbor_encode v)) ps) = Inr items \<and> head 5 (length items) = Inr h)"
    by (auto simp: map_sum_Inr_iff split: sum.splits)
  also have "\<dots> \<longleftrightarrow> (\<exists>h. head 5 (length ps) = Inr h) \<and>
      (\<exists>items. gather (map (\<lambda>(k, v). (cbor_encode k, cbor_encode v)) ps) = Inr items)"
    using gather_length by metis
  also have "\<dots> \<longleftrightarrow> length ps < 2 ^ 64 \<and> (\<forall>(k, v) \<in> set ps. encodable_item k \<and> encodable_item v)"
    unfolding head_Inr_iff gather_Inr_iff using Map by fastforce
  finally show ?case by (simp add: list_all_iff)
next
  case (Tag n v)
  then show ?case using head_Inr_iff [of 6 n] by (auto simp: both_Inr)
qed (auto simp: map_sum_Inr_iff head_Inr_iff)

lemma insort_key_of_map: "insort_key f (g x) (map g xs) = map g (insort_key (f \<circ> g) x xs)"
  by (induction xs) auto

lemma sort_key_of_map: "sort_key f (map g xs) = map g (sort_key (f \<circ> g) xs)"
  by (induction xs) (simp_all add: insort_key_of_map comp_def)

lemma put_item_new: "key_form k \<notin> set (map (key_form \<circ> fst) ps) \<Longrightarrow> put_item k v ps = ps @ [(k, v)]"
  by (induction ps) auto

text \<open>How long it gets.\<close>

fun weight :: "cbor \<Rightarrow> nat" where
  "weight (Integer i) = 9"
| "weight (Bytes b) = 9 + length b"
| "weight (Text t) = 9 + length (utf8 t)"
| "weight (Array xs) = 9 + sum_list (map weight xs)"
| "weight (Map ps) = 9 + sum_list (map (\<lambda>(k, v). weight k + weight v) ps)"
| "weight (Tag n v) = 9 + weight v"
| "weight _ = 1"

lemma head_length: "head major n = Inr b \<Longrightarrow> length b \<le> 9"
  by (auto simp: head_def split: if_splits)

lemma sum_list_sorted: "sum_list (map f (sort_key k xs)) = (sum_list (map f xs) :: nat)"
  by (metis mset_map mset_sort sum_mset_sum_list)

lemma cbor_encode_length: "cbor_encode v = Inr b \<Longrightarrow> length b \<le> weight v"
proof (induction v arbitrary: b)
  case (Integer i)
  then show ?case by (auto dest: head_length split: if_splits)
next
  case (Array xs)
  then obtain h bs where *: "head 4 (length xs) = Inr h" "joined (map cbor_encode xs) = Inr bs" "b = h @ bs"
    by (auto simp: both_Inr)
  have "length (concat (map written xs)) \<le> sum_list (map weight xs)"
    using joined_Inr [OF *(2)] Array.IH by (auto simp: length_concat comp_def written_def intro!: sum_list_mono)
  then show ?case using * head_length [OF *(1)] joined_Inr [OF *(2)] by simp
next
  case (Map ps)
  then obtain h items where *: "gather (map (\<lambda>(k, v). (cbor_encode k, cbor_encode v)) ps) = Inr items"
      "head 5 (length items) = Inr h" "b = h @ concat (map (\<lambda>(k, v). k @ v) (sort_key fst items))"
    by (auto simp: map_sum_Inr_iff split: sum.splits)
  have "sum_list (map (\<lambda>(k, v). length (written k) + length (written v)) ps) \<le> sum_list (map (\<lambda>(k, v). weight k + weight v) ps)"
    using gather_Inr [OF *(1)] Map.IH by (force simp: written_def intro!: sum_list_mono add_mono)
  moreover have "length (concat (map (\<lambda>(k, v). k @ v) (sort_key fst items))) = sum_list (map (\<lambda>(k, v). length k + length v) items)"
    by (simp add: length_concat comp_def case_prod_beta' sum_list_sorted)
  ultimately show ?case using * head_length [OF *(2)] gather_Inr [OF *(1)] by (simp add: comp_def case_prod_beta')
next
  case (Tag n v)
  then show ?case by (fastforce simp: both_Inr dest: head_length)
qed (auto simp: map_sum_Inr_iff dest: head_length split: if_splits)

text \<open>What a reader must give for one value, for the values of an array and for the items of a map.\<close>

definition reads :: "(bytes \<Rightarrow> cbor_error + cbor \<times> bytes) \<Rightarrow> cbor \<Rightarrow> bool" where
  "reads f v \<longleftrightarrow> (\<forall>rest. f (written v @ rest) = Inr (normal_item v, rest))"

lemma read_items_all:
  "\<forall>v \<in> set vs. reads f v \<Longrightarrow> read_items f (length vs) (concat (map written vs) @ rest) = Inr (map normal_item vs, rest)"
  by (induction vs) (auto simp: reads_def)

lemma read_pairs_all:
  assumes "\<forall>(k, v) \<in> set ps. reads f k \<and> reads f v \<and> hashable_key k"
    and "distinct (map (key_form \<circ> fst) acc @ map (\<lambda>(k, v). key_form k) ps)"
  shows "read_pairs f (length ps) acc (concat (map (\<lambda>(k, v). written k @ written v) ps) @ rest) =
    Inr (acc @ map (\<lambda>(k, v). (k, normal_item v)) ps, rest)"
  using assms
proof (induction ps arbitrary: acc)
  case (Cons p ps)
  obtain k v where p: "p = (k, v)" by (cases p)
  have k: "reads f k" "reads f v" "hashable_key k" using Cons.prems(1) by (auto simp: p)
  have "put_item k (normal_item v) acc = acc @ [(k, normal_item v)]"
    using Cons.prems(2) by (intro put_item_new) (auto simp: p)
  moreover have "read_pairs f (length ps) (acc @ [(k, normal_item v)]) (concat (map (\<lambda>(k, v). written k @ written v) ps) @ rest) =
      Inr ((acc @ [(k, normal_item v)]) @ map (\<lambda>(k, v). (k, normal_item v)) ps, rest)"
    using Cons.prems by (intro Cons.IH) (auto simp: p)
  ultimately show ?case
    using k hashable_normal [OF k(3)] by (simp add: p reads_def)
qed simp

lemma foldr_max_le: "foldr max ns 0 \<le> d \<longleftrightarrow> (\<forall>n \<in> set ns. n \<le> (d :: nat))"
  by (induction ns) auto

lemma decode_head:
  assumes "head major n = Inr h" "major < 7"
  shows "\<exists>b r. h @ rest = b # r @ rest \<and> unat b div 32 = major \<and> read_number (unat b mod 32) (r @ rest) = Inr (n, rest)"
  using head_read [OF assms(1), of rest] assms(2) by fastforce

lemma written_Inr: "cbor_encode v = Inr b \<Longrightarrow> written v = b"
  by (simp add: written_def)

lemma decode_encoded:
  "cbor_encode v = Inr bs \<Longrightarrow> well_keyed v \<Longrightarrow> levels v \<le> d \<Longrightarrow> decode_item d (bs @ rest) = Inr (normal_item v, rest)"
proof (induction v arbitrary: bs d rest)
  case Null
  then show ?case by (cases d) (auto simp: unsigned_numeral)
next
  case (Boolean b)
  then show ?case by (cases d) (auto split: if_splits)
next
  case (Integer i)
  then obtain e where d: "d = Suc e" by (cases d) auto
  show ?case
  proof (cases "i \<ge> 0")
    case True
    with Integer decode_head [of 0 "nat i" bs rest] show ?thesis by (auto simp: d)
  next
    case False
    with Integer decode_head [of 1 "nat (- 1 - i)" bs rest] show ?thesis by (auto simp: d)
  qed
next
  case (Bytes x)
  then obtain e h where d: "d = Suc e" and h: "head 2 (length x) = Inr h" "bs = h @ x"
    by (cases d) (auto simp: map_sum_Inr_iff)
  with decode_head [OF h(1), of "x @ rest"] show ?case by (auto simp: d)
next
  case (Text t)
  then obtain e h where d: "d = Suc e" and h: "head 3 (length (utf8 t)) = Inr h" "bs = h @ utf8 t" and t: "list_all scalar t"
    by (cases d) (auto simp: map_sum_Inr_iff split: if_splits)
  with decode_head [OF h(1), of "utf8 t @ rest"] utf8_decode_encode [OF t] show ?case by (auto simp: d)
next
  case (Array xs)
  then obtain e h where d: "d = Suc e" and h: "head 4 (length xs) = Inr h" and bs: "bs = h @ concat (map written xs)"
    and enc: "\<forall>x \<in> set xs. \<exists>b. cbor_encode x = Inr b"
    using joined_Inr by (cases d) (fastforce simp: both_Inr)+
  have "\<forall>x \<in> set xs. reads (decode_item e) x"
    using Array enc by (fastforce simp: d reads_def foldr_max_le list_all_iff written_def)
  from read_items_all [OF this, of rest] decode_head [OF h, of "concat (map written xs) @ rest"]
  show ?case by (auto simp: d bs)
next
  case (Map ps)
  then obtain e items h where d: "d = Suc e" and g: "gather (map (\<lambda>(k, v). (cbor_encode k, cbor_encode v)) ps) = Inr items"
    and h: "head 5 (length items) = Inr h" and bs: "bs = h @ concat (map (\<lambda>(k, v). k @ v) (sort_key fst items))"
    by (cases d) (auto simp: map_sum_Inr_iff split: sum.splits)
  let ?qs = "by_written_key ps"
  have mem: "set ?qs = set ps" by (simp add: by_written_key_def)
  have items: "sort_key fst items = map (\<lambda>(k, v). (written k, written v)) ?qs"
    using gather_Inr [OF g] by (simp add: sort_key_of_map by_written_key_def comp_def case_prod_beta')
  have len: "length items = length ?qs" using gather_Inr [OF g] by (simp add: by_written_key_def)
  have "mset (map (\<lambda>(k, v). key_form k) ?qs) = mset (map (\<lambda>(k, v). key_form k) ps)" by (simp add: by_written_key_def)
  moreover have "distinct (map (\<lambda>(k, v). key_form k) ps)" using Map.prems(2) by simp
  ultimately have dist: "distinct (map (\<lambda>(k, v). key_form k) ?qs)" using mset_eq_imp_distinct_iff by blast
  have "reads (decode_item e) k \<and> reads (decode_item e) v \<and> hashable_key k" if "(k, v) \<in> set ps" for k v
  proof -
    have "\<exists>b. cbor_encode k = Inr b" "\<exists>b. cbor_encode v = Inr b" using gather_Inr [OF g] that by auto
    moreover have "well_keyed k" "well_keyed v" "hashable_key k" "levels k \<le> e" "levels v \<le> e"
      using Map.prems(2,3) that by (auto simp: d foldr_max_le list_all_iff)
    ultimately show ?thesis
      using Map.IH(1) [OF that, of k] Map.IH(2) [OF that, of v] by (auto simp: reads_def written_def)
  qed
  then have "\<forall>(k, v) \<in> set ?qs. reads (decode_item e) k \<and> reads (decode_item e) v \<and> hashable_key k" by (auto simp: mem)
  from read_pairs_all [OF this, of "[]" rest] dist
  have "read_pairs (decode_item e) (length ?qs) [] (concat (map (\<lambda>(k, v). written k @ written v) ?qs) @ rest) =
      Inr (map (\<lambda>(k, v). (k, normal_item v)) ?qs, rest)" by simp
  moreover have "map (\<lambda>(k, v). (k, normal_item v)) ?qs = by_written_key (map (\<lambda>(k, v). (k, normal_item v)) ps)"
    by (simp add: by_written_key_def sort_key_of_map comp_def case_prod_beta')
  moreover have "bs = h @ concat (map (\<lambda>(k, v). written k @ written v) ?qs)"
    unfolding bs items by (simp add: comp_def case_prod_beta')
  ultimately show ?case
    using decode_head [OF h, of "concat (map (\<lambda>(k, v). written k @ written v) ?qs) @ rest"] by (auto simp: d len)
next
  case (Tag n v)
  then obtain e h b where d: "d = Suc e" and h: "head 6 n = Inr h" and b: "cbor_encode v = Inr b" "bs = h @ b"
    by (cases d) (auto simp: both_Inr)
  with Tag decode_head [OF h, of "b @ rest"] show ?case by (auto simp: d)
qed

section \<open>Messages\<close>

lemma header_get_absent: "key_form k \<notin> set (map (key_form \<circ> fst) ps) \<Longrightarrow> header_get ps k = Null"
  by (induction ps) auto

lemma header_get_present:
  "(k', v) \<in> set ps \<Longrightarrow> key_form k' = key_form k \<Longrightarrow> distinct (map (key_form \<circ> fst) ps) \<Longrightarrow> header_get ps k = v"
  by (induction ps) (force simp: image_iff)+

lemma header_get_permuted:
  assumes "mset ps = mset qs" "distinct (map (key_form \<circ> fst) ps)"
  shows "header_get ps k = header_get qs k"
proof -
  have same: "set ps = set qs" using assms(1) by (metis set_mset_mset)
  have dist: "distinct (map (key_form \<circ> fst) qs)"
    using assms mset_eq_imp_distinct_iff [of "map (key_form \<circ> fst) ps" "map (key_form \<circ> fst) qs"] by simp
  show ?thesis
  proof (cases "key_form k \<in> set (map (key_form \<circ> fst) ps)")
    case True
    then obtain k' v where p: "(k', v) \<in> set ps" "key_form k' = key_form k" by auto
    with same have "(k', v) \<in> set qs" by simp
    then show ?thesis using header_get_present p assms(2) dist by metis
  next
    case False
    then have "key_form k \<notin> set (map (key_form \<circ> fst) qs)" using same by simp
    with False show ?thesis using header_get_absent by metis
  qed
qed

lemma header_get_map: "header_get (map (\<lambda>(k, v). (k, normal_item v)) ps) k = normal_item (header_get ps k)"
  by (induction ps) auto

text \<open>The header that the decoder reads back.\<close>

definition normal_header :: "header \<Rightarrow> header" where
  "normal_header ps = by_written_key (map (\<lambda>(k, v). (k, normal_item v)) ps)"

lemma normal_Map: "normal_item (Map ps) = Map (normal_header ps)"
  by (simp add: normal_header_def)

lemma header_get_normal:
  assumes "well_keyed (Map ps)"
  shows "header_get (normal_header ps) k = normal_item (header_get ps k)"
proof -
  have "distinct (map (key_form \<circ> fst) (map (\<lambda>(k, v). (k, normal_item v)) ps))"
    using assms by (simp add: comp_def case_prod_beta')
  then have "header_get (map (\<lambda>(k, v). (k, normal_item v)) ps) k = header_get (normal_header ps) k"
    by (intro header_get_permuted) (simp_all add: normal_header_def by_written_key_def)
  then show ?thesis by (simp add: header_get_map)
qed

lemma cbor_decode_encoded:
  "cbor_encode v = Inr bs \<Longrightarrow> well_keyed v \<Longrightarrow> levels v \<le> depth \<Longrightarrow> cbor_decode depth bs = Inr (normal_item v)"
  using decode_encoded [of v bs depth "[]"] by (simp add: cbor_decode_def)

lemma optional_bytes_normal [simp]: "normal_item (optional_bytes p) = optional_bytes p" "well_keyed (optional_bytes p)"
    "levels (optional_bytes p) = 1" "payload_of (optional_bytes p) = Some p"
  by (simp_all add: optional_bytes_def payload_of_def split: option.split)

lemma normal_message:
  "normal_item (cose_message pb un p sig) = cose_message pb (normal_header un) p sig"
  "well_keyed (cose_message pb un p sig) = well_keyed (Map un)"
  "levels (cose_message pb un p sig) = Suc (Suc (levels (Map un)))"
  by (simp_all add: cose_message_def normal_Map del: normal_item.simps(2) well_keyed.simps(2) levels.simps(2))
     (simp_all add: normal_header_def)

text \<open>A message that was written decodes to its parts.\<close>

lemma cose_decode_message:
  assumes "cbor_encode (cose_message pb un p sig) = Inr data" "well_keyed (Map un)" "levels (Map un) + 2 \<le> depth"
    and "cbor_decode depth pb = Inr (Map hs)" "pb \<noteq> []"
  shows "cose_decode depth data =
    Inr \<lparr>cs_protected = hs, cs_protected_bytes = pb, cs_unprotected = normal_header un, cs_payload = p, cs_signature = sig\<rparr>"
proof -
  have "cbor_decode depth data = Inr (cose_message pb (normal_header un) p sig)"
    using cbor_decode_encoded [OF assms(1), of depth] assms(2,3) by (simp add: normal_message)
  then show ?thesis using assms(4,5) by (simp add: cose_decode_def cose_message_def message_of_def)
qed

lemma cbor_encode_nonempty: "cbor_encode v \<noteq> Inr []"
  by (cases v) (auto simp: both_Inr map_sum_Inr_iff head_def split: if_splits sum.splits)

text \<open>What the signer makes: its protected bytes, and the signature of its structure.\<close>

lemma sign1_Inr:
  assumes "sign1 protected p sign un detached = Inr data"
  obtains pb m where "cbor_encode (Map (put_all [(header_alg, Integer alg_eddsa)] protected)) = Inr pb"
    "sig_structure pb p = Inr m" "cbor_encode (cose_message pb un (if detached then None else Some p) (sign m)) = Inr data"
  using assms by (auto simp: sign1_def split: sum.splits)

lemma cose_verify_signed:
  assumes "header_get (cs_protected msg) header_alg = Integer alg_eddsa"
    and "(case cs_payload msg of Some q \<Rightarrow> q | None \<Rightarrow> p) = p" "sig_structure (cs_protected_bytes msg) p = Inr m"
    and "vf (cs_signature msg) m"
  shows "cose_verify vf msg (Some p) = Inr True"
  using assms by (auto simp: cose_verify_def to_be_signed_def split: option.splits)

section \<open>Properties\<close>

lemma sort_key_sorted: "sorted (map f xs) \<Longrightarrow> sort_key f xs = xs"
  by (induction xs) (simp_all add: insort_is_Cons)

lemma normal_encodes:
  "well_keyed v \<Longrightarrow> cbor_encode v = Inr bs \<Longrightarrow> cbor_encode (normal_item v) = Inr bs"
proof (induction v arbitrary: bs)
  case (Array xs)
  then have "map (cbor_encode \<circ> normal_item) xs = map cbor_encode xs"
    using joined_Inr by (fastforce simp: both_Inr list_all_iff)
  with Array.prems show ?case by (simp del: map_eq_conv)
next
  case (Map ps)
  then obtain items h where g: "gather (map (\<lambda>(k, v). (cbor_encode k, cbor_encode v)) ps) = Inr items"
    and h: "head 5 (length items) = Inr h" and bs: "bs = h @ concat (map (\<lambda>(k, v). k @ v) (sort_key fst items))"
    by (auto simp: map_sum_Inr_iff split: sum.splits)
  let ?qs = "by_written_key ps"
  have enc: "cbor_encode k = Inr (written k) \<and> cbor_encode (normal_item v) = Inr (written v)" if "(k, v) \<in> set ps" for k v
    using gather_Inr [OF g] Map.IH that Map.prems(1) by (fastforce simp: written_def list_all_iff)
  have gathered: "gather (map (\<lambda>(k, v). (cbor_encode k, cbor_encode v)) (map (\<lambda>(k, v). (k, normal_item v)) qs)) =
      Inr (map (\<lambda>(k, v). (written k, written v)) qs)" if "set qs \<subseteq> set ps" for qs
    using that enc by (induction qs) auto
  have "normal_item (Map ps) = Map (map (\<lambda>(k, v). (k, normal_item v)) ?qs)"
    by (simp add: by_written_key_def sort_key_of_map comp_def case_prod_beta')
  moreover have "sorted (map fst (map (\<lambda>(k, v). (written k, written v)) ?qs))"
    using sorted_sort_key [of "written \<circ> fst" ps] by (simp add: by_written_key_def comp_def case_prod_beta')
  moreover have "sort_key fst items = map (\<lambda>(k, v). (written k, written v)) ?qs"
    using gather_Inr [OF g] by (simp add: sort_key_of_map by_written_key_def comp_def case_prod_beta')
  moreover have "length ?qs = length items" using gather_Inr [OF g] by (simp add: by_written_key_def)
  ultimately show ?case using gathered [of ?qs] h by (simp add: bs sort_key_sorted by_written_key_def)
next
  case (Tag n v)
  then show ?case by (auto simp: both_Inr)
qed simp_all

text \<open>
  Property C38. CBOR round trip: what the encoder writes, the decoder reads back as the same value with the items
  of every map in the order of their encoded keys; that value is written as the same bytes, so two values with
  one encoding differ in the order of map items only. The value may hold what a dictionary can (hashable and
  distinct keys) and nest as deep as the recursion allows.
\<close>

theorem cbor_roundtrip:
  assumes "cbor_encode v = Inr bs" and "well_keyed v" and "levels v \<le> depth"
  shows "cbor_decode depth bs = Inr (normal_item v) \<and> cbor_encode (normal_item v) = Inr bs"
  using cbor_decode_encoded [OF assms] normal_encodes [OF assms(2,1)] by blast

text \<open>A map out of order, with bytes, text and a tag.\<close>

lemma be_bytes_numeral: "be_bytes (numeral k) n = be_bytes (pred_numeral k) (n div 256) @ [of_nat n]"
  by (simp only: numeral_eq_Suc [of k] be_bytes.simps)

definition sample_item :: cbor where
  "sample_item = Map [(Integer 396, Array [Bytes [1, 2], Null]), (Integer 1, Integer (- 8)), (Text [233], Tag 18 (Boolean True))]"

definition sample_item_bytes :: bytes where
  "sample_item_bytes = [0xA3, 0x01, 0x27, 0x19, 0x01, 0x8C, 0x82, 0x42, 0x01, 0x02, 0xF6, 0x62, 0xC3, 0xA9, 0xD2, 0xF5]"

lemma sample_item_encoded: "cbor_encode sample_item = Inr sample_item_bytes"
  by (simp add: sample_item_def sample_item_bytes_def head_def be_bytes_numeral both_def utf8_def utf8_char_def scalar_def)

theorem cbor_roundtrip_witness:
  "cbor_decode 4 sample_item_bytes = Inr (normal_item sample_item) \<and> cbor_encode (normal_item sample_item) = Inr sample_item_bytes"
  by (rule cbor_roundtrip [OF sample_item_encoded]) (simp_all add: sample_item_def)

end
