(* ===== verification/Scitt.thy ===== *)
theory Scitt
  imports Cose Py_Number Ledger_Properties
begin

text \<open>
  Ledger entries as SCITT signed statements with COSE receipts (\<open>ski_schemas/scitt.py\<close>) and the part of
  \<open>ski_model/evidence.py\<close> that makes them from a row of the ledger.

  SHA-256, the signature scheme, \<open>json.loads\<close> and the depth of the recursion are parameters.
\<close>

section \<open>Headers\<close>

definition content_type :: ustr where
  "content_type = ascii ''application/vnd.ski.ledger-entry+json''"

definition header_cwt_claims :: cbor where
  "header_cwt_claims = Integer 15"

definition header_receipts :: cbor where
  "header_receipts = Integer 394"

definition header_vds :: cbor where
  "header_vds = Integer 395"

definition header_vdp :: cbor where
  "header_vdp = Integer 396"

definition vds_rfc9162 :: cbor where
  "vds_rfc9162 = Integer 1"

definition inclusion_proofs :: cbor where
  "inclusion_proofs = Integer (- 1)"

section \<open>Making statements and receipts\<close>

text \<open>What is raised: \<open>ReceiptError\<close> and \<open>CborError\<close>, and exceptions that are neither.\<close>

datatype scitt_error =
    Receipt_Error string
  | Cbor_Failure cbor_error
  | Not_Canonical canon_error
  | Not_Hexadecimal
  | Bad_Proof proof_error
  | Missing_Field
  | Bad_Value
  | Not_A_Json

definition statement_payload :: "runtime \<Rightarrow> json \<Rightarrow> json \<Rightarrow> canon_error + bytes" where
  "statement_payload rt entry env =
     canonicalize rt (JObj [member ''ski_statement'' (JInt 1), member ''ledger_entry'' entry, member ''envelope'' env])"

text \<open>The tenant and the sequence number are the two fields that are read from the entry.\<close>

definition statement_claims :: "ustr option \<Rightarrow> int \<Rightarrow> string \<Rightarrow> int \<Rightarrow> header" where
  "statement_claims tenant seq kid issued_at =
     (let t = (case tenant of None \<Rightarrow> ascii ''default'' | Some t \<Rightarrow> if t = [] then ascii ''default'' else t)
      in [(Integer 1, Text (ascii ''ski:key:'' @ ascii kid)),
          (Integer 2, Text (ascii ''ski:ledger:'' @ t @ [58] @ int_text seq)),
          (Integer 6, Integer issued_at)])"

definition make_signed_statement ::
  "runtime \<Rightarrow> ustr option \<Rightarrow> int \<Rightarrow> json \<Rightarrow> json \<Rightarrow> string \<Rightarrow> int \<Rightarrow> (bytes \<Rightarrow> bytes) \<Rightarrow> scitt_error + bytes" where
  "make_signed_statement rt tenant seq entry env kid issued_at sign =
     (case statement_payload rt entry env of
        Inl e \<Rightarrow> Inl (Not_Canonical e)
      | Inr p \<Rightarrow>
          map_sum Cbor_Failure id
            (sign1 [(header_content_type, Text content_type), (header_kid, Bytes (utf8 (ascii kid))),
                    (header_cwt_claims, Map (statement_claims tenant seq kid issued_at))] p sign [] False))"

definition proof_item :: "nat \<Rightarrow> int \<Rightarrow> bytes list \<Rightarrow> cbor" where
  "proof_item n pos path = Array [Integer (int n), Integer pos, Array (map Bytes path)]"

definition make_receipt ::
  "(bytes \<Rightarrow> bytes) \<Rightarrow> string list \<Rightarrow> int \<Rightarrow> string \<Rightarrow> (bytes \<Rightarrow> bytes) \<Rightarrow> scitt_error + bytes" where
  "make_receipt sha hashes pos kid sign =
     (case inclusion_proof sha hashes pos of
        Inl e \<Rightarrow> Inl (Bad_Proof e)
      | Inr prf \<Rightarrow>
     (case (those (map from_hex prf), Option.bind (merkle_root sha hashes) from_hex) of
        (Some path, Some digest) \<Rightarrow>
          (case cbor_encode (proof_item (length hashes) pos path) of
             Inl e \<Rightarrow> Inl (Cbor_Failure e)
           | Inr item \<Rightarrow>
               map_sum Cbor_Failure id
                 (sign1 [(header_kid, Bytes (utf8 (ascii kid))), (header_vds, vds_rfc9162)] digest sign
                    [(header_vdp, Map [(inclusion_proofs, Array [Bytes item])])] True))
      | _ \<Rightarrow> Inl Not_Hexadecimal))"

definition transparent_statement :: "nat \<Rightarrow> bytes \<Rightarrow> bytes list \<Rightarrow> cbor_error + bytes" where
  "transparent_statement depth statement receipts =
     (case cose_decode depth statement of
        Inl e \<Rightarrow> Inl e
      | Inr msg \<Rightarrow>
          cbor_encode (cose_message (cs_protected_bytes msg)
            (put_item header_receipts (Array (map Bytes receipts)) (cs_unprotected msg)) (cs_payload msg) (cs_signature msg)))"

section \<open>Verifying them\<close>

fun falsy :: "cbor \<Rightarrow> bool" where
  "falsy Null = True"
| "falsy (Boolean b) = (\<not> b)"
| "falsy (Integer i) = (i = 0)"
| "falsy (Bytes b) = (b = [])"
| "falsy (Text t) = (t = [])"
| "falsy (Array xs) = (xs = [])"
| "falsy (Map ps) = (ps = [])"
| "falsy (Tag n v) = False"

fun cbor_int :: "cbor \<Rightarrow> int option" where
  "cbor_int (Integer i) = Some i"
| "cbor_int (Boolean b) = Some (if b then 1 else 0)"
| "cbor_int _ = None"

text \<open>What a \<open>for\<close> loop yields; \<open>None\<close> where Python raises.\<close>

fun loop_items :: "cbor \<Rightarrow> cbor list option" where
  "loop_items (Array xs) = Some xs"
| "loop_items (Map ps) = Some (map fst ps)"
| "loop_items (Bytes b) = Some (map (\<lambda>x. Integer (int (unat x))) b)"
| "loop_items (Text t) = Some (map (\<lambda>c. Text [c]) t)"
| "loop_items _ = None"

text \<open>The loop over the path.\<close>

definition receipt_step :: "(bytes \<Rightarrow> bytes) \<Rightarrow> bytes \<Rightarrow> nat \<times> nat \<times> bytes \<Rightarrow> nat \<times> nat \<times> bytes" where
  "receipt_step sha p = (\<lambda>(fn, sn, r).
     (if odd fn \<or> fn = sn then
        (let (fn, sn) = strip_zeros fn sn in (fn div 2, sn div 2, node_hash sha p r))
      else (fn div 2, sn div 2, node_hash sha r p)))"

fun receipt_loop :: "(bytes \<Rightarrow> bytes) \<Rightarrow> cbor list \<Rightarrow> nat \<times> nat \<times> bytes \<Rightarrow> scitt_error + nat \<times> nat \<times> bytes" where
  "receipt_loop sha [] s = Inr s"
| "receipt_loop sha (p # ps) s =
     (case p of
        Bytes b \<Rightarrow> if fst (snd s) = 0 then Inl (Receipt_Error ''path'') else receipt_loop sha ps (receipt_step sha b s)
      | _ \<Rightarrow> Inl (Receipt_Error ''path''))"

text \<open>The inclusion proof that a receipt carries: size, index and path.\<close>

definition receipt_proof :: "nat \<Rightarrow> cose_sign1 \<Rightarrow> scitt_error + int \<times> int \<times> cbor" where
  "receipt_proof depth msg =
     (if header_get (cs_protected msg) header_vds \<noteq> vds_rfc9162 \<and> header_get (cs_protected msg) header_vds \<noteq> Boolean True
      then Inl (Receipt_Error ''vds'')
      else
        (let vdp = header_get (cs_unprotected msg) header_vdp in
         case (if falsy vdp then Map [] else vdp) of
           Map ps \<Rightarrow>
             (case header_get ps inclusion_proofs of
                Array (Bytes b # _) \<Rightarrow>
                  (case cbor_decode depth b of
                     Inl e \<Rightarrow> Inl (Cbor_Failure e)
                   | Inr (Array [tree_size, leaf_index, path]) \<Rightarrow>
                       (case (cbor_int tree_size, cbor_int leaf_index) of
                          (Some n, Some i) \<Rightarrow>
                            if 0 \<le> i \<and> i < n then Inr (n, i, path) else Inl (Receipt_Error ''index'')
                        | _ \<Rightarrow> Inl (Receipt_Error ''index''))
                   | Inr _ \<Rightarrow> Inl (Receipt_Error ''proof''))
              | _ \<Rightarrow> Inl (Receipt_Error ''no proof''))
         | _ \<Rightarrow> Inl Bad_Value))"

text \<open>\<open>bytes.fromhex\<close> on text that may not be ASCII.\<close>

definition text_hex :: "ustr \<Rightarrow> bytes option" where
  "text_hex t = (if list_all (\<lambda>c. c < 256) t then from_hex (map char_of t) else None)"

definition receipt_root ::
  "(bytes \<Rightarrow> bytes) \<Rightarrow> nat \<Rightarrow> cose_sign1 \<Rightarrow> ustr \<Rightarrow> scitt_error + bytes \<times> int \<times> int" where
  "receipt_root sha depth msg entry_hash =
     (case receipt_proof depth msg of
        Inl e \<Rightarrow> Inl e
      | Inr (n, i, path) \<Rightarrow>
     (case text_hex entry_hash of
        None \<Rightarrow> Inl Not_Hexadecimal
      | Some h \<Rightarrow>
     (case loop_items path of
        None \<Rightarrow> Inl Bad_Value
      | Some ps \<Rightarrow>
     (case receipt_loop sha ps (nat i, nat (n - 1), leaf_hash sha h) of
        Inl e \<Rightarrow> Inl e
      | Inr (fn, sn, r) \<Rightarrow> if sn \<noteq> 0 then Inl (Receipt_Error ''path'') else Inr (r, n, i)))))"

text \<open>The fields of the payload that are read.\<close>

definition json_field :: "string \<Rightarrow> json \<Rightarrow> json option" where
  "json_field name j = (case j of JObj ms \<Rightarrow> map_of ms (Some (ascii name)) | _ \<Rightarrow> None)"

text \<open>\<open>str(value)\<close>, as far as it can be hexadecimal: the text of another value holds a character that is no digit.\<close>

definition hash_text :: "json \<Rightarrow> ustr" where
  "hash_text j = (case j of JStr t \<Rightarrow> t | JInt i \<Rightarrow> int_text i | _ \<Rightarrow> ascii ''None'')"

text \<open>\<open>int(value)\<close>; \<open>None\<close> where Python raises.\<close>

definition json_int :: "json \<Rightarrow> int option" where
  "json_int j =
     (case j of
        JInt i \<Rightarrow> Some i
      | JBool b \<Rightarrow> Some (if b then 1 else 0)
      | JFloat x \<Rightarrow> (case to_int (PyFloat x) of Inl _ \<Rightarrow> None | Inr n \<Rightarrow> Some n)
      | JStr t \<Rightarrow> if list_all (\<lambda>c. c < 128) t then py_int (map char_of t) else None
      | _ \<Rightarrow> None)"

text \<open>
  A receipt in the header: bytes, or an array of numbers, which the decoder reads in the same way. An array with
  another item is taken to fail.
\<close>

definition raw_receipt :: "cbor \<Rightarrow> bytes option" where
  "raw_receipt v =
     (case v of
        Bytes b \<Rightarrow> Some b
      | Array xs \<Rightarrow>
          if list_all (\<lambda>x. \<exists>i \<in> {0..<256}. x = Integer i) xs
          then Some (map (\<lambda>x. case x of Integer i \<Rightarrow> of_int i | _ \<Rightarrow> 0) xs) else None
      | _ \<Rightarrow> None)"

definition verify_receipt ::
  "(bytes \<Rightarrow> bytes) \<Rightarrow> (bytes \<Rightarrow> bytes \<Rightarrow> bool) \<Rightarrow> nat \<Rightarrow> ustr \<Rightarrow> json option \<Rightarrow> cbor \<Rightarrow> scitt_error + bytes \<times> int" where
  "verify_receipt sha vf depth entry_hash seq raw =
     (case raw_receipt raw of
        None \<Rightarrow> Inl Bad_Value
      | Some b \<Rightarrow>
     (case cose_decode depth b of
        Inl e \<Rightarrow> Inl (Cbor_Failure e)
      | Inr msg \<Rightarrow>
     (case receipt_root sha depth msg entry_hash of
        Inl e \<Rightarrow> Inl e
      | Inr (r, n, i) \<Rightarrow>
     (case seq of
        None \<Rightarrow> Inl Missing_Field
      | Some j \<Rightarrow>
     (case json_int j of
        None \<Rightarrow> Inl Bad_Value
      | Some k \<Rightarrow>
          if i \<noteq> k - 1 then Inl (Receipt_Error ''position'')
          else if header_get (cs_protected msg) header_alg \<noteq> Integer alg_eddsa then Inl (Receipt_Error ''signature'')
          else (case cose_verify vf msg (Some r) of
              Inl e \<Rightarrow> Inl (Cbor_Failure e)
            | Inr ok \<Rightarrow> if ok then Inr (r, n) else Inl (Receipt_Error ''signature'')))))))"

fun verify_receipts ::
  "(cbor \<Rightarrow> scitt_error + bytes \<times> int) \<Rightarrow> cbor list \<Rightarrow> scitt_error + (bytes \<times> int) list" where
  "verify_receipts f [] = Inr []"
| "verify_receipts f (x # xs) = (case f x of Inl e \<Rightarrow> Inl e | Inr r \<Rightarrow> map_sum id ((#) r) (verify_receipts f xs))"

definition statement_error :: "cbor_error \<Rightarrow> scitt_error" where
  "statement_error e = (case e of Cbor_Error _ \<Rightarrow> Receipt_Error ''statement'' | _ \<Rightarrow> Cbor_Failure e)"

definition verify_transparent_statement ::
  "(bytes \<Rightarrow> bytes) \<Rightarrow> (bytes \<Rightarrow> json option) \<Rightarrow> (bytes \<Rightarrow> bytes \<Rightarrow> bool) \<Rightarrow> nat \<Rightarrow> bytes
     \<Rightarrow> scitt_error + json \<times> (bytes \<times> int) list" where
  "verify_transparent_statement sha loads vf depth data =
     (case cose_decode depth data of
        Inl e \<Rightarrow> Inl (statement_error e)
      | Inr msg \<Rightarrow>
     (case (cs_payload msg, cose_verify vf msg None) of
        (Some p, Inl e) \<Rightarrow> Inl (Cbor_Failure e)
      | (Some p, Inr True) \<Rightarrow>
          if header_get (cs_protected msg) header_content_type \<noteq> Text content_type then Inl (Receipt_Error ''content type'')
          else (case loads p of
              None \<Rightarrow> Inl Not_A_Json
            | Some doc \<Rightarrow>
           (case Option.bind (json_field ''ledger_entry'' doc) (json_field ''entry_hash'') of
              None \<Rightarrow> Inl Missing_Field
            | Some h \<Rightarrow>
                (let raws = header_get (cs_unprotected msg) header_receipts in
                 case (if falsy raws then Some [] else loop_items raws) of
                   None \<Rightarrow> Inl Bad_Value
                 | Some xs \<Rightarrow>
                     map_sum id (Pair doc)
                       (verify_receipts
                          (verify_receipt sha vf depth (hash_text h)
                             (Option.bind (json_field ''ledger_entry'' doc) (json_field ''sequence_number''))) xs))))
      | _ \<Rightarrow> Inl (Receipt_Error ''signature'')))"

section \<open>The evidence of a ledger entry\<close>

text \<open>\<open>LedgerClient.evidence\<close> strips the columns of hashes and key ids.\<close>

definition stripped_column :: "string option \<Rightarrow> json" where
  "stripped_column v = opt_hash (map_option py_strip v)"

definition statement_entry :: "world \<Rightarrow> ledger_row \<Rightarrow> json" where
  "statement_entry w r =
     JObj [member ''sequence_number'' (JInt (l_seq r)), member ''entry_hash'' (stripped_column (Some (l_hash r))),
           member ''previous_hash'' (stripped_column (Some (l_prev r))), member ''timestamp'' (JStr (w_iso_session w (l_time r))),
           member ''tenant_id'' (opt_text (l_tenant r)), member ''verdict'' (JStr (l_verdict r)),
           member ''telemetry_id'' (JStr (l_tid r)), member ''telemetry_hash'' (stripped_column (Some (l_thash r))),
           member ''rule_id'' (opt_text (l_rule r)), member ''kg_version_hash'' (stripped_column (l_kg_hash r)),
           member ''model_weight_hash'' (stripped_column (l_weight_hash r)), member ''schema_version'' (opt_text (l_schema r)),
           member ''verifier_status'' (opt_text (l_verifier_status r)), member ''envelope_hash'' (stripped_column (l_envelope_hash r)),
           member ''signing_key_id'' (stripped_column (l_signing_key r)), member ''verdict_signature'' (opt_hash (l_verdict_signature r)),
           member ''verdict_signing_key_id'' (stripped_column (l_verdict_key r))]"

record scitt_evidence =
  sx_statement :: bytes
  sx_receipt :: "bytes option"
  sx_tree_size :: "nat option"
  sx_transparent :: bytes

text \<open>The signer yields hexadecimal text. \<open>parsed\<close> is the value of a JSON column.\<close>

definition sign_bytes :: "signer \<Rightarrow> bytes \<Rightarrow> bytes" where
  "sign_bytes s m = (case from_hex (s_sign s m) of None \<Rightarrow> [] | Some b \<Rightarrow> b)"

definition ledger_receipt :: "world \<Rightarrow> signer \<Rightarrow> int \<Rightarrow> string list option \<Rightarrow> scitt_error + bytes option" where
  "ledger_receipt w s seq hashes =
     (case hashes of
        Some (h # hs) \<Rightarrow> map_sum id Some (make_receipt (w_sha w) (h # hs) (seq - 1) (s_key_id s) (sign_bytes s))
      | _ \<Rightarrow> Inr None)"

definition ledger_evidence ::
  "world \<Rightarrow> (ustr \<Rightarrow> json) \<Rightarrow> nat \<Rightarrow> signer \<Rightarrow> int \<Rightarrow> ledger_row \<times> string list option \<Rightarrow> scitt_error + scitt_evidence" where
  "ledger_evidence w parsed depth s issued_at = (\<lambda>(r, hashes).
     (case make_signed_statement (w_runtime w) (l_tenant r) (l_seq r) (statement_entry w r)
             (case l_envelope r of None \<Rightarrow> JNull | Some t \<Rightarrow> parsed t) (s_key_id s) issued_at (sign_bytes s) of
        Inl e \<Rightarrow> Inl e
      | Inr statement \<Rightarrow>
     (case ledger_receipt w s (l_seq r) hashes of
        Inl e \<Rightarrow> Inl e
      | Inr receipt \<Rightarrow>
          map_sum Cbor_Failure
            (\<lambda>t. \<lparr>sx_statement = statement, sx_receipt = receipt,
                  sx_tree_size = (case hashes of Some (h # hs) \<Rightarrow> Some (length (h # hs)) | _ \<Rightarrow> None), sx_transparent = t\<rparr>)
            (transparent_statement depth statement (case receipt of None \<Rightarrow> [] | Some b \<Rightarrow> [b])))))"

section \<open>The loop of a receipt is the loop of an inclusion proof\<close>

lemma ascii_hex [simp]: "text_hex (ascii h) = from_hex h"
proof -
  have "of_char c < (256 :: nat)" for c :: char by (metis of_char_mod_256 mod_less_divisor zero_less_numeral)
  then show ?thesis by (simp add: text_hex_def ascii_def list_all_iff comp_def)
qed

lemma receipt_loop_bytes:
  "receipt_loop sha (map Bytes ps) s = (case verify_run sha ps s of None \<Rightarrow> Inl (Receipt_Error ''path'') | Some s' \<Rightarrow> Inr s')"
proof (induction ps arbitrary: s)
  case (Cons p ps)
  obtain fn sn r where s: "s = (fn, sn, r)" by (cases s)
  have "sn \<noteq> 0 \<Longrightarrow> verify_step sha p s = Some (receipt_step sha p s)"
    by (auto simp: s verify_step_def receipt_step_def strip_zeros_odd split: prod.splits)
  then show ?case using Cons by (cases "sn = 0") (auto simp: s)
qed simp

text \<open>
  On a receipt whose path is an array of byte strings, \<open>receipt_root\<close> returns a root exactly when
  \<open>verify_inclusion\<close> accepts the same path for it.
\<close>

lemma receipt_root_agrees:
  assumes "receipt_proof depth msg = Inr (n, i, Array (map Bytes ps))"
  shows "receipt_root sha depth msg (ascii h) = Inr (r, n, i) \<longleftrightarrow>
    verify_inclusion sha h i n (map to_hex ps) (to_hex r) = Some True"
proof -
  have i: "0 \<le> i \<and> i < n"
    using assms by (auto simp: receipt_proof_def Let_def split: if_splits cbor.splits list.splits sum.splits option.splits)
  show ?thesis
  proof (cases "from_hex h")
    case (Some e)
    then show ?thesis using i
      by (cases "verify_run sha ps (nat i, nat (n - 1), leaf_hash sha e)")
         (auto simp: receipt_root_def assms verify_inclusion_def receipt_loop_bytes verify_loop_to_hex split: if_splits)
  qed (simp add: receipt_root_def assms verify_inclusion_def i)
qed

section \<open>What is made verifies\<close>

lemmas headers = header_alg_def header_content_type_def header_kid_def header_cwt_claims_def header_receipts_def header_vds_def
  header_vdp_def inclusion_proofs_def vds_rfc9162_def alg_eddsa_def

lemma map_sum_left_Inr [simp]: "map_sum f id x = Inr t \<longleftrightarrow> x = Inr t"
  by (cases x) auto

lemma map_sum_any_Inr: "map_sum g f x = Inr y \<longleftrightarrow> (\<exists>z. x = Inr z \<and> y = f z)"
  by (cases x) auto

lemma those_map_to_hex [simp]: "those (map from_hex (map to_hex ps)) = Some ps"
  by (induction ps) auto

lemma merkle_root_bytes: "Option.bind (merkle_root sha hs) from_hex = Some d \<Longrightarrow> merkle_root sha hs = Some (to_hex d)"
  by (cases "raw_hashes hs") (auto simp: merkle_root_def split: if_splits)

text \<open>A signed message decodes to its header, and its signature verifies.\<close>

lemma signed_message:
  assumes "sign1 protected p sign un detached = Inr data" and hs: "hs = put_all [(header_alg, Integer alg_eddsa)] protected"
    and "well_keyed (Map hs)" "levels (Map hs) \<le> depth" "well_keyed (Map un)" "levels (Map un) + 2 \<le> depth"
  shows "\<exists>pb m. sig_structure pb p = Inr m \<and> cbor_decode depth pb = Inr (Map (normal_header hs)) \<and> pb \<noteq> [] \<and>
    cose_decode depth data = Inr \<lparr>cs_protected = normal_header hs, cs_protected_bytes = pb, cs_unprotected = normal_header un,
      cs_payload = (if detached then None else Some p), cs_signature = sign m\<rparr>"
proof -
  from assms(1) obtain pb m where pb: "cbor_encode (Map hs) = Inr pb" "sig_structure pb p = Inr m"
      "cbor_encode (cose_message pb un (if detached then None else Some p) (sign m)) = Inr data"
    by (rule sign1_Inr) (simp add: hs)
  have "cbor_decode depth pb = Inr (Map (normal_header hs))"
    using cbor_decode_encoded [OF pb(1) assms(3,4)] by (simp only: normal_Map)
  moreover have "pb \<noteq> []" using pb(1) cbor_encode_nonempty by metis
  ultimately show ?thesis using pb(2) cose_decode_message [OF pb(3) assms(5,6)] by blast
qed

lemma proof_item_read:
  assumes "cbor_encode (proof_item n pos path) = Inr item" "3 \<le> depth"
  shows "cbor_decode depth item = Inr (proof_item n pos path)"
proof -
  have "foldr max (map (\<lambda>x. 1) path) 0 \<le> (1 :: nat)" by (simp add: foldr_max_le)
  then have "levels (proof_item n pos path) \<le> depth" "well_keyed (proof_item n pos path)"
    using assms(2) by (auto simp: proof_item_def comp_def list_all_iff)
  from cbor_decode_encoded [OF assms(1) this(2,1)] show ?thesis by (simp add: proof_item_def comp_def)
qed

lemma receipt_verifies:
  assumes made: "make_receipt sha hashes pos kid sign = Inr raw" and "0 \<le> pos" "pos < int (length hashes)" "6 \<le> depth"
    and scheme: "\<forall>m. vf (sign m) m"
    and accepted: "\<forall>pf digest. inclusion_proof sha hashes pos = Inr pf \<and> merkle_root sha hashes = Some digest \<longrightarrow>
      verify_inclusion sha h pos (int (length hashes)) pf digest = Some True"
  shows "\<exists>digest. merkle_root sha hashes = Some (to_hex digest) \<and>
    verify_receipt sha vf depth (ascii h) (Some (JInt (pos + 1))) (Bytes raw) = Inr (digest, int (length hashes))"
proof -
  let ?un = "\<lambda>item. [(header_vdp, Map [(inclusion_proofs, Array [Bytes item])])]"
  let ?protected = "[(header_kid, Bytes (utf8 (ascii kid))), (header_vds, vds_rfc9162)]"
  from made obtain pf path digest item where *: "inclusion_proof sha hashes pos = Inr pf" "those (map from_hex pf) = Some path"
      "Option.bind (merkle_root sha hashes) from_hex = Some digest" "cbor_encode (proof_item (length hashes) pos path) = Inr item"
      "sign1 ?protected digest sign (?un item) True = Inr raw"
    by (auto simp: make_receipt_def map_sum_Inr split: sum.splits option.splits)
  have path: "pf = map to_hex path"
    using *(1,2) by (auto simp: inclusion_proof_def simp del: map_map split: option.splits if_splits)
  define hs where "hs = (header_alg, Integer alg_eddsa) # ?protected"
  have hs: "hs = put_all [(header_alg, Integer alg_eddsa)] ?protected" by (simp add: hs_def put_all_def headers)
  have keyed: "well_keyed (Map hs)" "levels (Map hs) \<le> depth" "well_keyed (Map (?un item))" "levels (Map (?un item)) + 2 \<le> depth"
    using assms(4) by (simp_all add: hs_def headers)
  from signed_message [OF *(5) hs keyed] obtain pb m where m: "sig_structure pb digest = Inr m"
    and msg: "cose_decode depth raw = Inr \<lparr>cs_protected = normal_header hs, cs_protected_bytes = pb,
       cs_unprotected = normal_header (?un item), cs_payload = None, cs_signature = sign m\<rparr>" (is "_ = Inr ?msg")
    by auto
  have "header_get (normal_header hs) header_vds = vds_rfc9162" "header_get (normal_header hs) header_alg = Integer alg_eddsa"
    unfolding header_get_normal [OF keyed(1)] by (simp_all add: hs_def headers)
  note protected = this
  have "header_get (normal_header (?un item)) header_vdp = Map [(inclusion_proofs, Array [Bytes item])]"
    unfolding header_get_normal [OF keyed(3)] by (simp add: headers by_written_key_def)
  moreover have "cbor_decode depth item = Inr (proof_item (length hashes) pos path)"
    using proof_item_read [OF *(4)] assms(4) by simp
  ultimately have "receipt_proof depth ?msg = Inr (int (length hashes), pos, Array (map Bytes path))"
    using protected(1) assms(2,3) by (simp add: receipt_proof_def proof_item_def headers)
  moreover have root: "merkle_root sha hashes = Some (to_hex digest)" using merkle_root_bytes [OF *(3)] .
  ultimately have "receipt_root sha depth ?msg (ascii h) = Inr (digest, int (length hashes), pos)"
    using receipt_root_agrees accepted *(1) root path by blast
  moreover have "cose_verify vf ?msg (Some digest) = Inr True"
    using protected(2) m scheme [rule_format] by (intro cose_verify_signed) auto
  ultimately show ?thesis
    using protected(2) root by (simp add: verify_receipt_def raw_receipt_def msg json_int_def)
qed

text \<open>A statement decodes to its header and payload, with an empty unprotected header.\<close>

definition statement_header :: "ustr option \<Rightarrow> int \<Rightarrow> string \<Rightarrow> int \<Rightarrow> header" where
  "statement_header tenant seq kid issued_at =
     [(header_alg, Integer alg_eddsa), (header_content_type, Text content_type), (header_kid, Bytes (utf8 (ascii kid))),
      (header_cwt_claims, Map (statement_claims tenant seq kid issued_at))]"

lemma statement_header_facts:
  "well_keyed (Map (statement_header tenant seq kid issued_at))" "levels (Map (statement_header tenant seq kid issued_at)) \<le> 6"
  by (simp_all add: statement_header_def headers statement_claims_def Let_def)

lemma statement_decodes:
  assumes made: "make_signed_statement rt tenant seq entry env kid issued_at sign = Inr st" and "6 \<le> depth"
  shows "\<exists>p pb m. statement_payload rt entry env = Inr p \<and> sig_structure pb p = Inr m \<and> pb \<noteq> [] \<and>
    cbor_decode depth pb = Inr (Map (normal_header (statement_header tenant seq kid issued_at))) \<and>
    encodable_item (cose_message pb [] (Some p) (sign m)) \<and>
    cose_decode depth st = Inr \<lparr>cs_protected = normal_header (statement_header tenant seq kid issued_at), cs_protected_bytes = pb,
      cs_unprotected = [], cs_payload = Some p, cs_signature = sign m\<rparr>"
proof -
  let ?protected = "[(header_content_type, Text content_type), (header_kid, Bytes (utf8 (ascii kid))),
      (header_cwt_claims, Map (statement_claims tenant seq kid issued_at))]"
  let ?hs = "statement_header tenant seq kid issued_at"
  from made obtain p where p: "statement_payload rt entry env = Inr p" "sign1 ?protected p sign [] False = Inr st"
    by (auto simp: make_signed_statement_def map_sum_Inr split: sum.splits)
  have hs: "put_all [(header_alg, Integer alg_eddsa)] ?protected = ?hs" by (simp add: statement_header_def put_all_def headers)
  from sign1_Inr [OF p(2)] obtain pb m where pb: "cbor_encode (Map ?hs) = Inr pb" "sig_structure pb p = Inr m"
      "cbor_encode (cose_message pb [] (Some p) (sign m)) = Inr st"
    unfolding hs by auto
  have "levels (Map ?hs) \<le> depth" using statement_header_facts(2) assms(2) by (rule order_trans)
  with cbor_decode_encoded [OF pb(1) statement_header_facts(1)]
  have read: "cbor_decode depth pb = Inr (Map (normal_header ?hs))" by (simp only: normal_Map)
  have "pb \<noteq> []" using pb(1) cbor_encode_nonempty by metis
  moreover from cose_decode_message [OF pb(3) _ _ read this] assms(2)
  have "cose_decode depth st = Inr \<lparr>cs_protected = normal_header ?hs, cs_protected_bytes = pb,
      cs_unprotected = [], cs_payload = Some p, cs_signature = sign m\<rparr>"
    by (simp add: normal_header_def by_written_key_def)
  ultimately show ?thesis using p(1) pb(2,3) read cbor_encode_iff by blast
qed

lemma receipts_attach:
  assumes "make_signed_statement rt tenant seq entry env kid issued_at sign = Inr st" "6 \<le> depth"
    and "length rs < 2 ^ 64" "\<forall>r \<in> set rs. length r < 2 ^ 64"
  shows "\<exists>t. transparent_statement depth st rs = Inr t"
proof -
  from statement_decodes [OF assms(1,2)] obtain p pb m where enc: "encodable_item (cose_message pb [] (Some p) (sign m))"
    and st: "cose_decode depth st = Inr \<lparr>cs_protected = normal_header (statement_header tenant seq kid issued_at), cs_protected_bytes = pb,
      cs_unprotected = [], cs_payload = Some p, cs_signature = sign m\<rparr>"
    by blast
  from enc have "encodable_item (cose_message pb [(header_receipts, Array (map Bytes rs))] (Some p) (sign m))"
    using assms(3,4) by (simp add: cose_message_def optional_bytes_def headers list_all_iff)
  then show ?thesis using cbor_encode_iff by (simp add: transparent_statement_def st)
qed

lemma statement_verifies:
  assumes made: "make_signed_statement rt tenant seq entry env kid issued_at sign = Inr st"
    and "transparent_statement depth st rs = Inr t" and "6 \<le> depth" and scheme: "\<forall>m. vf (sign m) m"
    and doc: "\<forall>p. statement_payload rt entry env = Inr p \<longrightarrow> loads p = Some doc"
    and fields: "Option.bind (json_field ''ledger_entry'' doc) (json_field ''entry_hash'') = Some (JStr h)"
      "Option.bind (json_field ''ledger_entry'' doc) (json_field ''sequence_number'') = Some j"
  shows "verify_transparent_statement sha loads vf depth t =
    map_sum id (Pair doc) (verify_receipts (verify_receipt sha vf depth h (Some j)) (map Bytes rs))"
proof -
  let ?un = "[(header_receipts, Array (map Bytes rs))]" and ?hs = "statement_header tenant seq kid issued_at"
  from statement_decodes [OF made assms(3)] obtain p pb m where p: "statement_payload rt entry env = Inr p"
    and m: "sig_structure pb p = Inr m" and pb: "pb \<noteq> []" "cbor_decode depth pb = Inr (Map (normal_header ?hs))"
    and st: "cose_decode depth st = Inr \<lparr>cs_protected = normal_header ?hs, cs_protected_bytes = pb,
      cs_unprotected = [], cs_payload = Some p, cs_signature = sign m\<rparr>"
    by blast
  have "foldr max (map (\<lambda>x. 1) rs) 0 \<le> (1 :: nat)" by (simp add: foldr_max_le)
  then have keyed: "well_keyed (Map ?un)" "levels (Map ?un) + 2 \<le> depth"
    using assms(3) by (auto simp: headers comp_def list_all_iff)
  have "cbor_encode (cose_message pb ?un (Some p) (sign m)) = Inr t"
    using assms(2) by (simp add: transparent_statement_def st)
  from cose_decode_message [OF this keyed pb(2,1)]
  have msg: "cose_decode depth t = Inr \<lparr>cs_protected = normal_header ?hs, cs_protected_bytes = pb,
      cs_unprotected = normal_header ?un, cs_payload = Some p, cs_signature = sign m\<rparr>" (is "_ = Inr ?msg") .
  have protected: "header_get (normal_header ?hs) header_content_type = Text content_type"
    "header_get (normal_header ?hs) header_alg = Integer alg_eddsa"
    unfolding header_get_normal [OF statement_header_facts(1)] by (simp_all add: statement_header_def headers)
  have raws: "header_get (normal_header ?un) header_receipts = Array (map Bytes rs)"
    unfolding header_get_normal [OF keyed(1)] by (simp add: headers comp_def)
  have "cose_verify vf ?msg None = Inr True"
    using protected(2) m scheme by (simp add: cose_verify_def to_be_signed_def)
  then show ?thesis
    using protected(1) raws doc p fields
    by (cases rs) (simp_all add: verify_transparent_statement_def msg hash_text_def)
qed

end
