(* ===== verification/Scitt_Properties.thy ===== *)
theory Scitt_Properties
  imports Scitt
begin

text \<open>
  What a holder of a transparent statement may conclude (\<open>ski_schemas/scitt.py\<close>), for statements that are made from
  the ledger, and what a receipt with an attached payload gets past the verification.
\<close>

section \<open>Receipts of the ledger\<close>

lemma receipt_accepted:
  assumes "inclusion_proof sha hashes pos = Inr pf" "merkle_root sha hashes = Some digest"
  shows "0 \<le> pos \<and> pos < int (length hashes) \<and>
    verify_inclusion sha (hashes ! nat pos) pos (int (length hashes)) pf digest = Some True"
proof -
  from assms(1) obtain leaves where leaves: "raw_hashes hashes = Some leaves" and pos: "0 \<le> pos" "pos < int (length hashes)"
    using raw_hashes_length by (fastforce simp: inclusion_proof_def split: option.splits if_splits)
  with proof_exists [OF leaves, of "nat pos" sha] assms show ?thesis by (auto simp: nat_less_iff)
qed

lemma made_statement_verifies:
  assumes "make_signed_statement rt tenant (pos + 1) entry env kid issued_at sign = Inr st"
    and "make_receipt sha hashes pos kid sign = Inr rc"
    and "transparent_statement depth st [rc] = Inr t" "6 \<le> depth" "\<forall>m. vf (sign m) m"
    and "\<forall>p. statement_payload rt entry env = Inr p \<longrightarrow> loads p = Some doc"
    and "Option.bind (json_field ''ledger_entry'' doc) (json_field ''entry_hash'') = Some (JStr (ascii (hashes ! nat pos)))"
    and "Option.bind (json_field ''ledger_entry'' doc) (json_field ''sequence_number'') = Some (JInt (pos + 1))"
  shows "\<exists>digest. merkle_root sha hashes = Some (to_hex digest) \<and>
    verify_transparent_statement sha loads vf depth t = Inr (doc, [(digest, int (length hashes))])"
proof -
  from assms(2) obtain pf digest where pf: "inclusion_proof sha hashes pos = Inr pf"
      and root: "Option.bind (merkle_root sha hashes) from_hex = Some digest"
    by (auto simp: make_receipt_def split: sum.splits option.splits)
  note pos = receipt_accepted [OF pf merkle_root_bytes [OF root]]
  have "\<exists>digest. merkle_root sha hashes = Some (to_hex digest) \<and>
    verify_receipt sha vf depth (ascii (hashes ! nat pos)) (Some (JInt (pos + 1))) (Bytes rc) = Inr (digest, int (length hashes))"
  proof (rule receipt_verifies [OF assms(2) _ _ assms(4)])
    show "\<forall>pf digest. inclusion_proof sha hashes pos = Inr pf \<and> merkle_root sha hashes = Some digest \<longrightarrow>
        verify_inclusion sha (hashes ! nat pos) pos (int (length hashes)) pf digest = Some True"
      using receipt_accepted by blast
  qed (use pos assms(5) in auto)
  then show ?thesis
    using statement_verifies [where vf = vf and sign = sign and loads = loads, OF assms(1,3,4,5,6,7,8), of sha] by auto
qed

text \<open>
  The evidence of a covered entry: its transparent statement verifies, with the root of a checkpoint that the
  runtime signed.
\<close>

definition reads_statement :: "world \<Rightarrow> (ustr \<Rightarrow> json) \<Rightarrow> (bytes \<Rightarrow> json option) \<Rightarrow> ledger_row \<Rightarrow> json \<Rightarrow> bool" where
  "reads_statement w parsed loads r doc \<longleftrightarrow>
     (\<forall>p. statement_payload (w_runtime w) (statement_entry w r) (case l_envelope r of None \<Rightarrow> JNull | Some t \<Rightarrow> parsed t) = Inr p \<longrightarrow>
        loads p = Some doc) \<and>
     Option.bind (json_field ''ledger_entry'' doc) (json_field ''entry_hash'') = Some (JStr (ascii (l_hash r))) \<and>
     Option.bind (json_field ''ledger_entry'' doc) (json_field ''sequence_number'') = Some (JInt (l_seq r))"

lemma covered_entry_is_transparent:
  assumes "\<And>x. length (w_sha w x) = 32" and "ledger_run w cl s authority db" and "i < length (entries db)"
    and "cp \<in> set (checkpoints db)" "c_tenant cp = tenant_id cl" "1 + int i \<le> c_size cp"
    and "evidence cl db (1 + int i) = Some e" and "ledger_evidence w parsed depth s issued_at e = Inr x" "6 \<le> depth"
    and "\<forall>m. vf (sign_bytes s m) m" and "reads_statement w parsed loads (entries db ! i) doc"
  shows "\<exists>cp' digest. cp' \<in> set (checkpoints db) \<and> c_root cp' = to_hex digest \<and>
    verify_transparent_statement (w_sha w) loads vf depth (sx_transparent x) = Inr (doc, [(digest, c_size cp')])"
proof -
  from covered_evidence [OF assms(1-6)] obtain hashes cp' where ev: "evidence cl db (1 + int i) = Some (entries db ! i, Some hashes)"
    and cp': "cp' \<in> set (checkpoints db)" "c_size cp' = int (length hashes)" "merkle_root (w_sha w) hashes = Some (c_root cp')"
    and h: "hashes ! i = l_hash (entries db ! i)" "i < length hashes"
    by blast
  let ?r = "entries db ! i" and ?env = "case l_envelope (entries db ! i) of None \<Rightarrow> JNull | Some t \<Rightarrow> parsed t"
  have seq: "l_seq ?r = int i + 1" using ledger_run_linked [OF assms(2)] assms(3) by (simp add: linked_def link_at_def)
  from assms(7,8) ev h(2) seq obtain st rc where st: "make_signed_statement (w_runtime w) (l_tenant ?r) (int i + 1) (statement_entry w ?r) ?env
        (s_key_id s) issued_at (sign_bytes s) = Inr st"
      and rc: "make_receipt (w_sha w) hashes (int i) (s_key_id s) (sign_bytes s) = Inr rc"
      and t: "transparent_statement depth st [rc] = Inr (sx_transparent x)"
    by (cases hashes) (auto simp: ledger_evidence_def ledger_receipt_def map_sum_any_Inr split: sum.splits)
  from made_statement_verifies [where vf = vf and loads = loads and doc = doc, OF st rc t assms(9,10)] assms(11) h(1) seq cp'
  show ?thesis by (auto simp: reads_statement_def)
qed

section \<open>Properties\<close>

text \<open>
  Property C12. What the runtime makes verifies. A signed statement for an entry and a receipt for its place among
  the entry hashes, put together as a transparent statement, pass \<open>verify_transparent_statement\<close> under any
  signature scheme that accepts its own signatures, when \<open>json.loads\<close> reads the canonical payload back; the
  verification returns the payload and, for the receipt, the Merkle root of exactly these hashes and their number.
  The decoder needs six levels.
\<close>

theorem transparent_statement_verifies:
  assumes "make_signed_statement rt tenant (pos + 1) entry env kid issued_at sign = Inr st"
    and "make_receipt sha hashes pos kid sign = Inr rc"
    and "transparent_statement depth st [rc] = Inr t" "6 \<le> depth" "\<forall>m. vf (sign m) m"
    and "\<forall>p. statement_payload rt entry env = Inr p \<longrightarrow> loads p = Some doc"
    and "Option.bind (json_field ''ledger_entry'' doc) (json_field ''entry_hash'') = Some (JStr (ascii (hashes ! nat pos)))"
    and "Option.bind (json_field ''ledger_entry'' doc) (json_field ''sequence_number'') = Some (JInt (pos + 1))"
  shows "\<exists>digest. merkle_root sha hashes = Some (to_hex digest) \<and>
    verify_transparent_statement sha loads vf depth t = Inr (doc, [(digest, int (length hashes))])"
  using assms by (rule made_statement_verifies)

text \<open>
  Property C39. An attached payload escapes the receipt. From any receipt that the runtime made and any hash, a
  receipt is made with the same protected header and signature, the old root attached as payload and the proof of
  a tree of one leaf; it verifies for that hash as entry 1, and the root that is returned is the leaf's, which
  nobody signed: the signature is checked over the attached payload instead of the computed root.
\<close>

theorem attached_receipt_is_not_bound:
  assumes "make_receipt sha hashes pos kid sign = Inr rc" "6 \<le> depth" "\<forall>m. vf (sign m) m" "from_hex h = Some e"
  shows "\<exists>genuine forged msg. cose_decode depth rc = Inr genuine \<and> cose_decode depth forged = Inr msg \<and>
    cs_signature msg = cs_signature genuine \<and> cs_protected_bytes msg = cs_protected_bytes genuine \<and>
    verify_receipt sha vf depth (ascii h) (Some (JInt 1)) (Bytes forged) = Inr (leaf_hash sha e, 1)"
proof -
  let ?un = "\<lambda>item. [(header_vdp, Map [(inclusion_proofs, Array [Bytes item])])]"
  let ?protected = "[(header_kid, Bytes (utf8 (ascii kid))), (header_vds, vds_rfc9162)]"
  from assms(1) obtain digest item where rc: "sign1 ?protected digest sign (?un item) True = Inr rc"
    by (auto simp: make_receipt_def split: sum.splits option.splits)
  define hs where "hs = (header_alg, Integer alg_eddsa) # ?protected"
  have hs: "hs = put_all [(header_alg, Integer alg_eddsa)] ?protected" by (simp add: hs_def put_all_def headers)
  have keyed: "well_keyed (Map hs)" "levels (Map hs) \<le> depth" "well_keyed (Map (?un item))" "levels (Map (?un item)) + 2 \<le> depth"
    for item using assms(2) by (simp_all add: hs_def headers)
  from sign1_Inr [OF rc] hs obtain pb m where made: "cbor_encode (Map hs) = Inr pb" "sig_structure pb digest = Inr m"
      "cbor_encode (cose_message pb (?un item) None (sign m)) = Inr rc"
    by metis
  have pb: "cbor_decode depth pb = Inr (Map (normal_header hs))" "pb \<noteq> []"
    using cbor_decode_encoded [OF made(1) keyed(1,2)] made(1) cbor_encode_nonempty [of "Map hs"] by (auto simp: normal_Map simp del: normal_item.simps)
  have genuine: "cose_decode depth rc = Inr \<lparr>cs_protected = normal_header hs, cs_protected_bytes = pb,
      cs_unprotected = normal_header (?un item), cs_payload = None, cs_signature = sign m\<rparr>" (is "_ = Inr ?genuine")
    by (rule cose_decode_message [OF made(3) keyed(3,4) pb])
  obtain item' where item': "cbor_encode (proof_item 1 0 []) = Inr item'" and small: "length item' < 2 ^ 64"
    by (simp add: proof_item_def head_def both_def)
  have "encodable_item (cose_message pb (?un item) None (sign m))" "encodable_item (Bytes digest)"
    using made(2,3) cbor_encode_iff [of "cose_message pb (?un item) None (sign m)"]
      cbor_encode_iff [of "Array [Text (ascii ''Signature1''), Bytes pb, Bytes [], Bytes digest]"]
    by (auto simp: sig_structure_def)
  then have "encodable_item (cose_message pb (?un item') (Some digest) (sign m))"
    using small by (simp add: cose_message_def optional_bytes_def)
  then obtain forged where "cbor_encode (cose_message pb (?un item') (Some digest) (sign m)) = Inr forged"
    using cbor_encode_iff by blast
  from cose_decode_message [OF this keyed(3,4) pb]
  have forged: "cose_decode depth forged = Inr \<lparr>cs_protected = normal_header hs, cs_protected_bytes = pb,
      cs_unprotected = normal_header (?un item'), cs_payload = Some digest, cs_signature = sign m\<rparr>" (is "_ = Inr ?msg") .
  have protected: "header_get (normal_header hs) header_vds = vds_rfc9162" "header_get (normal_header hs) header_alg = Integer alg_eddsa"
    unfolding header_get_normal [OF keyed(1)] by (simp_all add: hs_def headers)
  have "header_get (normal_header (?un item')) header_vdp = Map [(inclusion_proofs, Array [Bytes item'])]"
    unfolding header_get_normal [OF keyed(3)] by (simp add: headers by_written_key_def)
  moreover have "cbor_decode depth item' = Inr (proof_item 1 0 [])"
    using proof_item_read [OF item'] assms(2) by simp
  ultimately have "receipt_proof depth ?msg = Inr (1, 0, Array [])"
    using protected(1) by (simp add: receipt_proof_def proof_item_def headers)
  then have "receipt_root sha depth ?msg (ascii h) = Inr (leaf_hash sha e, 1, 0)"
    using assms(4) by (simp add: receipt_root_def)
  moreover have "cose_verify vf ?msg (Some r) = Inr True" for r
    using protected(2) made(2) assms(3) by (simp add: cose_verify_def to_be_signed_def)
  ultimately have "verify_receipt sha vf depth (ascii h) (Some (JInt 1)) (Bytes forged) = Inr (leaf_hash sha e, 1)"
    using protected(2) by (simp add: verify_receipt_def raw_receipt_def forged json_int_def)
  with genuine forged show ?thesis
    by (intro exI [of _ ?genuine] exI [of _ forged] exI [of _ ?msg]) simp
qed

subsection \<open>Witnesses\<close>

text \<open>Two entries, a signature that is the length of the message, and the statement of the second entry.\<close>

definition sample_leaf_entry :: json where
  "sample_leaf_entry = JObj [member ''entry_hash'' (JStr (ascii ''0101010101010101010101010101010101010101010101010101010101010101'')), member ''sequence_number'' (JInt 2)]"

definition sample_doc :: json where
  "sample_doc = JObj [member ''ski_statement'' (JInt 1), member ''ledger_entry'' sample_leaf_entry, member ''envelope'' JNull]"

definition sample_text :: ustr where
  "sample_text = ascii ''{\"envelope\":null,\"ledger_entry\":{\"entry_hash\":\"0101010101010101010101010101010101010101010101010101010101010101\",\"sequence_number\":2},\"ski_statement\":1}''"

definition sample_loads :: "bytes \<Rightarrow> json option" where
  "sample_loads b = (if b = utf8 sample_text then Some sample_doc else None)"

lemma sample_numbers: "serialize_number sample_runtime (JInt 1) = Inr [49]" "serialize_number sample_runtime (JInt 2) = Inr [50]"
proof -
  have n: "nat_text 1 = [49]" "nat_text 2 = [50]" by (simp_all add: nat_text.simps)
  then have r: "repr_text sample_runtime 1 = [49, 46, 48]" "repr_text sample_runtime 2 = [50, 46, 48]" by (simp_all add: sample_runtime_def)
  have "shortest_digits sample_runtime 1 = ([49], 1)" "shortest_digits sample_runtime 2 = ([50], 1)"
    by (simp_all add: shortest_digits_def r cut_at_def Let_def)
  then show "serialize_number sample_runtime (JInt 1) = Inr [49]" "serialize_number sample_runtime (JInt 2) = Inr [50]"
    by (simp_all add: serialize_number_def int_to_double_def exact_int_limit_def serialize_double_def number_body_def)
qed

lemma sample_keys:
  "utf16_sort_key (ascii ''ski_statement'') = [0, 115, 0, 107, 0, 105, 0, 95, 0, 115, 0, 116, 0, 97, 0, 116, 0, 101, 0, 109, 0, 101, 0, 110, 0, 116]"
  "utf16_sort_key (ascii ''ledger_entry'') = [0, 108, 0, 101, 0, 100, 0, 103, 0, 101, 0, 114, 0, 95, 0, 101, 0, 110, 0, 116, 0, 114, 0, 121]"
  "utf16_sort_key (ascii ''envelope'') = [0, 101, 0, 110, 0, 118, 0, 101, 0, 108, 0, 111, 0, 112, 0, 101]"
  "utf16_sort_key (ascii ''entry_hash'') = [0, 101, 0, 110, 0, 116, 0, 114, 0, 121, 0, 95, 0, 104, 0, 97, 0, 115, 0, 104]"
  "utf16_sort_key (ascii ''sequence_number'') = [0, 115, 0, 101, 0, 113, 0, 117, 0, 101, 0, 110, 0, 99, 0, 101, 0, 95, 0, 110, 0, 117, 0, 109, 0, 98, 0, 101, 0, 114]"
  by (simp_all add: utf16_sort_key_def utf16_units_def ascii_def)

lemma quote_plain: "quote_text (ascii s) = [34] @ ascii s @ [34]" if "list_all (\<lambda>c. 32 \<le> c \<and> c < 128 \<and> c \<noteq> 34 \<and> c \<noteq> 92) (ascii s)"
proof -
  have "escape_char c = [c]" if "32 \<le> c" "c < 128" "c \<noteq> 34" "c \<noteq> 92" for c
    using that by (simp add: escape_char_def short_escapes_def)
  then have "concat (map escape_char t) = t" if "list_all (\<lambda>c. 32 \<le> c \<and> c < 128 \<and> c \<noteq> 34 \<and> c \<noteq> 92) t" for t
    using that by (induction t) auto
  with that show ?thesis by (simp add: quote_text_def)
qed

lemma sample_payload: "statement_payload sample_runtime sample_leaf_entry JNull = Inr (utf8 sample_text)"
proof -
  have "serialize sample_runtime sample_doc = Inr sample_text"
    by (simp add: sample_doc_def sample_leaf_entry_def sample_numbers serialize_string_def member_key_def member_def
        member_text_def sample_keys, simp add: quote_text_def escape_char_def short_escapes_def ascii_def sample_text_def)
  moreover have "nfc_normalize_values sample_runtime sample_doc = Inr sample_doc"
    by (simp add: sample_doc_def sample_leaf_entry_def member_def, simp add: sample_runtime_def)
  ultimately show ?thesis unfolding statement_payload_def sample_doc_def [symmetric] canonicalize_Inr by auto
qed

definition sample_sign :: "bytes \<Rightarrow> bytes" where
  "sample_sign m = be_bytes 2 (length m)"

definition sample_checks :: "bytes \<Rightarrow> bytes \<Rightarrow> bool" where
  "sample_checks sig m \<longleftrightarrow> sig = be_bytes 2 (length m)"

definition sample_digest :: "bytes \<Rightarrow> bytes" where
  "sample_digest m = replicate 32 (of_nat (length m))"

definition statement_hashes :: "string list" where
  "statement_hashes = [''0000000000000000000000000000000000000000000000000000000000000000'', ''0101010101010101010101010101010101010101010101010101010101010101'']"

text \<open>Short parts are signed, and give a message that is not much longer.\<close>

lemma signing_succeeds:
  assumes "encodable_item (Map (put_all [(header_alg, Integer alg_eddsa)] protected))"
    and "weight (Map (put_all [(header_alg, Integer alg_eddsa)] protected)) < 2 ^ 60" "length p < 2 ^ 60"
    and "encodable_item (Map un)" "weight (Map un) < 2 ^ 60" "\<forall>m. length (sign m) < 2 ^ 60"
  shows "\<exists>data. sign1 protected p sign un detached = Inr data \<and> length data < 2 ^ 63"
proof -
  obtain pb where pb: "cbor_encode (Map (put_all [(header_alg, Integer alg_eddsa)] protected)) = Inr pb"
    using assms(1) cbor_encode_iff by blast
  then have short: "length pb < 2 ^ 60" using cbor_encode_length assms(2) by fastforce
  have "encodable_item (Array [Text (ascii ''Signature1''), Bytes pb, Bytes [], Bytes p])"
    using short assms(3) by (simp add: ascii_def scalar_def utf8_def utf8_char_def)
  then obtain m where m: "sig_structure pb p = Inr m" using cbor_encode_iff unfolding sig_structure_def by blast
  let ?msg = "cose_message pb un (if detached then None else Some p) (sign m)"
  have sig: "length (sign m) < 2 ^ 60" using assms(6) by blast
  have "encodable_item ?msg"
    using short assms(3,4) sig by (simp add: cose_message_def optional_bytes_def cose_sign1_tag_def)
  then obtain data where data: "cbor_encode ?msg = Inr data"
    using cbor_encode_iff by blast
  have "weight ?msg < 2 ^ 63"
    using short assms(3,5) sig by (simp add: cose_message_def optional_bytes_def)
  with cbor_encode_length [OF data] have "length data < 2 ^ 63" by linarith
  then show ?thesis using pb m data by (simp add: sign1_def)
qed

lemma sample_statement:
  "\<exists>st. make_signed_statement sample_runtime None (1 + 1) sample_leaf_entry JNull ''k'' 0 sample_sign = Inr st \<and> length st < 2 ^ 63"
proof -
  let ?protected = "[(header_content_type, Text content_type), (header_kid, Bytes (utf8 (ascii ''k''))),
      (header_cwt_claims, Map (statement_claims None 2 ''k'' 0))]"
  have two: "int_text 2 = [50]" by (simp add: int_text_def nat_text.simps)
  note here = headers put_all_def content_type_def statement_claims_def two ascii_def utf8_def utf8_char_def scalar_def
  have "\<exists>data. sign1 ?protected (utf8 sample_text) sample_sign [] False = Inr data \<and> length data < 2 ^ 63"
  proof (rule signing_succeeds)
    show "encodable_item (Map (put_all [(header_alg, Integer alg_eddsa)] ?protected))" by (simp add: here)
    show "weight (Map (put_all [(header_alg, Integer alg_eddsa)] ?protected)) < 2 ^ 60" by (simp add: here)
    show "length (utf8 sample_text) < 2 ^ 60" by (simp add: sample_text_def ascii_def utf8_def utf8_char_def)
  qed (simp_all add: sample_sign_def)
  then show ?thesis by (auto simp: make_signed_statement_def sample_payload)
qed

lemma sample_receipt:
  "\<exists>rc. make_receipt sample_digest statement_hashes 1 ''k'' sample_sign = Inr rc \<and> length rc < 2 ^ 63"
proof -
  let ?protected = "[(header_kid, Bytes (utf8 (ascii ''k''))), (header_vds, vds_rfc9162)]"
  let ?digest = "tree_root sample_digest [replicate 32 0, replicate 32 1]"
  let ?item = "proof_item 2 1 [leaf_hash sample_digest (replicate 32 0)]"
  have raw: "raw_hashes statement_hashes = Some [replicate 32 0, replicate 32 1]"
    by code_simp
  have two: "length statement_hashes = 2" "statement_hashes \<noteq> []" by (simp_all add: statement_hashes_def)
  have split: "tree_split 2 = 1" by code_simp
  have "tree_path sample_digest [replicate 32 0, replicate 32 1] 1 = [leaf_hash sample_digest (replicate 32 0)]"
    by (subst tree_path.simps) (simp add: split [unfolded numeral_2_eq_2] tree_path.simps tree_root.simps)
  then have proof_made: "inclusion_proof sample_digest statement_hashes 1 = Inr (map to_hex [leaf_hash sample_digest (replicate 32 0)])"
    "Option.bind (merkle_root sample_digest statement_hashes) from_hex = Some ?digest"
    using two by (simp_all add: inclusion_proof_def merkle_root_def raw)
  have "encodable_item ?item" "weight ?item < 1000"
    by (simp_all add: proof_item_def leaf_hash_def sample_digest_def)
  then obtain item where item: "cbor_encode ?item = Inr item" "length item < 1000"
    using cbor_encode_iff [of ?item] cbor_encode_length [of ?item] by fastforce
  have digest: "length ?digest = 32" by (subst tree_root.simps) (simp add: node_hash_def leaf_hash_def sample_digest_def Let_def)
  have "\<exists>data. sign1 ?protected ?digest sample_sign [(header_vdp, Map [(inclusion_proofs, Array [Bytes item])])] True = Inr data \<and>
      length data < 2 ^ 63"
  proof (rule signing_succeeds)
    show "encodable_item (Map (put_all [(header_alg, Integer alg_eddsa)] ?protected))"
      "weight (Map (put_all [(header_alg, Integer alg_eddsa)] ?protected)) < 2 ^ 60"
      by (simp_all add: headers put_all_def ascii_def utf8_def utf8_char_def)
    show "encodable_item (Map [(header_vdp, Map [(inclusion_proofs, Array [Bytes item])])])"
      "weight (Map [(header_vdp, Map [(inclusion_proofs, Array [Bytes item])])]) < 2 ^ 60"
      using item(2) by (simp_all add: headers)
  qed (simp_all add: sample_sign_def digest)
  then show ?thesis using proof_made item(1) two by (simp add: make_receipt_def)
qed

lemma sample_reads: "\<forall>p. statement_payload sample_runtime sample_leaf_entry JNull = Inr p \<longrightarrow> sample_loads p = Some sample_doc"
  by (simp add: sample_payload sample_loads_def)

lemma sample_checks_sign: "\<forall>m. sample_checks (sample_sign m) m"
  by (simp add: sample_checks_def sample_sign_def)

theorem transparent_statement_verifies_witness:
  "\<exists>st rc t digest. make_signed_statement sample_runtime None (1 + 1) sample_leaf_entry JNull ''k'' 0 sample_sign = Inr st \<and>
     make_receipt sample_digest statement_hashes 1 ''k'' sample_sign = Inr rc \<and> transparent_statement 6 st [rc] = Inr t \<and>
     merkle_root sample_digest statement_hashes = Some (to_hex digest) \<and>
     verify_transparent_statement sample_digest sample_loads sample_checks 6 t =
       Inr (sample_doc, [(digest, int (length statement_hashes))])"
proof -
  from sample_statement obtain st where st: "make_signed_statement sample_runtime None (1 + 1) sample_leaf_entry JNull ''k'' 0 sample_sign = Inr st"
    "length st < 2 ^ 63" by blast
  from sample_receipt obtain rc where rc: "make_receipt sample_digest statement_hashes 1 ''k'' sample_sign = Inr rc" "length rc < 2 ^ 63" by blast
  from receipts_attach [OF st(1), of 6 "[rc]"] rc(2) obtain t where t: "transparent_statement 6 st [rc] = Inr t" by auto
  have "\<exists>digest. merkle_root sample_digest statement_hashes = Some (to_hex digest) \<and>
     verify_transparent_statement sample_digest sample_loads sample_checks 6 t =
       Inr (sample_doc, [(digest, int (length statement_hashes))])"
    by (rule transparent_statement_verifies [where vf = sample_checks, OF st(1) rc(1) t _ sample_checks_sign sample_reads])
       (simp_all add: json_field_def sample_doc_def sample_leaf_entry_def member_def ascii_def statement_hashes_def)
  with st rc t show ?thesis by blast
qed

theorem attached_receipt_is_not_bound_witness:
  "\<exists>rc genuine forged msg. make_receipt sample_digest statement_hashes 1 ''k'' sample_sign = Inr rc \<and>
     cose_decode 6 rc = Inr genuine \<and> cose_decode 6 forged = Inr msg \<and> cs_signature msg = cs_signature genuine \<and>
     verify_receipt sample_digest sample_checks 6 (ascii ''ff'') (Some (JInt 1)) (Bytes forged) = Inr (leaf_hash sample_digest [255], 1)"
proof -
  from sample_receipt obtain rc where rc: "make_receipt sample_digest statement_hashes 1 ''k'' sample_sign = Inr rc" by blast
  have "from_hex ''ff'' = Some [255]" by code_simp
  from attached_receipt_is_not_bound [where vf = sample_checks, OF rc _ sample_checks_sign this, of 6] rc show ?thesis by auto
qed

end
