(* ===== verification/Timestamping.thy ===== *)
theory Timestamping
  imports Cose Ledger
begin

text \<open>
  The DER of the RFC 3161 time-stamp exchange (\<open>ski_model/timestamping.py\<close>): the request, and the reading of the
  status of a response. The HTTP call is a parameter: the status of the reply and its content.
\<close>

section \<open>Writing\<close>

fun bit_length :: "nat \<Rightarrow> nat" where
  "bit_length n = (if n = 0 then 0 else Suc (bit_length (n div 2)))"

declare bit_length.simps [simp del]

text \<open>A tag and a content; the length in one byte, or in as many as it takes after a byte that counts them.\<close>

definition der :: "nat \<Rightarrow> bytes \<Rightarrow> bytes" where
  "der tag content =
     (let n = length content;
          k = (bit_length n + 7) div 8
      in of_nat tag # (if n < 128 then [of_nat n] else of_nat (128 + k) # be_bytes k n) @ content)"

definition integer_width :: "nat \<Rightarrow> nat" where
  "integer_width v = max 1 ((bit_length v + 8) div 8)"

definition der_integer :: "nat \<Rightarrow> bytes" where
  "der_integer v = der 2 (be_bytes (integer_width v) v)"

definition sha256_algorithm :: bytes where
  "sha256_algorithm = [0x30, 0x0d, 0x06, 0x09, 0x60, 0x86, 0x48, 0x01, 0x65, 0x03, 0x04, 0x02, 0x01, 0x05, 0x00]"

definition timestamp_request :: "(bytes \<Rightarrow> bytes) \<Rightarrow> bytes \<Rightarrow> nat \<Rightarrow> bytes" where
  "timestamp_request sha message nonce =
     (let imprint = der 0x30 (sha256_algorithm @ der 4 (sha message))
      in der 0x30 (der_integer 1 @ imprint @ der_integer nonce @ der 1 [0xFF]))"

section \<open>Reading\<close>

text \<open>Tag, start and end of the element at an offset; \<open>None\<close> is \<open>IndexError\<close>. A slice beyond the end is cut.\<close>

definition der_read :: "bytes \<Rightarrow> nat \<Rightarrow> (nat \<times> nat \<times> nat) option" where
  "der_read data offset =
     (if length data \<le> offset + 1 then None
      else
        (let tag = unat (data ! offset); first = unat (data ! (offset + 1)) in
         if first < 128 then Some (tag, offset + 2, offset + 2 + first)
         else
           (let size_bytes = first - 128; start = offset + 2 + size_bytes
            in Some (tag, start, start + be_value (take size_bytes (drop (offset + 2) data))))))"

definition slice :: "bytes \<Rightarrow> nat \<Rightarrow> nat \<Rightarrow> bytes" where
  "slice data from until = take (until - from) (drop from data)"

text \<open>\<open>None\<close> is \<open>ValueError\<close>.\<close>

definition response_status :: "bytes \<Rightarrow> (nat \<times> bool) option" where
  "response_status response =
     (case der_read response 0 of
        None \<Rightarrow> None
      | Some (tag, start, until) \<Rightarrow>
          if tag \<noteq> 0x30 \<or> until > length response then None
          else (case der_read response start of
              None \<Rightarrow> None
            | Some (tag, info_start, info_end) \<Rightarrow>
                if tag \<noteq> 0x30 then None
                else (case der_read response info_start of
                    None \<Rightarrow> None
                  | Some (tag, status_start, status_end) \<Rightarrow>
                      if tag \<noteq> 2 then None
                      else Some (be_value (slice response status_start status_end), info_end < until))))"

datatype timestamp_error = Http_Failure | Malformed_Response | Refused nat

text \<open>The reply of the authority, \<open>None\<close> where the call fails.\<close>

definition timestamp :: "(bytes \<Rightarrow> bytes option) \<Rightarrow> (bytes \<Rightarrow> bytes) \<Rightarrow> bytes \<Rightarrow> nat \<Rightarrow> timestamp_error + bytes" where
  "timestamp post sha message nonce =
     (case post (timestamp_request sha message nonce) of
        None \<Rightarrow> Inl Http_Failure
      | Some response \<Rightarrow>
          (case response_status response of
             None \<Rightarrow> Inl Malformed_Response
           | Some (s, has_token) \<Rightarrow> if s \<notin> {0, 1} \<or> \<not> has_token then Inl (Refused s) else Inr response))"

section \<open>What is written is read back\<close>

lemma bit_length_bound: "n < 2 ^ bit_length n"
proof (induction n rule: bit_length.induct)
  case (1 n)
  show ?case
  proof (cases "n = 0")
    case False
    with 1 have "n div 2 < 2 ^ bit_length (n div 2)" by simp
    then show ?thesis using False by (simp add: bit_length.simps [of n])
  qed (simp add: bit_length.simps)
qed

lemma byte_length_bound: "n < 256 ^ ((bit_length n + 7) div 8)"
proof -
  have "bit_length n \<le> 8 * ((bit_length n + 7) div 8)" by linarith
  then have "(2 :: nat) ^ bit_length n \<le> 2 ^ (8 * ((bit_length n + 7) div 8))" by (intro power_increasing) auto
  also have "\<dots> = 256 ^ ((bit_length n + 7) div 8)" by (simp add: power_mult)
  finally show ?thesis using bit_length_bound [of n] by linarith
qed

lemma be_value_der_integer: "be_value (be_bytes (integer_width v) v) = v"
proof -
  have "(bit_length v + 7) div 8 \<le> integer_width v" unfolding integer_width_def by linarith
  then have "(256 :: nat) ^ ((bit_length v + 7) div 8) \<le> 256 ^ integer_width v"
    by (intro power_increasing) auto
  from less_le_trans [OF byte_length_bound this] show ?thesis by (simp add: be_value_bytes)
qed

text \<open>Where the content of an element starts.\<close>

definition der_head :: "bytes \<Rightarrow> nat" where
  "der_head content = (if length content < 128 then 2 else 2 + (bit_length (length content) + 7) div 8)"

lemma length_der [simp]: "length (der tag content) = der_head content + length content"
  by (simp add: der_def der_head_def Let_def)

lemma drop_der: "drop (der_head content) (der tag content @ rest) = content @ rest"
  by (simp add: der_def der_head_def Let_def)

definition encodable_length :: "bytes \<Rightarrow> bool" where
  "encodable_length content \<longleftrightarrow> (bit_length (length content) + 7) div 8 < 128"

lemma der_read_der:
  assumes "tag < 256" "encodable_length content"
  shows "der_read (pre @ der tag content @ rest) (length pre) =
    Some (tag, length pre + der_head content, length pre + der_head content + length content)"
proof -
  let ?n = "length content" and ?k = "(bit_length (length content) + 7) div 8"
  let ?data = "pre @ der tag content @ rest"
  have tag: "unat (?data ! length pre) = tag" using assms(1) by (simp add: der_def Let_def nth_append unat_byte)
  have two: "\<not> length ?data \<le> length pre + 1" by (simp add: der_head_def)
  show ?thesis
  proof (cases "?n < 128")
    case True
    then have "unat (?data ! (length pre + 1)) = ?n" by (simp add: der_def Let_def nth_append unat_byte)
    with True tag two show ?thesis by (simp add: der_read_def Let_def der_head_def)
  next
    case False
    then have "unat (?data ! (length pre + 1)) = 128 + ?k"
      using assms(2) by (simp add: der_def Let_def nth_append unat_byte encodable_length_def del: of_nat_add)
    moreover have "take ?k (drop (length pre + 2) ?data) = be_bytes ?k ?n"
      using False by (simp add: der_def Let_def)
    moreover have "be_value (be_bytes ?k ?n) = ?n"
      using byte_length_bound [of ?n] by (simp add: be_value_bytes)
    ultimately show ?thesis using False tag two by (simp add: der_read_def Let_def der_head_def)
  qed
qed

lemma der_read_start:
  assumes "tag < 256" "encodable_length content"
  shows "der_read (der tag content @ rest) 0 = Some (tag, der_head content, der_head content + length content)"
  using der_read_der [OF assms, of "[]" rest] by simp

lemma der_split: "der tag content = take (der_head content) (der tag content) @ content"
  using drop_der [of content tag "[]"] by (metis append_Nil2 append_take_drop_id)

section \<open>Properties\<close>

text \<open>
  The reader of a time-stamp response reads every response that is written in DER: for a sequence of
  a status information, which starts with the status as an integer, and an optional token, of any lengths, it
  yields that status and whether there is a token; so a response is kept exactly when the authority granted it
  (status 0 or 1) and sent a token.
\<close>

theorem response_status_exact:
  assumes "response = der 0x30 (der 0x30 (der_integer s @ more_info) @ token)"
    and "encodable_length (der_integer s @ more_info)" "encodable_length (der 0x30 (der_integer s @ more_info) @ token)"
    and "encodable_length (be_bytes (integer_width s) s)"
  shows "response_status response = Some (s, token \<noteq> []) \<and>
    (timestamp (\<lambda>_. Some response) sha message nonce = Inr response \<longleftrightarrow> s \<le> 1 \<and> token \<noteq> [])"
proof -
  let ?raw = "be_bytes (integer_width s) s"
  let ?info = "der_integer s @ more_info"
  let ?body = "der 0x30 ?info @ token"
  define a where "a = take (der_head ?body) response"
  define b where "b = take (der_head ?info) (der 0x30 ?info)"
  define c where "c = take (der_head ?raw) (der 2 ?raw)"
  have resp: "response = a @ ?body" unfolding a_def assms(1) by (rule der_split)
  have info: "der 0x30 ?info = b @ ?info" unfolding b_def by (rule der_split)
  have int: "der_integer s = c @ ?raw" unfolding c_def der_integer_def by (rule der_split)
  have len: "length a = der_head ?body" "length b = der_head ?info" "length c = der_head ?raw"
    unfolding a_def b_def c_def assms(1) by simp_all
  have outer: "der_read response 0 = Some (0x30, length a, length response)"
    using der_read_start [of "0x30" ?body "[]"] assms(3) len(1) by (simp add: assms(1))
  have inner: "der_read response (length a) = Some (0x30, length a + length b, length a + length b + length ?info)"
    using der_read_der [of "0x30" ?info a token] assms(2) by (simp add: resp len)
  have whole: "response = (a @ b) @ der 2 ?raw @ (more_info @ token)"
    using resp info by (simp add: der_integer_def)
  have status: "der_read response (length a + length b) =
      Some (2, length a + length b + length c, length a + length b + length c + length ?raw)"
    using der_read_der [of 2 ?raw "a @ b" "more_info @ token"] assms(4) unfolding whole by (simp add: len)
  have "response = (a @ b @ c) @ ?raw @ more_info @ token" using resp info int by simp
  then have "slice response (length a + length b + length c) (length a + length b + length c + length ?raw) = ?raw"
    unfolding slice_def by simp
  moreover have "length a + length b + length ?info < length response \<longleftrightarrow> token \<noteq> []"
    using resp info by (cases token) simp_all
  ultimately have "response_status response = Some (s, token \<noteq> [])"
    using outer inner status by (simp add: response_status_def be_value_der_integer)
  moreover have "s \<in> {0, 1} \<longleftrightarrow> s \<le> 1" by auto
  ultimately show ?thesis by (auto simp: timestamp_def)
qed

lemma bit_length_le: "bit_length n \<le> n"
proof (induction n rule: bit_length.induct)
  case (1 n)
  show ?case
  proof (cases "n = 0")
    case False
    with 1 have "bit_length (n div 2) \<le> n div 2" by simp
    with False show ?thesis by (simp add: bit_length.simps [of n])
  qed (simp add: bit_length.simps [of 0])
qed

lemma short_encodable: "length content < 128 \<Longrightarrow> encodable_length content"
  using bit_length_le [of "length content"] by (simp add: encodable_length_def)

text \<open>A granted response with a token of one byte.\<close>

definition sample_response :: bytes where
  "sample_response = [0x30, 0x06, 0x30, 0x03, 0x02, 0x01, 0x00, 0x05]"

lemma sample_zero: "integer_width 0 = 1" "der_integer 0 = [2, 1, 0]"
proof -
  show w: "integer_width 0 = 1" by (simp add: integer_width_def bit_length.simps [of 0])
  show "der_integer 0 = [2, 1, 0]" by (simp add: der_integer_def der_def w)
qed

theorem response_status_exact_witness:
  "response_status sample_response = Some (0, True) \<and>
    timestamp (\<lambda>_. Some sample_response) (\<lambda>b. b) [1] 7 = Inr sample_response"
proof -
  have "sample_response = der 0x30 (der 0x30 (der_integer 0 @ []) @ [5])"
    unfolding sample_zero by (simp add: der_def sample_response_def)
  from response_status_exact [OF this short_encodable short_encodable short_encodable, where sha = "\<lambda>b. b" and message = "[1]" and nonce = 7]
  show ?thesis by (simp add: sample_zero der_head_def)
qed

end
