(* ===== verification/KG_Validator.thy ===== *)
theory KG_Validator
  imports Flat_Graph
begin

text \<open>
  The structural validator of Knowledge Graphs (\<open>kg_validator/loader.py\<close>, \<open>models.py\<close> and \<open>validator.py\<close>) and its
  relation to the compiler of the runtime (\<open>KG_Graph\<close>).

  The parser keeps the node objects and reads the fields that the passes use with the defaults of the pydantic
  models. The fields that no pass reads are checked by the parameter \<open>schema\<close>. A Python set is the list of its
  members in the order of the document.
\<close>

section \<open>The graph\<close>

definition obligation_types :: "string list" where
  "obligation_types =
     [''must'', ''must_not'', ''must_not_exceed'', ''must_be_at_least'', ''must_be_below'', ''must_be_above'',
      ''must_be_within'', ''must_be_one_of'', ''must_not_be_one_of'', ''must_be_recorded_within'', ''should'',
      ''discretionary'', ''must_equal'', ''must_not_equal'', ''must_average_within'', ''must_not_exceed_in_window'']"

definition checkable_types :: "string list" where
  "checkable_types =
     [''must_not_exceed'', ''must_be_at_least'', ''must_be_below'', ''must_be_above'', ''must_be_within'',
      ''must_be_one_of'', ''must_not_be_one_of'', ''must_equal'', ''must_not_equal'', ''must_average_within'',
      ''must_not_exceed_in_window'']"

definition rule_tiers :: "string list" where
  "rule_tiers = [''low'', ''medium'', ''high'']"

datatype edge_type =
    Applies_To | Consists_Of | Defined_By | Exempted_By | Amended_By | Interpreted_By | Scoped_To | Cited_By

definition edge_types :: "(string \<times> edge_type) list" where
  "edge_types =
     [(''applies_to'', Applies_To), (''consists_of'', Consists_Of), (''defined_by'', Defined_By),
      (''exempted_by'', Exempted_By), (''amended_by'', Amended_By), (''interpreted_by'', Interpreted_By),
      (''scoped_to'', Scoped_To), (''cited_by'', Cited_By)]"

record v3_edge =
  ve_type :: edge_type
  ve_from :: string
  ve_to :: string

text \<open>The node lists in the order of \<open>KGV3Nodes\<close>, each with its name.\<close>

record v3_graph =
  vg_nodes :: "(string \<times> obj list) list"
  vg_edges :: "v3_edge list"

definition vg_list :: "v3_graph \<Rightarrow> string \<Rightarrow> obj list" where
  "vg_list kg kind = (case map_of (vg_nodes kg) kind of None \<Rightarrow> [] | Some ns \<Rightarrow> ns)"

definition rule_tier_of :: "obj \<Rightarrow> py" where
  "rule_tier_of node = dget_default node ''risk_tier'' (PyStr ''medium'')"

section \<open>The loader\<close>

definition node_ok :: "(string \<Rightarrow> obj \<Rightarrow> bool) \<Rightarrow> string \<Rightarrow> py \<Rightarrow> bool" where
  "node_ok schema kind v =
     (case v of
        PyDict node \<Rightarrow>
          is_str (dget node ''id'') \<and> schema kind node \<and>
          (kind = ''rules'' \<longrightarrow> in_names (rule_tier_of node) rule_tiers) \<and>
          (kind = ''obligations'' \<longrightarrow> in_names (dget node ''obligation_type'') obligation_types \<and> is_str (dget node ''metric''))
      | _ \<Rightarrow> False)"

definition load_list :: "(string \<Rightarrow> obj \<Rightarrow> bool) \<Rightarrow> obj \<Rightarrow> string \<Rightarrow> (string \<times> obj list) option" where
  "load_list schema nodes kind =
     (case dget_default nodes kind (PyList []) of
        PyList items \<Rightarrow> if list_all (node_ok schema kind) items then Some (kind, List.map_filter dict_of items) else None
      | _ \<Rightarrow> None)"

text \<open>A field of an edge under its alias or its name (\<open>populate_by_name\<close>); both is an extra field.\<close>

definition edge_field :: "obj \<Rightarrow> string \<Rightarrow> string \<Rightarrow> string option" where
  "edge_field e alias name =
     (if has_key e alias \<and> \<not> has_key e name then str_of (dget e alias)
      else if has_key e name \<and> \<not> has_key e alias then str_of (dget e name) else None)"

definition load_edge :: "py \<Rightarrow> v3_edge option" where
  "load_edge v =
     (case v of
        PyDict e \<Rightarrow>
          if \<not> list_all (\<lambda>(k, _). k \<in> set [''type'', ''from'', ''to'', ''from_id'', ''to_id'']) e then None
          else (case (Option.bind (str_of (dget e ''type'')) (map_of edge_types), edge_field e ''from'' ''from_id'', edge_field e ''to'' ''to_id'') of
              (Some ty, Some s, Some t) \<Rightarrow> Some \<lparr>ve_type = ty, ve_from = s, ve_to = t\<rparr>
            | _ \<Rightarrow> None)
      | _ \<Rightarrow> None)"

definition load_v3_kg :: "(string \<Rightarrow> obj \<Rightarrow> bool) \<Rightarrow> obj \<Rightarrow> v3_graph option" where
  "load_v3_kg schema data =
     (case (dget data ''metadata'', dget_default data ''nodes'' (PyDict []), dget_default data ''edges'' (PyList [])) of
        (PyDict md, PyDict nodes, PyList edges) \<Rightarrow>
          if \<not> schema ''metadata'' md \<or>
             \<not> list_all (\<lambda>(k, _). k \<in> set [''metadata'', ''nodes'', ''edges'', ''signature'']) data \<or>
             \<not> (dget data ''signature'' = PyNone \<or> is_dict (dget data ''signature'')) \<or>
             \<not> list_all (\<lambda>(k, _). k \<in> set node_kinds) nodes then None
          else (case (those (map (load_list schema nodes) node_kinds), those (map load_edge edges)) of
              (Some kinds, Some es) \<Rightarrow> Some \<lparr>vg_nodes = kinds, vg_edges = es\<rparr>
            | _ \<Rightarrow> None)
      | _ \<Rightarrow> None)"

text \<open>\<open>all_node_ids\<close>: a later list replaces the type of an id.\<close>

definition kind_types :: "(string \<times> string) list" where
  "kind_types =
     [(''subjects'', ''Subject''), (''rules'', ''Rule''), (''obligations'', ''Obligation''), (''definitions'', ''Definition''),
      (''exemptions'', ''Exemption''), (''precedents'', ''Precedent''), (''jurisdictions'', ''Jurisdiction''),
      (''citations'', ''Citation'')]"

definition all_node_ids :: "v3_graph \<Rightarrow> (string \<times> string) list" where
  "all_node_ids kg =
     fold (\<lambda>(kind, type_name) acc. fold (\<lambda>node. alist_set (node_id_of node) type_name) (vg_list kg kind) acc) kind_types []"

section \<open>The passes\<close>

datatype v3_issue =
    Duplicate_Across string
  | Duplicate_Within string nat
  | Dangling_Source v3_edge
  | Dangling_Target v3_edge
  | Wrong_Target v3_edge string string
  | Under_Tiered string string
  | Rule_Without_Obligation string
  | Obligation_Without_Rule string

datatype severity = Low_Severity | Medium_Severity | High_Severity | Critical_Severity

fun issue_severity :: "bool \<Rightarrow> v3_issue \<Rightarrow> severity" where
  "issue_severity strict (Duplicate_Across _) = Critical_Severity"
| "issue_severity strict (Duplicate_Within _ _) = Critical_Severity"
| "issue_severity strict (Under_Tiered _ _) = (if strict then High_Severity else Medium_Severity)"
| "issue_severity strict (Obligation_Without_Rule _) = Medium_Severity"
| "issue_severity strict _ = High_Severity"

fun seen_again :: "string list \<Rightarrow> string list \<Rightarrow> v3_issue list" where
  "seen_again seen [] = []"
| "seen_again seen (i # is) = (if i \<in> set seen then [Duplicate_Across i] else []) @ seen_again (i # seen) is"

definition id_counts :: "string list \<Rightarrow> (string \<times> nat) list" where
  "id_counts is = fold (\<lambda>i d. alist_set i (Suc (case map_of d i of None \<Rightarrow> 0 | Some n \<Rightarrow> n)) d) is []"

definition repeated_ids :: "string list \<Rightarrow> v3_issue list" where
  "repeated_ids is = map (\<lambda>(i, n). Duplicate_Within i n) (filter (\<lambda>(i, n). n > 1) (id_counts is))"

definition check_duplicate_node_ids :: "v3_graph \<Rightarrow> v3_issue list" where
  "check_duplicate_node_ids kg =
     seen_again [] (map fst (all_node_ids kg)) @ concat (map (\<lambda>kind. repeated_ids (map node_id_of (vg_list kg kind))) node_kinds)"

definition check_dangling_edges :: "v3_graph \<Rightarrow> (string \<times> string) list \<Rightarrow> v3_issue list" where
  "check_dangling_edges kg types =
     concat (map (\<lambda>e. (if map_of types (ve_from e) = None then [Dangling_Source e] else []) @
                      (if map_of types (ve_to e) = None then [Dangling_Target e] else [])) (vg_edges kg))"

fun edge_target_type :: "edge_type \<Rightarrow> string" where
  "edge_target_type Applies_To = ''Subject''"
| "edge_target_type Consists_Of = ''Obligation''"
| "edge_target_type Defined_By = ''Definition''"
| "edge_target_type Exempted_By = ''Exemption''"
| "edge_target_type Amended_By = ''Obligation''"
| "edge_target_type Interpreted_By = ''Precedent''"
| "edge_target_type Scoped_To = ''Jurisdiction''"
| "edge_target_type Cited_By = ''Citation''"

definition check_edge_target_types :: "v3_graph \<Rightarrow> (string \<times> string) list \<Rightarrow> v3_issue list" where
  "check_edge_target_types kg types =
     concat (map (\<lambda>e. (case map_of types (ve_to e) of
          None \<Rightarrow> []
        | Some actual \<Rightarrow> if actual \<noteq> edge_target_type (ve_type e) then [Wrong_Target e actual (edge_target_type (ve_type e))] else []))
       (vg_edges kg))"

definition consists_of_pairs :: "v3_graph \<Rightarrow> (string \<times> string) list" where
  "consists_of_pairs kg = map (\<lambda>e. (ve_from e, ve_to e)) (filter (\<lambda>e. ve_type e = Consists_Of) (vg_edges kg))"

text \<open>\<open>obligations_by_id\<close>: the last node of an id.\<close>

definition obligation_with_id :: "v3_graph \<Rightarrow> string \<Rightarrow> obj option" where
  "obligation_with_id kg i = map_of (rev (map (\<lambda>node. (node_id_of node, node)) (vg_list kg ''obligations''))) i"

definition check_under_tiered :: "v3_graph \<Rightarrow> v3_issue list" where
  "check_under_tiered kg =
     concat (map (\<lambda>rule.
         if rule_tier_of rule = PyStr ''high'' then []
         else concat (map (\<lambda>(_, i). (case obligation_with_id kg i of
                None \<Rightarrow> []
              | Some ob \<Rightarrow> if in_names (dget ob ''obligation_type'') checkable_types then [] else [Under_Tiered (node_id_of rule) i]))
            (filter (\<lambda>(s, _). s = node_id_of rule) (consists_of_pairs kg))))
       (vg_list kg ''rules''))"

definition check_coverage :: "v3_graph \<Rightarrow> v3_issue list" where
  "check_coverage kg =
     (let rule_ids = remdups (map node_id_of (vg_list kg ''rules''));
          obligation_ids = remdups (map node_id_of (vg_list kg ''obligations''));
          pairs = consists_of_pairs kg
      in map Rule_Without_Obligation (filter (\<lambda>i. i \<notin> set (map fst pairs)) rule_ids) @
         map Obligation_Without_Rule (filter (\<lambda>i. i \<notin> set (map snd pairs)) obligation_ids))"

definition run_validator :: "v3_graph \<Rightarrow> v3_issue list" where
  "run_validator kg =
     (let types = all_node_ids kg in
      check_duplicate_node_ids kg @ check_dangling_edges kg types @ check_edge_target_types kg types @
      check_under_tiered kg @ check_coverage kg)"

definition is_clean :: "bool \<Rightarrow> v3_issue list \<Rightarrow> bool" where
  "is_clean strict issues = (\<not> list_ex (\<lambda>i. issue_severity strict i \<in> {Critical_Severity, High_Severity}) issues)"

section \<open>What a clean result says\<close>

text \<open>The type that the last list holding an id gives it.\<close>

definition listed :: "v3_graph \<Rightarrow> string \<Rightarrow> string \<Rightarrow> bool" where
  "listed kg kind i \<longleftrightarrow> i \<in> node_id_of ` set (vg_list kg kind)"

definition final_type :: "v3_graph \<Rightarrow> string \<Rightarrow> string option" where
  "final_type kg i = map_option snd (find (\<lambda>(kind, _). listed kg kind i) (rev kind_types))"

lemma map_of_assign_all:
  "map_of (fold (\<lambda>node. alist_set (f node) t) nodes d) i = (if i \<in> f ` set nodes then Some t else map_of d i)"
  by (induction nodes arbitrary: d) auto

lemma map_of_all_node_ids: "map_of (all_node_ids kg) i = final_type kg i"
  by (simp add: all_node_ids_def kind_types_def final_type_def listed_def map_of_assign_all)

lemma distinct_all_node_ids: "distinct (map fst (all_node_ids kg))"
  unfolding all_node_ids_def
  by (rule fold_invariant, simp) (auto intro!: fold_invariant distinct_alist_set)

lemma seen_again_distinct: "distinct is \<Longrightarrow> set is \<inter> set seen = {} \<Longrightarrow> seen_again seen is = []"
  by (induction "is" arbitrary: seen) auto

lemma no_duplicate_across: "seen_again [] (map fst (all_node_ids kg)) = []"
  by (rule seen_again_distinct) (simp_all add: distinct_all_node_ids)

lemma map_of_counts:
  "map_of (fold (\<lambda>i d. alist_set i (Suc (case map_of d i of None \<Rightarrow> 0 | Some n \<Rightarrow> n)) d) is d) i =
   (if i \<in> set is then Some (count_list is i + (case map_of d i of None \<Rightarrow> 0 | Some n \<Rightarrow> n)) else map_of d i)"
proof (induction "is" arbitrary: d)
  case (Cons j "is")
  show ?case by (cases "i = j") (use Cons in \<open>auto split: option.split\<close>)
qed simp

lemma distinct_id_counts: "distinct (map fst (id_counts is))"
  unfolding id_counts_def by (rule fold_invariant) (simp_all add: distinct_alist_set)

lemma repeated_ids_Nil: "repeated_ids is = [] \<longleftrightarrow> distinct is"
proof -
  have "repeated_ids is = [] \<longleftrightarrow> (\<forall>(i, n) \<in> set (id_counts is). n \<le> 1)"
    by (auto simp: repeated_ids_def filter_empty_conv)
  also have "\<dots> \<longleftrightarrow> (\<forall>i n. map_of (id_counts is) i = Some n \<longrightarrow> n \<le> 1)"
    using map_of_eq_Some_iff [OF distinct_id_counts [of "is"]] by auto
  also have "\<dots> \<longleftrightarrow> (\<forall>i \<in> set is. count_list is i \<le> 1)"
    by (auto simp: id_counts_def map_of_counts)
  also have "\<dots> \<longleftrightarrow> distinct is"
  proof -
    have "(\<forall>i \<in> set is. count (mset is) i \<le> 1) \<longleftrightarrow> (\<forall>i. count (mset is) i = (if i \<in> set is then 1 else 0))"
      using count_mset_gt_0 [of _ "is"] by (fastforce simp: le_Suc_eq)
    then show ?thesis by (simp add: count_mset distinct_count_atmost_1)
  qed
  finally show ?thesis .
qed

lemma is_clean_append [simp]: "is_clean strict (xs @ ys) \<longleftrightarrow> is_clean strict xs \<and> is_clean strict ys"
  by (auto simp: is_clean_def)

lemma is_clean_concat: "is_clean strict (concat xss) \<longleftrightarrow> (\<forall>xs \<in> set xss. is_clean strict xs)"
  by (auto simp: is_clean_def list_ex_iff)

lemma is_clean_Nil [simp]: "is_clean strict []"
  by (simp add: is_clean_def)

lemma is_clean_if [simp]: "is_clean strict (if c then xs else []) \<longleftrightarrow> (c \<longrightarrow> is_clean strict xs)"
  "is_clean strict (if c then [] else xs) \<longleftrightarrow> (c \<or> is_clean strict xs)"
  by simp_all

lemma is_clean_one [simp]: "is_clean strict [i] \<longleftrightarrow> issue_severity strict i \<in> {Low_Severity, Medium_Severity}"
  by (cases "issue_severity strict i") (simp_all add: is_clean_def)

lemma is_clean_all: "\<forall>i \<in> set xs. issue_severity strict i \<in> {Critical_Severity, High_Severity} \<Longrightarrow> is_clean strict xs \<longleftrightarrow> xs = []"
  by (cases xs) (auto simp: is_clean_def)

lemma is_clean_none: "\<forall>i \<in> set xs. issue_severity strict i = Medium_Severity \<Longrightarrow> is_clean strict xs"
  by (auto simp: is_clean_def list_ex_iff)

text \<open>The passes, one by one.\<close>

lemma clean_duplicates:
  "is_clean strict (check_duplicate_node_ids kg) \<longleftrightarrow> (\<forall>kind \<in> set node_kinds. distinct (map node_id_of (vg_list kg kind)))"
proof -
  have "is_clean strict (repeated_ids is) \<longleftrightarrow> distinct is" for "is"
    using is_clean_all [of "repeated_ids is" strict] by (auto simp: repeated_ids_Nil [symmetric] repeated_ids_def)
  then show ?thesis by (simp add: check_duplicate_node_ids_def no_duplicate_across is_clean_concat)
qed

lemma clean_dangling:
  "is_clean strict (check_dangling_edges kg types) \<longleftrightarrow>
   (\<forall>e \<in> set (vg_edges kg). map_of types (ve_from e) \<noteq> None \<and> map_of types (ve_to e) \<noteq> None)"
  by (auto simp: check_dangling_edges_def is_clean_concat)

lemma clean_targets:
  "is_clean strict (check_edge_target_types kg types) \<longleftrightarrow>
   (\<forall>e \<in> set (vg_edges kg). map_of types (ve_to e) \<in> {None, Some (edge_target_type (ve_type e))})"
  by (auto simp: check_edge_target_types_def is_clean_concat split: option.splits) (metis option.exhaust)

lemma under_tiered_issue: "i \<in> set (check_under_tiered kg) \<Longrightarrow> \<exists>r ob. i = Under_Tiered r ob"
  by (auto simp: check_under_tiered_def split: if_splits option.splits)

lemma clean_under_tiered: "is_clean strict (check_under_tiered kg) \<longleftrightarrow> (strict \<longrightarrow> check_under_tiered kg = [])"
proof (cases strict)
  case True
  have "\<forall>i \<in> set (check_under_tiered kg). issue_severity strict i \<in> {Critical_Severity, High_Severity}"
    using under_tiered_issue [of _ kg] True by fastforce
  from is_clean_all [OF this] True show ?thesis by simp
next
  case False
  have "\<forall>i \<in> set (check_under_tiered kg). issue_severity strict i = Medium_Severity"
    using under_tiered_issue [of _ kg] False by fastforce
  from is_clean_none [OF this] False show ?thesis by simp
qed

lemma clean_coverage:
  "is_clean strict (check_coverage kg) \<longleftrightarrow>
   (\<forall>r \<in> set (vg_list kg ''rules''). \<exists>e \<in> set (vg_edges kg). ve_type e = Consists_Of \<and> ve_from e = node_id_of r)"
proof -
  let ?open = "filter (\<lambda>i. i \<notin> set (map fst (consists_of_pairs kg))) (remdups (map node_id_of (vg_list kg ''rules'')))"
  have rules: "is_clean strict (map Rule_Without_Obligation xs) \<longleftrightarrow> xs = []" for xs
    by (subst is_clean_all) auto
  have obligations: "is_clean strict (map Obligation_Without_Rule xs)" for xs by (rule is_clean_none) auto
  have "is_clean strict (check_coverage kg) \<longleftrightarrow> ?open = []"
    by (simp only: check_coverage_def Let_def is_clean_append rules obligations simp_thms)
  also have "\<dots> \<longleftrightarrow> (\<forall>r \<in> set (vg_list kg ''rules''). node_id_of r \<in> set (map fst (consists_of_pairs kg)))"
    by (auto simp: filter_empty_conv)
  also have "\<dots> \<longleftrightarrow> (\<forall>r \<in> set (vg_list kg ''rules''). \<exists>e \<in> set (vg_edges kg). ve_type e = Consists_Of \<and> ve_from e = node_id_of r)"
    by (force simp: consists_of_pairs_def)
  finally show ?thesis .
qed

lemma clean_validator:
  "is_clean strict (run_validator kg) \<longleftrightarrow>
   (\<forall>kind \<in> set node_kinds. distinct (map node_id_of (vg_list kg kind))) \<and>
   (\<forall>e \<in> set (vg_edges kg). final_type kg (ve_from e) \<noteq> None \<and> final_type kg (ve_to e) = Some (edge_target_type (ve_type e))) \<and>
   (\<forall>r \<in> set (vg_list kg ''rules''). \<exists>e \<in> set (vg_edges kg). ve_type e = Consists_Of \<and> ve_from e = node_id_of r) \<and>
   (strict \<longrightarrow> check_under_tiered kg = [])"
  unfolding run_validator_def Let_def is_clean_append clean_duplicates clean_dangling clean_targets clean_under_tiered clean_coverage
    map_of_all_node_ids
  by blast

section \<open>When the compiler of the runtime succeeds\<close>

lemma add_nodes_ok:
  assumes "\<forall>v \<in> set items. \<exists>node. v = PyDict node \<and> is_str (dget node ''id'') \<and> node_id_of node \<noteq> []"
    and "distinct (map fst by_id @ map node_id_of (List.map_filter dict_of items))"
  shows "fold_err (add_node kind) items by_id = Inr (by_id @ map (node_entry kind) (List.map_filter dict_of items))"
  using assms
proof (induction items arbitrary: by_id)
  case (Cons v items)
  from Cons.prems(1) obtain node i where v: "v = PyDict node" "dget node ''id'' = PyStr i" "i \<noteq> []"
    by (auto simp: is_str_iff node_id_of_def)
  have id: "node_id_of node = i" using v by (simp add: node_id_of_def)
  have one: "add_node kind v by_id = Inr (by_id @ [node_entry kind node])"
    using Cons.prems(2) v id by (auto simp: add_node_Inr map_filter_simps)
  have "fold_err (add_node kind) items (by_id @ [node_entry kind node]) =
      Inr ((by_id @ [node_entry kind node]) @ map (node_entry kind) (List.map_filter dict_of items))"
    using Cons.prems v id by (intro Cons.IH) (auto simp: map_filter_simps node_entry_def)
  with one v show ?case by (simp add: map_filter_simps)
qed (simp add: map_filter_simps)

definition well_listed :: "obj \<Rightarrow> string \<Rightarrow> bool" where
  "well_listed nodes kind \<longleftrightarrow>
     (\<exists>items. dget_default nodes kind (PyList []) = PyList items \<and>
        (\<forall>v \<in> set items. \<exists>node. v = PyDict node \<and> is_str (dget node ''id'') \<and> node_id_of node \<noteq> []))"

lemma add_kinds_ok:
  assumes "\<forall>kind \<in> set kinds. well_listed nodes kind"
    and "distinct (map fst by_id @ concat (map (\<lambda>kind. map node_id_of (node_list nodes kind)) kinds))"
  shows "\<exists>b. fold_err (add_kind nodes) kinds by_id = Inr b"
  using assms
proof (induction kinds arbitrary: by_id)
  case (Cons kind kinds)
  from Cons.prems(1) obtain items where items: "dget_default nodes kind (PyList []) = PyList items"
      "\<forall>v \<in> set items. \<exists>node. v = PyDict node \<and> is_str (dget node ''id'') \<and> node_id_of node \<noteq> []"
    by (auto simp: well_listed_def)
  have nl: "node_list nodes kind = List.map_filter dict_of items" using items(1) by (simp add: node_list_def)
  have "fold_err (add_node kind) items by_id = Inr (by_id @ map (node_entry kind) (List.map_filter dict_of items))"
    using Cons.prems(2) nl by (intro add_nodes_ok [OF items(2)]) auto
  then have one: "add_kind nodes kind by_id = Inr (by_id @ map (node_entry kind) (node_list nodes kind))"
    using items(1) nl by (simp add: add_kind_def)
  have "\<exists>b. fold_err (add_kind nodes) kinds (by_id @ map (node_entry kind) (node_list nodes kind)) = Inr b"
    using Cons.prems by (intro Cons.IH) (auto simp: node_entry_def comp_def)
  with one show ?case by simp
qed simp

text \<open>Edges between nodes that exist.\<close>

definition well_joined :: "node_index \<Rightarrow> py \<Rightarrow> bool" where
  "well_joined by_id v \<longleftrightarrow>
     (\<exists>e ty s t. v = PyDict e \<and> dget e ''type'' = PyStr ty \<and> dget e ''from'' = PyStr s \<and> dget e ''to'' = PyStr t \<and>
        s \<in> fst ` set by_id \<and> t \<in> fst ` set by_id)"

lemma add_edge_ok:
  assumes "well_joined by_id v"
  shows "\<exists>m'. add_edge by_id v m = Inr m' \<and> (\<forall>k. set (values_of (owners m) k) \<subseteq> set (values_of (owners m') k))"
proof -
  from assms obtain e ty s t where e: "v = PyDict e" "dget e ''type'' = PyStr ty" "dget e ''from'' = PyStr s" "dget e ''to'' = PyStr t"
      "s \<in> fst ` set by_id" "t \<in> fst ` set by_id"
    unfolding well_joined_def by blast
  have "\<exists>m'. add_edge by_id v m = Inr m' \<and> (owners m' = owners m \<or> owners m' = append_value t s (owners m))"
    using e by (simp add: add_edge_def)
  then show ?thesis by (auto; simp)
qed

lemma add_edges_ok:
  assumes "\<forall>v \<in> set es. well_joined by_id v"
  shows "\<exists>m'. fold_err (add_edge by_id) es m = Inr m' \<and> (\<forall>k. set (values_of (owners m) k) \<subseteq> set (values_of (owners m') k))"
  using assms
proof (induction es arbitrary: m)
  case (Cons v es)
  from Cons.prems add_edge_ok [of by_id v m] obtain t where t: "add_edge by_id v m = Inr t"
      "\<forall>k. set (values_of (owners m) k) \<subseteq> set (values_of (owners t) k)"
    by auto
  from Cons.IH [of t] Cons.prems obtain m' where "fold_err (add_edge by_id) es t = Inr m'"
      "\<forall>k. set (values_of (owners t) k) \<subseteq> set (values_of (owners m') k)"
    by auto
  with t show ?case by fastforce
qed simp

lemma add_edges_own:
  assumes "\<forall>v \<in> set es. well_joined by_id v" "fold_err (add_edge by_id) es m = Inr m'"
    and "PyDict e \<in> set es" "dget e ''type'' = PyStr ''consists_of''" "dget e ''from'' = PyStr r" "dget e ''to'' = PyStr k"
    and "r \<in> set (ids_of by_id ''rules'')"
  shows "r \<in> set (values_of (owners m') k)"
proof -
  obtain xs ys where es: "es = xs @ PyDict e # ys" using split_list [OF assms(3)] by blast
  with assms(2) obtain m1 where "fold_err (add_edge by_id) (PyDict e # ys) m1 = Inr m'"
    by (auto simp: fold_err_append split: sum.splits)
  then obtain m2 where m2: "add_edge by_id (PyDict e) m1 = Inr m2" "fold_err (add_edge by_id) ys m2 = Inr m'"
    by (auto split: sum.splits)
  have "r \<in> set (values_of (owners m2) k)" using m2(1) assms(4-7) by (auto simp: add_edge_def split: if_splits)
  moreover have "\<forall>v \<in> set ys. well_joined by_id v" using assms(1) es by simp
  from add_edges_ok [OF this, of m2] m2(2) have "set (values_of (owners m2) k) \<subseteq> set (values_of (owners m') k)" by auto
  ultimately show ?thesis by blast
qed

lemma compile_steps_ok:
  assumes "\<forall>node \<in> set nodes. is_str (dget node ''id'') \<and> is_str (dget node ''metric'') \<and> is_str (dget node ''obligation_type'')"
  shows "\<exists>new. fold_err (compile_step by_id maps children) nodes obs = Inr (obs @ new) \<and> length new = length nodes"
  using assms
proof (induction nodes arbitrary: obs)
  case (Cons node nodes)
  then obtain ob where ob: "compile_obligation by_id maps children node = Inr ob"
    by (auto simp: compile_obligation_def Let_def is_str_iff)
  from Cons.IH [of "obs @ [ob]"] Cons.prems obtain new where
    "fold_err (compile_step by_id maps children) nodes (obs @ [ob]) = Inr ((obs @ [ob]) @ new)" "length new = length nodes"
    by auto
  moreover have "compile_step by_id maps children node obs = Inr (obs @ [ob])" by (simp add: compile_step_def ob)
  ultimately show ?case by (intro exI [of _ "ob # new"]) simp
qed simp

lemma compile_ok:
  assumes lists: "\<forall>kind \<in> set node_kinds. well_listed nodes kind" "\<forall>k \<in> fst ` set nodes. k \<in> set node_kinds"
    and ids: "distinct (concat (map (\<lambda>kind. map node_id_of (node_list nodes kind)) node_kinds))"
    and edges: "\<forall>v \<in> set es. \<exists>e ty s t. v = PyDict e \<and> dget e ''type'' = PyStr ty \<and> dget e ''from'' = PyStr s \<and> dget e ''to'' = PyStr t \<and>
        s \<in> set (concat (map (\<lambda>kind. map node_id_of (node_list nodes kind)) node_kinds)) \<and>
        t \<in> set (concat (map (\<lambda>kind. map node_id_of (node_list nodes kind)) node_kinds))"
    and owned: "\<forall>r \<in> set (node_list nodes ''rules''). \<exists>e k. PyDict e \<in> set es \<and> dget e ''type'' = PyStr ''consists_of'' \<and>
        dget e ''from'' = PyStr (node_id_of r) \<and> dget e ''to'' = PyStr k \<and> k \<in> node_id_of ` set (node_list nodes ''obligations'')"
    and obligations: "node_list nodes ''obligations'' \<noteq> []"
      "\<forall>node \<in> set (node_list nodes ''obligations''). is_str (dget node ''id'') \<and> is_str (dget node ''metric'') \<and>
         is_str (dget node ''obligation_type'')"
  shows "\<exists>obs. compile_graph (PyDict nodes) (PyList es) = Inr (obs, node_list nodes ''definitions'')"
proof -
  obtain by_id where index: "index_nodes nodes = Inr by_id"
    using add_kinds_ok [OF lists(1), of "[]"] ids by (auto simp: index_nodes_def)
  have known: "fst ` set by_id = set (concat (map (\<lambda>kind. map node_id_of (node_list nodes kind)) node_kinds))"
    unfolding index_nodes_Inr(1) [OF index] by (force simp: node_entry_def)
  have joined: "\<forall>v \<in> set es. well_joined by_id v" using edges unfolding well_joined_def known by blast
  then obtain maps where maps: "read_edges by_id es = Inr maps"
    using add_edges_ok [OF joined] unfolding read_edges_def by blast
  have rules: "ids_of by_id ''rules'' = map node_id_of (node_list nodes ''rules'')"
    "ids_of by_id ''obligations'' = map node_id_of (node_list nodes ''obligations'')"
    by (rule ids_of_index [OF index], simp add: node_kinds_def)+
  have "set (ids_of by_id ''rules'') \<subseteq> set (ruled by_id maps)"
  proof
    fix i assume i: "i \<in> set (ids_of by_id ''rules'')"
    then obtain r where r: "r \<in> set (node_list nodes ''rules'')" "i = node_id_of r" by (auto simp: rules)
    with owned obtain e k where e: "PyDict e \<in> set es" "dget e ''type'' = PyStr ''consists_of''" "dget e ''from'' = PyStr i"
        "dget e ''to'' = PyStr k" "k \<in> set (ids_of by_id ''obligations'')"
      by (auto simp: rules)
    from add_edges_own [OF joined maps [unfolded read_edges_def] e(1-4) i]
    have "i \<in> set (values_of (owners maps) k)" .
    then obtain vs where "(k, vs) \<in> set (owners maps)" "i \<in> set vs"
      by (cases "map_of (owners maps) k") (auto simp: values_of_def dest: map_of_SomeD)
    with e(5) show "i \<in> set (ruled by_id maps)" by (auto simp: ruled_iff)
  qed
  then have empty: "empty_rules by_id maps = []" by (simp add: empty_rules_Nil)
  from compile_steps_ok [OF obligations(2), of by_id maps "jurisdiction_children by_id" "[]"] obtain obs where
    obs: "fold_err (compile_step by_id maps (jurisdiction_children by_id)) (node_list nodes ''obligations'') [] = Inr obs"
      "length obs = length (node_list nodes ''obligations'')"
    by auto
  have "obs \<noteq> []" using obs(2) obligations(1) by auto
  moreover have "filter (\<lambda>k. k \<notin> set node_kinds) (map fst nodes) = []" using lists(2) by (auto simp: filter_empty_conv)
  ultimately show ?thesis using index maps empty obs(1) by (simp add: compile_graph_def Let_def)
qed

section \<open>What the loader keeps of the document\<close>

text \<open>Edges that use the names \<open>from\<close> and \<open>to\<close>, which the compiler of the runtime reads.\<close>

definition spelled_out :: "obj \<Rightarrow> bool" where
  "spelled_out data =
     (case dget data ''edges'' of
        PyList es \<Rightarrow> list_all (\<lambda>v. case v of PyDict e \<Rightarrow> has_key e ''from'' \<and> has_key e ''to'' | _ \<Rightarrow> True) es
      | _ \<Rightarrow> False)"

lemma those_map_Some: "those (map f xs) = Some ys \<Longrightarrow> ys = map (the \<circ> f) xs \<and> (\<forall>x \<in> set xs. f x \<noteq> None)"
  by (induction xs arbitrary: ys) (auto split: option.splits)

lemma load_list_Some:
  "load_list schema nodes kind = Some p \<Longrightarrow>
   p = (kind, node_list nodes kind) \<and> (\<exists>items. dget_default nodes kind (PyList []) = PyList items \<and> list_all (node_ok schema kind) items)"
  by (auto simp: load_list_def node_list_def split: py.splits if_splits)

lemma map_of_kinds:
  assumes "\<forall>kind \<in> set kinds. f kind = Some (kind, g kind)"
  shows "k \<in> set kinds \<Longrightarrow> map_of (map (the \<circ> f) kinds) k = Some (g k)"
  using assms by (induction kinds) auto

lemma load_v3_kg_Some:
  assumes "load_v3_kg schema data = Some kg" "has_key data ''nodes''" "has_key data ''edges''"
  obtains nodes es where "dget data ''nodes'' = PyDict nodes" "dget data ''edges'' = PyList es"
    "\<forall>k \<in> fst ` set nodes. k \<in> set node_kinds" "\<forall>kind \<in> set node_kinds. vg_list kg kind = node_list nodes kind"
    "\<forall>kind \<in> set node_kinds. \<exists>items. dget_default nodes kind (PyList []) = PyList items \<and> list_all (node_ok schema kind) items"
    "vg_edges kg = map (the \<circ> load_edge) es" "\<forall>v \<in> set es. load_edge v \<noteq> None"
proof -
  have keys: "dget_default data k d = dget data k" if "has_key data k" for k d
    using that by (auto simp: dget_default_def dget_def has_key_def split: option.splits)
  from assms obtain nodes es kinds edges where *: "dget data ''nodes'' = PyDict nodes" "dget data ''edges'' = PyList es"
      "list_all (\<lambda>(k, _). k \<in> set node_kinds) nodes" "those (map (load_list schema nodes) node_kinds) = Some kinds"
      "those (map load_edge es) = Some edges" "kg = \<lparr>vg_nodes = kinds, vg_edges = edges\<rparr>"
    by (auto simp: load_v3_kg_def keys split: py.splits if_splits option.splits)
  note kinds = those_map_Some [OF *(4)] and edges = those_map_Some [OF *(5)]
  have all: "\<forall>kind \<in> set node_kinds. load_list schema nodes kind = Some (kind, node_list nodes kind)"
    using kinds load_list_Some by fastforce
  have "vg_list kg kind = node_list nodes kind" if "kind \<in> set node_kinds" for kind
    using map_of_kinds [OF all that] kinds *(6) by (simp add: vg_list_def)
  moreover have "\<exists>items. dget_default nodes kind (PyList []) = PyList items \<and> list_all (node_ok schema kind) items"
    if "kind \<in> set node_kinds" for kind
    using all that load_list_Some by blast
  moreover have "\<forall>k \<in> fst ` set nodes. k \<in> set node_kinds" using *(3) by (auto simp: list_all_iff)
  moreover have "vg_edges kg = map (the \<circ> load_edge) es" "\<forall>v \<in> set es. load_edge v \<noteq> None" using edges *(6) by auto
  ultimately show thesis using that [OF *(1,2)] by blast
qed

lemma node_listed:
  "node \<in> set (node_list nodes kind) \<Longrightarrow> dget_default nodes kind (PyList []) = PyList items \<Longrightarrow> PyDict node \<in> set items"
  by (auto simp: node_list_def map_filter_def)

lemma node_ok_dict:
  "node_ok schema kind (PyDict node) \<Longrightarrow> is_str (dget node ''id'') \<and>
     (kind = ''obligations'' \<longrightarrow> is_str (dget node ''obligation_type'') \<and> is_str (dget node ''metric''))"
  by (auto simp: node_ok_def in_names_def split: py.splits)

lemma find_found: "find P xs = Some x \<Longrightarrow> x \<in> set xs \<and> P x"
  by (induction xs) (auto split: if_splits)

lemma final_type_Some:
  assumes "final_type kg i = Some t"
  shows "\<exists>kind. (kind, t) \<in> set kind_types \<and> listed kg kind i"
proof -
  from assms obtain kind where "find (\<lambda>(kind, _). listed kg kind i) (rev kind_types) = Some (kind, t)"
    by (auto simp: final_type_def)
  from find_found [OF this] show ?thesis by auto
qed

lemma kind_types_kinds: "(kind, t) \<in> set kind_types \<Longrightarrow> kind \<in> set node_kinds"
  "(kind, ''Obligation'') \<in> set kind_types \<longleftrightarrow> kind = ''obligations''"
  by (auto simp: kind_types_def node_kinds_def)

lemma load_edge_Some:
  assumes "load_edge (PyDict e) = Some ve" "has_key e ''from''" "has_key e ''to''"
  shows "\<exists>ty. dget e ''type'' = PyStr ty \<and> map_of edge_types ty = Some (ve_type ve)"
    and "dget e ''from'' = PyStr (ve_from ve)" and "dget e ''to'' = PyStr (ve_to ve)"
  using assms by (auto simp: load_edge_def edge_field_def bind_eq_Some_conv split: if_splits option.splits)

lemma consists_of_type: "map_of edge_types ty = Some Consists_Of \<longleftrightarrow> ty = ''consists_of''"
  by (auto simp: edge_types_def)

text \<open>What the validator finds clean, the compiler accepts.\<close>

lemma validated_compiles:
  assumes "load_v3_kg schema data = Some kg" and "is_clean strict (run_validator kg)"
    and "has_key data ''nodes''" "has_key data ''edges''" "spelled_out data"
    and "distinct (concat (map (\<lambda>kind. map node_id_of (vg_list kg kind)) node_kinds))"
    and "[] \<notin> set (concat (map (\<lambda>kind. map node_id_of (vg_list kg kind)) node_kinds))"
    and "vg_list kg ''obligations'' \<noteq> []"
  shows "\<exists>obs. compile_graph (dget data ''nodes'') (dget data ''edges'') = Inr (obs, vg_list kg ''definitions'')"
proof -
  from load_v3_kg_Some [OF assms(1,3,4)] obtain nodes es where
    doc: "dget data ''nodes'' = PyDict nodes" "dget data ''edges'' = PyList es"
    and keys: "\<forall>k \<in> fst ` set nodes. k \<in> set node_kinds" and same: "\<forall>kind \<in> set node_kinds. vg_list kg kind = node_list nodes kind"
    and lists: "\<forall>kind \<in> set node_kinds. \<exists>items. dget_default nodes kind (PyList []) = PyList items \<and> list_all (node_ok schema kind) items"
    and edges: "vg_edges kg = map (the \<circ> load_edge) es" "\<forall>v \<in> set es. load_edge v \<noteq> None"
    by metis
  let ?ids = "concat (map (\<lambda>kind. map node_id_of (node_list nodes kind)) node_kinds)"
  have ids: "map (\<lambda>kind. map node_id_of (vg_list kg kind)) node_kinds = map (\<lambda>kind. map node_id_of (node_list nodes kind)) node_kinds"
    using same by simp
  have kinds: "''rules'' \<in> set node_kinds" "''obligations'' \<in> set node_kinds" "''definitions'' \<in> set node_kinds"
    by (simp_all add: node_kinds_def)
  have clean_edges: "\<forall>e \<in> set (vg_edges kg). final_type kg (ve_from e) \<noteq> None \<and> final_type kg (ve_to e) = Some (edge_target_type (ve_type e))"
    and clean_rules: "\<forall>r \<in> set (vg_list kg ''rules''). \<exists>e \<in> set (vg_edges kg). ve_type e = Consists_Of \<and> ve_from e = node_id_of r"
    using assms(2) [unfolded clean_validator] by blast+
  have node: "is_str (dget node ''id'') \<and> (kind = ''obligations'' \<longrightarrow> is_str (dget node ''obligation_type'') \<and> is_str (dget node ''metric''))"
    if "kind \<in> set node_kinds" "node \<in> set (node_list nodes kind)" for kind node
  proof -
    from lists that(1) obtain items where items: "dget_default nodes kind (PyList []) = PyList items" "list_all (node_ok schema kind) items"
      by blast
    with node_listed [OF that(2) items(1)] show ?thesis by (intro node_ok_dict [of schema]) (simp add: list_all_iff)
  qed
  have listed_id: "i \<in> set ?ids" if "final_type kg i \<noteq> None" for i
  proof -
    from that obtain t where "final_type kg i = Some t" by auto
    from final_type_Some [OF this] obtain kind where "kind \<in> set node_kinds" "listed kg kind i"
      using kind_types_kinds(1) by blast
    then show ?thesis using same by (auto simp: listed_def)
  qed
  have edge: "\<exists>e ve. v = PyDict e \<and> load_edge v = Some ve \<and> ve \<in> set (vg_edges kg) \<and> dget e ''from'' = PyStr (ve_from ve) \<and>
      dget e ''to'' = PyStr (ve_to ve) \<and> (\<exists>ty. dget e ''type'' = PyStr ty \<and> map_of edge_types ty = Some (ve_type ve))"
    if "v \<in> set es" for v
  proof -
    from edges(2) that obtain ve where ve: "load_edge v = Some ve" by auto
    then obtain e where e: "v = PyDict e" by (cases v) (auto simp: load_edge_def)
    have "has_key e ''from''" "has_key e ''to''" using assms(5) that e by (auto simp: spelled_out_def doc(2) list_all_iff)
    from load_edge_Some [OF ve [unfolded e] this] show ?thesis
      using e ve that edges(1) by (intro exI [of _ e] exI [of _ ve]) force
  qed
  have "\<exists>obs. compile_graph (PyDict nodes) (PyList es) = Inr (obs, node_list nodes ''definitions'')"
  proof (rule compile_ok [OF _ keys])
    show "\<forall>kind \<in> set node_kinds. well_listed nodes kind"
    proof
      fix kind assume kind: "kind \<in> set node_kinds"
      from lists kind obtain items where items: "dget_default nodes kind (PyList []) = PyList items" "list_all (node_ok schema kind) items"
        by blast
      have "\<exists>node. v = PyDict node \<and> is_str (dget node ''id'') \<and> node_id_of node \<noteq> []" if "v \<in> set items" for v
      proof -
        have "node_ok schema kind v" using items(2) that by (simp add: list_all_iff)
        then obtain node where v: "v = PyDict node" "is_str (dget node ''id'')"
          by (cases v) (simp_all add: node_ok_def)
        then have "node \<in> set (node_list nodes kind)" using items(1) that by (force simp: node_list_def map_filter_def)
        then have "node_id_of node \<in> set ?ids" using kind by auto
        with assms(7) have "node_id_of node \<noteq> []" unfolding ids by (intro notI) (simp only: simp_thms)
        with v show ?thesis by blast
      qed
      with items(1) show "well_listed nodes kind" by (simp add: well_listed_def)
    qed
    show "distinct ?ids" using assms(6) unfolding ids .
    show "\<forall>v \<in> set es. \<exists>e ty s t. v = PyDict e \<and> dget e ''type'' = PyStr ty \<and> dget e ''from'' = PyStr s \<and> dget e ''to'' = PyStr t \<and>
        s \<in> set ?ids \<and> t \<in> set ?ids"
    proof
      fix v assume "v \<in> set es"
      from edge [OF this] obtain e ve ty where e: "v = PyDict e" "ve \<in> set (vg_edges kg)" "dget e ''type'' = PyStr ty"
          "dget e ''from'' = PyStr (ve_from ve)" "dget e ''to'' = PyStr (ve_to ve)"
        by blast
      with clean_edges have "final_type kg (ve_from ve) \<noteq> None" "final_type kg (ve_to ve) \<noteq> None" by auto
      with listed_id e show "\<exists>e ty s t. v = PyDict e \<and> dget e ''type'' = PyStr ty \<and> dget e ''from'' = PyStr s \<and>
          dget e ''to'' = PyStr t \<and> s \<in> set ?ids \<and> t \<in> set ?ids"
        by blast
    qed
    show "\<forall>r \<in> set (node_list nodes ''rules''). \<exists>e k. PyDict e \<in> set es \<and> dget e ''type'' = PyStr ''consists_of'' \<and>
        dget e ''from'' = PyStr (node_id_of r) \<and> dget e ''to'' = PyStr k \<and> k \<in> node_id_of ` set (node_list nodes ''obligations'')"
    proof
      fix r assume "r \<in> set (node_list nodes ''rules'')"
      then have "r \<in> set (vg_list kg ''rules'')" using same kinds(1) by simp
      with clean_rules obtain ve where ve: "ve \<in> set (vg_edges kg)" "ve_type ve = Consists_Of" "ve_from ve = node_id_of r"
        by blast
      then obtain v where v: "v \<in> set es" "load_edge v = Some ve" using edges by auto
      from edge [OF v(1)] obtain e ty where read: "v = PyDict e" "load_edge v = Some ve" "dget e ''type'' = PyStr ty"
          "dget e ''from'' = PyStr (ve_from ve)" "dget e ''to'' = PyStr (ve_to ve)" "map_of edge_types ty = Some (ve_type ve)"
        unfolding v(2) by blast
      then have "ty = ''consists_of''" using ve(2) consists_of_type by simp
      with read v(1) ve(3) have e: "PyDict e \<in> set es" "dget e ''type'' = PyStr ''consists_of''"
          "dget e ''from'' = PyStr (node_id_of r)" "dget e ''to'' = PyStr (ve_to ve)"
        by simp_all
      have "final_type kg (ve_to ve) = Some ''Obligation''" using bspec [OF clean_edges ve(1)] ve(2) by simp
      from final_type_Some [OF this] obtain kind where "(kind, ''Obligation'') \<in> set kind_types" "listed kg kind (ve_to ve)"
        by (elim exE conjE)
      then have "listed kg ''obligations'' (ve_to ve)" by (simp only: kind_types_kinds(2))
      then have "ve_to ve \<in> node_id_of ` set (node_list nodes ''obligations'')" using same kinds(2) by (simp add: listed_def)
      with e show "\<exists>e k. PyDict e \<in> set es \<and> dget e ''type'' = PyStr ''consists_of'' \<and>
          dget e ''from'' = PyStr (node_id_of r) \<and> dget e ''to'' = PyStr k \<and> k \<in> node_id_of ` set (node_list nodes ''obligations'')"
        by blast
    qed
    show "node_list nodes ''obligations'' \<noteq> []" using assms(8) same kinds(2) by simp
    show "\<forall>node \<in> set (node_list nodes ''obligations''). is_str (dget node ''id'') \<and> is_str (dget node ''metric'') \<and>
         is_str (dget node ''obligation_type'')"
      using node kinds(2) by blast
  qed
  then show ?thesis using doc same kinds(3) by simp
qed

section \<open>Properties\<close>

text \<open>
  Property C40. What a clean result means. \<open>V3Validator(kg, strict).run().is_clean\<close> holds exactly when no list of
  nodes repeats an id, every edge starts at a known id and ends at an id whose type (that of the last list holding
  it) the edge type demands, every Rule has a \<open>consists_of\<close> edge, and, in strict mode, no Rule below \<open>high\<close> owns an
  obligation that the verifier cannot check.
\<close>

theorem validator_clean_iff:
  "is_clean strict (run_validator kg) \<longleftrightarrow>
   (\<forall>kind \<in> set node_kinds. distinct (map node_id_of (vg_list kg kind))) \<and>
   (\<forall>e \<in> set (vg_edges kg). final_type kg (ve_from e) \<noteq> None \<and> final_type kg (ve_to e) = Some (edge_target_type (ve_type e))) \<and>
   (\<forall>r \<in> set (vg_list kg ''rules''). \<exists>e \<in> set (vg_edges kg). ve_type e = Consists_Of \<and> ve_from e = node_id_of r) \<and>
   (strict \<longrightarrow> check_under_tiered kg = [])"
  by (rule clean_validator)

text \<open>
  Property C13. A validated graph is accepted by the runtime. A document that the validator loads and finds clean
  compiles (\<open>compile_graph\<close>), if its ids are non-empty and differ across the lists, its edges are written with
  \<open>from\<close> and \<open>to\<close> and it has an Obligation: the four conditions that the validator does not check.
\<close>

theorem validated_graph_compiles:
  assumes "load_v3_kg schema data = Some kg" and "is_clean strict (run_validator kg)"
    and "has_key data ''nodes''" "has_key data ''edges''" "spelled_out data"
    and "distinct (concat (map (\<lambda>kind. map node_id_of (vg_list kg kind)) node_kinds))"
    and "[] \<notin> set (concat (map (\<lambda>kind. map node_id_of (vg_list kg kind)) node_kinds))"
    and "vg_list kg ''obligations'' \<noteq> []"
  shows "\<exists>obs. compile_graph (dget data ''nodes'') (dget data ''edges'') = Inr (obs, vg_list kg ''definitions'')"
  using assms by (rule validated_compiles)

text \<open>
  Two lists may share an id. The validator never reports an id that occurs in two lists, because it
  looks for repetitions among the keys of a dictionary; so a graph with a Rule and an Obligation of one id is clean,
  while the runtime refuses it.
\<close>

definition shared_id_document :: obj where
  "shared_id_document =
     [(''metadata'', PyDict [(''name'', PyStr ''kg'')]),
      (''nodes'', PyDict
         [(''rules'', PyList [PyDict [(''id'', PyStr ''r1'')], PyDict [(''id'', PyStr ''ob1'')]]),
          (''obligations'', PyList [PyDict [(''id'', PyStr ''ob1''), (''metric'', PyStr ''nox''),
             (''obligation_type'', PyStr ''must_not_exceed''), (''value'', PyInt 100)]])]),
      (''edges'', PyList [owns ''r1'', owns ''ob1''])]"

theorem shared_id_passes:
  "Duplicate_Across i \<notin> set (run_validator kg) \<and>
   map_option (\<lambda>kg. is_clean True (run_validator kg)) (load_v3_kg (\<lambda>_ _. True) shared_id_document) = Some True \<and>
   compile_graph (dget shared_id_document ''nodes'') (dget shared_id_document ''edges'') = Inl (DuplicateNodeId ''ob1'')"
proof (intro conjI)
  show "Duplicate_Across i \<notin> set (run_validator kg)"
    by (auto simp: run_validator_def Let_def check_duplicate_node_ids_def no_duplicate_across repeated_ids_def check_dangling_edges_def
        check_edge_target_types_def check_coverage_def dest: under_tiered_issue split: option.splits if_splits)
  show "map_option (\<lambda>kg. is_clean True (run_validator kg)) (load_v3_kg (\<lambda>_ _. True) shared_id_document) = Some True"
    by code_simp
  show "compile_graph (dget shared_id_document ''nodes'') (dget shared_id_document ''edges'') = Inl (DuplicateNodeId ''ob1'')"
    by code_simp
qed

subsection \<open>Witnesses\<close>

definition valid_document :: obj where
  "valid_document =
     [(''metadata'', PyDict [(''name'', PyStr ''kg'')]), (''nodes'', PyDict (sample_nodes [sample_rule ''r1'' (Some ''low'')])),
      (''edges'', PyList [owns ''r1''])]"

theorem validated_graph_compiles_witness:
  "\<exists>kg obs. load_v3_kg (\<lambda>_ _. True) valid_document = Some kg \<and>
     compile_graph (dget valid_document ''nodes'') (dget valid_document ''edges'') = Inr (obs, vg_list kg ''definitions'')"
proof -
  let ?kg = "the (load_v3_kg (\<lambda>_ _. True) valid_document)"
  have "load_v3_kg (\<lambda>_ _. True) valid_document \<noteq> None" by code_simp
  then have kg: "load_v3_kg (\<lambda>_ _. True) valid_document = Some ?kg" by simp
  have "is_clean True (run_validator ?kg)" by code_simp
  moreover have "has_key valid_document ''nodes''" "has_key valid_document ''edges''" "spelled_out valid_document" by code_simp+
  moreover have "distinct (concat (map (\<lambda>kind. map node_id_of (vg_list ?kg kind)) node_kinds))" by code_simp
  moreover have "[] \<notin> set (concat (map (\<lambda>kind. map node_id_of (vg_list ?kg kind)) node_kinds))" by code_simp
  moreover have "vg_list ?kg ''obligations'' \<noteq> []" by code_simp
  ultimately have "\<exists>obs. compile_graph (dget valid_document ''nodes'') (dget valid_document ''edges'') =
      Inr (obs, vg_list ?kg ''definitions'')"
    by (rule validated_graph_compiles [OF kg])
  with kg show ?thesis by blast
qed

definition valid_graph :: v3_graph where
  "valid_graph =
     \<lparr>vg_nodes = [(''rules'', [[(''id'', PyStr ''r1'')]]),
        (''obligations'', [[(''id'', PyStr ''ob1''), (''metric'', PyStr ''nox''), (''obligation_type'', PyStr ''must_not_exceed'')]])],
      vg_edges = [\<lparr>ve_type = Consists_Of, ve_from = ''r1'', ve_to = ''ob1''\<rparr>]\<rparr>"

theorem validator_clean_iff_witness: "is_clean True (run_validator valid_graph)"
  unfolding validator_clean_iff by code_simp

end
