(* ===== verification/Replay.thy ===== *)
theory Replay
  imports Transcript Telemetry_Buffer Ledger_Audit KG_Loader Py_Number
begin

text \<open>
  The deterministic replay of ledger entries (\<open>audit_ledger/replay.py\<close>): the stored transcript and the stored
  telemetry of an entry are checked and the evaluator is run again on them.

  \<open>json.loads\<close>, the ledger rows of the range, the rows of the telemetry buffer, the loaded Knowledge Graph and its
  hash are parameters. Text is held as characters up to code 255: a stored document with other text is
  \<open>Beyond_Model\<close>, like a few values that Python turns into text where the code expects text.
\<close>

section \<open>Stored documents\<close>

definition chars_of :: "ustr \<Rightarrow> string option" where
  "chars_of t = (if list_all (\<lambda>c. c < 256) t then Some (map char_of t) else None)"

fun py_of :: "json \<Rightarrow> py option"
  and py_items :: "json list \<Rightarrow> py list option"
  and obj_of :: "(ustr option \<times> json) list \<Rightarrow> obj option"
where
  "py_of JNull = Some PyNone"
| "py_of (JBool b) = Some (PyBool b)"
| "py_of (JInt i) = Some (PyInt i)"
| "py_of (JFloat x) = Some (PyFloat x)"
| "py_of (JStr t) = map_option PyStr (chars_of t)"
| "py_of (JArr xs) = map_option PyList (py_items xs)"
| "py_of (JObj ms) = map_option PyDict (obj_of ms)"
| "py_of JOther = None"
| "py_items [] = Some []"
| "py_items (x # xs) = (case (py_of x, py_items xs) of (Some v, Some vs) \<Rightarrow> Some (v # vs) | _ \<Rightarrow> None)"
| "obj_of [] = Some []"
| "obj_of ((k, x) # ms) =
     (case (Option.bind k chars_of, py_of x, obj_of ms) of (Some s, Some v, Some d) \<Rightarrow> Some ((s, v) # d) | _ \<Rightarrow> None)"

text \<open>Reading back what \<open>json.dumps\<close> was given, where that holds no tuple.\<close>

fun jsonable :: "py \<Rightarrow> bool"
  and jsonable_items :: "py list \<Rightarrow> bool"
  and jsonable_members :: "obj \<Rightarrow> bool"
where
  "jsonable (PyList xs) = jsonable_items xs"
| "jsonable (PyDict d) = jsonable_members d"
| "jsonable (PyTuple xs) = False"
| "jsonable _ = True"
| "jsonable_items [] = True"
| "jsonable_items (x # xs) = (jsonable x \<and> jsonable_items xs)"
| "jsonable_members [] = True"
| "jsonable_members ((k, v) # d) = (jsonable v \<and> jsonable_members d)"

lemma chars_of_ascii [simp]: "chars_of (ascii s) = Some s"
proof -
  have "of_char c < (256 :: nat)" for c :: char by (metis of_char_mod_256 mod_less_divisor zero_less_numeral)
  then show ?thesis by (simp add: chars_of_def ascii_def list_all_iff comp_def)
qed

lemma py_of_json_of:
  "jsonable v \<Longrightarrow> py_of (json_of v) = Some v" "jsonable_items xs \<Longrightarrow> py_items (json_items xs) = Some xs"
  "jsonable_members d \<Longrightarrow> obj_of (json_members d) = Some d"
  by (induction v and xs and d rule: jsonable_jsonable_items_jsonable_members.induct) simp_all

datatype divergence_reason =
    Transcript_Hash_Mismatch
  | Transcript_Signature_Invalid
  | Kg_Version_Mismatch
  | Transcript_Unreadable
  | Buffer_Row_Missing
  | Telemetry_Divergence
  | Kg_Snapshot_Divergence
  | Prompt_Divergence
  | Verdict_Divergence

text \<open>Why the check of an entry stops: an exception, which ends the replay, or a divergence, which is reported.\<close>

datatype replay_stop = Raised | Beyond_Model | Diverged divergence_reason

definition read_document :: "(ustr \<Rightarrow> json option) \<Rightarrow> ustr \<Rightarrow> replay_stop + obj" where
  "read_document loads t =
     (case loads t of
        None \<Rightarrow> Inl Raised
      | Some j \<Rightarrow> (case py_of j of None \<Rightarrow> Inl Beyond_Model | Some (PyDict d) \<Rightarrow> Inr d | Some _ \<Rightarrow> Inl Raised))"

text \<open>\<open>d.get(key) or {}\<close>, used as a dictionary.\<close>

definition sub_dict :: "obj \<Rightarrow> string \<Rightarrow> replay_stop + obj" where
  "sub_dict d key =
     (case dget d key of PyDict e \<Rightarrow> Inr e | v \<Rightarrow> if truthy v then Inl Raised else Inr [])"

text \<open>\<open>str(v)\<close>.\<close>

definition shown :: "py \<Rightarrow> replay_stop + string" where
  "shown v = (case v of PyStr s \<Rightarrow> Inr s | PyNone \<Rightarrow> Inr ''None'' | _ \<Rightarrow> Inl Beyond_Model)"

text \<open>\<open>dict(transcript.get("response_canonical") or {})\<close>; a list of pairs is beyond the model.\<close>

definition recorded_response :: "obj \<Rightarrow> replay_stop + obj" where
  "recorded_response tr =
     (case dget tr ''response_canonical'' of PyDict e \<Rightarrow> Inr e | v \<Rightarrow> if truthy v then Inl Beyond_Model else Inr [])"

section \<open>The transcript\<close>

record replay_site =
  rs_world :: world
  rs_contract :: contract
  rs_env :: "string option"
  rs_loads :: "ustr \<Rightarrow> json option"
  rs_ring :: key_ring
  rs_kg :: knowledge_graph
  rs_kg_hash :: string
  rs_template_hash :: string
  rs_calendar :: calendar
  rs_arith :: db_arith
  rs_tenant :: string
  rs_buffer :: "telemetry_row list"

text \<open>\<open>ring.keys[key_id_of(key)] = key\<close> for each key given with \<open>--signing-key\<close>; \<open>None\<close> is \<open>ValueError\<close>.\<close>

fun add_signing_keys :: "crypto \<Rightarrow> string list \<Rightarrow> key_ring \<Rightarrow> key_ring option" where
  "add_signing_keys cr [] ring = Some ring"
| "add_signing_keys cr (pem # pems) ring =
     (case load_key cr pem of
        None \<Rightarrow> None
      | Some k \<Rightarrow> add_signing_keys cr pems (ring\<lparr>k_keys := alist_set (key_id cr k) k (k_keys ring)\<rparr>))"

datatype signature_state = Signature_Verified | Unverifiable_Key string

definition transcript_signature :: "replay_site \<Rightarrow> obj \<Rightarrow> string \<times> string \<Rightarrow> replay_stop + signature_state" where
  "transcript_signature site tr = (\<lambda>(request_hash, response_hash).
     (case shown (dget_default tr ''signing_key_id'' (PyStr [])) of
        Inl e \<Rightarrow> Inl e
      | Inr kid \<Rightarrow>
          (case ring_get (rs_ring site) (Some kid) of
             None \<Rightarrow> Inr (Unverifiable_Key kid)
           | Some k \<Rightarrow>
               (let sig = dget tr ''signature_hex'' in
                if truthy sig \<and> \<not> is_str sig then Inl Raised
                else if signature_valid (w_crypto (rs_world site)) k (signing_message request_hash response_hash) (str_of sig)
                then Inr Signature_Verified else Inl (Diverged Transcript_Signature_Invalid)))))"

text \<open>The canonical request, the response, and what is known of the signature.\<close>

definition check_transcript :: "replay_site \<Rightarrow> obj \<Rightarrow> replay_stop + string \<times> obj \<times> signature_state" where
  "check_transcript site tr =
     (case (shown (dget_default tr ''request_canonical'' (PyStr [])), recorded_response tr) of
        (Inl e, _) \<Rightarrow> Inl e
      | (_, Inl e) \<Rightarrow> Inl e
      | (Inr request, Inr response) \<Rightarrow>
          (let hashes = hash_pair (rs_world site) (ascii request) response in
           if (PyStr (fst hashes), PyStr (snd hashes)) \<noteq> (dget tr ''request_hash'', dget tr ''response_hash'')
           then Inl (Diverged Transcript_Hash_Mismatch)
           else map_sum id (\<lambda>sg. (request, response, sg)) (transcript_signature site tr hashes)))"

section \<open>The recorded inputs\<close>

definition kg_accepted :: "replay_site \<Rightarrow> obj \<Rightarrow> replay_stop + unit" where
  "kg_accepted site provenance =
     (case dget provenance ''kg_version_hash'' of
        PyList _ \<Rightarrow> Inl Raised
      | PyDict _ \<Rightarrow> Inl Raised
      | v \<Rightarrow>
          if v = PyStr (rs_kg_hash site) \<or> (case legacy_version_hash (rs_kg site) of None \<Rightarrow> False | Some h \<Rightarrow> v = PyStr h)
          then Inr () else Inl (Diverged Kg_Version_Mismatch))"

definition recovered_inputs :: "replay_site \<Rightarrow> string \<Rightarrow> replay_stop + obj \<times> obj" where
  "recovered_inputs site request =
     (case recover_prompt_inputs (rs_loads site) (ascii request) of
        Inl _ \<Rightarrow> Inl (Diverged Transcript_Unreadable)
      | Inr (ms, ss) \<Rightarrow>
          (case (obj_of ms, obj_of ss) of (Some m, Some s) \<Rightarrow> Inr (m, s) | _ \<Rightarrow> Inl Beyond_Model))"

definition buffered_telemetry :: "replay_site \<Rightarrow> string \<Rightarrow> obj \<Rightarrow> replay_stop + telemetry_row" where
  "buffered_telemetry site thash m =
     (case fetch_at (rs_tenant site) (rs_buffer site) thash of
        None \<Rightarrow> Inl (Diverged Buffer_Row_Missing)
      | Some tel \<Rightarrow>
          if py_eq (PyDict (r_measurement tel)) (PyDict m) then Inr tel else Inl (Diverged Telemetry_Divergence))"

definition optional_text :: "py \<Rightarrow> replay_stop + string option" where
  "optional_text v = (case v of PyNone \<Rightarrow> Inr None | PyStr s \<Rightarrow> Inr (Some s) | _ \<Rightarrow> Inl Beyond_Model)"

text \<open>\<open>[ob.get("id") for ob in snapshot.get("obligations", [])]\<close>.\<close>

definition obligation_ids :: "obj \<Rightarrow> replay_stop + py list" where
  "obligation_ids snap =
     (case iter_items (dget_default snap ''obligations'' (PyList [])) of
        None \<Rightarrow> Inl Raised
      | Some obs \<Rightarrow>
          if list_all is_dict obs then Inr (map (\<lambda>ob. dget ob ''id'') (List.map_filter dict_of obs)) else Inl Raised)"

definition rescoped :: "replay_site \<Rightarrow> obj \<Rightarrow> int \<Rightarrow> replay_stop + obj" where
  "rescoped site snap as_of =
     (case sub_dict snap ''scope'' of
        Inl e \<Rightarrow> Inl e
      | Inr scope \<Rightarrow>
     (case (optional_text (dget scope ''jurisdiction''), optional_text (dget scope ''subject'')) of
        (Inr jurisdiction, Inr subject) \<Rightarrow>
          (case scope_to (rs_calendar site) (rs_kg site) jurisdiction as_of subject of
             Inl _ \<Rightarrow> Inl Raised
           | Inr s \<Rightarrow> Inr s)
      | _ \<Rightarrow> Inl Beyond_Model))"

definition same_obligations :: "replay_site \<Rightarrow> obj \<Rightarrow> int \<Rightarrow> replay_stop + unit" where
  "same_obligations site snap as_of =
     (case rescoped site snap as_of of
        Inl e \<Rightarrow> Inl e
      | Inr again \<Rightarrow>
     (case (obligation_ids again, obligation_ids snap) of
        (Inr xs, Inr ys) \<Rightarrow> if py_eq_list xs ys then Inr () else Inl (Diverged Kg_Snapshot_Divergence)
      | _ \<Rightarrow> Inl Raised))"

section \<open>The evaluation\<close>

text \<open>\<open>_RecordedResponse\<close> and the evaluator around it.\<close>

definition zero_hash :: string where
  "zero_hash = ''sha256:'' @ replicate 64 (CHR ''0'')"

definition recorded_backend :: "obj \<Rightarrow> replay_stop + llm_backend" where
  "recorded_backend p =
     (case (shown (dget_default p ''model_weight_hash'' (PyStr zero_hash)), shown (dget_default p ''prompt_template_id'' (PyStr [])),
            shown (dget_default p ''prompt_template_hash'' (PyStr zero_hash)),
            shown (dget_default p ''structured_grammar_hash'' (PyStr zero_hash))) of
        (Inr weight, Inr tid, Inr template, Inr grammar) \<Rightarrow>
          Inr \<lparr>backend_class = ''_RecordedResponse'', backend_name = Some ''recorded-transcript'', backend_weight_hash = weight,
               backend_template_id = tid, backend_template_hash = template, backend_grammar_hash = grammar,
               backend_hash_verified = None\<rparr>
      | _ \<Rightarrow> Inl Beyond_Model)"

definition recorded_evaluator :: "replay_site \<Rightarrow> obj \<Rightarrow> replay_stop + evaluator" where
  "recorded_evaluator site p =
     (case to_int (dget_default p ''decoder_seed'' (PyInt 0)) of
        Inl _ \<Rightarrow> Inl Raised
      | Inr seed \<Rightarrow>
          map_sum id
            (\<lambda>llm. \<lparr>ev_llm = llm, ev_kg_version_hash = rs_kg_hash site, ev_decoder_seed = seed,
                   ev_kg_signer_key_id = None, ev_kg_trust = None\<rparr>)
            (recorded_backend p))"

text \<open>The prompt is compared only where the entry was recorded under the template of this runtime.\<close>

definition check_prompt :: "replay_site \<Rightarrow> obj \<Rightarrow> obj \<Rightarrow> obj \<Rightarrow> string \<Rightarrow> replay_stop + ustr" where
  "check_prompt site p m snap request =
     (case render_canonical_prompt (w_runtime (rs_world site)) m snap of
        Inl _ \<Rightarrow> Inl Raised
      | Inr prompt \<Rightarrow>
          if dget p ''prompt_template_hash'' = PyStr (rs_template_hash site) \<and> prompt \<noteq> ascii request
          then Inl (Diverged Prompt_Divergence) else Inr prompt)"

text \<open>Without a signer there is no transcript, and the clock and the id are not read.\<close>

definition no_context :: call_context where
  "no_context = \<lparr>cx_uuid = [], cx_started = [], cx_completed = []\<rparr>"

definition replay_source :: "replay_site \<Rightarrow> telemetry_source" where
  "replay_source site = buffer_source (rs_arith site) (rs_tenant site) (rs_buffer site)"

definition rerun :: "replay_site \<Rightarrow> obj \<Rightarrow> obj \<Rightarrow> obj \<Rightarrow> telemetry_row \<Rightarrow> string \<Rightarrow> obj \<Rightarrow> replay_stop + envelope" where
  "rerun site p m snap tel request response =
     (case recorded_evaluator site p of
        Inl e \<Rightarrow> Inl e
      | Inr ev \<Rightarrow>
     (case check_prompt site p m snap request of
        Inl e \<Rightarrow> Inl e
      | Inr prompt \<Rightarrow>
     (case aevaluate_with_transcript (rs_world site) (rs_contract site) (rs_env site) ev None no_context prompt m snap
             (PyStr (tier_for_snapshot snap)) (Some (r_subject tel)) (Some (r_ts tel)) (Some (replay_source site)) response of
        Inl _ \<Rightarrow> Inl Raised
      | Inr r \<Rightarrow> Inr (er_envelope r))))"

definition replay_evaluation :: "replay_site \<Rightarrow> obj \<Rightarrow> string \<Rightarrow> string \<Rightarrow> obj \<Rightarrow> replay_stop + envelope" where
  "replay_evaluation site env thash request response =
     (case sub_dict env ''model_provenance'' of
        Inl e \<Rightarrow> Inl e
      | Inr p \<Rightarrow>
     (case kg_accepted site p of
        Inl e \<Rightarrow> Inl e
      | Inr _ \<Rightarrow>
     (case recovered_inputs site request of
        Inl e \<Rightarrow> Inl e
      | Inr (m, snap) \<Rightarrow>
     (case buffered_telemetry site thash m of
        Inl e \<Rightarrow> Inl e
      | Inr tel \<Rightarrow>
     (case same_obligations site snap (r_ts tel) of
        Inl e \<Rightarrow> Inl e
      | Inr _ \<Rightarrow> rerun site p m snap tel request response)))))"

section \<open>The report\<close>

record replay_report =
  rp_total :: nat
  rp_replayed :: nat
  rp_skipped :: nat
  rp_matched :: nat
  rp_signatures :: nat
  rp_mismatches :: "(int \<times> divergence_reason) list"
  rp_unverifiable :: "string list"

definition replay_clean :: "replay_report \<Rightarrow> bool" where
  "replay_clean rp = (rp_mismatches rp = [] \<and> rp_replayed rp > 0 \<and> rp_replayed rp = rp_matched rp)"

definition stop_entry :: "ledger_row \<Rightarrow> replay_stop \<Rightarrow> replay_report \<Rightarrow> replay_stop + replay_report" where
  "stop_entry row s rp =
     (case s of
        Diverged d \<Rightarrow> Inr (rp\<lparr>rp_mismatches := rp_mismatches rp @ [(l_seq row, d)]\<rparr>)
      | _ \<Rightarrow> Inl s)"

definition note_signature :: "signature_state \<Rightarrow> replay_report \<Rightarrow> replay_report" where
  "note_signature sg rp =
     (case sg of
        Signature_Verified \<Rightarrow> rp\<lparr>rp_signatures := Suc (rp_signatures rp)\<rparr>
      | Unverifiable_Key kid \<Rightarrow> rp\<lparr>rp_unverifiable := List.insert kid (rp_unverifiable rp)\<rparr>)"

definition compare_verdict :: "ledger_row \<Rightarrow> string \<Rightarrow> envelope \<Rightarrow> replay_report \<Rightarrow> replay_stop + replay_report" where
  "compare_verdict row recorded e rp =
     (if ascii (verdict_name (verdict e)) = l_verdict row \<and> status_name (status (verifier_result e)) = recorded
      then Inr (rp\<lparr>rp_matched := Suc (rp_matched rp)\<rparr>) else stop_entry row (Diverged Verdict_Divergence) rp)"

text \<open>An entry with an envelope and a transcript, both read.\<close>

definition replay_recorded ::
  "replay_site \<Rightarrow> ledger_row \<Rightarrow> obj \<Rightarrow> obj \<Rightarrow> string \<Rightarrow> replay_report \<Rightarrow> replay_stop + replay_report" where
  "replay_recorded site row env tr recorded rp =
     (case check_transcript site tr of
        Inl s \<Rightarrow> stop_entry row s rp
      | Inr (request, response, sg) \<Rightarrow>
          (case replay_evaluation site env (l_thash row) request response of
             Inl s \<Rightarrow> stop_entry row s (note_signature sg rp)
           | Inr e \<Rightarrow> compare_verdict row recorded e (note_signature sg rp)))"

definition replay_entry :: "replay_site \<Rightarrow> ledger_row \<Rightarrow> replay_report \<Rightarrow> replay_stop + replay_report" where
  "replay_entry site row rp =
     (case (l_envelope row, l_transcript row) of
        (Some env_text, Some tr_text) \<Rightarrow>
          (case (read_document (rs_loads site) env_text, read_document (rs_loads site) tr_text) of
             (Inl e, _) \<Rightarrow> Inl e
           | (_, Inl e) \<Rightarrow> Inl e
           | (Inr env, Inr tr) \<Rightarrow>
          (case sub_dict env ''verifier_result'' of
             Inl e \<Rightarrow> Inl e
           | Inr vr \<Rightarrow>
          (case shown (dget vr ''status'') of
             Inl e \<Rightarrow> Inl e
           | Inr recorded \<Rightarrow> replay_recorded site row env tr recorded (rp\<lparr>rp_replayed := Suc (rp_replayed rp)\<rparr>))))
      | _ \<Rightarrow> Inr (rp\<lparr>rp_skipped := Suc (rp_skipped rp)\<rparr>))"

definition rows_between :: "int \<Rightarrow> int \<Rightarrow> ledger_row list \<Rightarrow> ledger_row list" where
  "rows_between lo hi rows = sort_key l_seq (filter (\<lambda>r. lo \<le> l_seq r \<and> l_seq r \<le> hi) rows)"

definition replay :: "replay_site \<Rightarrow> int \<Rightarrow> int \<Rightarrow> ledger_row list \<Rightarrow> replay_stop + replay_report" where
  "replay site lo hi ledger =
     (let rows = rows_between lo hi ledger in
      fold_err (replay_entry site) rows
        \<lparr>rp_total = length rows, rp_replayed = 0, rp_skipped = 0, rp_matched = 0, rp_signatures = 0, rp_mismatches = [],
         rp_unverifiable = []\<rparr>)"

section \<open>What a report counts\<close>

definition counts_agree :: "nat \<Rightarrow> replay_report \<Rightarrow> bool" where
  "counts_agree n rp \<longleftrightarrow>
     rp_replayed rp + rp_skipped rp = n \<and> rp_matched rp + length (rp_mismatches rp) = rp_replayed rp \<and>
     rp_signatures rp \<le> rp_replayed rp"

lemma note_signature_fields [simp]:
  "rp_mismatches (note_signature sg rp) = rp_mismatches rp" "rp_matched (note_signature sg rp) = rp_matched rp"
  "rp_replayed (note_signature sg rp) = rp_replayed rp" "rp_skipped (note_signature sg rp) = rp_skipped rp"
  "rp_total (note_signature sg rp) = rp_total rp"
  "rp_signatures (note_signature sg rp) \<le> Suc (rp_signatures rp)"
  by (simp_all add: note_signature_def split: signature_state.split)

lemma stop_entry_Inr:
  "stop_entry row s rp = Inr rp' \<longleftrightarrow> (\<exists>d. s = Diverged d \<and> rp' = rp\<lparr>rp_mismatches := rp_mismatches rp @ [(l_seq row, d)]\<rparr>)"
  by (auto simp: stop_entry_def split: replay_stop.splits)

text \<open>What one entry does to the report: it is skipped, reported as a mismatch, or matched.\<close>

definition reproduced :: "replay_site \<Rightarrow> ledger_row \<Rightarrow> bool" where
  "reproduced site row \<longleftrightarrow>
     (\<exists>et tt env tr vr recorded request response sg e. l_envelope row = Some et \<and> l_transcript row = Some tt \<and>
        read_document (rs_loads site) et = Inr env \<and> read_document (rs_loads site) tt = Inr tr \<and>
        sub_dict env ''verifier_result'' = Inr vr \<and> shown (dget vr ''status'') = Inr recorded \<and>
        check_transcript site tr = Inr (request, response, sg) \<and>
        replay_evaluation site env (l_thash row) request response = Inr e \<and>
        ascii (verdict_name (verdict e)) = l_verdict row \<and> status_name (status (verifier_result e)) = recorded)"

lemma replay_entry_cases:
  assumes "replay_entry site row rp = Inr rp'"
  obtains (skipped) "l_envelope row = None \<or> l_transcript row = None" "rp' = rp\<lparr>rp_skipped := Suc (rp_skipped rp)\<rparr>"
  | (mismatch) d where "rp_mismatches rp' = rp_mismatches rp @ [(l_seq row, d)]" "rp_matched rp' = rp_matched rp"
      "rp_replayed rp' = Suc (rp_replayed rp)" "rp_skipped rp' = rp_skipped rp" "rp_signatures rp' \<le> Suc (rp_signatures rp)"
  | (matched) "reproduced site row" "rp_mismatches rp' = rp_mismatches rp" "rp_matched rp' = Suc (rp_matched rp)"
      "rp_replayed rp' = Suc (rp_replayed rp)" "rp_skipped rp' = rp_skipped rp" "rp_signatures rp' \<le> Suc (rp_signatures rp)"
proof (cases "l_envelope row = None \<or> l_transcript row = None")
  case True
  with assms show thesis by (auto simp: replay_entry_def split: option.splits intro: skipped)
next
  case False
  then obtain et tt where docs: "l_envelope row = Some et" "l_transcript row = Some tt" by auto
  let ?rp = "rp\<lparr>rp_replayed := Suc (rp_replayed rp)\<rparr>"
  from assms docs obtain env tr vr recorded where read: "read_document (rs_loads site) et = Inr env"
      "read_document (rs_loads site) tt = Inr tr" "sub_dict env ''verifier_result'' = Inr vr"
      "shown (dget vr ''status'') = Inr recorded" and run: "replay_recorded site row env tr recorded ?rp = Inr rp'"
    by (auto simp: replay_entry_def split: sum.splits)
  show thesis
  proof (cases "check_transcript site tr")
    case (Inl s)
    with run show thesis by (auto simp: replay_recorded_def stop_entry_Inr intro: mismatch)
  next
    case (Inr t)
    then obtain request response sg where t: "check_transcript site tr = Inr (request, response, sg)" by (cases t) auto
    have counted: "rp_signatures (note_signature sg ?rp) \<le> Suc (rp_signatures rp)"
      using note_signature_fields(6) [of sg ?rp] by simp
    show thesis
    proof (cases "replay_evaluation site env (l_thash row) request response")
      case (Inl s)
      with run t obtain d where "rp' = note_signature sg ?rp\<lparr>rp_mismatches := rp_mismatches rp @ [(l_seq row, d)]\<rparr>"
        by (auto simp: replay_recorded_def stop_entry_Inr)
      with counted show thesis by (intro mismatch [of d]) simp_all
    next
      case (Inr e)
      show thesis
      proof (cases "ascii (verdict_name (verdict e)) = l_verdict row \<and> status_name (status (verifier_result e)) = recorded")
        case True
        with run t Inr have "rp' = note_signature sg ?rp\<lparr>rp_matched := Suc (rp_matched rp)\<rparr>"
          by (simp add: replay_recorded_def compare_verdict_def)
        moreover from True have "reproduced site row" using docs read t Inr unfolding reproduced_def by blast
        ultimately show thesis using counted by (intro matched) simp_all
      next
        case False
        with run t Inr have "rp' = note_signature sg ?rp\<lparr>rp_mismatches := rp_mismatches rp @ [(l_seq row, Verdict_Divergence)]\<rparr>"
          by (auto simp: replay_recorded_def compare_verdict_def stop_entry_Inr)
        with counted show thesis by (intro mismatch [of Verdict_Divergence]) simp_all
      qed
    qed
  qed
qed

lemma replay_entry_total: "replay_entry site row rp = Inr rp' \<Longrightarrow> rp_total rp' = rp_total rp"
  by (auto simp: replay_entry_def replay_recorded_def compare_verdict_def stop_entry_Inr split: option.splits sum.splits if_splits)

lemma replay_total: "fold_err (replay_entry site) rows rp = Inr rp' \<Longrightarrow> rp_total rp' = rp_total rp"
proof (induction rows arbitrary: rp)
  case (Cons row rows)
  then show ?case by (auto split: sum.splits dest: replay_entry_total)
qed simp

lemma replay_entry_counts:
  assumes "counts_agree n rp" "replay_entry site row rp = Inr rp'"
  shows "counts_agree (Suc n) rp'"
  using assms(2) by (cases rule: replay_entry_cases) (use assms(1) in \<open>auto simp: counts_agree_def\<close>)

lemma replay_counts:
  assumes "fold_err (replay_entry site) rows rp = Inr rp'" "counts_agree n rp"
  shows "counts_agree (n + length rows) rp'"
  using assms
proof (induction rows arbitrary: rp n)
  case (Cons row rows)
  then obtain rp1 where one: "replay_entry site row rp = Inr rp1" "fold_err (replay_entry site) rows rp1 = Inr rp'"
    by (auto split: sum.splits)
  from Cons.IH [OF one(2) replay_entry_counts [OF Cons.prems(2) one(1)]] show ?case by simp
qed simp

lemma replay_keeps_mismatches:
  assumes "fold_err (replay_entry site) rows rp = Inr rp'"
  shows "rp_mismatches rp' = [] \<longrightarrow> rp_mismatches rp = []"
  using assms
proof (induction rows arbitrary: rp)
  case (Cons row rows)
  then obtain rp1 where one: "replay_entry site row rp = Inr rp1" "fold_err (replay_entry site) rows rp1 = Inr rp'"
    by (auto split: sum.splits)
  from one(1) have "rp_mismatches rp1 = [] \<longrightarrow> rp_mismatches rp = []" by (cases rule: replay_entry_cases) auto
  with Cons.IH [OF one(2)] show ?case by blast
qed simp

lemma replay_reproduces:
  assumes "fold_err (replay_entry site) rows rp = Inr rp'" "rp_mismatches rp' = []"
    and "row \<in> set rows" "l_envelope row \<noteq> None" "l_transcript row \<noteq> None"
  shows "reproduced site row"
  using assms
proof (induction rows arbitrary: rp)
  case (Cons r rows)
  then obtain rp1 where one: "replay_entry site r rp = Inr rp1" "fold_err (replay_entry site) rows rp1 = Inr rp'"
    by (auto split: sum.splits)
  have none: "rp_mismatches rp1 = []" using replay_keeps_mismatches [OF one(2)] Cons.prems(2) by blast
  show ?case
  proof (cases "row = r")
    case True
    from one(1) show ?thesis
      by (cases rule: replay_entry_cases) (use none Cons.prems(4,5) True in auto)
  next
    case False
    with Cons.prems one(2) show ?thesis by (intro Cons.IH [OF one(2)]) auto
  qed
qed simp

lemma set_rows_between [simp]: "set (rows_between lo hi ledger) = {r \<in> set ledger. lo \<le> l_seq r \<and> l_seq r \<le> hi}"
  by (auto simp: rows_between_def)

section \<open>What a clean replay shows\<close>

lemma kg_accepted_Inr:
  "kg_accepted site p = Inr u \<Longrightarrow> dget p ''kg_version_hash'' = PyStr (rs_kg_hash site) \<or>
     (\<exists>h. legacy_version_hash (rs_kg site) = Some h \<and> dget p ''kg_version_hash'' = PyStr h)"
  by (auto simp: kg_accepted_def split: py.splits if_splits option.splits)

lemma buffered_telemetry_Inr:
  "buffered_telemetry site h m = Inr tel \<Longrightarrow>
     fetch_at (rs_tenant site) (rs_buffer site) h = Some tel \<and> py_eq (PyDict (r_measurement tel)) (PyDict m)"
  by (auto simp: buffered_telemetry_def split: option.splits if_splits)

lemma same_obligations_Inr:
  assumes "same_obligations site snap t = Inr u"
  obtains scope again j s xs ys where "sub_dict snap ''scope'' = Inr scope"
    "optional_text (dget scope ''jurisdiction'') = Inr j" "optional_text (dget scope ''subject'') = Inr s"
    "scope_to (rs_calendar site) (rs_kg site) j t s = Inr again"
    "obligation_ids again = Inr xs" "obligation_ids snap = Inr ys" "py_eq_list xs ys"
  using assms by (auto simp: same_obligations_def rescoped_def split: sum.splits if_splits)

lemma rerun_Inr:
  assumes "rerun site p m snap tel request response = Inr e"
  obtains ev where "recorded_evaluator site p = Inr ev"
    "aevaluate (rs_contract site) (rs_env site) ev ''transcript:unsigned'' m snap (PyStr (tier_for_snapshot snap))
      (Some (r_subject tel)) (Some (r_ts tel)) (Some (replay_source site)) response = Inr e"
  using assms
  by (auto simp: rerun_def aevaluate_with_transcript_def build_transcript_def transcript_reference_def map_sum_Inr split: sum.splits)

lemma hash_check:
  assumes "check_transcript site tr = Inr (request, response, sg)"
  shows "shown (dget_default tr ''request_canonical'' (PyStr [])) = Inr request" "recorded_response tr = Inr response"
    and "\<exists>rh ph. hash_pair (rs_world site) (ascii request) response = (rh, ph) \<and>
      dget tr ''request_hash'' = PyStr rh \<and> dget tr ''response_hash'' = PyStr ph \<and>
      transcript_signature site tr (rh, ph) = Inr sg"
  using assms
  by (auto simp: check_transcript_def Let_def map_sum_Inr split: sum.splits if_splits) (metis prod.collapse)

lemma transcript_signature_Inr:
  assumes "transcript_signature site tr (rh, ph) = Inr sg" "dget tr ''signing_key_id'' = PyStr kid"
    "ring_get (rs_ring site) (Some kid) = Some k"
  shows "signature_valid (w_crypto (rs_world site)) k (signing_message rh ph) (str_of (dget tr ''signature_hex''))"
proof -
  have "dget_default tr ''signing_key_id'' (PyStr []) = PyStr kid"
    using assms(2) by (simp add: dget_def dget_default_def split: option.splits)
  with assms(1,3) show ?thesis
    by (auto simp: transcript_signature_def shown_def Let_def split: if_splits)
qed

lemma no_marker: "length t < length p \<Longrightarrow> p \<noteq> [] \<Longrightarrow> partition_at p t = None"
proof (induction t)
  case (Cons c t)
  then show ?case by (subst partition_at.simps) (auto simp: take_Cons' dest: arg_cong [where f = length])
qed (subst partition_at.simps; simp)

text \<open>A transcript whose request is no text recovers nothing.\<close>

lemma request_is_text:
  assumes "shown (dget_default tr ''request_canonical'' (PyStr [])) = Inr request" "recovered_inputs site request = Inr inputs"
  shows "dget tr ''request_canonical'' = PyStr request"
proof -
  have "recovered_inputs site t = Inl (Diverged Transcript_Unreadable)" if "t = [] \<or> t = ''None''" for t
  proof -
    have "partition_at measurement_marker (ascii t) = None"
      using that by (intro no_marker) (auto simp: measurement_marker_def ascii_def)
    then show ?thesis by (simp add: recovered_inputs_def recover_prompt_inputs_def)
  qed
  with assms have "request \<noteq> []" "request \<noteq> ''None''" by auto
  with assms(1) show ?thesis
    by (auto simp: shown_def dget_default_def dget_def split: py.splits option.splits)
qed

text \<open>
  The stored transcript of an entry: its request and response hash to the recorded hashes, and where the key that it
  names is known, that key signed them.
\<close>

definition stored_transcript :: "replay_site \<Rightarrow> ledger_row \<Rightarrow> string \<Rightarrow> obj \<Rightarrow> bool" where
  "stored_transcript site row request response \<longleftrightarrow>
     (\<exists>tt tr rh ph. l_transcript row = Some tt \<and> read_document (rs_loads site) tt = Inr tr \<and>
        dget tr ''request_canonical'' = PyStr request \<and> recorded_response tr = Inr response \<and>
        hash_pair (rs_world site) (ascii request) response = (rh, ph) \<and>
        dget tr ''request_hash'' = PyStr rh \<and> dget tr ''response_hash'' = PyStr ph \<and>
        (\<forall>kid k. dget tr ''signing_key_id'' = PyStr kid \<longrightarrow> ring_get (rs_ring site) (Some kid) = Some k \<longrightarrow>
           signature_valid (w_crypto (rs_world site)) k (signing_message rh ph) (str_of (dget tr ''signature_hex''))))"

text \<open>The provenance in the stored envelope of an entry, made with the Knowledge Graph that is given.\<close>

definition recorded_provenance :: "replay_site \<Rightarrow> ledger_row \<Rightarrow> obj \<Rightarrow> bool" where
  "recorded_provenance site row p \<longleftrightarrow>
     (\<exists>et env. l_envelope row = Some et \<and> read_document (rs_loads site) et = Inr env \<and>
        sub_dict env ''model_provenance'' = Inr p \<and>
        (dget p ''kg_version_hash'' = PyStr (rs_kg_hash site) \<or>
         (\<exists>h. legacy_version_hash (rs_kg site) = Some h \<and> dget p ''kg_version_hash'' = PyStr h)))"

text \<open>The recorded inputs stand: the buffer has the reading, and the graph, scoped as recorded, the obligations.\<close>

definition rests_on :: "replay_site \<Rightarrow> ledger_row \<Rightarrow> obj \<Rightarrow> obj \<Rightarrow> telemetry_row \<Rightarrow> bool" where
  "rests_on site row m snap tel \<longleftrightarrow>
     fetch_at (rs_tenant site) (rs_buffer site) (l_thash row) = Some tel \<and>
     py_eq (PyDict (r_measurement tel)) (PyDict m) \<and>
     (\<exists>scope again j s xs ys. sub_dict snap ''scope'' = Inr scope \<and>
        optional_text (dget scope ''jurisdiction'') = Inr j \<and> optional_text (dget scope ''subject'') = Inr s \<and>
        scope_to (rs_calendar site) (rs_kg site) j (r_ts tel) s = Inr again \<and>
        obligation_ids again = Inr xs \<and> obligation_ids snap = Inr ys \<and> py_eq_list xs ys)"

lemma reproduced_evaluation:
  assumes "reproduced site row"
  obtains request response p m snap tel ev e where "stored_transcript site row request response"
    "recovered_inputs site request = Inr (m, snap)" "recorded_provenance site row p" "rests_on site row m snap tel"
    "recorded_evaluator site p = Inr ev"
    "aevaluate (rs_contract site) (rs_env site) ev ''transcript:unsigned'' m snap (PyStr (tier_for_snapshot snap))
       (Some (r_subject tel)) (Some (r_ts tel)) (Some (replay_source site)) response = Inr e"
    "ascii (verdict_name (verdict e)) = l_verdict row"
proof -
  from assms obtain et tt env tr request response sg e where r: "l_envelope row = Some et" "l_transcript row = Some tt"
      "read_document (rs_loads site) et = Inr env" "read_document (rs_loads site) tt = Inr tr"
      "check_transcript site tr = Inr (request, response, sg)"
      "replay_evaluation site env (l_thash row) request response = Inr e" "ascii (verdict_name (verdict e)) = l_verdict row"
    unfolding reproduced_def by blast
  from r(6) obtain p m snap tel where run: "sub_dict env ''model_provenance'' = Inr p" "kg_accepted site p = Inr ()"
      "recovered_inputs site request = Inr (m, snap)" "buffered_telemetry site (l_thash row) m = Inr tel"
      "same_obligations site snap (r_ts tel) = Inr ()" "rerun site p m snap tel request response = Inr e"
    by (auto simp: replay_evaluation_def split: sum.splits)
  have "stored_transcript site row request response"
    using r(2,4) hash_check [OF r(5)] request_is_text [OF hash_check(1) [OF r(5)] run(3)] transcript_signature_Inr
    unfolding stored_transcript_def by blast
  moreover have "recorded_provenance site row p"
    using r(1,3) run(1) kg_accepted_Inr [OF run(2)] unfolding recorded_provenance_def by blast
  moreover have "rests_on site row m snap tel"
    using buffered_telemetry_Inr [OF run(4)] same_obligations_Inr [OF run(5)] unfolding rests_on_def by metis
  moreover obtain ev where "recorded_evaluator site p = Inr ev"
    "aevaluate (rs_contract site) (rs_env site) ev ''transcript:unsigned'' m snap (PyStr (tier_for_snapshot snap))
       (Some (r_subject tel)) (Some (r_ts tel)) (Some (replay_source site)) response = Inr e"
    by (rule rerun_Inr [OF run(6)])
  ultimately show thesis using that run(3) r(7) by blast
qed

section \<open>Properties\<close>

text \<open>
  Property C11. A clean replay stands behind every entry of its range that the model evaluated. The measurement and
  the slice are those in the request of the entry's own transcript, whose hashes are the recorded ones and whose
  known key signed them; the recorded provenance names the given Knowledge Graph; the buffer has the entry's reading
  and it equals that measurement; the graph, scoped as the slice records, has the obligations of the slice; and the
  evaluator, rerun on the recorded response, yields the verdict of the entry. When that verdict is CLEAR or
  NULL_UNMAPPED, the verifier finds no obligation of the slice breached by the measurement. The counts add up.
\<close>

theorem clean_replay_has_no_hidden_breach:
  assumes "replay site lo hi ledger = Inr rp" "replay_clean rp"
    and "row \<in> set ledger" "lo \<le> l_seq row" "l_seq row \<le> hi" "l_envelope row \<noteq> None" "l_transcript row \<noteq> None"
  shows "(\<exists>request response p m snap tel ev e.
      stored_transcript site row request response \<and> recovered_inputs site request = Inr (m, snap) \<and>
      recorded_provenance site row p \<and> rests_on site row m snap tel \<and> recorded_evaluator site p = Inr ev \<and>
      aevaluate (rs_contract site) (rs_env site) ev ''transcript:unsigned'' m snap (PyStr (tier_for_snapshot snap))
        (Some (r_subject tel)) (Some (r_ts tel)) (Some (replay_source site)) response = Inr e \<and>
      ascii (verdict_name (verdict e)) = l_verdict row \<and>
      (l_verdict row \<in> {ascii ''CLEAR'', ascii ''NULL_UNMAPPED''} \<longrightarrow>
         breaches_of (Some (r_subject tel)) (Some (r_ts tel)) (Some (replay_source site)) m snap = [])) \<and>
    rp_total rp = rp_matched rp + rp_skipped rp"
proof (rule conjI)
  let ?rows = "rows_between lo hi ledger"
  from assms(1) have run: "fold_err (replay_entry site) ?rows
      \<lparr>rp_total = length ?rows, rp_replayed = 0, rp_skipped = 0, rp_matched = 0, rp_signatures = 0, rp_mismatches = [],
       rp_unverifiable = []\<rparr> = Inr rp"
    by (simp add: replay_def Let_def)
  have "reproduced site row"
    using replay_reproduces [OF run] assms by (simp add: replay_clean_def)
  then obtain request response p m snap tel ev e where r: "stored_transcript site row request response"
    "recovered_inputs site request = Inr (m, snap)" "recorded_provenance site row p" "rests_on site row m snap tel"
    "recorded_evaluator site p = Inr ev"
    and e: "aevaluate (rs_contract site) (rs_env site) ev ''transcript:unsigned'' m snap (PyStr (tier_for_snapshot snap))
       (Some (r_subject tel)) (Some (r_ts tel)) (Some (replay_source site)) response = Inr e"
    and v: "ascii (verdict_name (verdict e)) = l_verdict row"
    by (rule reproduced_evaluation)
  have "verdict e \<in> {CLEAR, NULL_UNMAPPED}" if "l_verdict row \<in> {ascii ''CLEAR'', ascii ''NULL_UNMAPPED''}"
    using that unfolding v [symmetric] by (cases "verdict e") (simp_all add: ascii_def)
  with breach_floor [OF e]
  have "l_verdict row \<in> {ascii ''CLEAR'', ascii ''NULL_UNMAPPED''} \<longrightarrow>
      breaches_of (Some (r_subject tel)) (Some (r_ts tel)) (Some (replay_source site)) m snap = []"
    by blast
  with r e v show "\<exists>request response p m snap tel ev e.
      stored_transcript site row request response \<and> recovered_inputs site request = Inr (m, snap) \<and>
      recorded_provenance site row p \<and> rests_on site row m snap tel \<and> recorded_evaluator site p = Inr ev \<and>
      aevaluate (rs_contract site) (rs_env site) ev ''transcript:unsigned'' m snap (PyStr (tier_for_snapshot snap))
        (Some (r_subject tel)) (Some (r_ts tel)) (Some (replay_source site)) response = Inr e \<and>
      ascii (verdict_name (verdict e)) = l_verdict row \<and>
      (l_verdict row \<in> {ascii ''CLEAR'', ascii ''NULL_UNMAPPED''} \<longrightarrow>
         breaches_of (Some (r_subject tel)) (Some (r_ts tel)) (Some (replay_source site)) m snap = [])"
    by blast
  from replay_total [OF run] replay_counts [OF run, of 0] assms(2)
  show "rp_total rp = rp_matched rp + rp_skipped rp" by (simp add: counts_agree_def replay_clean_def)
qed

subsection \<open>Witness\<close>

text \<open>A ledger of one entry: one obligation, one reading, a stored transcript that one key signed.\<close>

definition replay_request :: string where
  "replay_request = map char_of (measurement_marker @ [109] @ snapshot_marker @ [115])"

definition replay_measurement :: obj where
  "replay_measurement = [(''nox'', PyInt 40)]"

definition replay_transcript :: obj where
  "replay_transcript =
     [(''request_canonical'', PyStr replay_request), (''request_hash'', PyStr ''sha256:''),
      (''response_canonical'', PyDict (sample_answer ''CLEAR'' ''ob1'')), (''response_hash'', PyStr ''sha256:''),
      (''signature_hex'', PyStr ''00''), (''signing_key_id'', PyStr ''k'')]"

definition replay_envelope :: obj where
  "replay_envelope =
     [(''verifier_result'', PyDict [(''status'', PyStr ''AGREED'')]), (''model_provenance'', PyDict [(''kg_version_hash'', PyStr ''h'')])]"

text \<open>What the stored texts denote.\<close>

definition replay_loads :: "ustr \<Rightarrow> json option" where
  "replay_loads t =
     map_option (json_of \<circ> PyDict)
       (map_of [([101], replay_envelope), ([116], replay_transcript), ([109], replay_measurement), ([115], sample_snapshot ''nox'')] t)"

definition replay_example :: replay_site where
  "replay_example =
     \<lparr>rs_world =
        \<lparr>w_runtime = \<lparr>nearest = Some, repr_text = (\<lambda>q. []), nfc = (\<lambda>t. t), max_int_digits = 4300\<rparr>, w_sha = (\<lambda>b. []),
         w_scan = (\<lambda>t. None),
         w_crypto = \<lparr>load_pem = (\<lambda>p. Some (Ed25519 1)), key_id = (\<lambda>k. ''k''), verifies = (\<lambda>k sig m. sig = [0])\<rparr>,
         w_jsonb = (\<lambda>t. t), w_transcript_id = (\<lambda>t. None), w_iso_utc = (\<lambda>t. []), w_iso_session = (\<lambda>t. [])\<rparr>,
      rs_contract = sample_contract (sample_claim ''nox'' 40 None), rs_env = None, rs_loads = replay_loads,
      rs_ring = \<lparr>k_keys = [(''k'', 1)], k_bad = [], k_trusted = None\<rparr>,
      rs_kg = \<lparr>kg_version = ''1'', kg_rules = List.map_filter dict_of (snapshot_obligations (sample_snapshot ''nox'')),
        kg_tag_registry = [], kg_metadata = [], signature_verified = True, signer_key_id = None, kg_trust_of = Anchored,
        kg_definitions = None, legacy_version_hash = None\<rparr>,
      rs_kg_hash = ''h'', rs_template_hash = ''t'', rs_calendar = \<lparr>from_iso = (\<lambda>s. None), iso_format = (\<lambda>t. ''now'')\<rparr>,
      rs_arith = \<lparr>to_double = (\<lambda>q. q), avg_numeric = (\<lambda>qs. 0)\<rparr>, rs_tenant = ''default'',
      rs_buffer = [\<lparr>r_tenant = ''default'', r_subject = ''s1'', r_telemetry_id = ''m1'', r_ts = 5,
        r_measurement = replay_measurement, r_hash = ''00''\<rparr>]\<rparr>"

definition replay_row :: ledger_row where
  "replay_row =
     \<lparr>l_seq = 1, l_prev = genesis_hash, l_hash = ''00'', l_time = 5, l_verdict = ascii ''CLEAR'', l_tid = ascii ''m1'', l_thash = ''00'',
      l_rule = None, l_kg = None, l_model = [], l_reasoning = None, l_track = None, l_envelope = Some [101], l_envelope_hash = None,
      l_transcript = Some [116], l_transcript_signature = None, l_signing_key = None, l_verifier_status = None, l_tenant = None,
      l_kg_hash = None, l_weight_hash = None, l_schema = None, l_verdict_signature = None, l_verdict_key = None\<rparr>"

lemma char_codes: "ascii (map char_of X) = X" if "\<forall>c \<in> set X. c < 256" for X :: ustr
  using that by (induction X) (simp_all add: ascii_def)

lemma replay_request_codes: "ascii replay_request = measurement_marker @ [109] @ snapshot_marker @ [115]"
  unfolding replay_request_def by (rule char_codes) (simp add: measurement_marker_def snapshot_marker_def ascii_def)

lemma replay_reads:
  "read_document replay_loads [101] = Inr replay_envelope" "read_document replay_loads [116] = Inr replay_transcript"
  "recovered_inputs replay_example replay_request = Inr (replay_measurement, sample_snapshot ''nox'')"
proof -
  have plain: "jsonable (PyDict replay_envelope)" "jsonable (PyDict replay_transcript)" "jsonable (PyDict replay_measurement)"
    "jsonable (PyDict (sample_snapshot ''nox''))"
    by (simp_all add: replay_envelope_def replay_transcript_def replay_measurement_def sample_snapshot_def sample_answer_def)
  note again = plain [THEN py_of_json_of(1)]
  show "read_document replay_loads [101] = Inr replay_envelope" "read_document replay_loads [116] = Inr replay_transcript"
    by (simp_all only: read_document_def replay_loads_def) (simp_all add: again del: json_of.simps)
  have "partition_at measurement_marker (ascii replay_request) = Some ([], [109] @ snapshot_marker @ [115])"
    unfolding replay_request_codes by (subst partition_at.simps) simp
  moreover have "partition_at snapshot_marker ([109] @ snapshot_marker @ [115]) = Some ([109], [115])"
  proof -
    have "partition_at snapshot_marker (snapshot_marker @ [115]) = Some ([], [115])" by (subst partition_at.simps) simp
    then show ?thesis
      using partition_skip [of "[109]" "tl snapshot_marker" "snapshot_marker @ [115]"] by (simp add: snapshot_marker_def)
  qed
  moreover have "replay_loads (text_strip [109]) = Some (json_of (PyDict replay_measurement))"
    "replay_loads (text_strip [115]) = Some (json_of (PyDict (sample_snapshot ''nox'')))"
    by (simp_all add: replay_loads_def text_strip_def space_code_def del: json_of.simps)
  moreover have "py_of (JObj (json_members d)) = map_option PyDict (obj_of (json_members d))" for d by simp
  ultimately show "recovered_inputs replay_example replay_request = Inr (replay_measurement, sample_snapshot ''nox'')"
    using again(3,4) by (auto simp: recovered_inputs_def recover_prompt_inputs_def replay_example_def)
qed

lemma replay_checked: "check_transcript replay_example replay_transcript = Inr (replay_request, sample_answer ''CLEAR'' ''ob1'', Signature_Verified)"
proof -
  have "hash_pair (rs_world replay_example) t r = (''sha256:'', ''sha256:'')" for t r
    by (simp add: hash_pair_def sha256_label_def hexdigest_def to_hex_def replay_example_def)
  moreover have "transcript_signature replay_example replay_transcript (''sha256:'', ''sha256:'') = Inr Signature_Verified"
  proof -
    have "shown (dget_default replay_transcript ''signing_key_id'' (PyStr [])) = Inr ''k''"
      "ring_get (rs_ring replay_example) (Some ''k'') = Some 1" "dget replay_transcript ''signature_hex'' = PyStr ''00''"
      "from_hex ''00'' = Some [0]"
      by code_simp+
    moreover have "verifies (w_crypto (rs_world replay_example)) 1 [0] m" for m by (simp add: replay_example_def)
    ultimately show ?thesis by (simp add: transcript_signature_def signature_valid_def)
  qed
  moreover have "shown (dget_default replay_transcript ''request_canonical'' (PyStr [])) = Inr replay_request"
    "recorded_response replay_transcript = Inr (sample_answer ''CLEAR'' ''ob1'')"
    "dget replay_transcript ''request_hash'' = PyStr ''sha256:''" "dget replay_transcript ''response_hash'' = PyStr ''sha256:''"
    by code_simp+
  ultimately show ?thesis by (simp add: check_transcript_def Let_def)
qed

lemma replay_example_buffer: "r_subject (hd (rs_buffer replay_example)) = ''s1''" "r_ts (hd (rs_buffer replay_example)) = 5"
  by (simp_all add: replay_example_def)

definition replay_ev :: evaluator where
  "replay_ev = projr (recorded_evaluator replay_example [(''kg_version_hash'', PyStr ''h'')])"

lemma replay_aevaluate:
  "case aevaluate (rs_contract replay_example) (rs_env replay_example) replay_ev ''transcript:unsigned'' replay_measurement
      (sample_snapshot ''nox'') (PyStr (tier_for_snapshot (sample_snapshot ''nox''))) (Some ''s1'') (Some 5)
      (Some (replay_source replay_example)) (sample_answer ''CLEAR'' ''ob1'') of
     Inl _ \<Rightarrow> False | Inr e \<Rightarrow> verdict e = CLEAR \<and> status (verifier_result e) = AGREED"
  by code_simp

lemma replay_rerun:
  "\<exists>e. rerun replay_example [(''kg_version_hash'', PyStr ''h'')] replay_measurement (sample_snapshot ''nox'') (hd (rs_buffer replay_example))
     replay_request (sample_answer ''CLEAR'' ''ob1'') = Inr e \<and> verdict e = CLEAR \<and> status (verifier_result e) = AGREED"
proof -
  from replay_aevaluate obtain e where e: "aevaluate (rs_contract replay_example) (rs_env replay_example) replay_ev ''transcript:unsigned''
      replay_measurement (sample_snapshot ''nox'') (PyStr (tier_for_snapshot (sample_snapshot ''nox''))) (Some ''s1'') (Some 5)
      (Some (replay_source replay_example)) (sample_answer ''CLEAR'' ''ob1'') = Inr e" "verdict e = CLEAR" "status (verifier_result e) = AGREED"
    by (simp split: sum.splits)
  have "case recorded_evaluator replay_example [(''kg_version_hash'', PyStr ''h'')] of Inl _ \<Rightarrow> False | Inr _ \<Rightarrow> True" by code_simp
  then have ev: "recorded_evaluator replay_example [(''kg_version_hash'', PyStr ''h'')] = Inr replay_ev"
    by (simp add: replay_ev_def split: sum.splits)
  have "case prompt_ids (sample_snapshot ''nox'') of Inl _ \<Rightarrow> False | Inr _ \<Rightarrow> True" by code_simp
  then obtain prompt where "render_canonical_prompt (w_runtime (rs_world replay_example)) replay_measurement (sample_snapshot ''nox'') = Inr prompt"
    by (auto simp: render_canonical_prompt_def split: sum.splits)
  then have "check_prompt replay_example [(''kg_version_hash'', PyStr ''h'')] replay_measurement (sample_snapshot ''nox'') replay_request = Inr prompt"
    by (simp add: check_prompt_def dget_def)
  then show ?thesis
    using e ev by (simp add: rerun_def aevaluate_with_transcript_def build_transcript_def transcript_reference_def replay_example_buffer)
qed

lemma replay_evaluated:
  "\<exists>e. replay_evaluation replay_example replay_envelope ''00'' replay_request (sample_answer ''CLEAR'' ''ob1'') = Inr e \<and>
     verdict e = CLEAR \<and> status (verifier_result e) = AGREED"
proof -
  have "sub_dict replay_envelope ''model_provenance'' = Inr [(''kg_version_hash'', PyStr ''h'')]"
    "kg_accepted replay_example [(''kg_version_hash'', PyStr ''h'')] = Inr ()"
    "buffered_telemetry replay_example ''00'' replay_measurement = Inr (hd (rs_buffer replay_example))"
    "same_obligations replay_example (sample_snapshot ''nox'') (r_ts (hd (rs_buffer replay_example))) = Inr ()"
    by code_simp+
  then show ?thesis using replay_rerun by (simp add: replay_evaluation_def replay_reads)
qed

theorem clean_replay_has_no_hidden_breach_witness:
  "\<exists>rp tel. replay replay_example 1 1 [replay_row] = Inr rp \<and> replay_clean rp \<and>
     rests_on replay_example replay_row replay_measurement (sample_snapshot ''nox'') tel \<and>
     breaches_of (Some (r_subject tel)) (Some (r_ts tel)) (Some (replay_source replay_example)) replay_measurement
       (sample_snapshot ''nox'') = []"
proof -
  from replay_evaluated obtain e where e: "replay_evaluation replay_example replay_envelope ''00'' replay_request
      (sample_answer ''CLEAR'' ''ob1'') = Inr e" "verdict e = CLEAR" "status (verifier_result e) = AGREED"
    by blast
  have parts: "rs_loads replay_example = replay_loads" "l_envelope replay_row = Some [101]" "l_transcript replay_row = Some [116]"
    "l_thash replay_row = ''00''" "l_verdict replay_row = ascii ''CLEAR''" "l_seq replay_row = 1"
    by (simp_all add: replay_example_def replay_row_def)
  have status: "sub_dict replay_envelope ''verifier_result'' = Inr [(''status'', PyStr ''AGREED'')]"
    "shown (PyStr ''AGREED'') = Inr ''AGREED''"
    by code_simp+
  have "rows_between 1 1 [replay_row] = [replay_row]" by (simp add: rows_between_def parts)
  then have "\<exists>rp. replay replay_example 1 1 [replay_row] = Inr rp \<and> replay_clean rp"
    by (simp add: replay_def Let_def replay_entry_def parts replay_reads status replay_recorded_def replay_checked e
        compare_verdict_def replay_clean_def note_signature_def)
  then obtain rp where rp: "replay replay_example 1 1 [replay_row] = Inr rp" "replay_clean rp" by blast
  obtain request response m snap tel where c: "stored_transcript replay_example replay_row request response"
      "recovered_inputs replay_example request = Inr (m, snap)" "rests_on replay_example replay_row m snap tel"
      "l_verdict replay_row \<in> {ascii ''CLEAR'', ascii ''NULL_UNMAPPED''} \<longrightarrow>
         breaches_of (Some (r_subject tel)) (Some (r_ts tel)) (Some (replay_source replay_example)) m snap = []"
    using clean_replay_has_no_hidden_breach [OF rp, of replay_row] parts by auto
  have "dget replay_transcript ''request_canonical'' = PyStr replay_request" by code_simp
  with c(1) have "request = replay_request" by (simp add: stored_transcript_def parts replay_reads)
  with c(2) have "m = replay_measurement" "snap = sample_snapshot ''nox''" by (simp_all add: replay_reads)
  with rp c(3,4) show ?thesis using parts by auto
qed

end
