(* ===== verification/KG_Extractor.thy ===== *)
theory KG_Extractor
  imports KG_Validator Net_Address Py_Number
begin

text \<open>
  The extractor of Knowledge Graphs: cutting a document into chunks (\<open>kg_extractor/utils.py\<close>), the rules that a
  language model returns for them (\<open>extractor.py\<close>, \<open>models.py\<close>) and the graph that is made of the rules
  (\<open>v3_emitter.py\<close>), with its relation to the validator and to the compiler of the runtime.

  The language model, \<open>json.loads\<close>, \<open>repr()\<close>, \<open>float()\<close> and the clock are parameters. Text is ASCII where case and
  white space matter.
\<close>

section \<open>Chunks\<close>

text \<open>\<open>t[a:b]\<close>.\<close>

definition py_slice :: "'a list \<Rightarrow> int \<Rightarrow> int \<Rightarrow> 'a list" where
  "py_slice xs a b =
     (let n = int (length xs); cut = (\<lambda>i. if i < 0 then max 0 (i + n) else min i n)
      in take (nat (cut b - cut a)) (drop (nat (cut a)) xs))"

text \<open>\<open>t[i]\<close>; every index that the loop reads lies within the text.\<close>

definition py_item :: "'a list \<Rightarrow> int \<Rightarrow> 'a" where
  "py_item xs i = xs ! nat (if i < 0 then i + int (length xs) else i)"

definition sentence_marks :: string where
  "sentence_marks = ''.!?'' @ [CHR 0x0A]"

text \<open>The inner loop: the end of a sentence, looked for from \<open>i\<close> down to above \<open>low\<close>.\<close>

function sentence_end :: "string \<Rightarrow> int \<Rightarrow> int \<Rightarrow> int option" where
  "sentence_end t low i =
     (if i \<le> low then None
      else if py_item t i \<in> set sentence_marks then Some (i + 1) else sentence_end t low (i - 1))"
  by pat_completeness auto
termination by (relation "measure (\<lambda>(t, low, i). nat (i - low))") auto

declare sentence_end.simps [simp del]

text \<open>Where the chunk that starts at \<open>start\<close> ends.\<close>

definition chunk_end :: "string \<Rightarrow> int \<Rightarrow> int \<Rightarrow> int" where
  "chunk_end t max_size start =
     (let n = int (length t); stop = min (start + max_size) n
      in if stop < n then (case sentence_end t (start + max_size div 2) stop of None \<Rightarrow> stop | Some e \<Rightarrow> e) else stop)"

text \<open>The outer loop; \<open>None\<close> where it does not end.\<close>

partial_function (option) chunk_loop :: "string \<Rightarrow> int \<Rightarrow> int \<Rightarrow> int \<Rightarrow> string list \<Rightarrow> string list option" where
  "chunk_loop t max_size overlap start chunks =
     (if int (length t) \<le> start then Some chunks
      else if int (length t) \<le> chunk_end t max_size start then Some (chunks @ [py_slice t start (chunk_end t max_size start)])
      else chunk_loop t max_size overlap (chunk_end t max_size start - overlap)
             (chunks @ [py_slice t start (chunk_end t max_size start)]))"

text \<open>\<open>Inl\<close> is the \<open>ValueError\<close>.\<close>

definition chunk_text :: "string \<Rightarrow> int \<Rightarrow> int \<Rightarrow> unit + string list option" where
  "chunk_text t max_size overlap =
     (if max_size \<le> 0 \<or> overlap < 0 \<or> max_size \<le> overlap then Inl ()
      else Inr (if int (length t) \<le> max_size then Some [t] else chunk_loop t max_size overlap 0 []))"

section \<open>Rules\<close>

datatype extraction_quality = Quality_Explicit | Quality_Discretionary | Quality_Conflicting

definition quality_names :: "(string \<times> extraction_quality) list" where
  "quality_names =
     [(''EXPLICIT'', Quality_Explicit), (''DISCRETIONARY'', Quality_Discretionary), (''CONFLICTING'', Quality_Conflicting)]"

record compliance_rule =
  xr_id :: string
  xr_subject :: string
  xr_relation :: string
  xr_object :: string
  xr_document :: string
  xr_clause :: string
  xr_document_version :: "string option"
  xr_quality :: extraction_quality
  xr_reasoning :: string
  xr_effective :: "string option"
  xr_sunset :: "string option"

record extraction_metadata =
  em_document :: string
  em_type :: string
  em_sector :: string
  em_timestamp :: string
  em_total :: nat
  em_by_quality :: "(extraction_quality \<times> nat) list"
  em_backend :: string
  em_model :: string
  em_model_sha :: "string option"
  em_temperature :: pyfloat
  em_seed :: "int option"
  em_prompt_sha :: "string option"
  em_version :: string

record extraction_result =
  ex_rules :: "compliance_rule list"
  ex_metadata :: extraction_metadata
  ex_warnings :: "string list"

text \<open>Blank text is refused in the three fields that make a rule.\<close>

definition validate_rule :: "compliance_rule \<Rightarrow> bool" where
  "validate_rule r = list_all (\<lambda>s. py_strip s \<noteq> []) [xr_subject r, xr_relation r, xr_object r]"

section \<open>The answers of the model\<close>

definition upper_char :: "char \<Rightarrow> char" where
  "upper_char c = (let n = (of_char c :: nat) in if 97 \<le> n \<and> n \<le> 122 then char_of (n - 32) else c)"

definition py_upper :: "string \<Rightarrow> string" where
  "py_upper s = map upper_char s"

definition opt_str_of :: "py \<Rightarrow> string option option" where
  "opt_str_of v = (case v of PyNone \<Rightarrow> Some None | PyStr s \<Rightarrow> Some (Some s) | _ \<Rightarrow> None)"

text \<open>The quality as it is stated; \<open>None\<close> where \<open>upper()\<close> raises.\<close>

definition quality_text :: "obj \<Rightarrow> string option" where
  "quality_text r =
     (case or_else (or_else (dget r ''extraction_quality'') (dget r ''confidence'')) (PyStr []) of
        PyStr s \<Rightarrow> Some (py_upper s)
      | _ \<Rightarrow> None)"

definition rule_name :: "nat \<Rightarrow> nat \<Rightarrow> string" where
  "rule_name chunk i = ''rule_'' @ map char_of (nat_text chunk) @ ''_'' @ map char_of (nat_text i)"

text \<open>The construction of a rule; \<open>None\<close> is the \<open>ValidationError\<close>.\<close>

definition compliance_rule_of ::
  "string \<times> string option \<Rightarrow> obj \<Rightarrow> py \<Rightarrow> extraction_quality \<Rightarrow> py \<Rightarrow> py \<times> py \<Rightarrow> compliance_rule option" where
  "compliance_rule_of source r ident quality account dates =
     (case (str_of ident, str_of (dget_default r ''subject'' (PyStr [])), str_of (dget_default r ''relation'' (PyStr [])),
            str_of (dget_default r ''object'' (PyStr [])), str_of (dget_default r ''source_clause'' (PyStr ''general'')),
            str_of account, opt_str_of (fst dates), opt_str_of (snd dates)) of
        (Some i, Some s, Some rel, Some ob, Some clause, Some why, Some effective, Some sunset) \<Rightarrow>
          Some \<lparr>xr_id = i, xr_subject = s, xr_relation = rel, xr_object = ob, xr_document = fst source, xr_clause = clause,
                xr_document_version = snd source, xr_quality = quality, xr_reasoning = why, xr_effective = effective,
                xr_sunset = sunset\<rparr>
      | _ \<Rightarrow> None)"

definition rejection_text :: string where
  "rejection_text =
     ''Originally extracted as IMPLIED. The Anchor Constraint (B2.1) prohibits IMPLIED rules; downgraded to '' @
     ''DISCRETIONARY and flagged for human review. Original reasoning: ''"

text \<open>One item of the answer: nothing where the whole chunk fails, otherwise the rule or none.\<close>

definition extract_item ::
  "(py \<Rightarrow> string) \<Rightarrow> string \<times> string option \<Rightarrow> nat \<Rightarrow> nat \<Rightarrow> py \<Rightarrow> compliance_rule list option" where
  "extract_item py_repr source chunk i item =
     (case item of
        PyDict r \<Rightarrow>
          (case quality_text r of
             None \<Rightarrow> None
           | Some q \<Rightarrow>
               if q = ''IMPLIED'' then
                 map_option (\<lambda>rule. [rule])
                   (compliance_rule_of source r (PyStr (rule_name chunk i @ ''_REJECTED'')) Quality_Discretionary
                      (PyStr (rejection_text @ py_repr (dget_default r ''reasoning'' (PyStr [])))) (PyNone, PyNone))
               else
                 Some (case map_of quality_names (if q = [] then ''DISCRETIONARY'' else q) of
                     None \<Rightarrow> []
                   | Some quality \<Rightarrow>
                       (case compliance_rule_of source r (or_else (dget r ''id'') (PyStr (rule_name chunk i))) quality
                               (dget_default r ''reasoning'' (PyStr [])) (dget r ''effective_date'', dget r ''sunset_date'') of
                          None \<Rightarrow> []
                        | Some rule \<Rightarrow> if validate_rule rule then [rule] else [])))
      | _ \<Rightarrow> None)"

fun extract_items ::
  "(nat \<Rightarrow> py \<Rightarrow> compliance_rule list option) \<Rightarrow> nat \<Rightarrow> py list \<Rightarrow> compliance_rule list option" where
  "extract_items f i [] = Some []"
| "extract_items f i (x # xs) =
     (case f i x of None \<Rightarrow> None | Some rs \<Rightarrow> map_option ((@) rs) (extract_items f (Suc i) xs))"

text \<open>The JSON array of the answer, bare or in an object.\<close>

definition answer_items :: "py option \<Rightarrow> py list option" where
  "answer_items answer =
     (case answer of
        Some (PyList xs) \<Rightarrow> Some xs
      | Some (PyDict d) \<Rightarrow> (case dget d ''rules'' of PyList xs \<Rightarrow> Some xs | _ \<Rightarrow> None)
      | _ \<Rightarrow> None)"

record extraction_call =
  xc_text :: string
  xc_seed :: "int option"
  xc_temperature :: pyfloat
  xc_prompt_sha :: string

record extractor_site =
  xs_ask :: "nat \<Rightarrow> ustr \<Rightarrow> extraction_call option"
  xs_loads :: "string \<Rightarrow> py option"
  xs_repr :: "py \<Rightarrow> string"
  xs_failure :: "nat \<Rightarrow> string"
  xs_now :: string
  xs_backend :: string
  xs_model :: string
  xs_model_sha :: "string option"

definition build_prompt :: "string \<Rightarrow> string \<Rightarrow> string \<Rightarrow> string \<times> string option \<Rightarrow> ustr" where
  "build_prompt chunk sector doc_type source =
     concat (map (\<lambda>l. l @ [10])
       [ascii ''You are extracting compliance obligations from a regulatory document.'',
        ascii ''Return STRICT JSON ONLY '' @ [8212] @ ascii '' a single JSON ARRAY of rule objects, no prose.'',
        [],
        ascii ''Each rule object has these keys:'',
        ascii ''  subject (string), relation (string), object (string),'',
        ascii ''  extraction_quality ('' @ quote_text (ascii ''EXPLICIT'') @ ascii '' or '' @ quote_text (ascii ''DISCRETIONARY'') @
          ascii '' or '' @ quote_text (ascii ''CONFLICTING'') @ ascii ''),'',
        ascii ''  reasoning (string), source_clause (string).'',
        [],
        ascii ''ABSOLUTE RULES (will be enforced by post-processing):'',
        ascii ''  1. Do NOT emit `extraction_quality: '' @ quote_text (ascii ''IMPLIED'') @ ascii ''`. The Anchor Constraint '' @
          ascii ''     (B2.1) prohibits inference beyond source text. Rules that require '' @
          ascii ''     inference must be marked DISCRETIONARY so a human can decide.'',
        ascii ''  2. For EXPLICIT rules, include a verbatim quote from the source in `reasoning`.'',
        ascii ''  3. If the chunk does not contain any compliance obligations, return [].'',
        [],
        ascii (''Sector: '' @ sector),
        ascii (''Document type: '' @ doc_type),
        ascii (''Source: '' @ fst source),
        ascii (''Source version: '' @ (case snd source of None \<Rightarrow> ''unknown'' | Some v \<Rightarrow> if v = [] then ''unknown'' else v)),
        [],
        ascii ''Document chunk:'',
        ascii chunk])"

text \<open>One chunk: the rules and the call; \<open>None\<close> where an exception leaves the method.\<close>

definition extract_from_chunk ::
  "extractor_site \<Rightarrow> string \<Rightarrow> string \<Rightarrow> string \<times> string option \<Rightarrow> nat \<Rightarrow> string \<Rightarrow> (compliance_rule list \<times> extraction_call) option"
where
  "extract_from_chunk site sector doc_type source k chunk =
     (case xs_ask site k (build_prompt chunk sector doc_type source) of
        None \<Rightarrow> None
      | Some call \<Rightarrow>
     (case answer_items (xs_loads site (xc_text call)) of
        None \<Rightarrow> None
      | Some items \<Rightarrow>
          map_option (\<lambda>rs. (rs, call)) (extract_items (extract_item (xs_repr site) source k) 0 items)))"

fun extract_chunks ::
  "(nat \<Rightarrow> string \<Rightarrow> (compliance_rule list \<times> extraction_call) option) \<Rightarrow> (nat \<Rightarrow> string) \<Rightarrow> nat \<Rightarrow> string list
     \<Rightarrow> compliance_rule list \<times> string list \<times> extraction_call option
     \<Rightarrow> compliance_rule list \<times> string list \<times> extraction_call option" where
  "extract_chunks f failure k [] st = st"
| "extract_chunks f failure k (c # cs) (rules, warnings, last_call) =
     extract_chunks f failure (Suc k) cs
       (case f k c of
          None \<Rightarrow> (rules, warnings @ [failure k], last_call)
        | Some (rs, call) \<Rightarrow> (rules @ rs, warnings, Some call))"

definition rule_key :: "compliance_rule \<Rightarrow> string \<times> string \<times> string" where
  "rule_key r = (py_lower (xr_subject r), py_lower (xr_relation r), py_lower (xr_object r))"

fun deduplicate :: "(string \<times> string \<times> string) list \<Rightarrow> compliance_rule list \<Rightarrow> compliance_rule list" where
  "deduplicate seen [] = []"
| "deduplicate seen (r # rs) =
     (if rule_key r \<in> set seen then deduplicate seen rs else r # deduplicate (rule_key r # seen) rs)"

definition quality_counts :: "compliance_rule list \<Rightarrow> (extraction_quality \<times> nat) list" where
  "quality_counts rs =
     fold (\<lambda>r d. alist_set (xr_quality r) (Suc (case map_of d (xr_quality r) of None \<Rightarrow> 0 | Some n \<Rightarrow> n)) d) rs []"

definition extract_from_text ::
  "extractor_site \<Rightarrow> string \<Rightarrow> string \<Rightarrow> string \<Rightarrow> string \<times> string option \<Rightarrow> extraction_result option" where
  "extract_from_text site t sector doc_type source =
     (case chunk_text t 4000 200 of
        Inr (Some chunks) \<Rightarrow>
          (let (found, warnings, last_call) =
                 extract_chunks (extract_from_chunk site sector doc_type source) (xs_failure site) 0 chunks ([], [], None);
               rules = deduplicate [] found
           in Some \<lparr>ex_rules = rules,
                ex_metadata = \<lparr>em_document = fst source, em_type = doc_type, em_sector = sector, em_timestamp = xs_now site,
                  em_total = length rules, em_by_quality = quality_counts rules, em_backend = xs_backend site,
                  em_model = xs_model site, em_model_sha = xs_model_sha site,
                  em_temperature = (case last_call of None \<Rightarrow> Fin 0 | Some c \<Rightarrow> xc_temperature c),
                  em_seed = Option.bind last_call xc_seed, em_prompt_sha = map_option xc_prompt_sha last_call,
                  em_version = ''3.0.0''\<rparr>,
                ex_warnings = warnings\<rparr>)
      | _ \<Rightarrow> None)"

section \<open>The graph\<close>

definition relation_types :: "(string \<times> string) list" where
  "relation_types =
     [(''must_not_exceed'', ''must_not_exceed''), (''not_to_exceed'', ''must_not_exceed''),
      (''cannot_exceed'', ''must_not_exceed''), (''must_be_at_least'', ''must_be_at_least''),
      (''at_least'', ''must_be_at_least''), (''must_be_below'', ''must_be_below''), (''must_be_above'', ''must_be_above''),
      (''must_be_within'', ''must_be_within''), (''within'', ''must_be_within''), (''must_be_one_of'', ''must_be_one_of''),
      (''must_not_be_one_of'', ''must_not_be_one_of''), (''must_be_recorded_within'', ''must_be_recorded_within''),
      (''must_not'', ''must_not''), (''must'', ''must''), (''should'', ''should'')]"

definition node_version :: "world \<Rightarrow> obj \<Rightarrow> canon_error + obj" where
  "node_version w node =
     map_sum id (\<lambda>h. alist_set ''version'' (PyStr h) node)
       (sha256_canonical (w_runtime w) (w_sha w) (json_of (PyDict (filter (\<lambda>(k, _). k \<noteq> ''version'') node))))"

text \<open>\<open>re.sub(r"[^a-z0-9._-]+", ".", s)\<close>.\<close>

definition slug_char :: "char \<Rightarrow> bool" where
  "slug_char c = ((is_letter c \<and> lower_char c = c) \<or> is_decimal c \<or> c \<in> set ''._-'')"

function dotted :: "string \<Rightarrow> string" where
  "dotted [] = []"
| "dotted (c # cs) = (if slug_char c then c # dotted cs else CHR ''.'' # dotted (dropWhile (\<lambda>d. \<not> slug_char d) cs))"
  by pat_completeness auto
termination by (relation "measure length") (auto simp: le_imp_less_Suc length_dropWhile_le)

definition slug :: "string \<Rightarrow> string" where
  "slug s = (let t = strip_chars ''.'' (dotted (py_lower s)) in if t = [] then ''unknown'' else t)"

definition guess_obligation_type :: "string \<Rightarrow> string" where
  "guess_obligation_type rel =
     (case find (\<lambda>(needle, _). contains_text needle (py_strip (py_lower rel))) relation_types of
        None \<Rightarrow> ''discretionary''
      | Some (_, ty) \<Rightarrow> ty)"

text \<open>The number and the unit in the text of an object, where the pattern matches it.\<close>

definition unit_char :: "char \<Rightarrow> bool" where
  "unit_char c = (is_letter c \<or> c \<in> set ''%/'')"

definition fraction_digits :: "string \<Rightarrow> string \<times> string" where
  "fraction_digits s =
     (case s of
        [] \<Rightarrow> ([], [])
      | c # cs \<Rightarrow>
          if c = CHR ''.'' \<and> takeWhile is_decimal cs \<noteq> [] then (c # takeWhile is_decimal cs, dropWhile is_decimal cs) else ([], s))"

definition quantity :: "string \<Rightarrow> (string \<times> string) option" where
  "quantity ob =
     (let s = dropWhile is_space ob;
          sign_text = (if s \<noteq> [] \<and> hd s \<in> set ''+-'' then [hd s] else []);
          unsigned = drop (length sign_text) s;
          digits = takeWhile is_decimal unsigned;
          (fraction, rest) = fraction_digits (dropWhile is_decimal unsigned);
          after = dropWhile is_space rest
      in if digits \<noteq> [] \<and> list_all is_space (dropWhile unit_char after)
         then Some (sign_text @ digits @ fraction, takeWhile unit_char after) else None)"

text \<open>\<open>int()\<close> refuses text of more than 4300 digits; then the text itself is the value.\<close>

definition value_from_object :: "(string \<Rightarrow> pyfloat) \<Rightarrow> string \<Rightarrow> py" where
  "value_from_object fl ob =
     (case quantity ob of
        None \<Rightarrow> PyStr ob
      | Some (raw, _) \<Rightarrow>
          if CHR ''.'' \<in> set raw then PyFloat (fl raw)
          else if length (filter is_decimal raw) > 4300 then PyStr ob
          else (case py_int raw of None \<Rightarrow> PyStr ob | Some i \<Rightarrow> PyInt i))"

definition unit_from_object :: "string \<Rightarrow> py" where
  "unit_from_object ob = (case quantity ob of Some (_, u) \<Rightarrow> if u = [] then PyNone else PyStr u | None \<Rightarrow> PyNone)"

definition py_opt :: "string option \<Rightarrow> py" where
  "py_opt v = (case v of None \<Rightarrow> PyNone | Some s \<Rightarrow> PyStr s)"

text \<open>The ids and the nodes of one rule.\<close>

definition subject_ref :: "compliance_rule \<Rightarrow> string" where
  "subject_ref r = ''subj.'' @ slug (xr_subject r)"

definition rule_ref :: "compliance_rule \<Rightarrow> string" where
  "rule_ref r = ''rule.'' @ slug (xr_id r)"

definition obligation_ref :: "compliance_rule \<Rightarrow> string" where
  "obligation_ref r = ''ob.'' @ slug (xr_id r)"

definition citation_ref :: "compliance_rule \<Rightarrow> string" where
  "citation_ref r = ''cite.'' @ slug (xr_id r)"

definition extracted_node :: "string \<Rightarrow> string \<Rightarrow> obj \<Rightarrow> obj" where
  "extracted_node i ty members = [(''id'', PyStr i), (''type'', PyStr ty), (''version'', PyStr [])] @ members"

definition subject_node :: "compliance_rule \<Rightarrow> obj" where
  "subject_node r = extracted_node (subject_ref r) ''Subject'' [(''name'', PyStr (xr_subject r))]"

definition rule_node :: "compliance_rule \<Rightarrow> obj" where
  "rule_node r =
     extracted_node (rule_ref r) ''Rule''
       [(''name'', PyStr (xr_subject r @ '' '' @ xr_relation r @ '' '' @ xr_object r)), (''risk_tier'', PyStr ''medium''),
        (''description'', if xr_reasoning r = [] then PyNone else PyStr (xr_reasoning r))]"

definition obligation_node :: "(string \<Rightarrow> pyfloat) \<Rightarrow> string \<Rightarrow> compliance_rule \<Rightarrow> obj" where
  "obligation_node fl since r =
     extracted_node (obligation_ref r) ''Obligation''
       [(''obligation_type'', PyStr (guess_obligation_type (xr_relation r))), (''metric'', PyStr (slug (xr_subject r))),
        (''value'', value_from_object fl (xr_object r)), (''unit'', unit_from_object (xr_object r)),
        (''effective_date_start'', PyStr (case xr_effective r of None \<Rightarrow> since | Some d \<Rightarrow> if d = [] then since else d)),
        (''effective_date_end'', py_opt (xr_sunset r)), (''summary'', PyStr (xr_relation r @ '' '' @ xr_object r))]"

definition citation_node :: "compliance_rule \<Rightarrow> obj" where
  "citation_node r =
     extracted_node (citation_ref r) ''Citation''
       [(''source_document'', PyStr (xr_document r)), (''source_clause'', PyStr (xr_clause r)), (''url'', PyNone)]"

definition extracted_edges :: "string \<Rightarrow> compliance_rule \<Rightarrow> obj list" where
  "extracted_edges j r =
     [edge_of ''applies_to'' (rule_ref r) (subject_ref r), edge_of ''consists_of'' (rule_ref r) (obligation_ref r),
      edge_of ''scoped_to'' (obligation_ref r) j, edge_of ''cited_by'' (obligation_ref r) (citation_ref r)]"

record emitted =
  mt_subjects :: "(string \<times> obj) list"
  mt_rules :: "obj list"
  mt_obligations :: "obj list"
  mt_citations :: "obj list"
  mt_edges :: "obj list"

definition emit_subject :: "world \<Rightarrow> compliance_rule \<Rightarrow> (string \<times> obj) list \<Rightarrow> canon_error + (string \<times> obj) list" where
  "emit_subject w r subjects =
     (if subject_ref r \<in> fst ` set subjects then Inr subjects
      else map_sum id (\<lambda>node. subjects @ [(subject_ref r, node)]) (node_version w (subject_node r)))"

definition emit_rule ::
  "world \<Rightarrow> (string \<Rightarrow> pyfloat) \<Rightarrow> string \<Rightarrow> string \<Rightarrow> compliance_rule \<Rightarrow> emitted \<Rightarrow> canon_error + emitted" where
  "emit_rule w fl since j r st =
     (case emit_subject w r (mt_subjects st) of
        Inl e \<Rightarrow> Inl e
      | Inr subjects \<Rightarrow>
     (case node_version w (rule_node r) of
        Inl e \<Rightarrow> Inl e
      | Inr rule \<Rightarrow>
     (case node_version w (obligation_node fl since r) of
        Inl e \<Rightarrow> Inl e
      | Inr obligation \<Rightarrow>
     (case node_version w (citation_node r) of
        Inl e \<Rightarrow> Inl e
      | Inr citation \<Rightarrow>
          Inr \<lparr>mt_subjects = subjects, mt_rules = mt_rules st @ [rule], mt_obligations = mt_obligations st @ [obligation],
               mt_citations = mt_citations st @ [citation], mt_edges = mt_edges st @ extracted_edges j r\<rparr>))))"

definition emit_metadata :: "extraction_result \<Rightarrow> string option \<Rightarrow> string \<Rightarrow> obj" where
  "emit_metadata result sector since =
     (let md = ex_metadata result in
      [(''name'', PyStr (if em_document md = [] then ''extracted-kg'' else em_document md)),
       (''schema_version'', PyStr ''3.0''),
       (''sector'', or_else (py_opt sector) (or_else (PyStr (em_sector md)) PyNone)),
       (''description'', PyStr (''Extracted from '' @ em_document md @ '' by kg-extractor '' @ em_version md @ '' via '' @
           em_backend md @ ''.'')),
       (''compiled_at'', PyStr since),
       (''extraction_quality_summary'', PyDict (map (\<lambda>(name, q).
           (name, PyInt (case map_of (em_by_quality md) q of None \<Rightarrow> 0 | Some n \<Rightarrow> int n))) quality_names)),
       (''warnings'', PyList (map PyStr (ex_warnings result)))])"

definition no_emitted :: emitted where
  "no_emitted = \<lparr>mt_subjects = [], mt_rules = [], mt_obligations = [], mt_citations = [], mt_edges = []\<rparr>"

definition emitted_nodes :: "emitted \<Rightarrow> obj \<Rightarrow> obj" where
  "emitted_nodes st jurisdiction_node =
     [(''subjects'', PyList (map (PyDict \<circ> snd) (mt_subjects st))), (''rules'', PyList (map PyDict (mt_rules st))),
      (''obligations'', PyList (map PyDict (mt_obligations st))), (''definitions'', PyList []), (''exemptions'', PyList []),
      (''precedents'', PyList []), (''jurisdictions'', PyList [PyDict jurisdiction_node]),
      (''citations'', PyList (map PyDict (mt_citations st)))]"

definition emit_v3_kg ::
  "world \<Rightarrow> (string \<Rightarrow> pyfloat) \<Rightarrow> string \<Rightarrow> extraction_result \<Rightarrow> string \<Rightarrow> string option \<Rightarrow> string option \<Rightarrow> canon_error + obj"
where
  "emit_v3_kg w fl now result jurisdiction jurisdiction_name sector =
     (let since = (if em_timestamp (ex_metadata result) = [] then now else em_timestamp (ex_metadata result));
          j = slug jurisdiction;
          name = or_else (py_opt jurisdiction_name) (or_else (PyStr jurisdiction) (PyStr ''global''))
      in case node_version w (extracted_node j ''Jurisdiction'' [(''name'', name)]) of
           Inl e \<Rightarrow> Inl e
         | Inr jurisdiction_node \<Rightarrow>
        (case fold_err (emit_rule w fl since j) (ex_rules result) no_emitted of
           Inl e \<Rightarrow> Inl e
         | Inr st \<Rightarrow>
             Inr [(''metadata'', PyDict (emit_metadata result sector since)),
                  (''nodes'', PyDict (emitted_nodes st jurisdiction_node)), (''edges'', PyList (map PyDict (mt_edges st)))]))"

section \<open>When the chunking ends\<close>

text \<open>Putting the chunks together again.\<close>

fun stitched :: "nat \<Rightarrow> string list \<Rightarrow> string" where
  "stitched k [] = []"
| "stitched k (c # cs) = c @ concat (map (drop k) cs)"

lemma sentence_end_bounds: "sentence_end t low i = Some e \<Longrightarrow> low + 1 < e \<and> e \<le> i + 1"
proof (induction t low i rule: sentence_end.induct)
  case (1 t low i)
  show ?case
    using "1.IH" "1.prems" by (cases "i \<le> low"; cases "py_item t i \<in> set sentence_marks") (auto simp: sentence_end.simps [of t low i])
qed

lemma sentence_end_found:
  assumes "low < q" "q \<le> i" "py_item t q \<in> set sentence_marks" "\<And>k. q < k \<Longrightarrow> k \<le> i \<Longrightarrow> py_item t k \<notin> set sentence_marks"
  shows "sentence_end t low i = Some (q + 1)"
  using assms
proof (induction t low i rule: sentence_end.induct)
  case (1 t low i)
  show ?case
  proof (cases "i = q")
    case True
    with "1.prems" show ?thesis by (simp add: sentence_end.simps [of t low q])
  next
    case False
    with "1.prems" have "\<not> i \<le> low" "py_item t i \<notin> set sentence_marks" "q \<le> i - 1" by auto
    then show ?thesis using "1.IH" "1.prems" by (simp add: sentence_end.simps [of t low i])
  qed
qed

lemma chunk_end_bounds:
  assumes "0 < max_size" "0 \<le> start" "start < int (length t)"
  shows "chunk_end t max_size start \<le> int (length t)" "chunk_end t max_size start \<le> start + max_size + 1"
    "chunk_end t max_size start < int (length t) \<Longrightarrow> min (start + max_size div 2 + 2) (start + max_size) \<le> chunk_end t max_size start"
proof -
  have half: "max_size div 2 \<le> max_size" using assms(1) by linarith
  have "chunk_end t max_size start \<le> int (length t) \<and> chunk_end t max_size start \<le> start + max_size + 1 \<and>
     (chunk_end t max_size start < int (length t) \<longrightarrow> min (start + max_size div 2 + 2) (start + max_size) \<le> chunk_end t max_size start)"
    unfolding chunk_end_def Let_def
    using assms half by (auto split: option.split dest!: sentence_end_bounds)
  then show "chunk_end t max_size start \<le> int (length t)" "chunk_end t max_size start \<le> start + max_size + 1"
    "chunk_end t max_size start < int (length t) \<Longrightarrow> min (start + max_size div 2 + 2) (start + max_size) \<le> chunk_end t max_size start"
    by blast+
qed

lemma py_slice_plain: "0 \<le> a \<Longrightarrow> a \<le> b \<Longrightarrow> b \<le> int (length xs) \<Longrightarrow> py_slice xs a b = take (nat (b - a)) (drop (nat a) xs)"
  by (simp add: py_slice_def Let_def)

lemma chunk_loop_covers:
  assumes "0 \<le> overlap" "overlap < max_size" "overlap \<le> max_size div 2 + 1" "0 \<le> start" "start + overlap < int (length t)"
  shows "\<exists>p ps. chunk_loop t max_size overlap start chunks = Some (chunks @ p # ps) \<and>
     stitched (nat overlap) (p # ps) = drop (nat start) t \<and> overlap \<le> int (length p) \<and>
     (\<forall>q \<in> set (p # ps). int (length q) \<le> max_size + 1)"
  using assms
proof (induction "nat (int (length t) - start)" arbitrary: start chunks rule: less_induct)
  case less
  let ?n = "int (length t)" and ?e = "chunk_end t max_size start"
  let ?p = "py_slice t start ?e"
  have start: "0 < max_size" "start < ?n" using less.prems by linarith+
  note e = chunk_end_bounds [OF start(1) less.prems(4) start(2)]
  show ?case
  proof (cases "?n \<le> ?e")
    case True
    with e have "?e = ?n" by simp
    then have p: "?p = drop (nat start) t" using less.prems start by (simp add: py_slice_plain)
    moreover have "chunk_loop t max_size overlap start chunks = Some (chunks @ [?p])"
      using True start by (simp add: chunk_loop.simps)
    moreover have "int (length ?p) = ?n - start" using p less.prems start by (simp add: of_nat_diff)
    ultimately show ?thesis using less.prems e(2) \<open>?e = ?n\<close>
      by (intro exI [of _ ?p] exI [of _ "[]"]) auto
  next
    case False
    then have low: "min (start + max_size div 2 + 2) (start + max_size) \<le> ?e" using e(3) by simp
    let ?s = "?e - overlap"
    have s: "start < ?s" "0 \<le> ?s" "?s + overlap < ?n" using low False less.prems by linarith+
    have "nat (?n - ?s) < nat (?n - start)" using s start by simp
    from less.hyps [OF this less.prems(1-3) s(2,3)] obtain q qs where
      q: "chunk_loop t max_size overlap ?s (chunks @ [?p]) = Some ((chunks @ [?p]) @ q # qs)"
        "stitched (nat overlap) (q # qs) = drop (nat ?s) t" "overlap \<le> int (length q)"
        "\<forall>r \<in> set (q # qs). int (length r) \<le> max_size + 1" by blast
    have p: "?p = take (nat (?e - start)) (drop (nat start) t)"
      using less.prems s False e by (intro py_slice_plain) linarith+
    have "drop (nat overlap) (drop (nat ?s) t) = drop (nat ?e) t" using s less.prems by (simp add: nat_diff_distrib)
    then have "drop (nat overlap) q @ concat (map (drop (nat overlap)) qs) = drop (nat ?e) t"
      using q(2,3) by (simp flip: q(2))
    then have "stitched (nat overlap) (?p # q # qs) = ?p @ drop (nat ?e) t" by simp
    also have "\<dots> = drop (nat start) t"
    proof -
      have "nat (?e - start) + nat start = nat ?e" using s less.prems by linarith
      then have "drop (nat ?e) t = drop (nat (?e - start)) (drop (nat start) t)" by simp
      then show ?thesis unfolding p by (metis append_take_drop_id)
    qed
    finally have all: "stitched (nat overlap) (?p # q # qs) = drop (nat start) t" .
    have len: "int (length ?p) = ?e - start" using p s less.prems False by simp
    moreover have "chunk_loop t max_size overlap start chunks = Some (chunks @ ?p # q # qs)"
      using q(1) False start by (simp add: chunk_loop.simps [of t max_size overlap start])
    moreover have "overlap \<le> ?e - start" using s by linarith
    ultimately show ?thesis using all q(4) e(2)
      by (intro exI [of _ ?p] exI [of _ "q # qs"]) auto
  qed
qed

lemma chunk_loop_stuck:
  assumes "chunk_end t max_size start - overlap = start" "chunk_end t max_size start < int (length t)" "start < int (length t)"
  shows "chunk_loop t max_size overlap start chunks = None"
proof -
  have False if "chunk_loop t max_size overlap start chunks = Some r" for r
  proof -
    have "(t', m', k', s') = (t, max_size, overlap, start) \<longrightarrow> False"
      if "chunk_loop t' m' k' s' c' = Some r" for t' m' k' s' c' r
    proof (rule chunk_loop.raw_induct [where P = "\<lambda>t' m' k' s' c' r. (t', m', k', s') = (t, max_size, overlap, start) \<longrightarrow> False", OF _ that])
      fix f t' m' k' s' c' r
      assume "\<And>t' m' k' s' c' r. f t' m' k' s' c' = Some r \<Longrightarrow> (t', m', k', s') = (t, max_size, overlap, start) \<longrightarrow> False"
        and "(if int (length t') \<le> s' then Some c'
          else if int (length t') \<le> chunk_end t' m' s' then Some (c' @ [py_slice t' s' (chunk_end t' m' s')])
          else f t' m' k' (chunk_end t' m' s' - k') (c' @ [py_slice t' s' (chunk_end t' m' s')])) = Some r"
      with assms show "(t', m', k', s') = (t, max_size, overlap, start) \<longrightarrow> False"
        by (auto split: if_splits)
    qed
    with that show False by blast
  qed
  then show ?thesis by (cases "chunk_loop t max_size overlap start chunks") auto
qed

lemma stuck_text:
  assumes "max_size div 2 + 2 \<le> overlap" "overlap < max_size"
  shows "chunk_text (replicate (nat overlap - 1) CHR ''a'' @ CHR ''.'' # replicate (nat max_size) CHR ''a'') max_size overlap = Inr None"
proof -
  let ?t = "replicate (nat overlap - 1) CHR ''a'' @ CHR ''.'' # replicate (nat max_size) CHR ''a''"
  have pos: "0 < max_size" "1 < overlap" using assms by linarith+
  have len: "int (length ?t) = overlap + max_size" using pos by simp
  have item: "py_item ?t k = (if k = overlap - 1 then CHR ''.'' else CHR ''a'')" if "0 \<le> k" "k < overlap + max_size" for k
  proof -
    consider "k < overlap - 1" | "k = overlap - 1" | "overlap - 1 < k" by linarith
    then show ?thesis
    proof cases
      case 3
      then have "nat k = nat overlap - 1 + Suc (nat k - nat overlap)" using pos by linarith
      moreover have "nat k - nat overlap < nat max_size" using that 3 pos by linarith
      ultimately have "?t ! nat k = CHR ''a''"
        using nth_append_length_plus [of "replicate (nat overlap - 1) CHR ''a''" "CHR ''.'' # replicate (nat max_size) CHR ''a''" "Suc (nat k - nat overlap)"]
        by simp
      then show ?thesis using 3 that by (simp add: py_item_def)
    qed (use pos that in \<open>auto simp: py_item_def nth_append\<close>)
  qed
  have "sentence_end ?t (0 + max_size div 2) max_size = Some (overlap - 1 + 1)"
  proof (rule sentence_end_found)
    show "0 + max_size div 2 < overlap - 1" "overlap - 1 \<le> max_size" using assms by linarith+
    show "py_item ?t (overlap - 1) \<in> set sentence_marks" using item [of "overlap - 1"] pos by (simp add: sentence_marks_def)
    show "py_item ?t k \<notin> set sentence_marks" if "overlap - 1 < k" "k \<le> max_size" for k
      using item [of k] that pos by (simp add: sentence_marks_def)
  qed
  then have "chunk_end ?t max_size 0 = overlap" using pos len by (simp add: chunk_end_def Let_def)
  then have "chunk_loop ?t max_size overlap 0 [] = None" using pos len by (intro chunk_loop_stuck) auto
  then show ?thesis using assms pos len by (auto simp: chunk_text_def)
qed

section \<open>What is emitted\<close>

lemma dget_alist_set: "dget (alist_set k v d) k' = (if k' = k then v else dget d k')"
  by (simp add: dget_def)

lemma with_version_Inr: "node_version w node = Inr n \<Longrightarrow> \<exists>h. n = alist_set ''version'' (PyStr h) node"
  by (auto simp: node_version_def map_sum_Inr)

lemma node_version_dget: "node_version w node = Inr n \<Longrightarrow> k \<noteq> ''version'' \<Longrightarrow> dget n k = dget node k"
  by (auto dest!: with_version_Inr simp: dget_alist_set)

lemma extracted_node_dget [simp]:
  "dget (extracted_node i ty members) ''id'' = PyStr i"
  "k \<notin> {''id'', ''type'', ''version''} \<Longrightarrow> dget (extracted_node i ty members) k = dget members k"
  by (simp_all add: extracted_node_def dget_def)

lemma with_version_id: "node_version w (extracted_node i ty members) = Inr n \<Longrightarrow> dget n ''id'' = PyStr i"
  by (simp add: node_version_dget)

lemma node_id_of_PyStr: "dget n ''id'' = PyStr i \<Longrightarrow> node_id_of n = i"
  by (simp add: node_id_of_def)

definition keyed_subjects :: "emitted \<Rightarrow> bool" where
  "keyed_subjects st \<longleftrightarrow> distinct (map fst (mt_subjects st)) \<and> (\<forall>(i, n) \<in> set (mt_subjects st). dget n ''id'' = PyStr i)"

definition obligation_fields :: "(string \<Rightarrow> pyfloat) \<Rightarrow> compliance_rule \<Rightarrow> obj \<Rightarrow> bool" where
  "obligation_fields fl r n \<longleftrightarrow>
     dget n ''id'' = PyStr (obligation_ref r) \<and> dget n ''obligation_type'' = PyStr (guess_obligation_type (xr_relation r)) \<and>
     dget n ''metric'' = PyStr (slug (xr_subject r)) \<and> dget n ''value'' = value_from_object fl (xr_object r) \<and>
     dget n ''unit'' = unit_from_object (xr_object r)"

lemma emit_rule_Inr:
  assumes "emit_rule w fl since j r st = Inr st'" "keyed_subjects st"
  shows "keyed_subjects st'" "fst ` set (mt_subjects st') = insert (subject_ref r) (fst ` set (mt_subjects st))"
    "\<exists>n. mt_rules st' = mt_rules st @ [n] \<and> dget n ''id'' = PyStr (rule_ref r)"
    "\<exists>n. mt_obligations st' = mt_obligations st @ [n] \<and> obligation_fields fl r n"
    "\<exists>n. mt_citations st' = mt_citations st @ [n] \<and> dget n ''id'' = PyStr (citation_ref r)"
    "mt_edges st' = mt_edges st @ extracted_edges j r"
proof -
  from assms(1) obtain subjects rule obligation citation where
      subjects: "emit_subject w r (mt_subjects st) = Inr subjects" and nodes: "node_version w (rule_node r) = Inr rule"
        "node_version w (obligation_node fl since r) = Inr obligation" "node_version w (citation_node r) = Inr citation"
      and st': "st' = \<lparr>mt_subjects = subjects, mt_rules = mt_rules st @ [rule], mt_obligations = mt_obligations st @ [obligation],
               mt_citations = mt_citations st @ [citation], mt_edges = mt_edges st @ extracted_edges j r\<rparr>"
    by (auto simp: emit_rule_def split: sum.splits)
  have "obligation_fields fl r obligation"
    unfolding obligation_fields_def node_version_dget [OF nodes(2), of "''id''", simplified] node_version_dget [OF nodes(2), of "''obligation_type''", simplified]
      node_version_dget [OF nodes(2), of "''metric''", simplified] node_version_dget [OF nodes(2), of "''value''", simplified]
      node_version_dget [OF nodes(2), of "''unit''", simplified]
    by (simp add: obligation_node_def dget_def extracted_node_def)
  then show "\<exists>n. mt_rules st' = mt_rules st @ [n] \<and> dget n ''id'' = PyStr (rule_ref r)"
    "\<exists>n. mt_obligations st' = mt_obligations st @ [n] \<and> obligation_fields fl r n"
    "\<exists>n. mt_citations st' = mt_citations st @ [n] \<and> dget n ''id'' = PyStr (citation_ref r)"
    "mt_edges st' = mt_edges st @ extracted_edges j r"
    using nodes by (simp_all add: st' node_version_dget rule_node_def citation_node_def)
  have "subjects = mt_subjects st \<and> subject_ref r \<in> fst ` set (mt_subjects st) \<or>
      (\<exists>n. subjects = mt_subjects st @ [(subject_ref r, n)] \<and> dget n ''id'' = PyStr (subject_ref r) \<and>
        subject_ref r \<notin> fst ` set (mt_subjects st))"
    using subjects by (auto simp: emit_subject_def map_sum_Inr subject_node_def dest: with_version_id split: if_splits)
  then show "keyed_subjects st'" "fst ` set (mt_subjects st') = insert (subject_ref r) (fst ` set (mt_subjects st))"
    using assms(2) by (auto simp: st' keyed_subjects_def)
qed

lemma emit_rules_Inr:
  assumes "fold_err (emit_rule w fl since j) rs st = Inr st'" "keyed_subjects st"
  shows "keyed_subjects st' \<and> fst ` set (mt_subjects st') = subject_ref ` set rs \<union> fst ` set (mt_subjects st) \<and>
    (\<exists>ns. mt_rules st' = mt_rules st @ ns \<and> list_all2 (\<lambda>r n. dget n ''id'' = PyStr (rule_ref r)) rs ns) \<and>
    (\<exists>ns. mt_obligations st' = mt_obligations st @ ns \<and> list_all2 (obligation_fields fl) rs ns) \<and>
    (\<exists>ns. mt_citations st' = mt_citations st @ ns \<and> list_all2 (\<lambda>r n. dget n ''id'' = PyStr (citation_ref r)) rs ns) \<and>
    mt_edges st' = mt_edges st @ concat (map (extracted_edges j) rs)"
  using assms
proof (induction rs arbitrary: st)
  case (Cons r rs)
  then obtain s where s: "emit_rule w fl since j r st = Inr s" "fold_err (emit_rule w fl since j) rs s = Inr st'"
    by (auto split: sum.splits)
  note one = emit_rule_Inr [OF s(1) Cons.prems(2)]
  note more = Cons.IH [OF s(2) one(1)]
  obtain n ns where "mt_rules s = mt_rules st @ [n]" "dget n ''id'' = PyStr (rule_ref r)"
      "mt_rules st' = mt_rules s @ ns" "list_all2 (\<lambda>r n. dget n ''id'' = PyStr (rule_ref r)) rs ns"
    using one(3) more by blast
  then have rules: "mt_rules st' = mt_rules st @ n # ns" "list_all2 (\<lambda>r n. dget n ''id'' = PyStr (rule_ref r)) (r # rs) (n # ns)" by simp_all
  obtain b bs where "mt_obligations s = mt_obligations st @ [b]" "obligation_fields fl r b"
      "mt_obligations st' = mt_obligations s @ bs" "list_all2 (obligation_fields fl) rs bs"
    using one(4) more by blast
  then have obligations: "mt_obligations st' = mt_obligations st @ b # bs" "list_all2 (obligation_fields fl) (r # rs) (b # bs)" by simp_all
  obtain c cs where "mt_citations s = mt_citations st @ [c]" "dget c ''id'' = PyStr (citation_ref r)"
      "mt_citations st' = mt_citations s @ cs" "list_all2 (\<lambda>r n. dget n ''id'' = PyStr (citation_ref r)) rs cs"
    using one(5) more by blast
  then have citations: "mt_citations st' = mt_citations st @ c # cs" "list_all2 (\<lambda>r n. dget n ''id'' = PyStr (citation_ref r)) (r # rs) (c # cs)" by simp_all
  from rules obligations citations show ?case using one(2,6) more by (auto simp del: list_all2_Cons1)
qed simp

lemma list_all2_ids: "list_all2 (\<lambda>r n. dget n ''id'' = PyStr (f r)) rs ns \<Longrightarrow> map node_id_of ns = map f rs"
  by (induction rule: list_all2_induct) (simp_all add: node_id_of_PyStr)


text \<open>The ids of the five lists that are filled, the edges, and the fields of the obligations.\<close>

definition emitted_for :: "(string \<Rightarrow> pyfloat) \<Rightarrow> compliance_rule list \<Rightarrow> string \<Rightarrow> emitted \<Rightarrow> bool" where
  "emitted_for fl rs j st \<longleftrightarrow>
     (let subjects = map (node_id_of \<circ> snd) (mt_subjects st) in distinct subjects \<and> set subjects = subject_ref ` set rs) \<and>
     map node_id_of (mt_rules st) = map rule_ref rs \<and> list_all2 (obligation_fields fl) rs (mt_obligations st) \<and>
     map node_id_of (mt_citations st) = map citation_ref rs \<and> mt_edges st = concat (map (extracted_edges j) rs)"

lemma emit_v3_kg_Inr:
  assumes "emit_v3_kg w fl now result jurisdiction name sector = Inr data"
  obtains md st jn where "data = [(''metadata'', PyDict md), (''nodes'', PyDict (emitted_nodes st jn)), (''edges'', PyList (map PyDict (mt_edges st)))]"
    "node_id_of jn = slug jurisdiction" "emitted_for fl (ex_rules result) (slug jurisdiction) st"
proof -
  from assms obtain since nm jn st where jn: "node_version w (extracted_node (slug jurisdiction) ''Jurisdiction'' [(''name'', nm)]) = Inr jn"
      and st: "fold_err (emit_rule w fl since (slug jurisdiction)) (ex_rules result) no_emitted = Inr st"
      and data: "data = [(''metadata'', PyDict (emit_metadata result sector since)), (''nodes'', PyDict (emitted_nodes st jn)),
        (''edges'', PyList (map PyDict (mt_edges st)))]"
    by (auto simp: emit_v3_kg_def Let_def split: sum.splits)
  have "keyed_subjects no_emitted" by (simp add: keyed_subjects_def no_emitted_def)
  note all = emit_rules_Inr [OF st this]
  from all have keyed: "keyed_subjects st" by blast
  then have ids: "map (node_id_of \<circ> snd) (mt_subjects st) = map fst (mt_subjects st)"
    by (auto simp: keyed_subjects_def node_id_of_PyStr)
  have "set (map fst (mt_subjects st)) = subject_ref ` set (ex_rules result)" "distinct (map fst (mt_subjects st))"
    using all keyed by (simp_all add: no_emitted_def keyed_subjects_def)
  then have "emitted_for fl (ex_rules result) (slug jurisdiction) st"
    unfolding emitted_for_def Let_def ids using all by (auto simp: no_emitted_def list_all2_ids)
  with jn data show thesis by (intro that [of "emit_metadata result sector since" st jn]) (auto dest!: with_version_id simp: node_id_of_PyStr)
qed

section \<open>What the validator and the runtime make of it\<close>

lemma map_filter_documents [simp]: "List.map_filter dict_of (map (PyDict \<circ> f) xs) = map f xs" "List.map_filter dict_of (map PyDict ds) = ds"
  by (induction xs; induction ds; simp add: map_filter_simps)+

lemma emitted_lists:
  "node_list (emitted_nodes st jn) ''subjects'' = map snd (mt_subjects st)" "node_list (emitted_nodes st jn) ''rules'' = mt_rules st"
  "node_list (emitted_nodes st jn) ''obligations'' = mt_obligations st" "node_list (emitted_nodes st jn) ''definitions'' = []"
  "node_list (emitted_nodes st jn) ''exemptions'' = []" "node_list (emitted_nodes st jn) ''precedents'' = []"
  "node_list (emitted_nodes st jn) ''jurisdictions'' = [jn]" "node_list (emitted_nodes st jn) ''citations'' = mt_citations st"
  by (simp_all add: node_list_def emitted_nodes_def dget_default_def map_filter_simps)











section \<open>The extraction as a whole\<close>

lemma chunk_text_covers:
  assumes "0 \<le> overlap" "overlap < max_size" "overlap \<le> max_size div 2 + 1"
  shows "\<exists>cs. chunk_text t max_size overlap = Inr (Some cs) \<and> stitched (nat overlap) cs = t \<and>
    (\<forall>c \<in> set cs. int (length c) \<le> max_size + 1)"
proof (cases "int (length t) \<le> max_size")
  case True
  then show ?thesis using assms by (simp add: chunk_text_def)
next
  case False
  with assms chunk_loop_covers [of overlap max_size 0 t "[]"] show ?thesis
    by (auto simp: chunk_text_def)
qed

lemma deduplicate_distinct:
  "distinct (map rule_key (deduplicate seen rs)) \<and> rule_key ` set (deduplicate seen rs) = rule_key ` set rs - set seen \<and>
   set (deduplicate seen rs) \<subseteq> set rs"
  by (induction rs arbitrary: seen) auto

lemma compliance_rule_of_Some:
  "compliance_rule_of source r ident quality account dates = Some rule \<Longrightarrow> xr_document rule = fst source \<and> xr_quality rule = quality"
  by (auto simp: compliance_rule_of_def split: option.splits)

lemma extract_item_sound:
  assumes "extract_item py_repr source k i v = Some rs" "r \<in> set rs"
  shows "xr_document r = fst source \<and> (validate_rule r \<or> xr_quality r = Quality_Discretionary)"
  using assms
  by (auto simp: extract_item_def split: py.splits option.splits if_splits dest: compliance_rule_of_Some)

lemma extract_items_sound:
  "extract_items (extract_item py_repr source k) i xs = Some rs \<Longrightarrow> r \<in> set rs \<Longrightarrow>
   xr_document r = fst source \<and> (validate_rule r \<or> xr_quality r = Quality_Discretionary)"
proof (induction xs arbitrary: i rs)
  case (Cons x xs)
  then show ?case by (auto split: option.splits dest: extract_item_sound)
qed simp

lemma extract_chunks_keep:
  assumes "\<And>k c rs call r. f k c = Some (rs, call) \<Longrightarrow> r \<in> set rs \<Longrightarrow> P r"
    and "extract_chunks f failure k cs (rules, warnings, lc) = (rules', warnings', lc')" "\<forall>r \<in> set rules. P r"
  shows "\<forall>r \<in> set rules'. P r"
  using assms(2,3)
proof (induction cs arbitrary: k rules warnings lc)
  case (Cons c cs)
  obtain rules1 warnings1 lc1 where st: "(case f k c of None \<Rightarrow> (rules, warnings @ [failure k], lc)
      | Some (rs, call) \<Rightarrow> (rules @ rs, warnings, Some call)) = (rules1, warnings1, lc1)"
    by (metis prod_cases3)
  then have "\<forall>r \<in> set rules1. P r" using Cons.prems(2) assms(1) by (auto split: option.splits prod.splits)
  with Cons.IH [of "Suc k" rules1 warnings1 lc1] Cons.prems(1) st show ?case by simp
qed simp

text \<open>
  The extraction of a document always returns. No two rules agree in subject, relation and object up to case, each names
  the document, and one that has a blank field is of quality \<open>DISCRETIONARY\<close>.
\<close>

lemma extraction_returns:
  "\<exists>result. extract_from_text site t sector doc_type source = Some result \<and> distinct (map rule_key (ex_rules result)) \<and>
    (\<forall>r \<in> set (ex_rules result). xr_document r = fst source \<and> (validate_rule r \<or> xr_quality r = Quality_Discretionary))"
proof -
  obtain cs where cs: "chunk_text t 4000 200 = Inr (Some cs)" using chunk_text_covers [of 200 4000 t] by auto
  obtain found warnings lc where run: "extract_chunks (extract_from_chunk site sector doc_type source) (xs_failure site) 0 cs ([], [], None) =
      (found, warnings, lc)" by (metis prod_cases3)
  have "\<forall>r \<in> set found. xr_document r = fst source \<and> (validate_rule r \<or> xr_quality r = Quality_Discretionary)"
    by (rule extract_chunks_keep [OF _ run])
       (auto simp: extract_from_chunk_def split: option.splits dest: extract_items_sound)
  then show ?thesis using deduplicate_distinct [of "[]" found] by (auto simp: extract_from_text_def cs run Let_def)
qed

section \<open>Ids\<close>



section \<open>Relations and qualities\<close>

lemma starts_with_iff: "starts_with p s \<longleftrightarrow> (\<exists>b. s = p @ b)"
  by (auto simp: starts_with_def) (metis append_take_drop_id)

lemma contains_text_iff: "contains_text p s \<longleftrightarrow> (\<exists>a b. s = a @ p @ b)"
proof (induction s)
  case (Cons c s)
  have "(\<exists>a b. c # s = a @ p @ b) \<longleftrightarrow> (\<exists>b. c # s = p @ b) \<or> (\<exists>a b. s = a @ p @ b)"
    by (metis append_Cons append_Nil list.sel(3) neq_Nil_conv)
  with Cons show ?case by (simp add: starts_with_iff)
qed simp

text \<open>A relation with \<open>must_be_recorded_within\<close> holds \<open>within\<close>, which stands before it in the table.\<close>

lemma contains_text_suffix: "contains_text (p @ q) s \<Longrightarrow> contains_text q s"
  unfolding contains_text_iff by (metis append.assoc)

lemma find_append: "find P (xs @ ys) = (case find P xs of None \<Rightarrow> find P ys | Some x \<Rightarrow> Some x)"
  by (induction xs) simp_all

lemma find_Some: "find P xs = Some x \<Longrightarrow> x \<in> set xs \<and> P x"
  by (induction xs) (auto split: if_splits)

lemma never_recorded_within: "guess_obligation_type rel \<noteq> ''must_be_recorded_within''"
proof
  let ?t = "py_strip (py_lower rel)" and ?P = "\<lambda>(needle :: string, ty :: string). contains_text needle (py_strip (py_lower rel))"
  assume "guess_obligation_type rel = ''must_be_recorded_within''"
  then obtain n where n: "find ?P relation_types = Some (n, ''must_be_recorded_within'')"
    by (auto simp: guess_obligation_type_def split: option.splits prod.splits)
  from find_Some [OF n] have "contains_text ''must_be_recorded_within'' ?t" by (auto simp: relation_types_def)
  then have within_text: "contains_text ''within'' ?t"
    using contains_text_suffix [of "''must_be_recorded_''" "''within''" ?t] by simp
  let ?low = "take 9 relation_types"
  have "find ?P ?low \<noteq> None" using within_text by (auto simp: find_None_iff relation_types_def)
  then obtain x where x: "find ?P ?low = Some x" by blast
  have "find ?P (?low @ drop 9 relation_types) = Some x" unfolding find_append x by simp
  with n have "x = (n, ''must_be_recorded_within'')" by simp
  with find_Some [OF x] show False by (simp add: relation_types_def)
qed

lemma implied_item:
  assumes "quality_text r = Some ''IMPLIED''" "dget_default r ''subject'' (PyStr []) = PyStr s"
    and "dget_default r ''relation'' (PyStr []) = PyStr rel" "dget_default r ''object'' (PyStr []) = PyStr ob"
    and "dget_default r ''source_clause'' (PyStr ''general'') = PyStr clause"
  shows "\<exists>rule. extract_item py_repr source k i (PyDict r) = Some [rule] \<and> xr_subject rule = s \<and> xr_relation rule = rel \<and> xr_object rule = ob"
  using assms by (simp add: extract_item_def compliance_rule_of_def opt_str_of_def)

section \<open>Properties\<close>

text \<open>
  When the chunking ends. For an accepted size and overlap, \<open>chunk_text\<close> returns on every text exactly
  when the overlap is at most half of the size and one more; then the chunks, each without what it shares with the
  one before, make up the text, and a chunk is at most one character longer than the size. With a greater overlap,
  which the code accepts, there is a text on which the loop never ends.
\<close>

theorem chunking_ends_iff:
  assumes "0 \<le> overlap" "overlap < max_size"
  shows "(\<forall>t. \<exists>cs. chunk_text t max_size overlap = Inr (Some cs) \<and> stitched (nat overlap) cs = t \<and>
      (\<forall>c \<in> set cs. int (length c) \<le> max_size + 1)) \<longleftrightarrow> overlap \<le> max_size div 2 + 1"
proof
  assume "\<forall>t. \<exists>cs. chunk_text t max_size overlap = Inr (Some cs) \<and> stitched (nat overlap) cs = t \<and>
      (\<forall>c \<in> set cs. int (length c) \<le> max_size + 1)"
  then have "chunk_text t max_size overlap \<noteq> Inr None" for t by (metis Inr_inject option.distinct(1))
  then have "\<not> max_size div 2 + 2 \<le> overlap" using stuck_text [of max_size overlap] assms(2) by blast
  then show "overlap \<le> max_size div 2 + 1" by simp
next
  assume o: "overlap \<le> max_size div 2 + 1"
  then show "\<forall>t. \<exists>cs. chunk_text t max_size overlap = Inr (Some cs) \<and> stitched (nat overlap) cs = t \<and>
      (\<forall>c \<in> set cs. int (length c) \<le> max_size + 1)" using chunk_text_covers [OF assms] by blast
qed


text \<open>
  A rule that the Anchor Constraint prohibits reaches the graph. An answer of the model that is marked
  \<open>IMPLIED\<close> is kept as a rule, and in every graph that is made with this rule it is an obligation of the type guessed
  from its relation, with its value: its quality is not in the graph.
\<close>

theorem implied_rule_is_emitted:
  assumes "quality_text r = Some ''IMPLIED''" "dget_default r ''subject'' (PyStr []) = PyStr s"
    and "dget_default r ''relation'' (PyStr []) = PyStr rel" "dget_default r ''object'' (PyStr []) = PyStr ob"
    and "dget_default r ''source_clause'' (PyStr ''general'') = PyStr clause"
  shows "\<exists>rule. extract_item py_repr source k i (PyDict r) = Some [rule] \<and>
    (\<forall>result data. rule \<in> set (ex_rules result) \<and> emit_v3_kg w fl now result jurisdiction name sector = Inr data \<longrightarrow>
      (\<exists>nodes. dget data ''nodes'' = PyDict nodes \<and> (\<exists>n \<in> set (node_list nodes ''obligations'').
        dget n ''obligation_type'' = PyStr (guess_obligation_type rel) \<and> dget n ''metric'' = PyStr (slug s) \<and>
        dget n ''value'' = value_from_object fl ob)))"
proof -
  from implied_item [OF assms] obtain rule where rule: "extract_item py_repr source k i (PyDict r) = Some [rule]"
      "xr_subject rule = s" "xr_relation rule = rel" "xr_object rule = ob" by blast
  have "\<exists>nodes. dget data ''nodes'' = PyDict nodes \<and> (\<exists>n \<in> set (node_list nodes ''obligations'').
        dget n ''obligation_type'' = PyStr (guess_obligation_type rel) \<and> dget n ''metric'' = PyStr (slug s) \<and>
        dget n ''value'' = value_from_object fl ob)"
    if "rule \<in> set (ex_rules result)" "emit_v3_kg w fl now result jurisdiction name sector = Inr data" for result data
  proof -
    from that(2) obtain md st jn where
      data: "data = [(''metadata'', PyDict md), (''nodes'', PyDict (emitted_nodes st jn)), (''edges'', PyList (map PyDict (mt_edges st)))]"
      and st: "emitted_for fl (ex_rules result) (slug jurisdiction) st"
      by (rule emit_v3_kg_Inr)
    have "list_all2 (obligation_fields fl) (ex_rules result) (mt_obligations st)" using st by (simp add: emitted_for_def)
    with that(1) obtain n where "n \<in> set (mt_obligations st)" "obligation_fields fl rule n"
      by (metis in_set_conv_nth list_all2_conv_all_nth)
    with rule show ?thesis
      by (intro exI [of _ "emitted_nodes st jn"]) (auto simp: data dget_def [of data] emitted_lists obligation_fields_def)
  qed
  with rule(1) show ?thesis by blast
qed


subsection \<open>Witnesses\<close>

theorem chunking_ends_iff_witness:
  "\<exists>cs. chunk_text ''The limit is 100 ppm.'' 10 4 = Inr (Some cs) \<and> stitched (nat 4) cs = ''The limit is 100 ppm.''"
  using chunking_ends_iff [of 4 10] by auto

lemma exact_filter: "exact_members d \<Longrightarrow> exact_members (filter P d)"
  by (induction d) auto

definition stamped :: "obj \<Rightarrow> obj" where
  "stamped node = alist_set ''version'' (PyStr ''sha256:'') node"

lemma blank_stamped: "exact_members node \<Longrightarrow> node_version blank_world node = Inr (stamped node)"
  using exact_canonical [OF sample_runtime_laws exact_filter [of node "\<lambda>(k, _). k \<noteq> ''version''"]]
  by (auto simp: node_version_def stamped_def sha256_canonical_def blank_world_def to_hex_def)

definition implied_answer :: obj where
  "implied_answer =
     [(''subject'', PyStr ''NOx''), (''relation'', PyStr ''must_not_exceed''), (''object'', PyStr ''100 ppm''),
      (''extraction_quality'', PyStr ''implied''), (''reasoning'', PyStr '''')]"

text \<open>The rule that this answer yields, but for its reasoning.\<close>

definition rule_with :: "string \<Rightarrow> compliance_rule" where
  "rule_with why =
     \<lparr>xr_id = ''rule_0_0_REJECTED'', xr_subject = ''NOx'', xr_relation = ''must_not_exceed'', xr_object = ''100 ppm'',
      xr_document = ''doc'', xr_clause = ''general'', xr_document_version = None, xr_quality = Quality_Discretionary,
      xr_reasoning = why, xr_effective = None, xr_sunset = None\<rparr>"

definition implied_rule :: compliance_rule where
  "implied_rule = rule_with rejection_text"

definition result_with :: "compliance_rule \<Rightarrow> extraction_result" where
  "result_with r =
     \<lparr>ex_rules = [r],
      ex_metadata = \<lparr>em_document = ''doc'', em_type = ''regulation'', em_sector = ''energy'', em_timestamp = ''2026-01-01'',
        em_total = 1, em_by_quality = [(Quality_Discretionary, 1)], em_backend = ''ollama'', em_model = ''m'',
        em_model_sha = None, em_temperature = Fin 0, em_seed = None, em_prompt_sha = None, em_version = ''3.0.0''\<rparr>,
      ex_warnings = []\<rparr>"

definition no_float :: "string \<Rightarrow> pyfloat" where
  "no_float s = NaN"

definition emitted_with :: "compliance_rule \<Rightarrow> emitted" where
  "emitted_with r =
     \<lparr>mt_subjects = [(subject_ref r, stamped (subject_node r))], mt_rules = [stamped (rule_node r)],
      mt_obligations = [stamped (obligation_node no_float ''2026-01-01'' r)],
      mt_citations = [stamped (citation_node r)], mt_edges = extracted_edges ''us'' r\<rparr>"

definition document_with :: "compliance_rule \<Rightarrow> obj" where
  "document_with r =
     [(''metadata'', PyDict (emit_metadata (result_with r) None ''2026-01-01'')),
      (''nodes'', PyDict (emitted_nodes (emitted_with r) (stamped (extracted_node ''us'' ''Jurisdiction'' [(''name'', PyStr ''US'')])))),
      (''edges'', PyList (map PyDict (mt_edges (emitted_with r))))]"

lemma implied_extracted: "extract_item (\<lambda>_. []) (''doc'', None) 0 0 (PyDict implied_answer) = Some [implied_rule]"
  by code_simp

lemma sample_emits: "emit_v3_kg blank_world no_float [] (result_with (rule_with why)) ''US'' None None = Inr (document_with (rule_with why))"
proof -
  let ?r = "rule_with why"
  have vals: "value_from_object no_float ''100 ppm'' = PyInt 100" "unit_from_object ''100 ppm'' = PyStr ''ppm''" "slug ''US'' = ''us''"
    by code_simp+
  have nodes: "exact_members (subject_node ?r)" "exact_members (rule_node ?r)" "exact_members (citation_node ?r)"
    "exact_members (obligation_node no_float ''2026-01-01'' ?r)"
    "exact_members (extracted_node ''us'' ''Jurisdiction'' [(''name'', PyStr ''US'')])"
    by (simp_all add: subject_node_def rule_node_def citation_node_def obligation_node_def extracted_node_def rule_with_def vals
        exact_int_limit_def py_opt_def)
  note versions = nodes [THEN blank_stamped]
  show ?thesis
    by (simp add: emit_v3_kg_def Let_def result_with_def vals versions emit_rule_def emit_subject_def no_emitted_def
        document_with_def emitted_with_def or_else_def py_opt_def truthy.simps)
qed






theorem implied_rule_is_emitted_witness:
  "\<exists>rule data nodes n. extract_item (\<lambda>_. []) (''doc'', None) 0 0 (PyDict implied_answer) = Some [rule] \<and>
     emit_v3_kg blank_world no_float [] (result_with implied_rule) ''US'' None None = Inr data \<and> dget data ''nodes'' = PyDict nodes \<and>
     n \<in> set (node_list nodes ''obligations'') \<and> dget n ''obligation_type'' = PyStr ''must_not_exceed'' \<and> dget n ''value'' = PyInt 100"
proof -
  have "rule_with rejection_text = implied_rule" by (simp add: implied_rule_def)
  then have emits: "emit_v3_kg blank_world no_float [] (result_with implied_rule) ''US'' None None = Inr (document_with implied_rule)"
    using sample_emits [of rejection_text] by simp
  have facts: "quality_text implied_answer = Some ''IMPLIED''" "dget_default implied_answer ''subject'' (PyStr []) = PyStr ''NOx''"
    "dget_default implied_answer ''relation'' (PyStr []) = PyStr ''must_not_exceed''"
    "dget_default implied_answer ''object'' (PyStr []) = PyStr ''100 ppm''"
    "dget_default implied_answer ''source_clause'' (PyStr ''general'') = PyStr ''general''"
    by code_simp+
  have fixed: "guess_obligation_type ''must_not_exceed'' = ''must_not_exceed''" "value_from_object no_float ''100 ppm'' = PyInt 100"
    by code_simp+
  from implied_rule_is_emitted [OF facts, where py_repr = "\<lambda>_. []" and source = "(''doc'', None)" and k = 0 and i = 0 and w = blank_world
      and fl = no_float and now = "[]" and jurisdiction = "''US''" and name = None and sector = None]
  obtain rule where "extract_item (\<lambda>_. []) (''doc'', None) 0 0 (PyDict implied_answer) = Some [rule]"
    and graph: "\<forall>result data. rule \<in> set (ex_rules result) \<and> emit_v3_kg blank_world no_float [] result ''US'' None None = Inr data \<longrightarrow>
      (\<exists>nodes. dget data ''nodes'' = PyDict nodes \<and> (\<exists>n \<in> set (node_list nodes ''obligations'').
        dget n ''obligation_type'' = PyStr ''must_not_exceed'' \<and> dget n ''metric'' = PyStr (slug ''NOx'') \<and> dget n ''value'' = PyInt 100))"
    unfolding fixed by blast
  then have "rule \<in> set (ex_rules (result_with implied_rule))" by (simp add: implied_extracted result_with_def)
  with graph emits obtain nodes n where "dget (document_with implied_rule) ''nodes'' = PyDict nodes" "n \<in> set (node_list nodes ''obligations'')"
      "dget n ''obligation_type'' = PyStr ''must_not_exceed''" "dget n ''value'' = PyInt 100"
    by blast
  with implied_extracted emits show ?thesis by blast
qed

end
