(* ===== verification/Spec2Isabelle.thy ===== *)
theory Spec2Isabelle
  imports Evaluation Telemetry_Buffer Ledger_Properties Transcript Service_Properties Startup_Properties Symbolic_Evaluator
    Cose Scitt_Properties Timestamping KG_Validator Replay KG_Extractor
begin

text \<open>
  Verification library of the SKI framework: a compliance runtime that lets a language model judge measurements
  against a signed Knowledge Graph, checks each answer with a symbolic verifier, and records every verdict in a
  hash-chained ledger. This header says what is modelled where, what is proved of it, on what the proofs rest, and
  what is left out. Paths are under \<open>src/\<close>; \<open>ski_model\<close>, \<open>telemetry_buffer\<close>, \<open>tag_registry\<close> and \<open>symbolic_evaluator\<close>
  are in \<open>reference-implementation/src\<close>, \<open>ski_schemas\<close>, \<open>audit_ledger\<close>, \<open>kg_validator\<close> and \<open>kg_extractor\<close> in \<open>tools\<close>.

  \<^bold>\<open>The parts of the program and how they meet.\<close>
  The startup (\<open>lifespan\<close> of \<open>ski_model/server.py\<close>) reads the settings, loads a Knowledge Graph, builds a model
  backend, opens the ledger and arms an egress guard; in strict mode each stage refuses what is not sovereign.
  \<open>POST /api/evaluate\<close> stores the record in the telemetry buffer, scopes the graph to the record, asks the model,
  lets the evaluator and the verifier decide, and appends verdict, envelope and signed transcript to the ledger.
  \<open>POST /api/kg/load\<close> exchanges the graph while evaluations wait. A background task signs Merkle checkpoints.
  Outside the process an auditor verifies the ledger, replays entries and checks SCITT statements; before it, an
  extractor drafts graphs and a validator lints them.

  \<^bold>\<open>Values.\<close>
  \<open>Prelude\<close> has the collections of simplification rules and lemmas on lists, folds and ASCII text. \<open>Py_Value\<close> has the
  Python values with \<open>==\<close>, \<open><=\<close>, \<open>in\<close>, truth and \<open>dict.get\<close>: an \<open>int\<close> is unbounded, a finite \<open>float\<close> is the rational
  it stands for, a dictionary is an association list in insertion order. \<open>Py_Number\<close> has \<open>int()\<close> and \<open>float()\<close>,
  \<open>Net_Address\<close> the \<open>ipaddress\<close> and \<open>urlsplit\<close> of the standard library. Bytes are \<open>8 word\<close>. A function that may
  raise returns a sum whose left side names the exception.

  \<^bold>\<open>Deciding one measurement.\<close>
  \<^item> \<open>Envelope\<close> (\<open>ski_schemas/envelope.py\<close>): verdicts, statuses, assertions and the envelope as datatypes and records.
  \<^item> \<open>Predicates\<close> (\<open>ski_model/v3/verifier.py\<close>, handlers): each numeric handler decides an abstract bound on rationals.
  \<^item> \<open>Verifier\<close> (the rest of that file): grounding, index of the slice, tally, report, normalisation, input checks.
    The locale \<open>checker\<close> is what the tally needs of a check of one assertion; it is interpreted for the synchronous
    and for the asynchronous check, and gives the exact condition for AGREED.
  \<^item> \<open>Risk_Policy\<close> (\<open>policies/risk_tier.py\<close>, \<open>tag_registry/registry.py\<close>): tiers, governor and policy.
  \<^item> \<open>Evaluator\<close> (\<open>ski_model/v3/evaluator.py\<close>) has the whole of \<open>aevaluate_with_transcript\<close>; \<open>Transcript\<close>
    (\<open>ski_schemas/transcript.py\<close>) the prompt, its hashes and the recovery of its inputs. \<open>Evaluation\<close> proves what one
    evaluation guarantees for every answer of the model: no breach ships CLEAR or NULL_UNMAPPED, what a CLEAR
    rests on at each tier, that hidden obligations fail closed, and which answers raise.
  \<^item> \<open>Telemetry_Buffer\<close> (\<open>telemetry_buffer/buffer.py\<close>): append and queries. The locale \<open>sample_store\<close> is what the
    freshness gate needs of a store, interpreted on the buffer. \<open>Agreement_Monitor\<close> is the rolling window of statuses,
    \<open>Symbolic_Evaluator\<close> the older rule language, related to the predicates of the verifier.
  \<^item> \<open>Backends\<close> (\<open>ski_model/v3/backends\<close>): selection, the pin on the weights, and the reading of an answer.

  \<^bold>\<open>Knowledge Graphs.\<close>
  \<open>KG_Graph\<close> (\<open>ski_model/kg_graph.py\<close>) compiles typed nodes and edges to obligations; \<open>KG_Loader\<close>
  (\<open>ski_model/kg_loader.py\<close>) has trust anchors, signatures, loading and scoping, with \<open>dated\<close>, \<open>in_force_at\<close>,
  \<open>applies_in\<close> and \<open>applies_to\<close> as the declarative reading of scoping; \<open>Flat_Graph\<close> (\<open>ski_schemas/kg_graph.py\<close>) converts
  the older flat shape; \<open>KG_Validator\<close> (\<open>kg_validator\<close>) has the loader and passes of the validator, what a clean result
  means and that the runtime compiles what is clean; \<open>KG_Extractor\<close> (\<open>kg_extractor\<close>) has chunking, the reading of model
  answers and the emitted graph, which is followed through validator and compiler.

  \<^bold>\<open>Ledger and evidence.\<close>
  \<^item> \<open>Canonical\<close> and \<open>Canonical_Reading\<close> (\<open>ski_schemas/canonical.py\<close>): RFC 8785 text with the strict parser; equal bytes
    mean equal values. \<open>Merkle\<close> (\<open>ski_schemas/merkle.py\<close>): RFC 6962 trees; the locale \<open>path_simulation\<close> relates the loop
    of the code to the tree and is interpreted for left and right siblings.
  \<^item> \<open>Ledger\<close> (\<open>ski_model/ledger_client.py\<close>, \<open>ski_schemas/ledger.py\<close>) is the writer on its three tables; \<open>Ledger_Audit\<close>
    (\<open>audit_ledger/ledger.py\<close>) the audit. \<open>Ledger_Chain\<close> and \<open>Ledger_Binding\<close> show what a hash and a chain bind,
    \<open>Ledger_Run\<close> has the runs of the writer as the inductive relation \<open>ledger_run\<close>, \<open>Ledger_Properties\<close> the
    specification that the audit decides, completeness for honest ledgers and binding for accepted ones.
  \<^item> \<open>Cose\<close>, \<open>Scitt\<close>, \<open>Scitt_Properties\<close> (\<open>ski_schemas/cose.py\<close>, \<open>scitt.py\<close>, \<open>ski_model/evidence.py\<close>): CBOR, COSE_Sign1,
    statements and receipts. \<open>Timestamping\<close>: the DER of RFC 3161. \<open>Replay\<close> (\<open>audit_ledger/replay.py\<close>): the replay of
    entries and what a clean report stands for.

  \<^bold>\<open>The service.\<close>
  \<^item> \<open>Sovereignty\<close> (\<open>ski_model/sovereignty.py\<close>): checks, enforcement and the guard as a state machine over calls.
  \<^item> \<open>Service\<close> (\<open>server.py\<close>): the record \<open>service\<close> is \<open>_State\<close> with the database; an evaluation is a value of
    \<open>phase\<close>, and \<open>progress\<close> moves it from one wait to the next. \<open>Service_Paths\<close> and \<open>Service_Graph\<close> follow one evaluation
    and the graph; \<open>Service_Run\<close> has the interleavings as \<open>service_step\<close> and \<open>service_run\<close>: arrivals, resumptions in
    any order, graph loads, checkpoints and guarded calls. \<open>Service_Properties\<close> has the invariants and the paths.
  \<^item> \<open>Startup\<close> and \<open>Startup_Properties\<close>: the staged startup, migrations, keys and endpoints; what a service that has
    started guarantees, composed with its runs.

  \<^bold>\<open>Parameters and laws.\<close>
  What is not in the repository is an argument. The record \<open>world\<close> has SHA-256, NFC, \<open>float\<close> and \<open>repr\<close>, the scanner of
  JSON, jsonb normalisation and the ISO forms of times; \<open>crypto\<close> has PEM parsing, key ids and Ed25519; \<open>deployment\<close> and \<open>site\<close>
  have the environment, files, model servers and database answers; \<open>db_arith\<close> is the numeric arithmetic of Postgres.
  Laws are named hypotheses: \<open>runtime_laws\<close> and \<open>ascii_stable\<close> (printing and rounding of numbers, NFC on ASCII),
  \<open>storage_laws\<close> and \<open>transcript_law\<close> (stored text reads back), \<open>honest_signer\<close> (what a key signs verifies). No law says
  that a hash has no collision: the binding theorems have a collision as their other case. Every law is
  instantiated in a witness.

  \<^bold>\<open>Bounds and atomicity.\<close>
  Loops of the code are structural recursion, folds, or recursion with a measure. The chunking loop, which need not
  end, is a partial function with \<open>None\<close> for no result, and when it ends is a theorem. The phases of an evaluation
  need no fuel to be defined; \<open>run_phases\<close> takes a number of steps only to follow one evaluation to its end, which 5
  steps reach, since each step lowers a rank that starts at 5 or less. CBOR takes the depth at which Python gives up a recursion as an argument; the statements
  and receipts of the framework need a depth of 6. The step from the model's answer to the envelope (\<open>decide\<close>) is one step: the awaits of
  the verifier and of the freshness gate only read the telemetry buffer, so what another evaluation may insert in
  between is not seen there. Statements on the database are atomic and each answers.

  \<^bold>\<open>Not modelled.\<close>
  Field validation of pydantic, where it is not written out, is a contract parameter; texts of log lines, reasons and
  issues are datatypes or left out. Text is ASCII where case, white space or digits matter. Metrics, the ML-BOM, the
  TRACE record and read-only endpoints copy what other parts computed; OpenSSF model signatures are an answer of the
  site; the sidecar, the command lines, the SDK, the deployment tool, evaluations, benchmarks and the conformance suite
  are input and output around the modelled parts.

  \<^bold>\<open>What the model showed.\<close>
  Several theorems state what the code does where its comments or documents say otherwise, among them
  \<open>emptied_ledger_passes\<close>, \<open>windowed_claim_evades_grounding\<close>, \<open>load_renames_graph_in_flight\<close>, \<open>second_append_is_refused\<close>,
  \<open>universal_jurisdiction_is_lost\<close>, \<open>attached_receipt_is_not_bound\<close>, \<open>shared_id_passes\<close>, \<open>naive_date_stops_scoping\<close>,
  \<open>tls_check_passes_in_plaintext\<close>, \<open>chunking_ends_iff\<close> and \<open>implied_rule_is_emitted\<close>.
\<close>

end
